(* ===== verification/Prelude.thy ===== *)
theory Prelude
  imports Complex_Main "HOL-Library.Word"
begin

text \<open>
  Shared vocabulary of the development: the machine integers of the C++ sources, the
  result type of operations that throw, generic lemmas on lists and words, and the
  interface of an encoder with its decoder, which the radio, text and wire formats
  of the program provide.
\<close>

unbundle bit_operations_syntax

section \<open>Machine integers and results\<close>

type_synonym u8 = "8 word"
type_synonym u16 = "16 word"
type_synonym u32 = "32 word"
type_synonym u64 = "64 word"

text \<open>\<open>double(w)\<close> of an unsigned integer below 2^53.\<close>

definition rat_of_word :: "'a::len word \<Rightarrow> rat" where
  "rat_of_word w = of_nat (unat w)"

lemma rat_of_word_ge_0 [simp]: "0 \<le> rat_of_word w"
  unfolding rat_of_word_def by (rule of_nat_0_le_iff)

lemma rat_of_word_le [simp]: "rat_of_word v \<le> rat_of_word w \<longleftrightarrow> v \<le> w"
  unfolding rat_of_word_def by (simp only: of_nat_le_iff word_le_nat_alt)

lemma rat_of_word_eq_0 [simp]: "rat_of_word w = 0 \<longleftrightarrow> w = 0"
  unfolding rat_of_word_def by (simp only: of_nat_eq_0_iff unat_eq_zero)

lemma rat_of_word_numeral [simp]: "rat_of_word (numeral n :: 'a::len word) = of_nat (unat (numeral n :: 'a word))"
  unfolding rat_of_word_def ..

text \<open>
  An operation that throws returns \<open>Inl\<close> of the message of the exception; \<open>guard_err\<close>
  is the statement \<open>if (bad) throw std::runtime_error(message)\<close>.
\<close>

type_synonym 'a result = "string + 'a"

definition bind_result :: "'a result \<Rightarrow> ('a \<Rightarrow> 'b result) \<Rightarrow> 'b result" where
  "bind_result r f = (case r of Inl e \<Rightarrow> Inl e | Inr x \<Rightarrow> f x)"

definition guard_err :: "bool \<Rightarrow> string \<Rightarrow> unit result" where
  "guard_err bad e = (if bad then Inl e else Inr ())"

definition is_ok :: "'a result \<Rightarrow> bool" where
  "is_ok r = (case r of Inl _ \<Rightarrow> False | Inr _ \<Rightarrow> True)"

named_theorems result_simps "evaluation and inversion of results"

lemma bind_result_simps [simp, result_simps]:
  "bind_result (Inl e) f = Inl e"
  "bind_result (Inr x) f = f x"
  by (simp_all add: bind_result_def)

lemma bind_result_Inr [result_simps]:
  "bind_result r f = Inr y \<longleftrightarrow> (\<exists>x. r = Inr x \<and> f x = Inr y)"
  by (cases r) simp_all

lemma guard_err_Inr [simp, result_simps]: "guard_err bad e = Inr u \<longleftrightarrow> \<not> bad"
  by (simp add: guard_err_def)

lemma guard_err_Inl [simp, result_simps]: "guard_err bad e = Inl e' \<longleftrightarrow> bad \<and> e' = e"
  by (auto simp: guard_err_def)

lemma guard_err_bind [result_simps]:
  "bind_result (guard_err bad e) f = (if bad then Inl e else f ())"
  by (simp add: guard_err_def)

lemma is_ok_simps [simp, result_simps]: "\<not> is_ok (Inl e)" "is_ok (Inr x)"
  by (simp_all add: is_ok_def)

lemma is_ok_iff: "is_ok r \<longleftrightarrow> (\<exists>x. r = Inr x)"
  by (cases r) simp_all

text \<open>A loop over a sequence with its index, left by the first exception.\<close>

fun for_each :: "(nat \<Rightarrow> 'a \<Rightarrow> unit result) \<Rightarrow> nat \<Rightarrow> 'a list \<Rightarrow> unit result" where
  "for_each f i [] = Inr ()"
| "for_each f i (x # xs) = bind_result (f i x) (\<lambda>_. for_each f (Suc i) xs)"

lemma for_each_Inr:
  "for_each f i xs = Inr () \<longleftrightarrow> (\<forall>j<length xs. f (i + j) (xs ! j) = Inr ())"
proof (induction xs arbitrary: i)
  case Nil
  then show ?case by simp
next
  case (Cons x xs)
  have "(\<forall>j<length (x # xs). f (i + j) ((x # xs) ! j) = Inr ()) \<longleftrightarrow>
      f i x = Inr () \<and> (\<forall>j<length xs. f (Suc i + j) (xs ! j) = Inr ())"
    by (auto simp: less_Suc_eq_0_disj)
  with Cons.IH show ?case
    by (cases "f i x") auto
qed

text \<open>The en dash of the program's messages, as its three bytes of UTF-8.\<close>

definition en_dash :: string where
  "en_dash = [CHR 0xE2, CHR 0x80, CHR 0x93]"

section \<open>Characters as bytes\<close>

text \<open>\<open>static_cast<unsigned char>(c)\<close> and its inverse.\<close>

definition byte_of :: "char \<Rightarrow> u8" where
  "byte_of c = word_of_nat (of_char c)"

definition char_of_byte :: "u8 \<Rightarrow> char" where
  "char_of_byte b = char_of (unat b)"

lemma of_char_less_256: "(of_char c :: nat) < 256"
  by (cases c) (simp split: bool.splits)

lemma unat_byte_of: "unat (byte_of c) = of_char c"
  using of_char_less_256 [of c]
  by (simp add: byte_of_def unat_of_nat)

lemma char_of_byte_of [simp]: "char_of_byte (byte_of c) = c"
  by (simp add: char_of_byte_def unat_byte_of)

lemma byte_of_char_of_byte [simp]: "byte_of (char_of_byte b) = b"
proof -
  have "unat b < 256" by (rule order.strict_trans2 [OF unsigned_less]) simp
  then show ?thesis
    by (simp add: byte_of_def char_of_byte_def of_char_of)
qed

lemma byte_of_inject [simp]: "byte_of c = byte_of d \<longleftrightarrow> c = d"
  by (metis char_of_byte_of)

section \<open>Bits of words\<close>

lemma bit_word_ge: "LENGTH('a) \<le> n \<Longrightarrow> \<not> bit (w :: 'a::len word) n"
  using bit_imp_le_length [of w n] by auto

lemma drop_bit_1_mask_bit: "bit ((drop_bit m w AND 1) :: 'a::len word) k \<longleftrightarrow> k = 0 \<and> bit w m"
  by (auto simp: bit_and_iff bit_drop_bit_eq bit_1_iff)

lemma bit_push_one_bit:
  "bit (push_bit s (drop_bit m w AND 1) :: 'a::len word) k \<longleftrightarrow> k = s \<and> k < LENGTH('a) \<and> bit w m"
  unfolding bit_push_bit_iff drop_bit_1_mask_bit by auto

lemma nat_less_2p_iff_bits: "(m :: nat) < 2 ^ n \<longleftrightarrow> (\<forall>k\<ge>n. \<not> bit m k)"
proof -
  have "m < 2 ^ n \<longleftrightarrow> take_bit n m = m"
    by (simp add: take_bit_nat_eq_self_iff)
  also have "\<dots> \<longleftrightarrow> (\<forall>k. bit (take_bit n m) k = bit m k)"
    by (metis bit_eqI)
  also have "\<dots> \<longleftrightarrow> (\<forall>k\<ge>n. \<not> bit m k)"
    unfolding bit_take_bit_iff by (meson not_less)
  finally show ?thesis .
qed

lemma bit_unat: "bit (unat (w :: 'a::len word)) k = bit w k"
  by (simp add: bit_unsigned_iff)

lemma word_less_2p_iff_bits:
  "unat (w :: 'a::len word) < 2 ^ n \<longleftrightarrow> (\<forall>k\<ge>n. \<not> bit w k)"
  unfolding nat_less_2p_iff_bits bit_unat ..

section \<open>Loops that OR single bits into an array\<close>

text \<open>
  The interleaver and the deinterleaver are loops of the form
  \<open>for x: a[f(x)] |= g(x)\<close>. \<open>or_loop\<close> is that loop; its result is described bit by bit.
\<close>

definition or_loop :: "('x \<Rightarrow> nat) \<Rightarrow> ('x \<Rightarrow> 'a::len word) \<Rightarrow> 'x list \<Rightarrow> 'a word list \<Rightarrow> 'a word list" where
  "or_loop f g xs a = fold (\<lambda>x b. b[f x := b ! f x OR g x]) xs a"

lemma length_or_loop [simp]: "length (or_loop f g xs a) = length a"
  unfolding or_loop_def by (induction xs arbitrary: a) simp_all

lemma bit_or_loop:
  assumes "r < length a"
  shows "bit (or_loop f g xs a ! r) k \<longleftrightarrow> bit (a ! r) k \<or> (\<exists>x\<in>set xs. f x = r \<and> bit (g x) k)"
  using assms unfolding or_loop_def
proof (induction xs arbitrary: a)
  case Nil
  then show ?case by simp
next
  case (Cons x xs)
  let ?a = "a[f x := a ! f x OR g x]"
  have "bit (fold (\<lambda>x b. b[f x := b ! f x OR g x]) xs ?a ! r) k \<longleftrightarrow>
      bit (?a ! r) k \<or> (\<exists>y\<in>set xs. f y = r \<and> bit (g y) k)"
    using Cons.prems by (intro Cons.IH) simp
  then show ?case
    using Cons.prems by (cases "f x = r") (auto simp: bit_or_iff)
qed

section \<open>The interface of an encoder with its decoder\<close>

text \<open>
  Every format the program both writes and reads has an encoder, total on the values it
  accepts, and a decoder that may refuse its input. \<open>codec\<close> states the contract; its
  lemmas hold for each format by interpretation.
\<close>

locale codec =
  fixes enc :: "'a \<Rightarrow> 'b"
    and dec :: "'b \<Rightarrow> 'a option"
    and ok :: "'a \<Rightarrow> bool"
  assumes round_trip: "ok x \<Longrightarrow> dec (enc x) = Some x"
begin

lemma enc_injective: "ok x \<Longrightarrow> ok y \<Longrightarrow> enc x = enc y \<Longrightarrow> x = y"
  by (metis option.inject round_trip)

lemma enc_inj_on: "inj_on enc {x. ok x}"
  by (auto intro: inj_onI enc_injective)

lemma dec_refuses_nothing_encoded: "ok x \<Longrightarrow> dec (enc x) \<noteq> None"
  by (simp add: round_trip)

end

text \<open>A codec whose decoder accepts only what its encoder writes.\<close>

locale canonical_codec = codec +
  assumes canonical: "dec y = Some x \<Longrightarrow> ok x \<and> y = enc x"
begin

lemma dec_iff: "dec y = Some x \<longleftrightarrow> ok x \<and> y = enc x"
  using canonical round_trip by blast

lemma dec_injective: "dec y = Some x \<Longrightarrow> dec z = Some x \<Longrightarrow> y = z"
  using canonical by blast

end

section \<open>Lists\<close>

lemma nth_append_ge: "length xs \<le> i \<Longrightarrow> (xs @ ys) ! i = ys ! (i - length xs)"
  by (simp add: nth_append)

lemma list_all_upt: "list_all P [0..<n] \<longleftrightarrow> (\<forall>i<n. P i)"
  by (auto simp: list_all_iff)

lemma map_nth_upt_take: "n \<le> length xs \<Longrightarrow> map ((!) xs) [0..<n] = take n xs"
  by (rule nth_equalityI) auto

end
