(* ===== verification/CircularQueues.thy ===== *)
theory CircularQueues
  imports Prelude
begin

text \<open>
  Circular queues in fixed arrays, as the background workers keep them
  (\<open>discovery_worker.cpp\<close>): a head and a number of entries, the first free position
  following from them. The queue is the list of its entries, oldest first; each operation
  on the array is the list operation, as long as there is room.
\<close>

record 'a ring =
  ring_cells :: "'a list"
  ring_head :: nat
  ring_count :: nat

definition ring_at :: "'a ring \<Rightarrow> nat \<Rightarrow> nat" where
  "ring_at r i = (ring_head r + i) mod length (ring_cells r)"

definition ring_list :: "'a ring \<Rightarrow> 'a list" where
  "ring_list r = map (\<lambda>i. ring_cells r ! ring_at r i) [0..<ring_count r]"

definition ring_ok :: "nat \<Rightarrow> 'a ring \<Rightarrow> bool" where
  "ring_ok n r \<longleftrightarrow> 0 < n \<and> length (ring_cells r) = n \<and> ring_head r < n \<and> ring_count r \<le> n"

definition new_ring :: "nat \<Rightarrow> 'a \<Rightarrow> 'a ring" where
  "new_ring n x = \<lparr>ring_cells = replicate n x, ring_head = 0, ring_count = 0\<rparr>"

text \<open>Only called when there is room.\<close>

definition ring_push :: "'a \<Rightarrow> 'a ring \<Rightarrow> 'a ring" where
  "ring_push x r = r\<lparr>ring_cells := (ring_cells r)[ring_at r (ring_count r) := x], ring_count := ring_count r + 1\<rparr>"

definition ring_pop :: "'a ring \<Rightarrow> 'a ring" where
  "ring_pop r = r\<lparr>ring_head := ring_at r 1, ring_count := ring_count r - 1\<rparr>"

definition ring_first :: "'a ring \<Rightarrow> 'a" where
  "ring_first r = ring_cells r ! ring_head r"

definition ring_set :: "nat \<Rightarrow> 'a \<Rightarrow> 'a ring \<Rightarrow> 'a ring" where
  "ring_set i x r = r\<lparr>ring_cells := (ring_cells r)[ring_at r i := x]\<rparr>"

text \<open>Entry \<open>k\<close> leaves; the later ones move up by one.\<close>

definition ring_remove :: "nat \<Rightarrow> 'a ring \<Rightarrow> 'a ring" where
  "ring_remove k r =
     (if k = 0 then ring_pop r
      else r\<lparr>ring_cells := fold (\<lambda>i cs. cs[ring_at r i := cs ! ring_at r (i + 1)]) [k..<ring_count r - 1] (ring_cells r),
        ring_count := ring_count r - 1\<rparr>)"

text \<open>\<open>take_*\<close>: the entries, and the ring left empty.\<close>

fun ring_drain :: "nat \<Rightarrow> 'a ring \<Rightarrow> 'a list \<Rightarrow> 'a list \<times> 'a ring" where
  "ring_drain 0 r out = (out, r)"
| "ring_drain (Suc n) r out = ring_drain n (ring_pop r) (out @ [ring_first r])"

section \<open>The array is the list\<close>

lemma mod_offset_inj:
  assumes "i < n" "j < n" "(h + i) mod n = (h + j) mod n"
  shows "i = (j :: nat)"
proof -
  have aux: "i = j" if "i \<le> j" "j < n" "(h + j) mod n = (h + i) mod n" for i j
  proof -
    have "n dvd (h + j) - (h + i)"
      using that by (intro mod_eq_dvd_iff_nat [THEN iffD1]) simp_all
    then have "n dvd j - i" by simp
    then show ?thesis using that by (auto dest: dvd_imp_le)
  qed
  show ?thesis using assms aux [of i j] aux [of j i] by (cases "i \<le> j") simp_all
qed

named_theorems ring_simps "operations on circular queues as operations on lists"

lemma ring_at_less [simp]: "ring_ok n r \<Longrightarrow> ring_at r i < n" "ring_ok n r \<Longrightarrow> ring_at r i < length (ring_cells r)"
  by (simp_all add: ring_at_def ring_ok_def)

lemma ring_at_inj: "ring_ok n r \<Longrightarrow> i < n \<Longrightarrow> j < n \<Longrightarrow> ring_at r i = ring_at r j \<longleftrightarrow> i = j"
  unfolding ring_at_def ring_ok_def by (auto dest: mod_offset_inj)

lemma ring_cell_update:
  "ring_ok n r \<Longrightarrow> i < n \<Longrightarrow> j < n \<Longrightarrow> length cs = n \<Longrightarrow>
    cs[ring_at r i := x] ! ring_at r j = (if i = j then x else cs ! ring_at r j)"
  by (simp add: nth_list_update ring_at_inj)

lemma length_ring_list [simp]: "length (ring_list r) = ring_count r"
  by (simp add: ring_list_def)

lemma ring_list_nth: "i < ring_count r \<Longrightarrow> ring_list r ! i = ring_cells r ! ring_at r i"
  by (simp add: ring_list_def)

lemma new_ring_list [ring_simps]: "ring_list (new_ring n x) = []" "0 < n \<Longrightarrow> ring_ok n (new_ring n x)"
  by (simp_all add: ring_list_def new_ring_def ring_ok_def)

lemma ring_push_list [ring_simps]:
  assumes "ring_ok n r" "ring_count r < n"
  shows "ring_list (ring_push x r) = ring_list r @ [x]" "ring_ok n (ring_push x r)"
proof -
  have at: "ring_at (ring_push x r) i = ring_at r i" for i by (simp add: ring_at_def ring_push_def)
  have len: "length (ring_cells r) = n" using assms(1) by (simp add: ring_ok_def)
  have cells: "ring_cells (ring_push x r) = (ring_cells r)[ring_at r (ring_count r) := x]"
    "ring_count (ring_push x r) = Suc (ring_count r)"
    by (simp_all add: ring_push_def)
  have "ring_list (ring_push x r) ! i = (ring_list r @ [x]) ! i" if "i < Suc (ring_count r)" for i
    using that assms(2) ring_cell_update [OF assms(1) assms(2) _ len, of i]
    by (auto simp: ring_list_nth cells at nth_append less_Suc_eq)
  then show "ring_list (ring_push x r) = ring_list r @ [x]"
    by (intro nth_equalityI) (simp_all add: cells)
  show "ring_ok n (ring_push x r)" using assms by (simp add: ring_ok_def ring_push_def)
qed

lemma ring_pop_list [ring_simps]:
  assumes "ring_ok n r" "0 < ring_count r"
  shows "ring_list r = ring_first r # ring_list (ring_pop r)" "ring_ok n (ring_pop r)"
proof -
  have n: "length (ring_cells r) = n" "ring_head r < n" using assms(1) by (simp_all add: ring_ok_def)
  have at: "ring_at (ring_pop r) i = ring_at r (Suc i)" for i
    using n by (simp add: ring_at_def ring_pop_def mod_add_left_eq)
  have first: "ring_first r = ring_cells r ! ring_at r 0"
    using n by (simp add: ring_first_def ring_at_def)
  have cells: "ring_cells (ring_pop r) = ring_cells r" "ring_count (ring_pop r) = ring_count r - 1"
    by (simp_all add: ring_pop_def)
  show "ring_list r = ring_first r # ring_list (ring_pop r)"
    using assms(2) by (intro nth_equalityI) (auto simp: cells ring_list_nth first at nth_Cons split: nat.splits)
  show "ring_ok n (ring_pop r)" using assms by (auto simp: ring_ok_def ring_pop_def ring_at_def)
qed

lemma ring_set_list [ring_simps]:
  assumes "ring_ok n r" "i < ring_count r"
  shows "ring_list (ring_set i x r) = (ring_list r)[i := x]" "ring_ok n (ring_set i x r)"
proof -
  have at: "ring_at (ring_set i x r) k = ring_at r k" for k by (simp add: ring_at_def ring_set_def)
  have n: "length (ring_cells r) = n" "ring_count r \<le> n" using assms(1) by (simp_all add: ring_ok_def)
  have cells: "ring_count (ring_set i x r) = ring_count r" "ring_cells (ring_set i x r) = (ring_cells r)[ring_at r i := x]"
    by (simp_all add: ring_set_def)
  have "ring_list (ring_set i x r) ! k = (ring_list r)[i := x] ! k" if "k < ring_count r" for k
    using that assms(2) n(2) ring_cell_update [OF assms(1) _ _ n(1), of i k]
    by (simp add: ring_list_nth cells at nth_list_update)
  then show "ring_list (ring_set i x r) = (ring_list r)[i := x]"
    by (intro nth_equalityI) (simp_all add: cells)
  show "ring_ok n (ring_set i x r)" using assms by (simp add: ring_ok_def ring_set_def)
qed

lemma ring_shift:
  assumes ok: "ring_ok n r" and m: "k \<le> m" "m < n" and j: "j < n"
  defines "cs \<equiv> fold (\<lambda>i cs. cs[ring_at r i := cs ! ring_at r (i + 1)]) [k..<m] (ring_cells r)"
  shows "length cs = n \<and> cs ! ring_at r j = (if k \<le> j \<and> j < m then ring_cells r ! ring_at r (j + 1) else ring_cells r ! ring_at r j)"
  using m j unfolding cs_def
proof (induction m arbitrary: j rule: dec_induct)
  case base
  then show ?case using ok by (auto simp: ring_ok_def)
next
  case (step m)
  let ?f = "\<lambda>i cs. cs[ring_at r i := cs ! ring_at r (i + 1)]"
  let ?cs = "fold ?f [k..<m] (ring_cells r)"
  have cs: "fold ?f [k..<Suc m] (ring_cells r) = ?cs[ring_at r m := ?cs ! ring_at r (m + 1)]"
    using step.hyps by simp
  have len: "length ?cs = n" using step.IH [of 0] step.prems by simp
  have "?cs ! ring_at r (m + 1) = ring_cells r ! ring_at r (m + 1)"
    using step.IH [of "m + 1"] step.prems by simp
  then show ?case
    unfolding cs using step.IH [of j] step.prems step.hyps len
    by (auto simp: ring_cell_update [OF ok] less_Suc_eq)
qed

lemma ring_remove_list [ring_simps]:
  assumes "ring_ok n r" "k < ring_count r"
  shows "ring_list (ring_remove k r) = take k (ring_list r) @ drop (Suc k) (ring_list r)" "ring_ok n (ring_remove k r)"
proof -
  have "ring_list (ring_remove k r) = take k (ring_list r) @ drop (Suc k) (ring_list r) \<and> ring_ok n (ring_remove k r)"
  proof (cases "k = 0")
    case True
    then show ?thesis using ring_pop_list [OF assms(1)] assms(2) by (simp add: ring_remove_def)
  next
    case False
    have n: "length (ring_cells r) = n" "ring_count r \<le> n" using assms(1) by (simp_all add: ring_ok_def)
    let ?m = "ring_count r - 1"
    note sh = ring_shift [OF assms(1), of k ?m]
    have len: "length (ring_cells (ring_remove k r)) = n"
      using sh [of 0] False assms n by (simp add: ring_remove_def)
    have at: "ring_at (ring_remove k r) i = ring_at r i" for i
      unfolding ring_at_def len using False n by (simp add: ring_remove_def)
    have cnt: "ring_count (ring_remove k r) = ?m" using False by (simp add: ring_remove_def)
    have nth: "ring_list (ring_remove k r) ! j = ring_list r ! (if k \<le> j then j + 1 else j)" if j: "j < ?m" for j
      using that sh [of j] False assms n by (simp add: ring_list_nth cnt at) (simp add: ring_remove_def)
    have "ring_list (ring_remove k r) = take k (ring_list r) @ drop (Suc k) (ring_list r)"
      using assms(2) by (intro nth_equalityI) (auto simp: cnt nth nth_append)
    moreover have "ring_ok n (ring_remove k r)"
      using assms len False by (auto simp: ring_ok_def cnt) (simp_all add: ring_remove_def)
    ultimately show ?thesis by blast
  qed
  then show "ring_list (ring_remove k r) = take k (ring_list r) @ drop (Suc k) (ring_list r)" "ring_ok n (ring_remove k r)"
    by blast+
qed

lemma ring_drain_list [ring_simps]:
  "ring_ok n r \<Longrightarrow> fst (ring_drain (ring_count r) r out) = out @ ring_list r \<and>
    ring_list (snd (ring_drain (ring_count r) r out)) = [] \<and> ring_ok n (snd (ring_drain (ring_count r) r out))"
proof (induction "ring_count r" arbitrary: r out)
  case 0
  then show ?case by (simp add: ring_list_def)
next
  case (Suc m)
  have c: "ring_count (ring_pop r) = m" using Suc.hyps(2) by (simp add: ring_pop_def)
  note p = ring_pop_list [OF Suc.prems, unfolded Suc.hyps(2) [symmetric], OF zero_less_Suc]
  show ?case
    using Suc.hyps(1) [OF c [symmetric] p(2), of "out @ [ring_first r]"] p(1)
    by (simp add: c Suc.hyps(2) [symmetric])
qed

section \<open>The contract of a bounded queue\<close>

locale bounded_queue =
  fixes items :: "'q \<Rightarrow> 'a list" and good :: "'q \<Rightarrow> bool" and push :: "'a \<Rightarrow> 'q \<Rightarrow> 'q" and pop :: "'q \<Rightarrow> 'q"
    and top :: "'q \<Rightarrow> 'a" and capacity :: nat
  assumes bounded: "good q \<Longrightarrow> length (items q) \<le> capacity"
    and pushed: "good q \<Longrightarrow> length (items q) < capacity \<Longrightarrow> items (push x q) = items q @ [x] \<and> good (push x q)"
    and popped: "good q \<Longrightarrow> items q \<noteq> [] \<Longrightarrow> items q = top q # items (pop q) \<and> good (pop q)"
begin

text \<open>What arrives at a full queue is lost; the queue holds the oldest entries.\<close>

definition offer :: "'a \<Rightarrow> 'q \<Rightarrow> 'q" where
  "offer x q = (if length (items q) = capacity then q else push x q)"

lemma offer_all: "good q \<Longrightarrow> good (fold offer xs q) \<and> items (fold offer xs q) = take capacity (items q @ xs)"
proof (induction xs arbitrary: q)
  case Nil
  then show ?case using bounded [of q] by simp
next
  case (Cons x xs)
  show ?case
  proof (cases "length (items q) = capacity")
    case True
    then show ?thesis using Cons.IH [OF Cons.prems] by (simp add: offer_def)
  next
    case False
    then have "length (items q) < capacity" using bounded [OF Cons.prems] by simp
    from pushed [OF Cons.prems this] have "items (push x q) = items q @ [x]" "good (push x q)" by blast+
    then show ?thesis using Cons.IH [of "push x q"] False by (simp add: offer_def)
  qed
qed

lemma fifo: "good q \<Longrightarrow> k < length (items q) \<Longrightarrow> top ((pop ^^ k) q) = items q ! k"
proof -
  have "good q \<Longrightarrow> k \<le> length (items q) \<Longrightarrow> items ((pop ^^ k) q) = drop k (items q) \<and> good ((pop ^^ k) q)" for k
  proof (induction k)
    case 0
    then show ?case by simp
  next
    case (Suc k)
    then have i: "items ((pop ^^ k) q) = drop k (items q)" "good ((pop ^^ k) q)" by simp_all
    then have "items ((pop ^^ k) q) \<noteq> []" using Suc.prems by simp
    from popped [OF i(2) this] i(1) show ?case
      by (metis drop_Suc funpow.simps(2) list.sel(3) o_apply tl_drop)
  qed
  note items_pop = this
  assume "good q" "k < length (items q)"
  then have i: "items ((pop ^^ k) q) = drop k (items q)" "good ((pop ^^ k) q)" using items_pop [of k] by simp_all
  then have "items ((pop ^^ k) q) \<noteq> []" using \<open>k < length (items q)\<close> by simp
  from popped [OF i(2) this] i(1) \<open>k < length (items q)\<close> show ?thesis
    by (metis hd_drop_conv_nth list.sel(1))
qed

end

text \<open>A ring of any size meets the contract.\<close>

lemma ring_bounded_queue: "bounded_queue ring_list (ring_ok n) ring_push ring_pop ring_first n"
proof unfold_locales
  fix q :: "'a ring" and x :: 'a
  assume ok: "ring_ok n q"
  show "length (ring_list q) \<le> n" using ok by (simp add: ring_ok_def)
  show "ring_list (ring_push x q) = ring_list q @ [x] \<and> ring_ok n (ring_push x q)"
    if "length (ring_list q) < n" using ring_push_list [OF ok, of x] that by simp
  show "ring_list q = ring_first q # ring_list (ring_pop q) \<and> ring_ok n (ring_pop q)"
    if "ring_list q \<noteq> []" using ring_pop_list [OF ok] that by (simp add: ring_list_def)
qed

end
