(* ===== verification/DetectorScheduler.thy ===== *)
theory DetectorScheduler
  imports CircularQueues
begin

text \<open>
  The queues between the channelizer and the detector threads (\<open>DiscoveryWorker::Impl\<close> in
  \<open>discovery_worker.cpp\<close>). Three queues share the subbands by their index modulo three. A
  queue has sixteen slots for samples, a circular list of the slots whose job is pending, and
  a flag for every slot that is pending or still being processed. Any thread may take a job
  of any queue, but only one whose subband is not being processed. Each critical section
  under \<open>detector_mutex\<close> is one step; the samples themselves are not modelled.
\<close>

section \<open>State\<close>

definition detector_workers :: nat where "detector_workers = 3"
definition detector_queue_capacity :: nat where "detector_queue_capacity = 16"

record detector_job =
  jb_reset :: bool
  jb_band :: nat
  jb_count :: nat
  jb_first :: u64
  jb_anchor :: u64
  jb_segment :: u64
  jb_stride :: u32

definition empty_job :: detector_job where
  "empty_job = \<lparr>jb_reset = False, jb_band = 0, jb_count = 0, jb_first = 0, jb_anchor = 0, jb_segment = 0, jb_stride = 0\<rparr>"

text \<open>The free end \<open>tail\<close> of the pending slots is the head plus their number.\<close>

record detector_queue =
  dq_jobs :: "detector_job list"
  dq_ready :: "nat ring"
  dq_occupied :: "bool list"
  dq_occupied_count :: nat

record scheduler =
  sc_queues :: "detector_queue list"
  sc_busy :: "bool list"
  sc_next :: nat
  sc_pending :: nat
  sc_failed :: bool

text \<open>\<open>bands\<close> subbands, as the constructor leaves the queues.\<close>

definition new_scheduler :: "nat \<Rightarrow> scheduler" where
  "new_scheduler bands =
     \<lparr>sc_queues = replicate detector_workers \<lparr>dq_jobs = replicate detector_queue_capacity empty_job,
        dq_ready = new_ring detector_queue_capacity 0, dq_occupied = replicate detector_queue_capacity False,
        dq_occupied_count = 0\<rparr>,
      sc_busy = replicate bands False, sc_next = 0, sc_pending = 0, sc_failed = False\<rparr>"

section \<open>Operations\<close>

text \<open>\<open>std::find\<close> of the first free slot.\<close>

fun free_slot :: "bool list \<Rightarrow> nat option" where
  "free_slot [] = None"
| "free_slot (b # bs) = (if b then map_option Suc (free_slot bs) else Some 0)"

definition put_job :: "nat \<Rightarrow> detector_job \<Rightarrow> detector_queue \<Rightarrow> detector_queue" where
  "put_job slot job q = q
     \<lparr>dq_jobs := (dq_jobs q)[slot := job], dq_occupied := (dq_occupied q)[slot := True],
      dq_occupied_count := dq_occupied_count q + 1, dq_ready := ring_push slot (dq_ready q)\<rparr>"

datatype 'a progress = Waits | Stopped string | Done 'a

definition enqueue :: "detector_job \<Rightarrow> scheduler \<Rightarrow> scheduler progress" where
  "enqueue job s =
     (let index = jb_band job mod detector_workers; q = sc_queues s ! index in
      if \<not> (dq_occupied_count q < detector_queue_capacity \<or> sc_failed s) then Waits
      else if sc_failed s then Stopped ''Experimental discovery stopped''
      else case free_slot (dq_occupied q) of
          None \<Rightarrow> Stopped ''Discovery job-slot accounting mismatch''
        | Some slot \<Rightarrow> Done (s\<lparr>sc_queues := (sc_queues s)[index := put_job slot job q], sc_pending := sc_pending s + 1\<rparr>))"

text \<open>The oldest pending job of a queue whose subband is idle.\<close>

definition eligible_in :: "bool list \<Rightarrow> detector_queue \<Rightarrow> nat option" where
  "eligible_in busy q =
     find (\<lambda>k. \<not> busy ! jb_band (dq_jobs q ! (ring_cells (dq_ready q) ! ring_at (dq_ready q) k))) [0..<ring_count (dq_ready q)]"

definition eligible_detector_job :: "scheduler \<Rightarrow> (nat \<times> nat) option" where
  "eligible_detector_job s =
     (case find (\<lambda>i. eligible_in (sc_busy s) (sc_queues s ! i) \<noteq> None)
         (map (\<lambda>offset. (sc_next s + offset) mod detector_workers) [0..<detector_workers]) of
        None \<Rightarrow> None
      | Some i \<Rightarrow> Some (i, the (eligible_in (sc_busy s) (sc_queues s ! i))))"

text \<open>What a thread of \<open>consume\<close> takes: the queue and the slot that it goes on to process.\<close>

definition claim :: "scheduler \<Rightarrow> ((nat \<times> nat) \<times> scheduler) option" where
  "claim s =
     (case eligible_detector_job s of
        None \<Rightarrow> None
      | Some (index, offset) \<Rightarrow>
          let q = sc_queues s ! index;
              slot = ring_cells (dq_ready q) ! ring_at (dq_ready q) offset
          in Some ((index, slot), s
            \<lparr>sc_busy := (sc_busy s)[jb_band (dq_jobs q ! slot) := True],
             sc_queues := (sc_queues s)[index := q\<lparr>dq_ready := ring_remove offset (dq_ready q)\<rparr>],
             sc_pending := sc_pending s - 1, sc_next := (index + 1) mod detector_workers\<rparr>))"

text \<open>The samples are erased before the slot is given back.\<close>

definition release :: "nat \<times> nat \<Rightarrow> scheduler \<Rightarrow> scheduler" where
  "release = (\<lambda>(index, slot) s.
     let q = sc_queues s ! index; job = dq_jobs q ! slot in
     s\<lparr>sc_busy := (sc_busy s)[jb_band job := False],
       sc_queues := (sc_queues s)[index := q\<lparr>dq_jobs := (dq_jobs q)[slot := job\<lparr>jb_count := 0\<rparr>],
         dq_occupied := (dq_occupied q)[slot := False], dq_occupied_count := dq_occupied_count q - 1\<rparr>]\<rparr>)"

text \<open>After a failure the pending jobs are given up, oldest first; what is processed goes on.\<close>

fun discard_queue :: "nat \<Rightarrow> detector_queue \<Rightarrow> detector_job list \<Rightarrow> detector_queue \<times> detector_job list" where
  "discard_queue 0 q gone = (q, gone)"
| "discard_queue (Suc n) q gone =
     (let slot = ring_first (dq_ready q); job = dq_jobs q ! slot in
      discard_queue n
        (q\<lparr>dq_jobs := (dq_jobs q)[slot := job\<lparr>jb_count := 0\<rparr>], dq_occupied := (dq_occupied q)[slot := False],
           dq_occupied_count := dq_occupied_count q - 1, dq_ready := ring_pop (dq_ready q)\<rparr>)
        (gone @ [job]))"

definition discard_detector_jobs :: "scheduler \<Rightarrow> scheduler \<times> detector_job list" where
  "discard_detector_jobs s =
     (let emptied = map (\<lambda>q. discard_queue (ring_count (dq_ready q)) q []) (sc_queues s);
          gone = concat (map snd emptied)
      in (s\<lparr>sc_queues := map fst emptied, sc_pending := sc_pending s - length gone\<rparr>, gone))"

section \<open>Runs\<close>

text \<open>
  The scheduler with what the threads are processing, and what has been enqueued and taken so
  far. The channelizer enqueues, three threads take and finish jobs, in any order.
\<close>

record scheduling =
  rn_state :: scheduler
  rn_active :: "(nat \<times> nat) list"
  rn_enqueued :: "detector_job list"
  rn_taken :: "detector_job list"
  rn_given_up :: "detector_job list"

definition started :: "nat \<Rightarrow> scheduling" where
  "started bands = \<lparr>rn_state = new_scheduler bands, rn_active = [], rn_enqueued = [], rn_taken = [], rn_given_up = []\<rparr>"

inductive scheduling_step :: "nat \<Rightarrow> scheduling \<Rightarrow> scheduling \<Rightarrow> bool" for bands where
  enqueues: "enqueue job (rn_state r) = Done s \<Longrightarrow> jb_band job < bands \<Longrightarrow>
     scheduling_step bands r (r\<lparr>rn_state := s, rn_enqueued := rn_enqueued r @ [job]\<rparr>)"
| takes: "claim (rn_state r) = Some ((index, slot), s) \<Longrightarrow> \<not> sc_failed (rn_state r) \<Longrightarrow>
     length (rn_active r) < detector_workers \<Longrightarrow>
     scheduling_step bands r (r\<lparr>rn_state := s, rn_active := rn_active r @ [(index, slot)],
       rn_taken := rn_taken r @ [dq_jobs (sc_queues (rn_state r) ! index) ! slot]\<rparr>)"
| finishes: "work \<in> set (rn_active r) \<Longrightarrow>
     scheduling_step bands r (r\<lparr>rn_state := release work (rn_state r), rn_active := remove1 work (rn_active r)\<rparr>)"
| fails: "scheduling_step bands r (r\<lparr>rn_state := (rn_state r)\<lparr>sc_failed := True\<rparr>\<rparr>)"
| gives_up: "sc_failed (rn_state r) \<Longrightarrow> discard_detector_jobs (rn_state r) = (s, gone) \<Longrightarrow>
     scheduling_step bands r (r\<lparr>rn_state := s, rn_given_up := rn_given_up r @ gone\<rparr>)"

section \<open>One queue\<close>

definition pending_slots :: "detector_queue \<Rightarrow> nat list" where
  "pending_slots q = ring_list (dq_ready q)"

definition pending_jobs :: "detector_queue \<Rightarrow> detector_job list" where
  "pending_jobs q = map (\<lambda>k. dq_jobs q ! k) (pending_slots q)"

text \<open>The slots of a queue are those of its pending jobs and those being processed.\<close>

definition queue_ok :: "nat \<Rightarrow> nat \<Rightarrow> nat list \<Rightarrow> detector_queue \<Rightarrow> bool" where
  "queue_ok bands i act q \<longleftrightarrow>
     length (dq_jobs q) = detector_queue_capacity \<and> length (dq_occupied q) = detector_queue_capacity \<and>
     ring_ok detector_queue_capacity (dq_ready q) \<and> distinct (pending_slots q @ act) \<and>
     set (pending_slots q @ act) \<subseteq> {..<detector_queue_capacity} \<and>
     (\<forall>k<detector_queue_capacity. dq_occupied q ! k \<longleftrightarrow> k \<in> set (pending_slots q @ act)) \<and>
     dq_occupied_count q = length (pending_slots q @ act) \<and>
     (\<forall>k\<in>set (pending_slots q @ act). jb_band (dq_jobs q ! k) mod detector_workers = i \<and> jb_band (dq_jobs q ! k) < bands)"

lemma pending_count: "ring_count (dq_ready q) = length (pending_slots q)"
  by (simp add: pending_slots_def)

lemma free_slot_Some: "free_slot bs = Some k \<Longrightarrow> k < length bs \<and> \<not> bs ! k"
  by (induction bs arbitrary: k) (auto split: if_splits)

lemma free_slot_None: "free_slot bs = None \<Longrightarrow> \<forall>k<length bs. bs ! k"
  by (induction bs) (auto simp: less_Suc_eq_0_disj split: if_splits)

lemma slots_bounded: "queue_ok bands i act q \<Longrightarrow> length (pending_slots q @ act) \<le> detector_queue_capacity"
  unfolding queue_ok_def by (metis card_lessThan card_mono distinct_card finite_lessThan)

lemma free_slot_exists:
  assumes "queue_ok bands i act q" "dq_occupied_count q < detector_queue_capacity"
  shows "free_slot (dq_occupied q) \<noteq> None"
proof
  assume "free_slot (dq_occupied q) = None"
  then have "{..<detector_queue_capacity} \<subseteq> set (pending_slots q @ act)"
    using assms(1) free_slot_None [of "dq_occupied q"] unfolding queue_ok_def by auto
  then have "detector_queue_capacity \<le> card (set (pending_slots q @ act))"
    by (metis List.finite_set card_lessThan card_mono)
  also have "\<dots> \<le> length (pending_slots q @ act)" by (rule card_length)
  finally show False using assms by (simp add: queue_ok_def)
qed

lemma put_job_ok:
  assumes q: "queue_ok bands i act q" and room: "dq_occupied_count q < detector_queue_capacity"
    and slot: "free_slot (dq_occupied q) = Some slot" and job: "jb_band job mod detector_workers = i" "jb_band job < bands"
  shows "queue_ok bands i act (put_job slot job q)" "pending_jobs (put_job slot job q) = pending_jobs q @ [job]"
    "k \<in> set act \<Longrightarrow> dq_jobs (put_job slot job q) ! k = dq_jobs q ! k"
proof -
  note Q = q [unfolded queue_ok_def]
  have free: "slot < detector_queue_capacity" "slot \<notin> set (pending_slots q @ act)"
    using free_slot_Some [OF slot] Q by auto
  have "ring_count (dq_ready q) < detector_queue_capacity" using room Q by (simp add: pending_slots_def)
  moreover have "ring_ok detector_queue_capacity (dq_ready q)" using Q by blast
  ultimately have push: "ring_list (ring_push slot (dq_ready q)) = ring_list (dq_ready q) @ [slot]"
    "ring_ok detector_queue_capacity (ring_push slot (dq_ready q))"
    by (simp_all only: ring_push_list)
  have slots: "pending_slots (put_job slot job q) = pending_slots q @ [slot]"
    by (simp add: pending_slots_def put_job_def push)
  have jobs: "dq_jobs (put_job slot job q) ! k = (if k = slot then job else dq_jobs q ! k)" for k
    using free(1) Q by (simp add: put_job_def nth_list_update)
  show "k \<in> set act \<Longrightarrow> dq_jobs (put_job slot job q) ! k = dq_jobs q ! k" using free(2) jobs by auto
  show "pending_jobs (put_job slot job q) = pending_jobs q @ [job]"
    using free(2) unfolding pending_jobs_def slots jobs by auto
  show "queue_ok bands i act (put_job slot job q)"
    unfolding queue_ok_def slots
    using Q free job jobs by (auto simp: put_job_def push nth_list_update)
qed

lemma take_job_ok:
  assumes q: "queue_ok bands i act q" and k: "k < length (pending_slots q)"
  defines "q' \<equiv> q\<lparr>dq_ready := ring_remove k (dq_ready q)\<rparr>"
  shows "queue_ok bands i (act @ [pending_slots q ! k]) q'"
    "pending_jobs q' = take k (pending_jobs q) @ drop (Suc k) (pending_jobs q)"
proof -
  note Q = q [unfolded queue_ok_def]
  have k': "k < ring_count (dq_ready q)" using k by (simp add: pending_slots_def)
  have rem: "pending_slots q' = take k (pending_slots q) @ drop (Suc k) (pending_slots q)"
    "ring_ok detector_queue_capacity (dq_ready q')"
    using ring_remove_list [of detector_queue_capacity "dq_ready q", OF _ k'] Q by (simp_all add: q'_def pending_slots_def)
  have split: "pending_slots q = take k (pending_slots q) @ pending_slots q ! k # drop (Suc k) (pending_slots q)"
    using k by (simp add: id_take_nth_drop)
  have same: "set (pending_slots q' @ act @ [pending_slots q ! k]) = set (pending_slots q @ act)"
    unfolding rem by (subst (4) split) auto
  have dist: "distinct (pending_slots q' @ act @ [pending_slots q ! k])"
  proof -
    have "distinct ((take k (pending_slots q) @ pending_slots q ! k # drop (Suc k) (pending_slots q)) @ act)"
      using Q split by metis
    then show ?thesis unfolding rem by auto
  qed
  have len: "length (pending_slots q' @ act @ [pending_slots q ! k]) = length (pending_slots q @ act)"
    using k unfolding rem by simp
  show "queue_ok bands i (act @ [pending_slots q ! k]) q'"
    unfolding queue_ok_def same len using Q dist rem(2) by (simp add: q'_def)
  show "pending_jobs q' = take k (pending_jobs q) @ drop (Suc k) (pending_jobs q)"
    unfolding pending_jobs_def rem(1) by (simp add: q'_def take_map drop_map)
qed

definition free_job :: "nat \<Rightarrow> detector_queue \<Rightarrow> detector_queue" where
  "free_job slot q = q\<lparr>dq_jobs := (dq_jobs q)[slot := (dq_jobs q ! slot)\<lparr>jb_count := 0\<rparr>],
     dq_occupied := (dq_occupied q)[slot := False], dq_occupied_count := dq_occupied_count q - 1\<rparr>"

lemma freed_slot: "k < length bs \<Longrightarrow> bs[slot := False] ! k \<longleftrightarrow> k \<noteq> slot \<and> bs ! k"
  by (cases "k = slot") simp_all

lemma free_job_other: "k \<noteq> slot \<Longrightarrow> dq_jobs (free_job slot q) ! k = dq_jobs q ! k"
  by (simp add: free_job_def)

lemma free_job_band: "jb_band (dq_jobs (free_job slot q) ! k) = jb_band (dq_jobs q ! k)"
  by (cases "slot < length (dq_jobs q)"; cases "k = slot") (simp_all add: free_job_def list_update_beyond)

lemma release_ok:
  assumes q: "queue_ok bands i act q" and slot: "slot \<in> set act"
  shows "queue_ok bands i (remove1 slot act) (free_job slot q)" "pending_jobs (free_job slot q) = pending_jobs q"
proof -
  note Q = q [unfolded queue_ok_def]
  have slots: "pending_slots (free_job slot q) = pending_slots q" by (simp add: pending_slots_def free_job_def)
  have d: "distinct act" "slot \<notin> set (pending_slots q)" using Q slot by auto
  have rest: "set (pending_slots q @ remove1 slot act) = set (pending_slots q @ act) - {slot}" using d by auto
  have len: "length (remove1 slot act) = length act - 1" "0 < length act"
    using slot by (auto simp: length_remove1)
  have count: "length (pending_slots q @ act) - 1 = length (pending_slots q @ remove1 slot act)"
    using len by (cases act) (simp_all add: length_remove1)
  show "queue_ok bands i (remove1 slot act) (free_job slot q)"
    unfolding queue_ok_def slots rest free_job_band
    using Q count d by (auto simp: free_job_def freed_slot)
  show "pending_jobs (free_job slot q) = pending_jobs q"
    using d(2) unfolding pending_jobs_def slots by (auto intro: free_job_other)
qed

lemma discard_ok:
  assumes "queue_ok bands i act q"
  shows "\<exists>q'. discard_queue (ring_count (dq_ready q)) q gone = (q', gone @ pending_jobs q) \<and>
    queue_ok bands i act q' \<and> pending_slots q' = [] \<and> (\<forall>k. jb_band (dq_jobs q' ! k) = jb_band (dq_jobs q ! k))"
  using assms
proof (induction "ring_count (dq_ready q)" arbitrary: q gone)
  case 0
  then show ?case by (simp add: pending_jobs_def pending_slots_def ring_list_def)
next
  case (Suc n)
  note Q = Suc.prems [unfolded queue_ok_def]
  let ?slot = "ring_first (dq_ready q)"
  have pop: "ring_list (dq_ready q) = ?slot # ring_list (ring_pop (dq_ready q))"
    "ring_ok detector_queue_capacity (ring_pop (dq_ready q))"
    using ring_pop_list [of detector_queue_capacity "dq_ready q"] Q Suc.hyps(2) by simp_all
  let ?q = "(free_job ?slot q)\<lparr>dq_ready := ring_pop (dq_ready q)\<rparr>"
  have band: "jb_band (dq_jobs ?q ! k) = jb_band (dq_jobs q ! k)" for k
    using free_job_band [of ?slot q k] by simp
  have slots: "pending_slots q = ?slot # pending_slots ?q" using pop(1) by (simp add: pending_slots_def)
  have "queue_ok bands i act ?q"
    unfolding queue_ok_def band
    using Q slots pop(2) by (auto simp: free_job_def freed_slot)
  moreover have "n = ring_count (dq_ready ?q)" using Suc.hyps(2) by (simp add: ring_pop_def)
  ultimately obtain q' where q': "discard_queue n ?q (gone @ [dq_jobs q ! ?slot]) = (q', (gone @ [dq_jobs q ! ?slot]) @ pending_jobs ?q)"
    "queue_ok bands i act q'" "pending_slots q' = []" "\<forall>k. jb_band (dq_jobs q' ! k) = jb_band (dq_jobs ?q ! k)"
    using Suc.hyps(1) [of ?q "gone @ [dq_jobs q ! ?slot]"] by metis
  have "?slot \<notin> set (pending_slots ?q)" using Q slots by auto
  then have "dq_jobs ?q ! x = dq_jobs q ! x" if "x \<in> set (pending_slots ?q)" for x
    using that free_job_other [of x ?slot q] by (metis detector_queue.select_convs(1) detector_queue.surjective detector_queue.update_convs(2))
  then have "pending_jobs q = (dq_jobs q ! ?slot) # pending_jobs ?q"
    unfolding pending_jobs_def slots by simp
  moreover have "discard_queue (ring_count (dq_ready q)) q gone = discard_queue n ?q (gone @ [dq_jobs q ! ?slot])"
    unfolding Suc.hyps(2) [symmetric] by (simp add: Let_def free_job_def)
  ultimately show ?case using q' band by simp
qed

section \<open>All queues\<close>

definition active_slots :: "nat \<Rightarrow> (nat \<times> nat) list \<Rightarrow> nat list" where
  "active_slots i active = map snd (filter (\<lambda>w. fst w = i) active)"

definition work_band :: "scheduler \<Rightarrow> nat \<times> nat \<Rightarrow> nat" where
  "work_band s w = jb_band (dq_jobs (sc_queues s ! fst w) ! snd w)"

definition pending_total :: "detector_queue list \<Rightarrow> nat" where
  "pending_total qs = (\<Sum>i<length qs. length (pending_slots (qs ! i)))"

definition scheduler_ok :: "nat \<Rightarrow> scheduler \<Rightarrow> (nat \<times> nat) list \<Rightarrow> bool" where
  "scheduler_ok bands s active \<longleftrightarrow>
     length (sc_queues s) = detector_workers \<and> length (sc_busy s) = bands \<and>
     (\<forall>i<detector_workers. queue_ok bands i (active_slots i active) (sc_queues s ! i)) \<and>
     (\<forall>w\<in>set active. fst w < detector_workers) \<and> distinct (map (work_band s) active) \<and>
     (\<forall>b<bands. sc_busy s ! b \<longleftrightarrow> b \<in> work_band s ` set active) \<and>
     sc_pending s = pending_total (sc_queues s) \<and> sc_next s < detector_workers"

definition of_band :: "nat \<Rightarrow> detector_job list \<Rightarrow> detector_job list" where
  "of_band b js = filter (\<lambda>j. jb_band j = b) js"

definition band_queue :: "scheduler \<Rightarrow> nat \<Rightarrow> detector_queue" where
  "band_queue s b = sc_queues s ! (b mod detector_workers)"

definition run_ok :: "nat \<Rightarrow> scheduling \<Rightarrow> bool" where
  "run_ok bands r \<longleftrightarrow>
     scheduler_ok bands (rn_state r) (rn_active r) \<and> length (rn_active r) \<le> detector_workers \<and>
     (\<forall>b<bands. of_band b (rn_enqueued r) = of_band b (rn_taken r) @ of_band b (rn_given_up r) @
        of_band b (pending_jobs (band_queue (rn_state r) b))) \<and>
     (\<not> sc_failed (rn_state r) \<longrightarrow> rn_given_up r = [])"

lemma active_slots_mem: "k \<in> set (active_slots i active) \<longleftrightarrow> (i, k) \<in> set active"
  by (force simp: active_slots_def)

lemma of_band_append [simp]: "of_band b (xs @ ys) = of_band b xs @ of_band b ys" "of_band b [] = []"
  by (simp_all add: of_band_def)

lemma of_band_other: "\<forall>j\<in>set js. jb_band j \<noteq> b \<Longrightarrow> of_band b js = []"
  by (simp add: of_band_def filter_empty_conv)

lemma pending_total_update:
  assumes "i < length qs"
  shows "pending_total (qs[i := q]) + length (pending_slots (qs ! i)) = pending_total qs + length (pending_slots q)"
proof -
  let ?I = "{..<length qs} - {i}"
  have "(\<Sum>k\<in>?I. length (pending_slots (qs[i := q] ! k))) = (\<Sum>k\<in>?I. length (pending_slots (qs ! k)))"
    by (rule sum.cong) simp_all
  moreover have "pending_total qs' = length (pending_slots (qs' ! i)) + (\<Sum>k\<in>?I. length (pending_slots (qs' ! k)))"
    if "length qs' = length qs" for qs'
    unfolding pending_total_def that using assms by (intro sum.remove) simp_all
  ultimately show ?thesis using assms by simp
qed

lemma pending_bands:
  assumes "queue_ok bands i act q" "j \<in> set (pending_jobs q)"
  shows "jb_band j mod detector_workers = i" "jb_band j < bands"
  using assms by (auto simp: queue_ok_def pending_jobs_def)

lemma eligible_in_Some:
  assumes "eligible_in busy q = Some k"
  shows "k < length (pending_slots q)" "\<not> busy ! jb_band (dq_jobs q ! (pending_slots q ! k))"
    "\<forall>j<k. busy ! jb_band (dq_jobs q ! (pending_slots q ! j))"
proof -
  let ?P = "\<lambda>k. \<not> busy ! jb_band (dq_jobs q ! (ring_cells (dq_ready q) ! ring_at (dq_ready q) k))"
  have f: "find ?P [0..<ring_count (dq_ready q)] = Some k" using assms by (simp add: eligible_in_def)
  then obtain m where m: "m < ring_count (dq_ready q)" "?P m" "k = m" "\<forall>j<m. \<not> ?P j"
    by (auto simp: find_Some_iff)
  have nth: "pending_slots q ! j = ring_cells (dq_ready q) ! ring_at (dq_ready q) j" if "j < ring_count (dq_ready q)" for j
    using that by (simp add: pending_slots_def ring_list_nth)
  show "k < length (pending_slots q)" using m by (simp add: pending_slots_def)
  show "\<not> busy ! jb_band (dq_jobs q ! (pending_slots q ! k))" using m nth by simp
  show "\<forall>j<k. busy ! jb_band (dq_jobs q ! (pending_slots q ! j))" using m nth by simp
qed

lemma eligible_in_None:
  "eligible_in busy q = None \<Longrightarrow> j \<in> set (pending_jobs q) \<Longrightarrow> busy ! jb_band j"
  by (auto simp: eligible_in_def find_None_iff pending_jobs_def pending_slots_def ring_list_def)

lemma eligible_queues:
  assumes "sc_next s < detector_workers"
  shows "eligible_detector_job s = Some (i, k) \<Longrightarrow> i < detector_workers \<and> eligible_in (sc_busy s) (sc_queues s ! i) = Some k"
    "eligible_detector_job s = None \<Longrightarrow> i < detector_workers \<Longrightarrow> eligible_in (sc_busy s) (sc_queues s ! i) = None"
proof -
  let ?is = "map (\<lambda>offset. (sc_next s + offset) mod detector_workers) [0..<detector_workers]"
  have all: "set ?is = {..<detector_workers}"
  proof -
    have "inj_on (\<lambda>offset. (sc_next s + offset) mod detector_workers) {..<detector_workers}"
      by (auto simp: inj_on_def intro: mod_offset_inj)
    then have "card (set ?is) = detector_workers" by (simp add: card_image atLeast0LessThan)
    moreover have "set ?is \<subseteq> {..<detector_workers}" by (auto simp: detector_workers_def)
    ultimately show ?thesis by (metis card_lessThan card_subset_eq finite_lessThan)
  qed
  show "i < detector_workers \<and> eligible_in (sc_busy s) (sc_queues s ! i) = Some k" if some: "eligible_detector_job s = Some (i, k)"
  proof -
    obtain j where j: "find (\<lambda>i. eligible_in (sc_busy s) (sc_queues s ! i) \<noteq> None) ?is = Some j"
      "i = j" "k = the (eligible_in (sc_busy s) (sc_queues s ! j))"
      using some unfolding eligible_detector_job_def
      by (cases "find (\<lambda>i. eligible_in (sc_busy s) (sc_queues s ! i) \<noteq> None) ?is") auto
    then have "j \<in> set ?is" "eligible_in (sc_busy s) (sc_queues s ! j) \<noteq> None"
      by (auto simp: find_Some_iff in_set_conv_nth)
    then show ?thesis using j all by auto
  qed
  show "eligible_in (sc_busy s) (sc_queues s ! i) = None" if "eligible_detector_job s = None" "i < detector_workers"
  proof -
    have "find (\<lambda>i. eligible_in (sc_busy s) (sc_queues s ! i) \<noteq> None) ?is = None"
      using that(1) unfolding eligible_detector_job_def
      by (cases "find (\<lambda>i. eligible_in (sc_busy s) (sc_queues s ! i) \<noteq> None) ?is") (simp_all only: option.simps)
    then have "\<forall>j\<in>set ?is. eligible_in (sc_busy s) (sc_queues s ! j) = None" by (auto simp: find_None_iff)
    then show ?thesis using that(2) all by blast
  qed
qed

lemma enqueue_ok:
  assumes ok: "run_ok bands r" and e: "enqueue job (rn_state r) = Done s" and b: "jb_band job < bands"
  shows "run_ok bands (r\<lparr>rn_state := s, rn_enqueued := rn_enqueued r @ [job]\<rparr>)"
proof -
  let ?s = "rn_state r" and ?i = "jb_band job mod detector_workers" and ?act = "rn_active r"
  let ?q = "sc_queues ?s ! ?i"
  have S: "scheduler_ok bands ?s ?act" using ok by (simp add: run_ok_def)
  note S' = S [unfolded scheduler_ok_def]
  obtain slot where e': "\<not> sc_failed ?s" "dq_occupied_count ?q < detector_queue_capacity"
    "free_slot (dq_occupied ?q) = Some slot"
    "s = ?s\<lparr>sc_queues := (sc_queues ?s)[?i := put_job slot job ?q], sc_pending := sc_pending ?s + 1\<rparr>"
    using e by (auto simp: enqueue_def Let_def split: if_splits option.splits)
  have i: "?i < detector_workers" by (simp add: detector_workers_def)
  have q: "queue_ok bands ?i (active_slots ?i ?act) ?q" using S' i by blast
  note put = put_job_ok [OF q e'(2,3) refl b]
  have queue: "sc_queues s ! j = (if j = ?i then put_job slot job ?q else sc_queues ?s ! j)" if "j < detector_workers" for j
    using that i S' e'(4) by (simp add: nth_list_update)
  have bands_same: "work_band s w = work_band ?s w" if "w \<in> set ?act" for w
  proof -
    have "fst w < detector_workers" using that S' by blast
    moreover have "snd w \<in> set (active_slots ?i ?act)" if "fst w = ?i"
      using that \<open>w \<in> set ?act\<close> unfolding active_slots_mem by (metis prod.collapse)
    ultimately show ?thesis using put(3) queue by (auto simp: work_band_def)
  qed
  have len: "length (sc_queues ?s) = detector_workers" using S' by blast
  have slots: "length (pending_slots (put_job slot job ?q)) = Suc (length (pending_slots ?q))"
    using arg_cong [OF put(2), of length] by (simp add: pending_jobs_def)
  have total: "sc_pending s = pending_total (sc_queues s)"
    using pending_total_update [of ?i "sc_queues ?s" "put_job slot job ?q"] i len slots S' e'(4) by simp
  have "distinct (map (work_band s) ?act) = distinct (map (work_band ?s) ?act)" using bands_same
    by (metis (no_types, lifting) map_cong)
  moreover have "work_band s ` set ?act = work_band ?s ` set ?act" using bands_same by (metis (no_types, lifting) image_cong)
  moreover have "\<forall>j<detector_workers. queue_ok bands j (active_slots j ?act) (sc_queues s ! j)"
    using queue put(1) S' by auto
  moreover have "sc_busy s = sc_busy ?s" "sc_next s = sc_next ?s" "length (sc_queues s) = detector_workers" "sc_failed s = sc_failed ?s"
    using e'(4) len by simp_all
  ultimately have "scheduler_ok bands s ?act"
    using S' total unfolding scheduler_ok_def by metis
  moreover have "of_band b (rn_enqueued r @ [job]) = of_band b (rn_taken r) @ of_band b (rn_given_up r) @
        of_band b (pending_jobs (band_queue s b))" if "b < bands" for b
  proof -
    have m: "b mod detector_workers < detector_workers" by (simp add: detector_workers_def)
    have "of_band b (pending_jobs (band_queue s b)) = of_band b (pending_jobs (band_queue ?s b)) @ of_band b [job]"
    proof (cases "b mod detector_workers = ?i")
      case True
      then show ?thesis using queue [OF m] put(2) by (simp add: band_queue_def)
    next
      case False
      then have "jb_band job \<noteq> b" by auto
      then show ?thesis using queue [OF m] False by (simp add: band_queue_def of_band_def)
    qed
    then show ?thesis using ok that by (simp add: run_ok_def)
  qed
  ultimately show ?thesis using ok e'(1,4) by (simp add: run_ok_def)
qed

lemma claim_ok:
  assumes ok: "run_ok bands r" and c: "claim (rn_state r) = Some ((i, slot), s)" and running: "\<not> sc_failed (rn_state r)"
    and room: "length (rn_active r) < detector_workers"
  shows "run_ok bands (r\<lparr>rn_state := s, rn_active := rn_active r @ [(i, slot)],
       rn_taken := rn_taken r @ [dq_jobs (sc_queues (rn_state r) ! i) ! slot]\<rparr>)"
proof -
  let ?s = "rn_state r" and ?act = "rn_active r"
  let ?q = "sc_queues ?s ! i"
  have S: "scheduler_ok bands ?s ?act" using ok by (simp add: run_ok_def)
  note S' = S [unfolded scheduler_ok_def]
  from c obtain k where el: "eligible_detector_job ?s = Some (i, k)"
    and slot0: "slot = ring_cells (dq_ready ?q) ! ring_at (dq_ready ?q) k"
    and s: "s = ?s\<lparr>sc_busy := (sc_busy ?s)[jb_band (dq_jobs ?q ! slot) := True],
       sc_queues := (sc_queues ?s)[i := ?q\<lparr>dq_ready := ring_remove k (dq_ready ?q)\<rparr>],
       sc_pending := sc_pending ?s - 1, sc_next := (i + 1) mod detector_workers\<rparr>"
    by (auto simp: claim_def Let_def split: option.splits)
  have nx: "sc_next ?s < detector_workers" using S' by blast
  from eligible_queues(1) [OF nx el] have i: "i < detector_workers"
    and el2: "eligible_in (sc_busy ?s) ?q = Some k" by blast+
  note e = eligible_in_Some [OF el2]
  have slot: "slot = pending_slots ?q ! k" using slot0 e(1) by (simp add: pending_slots_def ring_list_nth)
  let ?job = "dq_jobs ?q ! slot" and ?q' = "?q\<lparr>dq_ready := ring_remove k (dq_ready ?q)\<rparr>"
  have q: "queue_ok bands i (active_slots i ?act) ?q" using S' i by blast
  note tk = take_job_ok [OF q e(1), folded slot]
  have pend: "?job = pending_jobs ?q ! k" "k < length (pending_jobs ?q)"
    using e(1) slot by (simp_all add: pending_jobs_def)
  then have jin: "?job \<in> set (pending_jobs ?q)" by simp
  note jb = pending_bands [OF q jin]
  have len: "length (sc_queues ?s) = detector_workers" "length (sc_busy ?s) = bands" using S' by blast+
  have queue: "sc_queues s ! j = (if j = i then ?q' else sc_queues ?s ! j)" if "j < detector_workers" for j
    using that i len by (simp add: s nth_list_update)
  have jobs_same: "work_band s w = work_band ?s w" for w
    using i len by (cases "fst w = i") (simp_all add: work_band_def s)
  have idle: "jb_band ?job \<notin> work_band ?s ` set ?act" using S' e(2) jb(2) slot by auto
  have wb: "work_band ?s (i, slot) = jb_band ?job" by (simp add: work_band_def)
  have act: "active_slots j (?act @ [(i, slot)]) = (if j = i then active_slots i ?act @ [slot] else active_slots j ?act)" for j
    by (simp add: active_slots_def)
  have slots: "length (pending_slots ?q') + 1 = length (pending_slots ?q)"
    using arg_cong [OF tk(2), of length] pend(2) by (simp add: pending_jobs_def)
  have pos: "0 < pending_total (sc_queues ?s)"
  proof -
    have "length (pending_slots ?q) \<le> pending_total (sc_queues ?s)"
      unfolding pending_total_def using i len by (intro member_le_sum) simp_all
    then show ?thesis using e(1) by simp
  qed
  have total: "sc_pending s = pending_total (sc_queues s)"
    using pending_total_update [of i "sc_queues ?s" ?q'] i len slots S' pos by (simp add: s)
  have "distinct (map (work_band s) (?act @ [(i, slot)]))"
    using S' idle unfolding jobs_same [abs_def] by (simp add: wb)
  moreover have "\<forall>b<bands. sc_busy s ! b \<longleftrightarrow> b \<in> work_band s ` set (?act @ [(i, slot)])"
    using S' len jb(2) unfolding jobs_same [abs_def] by (auto simp: s wb nth_list_update)
  moreover have "\<forall>j<detector_workers. queue_ok bands j (active_slots j (?act @ [(i, slot)])) (sc_queues s ! j)"
    using queue tk(1) S' act by auto
  moreover have "\<forall>w\<in>set (?act @ [(i, slot)]). fst w < detector_workers" using S' i by auto
  moreover have "length (sc_queues s) = detector_workers" "length (sc_busy s) = bands" "sc_next s < detector_workers"
    using len by (simp_all add: s) (simp add: detector_workers_def)
  ultimately have "scheduler_ok bands s (?act @ [(i, slot)])" using total unfolding scheduler_ok_def by blast
  moreover have "of_band b (rn_enqueued r) = of_band b (rn_taken r @ [?job]) @ of_band b (rn_given_up r) @
        of_band b (pending_jobs (band_queue s b))" if b: "b < bands" for b
  proof -
    have m: "b mod detector_workers < detector_workers" by (simp add: detector_workers_def)
    have "of_band b [?job] @ of_band b (pending_jobs (band_queue s b)) = of_band b (pending_jobs (band_queue ?s b))"
    proof (cases "b mod detector_workers = i")
      case False
      then have "jb_band ?job \<noteq> b" using jb(1) by auto
      then show ?thesis using queue [OF m] False by (simp add: band_queue_def of_band_def)
    next
      case True
      have split: "pending_jobs ?q = take k (pending_jobs ?q) @ ?job # drop (Suc k) (pending_jobs ?q)"
        using pend by (simp add: id_take_nth_drop)
      have "of_band b (take k (pending_jobs ?q)) = []" if "jb_band ?job = b"
      proof (rule of_band_other, intro ballI)
        fix j assume "j \<in> set (take k (pending_jobs ?q))"
        then obtain m where "m < k" "j = pending_jobs ?q ! m" using pend(2) by (auto simp: in_set_conv_nth)
        then have "sc_busy ?s ! jb_band j" using e(1,3) by (simp add: pending_jobs_def)
        moreover have "\<not> sc_busy ?s ! jb_band ?job" using e(2) slot by simp
        ultimately show "jb_band j \<noteq> b" using that by auto
      qed
      then have "of_band b [?job] @ of_band b (take k (pending_jobs ?q)) = of_band b (take k (pending_jobs ?q)) @ of_band b [?job]"
        by (cases "jb_band ?job = b") (simp_all add: of_band_def)
      moreover have "of_band b (pending_jobs ?q) =
          of_band b (take k (pending_jobs ?q)) @ of_band b [?job] @ of_band b (drop (Suc k) (pending_jobs ?q))"
        by (subst split) (simp add: of_band_def)
      ultimately show ?thesis using queue [OF m] True tk(2) by (simp add: band_queue_def)
    qed
    then show ?thesis using ok running b by (simp add: run_ok_def)
  qed
  ultimately show ?thesis using ok running room by (simp add: run_ok_def s)
qed

lemma active_slots_remove:
  "active_slots j (remove1 (i, k) xs) = (if j = i then remove1 k (active_slots j xs) else active_slots j xs)"
  by (induction xs) (auto simp: active_slots_def)

lemma finish_ok:
  assumes ok: "run_ok bands r" and w: "work \<in> set (rn_active r)"
  shows "run_ok bands (r\<lparr>rn_state := release work (rn_state r), rn_active := remove1 work (rn_active r)\<rparr>)"
proof -
  obtain i slot where iw: "work = (i, slot)" by fastforce
  let ?s = "rn_state r" and ?act = "rn_active r"
  let ?q = "sc_queues ?s ! i" and ?b = "work_band ?s work"
  have S: "scheduler_ok bands ?s ?act" using ok by (simp add: run_ok_def)
  note S' = S [unfolded scheduler_ok_def]
  have i: "i < detector_workers" using S' w iw by auto
  have len: "length (sc_queues ?s) = detector_workers" "length (sc_busy ?s) = bands" using S' by blast+
  have s: "release work ?s = ?s\<lparr>sc_busy := (sc_busy ?s)[?b := False], sc_queues := (sc_queues ?s)[i := free_job slot ?q]\<rparr>"
    by (simp add: release_def iw Let_def free_job_def work_band_def)
  have q: "queue_ok bands i (active_slots i ?act) ?q" using S' i by blast
  have mem: "slot \<in> set (active_slots i ?act)" using w iw by (simp add: active_slots_mem)
  note rel = release_ok [OF q mem]
  have bound: "?b < bands"
    using q mem by (auto simp: queue_ok_def work_band_def iw)
  have queue: "sc_queues (release work ?s) ! j = (if j = i then free_job slot ?q else sc_queues ?s ! j)"
    if "j < detector_workers" for j
    using that i len by (simp add: s nth_list_update)
  have jobs_same: "work_band (release work ?s) v = work_band ?s v" for v
    using i len by (cases "fst v = i") (simp_all add: work_band_def s free_job_band)
  have dist: "distinct ?act" using S' by (simp add: distinct_map)
  have rest: "set (remove1 work ?act) = set ?act - {work}" using dist by (simp add: set_remove1_eq)
  have inj: "inj_on (work_band ?s) (set ?act)" using S' by (simp add: distinct_map)
  have img: "work_band ?s ` (set ?act - {work}) = work_band ?s ` set ?act - {?b}"
    using inj w by (simp add: inj_on_image_set_diff [of "work_band ?s" "set ?act"])
  have slots: "length (pending_slots (free_job slot ?q)) = length (pending_slots ?q)"
    using arg_cong [OF rel(2), of length] by (simp add: pending_jobs_def)
  have total: "sc_pending ?s = pending_total ((sc_queues ?s)[i := free_job slot ?q])"
    using pending_total_update [of i "sc_queues ?s" "free_job slot ?q"] i len slots S' by simp
  have "distinct (map (work_band (release work ?s)) (remove1 work ?act))"
    unfolding jobs_same [abs_def] using inj rest dist
    by (simp add: distinct_map) (meson Diff_subset inj_on_subset)
  moreover have "\<forall>b<bands. sc_busy (release work ?s) ! b \<longleftrightarrow> b \<in> work_band (release work ?s) ` set (remove1 work ?act)"
    unfolding jobs_same [abs_def] rest img using S' len by (auto simp: s freed_slot)
  moreover have "\<forall>j<detector_workers. queue_ok bands j (active_slots j (remove1 work ?act)) (sc_queues (release work ?s) ! j)"
    using queue rel(1) S' by (auto simp: iw active_slots_remove)
  moreover have "\<forall>v\<in>set (remove1 work ?act). fst v < detector_workers" using S' rest by auto
  moreover have "length (sc_queues (release work ?s)) = detector_workers" "length (sc_busy (release work ?s)) = bands"
    "sc_next (release work ?s) < detector_workers" "sc_pending (release work ?s) = pending_total (sc_queues (release work ?s))"
    using len S' total by (simp_all add: s)
  ultimately have "scheduler_ok bands (release work ?s) (remove1 work ?act)"
    unfolding scheduler_ok_def by blast
  moreover have "pending_jobs (band_queue (release work ?s) b) = pending_jobs (band_queue ?s b)" for b
    using queue [of "b mod detector_workers"] rel(2) by (simp add: band_queue_def detector_workers_def)
  moreover have "length (remove1 work ?act) \<le> detector_workers"
    using ok by (auto simp: run_ok_def length_remove1)
  moreover have "sc_failed (release work ?s) = sc_failed ?s" by (simp add: s)
  ultimately show ?thesis using ok by (simp add: run_ok_def)
qed

lemma fail_ok: "run_ok bands r \<Longrightarrow> run_ok bands (r\<lparr>rn_state := (rn_state r)\<lparr>sc_failed := True\<rparr>\<rparr>)"
  by (simp add: run_ok_def scheduler_ok_def work_band_def [abs_def] band_queue_def)

lemma of_band_concat: "of_band b (concat xss) = concat (map (of_band b) xss)"
  by (induction xss) simp_all

lemma concat_only: "i < length xss \<Longrightarrow> (\<And>j. j < length xss \<Longrightarrow> j \<noteq> i \<Longrightarrow> xss ! j = []) \<Longrightarrow> concat xss = xss ! i"
proof (induction xss arbitrary: i)
  case Nil
  then show ?case by simp
next
  case (Cons xs xss)
  show ?case
  proof (cases i)
    case 0
    then have "\<forall>j<length xss. xss ! j = []" using Cons.prems(2) [of "Suc _"] by auto
    then have "concat xss = []" by (auto simp: in_set_conv_nth)
    then show ?thesis using 0 by simp
  next
    case (Suc k)
    then have "xs = []" using Cons.prems(2) [of 0] by simp
    moreover have "concat xss = xss ! k"
      using Suc Cons.prems(1) Cons.prems(2) [of "Suc _"] by (intro Cons.IH) auto
    ultimately show ?thesis using Suc by simp
  qed
qed

lemma give_up_ok:
  assumes ok: "run_ok bands r" and failed: "sc_failed (rn_state r)" and d: "discard_detector_jobs (rn_state r) = (s, gone)"
  shows "run_ok bands (r\<lparr>rn_state := s, rn_given_up := rn_given_up r @ gone\<rparr>)"
proof -
  let ?s = "rn_state r" and ?act = "rn_active r"
  let ?f = "\<lambda>q. discard_queue (ring_count (dq_ready q)) q []"
  have S: "scheduler_ok bands ?s ?act" using ok by (simp add: run_ok_def)
  note S' = S [unfolded scheduler_ok_def]
  have len: "length (sc_queues ?s) = detector_workers" using S' by blast
  have gone: "gone = concat (map (snd \<circ> ?f) (sc_queues ?s))"
    and s: "s = ?s\<lparr>sc_queues := map (fst \<circ> ?f) (sc_queues ?s), sc_pending := sc_pending ?s - length gone\<rparr>"
    using d by (auto simp: discard_detector_jobs_def Let_def)
  have each: "snd (?f (sc_queues ?s ! i)) = pending_jobs (sc_queues ?s ! i)"
    "queue_ok bands i (active_slots i ?act) (sc_queues s ! i)" "pending_slots (sc_queues s ! i) = []"
    "\<forall>k. jb_band (dq_jobs (sc_queues s ! i) ! k) = jb_band (dq_jobs (sc_queues ?s ! i) ! k)"
    if i: "i < detector_workers" for i
  proof -
    have "queue_ok bands i (active_slots i ?act) (sc_queues ?s ! i)" using S' i by blast
    from discard_ok [OF this, of "[]"] obtain q' where q': "?f (sc_queues ?s ! i) = (q', pending_jobs (sc_queues ?s ! i))"
      "queue_ok bands i (active_slots i ?act) q'" "pending_slots q' = []"
      "\<forall>k. jb_band (dq_jobs q' ! k) = jb_band (dq_jobs (sc_queues ?s ! i) ! k)"
      by auto
    moreover have "sc_queues s ! i = q'" using i len q'(1) by (simp add: s)
    ultimately show "snd (?f (sc_queues ?s ! i)) = pending_jobs (sc_queues ?s ! i)"
      "queue_ok bands i (active_slots i ?act) (sc_queues s ! i)" "pending_slots (sc_queues s ! i) = []"
      "\<forall>k. jb_band (dq_jobs (sc_queues s ! i) ! k) = jb_band (dq_jobs (sc_queues ?s ! i) ! k)"
      by simp_all
  qed
  have gone2: "gone = concat (map pending_jobs (sc_queues ?s))"
    unfolding gone using each(1) len by (intro arg_cong [where f = concat] nth_equalityI) simp_all
  have "length gone = pending_total (sc_queues ?s)"
    unfolding gone2 pending_total_def
    by (simp add: length_concat sum_list_sum_nth pending_jobs_def atLeast0LessThan)
  then have zero: "sc_pending s = 0" using S' by (simp add: s)
  have zero2: "pending_total (sc_queues s) = 0"
    unfolding pending_total_def using each(3) len by (simp add: s)
  have wb: "work_band s w = work_band ?s w" if "w \<in> set ?act" for w
    using that S' each(4) by (simp add: work_band_def)
  have "map (work_band s) ?act = map (work_band ?s) ?act" using wb by simp
  moreover have "work_band s ` set ?act = work_band ?s ` set ?act" using wb by (metis (no_types, lifting) image_cong)
  moreover have "sc_busy s = sc_busy ?s" "sc_next s = sc_next ?s" "length (sc_queues s) = detector_workers"
    using len by (simp_all add: s)
  moreover have "sc_pending s = pending_total (sc_queues s)" using zero zero2 by simp
  ultimately have "scheduler_ok bands s ?act"
    using S' each(2) unfolding scheduler_ok_def by metis
  moreover have "of_band b gone = of_band b (pending_jobs (band_queue ?s b)) \<and> pending_jobs (band_queue s b) = []" if "b < bands" for b
  proof -
    let ?i = "b mod detector_workers"
    have i: "?i < detector_workers" by (simp add: detector_workers_def)
    have other: "of_band b (pending_jobs (sc_queues ?s ! j)) = []" if "j < detector_workers" "j \<noteq> ?i" for j
    proof (rule of_band_other, intro ballI)
      fix x assume "x \<in> set (pending_jobs (sc_queues ?s ! j))"
      moreover have "queue_ok bands j (active_slots j ?act) (sc_queues ?s ! j)" using S' that by blast
      ultimately show "jb_band x \<noteq> b" using pending_bands(1) that(2) by blast
    qed
    have "of_band b gone = map (of_band b) (map pending_jobs (sc_queues ?s)) ! ?i"
      unfolding gone2 of_band_concat by (rule concat_only) (use i len other in simp_all)
    then show ?thesis using i len each(3) by (simp add: band_queue_def) (simp add: pending_jobs_def)
  qed
  moreover have "sc_failed s = sc_failed ?s" by (simp add: s)
  ultimately show ?thesis using ok failed by (simp add: run_ok_def)
qed

lemma started_ok: "run_ok bands (started bands)"
proof -
  have cap: "0 < detector_queue_capacity" by (simp add: detector_queue_capacity_def)
  then show ?thesis
    by (simp add: run_ok_def scheduler_ok_def started_def new_scheduler_def queue_ok_def pending_slots_def new_ring_list
        active_slots_def pending_total_def band_queue_def pending_jobs_def detector_workers_def)
qed

lemma step_ok: "scheduling_step bands r r' \<Longrightarrow> run_ok bands r \<Longrightarrow> run_ok bands r'"
  by (induction rule: scheduling_step.induct) (rule enqueue_ok claim_ok finish_ok fail_ok give_up_ok; assumption)+

lemma run_reachable: "(scheduling_step bands)\<^sup>*\<^sup>* (started bands) r \<Longrightarrow> run_ok bands r"
  by (induction rule: rtranclp_induct) (auto intro: started_ok step_ok)

section \<open>Properties\<close>

text \<open>
  C3: The detector threads exclude one another. In every reachable state at most one job of a
  subband is being processed, at most three in all, and the slots of a queue are accounted for
  exactly: its flags mark the slots that are pending or being processed, its counter is their
  number, which never exceeds sixteen, and no slot is held twice.
\<close>

theorem detectors_exclusive:
  assumes "(scheduling_step bands)\<^sup>*\<^sup>* (started bands) r" "i < detector_workers"
  shows "distinct (map (work_band (rn_state r)) (rn_active r)) \<and> length (rn_active r) \<le> 3 \<and>
    (let q = sc_queues (rn_state r) ! i; held = pending_slots q @ active_slots i (rn_active r) in
      distinct held \<and> dq_occupied_count q = length held \<and> length held \<le> 16 \<and>
      {k. k < 16 \<and> dq_occupied q ! k} = set held)"
proof -
  have ok: "run_ok bands r" by (rule run_reachable [OF assms(1)])
  then have q: "queue_ok bands i (active_slots i (rn_active r)) (sc_queues (rn_state r) ! i)"
    using assms(2) by (simp add: run_ok_def scheduler_ok_def)
  have cap: "detector_queue_capacity = 16" "detector_workers = 3"
    by (simp_all add: detector_queue_capacity_def detector_workers_def)
  show ?thesis
    using ok q slots_bounded [OF q] unfolding Let_def queue_ok_def run_ok_def scheduler_ok_def cap
    by (auto simp: lessThan_def)
qed

definition sample_job :: "nat \<Rightarrow> detector_job" where
  "sample_job b = empty_job\<lparr>jb_band := b, jb_count := 4096\<rparr>"

lemma free_slot_new: "0 < n \<Longrightarrow> free_slot (replicate n False) = Some 0"
  by (cases n) simp_all

lemma sample_enqueue: "\<exists>s. enqueue (sample_job 0) (new_scheduler 4) = Done s"
proof -
  have "0 < detector_queue_capacity" "0 < detector_workers"
    by (simp_all add: detector_queue_capacity_def detector_workers_def)
  then show ?thesis
    by (simp add: enqueue_def new_scheduler_def sample_job_def empty_job_def free_slot_new Let_def)
qed

lemma sample_run:
  obtains s where "enqueue (sample_job 0) (new_scheduler 4) = Done s"
    "(scheduling_step 4)\<^sup>*\<^sup>* (started 4) ((started 4)\<lparr>rn_state := s, rn_enqueued := [sample_job 0]\<rparr>)"
proof -
  obtain s where s: "enqueue (sample_job 0) (new_scheduler 4) = Done s" using sample_enqueue by blast
  have e: "rn_enqueued (started 4) @ [sample_job 0] = [sample_job 0]" by (simp add: started_def)
  have "scheduling_step 4 (started 4) ((started 4)\<lparr>rn_state := s, rn_enqueued := rn_enqueued (started 4) @ [sample_job 0]\<rparr>)"
  proof (rule enqueues)
    show "enqueue (sample_job 0) (rn_state (started 4)) = Done s" using s by (simp add: started_def)
    show "jb_band (sample_job 0) < 4" by (simp add: sample_job_def empty_job_def)
  qed
  then have "(scheduling_step 4)\<^sup>*\<^sup>* (started 4) ((started 4)\<lparr>rn_state := s, rn_enqueued := [sample_job 0]\<rparr>)"
    unfolding e by blast
  with s show thesis by (rule that)
qed

theorem detectors_exclusive_witness:
  "\<exists>s. enqueue (sample_job 0) (new_scheduler 4) = Done s \<and> dq_occupied_count (sc_queues s ! 0) \<le> 16"
proof -
  obtain s where s: "enqueue (sample_job 0) (new_scheduler 4) = Done s"
    "(scheduling_step 4)\<^sup>*\<^sup>* (started 4) ((started 4)\<lparr>rn_state := s, rn_enqueued := [sample_job 0]\<rparr>)"
    by (rule sample_run)
  from detectors_exclusive [OF s(2), of 0] s(1) show ?thesis
    by (auto simp: Let_def detector_workers_def)
qed

text \<open>
  C12: The jobs of a subband are processed in the order in which they were enqueued, and none is
  lost or repeated, whichever thread takes which job: those taken, then those given up after a
  failure, then those pending, are the jobs enqueued for the subband.
\<close>

theorem band_order_kept:
  assumes "(scheduling_step bands)\<^sup>*\<^sup>* (started bands) r" "b < bands"
  shows "of_band b (rn_enqueued r) = of_band b (rn_taken r) @ of_band b (rn_given_up r) @
    of_band b (pending_jobs (band_queue (rn_state r) b))"
  using run_reachable [OF assms(1)] assms(2) by (simp add: run_ok_def)

theorem band_order_kept_witness:
  "\<exists>s. enqueue (sample_job 0) (new_scheduler 4) = Done s \<and>
     [sample_job 0] = of_band 0 (pending_jobs (band_queue s 0))"
proof -
  obtain s where s: "enqueue (sample_job 0) (new_scheduler 4) = Done s"
    "(scheduling_step 4)\<^sup>*\<^sup>* (started 4) ((started 4)\<lparr>rn_state := s, rn_enqueued := [sample_job 0]\<rparr>)"
    by (rule sample_run)
  from band_order_kept [OF s(2), of 0] s(1) show ?thesis
    by (auto simp: started_def of_band_def sample_job_def empty_job_def)
qed

lemma claim_waits:
  assumes ok: "scheduler_ok bands s active" and none: "claim s = None" and i: "i < detector_workers"
    and j: "j \<in> set (pending_jobs (sc_queues s ! i))"
  shows "jb_band j \<in> work_band s ` set active"
proof -
  note S = ok [unfolded scheduler_ok_def]
  have "eligible_detector_job s = None" using none by (auto simp: claim_def Let_def split: option.splits)
  then have "eligible_in (sc_busy s) (sc_queues s ! i) = None" using eligible_queues(2) [OF _ _ i] S by blast
  then have "sc_busy s ! jb_band j" using j by (rule eligible_in_None)
  moreover have "queue_ok bands i (active_slots i active) (sc_queues s ! i)" using S i by blast
  then have "jb_band j < bands" using j by (rule pending_bands(2))
  ultimately show ?thesis using S by blast
qed

lemma idle_claims:
  assumes ok: "scheduler_ok bands s []" and i: "i < detector_workers" and p: "pending_slots (sc_queues s ! i) \<noteq> []"
  shows "claim s \<noteq> None"
proof
  assume none: "claim s = None"
  obtain j where "j \<in> set (pending_jobs (sc_queues s ! i))"
    using p by (cases "pending_slots (sc_queues s ! i)") (auto simp: pending_jobs_def)
  from claim_waits [OF ok none i this] show False by simp
qed

text \<open>
  C11: The detector queues cannot deadlock. When no job can be taken, every pending job waits for
  its own subband, which is being processed; while nothing is processed and a job is pending
  some job can be taken; and when the channelizer has to wait for a slot, a job can be taken or
  is being processed.
\<close>

theorem detectors_progress:
  assumes reach: "(scheduling_step bands)\<^sup>*\<^sup>* (started bands) r"
  shows "(claim (rn_state r) = None \<longrightarrow> (\<forall>i<detector_workers. \<forall>j\<in>set (pending_jobs (sc_queues (rn_state r) ! i)).
        jb_band j \<in> work_band (rn_state r) ` set (rn_active r))) \<and>
    (rn_active r = [] \<and> 0 < sc_pending (rn_state r) \<longrightarrow> claim (rn_state r) \<noteq> None) \<and>
    (enqueue job (rn_state r) = Waits \<longrightarrow> claim (rn_state r) \<noteq> None \<or> rn_active r \<noteq> [])"
proof -
  let ?s = "rn_state r"
  have ok: "scheduler_ok bands ?s (rn_active r)" using run_reachable [OF reach] by (simp add: run_ok_def)
  note S = ok [unfolded scheduler_ok_def]
  have second: "claim ?s \<noteq> None" if "rn_active r = []" "0 < sc_pending ?s"
  proof -
    have "pending_total (sc_queues ?s) \<noteq> 0" using that S by simp
    then obtain i where "i < detector_workers" "pending_slots (sc_queues ?s ! i) \<noteq> []"
      using S by (auto simp: pending_total_def)
    then show ?thesis using idle_claims ok that(1) by metis
  qed
  have third: "claim ?s \<noteq> None \<or> rn_active r \<noteq> []" if w: "enqueue job ?s = Waits"
  proof (cases "rn_active r = []")
    case False
    then show ?thesis by simp
  next
    case True
    let ?i = "jb_band job mod detector_workers"
    have i: "?i < detector_workers" by (simp add: detector_workers_def)
    have "\<not> dq_occupied_count (sc_queues ?s ! ?i) < detector_queue_capacity"
      using w by (auto simp: enqueue_def Let_def split: if_splits option.splits)
    moreover have "queue_ok bands ?i (active_slots ?i (rn_active r)) (sc_queues ?s ! ?i)" using S i by blast
    ultimately have "pending_slots (sc_queues ?s ! ?i) \<noteq> []"
      using True by (auto simp: queue_ok_def active_slots_def detector_queue_capacity_def)
    then show ?thesis using idle_claims [of bands ?s ?i] ok True i by simp
  qed
  from claim_waits [OF ok] second third show ?thesis by blast
qed

theorem detectors_progress_witness:
  "\<exists>s. enqueue (sample_job 0) (new_scheduler 4) = Done s \<and> claim s \<noteq> None"
proof -
  obtain s where s: "enqueue (sample_job 0) (new_scheduler 4) = Done s"
    "(scheduling_step 4)\<^sup>*\<^sup>* (started 4) ((started 4)\<lparr>rn_state := s, rn_enqueued := [sample_job 0]\<rparr>)"
    by (rule sample_run)
  have "0 < sc_pending s" using s(1) by (auto simp: enqueue_def Let_def split: if_splits option.splits)
  with detectors_progress [OF s(2)] s(1) show ?thesis by (auto simp: started_def)
qed

end
