(* ===== verification/DiscoveryIntake.thy ===== *)
theory DiscoveryIntake
  imports CircularQueues
begin

text \<open>
  The receiving side of the background discovery (\<open>submit\<close>, \<open>produce\<close> and the gaps of
  \<open>DiscoveryWorker::Impl\<close> in \<open>discovery_worker.cpp\<close>): blocks of samples are copied into one of
  64 slots or rejected, and every interval of the input that is not analysed is counted and
  kept as a gap. Coordinates and counters are 64-bit; the samples are not modelled. The flags
  \<open>closed\<close> and \<open>failed\<close> are set by other threads, so what \<open>submit\<close> sees of them, at its first
  and at its second look, is an argument.
\<close>

section \<open>State\<close>

datatype gap_reason = Source_Queue_Full | Input_Discontinuity | Input_Too_Large | Invalid_Input_Order
  | Invalid_Sample_Coordinate | Processing_Failure

text \<open>No subband stands for all of them.\<close>

record input_gap =
  ig_first :: u64
  ig_end :: u64
  ig_band :: "nat option"
  ig_reason :: gap_reason

record source_block =
  sb_first :: u64
  sb_count :: u64

definition maximum_coordinate :: u64 where "maximum_coordinate = 2 ^ 53"
definition maximum_input_block :: u64 where "maximum_input_block = 131072"
definition source_capacity :: nat where "source_capacity = 64"
definition gap_capacity :: nat where "gap_capacity = 128"

record intake =
  in_submitted :: bool
  in_expected :: u64
  in_sources :: "source_block ring"
  in_gaps :: "input_gap ring"
  in_accepted :: u64
  in_rejected :: u64
  in_channelized :: u64
  in_abandoned :: u64
  in_source_gap :: u64
  in_band_gaps :: "u64 list"
  in_queue_drops :: u64
  in_invalid :: u64
  in_after_close :: u64
  in_gap_overflows :: u64
  in_high_water :: nat

definition no_gap :: input_gap where
  "no_gap = \<lparr>ig_first = 0, ig_end = 0, ig_band = Some 0, ig_reason = Input_Discontinuity\<rparr>"

definition new_intake :: "nat \<Rightarrow> intake" where
  "new_intake bands =
     \<lparr>in_submitted = False, in_expected = 0, in_sources = new_ring source_capacity \<lparr>sb_first = 0, sb_count = 0\<rparr>,
      in_gaps = new_ring gap_capacity no_gap, in_accepted = 0, in_rejected = 0, in_channelized = 0, in_abandoned = 0,
      in_source_gap = 0, in_band_gaps = replicate bands 0, in_queue_drops = 0, in_invalid = 0, in_after_close = 0,
      in_gap_overflows = 0, in_high_water = 0\<rparr>"

section \<open>Operations\<close>

text \<open>\<open>add\<close>: a counter that stops at its maximum.\<close>

definition count_up :: "u64 \<Rightarrow> u64 \<Rightarrow> u64" where
  "count_up counter value = (if value > - 1 - counter then - 1 else counter + value)"

definition extends_gap :: "input_gap ring \<Rightarrow> u64 \<Rightarrow> gap_reason \<Rightarrow> nat option \<Rightarrow> bool" where
  "extends_gap gaps first reason band \<longleftrightarrow> ring_count gaps \<noteq> 0 \<and>
     (let previous = ring_cells gaps ! ring_at gaps (ring_count gaps - 1) in
      ig_reason previous = reason \<and> ig_band previous = band \<and> ig_end previous = first)"

definition gap_locked :: "u64 \<Rightarrow> u64 \<Rightarrow> gap_reason \<Rightarrow> nat option \<Rightarrow> bool \<Rightarrow> intake \<Rightarrow> intake" where
  "gap_locked first end_sample reason band source_loss s =
     (if end_sample \<le> first then s
      else
        let s = (if source_loss \<and> band = None
          then s\<lparr>in_source_gap := count_up (in_source_gap s) (end_sample - first),
            in_band_gaps := map (\<lambda>c. count_up c (end_sample - first)) (in_band_gaps s)\<rparr>
          else s);
          gaps = in_gaps s
        in if extends_gap gaps first reason band then
             s\<lparr>in_gaps := ring_set (ring_count gaps - 1)
               ((ring_cells gaps ! ring_at gaps (ring_count gaps - 1))\<lparr>ig_end := end_sample\<rparr>) gaps\<rparr>
           else if ring_count gaps = gap_capacity then s\<lparr>in_gap_overflows := count_up (in_gap_overflows s) 1\<rparr>
           else s\<lparr>in_gaps := ring_push \<lparr>ig_first = first, ig_end = end_sample, ig_band = band, ig_reason = reason\<rparr> gaps\<rparr>)"

definition reject :: "u64 \<Rightarrow> u64 \<Rightarrow> gap_reason \<Rightarrow> intake \<Rightarrow> bool \<times> intake" where
  "reject first end_sample reason s =
     (let s = s\<lparr>in_rejected := count_up (in_rejected s) (end_sample - first)\<rparr>;
          s = (if reason = Source_Queue_Full then s\<lparr>in_queue_drops := count_up (in_queue_drops s) 1\<rparr>
               else if reason \<noteq> Processing_Failure then s\<lparr>in_invalid := count_up (in_invalid s) 1\<rparr> else s)
      in (False, gap_locked first end_sample reason None
           (reason \<noteq> Invalid_Input_Order \<and> reason \<noteq> Invalid_Sample_Coordinate) s))"

definition after_close :: "intake \<Rightarrow> bool \<times> intake" where
  "after_close s = (False, s\<lparr>in_after_close := count_up (in_after_close s) 1\<rparr>)"

record looks =
  lk_closed :: bool
  lk_failed :: bool
  lk_closed_later :: bool
  lk_failed_later :: bool

definition store_block :: "u64 \<Rightarrow> u64 \<Rightarrow> intake \<Rightarrow> intake" where
  "store_block n first s =
     (let sources = ring_push \<lparr>sb_first = first, sb_count = n\<rparr> (in_sources s) in
      s\<lparr>in_sources := sources, in_accepted := count_up (in_accepted s) n,
        in_high_water := max (in_high_water s) (ring_count sources)\<rparr>)"

definition submit :: "looks \<Rightarrow> u64 \<Rightarrow> u64 \<Rightarrow> intake \<Rightarrow> bool \<times> intake" where
  "submit look n first s =
     (if lk_closed look then after_close s
      else if n > maximum_coordinate \<or> first > maximum_coordinate - n then
        reject first first Invalid_Sample_Coordinate s
      else
        let end_sample = first + n in
        if n = 0 then (True, s)
        else if in_submitted s \<and> first < in_expected s then reject first end_sample Invalid_Input_Order s
        else
          let s = (if in_submitted s \<and> first > in_expected s
              then gap_locked (in_expected s) first Input_Discontinuity None True s else s);
              s = s\<lparr>in_submitted := True, in_expected := end_sample\<rparr>
          in if n > maximum_input_block then reject first end_sample Input_Too_Large s
             else if lk_failed look then reject first end_sample Processing_Failure s
             else if lk_closed_later look then after_close s
             else if lk_failed_later look then reject first end_sample Processing_Failure s
             else if ring_count (in_sources s) = source_capacity then reject first end_sample Source_Queue_Full s
             else (True, store_block n first s))"

text \<open>The producer keeps a block in its slot until the block is channelized.\<close>

definition channelize_block :: "intake \<Rightarrow> intake" where
  "channelize_block s =
     (if ring_count (in_sources s) = 0 then s
      else s\<lparr>in_channelized := count_up (in_channelized s) (sb_count (ring_first (in_sources s))),
        in_sources := ring_pop (in_sources s)\<rparr>)"

fun discard_sources :: "nat \<Rightarrow> intake \<Rightarrow> intake" where
  "discard_sources 0 s = s"
| "discard_sources (Suc k) s =
     (let block = ring_first (in_sources s);
          s = gap_locked (sb_first block) (sb_first block + sb_count block) Processing_Failure None False
            (s\<lparr>in_abandoned := count_up (in_abandoned s) (sb_count block)\<rparr>)
      in discard_sources k (s\<lparr>in_sources := ring_pop (in_sources s)\<rparr>))"

definition discard_pending_sources :: "intake \<Rightarrow> intake" where
  "discard_pending_sources s = discard_sources (ring_count (in_sources s)) s"

definition take_gaps :: "intake \<Rightarrow> input_gap list \<times> intake" where
  "take_gaps s = (let (out, gaps) = ring_drain (ring_count (in_gaps s)) (in_gaps s) [] in (out, s\<lparr>in_gaps := gaps\<rparr>))"

section \<open>Runs\<close>

text \<open>With the coordinate of the first sample that was submitted.\<close>

inductive intake_step :: "u64 \<times> intake \<Rightarrow> u64 \<times> intake \<Rightarrow> bool" where
  submits: "intake_step (origin, s)
     ((if in_submitted s then origin else first), snd (submit look n first s))"
| channelizes: "intake_step (origin, s) (origin, channelize_block s)"
| discards: "intake_step (origin, s) (origin, discard_pending_sources s)"
| reads: "intake_step (origin, s) (origin, snd (take_gaps s))"

section \<open>Counters\<close>

lemma count_up_exact: "unat c + unat v < 2 ^ 64 \<Longrightarrow> unat (count_up c v) = unat c + unat v"
proof -
  assume a: "unat c + unat v < 2 ^ 64"
  have "unat (- 1 :: u64) = 2 ^ 64 - 1" by (simp add: unsigned_minus_1_eq_mask mask_eq_exp_minus_1)
  then have m: "unat (- 1 - c) = 2 ^ 64 - 1 - unat c" by (simp add: unat_sub)
  have "\<not> v > - 1 - c" using a unfolding word_less_nat_alt m by simp
  then show ?thesis using a by (simp add: count_up_def unat_word_ariths)
qed

lemma count_up_positive: "count_up c 1 \<noteq> 0"
proof (cases "1 > - 1 - c")
  case True
  then show ?thesis by (auto simp: count_up_def)
next
  case False
  have "c + 1 \<noteq> 0"
  proof
    assume "c + 1 = 0"
    then have c: "c = - 1" by (rule eq_neg_iff_add_eq_0 [THEN iffD2])
    show False using False unfolding c by simp
  qed
  then show ?thesis using False by (simp add: count_up_def)
qed

section \<open>Gaps\<close>

definition gaps_ok :: "intake \<Rightarrow> bool" where
  "gaps_ok s \<longleftrightarrow> ring_ok gap_capacity (in_gaps s) \<and> (\<forall>g\<in>set (ring_list (in_gaps s)). ig_first g < ig_end g) \<and>
     (\<forall>c\<in>set (in_band_gaps s). c = in_source_gap s)"

text \<open>What the other counters and the sources are.\<close>

abbreviation intake_rest :: "intake \<Rightarrow> bool \<times> u64 \<times> source_block ring \<times> u64 \<times> u64 \<times> u64 \<times> u64" where
  "intake_rest s \<equiv> (in_submitted s, in_expected s, in_sources s, in_accepted s, in_channelized s, in_abandoned s, in_after_close s)"

lemma gap_locked_rest:
  "intake_rest (gap_locked f e reason band loss s) = intake_rest s"
  "in_source_gap (gap_locked f e reason band loss s) =
     (if f < e \<and> loss \<and> band = None then count_up (in_source_gap s) (e - f) else in_source_gap s)"
  by (auto simp: gap_locked_def Let_def not_le)

lemma gap_locked_fields [simp]:
  "in_submitted (gap_locked f e reason band loss s) = in_submitted s"
  "in_expected (gap_locked f e reason band loss s) = in_expected s"
  "in_sources (gap_locked f e reason band loss s) = in_sources s"
  "in_accepted (gap_locked f e reason band loss s) = in_accepted s"
  "in_channelized (gap_locked f e reason band loss s) = in_channelized s"
  "in_abandoned (gap_locked f e reason band loss s) = in_abandoned s"
  "in_after_close (gap_locked f e reason band loss s) = in_after_close s"
  using gap_locked_rest(1) [of f e reason band loss s] by simp_all

lemma last_gap: "ring_count r \<noteq> 0 \<Longrightarrow> ring_cells r ! ring_at r (ring_count r - 1) = ring_list r ! (ring_count r - 1)"
  by (simp add: ring_list_nth)

lemma gaps_ok_locked: "gaps_ok s \<Longrightarrow> gaps_ok (gap_locked f e reason band loss s)"
proof -
  assume ok: "gaps_ok s"
  let ?s = "if loss \<and> band = None then s\<lparr>in_source_gap := count_up (in_source_gap s) (e - f),
            in_band_gaps := map (\<lambda>c. count_up c (e - f)) (in_band_gaps s)\<rparr> else s"
  have ok': "gaps_ok ?s" and gaps: "in_gaps ?s = in_gaps s" using ok by (auto simp: gaps_ok_def)
  let ?g = "in_gaps s"
  have r: "ring_ok gap_capacity ?g" using ok by (simp add: gaps_ok_def)
  show ?thesis
  proof (cases "e \<le> f")
    case True
    then show ?thesis using ok by (simp add: gap_locked_def)
  next
    case False
    then have fe: "f < e" by simp
    have eq: "gap_locked f e reason band loss s = (if extends_gap ?g f reason band then
             ?s\<lparr>in_gaps := ring_set (ring_count ?g - 1) ((ring_cells ?g ! ring_at ?g (ring_count ?g - 1))\<lparr>ig_end := e\<rparr>) ?g\<rparr>
           else if ring_count ?g = gap_capacity then ?s\<lparr>in_gap_overflows := count_up (in_gap_overflows ?s) 1\<rparr>
           else ?s\<lparr>in_gaps := ring_push \<lparr>ig_first = f, ig_end = e, ig_band = band, ig_reason = reason\<rparr> ?g\<rparr>)"
      using False by (simp add: gap_locked_def Let_def)
    consider (merge) "extends_gap ?g f reason band" | (full) "\<not> extends_gap ?g f reason band" "ring_count ?g = gap_capacity"
      | (new) "\<not> extends_gap ?g f reason band" "ring_count ?g < gap_capacity"
      using r by (auto simp: ring_ok_def le_less)
    then show ?thesis
    proof cases
      case merge
      let ?p = "ring_cells ?g ! ring_at ?g (ring_count ?g - 1)"
      have c: "ring_count ?g \<noteq> 0" "ig_end ?p = f" using merge by (auto simp: extends_gap_def Let_def)
      have "?p \<in> set (ring_list ?g)" using c(1) last_gap [of ?g] by (metis diff_less length_greater_0_conv length_ring_list less_one list.size(3) nth_mem zero_less_iff_neq_zero)
      then have "ig_first ?p < f" using ok c(2) by (auto simp: gaps_ok_def)
      then have "ig_first (?p\<lparr>ig_end := e\<rparr>) < ig_end (?p\<lparr>ig_end := e\<rparr>)" using fe by simp
      moreover note ring_set_list [OF r, of "ring_count ?g - 1" "?p\<lparr>ig_end := e\<rparr>"] c(1)
      ultimately show ?thesis
        unfolding eq using merge ok' by (auto simp: gaps_ok_def dest!: set_update_subset_insert [THEN subsetD])
    next
      case full
      then show ?thesis unfolding eq using ok' by (simp add: gaps_ok_def)
    next
      case new
      then show ?thesis unfolding eq using ok' fe ring_push_list [OF r new(2)] by (auto simp: gaps_ok_def)
    qed
  qed
qed

section \<open>Blocks and coverage\<close>

definition block_list :: "intake \<Rightarrow> source_block list" where
  "block_list s = ring_list (in_sources s)"

definition block_end :: "source_block \<Rightarrow> nat" where
  "block_end b = unat (sb_first b) + unat (sb_count b)"

definition waiting_samples :: "intake \<Rightarrow> nat" where
  "waiting_samples s = (\<Sum>b\<leftarrow>block_list s. unat (sb_count b))"

definition blocks_ok :: "intake \<Rightarrow> bool" where
  "blocks_ok s \<longleftrightarrow> ring_ok source_capacity (in_sources s) \<and>
     (\<forall>b\<in>set (block_list s). 0 < sb_count b \<and> sb_count b \<le> maximum_input_block \<and> block_end b \<le> unat (in_expected s)) \<and>
     sorted_wrt (\<lambda>a b. block_end a \<le> unat (sb_first b)) (block_list s) \<and>
     unat (in_accepted s) = unat (in_channelized s) + unat (in_abandoned s) + waiting_samples s"

definition coverage_ok :: "u64 \<Rightarrow> intake \<Rightarrow> bool" where
  "coverage_ok origin s \<longleftrightarrow>
     (if in_submitted s then
        unat origin \<le> unat (in_expected s) \<and> unat (in_expected s) \<le> 2 ^ 53 \<and>
        unat (in_accepted s) + unat (in_source_gap s) \<le> unat (in_expected s) - unat origin \<and>
        (in_after_close s = 0 \<longrightarrow> unat (in_accepted s) + unat (in_source_gap s) = unat (in_expected s) - unat origin)
      else in_accepted s = 0 \<and> in_source_gap s = 0 \<and> in_expected s = 0)"

definition intake_ok :: "u64 \<Rightarrow> intake \<Rightarrow> bool" where
  "intake_ok origin s \<longleftrightarrow> gaps_ok s \<and> blocks_ok s \<and> coverage_ok origin s"

lemma blocks_frame: "intake_rest s' = intake_rest s \<Longrightarrow> blocks_ok s' = blocks_ok s"
  by (simp add: blocks_ok_def block_list_def waiting_samples_def)

lemma coverage_same:
  assumes "coverage_ok origin s" "in_submitted s' = in_submitted s" "in_expected s' = in_expected s"
    "in_accepted s' = in_accepted s" "in_after_close s' = in_after_close s" "in_source_gap s' = in_source_gap s"
  shows "coverage_ok origin s'"
  using assms(1) unfolding coverage_ok_def assms(2-6) .

lemma coverage_frame:
  assumes "coverage_ok origin s" and rest: "intake_rest s' = intake_rest s" and gap: "in_source_gap s' = in_source_gap s"
  shows "coverage_ok origin s'"
proof -
  show ?thesis by (rule coverage_same [OF assms(1)]) (use rest gap in simp_all)
qed

lemma accepted_bound: "coverage_ok origin s \<Longrightarrow> unat (in_accepted s) + unat (in_source_gap s) \<le> 2 ^ 53"
  by (auto simp: coverage_ok_def split: if_splits)

lemma reject_parts:
  "intake_rest (snd (reject f e reason s)) = intake_rest s"
  "in_source_gap (snd (reject f e reason s)) =
     (if f < e \<and> reason \<noteq> Invalid_Input_Order \<and> reason \<noteq> Invalid_Sample_Coordinate then count_up (in_source_gap s) (e - f)
      else in_source_gap s)"
  "gaps_ok s \<Longrightarrow> gaps_ok (snd (reject f e reason s))"
proof -
  show "gaps_ok s \<Longrightarrow> gaps_ok (snd (reject f e reason s))"
    unfolding reject_def Let_def snd_conv
    by (rule gaps_ok_locked) (simp add: gaps_ok_def)
  show "intake_rest (snd (reject f e reason s)) = intake_rest s"
    by (simp add: reject_def Let_def)
  show "in_source_gap (snd (reject f e reason s)) =
     (if f < e \<and> reason \<noteq> Invalid_Input_Order \<and> reason \<noteq> Invalid_Sample_Coordinate then count_up (in_source_gap s) (e - f)
      else in_source_gap s)"
    by (simp add: reject_def Let_def gap_locked_rest(2))
qed

text \<open>Up to the acceptance of a block: the gap before it is counted and its end is expected next.\<close>

definition arrived :: "u64 \<Rightarrow> u64 \<Rightarrow> intake \<Rightarrow> intake" where
  "arrived n first s =
     (if in_submitted s \<and> first > in_expected s
      then gap_locked (in_expected s) first Input_Discontinuity None True s else s)
     \<lparr>in_submitted := True, in_expected := first + n\<rparr>"

definition pre_coverage :: "u64 \<Rightarrow> u64 \<Rightarrow> intake \<Rightarrow> bool" where
  "pre_coverage origin n s \<longleftrightarrow> in_submitted s \<and> unat origin + unat n \<le> unat (in_expected s) \<and> unat (in_expected s) \<le> 2 ^ 53 \<and>
     unat (in_accepted s) + unat (in_source_gap s) + unat n \<le> unat (in_expected s) - unat origin \<and>
     (in_after_close s = 0 \<longrightarrow> unat (in_accepted s) + unat (in_source_gap s) + unat n = unat (in_expected s) - unat origin)"

lemma arrived_ok:
  assumes ok: "intake_ok origin s" and first: "unat first + unat n \<le> 2 ^ 53" "0 < n"
    and after: "in_submitted s \<Longrightarrow> in_expected s \<le> first"
  shows "gaps_ok (arrived n first s)" "blocks_ok (arrived n first s)"
    "pre_coverage (if in_submitted s then origin else first) n (arrived n first s)"
    "\<forall>b\<in>set (block_list (arrived n first s)). block_end b \<le> unat first" "in_expected (arrived n first s) = first + n"
proof -
  let ?e = "first + n"
  let ?s0 = "if in_submitted s \<and> first > in_expected s
      then gap_locked (in_expected s) first Input_Discontinuity None True s else s"
  have end_n: "unat ?e = unat first + unat n" using first(1) by (simp add: unat_word_ariths)
  have rest: "intake_rest ?s0 = intake_rest s" by simp
  have g0: "gaps_ok ?s0" using ok gaps_ok_locked by (simp add: intake_ok_def)
  have a: "arrived n first s = ?s0\<lparr>in_submitted := True, in_expected := ?e\<rparr>" by (simp add: arrived_def)
  show "gaps_ok (arrived n first s)" unfolding a using g0 by (simp add: gaps_ok_def)
  have exp: "unat (in_expected s) \<le> unat first"
  proof (cases "in_submitted s")
    case True
    then show ?thesis using after by (simp add: word_le_nat_alt)
  next
    case False
    then have "in_expected s = 0" using ok by (simp add: intake_ok_def coverage_ok_def)
    then show ?thesis by simp
  qed
  have bl: "block_list (arrived n first s) = block_list s" unfolding a using rest by (simp add: block_list_def)
  have blocks: "blocks_ok s" using ok by (simp add: intake_ok_def)
  then show be: "\<forall>b\<in>set (block_list (arrived n first s)). block_end b \<le> unat first"
    unfolding bl using exp by (auto simp: blocks_ok_def)
  show ex: "in_expected (arrived n first s) = ?e" by (simp add: a)
  have "waiting_samples (arrived n first s) = waiting_samples s" by (simp add: waiting_samples_def bl)
  then show "blocks_ok (arrived n first s)"
    using blocks be rest unfolding blocks_ok_def bl ex by (auto simp: a end_n)
  have cov: "coverage_ok origin s" using ok by (simp add: intake_ok_def)
  show "pre_coverage (if in_submitted s then origin else first) n (arrived n first s)"
  proof (cases "in_submitted s")
    case False
    then show ?thesis using cov rest first end_n
      by (simp add: pre_coverage_def a coverage_ok_def)
  next
    case True
    have gap: "unat (in_source_gap ?s0) = unat (in_source_gap s) + (unat first - unat (in_expected s))"
    proof (cases "first > in_expected s")
      case False
      then show ?thesis using exp by (simp add: word_less_nat_alt)
    next
      case gt: True
      have d: "unat (first - in_expected s) = unat first - unat (in_expected s)"
        using gt by (intro unat_sub) simp
      have "unat (in_source_gap s) + unat (first - in_expected s) < 2 ^ 64"
        using accepted_bound [OF cov] first(1) d by simp
      then have "unat (count_up (in_source_gap s) (first - in_expected s)) = unat (in_source_gap s) + unat (first - in_expected s)"
        by (rule count_up_exact)
      then show ?thesis using gt True d by (simp add: gap_locked_rest)
    qed
    have c: "unat origin \<le> unat (in_expected s)"
        "unat (in_accepted s) + unat (in_source_gap s) \<le> unat (in_expected s) - unat origin"
        "in_after_close s = 0 \<longrightarrow> unat (in_accepted s) + unat (in_source_gap s) = unat (in_expected s) - unat origin"
      using cov True by (simp_all add: coverage_ok_def)
    have r: "in_accepted (arrived n first s) = in_accepted s" "in_after_close (arrived n first s) = in_after_close s"
        "in_source_gap (arrived n first s) = in_source_gap ?s0" "in_submitted (arrived n first s)"
      using rest by (simp_all add: a)
    show ?thesis
      unfolding pre_coverage_def r ex end_n gap using c exp first(1) True r(4) by auto
  qed
qed


text \<open>What follows the arrival of a block.\<close>

lemma coverage_from_pre:
  assumes pre: "pre_coverage origin n s" and rest: "in_submitted s' = in_submitted s" "in_expected s' = in_expected s"
    and sum: "unat (in_accepted s') + unat (in_source_gap s') = unat (in_accepted s) + unat (in_source_gap s) + m" "m \<le> unat n"
    and closed: "in_after_close s' = 0 \<Longrightarrow> m = unat n \<and> in_after_close s = 0"
  shows "coverage_ok origin s'"
  using pre sum closed rest unfolding pre_coverage_def coverage_ok_def by auto

lemma pre_bound: "pre_coverage origin n s \<Longrightarrow> unat (in_accepted s) + unat (in_source_gap s) + unat n \<le> 2 ^ 53"
  unfolding pre_coverage_def by (elim conjE) linarith

lemma rejected_ok:
  assumes g: "gaps_ok s" and b: "blocks_ok s" and pre: "pre_coverage origin n s" and n: "0 < n" "unat first + unat n \<le> 2 ^ 53"
    and reason: "reason \<notin> {Invalid_Input_Order, Invalid_Sample_Coordinate}"
  shows "intake_ok origin (snd (reject first (first + n) reason s))"
proof -
  let ?s = "snd (reject first (first + n) reason s)"
  have u: "unat (first + n) = unat first + unat n" using n(2) by (simp add: unat_word_ariths)
  have lt: "first < first + n" using n(1) u by (simp add: word_less_nat_alt)
  have "in_source_gap ?s = count_up (in_source_gap s) n"
    unfolding reject_parts(2) using lt reason by simp
  moreover have "unat (in_source_gap s) + unat n < 2 ^ 64" using pre_bound [OF pre] by simp
  ultimately have gap: "unat (in_source_gap ?s) = unat (in_source_gap s) + unat n" by (simp add: count_up_exact)
  have rest: "intake_rest ?s = intake_rest s" by (rule reject_parts(1))
  have "coverage_ok origin ?s"
    by (rule coverage_from_pre [OF pre, of _ "unat n"]) (use rest gap in simp_all)
  moreover have "blocks_ok ?s" using b blocks_frame [OF rest] by simp
  ultimately show ?thesis using reject_parts(3) [OF g] by (simp add: intake_ok_def)
qed

lemma stored_ok:
  assumes g: "gaps_ok s" and b: "blocks_ok s" and pre: "pre_coverage origin n s" and n: "0 < n" "n \<le> maximum_input_block"
    "unat first + unat n \<le> 2 ^ 53" and before: "\<forall>b\<in>set (block_list s). block_end b \<le> unat first"
    and exp: "in_expected s = first + n" and room: "ring_count (in_sources s) < source_capacity"
  shows "intake_ok origin (store_block n first s)"
proof -
  let ?b = "\<lparr>sb_first = first, sb_count = n\<rparr>" and ?s = "store_block n first s"
  have u: "unat (first + n) = unat first + unat n" using n(3) by (simp add: unat_word_ariths)
  have r: "ring_ok source_capacity (in_sources s)" using b by (simp add: blocks_ok_def)
  note push = ring_push_list [OF r room, of ?b]
  have bl: "block_list ?s = block_list s @ [?b]" by (simp add: block_list_def store_block_def Let_def push)
  have "unat (in_accepted s) + unat n < 2 ^ 64" using pre_bound [OF pre] by simp
  then have acc: "unat (in_accepted ?s) = unat (in_accepted s) + unat n"
    by (simp add: store_block_def Let_def count_up_exact)
  have f: "in_submitted ?s = in_submitted s" "in_expected ?s = in_expected s" "in_source_gap ?s = in_source_gap s"
    "in_after_close ?s = in_after_close s" "in_channelized ?s = in_channelized s" "in_abandoned ?s = in_abandoned s"
    "ring_ok source_capacity (in_sources ?s)"
    by (simp_all add: store_block_def Let_def push)
  have "coverage_ok origin ?s"
    by (rule coverage_from_pre [OF pre, of _ "unat n"]) (use f acc in simp_all)
  moreover have "blocks_ok ?s"
    unfolding blocks_ok_def waiting_samples_def bl
    using b before n f acc exp u by (auto simp: blocks_ok_def waiting_samples_def sorted_wrt_append block_end_def)
  moreover have "gaps_ok ?s" using g by (simp add: gaps_ok_def store_block_def Let_def)
  ultimately show ?thesis by (simp add: intake_ok_def)
qed

lemma after_close_ok:
  assumes "gaps_ok s" "blocks_ok s"
  shows "gaps_ok (snd (after_close s))" "blocks_ok (snd (after_close s))"
  using assms by (simp_all add: after_close_def gaps_ok_def blocks_ok_def block_list_def waiting_samples_def)

lemma submit_ok:
  assumes ok: "intake_ok origin s"
  shows "intake_ok (if in_submitted s then origin else first) (snd (submit look n first s))"
proof -
  let ?o = "if in_submitted s then origin else first"
  have parts: "gaps_ok s" "blocks_ok s" "coverage_ok origin s" using ok by (simp_all add: intake_ok_def)
  have cov: "coverage_ok ?o s" using parts(3) by (cases "in_submitted s") (simp_all add: coverage_ok_def)
  have same: "intake_ok ?o s" using parts cov by (simp add: intake_ok_def)
  show ?thesis
  proof (cases "lk_closed look")
    case True
    have "coverage_ok ?o (snd (after_close s))"
      using cov count_up_positive [of "in_after_close s"] by (auto simp: after_close_def coverage_ok_def)
    then show ?thesis using after_close_ok [OF parts(1,2)] True by (simp add: submit_def intake_ok_def)
  next
    case open_: False
    show ?thesis
    proof (cases "n > maximum_coordinate \<or> first > maximum_coordinate - n")
      case True
      let ?s = "snd (reject first first Invalid_Sample_Coordinate s)"
      have rest: "intake_rest ?s = intake_rest s" and gap: "in_source_gap ?s = in_source_gap s" by (simp_all add: reject_parts)
      have "coverage_ok ?o ?s" by (rule coverage_frame [OF cov rest gap])
      moreover have "blocks_ok ?s" using parts(2) blocks_frame [OF rest] by simp
      ultimately show ?thesis using True open_ reject_parts(3) [OF parts(1)] by (simp add: submit_def intake_ok_def)
    next
      case False
      then have le: "n \<le> maximum_coordinate" "first \<le> maximum_coordinate - n" by (simp_all add: not_less)
      have "unat maximum_coordinate = 2 ^ 53" by (simp add: maximum_coordinate_def)
      then have "unat first \<le> 2 ^ 53 - unat n" "unat n \<le> 2 ^ 53"
        using le unat_sub [OF le(1)] by (simp_all add: word_le_nat_alt)
      then have bound: "unat first + unat n \<le> 2 ^ 53" by linarith
      show ?thesis
      proof (cases "n = 0")
        case True
        then show ?thesis using False open_ same by (simp add: submit_def)
      next
        case n: False
        then have n0: "0 < n" by (simp add: word_neq_0_conv)
        show ?thesis
        proof (cases "in_submitted s \<and> first < in_expected s")
          case True
          let ?s = "snd (reject first (first + n) Invalid_Input_Order s)"
          have rest: "intake_rest ?s = intake_rest s" and gap: "in_source_gap ?s = in_source_gap s" by (simp_all add: reject_parts)
          have "coverage_ok ?o ?s" by (rule coverage_frame [OF cov rest gap])
          moreover have "blocks_ok ?s" using parts(2) blocks_frame [OF rest] by simp
          moreover have "submit look n first s = reject first (first + n) Invalid_Input_Order s"
            unfolding submit_def Let_def if_not_P [OF open_] if_not_P [OF False] if_not_P [OF n] if_P [OF True] by (rule refl)
          ultimately show ?thesis using reject_parts(3) [OF parts(1)] by (simp add: intake_ok_def)
        next
          case fresh: False
          let ?a = "arrived n first s"
          note arr = arrived_ok [OF ok bound n0]
          have exp: "in_submitted s \<Longrightarrow> in_expected s \<le> first" using fresh by simp
          note arr = arr [OF exp]
          have eq: "submit look n first s =
              (if n > maximum_input_block then reject first (first + n) Input_Too_Large ?a
               else if lk_failed look then reject first (first + n) Processing_Failure ?a
               else if lk_closed_later look then after_close ?a
               else if lk_failed_later look then reject first (first + n) Processing_Failure ?a
               else if ring_count (in_sources ?a) = source_capacity then reject first (first + n) Source_Queue_Full ?a
               else (True, store_block n first ?a))"
            unfolding submit_def Let_def if_not_P [OF open_] if_not_P [OF False] if_not_P [OF n] if_not_P [OF fresh] arrived_def by (rule refl)
          note rj = rejected_ok [OF arr(1,2,3) n0 bound]
          have "coverage_ok ?o (snd (after_close ?a))"
            by (rule coverage_from_pre [OF arr(3), of _ 0])
              (simp_all add: after_close_def count_up_positive)
          then have ac: "intake_ok ?o (snd (after_close ?a))" using after_close_ok [OF arr(1,2)] by (simp add: intake_ok_def)
          have room: "ring_count (in_sources ?a) < source_capacity" if "ring_count (in_sources ?a) \<noteq> source_capacity"
            using arr(2) that by (simp add: blocks_ok_def ring_ok_def)
          have st: "intake_ok ?o (store_block n first ?a)"
            if "\<not> n > maximum_input_block" "ring_count (in_sources ?a) \<noteq> source_capacity"
            using that stored_ok [OF arr(1,2,3) n0 _ bound arr(4,5) room] by simp
          define oo where "oo = ?o"
          show ?thesis unfolding eq oo_def [symmetric]
            using rj [folded oo_def] ac [folded oo_def] st [folded oo_def] by simp
        qed
      qed
    qed
  qed
qed

section \<open>The producer and the reader\<close>

lemma blocks_head:
  assumes b: "blocks_ok s" and c: "ring_count (in_sources s) \<noteq> 0"
  shows "block_list s = ring_first (in_sources s) # ring_list (ring_pop (in_sources s))"
    "ring_ok source_capacity (ring_pop (in_sources s))"
  using b c ring_pop_list [of source_capacity "in_sources s"]
  by (simp_all add: blocks_ok_def block_list_def)

lemma popped_ok:
  assumes b: "blocks_ok s" and c: "ring_count (in_sources s) \<noteq> 0"
    and rest: "in_sources s' = ring_pop (in_sources s)" "in_expected s' = in_expected s" "in_accepted s' = in_accepted s"
    and sum: "unat (in_channelized s') + unat (in_abandoned s') =
      unat (in_channelized s) + unat (in_abandoned s) + unat (sb_count (ring_first (in_sources s)))"
  shows "blocks_ok s'"
proof -
  note h = blocks_head [OF b c]
  have l: "block_list s = ring_first (in_sources s) # block_list s'" using h(1) rest(1) by (simp add: block_list_def)
  then have w: "waiting_samples s = unat (sb_count (ring_first (in_sources s))) + waiting_samples s'"
    by (simp add: waiting_samples_def)
  show ?thesis using b h(2) sum unfolding blocks_ok_def w l by (simp add: rest)
qed

lemma done_bound:
  assumes b: "blocks_ok s" and cov: "coverage_ok origin s" and c: "ring_count (in_sources s) \<noteq> 0"
  shows "unat (in_channelized s) + unat (sb_count (ring_first (in_sources s))) < 2 ^ 64"
    "unat (in_abandoned s) + unat (sb_count (ring_first (in_sources s))) < 2 ^ 64"
proof -
  have "unat (sb_count (ring_first (in_sources s))) \<le> waiting_samples s"
    using blocks_head(1) [OF b c] by (simp add: waiting_samples_def)
  moreover have "unat (in_accepted s) = unat (in_channelized s) + unat (in_abandoned s) + waiting_samples s"
    using b by (simp add: blocks_ok_def)
  ultimately have "unat (in_channelized s) + unat (in_abandoned s) + unat (sb_count (ring_first (in_sources s))) \<le> 2 ^ 53"
    using accepted_bound [OF cov] by linarith
  then show "unat (in_channelized s) + unat (sb_count (ring_first (in_sources s))) < 2 ^ 64"
    "unat (in_abandoned s) + unat (sb_count (ring_first (in_sources s))) < 2 ^ 64" by simp_all
qed

lemma channelize_ok:
  assumes ok: "intake_ok origin s"
  shows "intake_ok origin (channelize_block s)"
proof (cases "ring_count (in_sources s) = 0")
  case True
  then show ?thesis using ok by (simp add: channelize_block_def)
next
  case False
  have parts: "gaps_ok s" "blocks_ok s" "coverage_ok origin s" using ok by (simp_all add: intake_ok_def)
  have "unat (in_channelized (channelize_block s)) = unat (in_channelized s) + unat (sb_count (ring_first (in_sources s)))"
    using False by (simp add: channelize_block_def count_up_exact [OF done_bound(1) [OF parts(2,3) False]])
  then have "blocks_ok (channelize_block s)"
    using False by (intro popped_ok [OF parts(2) False]) (simp_all add: channelize_block_def)
  moreover have "coverage_ok origin (channelize_block s)"
    by (rule coverage_same [OF parts(3)]) (simp_all add: channelize_block_def)
  ultimately show ?thesis using parts(1) by (simp add: intake_ok_def channelize_block_def gaps_ok_def)
qed

definition abandon_first :: "intake \<Rightarrow> intake" where
  "abandon_first s = (let block = ring_first (in_sources s) in
     (gap_locked (sb_first block) (sb_first block + sb_count block) Processing_Failure None False
       (s\<lparr>in_abandoned := count_up (in_abandoned s) (sb_count block)\<rparr>))\<lparr>in_sources := ring_pop (in_sources s)\<rparr>)"

lemma abandon_ok:
  assumes ok: "intake_ok origin s" and c: "ring_count (in_sources s) \<noteq> 0"
  shows "intake_ok origin (abandon_first s)"
proof -
  have parts: "gaps_ok s" "blocks_ok s" "coverage_ok origin s" using ok by (simp_all add: intake_ok_def)
  let ?b = "ring_first (in_sources s)"
  let ?m = "s\<lparr>in_abandoned := count_up (in_abandoned s) (sb_count ?b)\<rparr>"
  let ?g = "gap_locked (sb_first ?b) (sb_first ?b + sb_count ?b) Processing_Failure None False ?m"
  have a: "abandon_first s = ?g\<lparr>in_sources := ring_pop (in_sources s)\<rparr>" by (simp add: abandon_first_def Let_def)
  have "gaps_ok ?g" by (rule gaps_ok_locked) (use parts(1) in \<open>simp add: gaps_ok_def\<close>)
  then have "gaps_ok (abandon_first s)" unfolding a by (simp add: gaps_ok_def)
  moreover have "blocks_ok (abandon_first s)"
    by (rule popped_ok [OF parts(2) c])
      (simp_all add: a count_up_exact [OF done_bound(2) [OF parts(2,3) c]])
  moreover have "coverage_ok origin (abandon_first s)"
    by (rule coverage_same [OF parts(3)]) (simp_all add: a gap_locked_rest(2))
  ultimately show ?thesis by (simp add: intake_ok_def)
qed

lemma abandon_all_ok:
  "intake_ok origin s \<Longrightarrow> k \<le> ring_count (in_sources s) \<Longrightarrow> intake_ok origin (discard_sources k s)"
proof (induction k arbitrary: s)
  case 0
  then show ?case by simp
next
  case (Suc k)
  have c: "ring_count (in_sources s) \<noteq> 0" using Suc.prems(2) by simp
  have "ring_count (in_sources (abandon_first s)) = ring_count (in_sources s) - 1"
    by (simp add: abandon_first_def Let_def ring_pop_def)
  then have "intake_ok origin (discard_sources k (abandon_first s))"
    using Suc.IH [OF abandon_ok [OF Suc.prems(1) c]] Suc.prems(2) by simp
  then show ?case by (simp add: abandon_first_def Let_def)
qed

lemma take_gaps_ok:
  assumes ok: "intake_ok origin s"
  shows "intake_ok origin (snd (take_gaps s))" "fst (take_gaps s) = ring_list (in_gaps s)"
proof -
  have parts: "gaps_ok s" "blocks_ok s" "coverage_ok origin s" using ok by (simp_all add: intake_ok_def)
  have r: "ring_ok gap_capacity (in_gaps s)" using parts(1) by (simp add: gaps_ok_def)
  obtain out gaps where d: "ring_drain (ring_count (in_gaps s)) (in_gaps s) [] = (out, gaps)" by (cases "ring_drain (ring_count (in_gaps s)) (in_gaps s) []")
  note dr = ring_drain_list [OF r, of "[]"]
  have e: "take_gaps s = (out, s\<lparr>in_gaps := gaps\<rparr>)" by (simp add: take_gaps_def d)
  show "fst (take_gaps s) = ring_list (in_gaps s)" using dr by (simp add: e d)
  have "ring_list gaps = []" "ring_ok gap_capacity gaps" using dr by (simp_all add: d)
  then have "gaps_ok (s\<lparr>in_gaps := gaps\<rparr>)" using parts(1) by (simp add: gaps_ok_def)
  moreover have "coverage_ok origin (s\<lparr>in_gaps := gaps\<rparr>)" by (rule coverage_same [OF parts(3)]) simp_all
  ultimately show "intake_ok origin (snd (take_gaps s))"
    unfolding e using parts(2) by (simp add: intake_ok_def blocks_ok_def block_list_def waiting_samples_def)
qed

section \<open>Reachable states\<close>

lemma new_intake_ok: "intake_ok origin (new_intake bands)"
  by (simp add: intake_ok_def gaps_ok_def blocks_ok_def coverage_ok_def block_list_def waiting_samples_def new_intake_def
      ring_simps source_capacity_def gap_capacity_def)

lemma intake_step_ok: "intake_step (origin, s) (origin', s') \<Longrightarrow> intake_ok origin s \<Longrightarrow> intake_ok origin' s'"
proof (induction "(origin, s)" "(origin', s')" rule: intake_step.induct)
  case (submits first look n)
  then show ?case by (auto intro: submit_ok)
qed (auto intro: channelize_ok abandon_all_ok take_gaps_ok simp: discard_pending_sources_def)

lemma intake_reachable:
  "intake_step\<^sup>*\<^sup>* (origin, new_intake bands) p \<Longrightarrow> intake_ok (fst p) (snd p)"
proof (induction rule: rtranclp_induct)
  case base
  then show ?case by (simp add: new_intake_ok)
next
  case (step p q)
  then show ?case using intake_step_ok [of "fst p" "snd p" "fst q" "snd q"] by simp
qed

interpretation gap_queue: bounded_queue ring_list "ring_ok gap_capacity" ring_push ring_pop ring_first gap_capacity
  by (rule ring_bounded_queue)

text \<open>
  C6: whatever is submitted, in whatever order, and however the producer, the reader and the
  closing of the worker interleave: every sample that was accepted is channelized, abandoned
  or still waiting; as long as nothing was refused by the closing, the accepted samples and
  the samples counted as missing are exactly the interval from the first coordinate submitted
  to the end of the last block, so no sample is lost without being counted and none is counted
  twice; the blocks that wait do not overlap and are in order; no gap is empty and every
  subband has the same number of missing samples.
\<close>

theorem coverage_accounted:
  assumes "intake_step\<^sup>*\<^sup>* (origin, new_intake bands) (first, s)"
  shows "unat (in_accepted s) = unat (in_channelized s) + unat (in_abandoned s) + waiting_samples s \<and>
    (in_submitted s \<and> in_after_close s = 0 \<longrightarrow>
      unat first + unat (in_accepted s) + unat (in_source_gap s) = unat (in_expected s)) \<and>
    sorted_wrt (\<lambda>a b. block_end a \<le> unat (sb_first b)) (block_list s) \<and>
    list_all (\<lambda>g. ig_first g < ig_end g) (ring_list (in_gaps s)) \<and> list_all (\<lambda>c. c = in_source_gap s) (in_band_gaps s)"
proof -
  have ok: "intake_ok first s" using intake_reachable [OF assms] by simp
  then have "blocks_ok s" "gaps_ok s" "coverage_ok first s" by (simp_all add: intake_ok_def)
  then show ?thesis by (auto simp: blocks_ok_def gaps_ok_def coverage_ok_def list_all_iff)
qed

definition open_looks :: looks where
  "open_looks = \<lparr>lk_closed = False, lk_failed = False, lk_closed_later = False, lk_failed_later = False\<rparr>"

lemma coverage_accounted_witness:
  "let s = snd (submit open_looks 5 200 (snd (submit open_looks 10 100 (new_intake 2)))) in
   unat (in_accepted s) = 15 \<and> unat (in_source_gap s) = 90 \<and> in_submitted s \<and> in_after_close s = 0 \<and> in_expected s = 205 \<and>
   unat (100 :: u64) + unat (in_accepted s) + unat (in_source_gap s) = unat (in_expected s)"
proof -
  let ?s = "snd (submit open_looks 5 200 (snd (submit open_looks 10 100 (new_intake 2))))"
  have a: "intake_step (100, new_intake 2) (100, snd (submit open_looks 10 100 (new_intake 2)))"
    using intake_step.submits [of 100 "new_intake 2" 100 open_looks 10] by simp
  have sub: "in_submitted (snd (submit open_looks 10 100 (new_intake 2)))" by code_simp
  have b: "intake_step (100, snd (submit open_looks 10 100 (new_intake 2))) (100, ?s)"
    using intake_step.submits [of 100 "snd (submit open_looks 10 100 (new_intake 2))" 200 open_looks 5]
    by (simp only: sub if_True)
  have "intake_step\<^sup>*\<^sup>* (100, new_intake 2) (100, ?s)"
    using a b by (meson r_into_rtranclp rtranclp.rtrancl_into_rtrancl)
  from coverage_accounted [OF this]
  have c: "in_submitted ?s \<and> in_after_close ?s = 0 \<longrightarrow>
      unat (100 :: u64) + unat (in_accepted ?s) + unat (in_source_gap ?s) = unat (in_expected ?s)" by blast
  have "unat (in_accepted ?s) = 15 \<and> unat (in_source_gap ?s) = 90 \<and> in_submitted ?s \<and> in_after_close ?s = 0 \<and> in_expected ?s = 205"
    by code_simp
  then show ?thesis using c by (simp only: Let_def simp_thms)
qed

section \<open>Decoded frames\<close>

text \<open>
  The frames that the decoders hand over wait in a ring of their own; a full ring never makes a
  detector wait, the frame is dropped and counted.
\<close>

definition frame_capacity :: nat where "frame_capacity = 64"

record 'f frame_queue =
  fq_frames :: "'f ring"
  fq_overflows :: u64

definition record_frame :: "'f \<Rightarrow> 'f frame_queue \<Rightarrow> 'f frame_queue" where
  "record_frame frame q =
     (if ring_count (fq_frames q) = frame_capacity then q\<lparr>fq_overflows := count_up (fq_overflows q) 1\<rparr>
      else q\<lparr>fq_frames := ring_push frame (fq_frames q)\<rparr>)"

definition take_frames :: "'f frame_queue \<Rightarrow> 'f list \<times> 'f frame_queue" where
  "take_frames q =
     (let (out, frames) = ring_drain (ring_count (fq_frames q)) (fq_frames q) [] in (out, q\<lparr>fq_frames := frames\<rparr>))"

interpretation frame_ring: bounded_queue ring_list "ring_ok frame_capacity" ring_push ring_pop ring_first frame_capacity
  by (rule ring_bounded_queue)

lemma record_frames:
  assumes ok: "ring_ok frame_capacity (fq_frames q)"
  shows "ring_list (fq_frames (fold record_frame frames q)) = take frame_capacity (ring_list (fq_frames q) @ frames)"
    "ring_ok frame_capacity (fq_frames (fold record_frame frames q))"
proof -
  have "fq_frames (fold record_frame frames q) = fold frame_ring.offer frames (fq_frames q)"
  proof (induction frames arbitrary: q)
    case (Cons f frames)
    show ?case unfolding fold_Cons comp_apply Cons.IH by (simp add: record_frame_def frame_ring.offer_def)
  qed simp
  then show "ring_list (fq_frames (fold record_frame frames q)) = take frame_capacity (ring_list (fq_frames q) @ frames)"
    "ring_ok frame_capacity (fq_frames (fold record_frame frames q))"
    using frame_ring.offer_all [OF ok, of frames] by simp_all
qed

text \<open>A reader gets the oldest frames, in the order of the decoders.\<close>

lemma taken_frames:
  assumes "ring_ok frame_capacity (fq_frames q)"
  shows "fst (take_frames (fold record_frame frames q)) = take frame_capacity (ring_list (fq_frames q) @ frames)"
  using ring_drain_list [OF record_frames(2) [OF assms, of frames], of "[]"] record_frames(1) [OF assms, of frames]
  by (simp add: take_frames_def case_prod_beta Let_def)

end
