(* ===== verification/DiscoveryObservations.thy ===== *)
theory DiscoveryObservations
  imports Prelude
begin

text \<open>
  How findings of overlapping subbands are associated (\<open>DiscoveryObservations\<close> in
  \<open>discovery_observations.hpp\<close>). A finding joins the one recent observation it fits, with the
  same waveform, another subband, and frequency and time extents that stay within the
  tolerances; otherwise it starts an observation, and the oldest of 256 is forgotten. A
  \<open>double\<close> is a rational number, \<open>None\<close> where the code tests for a value that is not finite.
\<close>

section \<open>Data\<close>

text \<open>\<open>LoRaDiscovery\<close>: what a detector reports.\<close>

record lora_discovery =
  ld_center :: "rat option"
  ld_bandwidth :: u32
  ld_sf :: u32
  ld_first :: "rat option"
  ld_delimiter :: "rat option"
  ld_up :: "rat option"
  ld_down :: "rat option"
  ld_coherence :: "rat option"

record discovery_observation =
  ob_id :: u64
  ob_center :: rat
  ob_bandwidth :: u32
  ob_sf :: u32
  ob_first :: rat
  ob_delimiter :: rat
  ob_up :: rat
  ob_down :: rat
  ob_coherence :: rat
  ob_best :: nat
  ob_contributors :: "nat list"
  ob_center_min :: rat
  ob_center_max :: rat
  ob_delimiter_min :: rat
  ob_delimiter_max :: rat
  ob_ambiguous :: bool

record observations =
  os_rate :: u32
  os_subbands :: nat
  os_next :: u64
  os_evictions :: u64
  os_recent :: "discovery_observation list"

definition observation_capacity :: nat where "observation_capacity = 256"
definition maximum_subbands :: nat where "maximum_subbands = 32"
definition maximum_sample :: u64 where "maximum_sample = 2 ^ 53"

definition new_observations :: "u32 \<Rightarrow> nat \<Rightarrow> observations result" where
  "new_observations rate subbands =
     (if rate < 2000000 \<or> rate > 20000000 \<or> rate mod 2000000 \<noteq> 0 \<or> subbands = 0 \<or> subbands > maximum_subbands
      then Inl ''Invalid discovery observation clock or subband count''
      else Inr \<lparr>os_rate = rate, os_subbands = subbands, os_next = 1, os_evictions = 0, os_recent = []\<rparr>)"

section \<open>Operations\<close>

definition score_valid :: "rat option \<Rightarrow> bool" where
  "score_valid v = (case v of None \<Rightarrow> False | Some x \<Rightarrow> 0 \<le> x \<and> x \<le> 100001 / 100000)"

definition finding_invalid :: "observations \<Rightarrow> lora_discovery \<Rightarrow> nat \<Rightarrow> u64 \<Rightarrow> u32 \<Rightarrow> bool" where
  "finding_invalid s found subband first stride \<longleftrightarrow>
     subband \<ge> os_subbands s \<or> stride \<noteq> os_rate s div 2000000 \<or> first > maximum_sample \<or>
     (case ld_center found of None \<Rightarrow> True | Some c \<Rightarrow> c \<le> 0 \<or> c < rat_of_word (ld_bandwidth found) / 2) \<or>
     ld_bandwidth found \<notin> {15625, 62500, 125000, 250000, 500000} \<or>
     ld_sf found < 7 \<or> ld_sf found > 12 \<or>
     (case (ld_first found, ld_delimiter found) of
        (Some f, Some d) \<Rightarrow> f < 0 \<or> d \<le> f
      | _ \<Rightarrow> True) \<or>
     \<not> score_valid (ld_up found) \<or> \<not> score_valid (ld_down found) \<or> \<not> score_valid (ld_coherence found) \<or>
     the (ld_up found) \<le> 0 \<or> the (ld_down found) \<le> 0"

definition candidate_of :: "lora_discovery \<Rightarrow> nat \<Rightarrow> u64 \<Rightarrow> u32 \<Rightarrow> discovery_observation" where
  "candidate_of found subband first stride =
     (let center = the (ld_center found);
          delimiter = rat_of_word first + the (ld_delimiter found) * rat_of_word stride in
      \<lparr>ob_id = 0, ob_center = center, ob_bandwidth = ld_bandwidth found, ob_sf = ld_sf found,
       ob_first = rat_of_word first + the (ld_first found) * rat_of_word stride, ob_delimiter = delimiter,
       ob_up = the (ld_up found), ob_down = the (ld_down found), ob_coherence = the (ld_coherence found),
       ob_best = subband, ob_contributors = [subband], ob_center_min = center, ob_center_max = center,
       ob_delimiter_min = delimiter, ob_delimiter_max = delimiter, ob_ambiguous = False\<rparr>)"

definition frequency_tolerance :: "u32 \<Rightarrow> u32 \<Rightarrow> rat" where
  "frequency_tolerance bandwidth sf = 2 * rat_of_word bandwidth / 2 ^ unat sf"

definition time_tolerance :: "u32 \<Rightarrow> u32 \<Rightarrow> rat" where
  "time_tolerance rate bandwidth = 2 * rat_of_word rate / rat_of_word bandwidth"

text \<open>The body of the search: whether a recent observation is one that the candidate fits.\<close>

definition fits :: "u32 \<Rightarrow> discovery_observation \<Rightarrow> discovery_observation \<Rightarrow> bool" where
  "fits rate candidate previous \<longleftrightarrow>
     ob_bandwidth previous = ob_bandwidth candidate \<and> ob_sf previous = ob_sf candidate \<and>
     ob_best candidate \<notin> set (ob_contributors previous) \<and>
     max (ob_center_max previous) (ob_center candidate) - min (ob_center_min previous) (ob_center candidate)
       \<le> frequency_tolerance (ob_bandwidth candidate) (ob_sf candidate) \<and>
     max (ob_delimiter_max previous) (ob_delimiter candidate) - min (ob_delimiter_min previous) (ob_delimiter candidate)
       \<le> time_tolerance rate (ob_bandwidth candidate)"

text \<open>The better of the two fits is kept as it was measured; the extents cover both.\<close>

definition join_observation :: "discovery_observation \<Rightarrow> discovery_observation \<Rightarrow> discovery_observation" where
  "join_observation candidate previous =
     (if min (ob_up candidate) (ob_down candidate) > min (ob_up previous) (ob_down previous) then candidate else previous)
     \<lparr>ob_id := ob_id previous, ob_contributors := sort (ob_contributors previous @ [ob_best candidate]),
      ob_center_min := min (ob_center_min previous) (ob_center candidate),
      ob_center_max := max (ob_center_max previous) (ob_center candidate),
      ob_delimiter_min := min (ob_delimiter_min previous) (ob_delimiter candidate),
      ob_delimiter_max := max (ob_delimiter_max previous) (ob_delimiter candidate),
      ob_ambiguous := ob_ambiguous previous\<rparr>"

record observation_update =
  up_id :: u64
  up_merged :: bool
  up_evicted :: bool

definition insert_observation :: "discovery_observation \<Rightarrow> observations \<Rightarrow> (observation_update \<times> observations) result" where
  "insert_observation candidate s =
     (if os_next s = - 1 then Inl ''Discovery observation ID exhausted''
      else
        let evicted = (length (os_recent s) = observation_capacity);
            kept = (if evicted then tl (os_recent s) else os_recent s)
        in Inr (\<lparr>up_id = os_next s, up_merged = False, up_evicted = evicted\<rparr>,
          s\<lparr>os_next := os_next s + 1, os_evictions := (if evicted then os_evictions s + 1 else os_evictions s),
            os_recent := kept @ [candidate\<lparr>ob_id := os_next s\<rparr>]\<rparr>))"

definition associate :: "discovery_observation \<Rightarrow> observations \<Rightarrow> (observation_update \<times> observations) result" where
  "associate candidate s =
     (let matches = filter (\<lambda>i. fits (os_rate s) candidate (os_recent s ! i)) [0..<length (os_recent s)] in
      case matches of
        [i] \<Rightarrow> Inr (\<lparr>up_id = ob_id (os_recent s ! i), up_merged = True, up_evicted = False\<rparr>,
          s\<lparr>os_recent := (os_recent s)[i := join_observation candidate (os_recent s ! i)]\<rparr>)
      | _ \<Rightarrow> insert_observation (candidate\<lparr>ob_ambiguous := length matches > 1\<rparr>) s)"

definition observe :: "lora_discovery \<Rightarrow> nat \<Rightarrow> u64 \<Rightarrow> u32 \<Rightarrow> observations \<Rightarrow> (observation_update \<times> observations) result" where
  "observe found subband first stride s =
     (if finding_invalid s found subband first stride then Inl ''Invalid discovery waveform observation''
      else if the (ld_delimiter found) > rat_of_word (maximum_sample - first) / rat_of_word stride
      then Inl ''Discovery observation sample coordinate exceeds precise range''
      else associate (candidate_of found subband first stride) s)"

section \<open>The invariant\<close>

definition observation_ok :: "u32 \<Rightarrow> nat \<Rightarrow> discovery_observation \<Rightarrow> bool" where
  "observation_ok rate subbands ob \<longleftrightarrow>
     sorted_wrt (<) (ob_contributors ob) \<and> ob_best ob \<in> set (ob_contributors ob) \<and>
     list_all (\<lambda>k. k < subbands) (ob_contributors ob) \<and>
     ob_center_min ob \<le> ob_center ob \<and> ob_center ob \<le> ob_center_max ob \<and>
     ob_delimiter_min ob \<le> ob_delimiter ob \<and> ob_delimiter ob \<le> ob_delimiter_max ob \<and>
     ob_center_max ob - ob_center_min ob \<le> frequency_tolerance (ob_bandwidth ob) (ob_sf ob) \<and>
     ob_delimiter_max ob - ob_delimiter_min ob \<le> time_tolerance rate (ob_bandwidth ob) \<and>
     0 \<le> ob_first ob \<and> ob_first ob < ob_delimiter ob \<and> ob_delimiter ob \<le> 2 ^ 53"

definition observations_ok :: "observations \<Rightarrow> bool" where
  "observations_ok s \<longleftrightarrow>
     length (os_recent s) \<le> observation_capacity \<and>
     map ob_id (os_recent s) = map (\<lambda>k. os_evictions s + of_nat k + 1) [0..<length (os_recent s)] \<and>
     unat (os_next s) = unat (os_evictions s) + length (os_recent s) + 1 \<and>
     list_all (observation_ok (os_rate s) (os_subbands s)) (os_recent s) \<and>
     2000000 \<le> os_rate s"

lemma new_observations_ok: "new_observations rate subbands = Inr s \<Longrightarrow> observations_ok s"
  by (auto simp: new_observations_def observations_ok_def split: if_splits)

lemma candidate_ok:
  assumes valid: "\<not> finding_invalid s found subband first stride" and rate: "2000000 \<le> os_rate s"
    and range: "the (ld_delimiter found) \<le> rat_of_word (maximum_sample - first) / rat_of_word stride"
  shows "observation_ok (os_rate s) (os_subbands s) (candidate_of found subband first stride)"
proof -
  obtain f d where fd: "ld_first found = Some f" "ld_delimiter found = Some d" "0 \<le> f" "f < d"
    using valid by (cases "ld_first found"; cases "ld_delimiter found") (auto simp: finding_invalid_def)
  have stride: "stride = os_rate s div 2000000" and first: "first \<le> maximum_sample"
    using valid by (simp_all add: finding_invalid_def not_less)
  have "0 < unat stride" using rate unfolding stride by (simp add: unat_div word_le_nat_alt div_greater_zero_iff)
  then have pos: "0 < rat_of_word stride" unfolding rat_of_word_def by (simp only: of_nat_0_less_iff)
  have "rat_of_word (maximum_sample - first) = rat_of_word maximum_sample - rat_of_word first"
    using first by (simp add: rat_of_word_def unat_sub word_le_nat_alt of_nat_diff)
  moreover have "rat_of_word maximum_sample = 2 ^ 53" by (simp add: maximum_sample_def rat_of_word_def)
  moreover have "d * rat_of_word stride \<le> rat_of_word (maximum_sample - first)"
    using range pos by (simp add: fd pos_le_divide_eq)
  ultimately have "rat_of_word first + d * rat_of_word stride \<le> 2 ^ 53" by linarith
  moreover have "f * rat_of_word stride < d * rat_of_word stride" using fd(4) pos by simp
  moreover have "0 \<le> f * rat_of_word stride" using fd(3) pos by simp
  moreover have "subband < os_subbands s" using valid by (simp add: finding_invalid_def)
  ultimately show ?thesis
    by (simp add: observation_ok_def candidate_of_def Let_def fd frequency_tolerance_def time_tolerance_def)
qed

lemma join_ok:
  assumes c: "observation_ok rate subbands c" "ob_contributors c = [ob_best c]" and p: "observation_ok rate subbands p"
    and f: "fits rate c p"
  shows "observation_ok rate subbands (join_observation c p)" "ob_id (join_observation c p) = ob_id p"
proof -
  have "sorted_wrt (<) (sort (ob_contributors p @ [ob_best c]))"
    using p f by (simp add: observation_ok_def fits_def strict_sorted_iff)
  moreover have "list_all (\<lambda>k. k < subbands) (sort (ob_contributors p @ [ob_best c]))"
    using c p by (simp add: observation_ok_def list_all_iff)
  ultimately show "observation_ok rate subbands (join_observation c p)"
    using c p f by (auto simp: observation_ok_def join_observation_def fits_def)
  show "ob_id (join_observation c p) = ob_id p" by (simp add: join_observation_def)
qed

lemma ids_shift:
  "ids = map (\<lambda>k. (e :: u64) + of_nat k + 1) [0..<n] \<Longrightarrow> 0 < n \<Longrightarrow> tl ids = map (\<lambda>k. (e + 1) + of_nat k + 1) [0..<n - 1]"
  by (intro nth_equalityI) (simp_all add: nth_tl algebra_simps)

lemma insert_ok:
  assumes ok: "observations_ok s" and c: "observation_ok (os_rate s) (os_subbands s) c"
    and ins: "insert_observation c s = Inr (u, s')"
  shows "observations_ok s'"
proof -
  let ?full = "length (os_recent s) = observation_capacity"
  let ?kept = "if ?full then tl (os_recent s) else os_recent s"
  have more: "os_next s \<noteq> - 1" and s': "s' = s\<lparr>os_next := os_next s + 1,
      os_evictions := (if ?full then os_evictions s + 1 else os_evictions s),
      os_recent := ?kept @ [c\<lparr>ob_id := os_next s\<rparr>]\<rparr>"
    using ins by (auto simp: insert_observation_def Let_def split: if_splits)
  have inv: "length (os_recent s) \<le> observation_capacity"
    "map ob_id (os_recent s) = map (\<lambda>k. os_evictions s + of_nat k + 1) [0..<length (os_recent s)]"
    "unat (os_next s) = unat (os_evictions s) + length (os_recent s) + 1"
    "list_all (observation_ok (os_rate s) (os_subbands s)) (os_recent s)"
    "2000000 \<le> os_rate s"
    using ok by (simp_all add: observations_ok_def)
  have next_id: "unat (os_next s + 1) = unat (os_next s) + 1" using more by (metis add.commute add_eq_0_iff_both_eq_0 unatSuc Suc_eq_plus1 eq_neg_iff_add_eq_0)
  have unat_bound: "unat (os_next s + 1) < 2 ^ LENGTH(64)" by (rule unsigned_less)
  from next_id have lt: "unat (os_evictions s) + 1 < 2 ^ 64" using inv(3) unat_bound by simp
  have ev: "unat (os_evictions s + 1) = unat (os_evictions s) + 1" using lt by (simp add: unat_word_ariths)
  have "of_nat (unat (os_next s)) = (of_nat (unat (os_evictions s) + length (os_recent s) + 1) :: u64)"
    using inv(3) by simp
  then have "os_next s = os_evictions s + of_nat (length (os_recent s)) + 1" by simp
  note id = this
  have item: "observation_ok (os_rate s) (os_subbands s) (c\<lparr>ob_id := os_next s\<rparr>)" using c by (simp add: observation_ok_def)
  show ?thesis
  proof (cases ?full)
    case True
    then have pos: "0 < length (os_recent s)" by (simp add: observation_capacity_def)
    obtain n where n: "length (os_recent s) = Suc n" using pos gr0_conv_Suc by auto
    have new: "s' = s\<lparr>os_next := os_next s + 1, os_evictions := os_evictions s + 1,
        os_recent := tl (os_recent s) @ [c\<lparr>ob_id := os_next s\<rparr>]\<rparr>"
      unfolding s' if_P [OF True] ..
    have len: "length (os_recent s') = Suc n" by (simp add: new n)
    have "map ob_id (tl (os_recent s)) = map (\<lambda>k. (os_evictions s + 1) + of_nat k + 1) [0..<n]"
      unfolding map_tl using ids_shift [OF inv(2) pos] by (simp only: n diff_Suc_1)
    moreover have "os_next s = (os_evictions s + 1) + of_nat n + 1" using id by (simp add: n)
    ultimately have "map ob_id (os_recent s') = map (\<lambda>k. os_evictions s' + of_nat k + 1) [0..<length (os_recent s')]"
      unfolding len by (simp add: new)
    moreover have "unat (os_next s') = unat (os_evictions s') + length (os_recent s') + 1"
      unfolding len using inv(3) next_id ev by (simp add: new n)
    moreover have "list_all (observation_ok (os_rate s') (os_subbands s')) (os_recent s')"
      using inv(4) pos item by (cases "os_recent s") (simp_all add: new)
    moreover have "length (os_recent s') \<le> observation_capacity" using True n len by simp
    moreover have "2000000 \<le> os_rate s'" using inv(5) by (simp add: new)
    ultimately show ?thesis unfolding observations_ok_def by blast
  next
    case False
    then show ?thesis using inv item next_id id by (simp add: observations_ok_def s')
  qed
qed

lemma associate_ok:
  assumes ok: "observations_ok s" and c: "observation_ok (os_rate s) (os_subbands s) c" "ob_contributors c = [ob_best c]"
    and a: "associate c s = Inr (u, s')"
  shows "observations_ok s'"
proof -
  let ?m = "filter (\<lambda>i. fits (os_rate s) c (os_recent s ! i)) [0..<length (os_recent s)]"
  have "observation_ok (os_rate s) (os_subbands s) (c\<lparr>ob_ambiguous := b\<rparr>)" for b
    using c(1) by (simp add: observation_ok_def)
  note ins = insert_ok [OF ok this]
  obtain m where m: "?m = m" by blast
  have "(case m of [i] \<Rightarrow> Inr (\<lparr>up_id = ob_id (os_recent s ! i), up_merged = True, up_evicted = False\<rparr>,
          s\<lparr>os_recent := (os_recent s)[i := join_observation c (os_recent s ! i)]\<rparr>)
      | _ \<Rightarrow> insert_observation (c\<lparr>ob_ambiguous := length m > 1\<rparr>) s) = Inr (u, s')"
    using a unfolding associate_def Let_def m .
  then consider i where "m = [i]" "s' = s\<lparr>os_recent := (os_recent s)[i := join_observation c (os_recent s ! i)]\<rparr>"
    | "insert_observation (c\<lparr>ob_ambiguous := length m > 1\<rparr>) s = Inr (u, s')"
    by (cases m rule: remdups_adj.cases) simp_all
  then show ?thesis
  proof cases
    case (1 i)
    then have "i \<in> set ?m" unfolding m by simp
    then have i: "i < length (os_recent s)" "fits (os_rate s) c (os_recent s ! i)" by simp_all
    have "observation_ok (os_rate s) (os_subbands s) (os_recent s ! i)"
      using ok i(1) by (simp add: observations_ok_def list_all_length)
    note j = join_ok [OF c this i(2)]
    note s' = 1(2)
    have "map ob_id ((os_recent s)[i := join_observation c (os_recent s ! i)]) = map ob_id (os_recent s)"
      using j(2) i(1) by (simp add: map_update list_update_same_conv)
    moreover have "list_all (observation_ok (os_rate s) (os_subbands s)) ((os_recent s)[i := join_observation c (os_recent s ! i)])"
      using ok j(1) by (auto simp: observations_ok_def list_all_iff dest!: set_update_subset_insert [THEN subsetD])
    ultimately show ?thesis using ok by (simp add: observations_ok_def s')
  next
    case 2
    then show ?thesis by (rule ins)
  qed
qed

section \<open>Runs\<close>

type_synonym finding = "lora_discovery \<times> nat \<times> u64 \<times> u32"

text \<open>The findings in their order; one that is refused leaves the observations as they are.\<close>

fun observe_all :: "finding list \<Rightarrow> observations \<Rightarrow> observations" where
  "observe_all [] s = s"
| "observe_all ((found, subband, first, stride) # rest) s =
     (case observe found subband first stride s of
        Inl _ \<Rightarrow> observe_all rest s
      | Inr (_, s) \<Rightarrow> observe_all rest s)"

lemma observe_ok:
  assumes ok: "observations_ok s" and o: "observe found subband first stride s = Inr (u, s')"
  shows "observations_ok s'" "os_rate s' = os_rate s" "os_subbands s' = os_subbands s"
proof -
  have v: "\<not> finding_invalid s found subband first stride"
    "the (ld_delimiter found) \<le> rat_of_word (maximum_sample - first) / rat_of_word stride"
    and a: "associate (candidate_of found subband first stride) s = Inr (u, s')"
    using o by (auto simp: observe_def split: if_splits)
  have "2000000 \<le> os_rate s" using ok by (simp add: observations_ok_def)
  note c = candidate_ok [OF v(1) this v(2)]
  show "observations_ok s'" by (rule associate_ok [OF ok c _ a]) (simp add: candidate_of_def Let_def)
  show "os_rate s' = os_rate s" "os_subbands s' = os_subbands s"
    using a by (auto simp: associate_def insert_observation_def Let_def split: list.splits if_splits)
qed

lemma observe_all_ok:
  "observations_ok s \<Longrightarrow> observations_ok (observe_all fs s) \<and> os_rate (observe_all fs s) = os_rate s \<and>
     os_subbands (observe_all fs s) = os_subbands s"
proof (induction fs s rule: observe_all.induct)
  case (2 found subband first stride rest s)
  show ?case
  proof (cases "observe found subband first stride s")
    case (Inl e)
    then show ?thesis using 2(1) [OF Inl 2(3)] by simp
  next
    case (Inr p)
    obtain u s' where p: "p = (u, s')" by (cases p)
    note o = observe_ok [OF 2(3) Inr [unfolded p]]
    show ?thesis using 2(2) [OF Inr p [symmetric] o(1)] o(2,3) by (simp add: Inr p)
  qed
qed simp

text \<open>
  C21: after any findings, at most 256 observations are kept; their ids are consecutive, in the
  order of their first insertion, and count those that were forgotten; an observation was
  contributed by distinct subbands in order, its waveform is the one of a contributor, and
  however many findings it joined, its extent in frequency and in time stays within the
  tolerance of a single pair and covers the waveform it shows.
\<close>

theorem observations_bounded:
  assumes "new_observations rate subbands = Inr s0"
  shows "let s = observe_all fs s0 in
    length (os_recent s) \<le> observation_capacity \<and>
    map ob_id (os_recent s) = map (\<lambda>k. os_evictions s + of_nat k + 1) [0..<length (os_recent s)] \<and>
    unat (os_next s) = unat (os_evictions s) + length (os_recent s) + 1 \<and>
    list_all (observation_ok rate subbands) (os_recent s)"
proof -
  have "os_rate s0 = rate" "os_subbands s0 = subbands"
    using assms by (auto simp: new_observations_def split: if_splits)
  then have e: "os_rate (observe_all fs s0) = rate" "os_subbands (observe_all fs s0) = subbands"
    and ok: "observations_ok (observe_all fs s0)"
    using observe_all_ok [OF new_observations_ok [OF assms], of fs] by simp_all
  show ?thesis using ok unfolding observations_ok_def e Let_def by blast
qed

definition sample_finding :: "rat \<Rightarrow> lora_discovery" where
  "sample_finding up = \<lparr>ld_center = Some 906875000, ld_bandwidth = 250000, ld_sf = 11, ld_first = Some 100, ld_delimiter = Some 164900,
     ld_up = Some up, ld_down = Some (4 / 5), ld_coherence = Some (9 / 10)\<rparr>"

lemma observations_bounded_witness:
  "let s = observe_all [(sample_finding (1 / 2), 3, 1000, 4), (sample_finding (7 / 10), 2, 1000, 4)]
      \<lparr>os_rate = 8000000, os_subbands = 8, os_next = 1, os_evictions = 0, os_recent = []\<rparr>
   in map ob_contributors (os_recent s) = [[2, 3]] \<and> list_all (observation_ok 8000000 8) (os_recent s)"
proof -
  let ?fs = "[(sample_finding (1 / 2), 3, 1000, 4), (sample_finding (7 / 10), 2, 1000, 4)]"
  let ?s0 = "\<lparr>os_rate = 8000000, os_subbands = 8, os_next = 1, os_evictions = 0, os_recent = []\<rparr>"
  have "new_observations 8000000 8 = Inr ?s0" by (simp add: new_observations_def maximum_subbands_def)
  from observations_bounded [OF this, of ?fs] have "list_all (observation_ok 8000000 8) (os_recent (observe_all ?fs ?s0))"
    unfolding Let_def by blast
  moreover have "map ob_contributors (os_recent (observe_all ?fs ?s0)) = [[2, 3]]"
    by (simp add: observe_def finding_invalid_def score_valid_def sample_finding_def maximum_sample_def candidate_of_def
        associate_def insert_observation_def fits_def join_observation_def observation_capacity_def
        frequency_tolerance_def time_tolerance_def rat_of_word_def Let_def upt_rec)
  ultimately show ?thesis by (simp only: Let_def simp_thms)
qed

end
