(* ===== verification/Exports.thy ===== *)
theory Exports
  imports Prelude
begin

text \<open>
  The text of exported files: a cell of comma-separated values (\<open>csv_text\<close> and
  \<open>CsvRecord::write\<close> in \<open>storage.cpp\<close>, \<open>Csv\<close> in \<open>report.cpp\<close>) and text in a page of hypertext
  (\<open>html_escape\<close> and \<open>HtmlReport\<close> in \<open>analysis_report.hpp\<close>). Names, notes and labels come from
  the radio and from files, so what a reader makes of them is stated with a reader of each format.
\<close>

section \<open>Comma-separated values\<close>

abbreviation quote_mark :: char where "quote_mark \<equiv> CHR 34"
abbreviation apostrophe :: char where "apostrophe \<equiv> CHR 39"
abbreviation line_feed :: char where "line_feed \<equiv> CHR 10"
abbreviation comma :: char where "comma \<equiv> CHR 44"

text \<open>What a spreadsheet takes for a formula: the first visible character, or a leading control.\<close>

definition formula_like :: "string \<Rightarrow> bool" where
  "formula_like value \<longleftrightarrow>
     (case dropWhile (\<lambda>c. (of_char c :: nat) \<le> 32) value of
        [] \<Rightarrow> False
      | c # _ \<Rightarrow> c = CHR ''='' \<or> c = CHR ''+'' \<or> c = CHR ''-'' \<or> c = CHR ''@'') \<or>
     (case value of
        [] \<Rightarrow> False
      | c # _ \<Rightarrow> c = CHR 9 \<or> c = CHR 13 \<or> c = CHR 10)"

definition guarded_text :: "string \<Rightarrow> string" where
  "guarded_text value = (if formula_like value then apostrophe # value else value)"

fun doubled_quotes :: "string \<Rightarrow> string" where
  "doubled_quotes [] = []"
| "doubled_quotes (c # cs) = (if c = quote_mark then [quote_mark] else []) @ c # doubled_quotes cs"

definition csv_text :: "string \<Rightarrow> string" where
  "csv_text input = quote_mark # doubled_quotes (guarded_text input) @ [quote_mark]"

record csv_cell =
  cl_value :: string
  cl_numeric :: bool

definition csv_field :: "csv_cell \<Rightarrow> string" where
  "csv_field cell = (if cl_numeric cell then cl_value cell else csv_text (cl_value cell))"

fun joined :: "string list \<Rightarrow> string" where
  "joined [] = []"
| "joined [x] = x"
| "joined (x # y # ys) = x @ comma # joined (y # ys)"

definition csv_line :: "csv_cell list \<Rightarrow> string" where
  "csv_line cells = joined (map csv_field cells) @ [line_feed]"

text \<open>The writer of a report: rows of one width, at most a million after the first.\<close>

record csv_writer =
  cw_rows :: nat
  cw_columns :: nat
  cw_output :: string

definition row_limit :: nat where "row_limit = 1000000"

definition csv_write :: "string list \<Rightarrow> csv_writer \<Rightarrow> csv_writer result" where
  "csv_write cells w =
     (if length cells \<noteq> cw_columns w then Inl ''Internal report column mismatch''
      else if cw_rows w > row_limit then
        Inl ''Report exceeds one million rows; narrow the selection or use larger time/geographic groups''
      else Inr (w\<lparr>cw_rows := cw_rows w + 1, cw_output := cw_output w @ joined cells @ [line_feed]\<rparr>))"

definition csv_header :: "string list \<Rightarrow> csv_writer \<Rightarrow> csv_writer result" where
  "csv_header cells w =
     (if cw_columns w \<noteq> 0 then
        (if cw_columns w \<noteq> length cells then Inl ''Internal report header mismatch'' else Inr w)
      else csv_write cells (w\<lparr>cw_columns := length cells\<rparr>))"

section \<open>A reader of comma-separated values\<close>

text \<open>Quoted fields with doubled quotes, and plain fields without them, up to the end of the line.\<close>

datatype csv_state = Field_Start | Plain_Field | Quoted_Field | Quote_Seen

fun csv_read :: "csv_state \<Rightarrow> string \<Rightarrow> string list \<Rightarrow> string \<Rightarrow> (string list \<times> string) option" where
  "csv_read st field got [] = None"
| "csv_read st field got (c # cs) =
     (case st of
        Quoted_Field \<Rightarrow>
          if c = quote_mark then csv_read Quote_Seen field got cs
          else csv_read Quoted_Field (field @ [c]) got cs
      | _ \<Rightarrow>
          if c = comma then csv_read Field_Start [] (got @ [field]) cs
          else if c = line_feed then Some (got @ [field], cs)
          else if c = quote_mark then
            (case st of
               Field_Start \<Rightarrow> csv_read Quoted_Field [] got cs
             | Quote_Seen \<Rightarrow> csv_read Quoted_Field (field @ [quote_mark]) got cs
             | _ \<Rightarrow> None)
          else if st = Quote_Seen then None
          else csv_read Plain_Field (field @ [c]) got cs)"

definition plain_value :: "string \<Rightarrow> bool" where
  "plain_value v \<longleftrightarrow> quote_mark \<notin> set v \<and> comma \<notin> set v \<and> line_feed \<notin> set v"

definition shown_value :: "csv_cell \<Rightarrow> string" where
  "shown_value cell = (if cl_numeric cell then cl_value cell else guarded_text (cl_value cell))"

lemma read_doubled: "csv_read Quoted_Field field got (doubled_quotes v @ quote_mark # rest) =
    csv_read Quote_Seen (field @ v) got rest"
  by (induction v arbitrary: field) auto

lemma read_plain:
  "plain_value v \<Longrightarrow> v \<noteq> [] \<Longrightarrow> st = Field_Start \<or> st = Plain_Field \<Longrightarrow>
    csv_read st field got (v @ rest) = csv_read Plain_Field (field @ v) got rest"
proof (induction v arbitrary: st field)
  case (Cons c v)
  then show ?case by (cases "v = []") (auto simp: plain_value_def)
qed simp

lemma read_field:
  assumes "cl_numeric cell \<Longrightarrow> plain_value (cl_value cell)" "sep = comma \<or> sep = line_feed"
  shows "csv_read Field_Start [] got (csv_field cell @ sep # rest) =
    (if sep = comma then csv_read Field_Start [] (got @ [shown_value cell]) rest
     else Some (got @ [shown_value cell], rest))"
proof (cases "cl_numeric cell")
  case True
  then show ?thesis
    using assms read_plain [of "cl_value cell" Field_Start "[]" got "sep # rest"]
    by (cases "cl_value cell = []") (auto simp: csv_field_def shown_value_def)
next
  case False
  then show ?thesis
    using assms(2) by (auto simp: csv_field_def shown_value_def csv_text_def read_doubled)
qed

lemma read_line:
  "cells \<noteq> [] \<Longrightarrow> list_all (\<lambda>c. cl_numeric c \<longrightarrow> plain_value (cl_value c)) cells \<Longrightarrow>
    csv_read Field_Start [] got (csv_line cells @ rest) = Some (got @ map shown_value cells, rest)"
proof (induction cells arbitrary: got)
  case (Cons c cells)
  then show ?case
    by (cases cells) (simp_all add: csv_line_def read_field)
qed simp

text \<open>
  A spreadsheet may trim any blanks and controls first, and takes what then begins with one of
  four signs for a formula; some also treat a leading tabulator or line end so.
\<close>

definition evaluated :: "string \<Rightarrow> bool" where
  "evaluated v \<longleftrightarrow>
     (\<exists>trimmed sign rest. v = trimmed @ sign # rest \<and> (\<forall>c\<in>set trimmed. (of_char c :: nat) \<le> 32) \<and> sign \<in> set ''=+-@'') \<or>
     (v \<noteq> [] \<and> hd v \<in> {CHR 9, CHR 13, CHR 10})"

lemma evaluated_formula: "evaluated v \<Longrightarrow> formula_like v"
  unfolding evaluated_def
proof (elim disjE exE conjE)
  fix trimmed sign rest
  assume v: "v = trimmed @ sign # rest" and blank: "\<forall>c\<in>set trimmed. (of_char c :: nat) \<le> 32" and sign: "sign \<in> set ''=+-@''"
  have "\<not> (of_char sign :: nat) \<le> 32" using sign by auto
  then have "dropWhile (\<lambda>c. (of_char c :: nat) \<le> 32) v = sign # rest" using v blank by (simp add: dropWhile_append)
  then show "formula_like v" using sign by (auto simp: formula_like_def)
next
  assume "v \<noteq> []" "hd v \<in> {CHR 9, CHR 13, CHR 10}"
  then show "formula_like v" by (cases v) (auto simp: formula_like_def)
qed

lemma guarded_not_evaluated: "\<not> evaluated (guarded_text v)"
proof (cases "formula_like v")
  case True
  then show ?thesis by (auto simp: evaluated_def guarded_text_def Cons_eq_append_conv)
next
  case False
  then show ?thesis using evaluated_formula [of v] by (auto simp: guarded_text_def)
qed

text \<open>
  C23: A record that is exported is one line of comma-separated values: whatever the texts hold,
  quotes, separators and line ends included, a reader finds exactly the fields of the record, and
  no text is one that a spreadsheet evaluates, however it trims it.
\<close>

theorem exported_line_reads_back:
  assumes "cells \<noteq> []" "list_all (\<lambda>c. cl_numeric c \<longrightarrow> plain_value (cl_value c)) cells"
  shows "csv_read Field_Start [] [] (csv_line cells @ rest) = Some (map shown_value cells, rest) \<and>
    list_all (\<lambda>c. cl_numeric c \<or> \<not> evaluated (shown_value c) \<and>
      (shown_value c = cl_value c \<or> shown_value c = apostrophe # cl_value c)) cells"
  using read_line [OF assms, of "[]" rest] guarded_not_evaluated
  by (auto simp: list_all_iff shown_value_def) (auto simp: guarded_text_def)

lemma exported_line_reads_back_witness:
  "csv_read Field_Start [] [] (csv_line [\<lparr>cl_value = '' =A1'', cl_numeric = False\<rparr>, \<lparr>cl_value = ''-7'', cl_numeric = True\<rparr>]) =
    Some ([apostrophe # '' =A1'', ''-7''], [])"
proof -
  let ?cells = "[\<lparr>cl_value = '' =A1'', cl_numeric = False\<rparr>, \<lparr>cl_value = ''-7'', cl_numeric = True\<rparr>]"
  have "?cells \<noteq> []" "list_all (\<lambda>c. cl_numeric c \<longrightarrow> plain_value (cl_value c)) ?cells"
    by (simp_all add: plain_value_def)
  from exported_line_reads_back [OF this, of "[]"] show ?thesis
    by (simp add: shown_value_def guarded_text_def formula_like_def)
qed

section \<open>Hypertext\<close>

definition displayed :: "char \<Rightarrow> bool" where
  "displayed c \<longleftrightarrow> (of_char c :: nat) \<ge> 32 \<or> c = CHR 10 \<or> c = CHR 9"

fun html_escape :: "string \<Rightarrow> string" where
  "html_escape [] = []"
| "html_escape (c # cs) =
     (if c = CHR ''&'' then ''&amp;''
      else if c = CHR ''<'' then ''&lt;''
      else if c = CHR ''>'' then ''&gt;''
      else if c = quote_mark then ''&quot;''
      else if c = apostrophe then ''&#39;''
      else if displayed c then [c] else []) @ html_escape cs"

definition html_limit :: nat where "html_limit = 16 * 1024 * 1024"

text \<open>What was emitted; its number of bytes is the counter.\<close>

definition html_raw :: "string \<Rightarrow> string \<Rightarrow> string result" where
  "html_raw s page =
     (if length s > html_limit - length page then Inl ''Analysis report exceeds 16 MiB; narrow the selection''
      else Inr (page @ s))"

fun html_cells :: "bool \<Rightarrow> string list \<Rightarrow> string \<Rightarrow> string result" where
  "html_cells header [] page = Inr page"
| "html_cells header (v # vs) page =
     bind_result (html_raw ((if header then ''<th>'' else ''<td>'') @ html_escape v @ (if header then ''</th>'' else ''</td>'')) page)
       (html_cells header vs)"

definition html_row :: "string list \<Rightarrow> bool \<Rightarrow> bool \<Rightarrow> string \<Rightarrow> string result" where
  "html_row vals header zero page =
     bind_result (html_raw (if zero then ''<tr class='' @ [quote_mark] @ ''zero-frequency'' @ [quote_mark] @ ''>'' else ''<tr>'') page)
       (\<lambda>page. bind_result (html_cells header vals page) (html_raw (''</tr>'' @ [line_feed])))"

definition html_paragraph :: "string \<Rightarrow> string \<Rightarrow> string result" where
  "html_paragraph s = html_raw (''<p>'' @ html_escape s @ ''</p>'' @ [line_feed])"

definition html_heading :: "string \<Rightarrow> string \<Rightarrow> string result" where
  "html_heading s = html_raw (''<h2>'' @ html_escape s @ ''</h2>'' @ [line_feed])"

section \<open>A reader of text in hypertext\<close>

text \<open>
  The text up to the next tag: character references are replaced, and a quotation mark, which
  could end an attribute, or an unknown reference is refused.
\<close>

fun html_read :: "string \<Rightarrow> (string \<times> string) option" where
  "html_read [] = Some ([], [])"
| "html_read (c # cs) =
     (if c = CHR ''<'' then Some ([], c # cs)
      else if c = CHR ''>'' \<or> c = quote_mark \<or> c = apostrophe then None
      else if c = CHR ''&'' then
        (let known = filter (\<lambda>(name, d). take (length name) cs = name)
           [(''amp;'', CHR ''&''), (''lt;'', CHR ''<''), (''gt;'', CHR ''>''), (''quot;'', quote_mark), (''#39;'', apostrophe)]
         in case known of
           [] \<Rightarrow> None
         | (name, d) # _ \<Rightarrow> map_option (apfst ((#) d)) (html_read (drop (length name) cs)))
      else map_option (apfst ((#) c)) (html_read cs))"

lemma html_read_escape: "html_read (html_escape v @ CHR ''<'' # rest) = Some (filter displayed v, CHR ''<'' # rest)"
proof (induction v)
  case (Cons c v)
  have d: "displayed (CHR ''&'')" "displayed (CHR ''<'')" "displayed (CHR ''>'')" "displayed quote_mark" "displayed apostrophe"
    by (simp_all add: displayed_def)
  consider "c = CHR ''&''" | "c = CHR ''<''" | "c = CHR ''>''" | "c = quote_mark" | "c = apostrophe"
    | "c \<notin> {CHR ''&'', CHR ''<'', CHR ''>'', quote_mark, apostrophe}" by blast
  then show ?case
    by cases (use Cons.IH d in \<open>simp_all add: Let_def\<close>)
qed simp

lemma html_raw_page: "html_raw s page = Inr out \<Longrightarrow> out = page @ s \<and> (length page \<le> html_limit \<longrightarrow> length out \<le> html_limit)"
  by (auto simp: html_raw_def split: if_splits)

fun cells_text :: "bool \<Rightarrow> string list \<Rightarrow> string" where
  "cells_text header [] = []"
| "cells_text header (v # vs) =
     (if header then ''<th>'' else ''<td>'') @ html_escape v @ (if header then ''</th>'' else ''</td>'') @ cells_text header vs"

lemma html_cells_page:
  "html_cells header vs page = Inr out \<Longrightarrow>
    out = page @ cells_text header vs \<and> (length page \<le> html_limit \<longrightarrow> length out \<le> html_limit)"
proof (induction vs arbitrary: page)
  case (Cons v vs)
  then obtain p where p: "html_raw ((if header then ''<th>'' else ''<td>'') @ html_escape v @ (if header then ''</th>'' else ''</td>'')) page = Inr p"
    "html_cells header vs p = Inr out"
    by (auto simp: bind_result_Inr)
  note r = html_raw_page [OF p(1)] and h = Cons.IH [OF p(2)]
  have "out = page @ cells_text header (v # vs)" using r h by simp
  moreover have "length page \<le> html_limit \<longrightarrow> length out \<le> html_limit" using r h by blast
  ultimately show ?case by blast
qed simp

text \<open>The cells of a row, as the reader finds them, and the start of a row.\<close>

fun read_cells :: "bool \<Rightarrow> nat \<Rightarrow> string \<Rightarrow> (string list \<times> string) option" where
  "read_cells header 0 s = Some ([], s)"
| "read_cells header (Suc n) s =
     (if take 4 s = (if header then ''<th>'' else ''<td>'') then
        (case html_read (drop 4 s) of
           None \<Rightarrow> None
         | Some (v, rest) \<Rightarrow>
             if take 5 rest = (if header then ''</th>'' else ''</td>'') then map_option (apfst ((#) v)) (read_cells header n (drop 5 rest))
             else None)
      else None)"

lemma read_cells_text: "read_cells header (length vs) (cells_text header vs @ rest) = Some (map (filter displayed) vs, rest)"
proof (induction vs)
  case (Cons v vs)
  then show ?case
    using html_read_escape [of v "(if header then ''/th>'' else ''/td>'') @ cells_text header vs @ rest"]
    by (cases header) simp_all
qed simp

definition row_start :: "bool \<Rightarrow> string" where
  "row_start zero = (if zero then ''<tr class='' @ [quote_mark] @ ''zero-frequency'' @ [quote_mark] @ ''>'' else ''<tr>'')"

text \<open>
  C24: Whatever text the recording holds, a row of the report, of its header or not and marked as
  the zero frequency or not, shows exactly the characters of that text that are displayed (control
  characters are dropped): it opens no tag, ends no attribute and forms no other reference, and a
  report never grows over its limit.
\<close>

theorem report_text_inert:
  assumes "html_row vals header zero page = Inr out"
  shows "\<exists>cells. out = page @ row_start zero @ cells @ ''</tr>'' @ [line_feed] \<and>
    read_cells header (length vals) cells = Some (map (filter displayed) vals, []) \<and>
    list_all (\<lambda>v. set (html_escape v) \<inter> {CHR ''<'', CHR ''>'', quote_mark, apostrophe} = {}) vals \<and>
    (length page \<le> html_limit \<longrightarrow> length out \<le> html_limit)"
proof -
  obtain p q where p: "html_raw (row_start zero) page = Inr p" and q: "html_cells header vals p = Inr q"
    and out: "html_raw (''</tr>'' @ [line_feed]) q = Inr out"
    using assms unfolding html_row_def row_start_def bind_result_Inr by blast
  have "set (html_escape v) \<inter> {CHR ''<'', CHR ''>'', quote_mark, apostrophe} = {}" for v
    by (induction v) auto
  moreover have "out = page @ row_start zero @ cells_text header vals @ ''</tr>'' @ [line_feed]"
    "length page \<le> html_limit \<longrightarrow> length out \<le> html_limit"
    using html_raw_page [OF p] html_cells_page [OF q] html_raw_page [OF out] by auto
  moreover have "read_cells header (length vals) (cells_text header vals) = Some (map (filter displayed) vals, [])"
    using read_cells_text [of header vals "[]"] by simp
  ultimately show ?thesis
    by (intro exI [of _ "cells_text header vals"]) (auto simp: list_all_iff)
qed

lemma report_text_inert_witness:
  "\<exists>out cells. html_row [''<b>&'', ''x''] True True [] = Inr out \<and> out = row_start True @ cells @ ''</tr>'' @ [line_feed] \<and>
    read_cells True 2 cells = Some ([''<b>&'', ''x''], [])"
proof -
  have r: "html_row [''<b>&'', ''x''] True True [] =
      Inr (row_start True @ ''<th>&lt;b&gt;&amp;</th><th>x</th></tr>'' @ [line_feed])"
    by (simp add: html_row_def html_raw_def html_limit_def displayed_def row_start_def)
  from report_text_inert [OF r] obtain cells where
    "row_start True @ ''<th>&lt;b&gt;&amp;</th><th>x</th></tr>'' @ [line_feed] = row_start True @ cells @ ''</tr>'' @ [line_feed]"
    "read_cells True (length [''<b>&'', ''x'']) cells = Some (map (filter displayed) [''<b>&'', ''x''], [])"
    unfolding append_Nil by blast
  moreover have "map (filter displayed) [''<b>&'', ''x''] = [''<b>&'', ''x'']" "length [''<b>&'', ''x''] = 2"
    by (simp_all add: displayed_def)
  ultimately show ?thesis using r by metis
qed

end
