(* ===== verification/ProtobufGuard.thy ===== *)
theory ProtobufGuard
  imports Prelude
begin

text \<open>
  The wire policy of \<open>src/protobuf_guard.hpp\<close> (namespace \<open>protocol::detail\<close>): the bounded
  reader of protobuf fields, \<open>validate_wire\<close> and \<open>has_wire_field\<close>. A schema is an argument:
  \<open>lookup\<close> is \<open>pb_field_iter_find\<close> on the generated descriptors. The main results: the
  reader accepts exactly one encoding of every list of fields, never reads past its input,
  and \<open>validate_wire\<close> accepts exactly the messages its declarative policy describes.
\<close>

section \<open>The reader\<close>

record wire_reader =
  wr_input :: "u8 list"
  wr_position :: nat
  wr_good :: bool

record wire_field =
  wf_tag :: u32
  wf_wire :: u32
  wf_value :: u64
  wf_bytes :: "u8 list"

definition reader :: "u8 list \<Rightarrow> wire_reader" where
  "reader input = \<lparr>wr_input = input, wr_position = 0, wr_good = True\<rparr>"

definition wr_done :: "wire_reader \<Rightarrow> bool" where
  "wr_done r \<longleftrightarrow> wr_position r = length (wr_input r)"

definition wr_is_good :: "wire_reader \<Rightarrow> bool" where
  "wr_is_good r \<longleftrightarrow> wr_good r \<and> wr_done r"

definition wr_fail :: "wire_reader \<Rightarrow> wire_reader" where
  "wr_fail r = r\<lparr>wr_good := False, wr_position := length (wr_input r)\<rparr>"

definition wr_left :: "wire_reader \<Rightarrow> nat" where
  "wr_left r = length (wr_input r) - wr_position r"

definition wr_skip :: "nat \<Rightarrow> wire_reader \<Rightarrow> wire_reader" where
  "wr_skip n r = r\<lparr>wr_position := wr_position r + n\<rparr>"

definition wr_take :: "nat \<Rightarrow> wire_reader \<Rightarrow> u8 list" where
  "wr_take n r = take n (drop (wr_position r) (wr_input r))"

text \<open>
  The reads return the value on \<open>true\<close> and \<open>None\<close> on \<open>false\<close>, with the reader after the call.
\<close>

function varint_loop :: "nat \<Rightarrow> u64 \<Rightarrow> wire_reader \<Rightarrow> u64 option \<times> wire_reader" where
  "varint_loop i value r =
     (if i \<ge> 10 then (None, wr_fail r)
      else if wr_done r then (None, wr_fail r)
      else let byte = wr_input r ! wr_position r; r' = wr_skip 1 r in
        if i = 9 \<and> byte > 1 then (None, wr_fail r')
        else let value' = value OR push_bit (7 * i) (ucast (byte AND 127)) in
          if byte AND 128 = 0 then (if i = 0 \<or> byte \<noteq> 0 then (Some value', r') else (None, wr_fail r'))
          else varint_loop (Suc i) value' r')"
  by pat_completeness auto
termination by (relation "measure (\<lambda>(i, v, r). 10 - i)") auto

declare varint_loop.simps [simp del]

definition varint :: "wire_reader \<Rightarrow> u64 option \<times> wire_reader" where
  "varint r = varint_loop 0 0 r"

definition le_value :: "u8 list \<Rightarrow> u64" where
  "le_value bytes = fold (\<lambda>i v. v OR push_bit (8 * i) (ucast (bytes ! i))) [0..<length bytes] 0"

definition next_field :: "wire_reader \<Rightarrow> wire_field option \<times> wire_reader" where
  "next_field r =
     (if wr_done r then (None, r)
      else case varint r of
        (None, r1) \<Rightarrow> (None, wr_fail r1)
      | (Some tag, r1) \<Rightarrow>
          if tag > 0xffffffff \<or> drop_bit 3 tag = 0 then (None, wr_fail r1)
          else let field = \<lparr>wf_tag = ucast (drop_bit 3 tag), wf_wire = ucast (tag AND 7),
                            wf_value = 0, wf_bytes = []\<rparr> in
            if wf_wire field = 0 then
              (case varint r1 of
                 (None, r2) \<Rightarrow> (None, r2)
               | (Some v, r2) \<Rightarrow> (Some (field\<lparr>wf_value := v\<rparr>), r2))
            else if wf_wire field = 1 \<or> wf_wire field = 5 then
              let count = (if wf_wire field = 1 then 8 else 4) in
              if wr_left r1 < count then (None, wr_fail r1)
              else (Some (field\<lparr>wf_value := le_value (wr_take count r1)\<rparr>), wr_skip count r1)
            else if wf_wire field = 2 then
              (case varint r1 of
                 (None, r2) \<Rightarrow> (None, wr_fail r2)
               | (Some count, r2) \<Rightarrow>
                   if unat count > wr_left r2 then (None, wr_fail r2)
                   else (Some (field\<lparr>wf_bytes := wr_take (unat count) r2\<rparr>), wr_skip (unat count) r2))
            else (None, wr_fail r1))"

text \<open>Every read keeps the input and moves the position forward, within the input.\<close>

definition wr_ok :: "wire_reader \<Rightarrow> bool" where
  "wr_ok r \<longleftrightarrow> wr_position r \<le> length (wr_input r)"

definition wr_advance :: "wire_reader \<Rightarrow> wire_reader \<Rightarrow> bool" where
  "wr_advance r r' \<longleftrightarrow> wr_input r' = wr_input r \<and> wr_position r \<le> wr_position r' \<and> wr_ok r'"

named_theorems wr_defs "the fields of a reader after an operation"

lemma wr_fields [wr_defs]:
  "wr_input (wr_fail r) = wr_input r" "wr_position (wr_fail r) = length (wr_input r)"
  "\<not> wr_good (wr_fail r)" "wr_done (wr_fail r)" "\<not> wr_is_good (wr_fail r)"
  "wr_input (wr_skip n r) = wr_input r" "wr_position (wr_skip n r) = wr_position r + n"
  "wr_good (wr_skip n r) = wr_good r" "wr_left (wr_skip n r) = wr_left r - n"
  by (auto simp: wr_fail_def wr_skip_def wr_done_def wr_is_good_def wr_left_def)

lemma wr_advance_trans: "wr_advance r r1 \<Longrightarrow> wr_advance r1 r2 \<Longrightarrow> wr_advance r r2"
  by (auto simp: wr_advance_def)

lemma wr_advance_fail: "wr_ok r \<Longrightarrow> wr_advance r (wr_fail r)"
  by (simp add: wr_advance_def wr_ok_def wr_defs)

lemma wr_advance_skip: "n \<le> wr_left r \<Longrightarrow> wr_ok r \<Longrightarrow> wr_advance r (wr_skip n r)"
  by (simp add: wr_advance_def wr_ok_def wr_left_def wr_defs)

lemma wr_advance_ok: "wr_advance r r' \<Longrightarrow> wr_ok r'"
  by (simp add: wr_advance_def)

lemma wr_not_done_left: "wr_ok r \<Longrightarrow> \<not> wr_done r \<Longrightarrow> 1 \<le> wr_left r"
  by (simp add: wr_ok_def wr_done_def wr_left_def)

lemma varint_loop_advance:
  "wr_ok r \<Longrightarrow> wr_advance r (snd (varint_loop i acc r))"
proof (induction i acc r rule: varint_loop.induct)
  case (1 i acc r)
  show ?case
  proof (cases "10 \<le> i \<or> wr_done r")
    case True
    then show ?thesis using 1(2) by (subst varint_loop.simps) (auto simp: wr_advance_fail)
  next
    case False
    then have s: "wr_advance r (wr_skip 1 r)"
      using 1(2) wr_not_done_left by (auto intro: wr_advance_skip)
    then have f: "wr_advance r (wr_fail (wr_skip 1 r))"
      by (meson wr_advance_fail wr_advance_ok wr_advance_trans)
    show ?thesis
      using False s f 1(1) wr_advance_ok [OF s]
      by (subst varint_loop.simps) (auto simp: Let_def intro: wr_advance_trans)
  qed
qed

lemma varint_advance: "wr_ok r \<Longrightarrow> wr_advance r (snd (varint r))"
  by (simp add: varint_def varint_loop_advance)

lemma varint_loop_progress:
  "varint_loop i acc r = (Some v, r') \<Longrightarrow> wr_ok r \<Longrightarrow> wr_position r < wr_position r'"
proof (induction i acc r rule: varint_loop.induct)
  case (1 i acc r)
  have g: "\<not> 10 \<le> i" "\<not> wr_done r"
    using 1(2) by (subst (asm) varint_loop.simps, simp split: if_splits)+
  have s: "wr_advance r (wr_skip 1 r)"
    using 1(3) g wr_not_done_left by (auto intro: wr_advance_skip)
  show ?case
  proof (cases "wr_input r ! wr_position r AND 128 = 0")
    case True
    then have "r' = wr_skip 1 r"
      using 1(2) g by (subst (asm) varint_loop.simps) (auto simp: Let_def split: if_splits)
    then show ?thesis by (simp add: wr_defs)
  next
    case False
    then obtain acc' where "varint_loop (Suc i) acc' (wr_skip 1 r) = (Some v, r')"
      using 1(2) g by (subst (asm) varint_loop.simps) (auto simp: Let_def split: if_splits)
    then have "wr_advance (wr_skip 1 r) r'"
      using varint_loop_advance [OF wr_advance_ok [OF s], of "Suc i" acc'] by simp
    then show ?thesis by (simp add: wr_advance_def wr_defs)
  qed
qed

lemma varint_progress: "varint r = (Some v, r') \<Longrightarrow> wr_ok r \<Longrightarrow> wr_position r < wr_position r'"
  unfolding varint_def by (rule varint_loop_progress)

lemma next_field_advance:
  assumes "wr_ok r"
  shows "wr_advance r (snd (next_field r))"
proof -
  obtain o1 r1 where v1: "varint r = (o1, r1)" by fastforce
  obtain o2 r2 where v2: "varint r1 = (o2, r2)" by fastforce
  have a1: "wr_advance r r1" using varint_advance [OF assms] v1 by simp
  have a2: "wr_advance r r2"
    using varint_advance [OF wr_advance_ok [OF a1]] v2 wr_advance_trans [OF a1] by simp
  have f: "wr_advance r (wr_fail r1)" "wr_advance r (wr_fail r2)"
    by (meson a1 a2 wr_advance_fail wr_advance_ok wr_advance_trans)+
  have s: "wr_advance r (wr_skip n r1)" if "n \<le> wr_left r1" for n
    using wr_advance_skip [OF that wr_advance_ok [OF a1]] a1 wr_advance_trans by blast
  have s2: "wr_advance r (wr_skip n r2)" if "n \<le> wr_left r2" for n
    using wr_advance_skip [OF that wr_advance_ok [OF a2]] a2 wr_advance_trans by blast
  have r: "wr_advance r r" using assms by (simp add: wr_advance_def)
  show ?thesis
    using r f s s2 a2 by (auto simp: next_field_def v1 v2 Let_def split: option.splits)
qed

lemma next_field_progress:
  assumes "next_field r = (Some f, r')" "wr_ok r"
  shows "wr_position r < wr_position r'"
proof -
  obtain o1 r1 where v1: "varint r = (o1, r1)" by fastforce
  obtain o2 r2 where v2: "varint r1 = (o2, r2)" by fastforce
  obtain tag where o1: "o1 = Some tag"
    using assms(1) v1 by (cases o1) (auto simp: next_field_def split: if_splits)
  have p: "wr_position r < wr_position r1"
    using varint_progress [of r tag r1] v1 o1 assms(2) by simp
  have "wr_ok r1" using varint_advance [OF assms(2)] v1 by (simp add: wr_advance_def)
  then have "wr_position r1 \<le> wr_position r2"
    using varint_advance [of r1] v2 by (simp add: wr_advance_def)
  then show ?thesis
    using assms(1) p o1
    by (auto simp: next_field_def v1 v2 Let_def wr_defs split: if_splits option.splits)
qed

section \<open>The encoding the reader accepts\<close>

text \<open>The reference encoder: base 128, least significant group first, no padding.\<close>

fun base128 :: "nat \<Rightarrow> nat list" where
  "base128 n = (if n < 128 then [n] else (n mod 128 + 128) # base128 (n div 128))"

declare base128.simps [simp del]

definition put_varint :: "u64 \<Rightarrow> u8 list" where
  "put_varint v = map word_of_nat (base128 (unat v))"

definition wr_rest :: "wire_reader \<Rightarrow> u8 list" where
  "wr_rest r = drop (wr_position r) (wr_input r)"

lemma wr_rest_facts:
  "wr_ok r \<Longrightarrow> wr_done r \<longleftrightarrow> wr_rest r = []"
  "wr_ok r \<Longrightarrow> wr_left r = length (wr_rest r)"
  "wr_take n r = take n (wr_rest r)"
  "wr_rest (wr_skip n r) = drop n (wr_rest r)"
  "wr_ok r \<Longrightarrow> wr_rest r = b # bs \<Longrightarrow> wr_input r ! wr_position r = b"
  "wr_skip n (wr_skip m r) = wr_skip (m + n) r"
  by (auto simp: wr_ok_def wr_done_def wr_rest_def wr_left_def wr_take_def wr_skip_def add.commute
      nth_via_drop)

lemma wr_skip_ok: "n \<le> length (wr_rest r) \<Longrightarrow> wr_ok r \<Longrightarrow> wr_ok (wr_skip n r)"
  using wr_advance_skip [of n r] wr_rest_facts(2) [of r] by (auto simp: wr_advance_def)

lemma unat_byte_and_127: "unat (b AND 127 :: u8) = unat b mod 128"
proof -
  have "unat (b AND 127) = unat b AND 127" by (simp add: unsigned_and_eq)
  also have "\<dots> = take_bit 7 (unat b)" by (simp add: take_bit_eq_mask mask_eq_exp_minus_1)
  finally show ?thesis by (simp add: take_bit_eq_mod)
qed

lemma byte_and_128: "(b AND 128 :: u8) = 0 \<longleftrightarrow> unat b < 128"
proof -
  have p: "(128 :: u8) = push_bit 7 1" by simp
  have 128: "bit (128 :: u8) k \<longleftrightarrow> k = 7" for k
    unfolding p bit_push_bit_iff bit_1_iff by auto
  have "b AND 128 = 0 \<longleftrightarrow> (\<forall>k. \<not> bit (b AND 128) k)"
    by (metis bit_0_eq bot_apply bot_bool_def bit_eqI)
  also have "\<dots> \<longleftrightarrow> \<not> bit b 7" unfolding bit_and_iff 128 by blast
  also have "\<dots> \<longleftrightarrow> (\<forall>k\<ge>7. \<not> bit b k)"
  proof
    assume b: "\<not> bit b 7"
    have "\<not> bit b k" if "7 \<le> k" for k
      using b that bit_word_ge [of k b] by (cases "k = 7") auto
    then show "\<forall>k\<ge>7. \<not> bit b k" by blast
  qed simp
  finally show ?thesis using word_less_2p_iff_bits [of b 7] by simp
qed

lemma or_shifted:
  assumes "unat acc < 2 ^ (7 * i)" "m < 128" "unat b = m" "m * 2 ^ (7 * i) + unat acc < 2 ^ 64"
  shows "unat (acc OR push_bit (7 * i) (ucast (b :: u8)) :: u64) = unat acc + m * 2 ^ (7 * i)"
proof -
  have low: "\<not> bit acc k" if "7 * i \<le> k" for k
    using assms(1) that by (simp add: word_less_2p_iff_bits)
  have unat_push: "unat (push_bit (7 * i) (ucast b) :: u64) = m * 2 ^ (7 * i)"
  proof -
    have "m < 2 ^ 64" by (rule order.strict_trans [OF assms(2)]) simp
    then have "unat (ucast b :: u64) = m"
      using assms(3) by (simp add: unsigned_ucast_eq take_bit_nat_eq_self)
    have "unat (push_bit (7 * i) (ucast b) :: u64) = take_bit LENGTH(64) (push_bit (7 * i) (unat (ucast b :: u64)))"
      by (rule unsigned_push_bit_eq)
    also have "\<dots> = take_bit 64 (m * 2 ^ (7 * i))"
      unfolding \<open>unat (ucast b :: u64) = m\<close> by (simp add: push_bit_eq_mult)
    finally show ?thesis using assms(4) by (simp add: take_bit_nat_eq_self)
  qed
  have "acc AND push_bit (7 * i) (ucast b) = 0"
  proof (rule bit_word_eqI)
    fix k
    show "bit (acc AND push_bit (7 * i) (ucast b)) k = bit 0 k"
      using low [of k] by (auto simp: bit_and_iff bit_push_bit_iff)
  qed
  then have "acc OR push_bit (7 * i) (ucast b) = acc + push_bit (7 * i) (ucast b)"
    by (simp add: disjunctive_add_eq_or)
  then show ?thesis using assms(4) unat_push by (simp add: unat_plus_if_size word_size)
qed


text \<open>The loop on the encoding of \<open>n\<close>, and what it accepts.\<close>

lemma base128_small: "n < 128 \<Longrightarrow> base128 n = [n]"
  by (simp add: base128.simps)

lemma base128_large: "128 \<le> n \<Longrightarrow> base128 n = (n mod 128 + 128) # base128 (n div 128)"
  by (simp add: base128.simps [of n])

lemma base128_bytes: "m \<in> set (base128 n) \<Longrightarrow> m < 256"
proof (induction n rule: base128.induct)
  case (1 n)
  have "n mod 128 < 128" by simp
  then show ?case using 1 by (cases "n < 128") (auto simp: base128_small base128_large)
qed

lemma base128_not_Nil [simp]: "base128 n \<noteq> []"
  by (simp add: base128.simps [of n])

lemma unat_word_byte: "m < 256 \<Longrightarrow> unat (word_of_nat m :: u8) = m"
  by (simp add: unat_of_nat)

lemma varint_step_bound:
  assumes "unat acc < 2 ^ (7 * i)" "m < 128"
  shows "unat acc + m * 2 ^ (7 * i) < 2 ^ (7 * Suc i)"
proof -
  have "(m + 1) * 2 ^ (7 * i) \<le> 128 * 2 ^ (7 * i)" using assms(2) by (intro mult_le_mono1) simp
  then have "m * 2 ^ (7 * i) + 2 ^ (7 * i) \<le> 128 * 2 ^ (7 * i)" by simp
  moreover have "(2::nat) ^ (7 * Suc i) = 128 * 2 ^ (7 * i)" by (simp add: power_add)
  ultimately show ?thesis using assms(1) by linarith
qed

lemma varint_loop_accepts:
  assumes "wr_ok r" "wr_rest r = map word_of_nat (base128 n) @ rest" "i \<le> 9"
    "unat acc < 2 ^ (7 * i)" "unat acc + n * 2 ^ (7 * i) < 2 ^ 64" "i = 0 \<or> n \<noteq> 0"
  shows "\<exists>v. varint_loop i acc r = (Some v, wr_skip (length (base128 n)) r) \<and>
    unat v = unat acc + n * 2 ^ (7 * i)"
  using assms
proof (induction n arbitrary: i acc r rule: base128.induct)
  case (1 n)
  let ?b = "word_of_nat (hd (base128 n)) :: u8"
  have b: "wr_input r ! wr_position r = ?b" and nd: "\<not> wr_done r"
    using 1(2,3) by (cases "base128 n"; simp add: wr_rest_facts)+
  show ?case
  proof (cases "n < 128")
    case True
    then have n: "base128 n = [n]" "unat ?b = n" by (simp_all add: base128_small unat_word_byte)
    have "i = 9 \<Longrightarrow> n \<le> 1"
    proof -
      assume "i = 9"
      then have "n * 2 ^ 63 < 2 * 2 ^ 63" using 1(6) by simp
      then show "n \<le> 1" unfolding mult_less_cancel2 by simp
    qed
    then have nine: "\<not> (i = 9 \<and> 1 < ?b)" using n(2) by (auto simp: word_less_nat_alt)
    have zero: "(i = 0 \<or> ?b \<noteq> 0)" using 1(7) n(2) by auto
    have "unat (acc OR push_bit (7 * i) (ucast (?b AND 127))) = unat acc + n * 2 ^ (7 * i)"
      using 1(5,6) True n(2) by (intro or_shifted) (auto simp: unat_byte_and_127 algebra_simps)
    then show ?thesis
      using 1(4) nd nine zero True n
      by (subst varint_loop.simps) (simp add: b Let_def byte_and_128 del: word_of_nat_eq_0_iff of_nat_eq_0_iff)
  next
    case False
    let ?m = "n mod 128"
    have n: "base128 n = (?m + 128) # base128 (n div 128)"
      using False by (simp add: base128_large)
    have nb: "unat ?b = ?m + 128"
      unfolding n list.sel by (rule unat_word_byte) (use mod_less_divisor [of 128 n] in simp)
    note n = n nb
    have "i \<noteq> 9"
    proof
      assume "i = 9"
      then have "n * 2 ^ 63 < 2 * 2 ^ 63" using 1(6) by simp
      then show False using False unfolding mult_less_cancel2 by simp
    qed
    then have i: "i < 9" "Suc i \<le> 9" using 1(4) by auto
    have split: "unat acc + n * 2 ^ (7 * i) = unat acc + ?m * 2 ^ (7 * i) + (n div 128) * 2 ^ (7 * Suc i)"
    proof -
      have "(m + 128 * q) * p = m * p + q * (128 * p)" for m q p :: nat
        by (simp add: algebra_simps)
      from this [of ?m "n div 128" "2 ^ (7 * i)"] show ?thesis by (simp add: power_add)
    qed
    define acc' where "acc' = acc OR push_bit (7 * i) (ucast (?b AND 127))"
    have acc': "unat acc' = unat acc + ?m * 2 ^ (7 * i)"
      unfolding acc'_def using 1(5,6) n(2) split by (intro or_shifted) (auto simp: unat_byte_and_127 algebra_simps)
    have "\<exists>v. varint_loop (Suc i) acc' (wr_skip 1 r) =
        (Some v, wr_skip (length (base128 (n div 128))) (wr_skip 1 r)) \<and>
        unat v = unat acc' + (n div 128) * 2 ^ (7 * Suc i)"
    proof (rule 1(1))
      show "wr_ok (wr_skip 1 r)" using 1(2,3) by (intro wr_skip_ok) (simp_all add: n(1))
      show "wr_rest (wr_skip 1 r) = map word_of_nat (base128 (n div 128)) @ rest"
        using 1(3) by (simp add: wr_rest_facts n(1))
      show "unat acc' < 2 ^ (7 * Suc i)"
        unfolding acc' by (rule varint_step_bound) (use 1(5) in simp_all)
    qed (use False i split 1(6) acc' in auto)
    moreover have "varint_loop i acc r = varint_loop (Suc i) acc' (wr_skip 1 r)"
      using i nd n(2) by (subst varint_loop.simps) (simp add: b Let_def byte_and_128 acc'_def)
    ultimately show ?thesis using split acc' by (auto simp: wr_rest_facts n(1))
  qed
qed


lemma wr_rest_Cons:
  assumes "wr_ok r" "\<not> wr_done r"
  shows "wr_rest r = wr_input r ! wr_position r # wr_rest (wr_skip 1 r)"
  using assms by (simp add: wr_rest_def wr_ok_def wr_done_def wr_skip_def Cons_nth_drop_Suc)

lemma varint_loop_canonical:
  assumes "varint_loop i acc r = (Some v, r')" "wr_ok r" "i \<le> 9" "unat acc < 2 ^ (7 * i)"
  shows "\<exists>n rest. wr_rest r = map word_of_nat (base128 n) @ rest \<and>
    r' = wr_skip (length (base128 n)) r \<and> unat v = unat acc + n * 2 ^ (7 * i) \<and> (i = 0 \<or> n \<noteq> 0)"
  using assms
proof (induction i acc r rule: varint_loop.induct)
  case (1 i acc r)
  let ?b = "wr_input r ! wr_position r"
  have nd: "\<not> wr_done r" and nine: "\<not> (i = 9 \<and> 1 < ?b)"
    using 1(2) by (subst (asm) varint_loop.simps, simp add: Let_def split: if_splits)+
  have i: "\<not> 10 \<le> i" using 1(4) by simp
  note rest = wr_rest_Cons [OF 1(3) nd]
  show ?case
  proof (cases "?b AND 128 = 0")
    case True
    then have r': "i = 0 \<or> ?b \<noteq> 0" "r' = wr_skip 1 r" "v = acc OR push_bit (7 * i) (ucast (?b AND 127))"
      using 1(2) i nd nine by (subst (asm) varint_loop.simps, simp add: Let_def split: if_splits)+
    have b: "unat ?b < 128" using True by (simp add: byte_and_128)
    have "unat ?b * 2 ^ (7 * i) + unat acc < 2 ^ 64"
    proof (cases "i = 9")
      case True
      then have "unat ?b \<le> 1" using nine by (auto simp: word_less_nat_alt)
      then have "unat ?b * 2 ^ 63 \<le> 1 * 2 ^ 63" by (intro mult_le_mono1)
      then show ?thesis using True 1(5) by simp
    next
      case False
      then have "7 * Suc i \<le> 63" using 1(4) by simp
      then have "(2::nat) ^ (7 * Suc i) \<le> 2 ^ 63" by (rule power_increasing) simp
      then show ?thesis using varint_step_bound [OF 1(5) b] by simp
    qed
    then have "unat v = unat acc + unat ?b * 2 ^ (7 * i)"
      unfolding r'(3) by (intro or_shifted) (use 1(5) b in \<open>auto simp: unat_byte_and_127\<close>)
    moreover have "wr_rest r = map word_of_nat (base128 (unat ?b)) @ wr_rest (wr_skip 1 r)"
      using rest b by (simp add: base128_small)
    ultimately show ?thesis
      using r'(1,2) b by (intro exI [of _ "unat ?b"]) (auto simp: base128_small unat_eq_zero)
  next
    case False
    then have b: "128 \<le> unat ?b" by (simp add: byte_and_128)
    then have ne: "i \<noteq> 9" using nine by (auto simp: word_less_nat_alt)
    define acc' where "acc' = acc OR push_bit (7 * i) (ucast (?b AND 127))"
    have step: "varint_loop (Suc i) acc' (wr_skip 1 r) = (Some v, r')"
      using 1(2) i nd ne False by (subst (asm) varint_loop.simps) (simp add: Let_def acc'_def)
    have m: "unat ?b mod 128 < 128" by simp
    have "7 * Suc i \<le> 63" using 1(4) ne by simp
    then have "(2::nat) ^ (7 * Suc i) \<le> 2 ^ 63" by (rule power_increasing) simp
    then have "unat ?b mod 128 * 2 ^ (7 * i) + unat acc < 2 ^ 64"
      using varint_step_bound [OF 1(5) m] by simp
    then have acc': "unat acc' = unat acc + unat ?b mod 128 * 2 ^ (7 * i)"
      unfolding acc'_def by (intro or_shifted) (use 1(5) m in \<open>simp_all add: unat_byte_and_127\<close>)
    have "\<exists>n rest. wr_rest (wr_skip 1 r) = map word_of_nat (base128 n) @ rest \<and>
        r' = wr_skip (length (base128 n)) (wr_skip 1 r) \<and>
        unat v = unat acc' + n * 2 ^ (7 * Suc i) \<and> (Suc i = 0 \<or> n \<noteq> 0)"
    proof (rule 1(1) [OF i nd refl refl nine refl False, folded acc'_def])
      show "varint_loop (Suc i) acc' (wr_skip 1 r) = (Some v, r')" by (rule step)
      show "wr_ok (wr_skip 1 r)" using rest 1(3) by (intro wr_skip_ok) simp_all
      show "unat acc' < 2 ^ (7 * Suc i)"
        unfolding acc' by (rule varint_step_bound [OF 1(5) m])
    qed (use 1(4) ne in auto)
    then obtain n rest' where n: "wr_rest (wr_skip 1 r) = map word_of_nat (base128 n) @ rest'"
      "r' = wr_skip (length (base128 n)) (wr_skip 1 r)" "unat v = unat acc' + n * 2 ^ (7 * Suc i)" "n \<noteq> 0"
      by auto
    let ?n = "unat ?b mod 128 + 128 * n"
    have "unat ?b < 256" by (rule order.strict_trans2 [OF unsigned_less]) simp
    then have b': "unat ?b mod 128 + 128 = unat ?b" using b by (simp add: le_mod_geq)
    have digits: "(x + 128 * n) mod 128 = x" "(x + 128 * n) div 128 = n" if "x < 128" for x
      using that by simp_all
    have "128 \<le> ?n" using n(4) by linarith
    then have "base128 ?n = (?n mod 128 + 128) # base128 (?n div 128)" by (rule base128_large)
    then have enc: "base128 ?n = unat ?b # base128 n" unfolding digits [OF m] b' .
    have "(m + 128 * q) * p = m * p + q * (128 * p)" for m q p :: nat
      by (simp add: algebra_simps)
    from this [of "unat ?b mod 128" n "2 ^ (7 * i)"]
    have "unat v = unat acc + ?n * 2 ^ (7 * i)"
      using n(3) acc' by (simp add: power_add)
    moreover have "wr_rest r = map word_of_nat (base128 ?n) @ rest'"
      using rest n(1) by (simp add: enc)
    moreover have "r' = wr_skip (length (base128 ?n)) r"
      using n(2) by (simp add: enc wr_rest_facts)
    moreover have "i = 0 \<or> ?n \<noteq> 0" using n(4) by simp
    ultimately show ?thesis by blast
  qed
qed

lemma length_put_varint [simp]: "length (put_varint v) = length (base128 (unat v))"
  by (simp add: put_varint_def)

text \<open>The reader accepts exactly the canonical encoding of a 64-bit value.\<close>

lemma varint_iff:
  assumes "wr_ok r"
  shows "varint r = (Some v, r') \<longleftrightarrow>
    (\<exists>rest. wr_rest r = put_varint v @ rest) \<and> r' = wr_skip (length (put_varint v)) r"
proof
  assume "varint r = (Some v, r')"
  then show "(\<exists>rest. wr_rest r = put_varint v @ rest) \<and> r' = wr_skip (length (put_varint v)) r"
    using varint_loop_canonical [of 0 0 r v r'] assms by (auto simp: varint_def put_varint_def)
next
  assume a: "(\<exists>rest. wr_rest r = put_varint v @ rest) \<and> r' = wr_skip (length (put_varint v)) r"
  have "unat v < 2 ^ 64" by (rule order.strict_trans2 [OF unsigned_less]) simp
  then show "varint r = (Some v, r')"
    using varint_loop_accepts [of r "unat v" _ 0 0] a assms
    by (auto simp: varint_def put_varint_def word_unat_eq_iff)
qed

section \<open>Fields on the wire\<close>

definition le_bytes :: "nat \<Rightarrow> u64 \<Rightarrow> u8 list" where
  "le_bytes n v = map (\<lambda>i. ucast (drop_bit (8 * i) v)) [0..<n]"

definition field_tag :: "wire_field \<Rightarrow> u64" where
  "field_tag f = push_bit 3 (ucast (wf_tag f)) OR ucast (wf_wire f)"

definition put_field :: "wire_field \<Rightarrow> u8 list" where
  "put_field f = put_varint (field_tag f) @
     (if wf_wire f = 0 then put_varint (wf_value f)
      else if wf_wire f = 1 then le_bytes 8 (wf_value f)
      else if wf_wire f = 5 then le_bytes 4 (wf_value f)
      else put_varint (word_of_nat (length (wf_bytes f))) @ wf_bytes f)"

definition field_ok :: "wire_field \<Rightarrow> bool" where
  "field_ok f \<longleftrightarrow> wf_tag f \<noteq> 0 \<and> unat (wf_tag f) < 2 ^ 29 \<and> wf_wire f \<in> {0, 1, 2, 5} \<and>
     (wf_wire f \<noteq> 2 \<longrightarrow> wf_bytes f = []) \<and> (wf_wire f = 2 \<longrightarrow> wf_value f = 0) \<and>
     (wf_wire f = 5 \<longrightarrow> unat (wf_value f) < 2 ^ 32) \<and> length (wf_bytes f) < 2 ^ 64"

lemma bit_le_value:
  assumes "length bs \<le> 8"
  shows "bit (le_value bs) k \<longleftrightarrow> k div 8 < length bs \<and> bit (bs ! (k div 8)) (k mod 8)"
proof -
  have "bit (fold (\<lambda>i v. v OR push_bit (8 * i) (ucast (bs ! i))) is v :: u64) k \<longleftrightarrow>
      bit v k \<or> (\<exists>i\<in>set is. i = k div 8 \<and> bit (bs ! i) (k mod 8) \<and> k < 64)" for "is" v
  proof (induction "is" arbitrary: v)
    case (Cons i "is")
    have "bit (push_bit (8 * i) (ucast (bs ! i)) :: u64) k \<longleftrightarrow>
        i = k div 8 \<and> bit (bs ! i) (k mod 8) \<and> k < 64"
    proof (cases "i = k div 8")
      case True
      then have "8 * i \<le> k" "k - 8 * i = k mod 8" by (simp_all add: minus_mult_div_eq_mod)
      then show ?thesis using True by (auto simp: bit_push_bit_iff bit_unsigned_iff)
    next
      case False
      then have "k < 8 * i \<or> 8 \<le> k - 8 * i" by (cases "i < k div 8") (auto simp: less_mult_imp_div_less)
      then show ?thesis using False by (auto simp: bit_push_bit_iff bit_unsigned_iff bit_word_ge)
    qed
    then show ?case using Cons by (auto simp: bit_or_iff)
  qed simp
  from this [of "[0..<length bs]" 0] show ?thesis using assms by (auto simp: le_value_def)
qed

lemma le_bytes_value:
  assumes "length bs \<le> 8"
  shows "le_bytes (length bs) (le_value bs) = bs"
proof (rule nth_equalityI)
  fix i assume "i < length (le_bytes (length bs) (le_value bs))"
  then have i: "i < length bs" by (simp add: le_bytes_def)
  have "bit (ucast (drop_bit (8 * i) (le_value bs)) :: u8) k = bit (bs ! i) k" if "k < 8" for k
    using that i assms by (simp add: bit_unsigned_iff bit_drop_bit_eq bit_le_value)
  then show "le_bytes (length bs) (le_value bs) ! i = bs ! i"
    using i by (intro bit_word_eqI) (auto simp: le_bytes_def)
qed (simp add: le_bytes_def)

lemma le_value_bytes:
  assumes "n \<le> 8" "unat v < 2 ^ (8 * n)"
  shows "le_value (le_bytes n v) = v"
proof (rule bit_word_eqI)
  fix k assume "k < LENGTH(64)"
  have b: "bit (le_value (le_bytes n v)) k \<longleftrightarrow> k div 8 < n \<and> bit (le_bytes n v ! (k div 8)) (k mod 8)"
    using assms(1) by (subst bit_le_value) (simp_all add: le_bytes_def)
  show "bit (le_value (le_bytes n v)) k = bit v k"
  proof (cases "k div 8 < n")
    case True
    then show ?thesis using b by (simp add: le_bytes_def bit_unsigned_iff bit_drop_bit_eq)
  next
    case False
    then have "8 * n \<le> k" by (simp add: div_less_iff_less_mult mult.commute not_less)
    then show ?thesis using assms(2) b False by (simp add: word_less_2p_iff_bits)
  qed
qed

lemma le_value_4_bound: "length bs = 4 \<Longrightarrow> unat (le_value bs) < 2 ^ 32"
  unfolding word_less_2p_iff_bits by (auto simp: bit_le_value div_less_iff_less_mult)

lemma field_tag_parts:
  assumes "unat (wf_tag f) < 2 ^ 29" "unat (wf_wire f) < 8"
  shows "drop_bit 3 (field_tag f) = ucast (wf_tag f)" "ucast (field_tag f AND 7) = wf_wire f"
    "field_tag f \<le> 0xffffffff"
proof -
  have tag: "\<not> bit (wf_tag f) k" if "29 \<le> k" for k
    using assms(1) that word_less_2p_iff_bits [of "wf_tag f" 29] by blast
  then have tag': "bit (wf_tag f) k \<Longrightarrow> k < 29" for k by (meson not_less)
  have wire: "\<not> bit (wf_wire f) k" if "3 \<le> k" for k
    using assms(2) that word_less_2p_iff_bits [of "wf_wire f" 3] by simp
  show "drop_bit 3 (field_tag f) = ucast (wf_tag f)"
    by (rule bit_word_eqI)
      (auto simp: field_tag_def bit_drop_bit_eq bit_or_iff bit_push_bit_iff bit_unsigned_iff wire
        dest: tag')
  have 7: "x AND 7 = take_bit 3 x" for x :: u64
    by (simp add: take_bit_eq_mask mask_eq_exp_minus_1)
  show "ucast (field_tag f AND 7) = wf_wire f"
    unfolding 7
    by (rule bit_word_eqI)
      (auto simp: field_tag_def bit_take_bit_iff bit_or_iff bit_push_bit_iff bit_unsigned_iff dest: wire leI)
  have "unat (field_tag f) < 2 ^ 32"
    unfolding word_less_2p_iff_bits
    using tag wire by (auto simp: field_tag_def bit_or_iff bit_push_bit_iff bit_unsigned_iff)
  then show "field_tag f \<le> 0xffffffff" by (simp add: word_le_nat_alt)
qed


lemma field_tag_unique:
  assumes "tag \<le> 0xffffffff" "wf_tag f = ucast (drop_bit 3 tag)" "wf_wire f = ucast (tag AND 7)"
  shows "field_tag f = tag" "unat (wf_tag f) < 2 ^ 29" "unat (wf_wire f) < 8"
proof -
  have "unat tag < 2 ^ 32" using assms(1) by (simp add: word_le_nat_alt)
  then have t: "\<not> bit tag k" if "32 \<le> k" for k
    using that word_less_2p_iff_bits [of tag 32] by blast
  then have t': "bit tag k \<Longrightarrow> k < 32" for k by (meson not_less)
  have 7: "tag AND 7 = take_bit 3 tag"
    by (simp add: take_bit_eq_mask mask_eq_exp_minus_1)
  have k3: "3 \<le> k \<Longrightarrow> 3 + (k - 3) = k" for k :: nat by simp
  show "field_tag f = tag"
  proof (rule bit_word_eqI)
    fix k :: nat assume "k < LENGTH(64)"
    then show "bit (field_tag f) k = bit tag k"
      unfolding field_tag_def assms(2,3) 7 using k3 [of k] t' [of k]
      by (cases "3 \<le> k") (auto simp: bit_or_iff bit_push_bit_iff bit_unsigned_iff bit_drop_bit_eq bit_take_bit_iff)
  qed
  show "unat (wf_tag f) < 2 ^ 29"
    unfolding word_less_2p_iff_bits assms(2) using t by (auto simp: bit_unsigned_iff bit_drop_bit_eq)
  have "unat (wf_wire f) < 2 ^ 3"
    unfolding word_less_2p_iff_bits assms(3) 7 by (auto simp: bit_unsigned_iff bit_take_bit_iff)
  then show "unat (wf_wire f) < 8" by simp
qed

lemma field_ok_tag:
  assumes "field_ok f"
  shows "drop_bit 3 (field_tag f) = ucast (wf_tag f)" "ucast (field_tag f AND 7) = wf_wire f"
    "field_tag f \<le> 0xffffffff" "drop_bit 3 (field_tag f) \<noteq> 0" "ucast (drop_bit 3 (field_tag f)) = wf_tag f"
proof -
  have w: "unat (wf_tag f) < 2 ^ 29" "unat (wf_wire f) < 8" using assms by (auto simp: field_ok_def)
  note parts = field_tag_parts [OF w]
  have bk: "(ucast (ucast (wf_tag f) :: u64) :: u32) = wf_tag f"
    by (rule bit_word_eqI) (simp add: bit_unsigned_iff)
  show "drop_bit 3 (field_tag f) = ucast (wf_tag f)" "ucast (field_tag f AND 7) = wf_wire f"
    "field_tag f \<le> 0xffffffff" "ucast (drop_bit 3 (field_tag f)) = wf_tag f"
    using parts bk by simp_all
  show "drop_bit 3 (field_tag f) \<noteq> 0"
    using parts(1) bk assms by (auto simp: field_ok_def)
qed

lemma take_append_eq: "length a = n \<Longrightarrow> xs = a @ rest \<Longrightarrow> take n xs = a"
  by simp

text \<open>A field is read exactly when its encoding comes next.\<close>

lemma next_field_reads:
  assumes ok: "wr_ok r" and f: "field_ok f" and rest: "wr_rest r = put_field f @ rest"
  shows "next_field r = (Some f, wr_skip (length (put_field f)) r)"
proof -
  let ?t = "put_varint (field_tag f)"
  define r1 where "r1 = wr_skip (length ?t) r"
  have tag: "varint r = (Some (field_tag f), r1)"
    using rest unfolding varint_iff [OF ok] r1_def by (auto simp: put_field_def)
  have ok1: "wr_ok r1"
    unfolding r1_def using rest ok by (intro wr_skip_ok) (simp_all add: put_field_def)
  define body where "body = drop (length ?t) (put_field f)"
  have blen: "length (put_field f) = length ?t + length body" and rest1: "wr_rest r1 = body @ rest"
    using rest by (simp_all add: put_field_def body_def r1_def wr_rest_facts)
  have nd: "\<not> wr_done r"
    using rest ok by (auto simp: wr_rest_facts put_field_def put_varint_def)
  have skip: "wr_skip (length (put_field f)) r = wr_skip (length body) r1"
    by (simp add: blen r1_def wr_rest_facts)
  have left: "wr_left r1 = length body + length rest" using ok1 rest1 by (simp add: wr_rest_facts)
  note t = field_ok_tag [OF f]
  have tg: "\<not> (0xffffffff < field_tag f \<or> drop_bit 3 (field_tag f) = 0)" using t(3,4) by auto
  consider "wf_wire f = 0" | "wf_wire f = 1" | "wf_wire f = 5" | "wf_wire f = 2"
    using f by (auto simp: field_ok_def)
  then show ?thesis
  proof cases
    case 1
    then have b: "body = put_varint (wf_value f)" by (simp add: body_def put_field_def)
    have "varint r1 = (Some (wf_value f), wr_skip (length body) r1)"
      unfolding varint_iff [OF ok1] using rest1 b by auto
    moreover have "wf_bytes f = []" using f 1 by (simp add: field_ok_def)
    ultimately show ?thesis
      using nd tag t tg 1 by (simp add: next_field_def skip Let_def)
  next
    case 2
    then have b: "body = le_bytes 8 (wf_value f)" "length body = 8"
      by (simp_all add: body_def put_field_def le_bytes_def)
    have "unat (wf_value f) < 2 ^ (8 * 8)" by (rule order.strict_trans2 [OF unsigned_less]) simp
    then have "le_value (wr_take 8 r1) = wf_value f"
      using rest1 b le_value_bytes [of 8 "wf_value f"] by (simp add: wr_rest_facts)
    moreover have "wf_bytes f = []" using f 2 by (simp add: field_ok_def)
    ultimately show ?thesis
      using nd tag t tg 2 left b(2) by (simp add: next_field_def skip Let_def)
  next
    case 3
    then have b: "body = le_bytes 4 (wf_value f)" "length body = 4"
      by (simp_all add: body_def put_field_def le_bytes_def)
    have "le_value (wr_take 4 r1) = wf_value f"
      using rest1 b le_value_bytes [of 4 "wf_value f"] f 3 by (simp add: wr_rest_facts field_ok_def)
    moreover have "wf_bytes f = []" using f 3 by (simp add: field_ok_def)
    ultimately show ?thesis
      using nd tag t tg 3 left b(2) by (simp add: next_field_def skip Let_def)
  next
    case 4
    let ?n = "word_of_nat (length (wf_bytes f)) :: u64"
    have b: "body = put_varint ?n @ wf_bytes f" using 4 by (simp add: body_def put_field_def)
    have n: "unat ?n = length (wf_bytes f)" using f by (simp add: field_ok_def unat_of_nat)
    define r2 where "r2 = wr_skip (length (put_varint ?n)) r1"
    have v: "varint r1 = (Some ?n, r2)"
      unfolding varint_iff [OF ok1] r2_def using rest1 b by auto
    have ok2: "wr_ok r2" unfolding r2_def using rest1 b ok1 by (intro wr_skip_ok) simp_all
    have rest2: "wr_rest r2 = wf_bytes f @ rest" using rest1 b by (simp add: r2_def wr_rest_facts)
    have "wr_left r2 = length (wf_bytes f) + length rest" using ok2 rest2 by (simp add: wr_rest_facts)
    moreover have "wr_take (length (wf_bytes f)) r2 = wf_bytes f" using rest2 by (simp add: wr_rest_facts)
    moreover have "wr_skip (length body) r1 = wr_skip (length (wf_bytes f)) r2"
      by (simp add: b r2_def wr_rest_facts)
    moreover have "wf_value f = 0" using f 4 by (simp add: field_ok_def)
    ultimately show ?thesis
      using nd tag t tg 4 v n by (simp add: next_field_def skip Let_def)
  qed
qed


lemma next_field_canonical:
  assumes r: "next_field r = (Some f, r')" and ok: "wr_ok r"
  shows "field_ok f \<and> (\<exists>rest. wr_rest r = put_field f @ rest) \<and> r' = wr_skip (length (put_field f)) r"
proof -
  obtain o1 r1 where v1: "varint r = (o1, r1)" by fastforce
  obtain o2 r2 where v2: "varint r1 = (o2, r2)" by fastforce
  obtain tag where tag: "o1 = Some tag"
    using r v1 by (cases o1) (auto simp: next_field_def split: if_splits)
  note next1 = r [unfolded next_field_def v1 tag, simplified]
  have r1: "r1 = wr_skip (length (put_varint tag)) r" "\<exists>rest. wr_rest r = put_varint tag @ rest"
    using varint_iff [OF ok] v1 tag by auto
  then obtain rest1 where rest1: "wr_rest r = put_varint tag @ rest1" by blast
  have ok1: "wr_ok r1" using r1(1) rest1 ok by (simp add: wr_skip_ok)
  have rr1: "wr_rest r1 = rest1" using r1(1) rest1 by (simp add: wr_rest_facts)
  have tg: "tag \<le> 0xffffffff" "drop_bit 3 tag \<noteq> 0"
    using next1 by (auto simp: Let_def not_less split: if_splits)
  have ft: "wf_tag f = ucast (drop_bit 3 tag)" "wf_wire f = ucast (tag AND 7)"
    using next1 by (auto simp: Let_def v2 split: if_splits option.splits)
  note tag_eq = field_tag_unique [OF tg(1) ft]
  have tag0: "wf_tag f \<noteq> 0"
  proof
    assume "wf_tag f = 0"
    then have "drop_bit 3 tag = 0"
      using field_tag_parts(1) [OF tag_eq(2,3)] tag_eq(1) by simp
    then show False using tg(2) by simp
  qed
  let ?f0 = "\<lparr>wf_tag = ucast (drop_bit 3 tag), wf_wire = ucast (tag AND 7), wf_value = 0, wf_bytes = []\<rparr>"
  have skip: "wr_skip n r1 = wr_skip (length (put_varint tag) + n) r" for n
    by (simp add: r1(1) wr_rest_facts)
  have left1: "wr_left r1 = length rest1" using ok1 rr1 by (simp add: wr_rest_facts)
  have common: "wf_tag f \<noteq> 0" "unat (wf_tag f) < 2 ^ 29" by (fact tag0, fact tag_eq(2))
  consider (a) "wf_wire f = 0" | (b) "wf_wire f = 1" | (c) "wf_wire f = 5" | (d) "wf_wire f = 2"
    using next1 ft by (auto simp: Let_def split: if_splits)
  then show ?thesis
  proof cases
    case a
    then obtain v where v: "o2 = Some v" "f = ?f0\<lparr>wf_value := v\<rparr>" "r' = r2"
      using next1 ft tg by (auto simp: Let_def v2 split: if_splits option.splits)
    then have "\<exists>rest. rest1 = put_varint v @ rest" "r2 = wr_skip (length (put_varint v)) r1"
      using varint_iff [OF ok1] v2 rr1 by auto
    then show ?thesis
      using common a v rest1 tag_eq(1) skip by (auto simp: field_ok_def put_field_def)
  next
    case b
    then have v: "f = ?f0\<lparr>wf_value := le_value (wr_take 8 r1)\<rparr>" "r' = wr_skip 8 r1" "8 \<le> length rest1"
      using next1 ft tg left1 by (auto simp: Let_def split: if_splits)
    then have "le_bytes 8 (le_value (take 8 rest1)) = take 8 rest1"
      using le_bytes_value [of "take 8 rest1"] by simp
    then have "rest1 = le_bytes 8 (wf_value f) @ drop 8 rest1"
      using v(1) rr1 by (simp add: wr_rest_facts)
    then have "\<exists>rest. wr_rest r = put_field f @ rest"
      using rest1 tag_eq(1) b by (auto simp: put_field_def)
    moreover have "length (put_field f) = length (put_varint tag) + 8"
      using b tag_eq(1) by (simp add: put_field_def le_bytes_def)
    ultimately show ?thesis
      using common b v skip by (auto simp: field_ok_def)
  next
    case c
    then have v: "f = ?f0\<lparr>wf_value := le_value (wr_take 4 r1)\<rparr>" "r' = wr_skip 4 r1" "4 \<le> length rest1"
      using next1 ft tg left1 by (auto simp: Let_def split: if_splits)
    then have "le_bytes 4 (le_value (take 4 rest1)) = take 4 rest1"
      using le_bytes_value [of "take 4 rest1"] by simp
    then have "rest1 = le_bytes 4 (wf_value f) @ drop 4 rest1"
      using v(1) rr1 by (simp add: wr_rest_facts)
    then have "\<exists>rest. wr_rest r = put_field f @ rest"
      using rest1 tag_eq(1) c by (auto simp: put_field_def)
    moreover have "length (put_field f) = length (put_varint tag) + 4"
      using c tag_eq(1) by (simp add: put_field_def le_bytes_def)
    moreover have "unat (wf_value f) < 2 ^ 32"
      using v le_value_4_bound [of "take 4 rest1"] rr1 by (simp add: wr_rest_facts)
    ultimately show ?thesis
      using common c v skip by (auto simp: field_ok_def)
  next
    case d
    then obtain n where n: "o2 = Some n" "unat n \<le> wr_left r2"
        "f = ?f0\<lparr>wf_bytes := wr_take (unat n) r2\<rparr>" "r' = wr_skip (unat n) r2"
      using next1 ft tg by (auto simp: Let_def v2 not_less split: if_splits option.splits)
    obtain rest2 where r2: "rest1 = put_varint n @ rest2" "r2 = wr_skip (length (put_varint n)) r1"
      using varint_iff [OF ok1] v2 n(1) rr1 by auto
    have ok2: "wr_ok r2" using r2 ok1 rr1 by (simp add: wr_skip_ok)
    have rr2: "wr_rest r2 = rest2" using r2 rr1 by (simp add: wr_rest_facts)
    have len: "length (wf_bytes f) = unat n" "wf_bytes f = take (unat n) rest2"
      using n(2,3) ok2 rr2 by (simp_all add: wr_rest_facts)
    have "unat n < 2 ^ 64" by (rule order.strict_trans2 [OF unsigned_less]) simp
    then have "field_ok f"
      using common d n(3) len(1) by (simp add: field_ok_def)
    moreover have put: "put_field f = put_varint tag @ put_varint n @ take (unat n) rest2"
      using d tag_eq(1) len by (simp add: put_field_def)
    moreover have "wr_rest r = put_field f @ drop (unat n) rest2"
      using rest1 r2(1) put by simp
    moreover have "length (take (unat n) rest2) = unat n" using len by simp
    then have "length (put_field f) = length (put_varint tag) + (length (put_varint n) + unat n)"
      using put by simp
    then have "r' = wr_skip (length (put_field f)) r"
      using n(4) r2(2) by (simp add: skip wr_rest_facts add.assoc)
    ultimately show ?thesis by blast
  qed
qed

text \<open>Reading all the fields of a message.\<close>

lemma next_field_left:
  assumes "(Some f, r') = next_field r" "wr_ok r"
  shows "wr_left r' < wr_left r"
proof -
  have "wr_position r < wr_position r'" "wr_advance r r'"
    using assms next_field_progress [of r f r'] next_field_advance [of r] by (simp, metis snd_conv)
  then show ?thesis by (auto simp: wr_left_def wr_advance_def wr_ok_def)
qed

lemma varint_left:
  assumes "(Some v, r') = varint r" "wr_ok r"
  shows "wr_left r' < wr_left r"
proof -
  have "wr_position r < wr_position r'" "wr_advance r r'"
    using assms varint_progress [of r v r'] varint_advance [of r] by (simp, metis snd_conv)
  then show ?thesis by (auto simp: wr_left_def wr_advance_def wr_ok_def)
qed

function read_fields :: "wire_reader \<Rightarrow> wire_field list option" where
  "read_fields r =
     (if \<not> wr_ok r then None
      else case next_field r of
        (None, r') \<Rightarrow> if wr_is_good r' then Some [] else None
      | (Some f, r') \<Rightarrow> map_option ((#) f) (read_fields r'))"
  by pat_completeness auto
termination
  by (relation "measure wr_left") (auto intro: next_field_left)

declare read_fields.simps [simp del]

lemma wr_skip_good [simp]: "wr_good (wr_skip n r) = wr_good r"
  by (simp add: wr_skip_def)

lemma read_fields_put:
  "wr_ok r \<Longrightarrow> wr_good r \<Longrightarrow> list_all field_ok fs \<Longrightarrow> wr_rest r = concat (map put_field fs) \<Longrightarrow>
    read_fields r = Some fs"
proof (induction fs arbitrary: r)
  case Nil
  then have d: "wr_done r" by (simp add: wr_rest_facts)
  then have "next_field r = (None, r)" by (simp add: next_field_def)
  then show ?case using Nil d by (subst read_fields.simps) (simp add: wr_is_good_def)
next
  case (Cons f fs)
  have n: "next_field r = (Some f, wr_skip (length (put_field f)) r)"
    using Cons.prems by (intro next_field_reads) simp_all
  have "read_fields (wr_skip (length (put_field f)) r) = Some fs"
    using Cons.prems by (intro Cons.IH) (simp_all add: wr_skip_ok wr_rest_facts)
  then show ?case using n Cons.prems by (subst read_fields.simps) simp
qed

lemma varint_bad: "varint r = (None, r') \<Longrightarrow> \<not> wr_good r'"
proof -
  have "varint_loop i acc r = (None, r') \<Longrightarrow> \<not> wr_good r'" for i acc
  proof (induction i acc r rule: varint_loop.induct)
    case (1 i acc r)
    show ?case
      using 1(2) 1(1)
      by (subst (asm) varint_loop.simps) (auto simp: Let_def wr_defs split: if_splits)
  qed
  then show "varint r = (None, r') \<Longrightarrow> \<not> wr_good r'" by (simp add: varint_def)
qed

lemma next_field_None:
  "next_field r = (None, r') \<Longrightarrow> r' = r \<and> wr_done r \<or> \<not> wr_good r'"
  by (auto simp: next_field_def Let_def wr_defs varint_bad split: if_splits prod.splits option.splits)

lemma read_fields_canonical:
  "read_fields r = Some fs \<Longrightarrow> wr_ok r \<Longrightarrow> list_all field_ok fs \<and> wr_rest r = concat (map put_field fs)"
proof (induction r arbitrary: fs rule: read_fields.induct)
  case (1 r)
  obtain n r' where n: "next_field r = (n, r')" by fastforce
  show ?case
  proof (cases n)
    case None
    then have "wr_is_good r'" "fs = []"
      using 1(2,3) n by (subst (asm) read_fields.simps, simp split: if_splits)+
    then have "wr_done r" using next_field_None [of r r'] n None by (auto simp: wr_is_good_def)
    then show ?thesis using 1(3) \<open>fs = []\<close> by (simp add: wr_rest_facts)
  next
    case (Some f)
    then obtain fs' where fs: "read_fields r' = Some fs'" "fs = f # fs'"
      using 1(2,3) n by (subst (asm) read_fields.simps) auto
    note c = next_field_canonical [OF n [unfolded Some] 1(3)]
    then have ok': "wr_ok r'" using 1(3) by (auto simp: wr_skip_ok)
    have "list_all field_ok fs' \<and> wr_rest r' = concat (map put_field fs')"
      using 1(1) [OF _ n [symmetric] Some fs(1) ok'] 1(3) by simp
    then show ?thesis using c fs(2) by (auto simp: wr_rest_facts)
  qed
qed

definition wire_fields :: "u8 list \<Rightarrow> wire_field list option" where
  "wire_fields bytes = read_fields (reader bytes)"

definition put_fields :: "wire_field list \<Rightarrow> u8 list" where
  "put_fields fs = concat (map put_field fs)"

lemma reader_facts [simp]: "wr_ok (reader bs)" "wr_good (reader bs)" "wr_rest (reader bs) = bs"
  by (simp_all add: reader_def wr_ok_def wr_rest_def)

interpretation wire: canonical_codec put_fields wire_fields "list_all field_ok"
proof
  show "wire_fields (put_fields fs) = Some fs" if "list_all field_ok fs" for fs
    using that by (simp add: wire_fields_def put_fields_def read_fields_put)
  show "list_all field_ok fs \<and> bs = put_fields fs" if "wire_fields bs = Some fs" for fs bs
    using read_fields_canonical [of "reader bs" fs] that by (simp add: wire_fields_def put_fields_def)
qed

section \<open>The wire policy\<close>

text \<open>The parts of a generated descriptor the guard reads (\<open>pb_field_iter_t\<close>).\<close>

datatype pb_ltype = LT_BOOL | LT_VARINT | LT_UVARINT | LT_SVARINT | LT_FIXED32 | LT_FIXED64
  | LT_BYTES | LT_STRING | LT_SUBMESSAGE | LT_SUBMSG_W_CB | LT_EXTENSION | LT_FIXED_LENGTH_BYTES

datatype pb_htype = HT_REQUIRED | HT_OPTIONAL | HT_REPEATED | HT_ONEOF

record 's pb_field =
  pb_ltype :: pb_ltype
  pb_htype :: pb_htype
  pb_data_size :: nat
  pb_submsg :: "'s option"

definition scalar_fits :: "'s pb_field \<Rightarrow> u64 \<Rightarrow> bool" where
  "scalar_fits field v =
     (if pb_ltype field = LT_BOOL then v \<le> 1
      else if pb_data_size field = 0 \<or> pb_data_size field > 8 then False
      else if pb_data_size field = 8 then True
      else let bits = pb_data_size field * 8 in
        if pb_ltype field = LT_VARINT then
          let positive = push_bit (bits - 1) 1 - 1 in v \<le> positive \<or> v \<ge> NOT positive
        else v \<le> push_bit bits 1 - 1)"

text \<open>A packed array: every element a varint that fits, to the end.\<close>

function packed_fits :: "'s pb_field \<Rightarrow> wire_reader \<Rightarrow> bool" where
  "packed_fits field r =
     (if \<not> wr_ok r then False
      else if wr_done r then wr_is_good r
      else case varint r of
        (None, r') \<Rightarrow> False
      | (Some v, r') \<Rightarrow> scalar_fits field v \<and> packed_fits field r')"
  by pat_completeness auto
termination
  by (relation "measure (\<lambda>(field, r). wr_left r)") (auto intro: varint_left)

declare packed_fits.simps [simp del]

text \<open>The \<open>switch\<close> on the kind of a known field; \<open>sub\<close> validates a submessage.\<close>

definition kind_fits :: "('s option \<Rightarrow> u8 list \<Rightarrow> bool) \<Rightarrow> 's pb_field \<Rightarrow> wire_field \<Rightarrow> bool" where
  "kind_fits sub field wire =
     (let repeated = (pb_htype field = HT_REPEATED) in
      if pb_ltype field \<in> {LT_BOOL, LT_VARINT, LT_UVARINT, LT_SVARINT} then
        (if wf_wire wire = 0 then scalar_fits field (wf_value wire)
         else if wf_wire wire = 2 \<and> repeated then packed_fits field (reader (wf_bytes wire))
         else False)
      else if pb_ltype field = LT_FIXED32 then
        wf_wire wire = 5 \<or> repeated \<and> wf_wire wire = 2 \<and> length (wf_bytes wire) mod 4 = 0
      else if pb_ltype field = LT_FIXED64 then
        wf_wire wire = 1 \<or> repeated \<and> wf_wire wire = 2 \<and> length (wf_bytes wire) mod 8 = 0
      else if pb_ltype field = LT_STRING then wf_wire wire = 2 \<and> 0 \<notin> set (wf_bytes wire)
      else if pb_ltype field \<in> {LT_BYTES, LT_FIXED_LENGTH_BYTES} then wf_wire wire = 2
      else if pb_ltype field \<in> {LT_SUBMESSAGE, LT_SUBMSG_W_CB} then
        wf_wire wire = 2 \<and> (pb_submsg field = None \<or> sub (pb_submsg field) (wf_bytes wire))
      else False)"

text \<open>The \<open>while(reader.next(wire))\<close> loop of \<open>validate_wire\<close>.\<close>

function validate_fields ::
  "(u32 \<Rightarrow> 's pb_field option) \<Rightarrow> ('s option \<Rightarrow> u8 list \<Rightarrow> bool) \<Rightarrow> wire_reader \<Rightarrow> u32 list \<Rightarrow> bool \<Rightarrow> bool" where
  "validate_fields lookup sub r singular oneof_seen =
     (if \<not> wr_ok r then False
      else case next_field r of
        (None, r') \<Rightarrow> wr_is_good r'
      | (Some wire, r') \<Rightarrow>
         (case lookup (wf_tag wire) of
            None \<Rightarrow> validate_fields lookup sub r' singular oneof_seen
          | Some field \<Rightarrow>
              let repeated = (pb_htype field = HT_REPEATED) in
              if \<not> repeated \<and> (wf_tag wire \<in> set singular \<or> length singular = 128) then False
              else let singular' = (if repeated then singular else singular @ [wf_tag wire]) in
                if pb_htype field = HT_ONEOF \<and> oneof_seen then False
                else kind_fits sub field wire \<and>
                  validate_fields lookup sub r' singular' (oneof_seen \<or> pb_htype field = HT_ONEOF)))"
  by pat_completeness auto
termination
  by (relation "measure (\<lambda>(lookup, sub, r, singular, oneof). wr_left r)") (auto intro: next_field_left)

declare validate_fields.simps [simp del]

text \<open>
  \<open>levels\<close> counts \<open>9 - depth\<close> down, so the test \<open>depth > 8\<close> is \<open>levels = 0\<close>. \<open>descr s\<close> is
  the lookup in the descriptor \<open>s\<close>.
\<close>

primrec validate_wire_at ::
  "('s \<Rightarrow> u32 \<Rightarrow> 's pb_field option) \<Rightarrow> nat \<Rightarrow> 's option \<Rightarrow> u8 list \<Rightarrow> bool" where
  "validate_wire_at descr 0 schema bytes = False"
| "validate_wire_at descr (Suc levels) schema bytes =
     (case schema of
        None \<Rightarrow> False
      | Some s \<Rightarrow> length bytes \<le> 239 \<and>
          validate_fields (descr s) (validate_wire_at descr levels) (reader bytes) [] False)"

definition validate_wire :: "('s \<Rightarrow> u32 \<Rightarrow> 's pb_field option) \<Rightarrow> 's option \<Rightarrow> u8 list \<Rightarrow> bool" where
  "validate_wire descr schema bytes = validate_wire_at descr 9 schema bytes"

function has_field_from :: "wire_reader \<Rightarrow> u32 \<Rightarrow> bool" where
  "has_field_from r tag =
     (if \<not> wr_ok r then False
      else case next_field r of
        (None, r') \<Rightarrow> False
      | (Some f, r') \<Rightarrow> wf_tag f = tag \<or> has_field_from r' tag)"
  by pat_completeness auto
termination
  by (relation "measure (\<lambda>(r, tag). wr_left r)") (auto intro: next_field_left)

declare has_field_from.simps [simp del]

definition has_wire_field :: "u8 list \<Rightarrow> u32 \<Rightarrow> bool" where
  "has_wire_field bytes tag = has_field_from (reader bytes) tag"

lemma has_field_from_iff:
  "read_fields r = Some fs \<Longrightarrow> has_field_from r tag \<longleftrightarrow> tag \<in> set (map wf_tag fs)"
proof (induction r arbitrary: fs rule: read_fields.induct)
  case (1 r)
  then have ok: "wr_ok r" by (subst (asm) read_fields.simps) (simp split: if_splits)
  obtain n r' where n: "next_field r = (n, r')" by fastforce
  show ?case
  proof (cases n)
    case None
    then have "fs = []" using 1(2) n ok by (subst (asm) read_fields.simps) (simp split: if_splits)
    then show ?thesis using n None ok by (subst has_field_from.simps) simp
  next
    case (Some f)
    then obtain fs' where fs: "read_fields r' = Some fs'" "fs = f # fs'"
      using 1(2) n ok by (subst (asm) read_fields.simps) auto
    then show ?thesis
      using 1(1) [OF _ n [symmetric] Some fs(1)] ok n Some by (subst has_field_from.simps) auto
  qed
qed

lemma has_wire_field_iff:
  "wire_fields bytes = Some fs \<Longrightarrow> has_wire_field bytes tag \<longleftrightarrow> tag \<in> set (map wf_tag fs)"
  by (simp add: has_wire_field_def wire_fields_def has_field_from_iff)

section \<open>What the policy accepts\<close>

definition singular_tags :: "(u32 \<Rightarrow> 's pb_field option) \<Rightarrow> wire_field list \<Rightarrow> u32 list" where
  "singular_tags lookup fs = filter (\<lambda>t. case lookup t of None \<Rightarrow> False
     | Some d \<Rightarrow> pb_htype d \<noteq> HT_REPEATED) (map wf_tag fs)"

definition oneof_fields :: "(u32 \<Rightarrow> 's pb_field option) \<Rightarrow> wire_field list \<Rightarrow> wire_field list" where
  "oneof_fields lookup fs = filter (\<lambda>f. case lookup (wf_tag f) of None \<Rightarrow> False
     | Some d \<Rightarrow> pb_htype d = HT_ONEOF) fs"

definition field_allowed ::
  "(u32 \<Rightarrow> 's pb_field option) \<Rightarrow> ('s option \<Rightarrow> u8 list \<Rightarrow> bool) \<Rightarrow> wire_field \<Rightarrow> bool" where
  "field_allowed lookup sub f = (case lookup (wf_tag f) of None \<Rightarrow> True | Some d \<Rightarrow> kind_fits sub d f)"

lemma policy_simps:
  "singular_tags lookup [] = []" "oneof_fields lookup [] = []"
  "lookup (wf_tag f) = None \<Longrightarrow> singular_tags lookup (f # fs) = singular_tags lookup fs"
  "lookup (wf_tag f) = None \<Longrightarrow> oneof_fields lookup (f # fs) = oneof_fields lookup fs"
  "lookup (wf_tag f) = Some d \<Longrightarrow> singular_tags lookup (f # fs) =
    (if pb_htype d = HT_REPEATED then [] else [wf_tag f]) @ singular_tags lookup fs"
  "lookup (wf_tag f) = Some d \<Longrightarrow> oneof_fields lookup (f # fs) =
    (if pb_htype d = HT_ONEOF then [f] else []) @ oneof_fields lookup fs"
  by (simp_all add: singular_tags_def oneof_fields_def)

lemma validate_fields_iff:
  "distinct singular \<Longrightarrow> length singular \<le> 128 \<Longrightarrow>
   validate_fields lookup sub r singular oneof_seen \<longleftrightarrow>
   (\<exists>fs. read_fields r = Some fs \<and> distinct (singular @ singular_tags lookup fs) \<and>
      length (singular @ singular_tags lookup fs) \<le> 128 \<and>
      length (oneof_fields lookup fs) + (if oneof_seen then 1 else 0) \<le> 1 \<and>
      list_all (field_allowed lookup sub) fs)"
proof (induction lookup sub r singular oneof_seen rule: validate_fields.induct)
  case (1 lookup sub r singular oneof_seen)
  show ?case
  proof (cases "wr_ok r")
    case False
    then show ?thesis by (simp add: validate_fields.simps [of _ _ r] read_fields.simps [of r])
  next
    case ok: True
    obtain n r' where n: "next_field r = (n, r')" by fastforce
    show ?thesis
    proof (cases n)
      case None
      then show ?thesis
        using n ok 1(3,4) by (simp add: validate_fields.simps [of _ _ r] read_fields.simps [of r] policy_simps)
    next
      case (Some f)
      have read: "(\<exists>fs. read_fields r = Some fs \<and> Q fs) \<longleftrightarrow>
          (\<exists>fs. read_fields r' = Some fs \<and> Q (f # fs))" for Q
        using n Some ok by (subst read_fields.simps) auto
      show ?thesis
      proof (cases "lookup (wf_tag f)")
        case None
        have "validate_fields lookup sub r singular oneof_seen = validate_fields lookup sub r' singular oneof_seen"
          using n Some ok None by (subst validate_fields.simps) simp
        then show ?thesis
          using 1(1) [OF _ n [symmetric] Some None 1(3,4)] ok
          by (simp add: read policy_simps None field_allowed_def)
      next
        case d: (Some d)
        let ?rep = "pb_htype d = HT_REPEATED" and ?one = "pb_htype d = HT_ONEOF"
        let ?s = "if ?rep then singular else singular @ [wf_tag f]"
        show ?thesis
        proof (cases "\<not> ?rep \<and> (wf_tag f \<in> set singular \<or> length singular = 128) \<or> ?one \<and> oneof_seen")
          case True
          then have "\<not> validate_fields lookup sub r singular oneof_seen"
            using n Some ok d by (subst validate_fields.simps) (auto simp: Let_def)
          moreover have "\<not> (distinct (singular @ singular_tags lookup (f # fs)) \<and>
              length (singular @ singular_tags lookup (f # fs)) \<le> 128 \<and>
              length (oneof_fields lookup (f # fs)) + (if oneof_seen then 1 else 0) \<le> 1)" for fs
            unfolding policy_simps(5,6) [of lookup f d, OF d] using True by auto
          ultimately show ?thesis unfolding read by blast
        next
          case False
          then have v: "validate_fields lookup sub r singular oneof_seen \<longleftrightarrow>
              kind_fits sub d f \<and> validate_fields lookup sub r' ?s (oneof_seen \<or> ?one)"
            using n Some ok d by (subst validate_fields.simps) (auto simp: Let_def)
          have s: "distinct ?s" "length ?s \<le> 128" using False 1(3,4) by auto
          have "distinct (singular @ singular_tags lookup (f # fs)) = distinct (?s @ singular_tags lookup fs)"
            "length (singular @ singular_tags lookup (f # fs)) = length (?s @ singular_tags lookup fs)"
            "length (oneof_fields lookup (f # fs)) + (if oneof_seen then 1 else 0) =
              length (oneof_fields lookup fs) + (if oneof_seen \<or> ?one then 1 else 0)"
            "list_all (field_allowed lookup sub) (f # fs) \<longleftrightarrow>
              kind_fits sub d f \<and> list_all (field_allowed lookup sub) fs" for fs
            unfolding policy_simps(5,6) [of lookup f d, OF d] using False d
            by (simp_all add: field_allowed_def) blast
          note step = this
          have IH: "validate_fields lookup sub r' ?s (oneof_seen \<or> ?one) \<longleftrightarrow>
            (\<exists>fs. read_fields r' = Some fs \<and> distinct (?s @ singular_tags lookup fs) \<and>
              length (?s @ singular_tags lookup fs) \<le> 128 \<and>
              length (oneof_fields lookup fs) + (if oneof_seen \<or> ?one then 1 else 0) \<le> 1 \<and>
              list_all (field_allowed lookup sub) fs)"
            using 1(2) [OF _ n [symmetric] Some d refl _ refl _ s] ok False by blast
          show ?thesis unfolding v IH read step by blast
        qed
      qed
    qed
  qed
qed

lemma validate_wire_iff:
  "validate_wire descr (Some s) bytes \<longleftrightarrow> length bytes \<le> 239 \<and>
    (\<exists>fs. list_all field_ok fs \<and> bytes = put_fields fs \<and>
       distinct (singular_tags (descr s) fs) \<and> length (singular_tags (descr s) fs) \<le> 128 \<and>
       length (oneof_fields (descr s) fs) \<le> 1 \<and>
       list_all (field_allowed (descr s) (validate_wire_at descr 8)) fs)"
proof -
  have nine: "(9::nat) = Suc 8" by simp
  have "validate_fields (descr s) (validate_wire_at descr 8) (reader bytes) [] False \<longleftrightarrow>
    (\<exists>fs. wire_fields bytes = Some fs \<and> distinct (singular_tags (descr s) fs) \<and>
       length (singular_tags (descr s) fs) \<le> 128 \<and> length (oneof_fields (descr s) fs) \<le> 1 \<and>
       list_all (field_allowed (descr s) (validate_wire_at descr 8)) fs)"
    by (simp add: validate_fields_iff wire_fields_def)
  then show ?thesis
    unfolding validate_wire_def nine validate_wire_at.simps by (auto simp: wire.dec_iff)
qed

section \<open>Properties\<close>

text \<open>
  C29: \<open>varint\<close> succeeds exactly on inputs that start with the canonical base-128 encoding of a
  64-bit value: it returns that value and stops right behind it, so padded, overlong and
  truncated encodings are all refused.
\<close>

theorem varint_canonical:
  "varint (reader bytes) = (Some v, r) \<longleftrightarrow>
    (\<exists>rest. bytes = put_varint v @ rest) \<and> r = wr_skip (length (put_varint v)) (reader bytes)"
  by (simp only: varint_iff reader_facts)

text \<open>
  C4: \<open>validate_wire\<close> accepts a message exactly when it has at most 239 bytes, is the one
  canonical encoding of a list of fields, repeats no field that is not declared repeated (and
  has at most 128 of those), has at most one member of a oneof, and every declared field has
  the wire type and value its kind allows, submessages recursively.
\<close>

theorem wire_policy:
  "validate_wire descr (Some s) bytes \<longleftrightarrow> length bytes \<le> 239 \<and>
    (\<exists>fs. list_all field_ok fs \<and> bytes = put_fields fs \<and>
       distinct (singular_tags (descr s) fs) \<and> length (singular_tags (descr s) fs) \<le> 128 \<and>
       length (oneof_fields (descr s) fs) \<le> 1 \<and>
       list_all (field_allowed (descr s) (validate_wire_at descr 8)) fs)"
  by (rule validate_wire_iff)

text \<open>
  C28: reading a varint or a field never touches a byte outside the input: it keeps the
  input and moves the position forward, to the end at most; a field that is read lies
  between the old and the new position.
\<close>

theorem reader_in_bounds:
  assumes "wr_ok r"
  shows "wr_advance r (snd (varint r)) \<and> wr_advance r (snd (next_field r)) \<and>
    (\<forall>f. fst (next_field r) = Some f \<longrightarrow>
       (\<exists>rest. drop (wr_position r) (wr_input r) = put_field f @ rest) \<and>
       wr_position (snd (next_field r)) = wr_position r + length (put_field f))"
proof -
  have "(\<exists>rest. drop (wr_position r) (wr_input r) = put_field f @ rest) \<and>
       wr_position (snd (next_field r)) = wr_position r + length (put_field f)"
    if "fst (next_field r) = Some f" for f
    using next_field_canonical [of r f "snd (next_field r)"] assms that
    by (cases "next_field r") (auto simp: wr_rest_def wr_defs)
  then show ?thesis using varint_advance [OF assms] next_field_advance [OF assms] by blast
qed

theorem reader_in_bounds_witness:
  "wr_advance (reader [0x12, 0x02, 0x48]) (snd (next_field (reader [0x12, 0x02, 0x48])))"
  using reader_in_bounds [of "reader [0x12, 0x02, 0x48]"] by simp

end
