(* ===== verification/TextCodec.thy ===== *)
theory TextCodec
  imports Prelude
begin

text \<open>
  Text forms of bytes that several components read and write: hexadecimal digits and
  canonical Base64, with the reference encoders they invert.
\<close>

section \<open>Characters by code\<close>

definition code :: "char \<Rightarrow> nat" where
  "code c = of_char c"

definition char_between :: "char \<Rightarrow> char \<Rightarrow> char \<Rightarrow> bool" where
  "char_between lo hi c \<longleftrightarrow> code lo \<le> code c \<and> code c \<le> code hi"

lemma code_less_256: "code c < 256"
  unfolding code_def by (rule of_char_less_256)

lemma code_char_of [simp]: "n < 256 \<Longrightarrow> code (char_of n) = n"
  by (simp add: code_def of_char_of)

lemma char_of_code [simp]: "char_of (code c) = c"
  by (simp add: code_def)

lemma code_inject: "code c = code d \<longleftrightarrow> c = d"
  by (metis char_of_code)

section \<open>Hexadecimal\<close>

definition hex_digit :: "char \<Rightarrow> nat option" where
  "hex_digit c =
     (if char_between CHR ''0'' CHR ''9'' c then Some (code c - code CHR ''0'')
      else if char_between CHR ''a'' CHR ''f'' c then Some (code c - code CHR ''a'' + 10)
      else if char_between CHR ''A'' CHR ''F'' c then Some (code c - code CHR ''A'' + 10)
      else None)"

fun hex_bytes :: "string \<Rightarrow> u8 list option" where
  "hex_bytes [] = Some []"
| "hex_bytes [c] = None"
| "hex_bytes (c # d # cs) =
     (case (hex_digit c, hex_digit d) of
        (Some a, Some b) \<Rightarrow> map_option ((#) (word_of_nat (a * 16 + b))) (hex_bytes cs)
      | _ \<Rightarrow> None)"

definition hex_char :: "nat \<Rightarrow> char" where
  "hex_char v = ''0123456789abcdef'' ! v"

definition hex_encode :: "u8 list \<Rightarrow> string" where
  "hex_encode bytes = concat (map (\<lambda>b. [hex_char (unat b div 16), hex_char (unat b mod 16)]) bytes)"

lemma hex_digit_table: "list_all (\<lambda>v. hex_digit (hex_char v) = Some v) [0..<16]"
  by code_simp

lemma hex_digit_char: "v < 16 \<Longrightarrow> hex_digit (hex_char v) = Some v"
  using hex_digit_table by (simp add: list_all_iff)

lemma hex_digit_less: "hex_digit c = Some v \<Longrightarrow> v < 16"
  by (auto simp: hex_digit_def char_between_def code_def split: if_splits)

lemma length_hex_encode [simp]: "length (hex_encode bs) = 2 * length bs"
  by (induction bs) (simp_all add: hex_encode_def)

lemma byte_nibbles:
  "unat (b :: u8) div 16 < 16" "unat b mod 16 < 16" "word_of_nat (unat b div 16 * 16 + unat b mod 16) = b"
proof -
  have "unat b < 256" by (rule order.strict_trans2 [OF unsigned_less]) simp
  then show "unat b div 16 < 16" by (simp add: div_less_iff_less_mult)
  show "word_of_nat (unat b div 16 * 16 + unat b mod 16) = b"
    by (simp only: div_mult_mod_eq) simp
qed simp

lemma hex_bytes_encode: "hex_bytes (hex_encode bs) = Some bs"
proof (induction bs)
  case (Cons b bs)
  have "hex_encode (b # bs) = hex_char (unat b div 16) # hex_char (unat b mod 16) # hex_encode bs"
    by (simp add: hex_encode_def)
  then show ?case
    using Cons by (simp only: hex_bytes.simps hex_digit_char [OF byte_nibbles(1)]
        hex_digit_char [OF byte_nibbles(2)] byte_nibbles(3)) simp
qed (simp add: hex_encode_def)

lemma hex_bytes_length: "hex_bytes cs = Some bs \<Longrightarrow> length cs = 2 * length bs"
  by (induction cs arbitrary: bs rule: hex_bytes.induct) (auto split: option.splits)

interpretation hex: codec hex_encode hex_bytes "\<lambda>_. True"
  by unfold_locales (rule hex_bytes_encode)

section \<open>Base64\<close>

definition base64_digit :: "char \<Rightarrow> nat option" where
  "base64_digit c =
     (if char_between CHR ''A'' CHR ''Z'' c then Some (code c - code CHR ''A'')
      else if char_between CHR ''a'' CHR ''z'' c then Some (code c - code CHR ''a'' + 26)
      else if char_between CHR ''0'' CHR ''9'' c then Some (code c - code CHR ''0'' + 52)
      else if c = CHR ''+'' then Some 62
      else if c = CHR ''/'' then Some 63
      else None)"

definition base64_char :: "nat \<Rightarrow> char" where
  "base64_char v = ''ABCDEFGHIJKLMNOPQRSTUVWXYZabcdefghijklmnopqrstuvwxyz0123456789+/'' ! v"

text \<open>
  The accumulator loop: shift in six bits, hand out a byte when eight are there. The
  accumulator is 32 bits wide and forgets the bits already handed out by wrapping.
\<close>

fun base64_loop :: "string \<Rightarrow> u32 \<Rightarrow> nat \<Rightarrow> (u8 list \<times> u32 \<times> nat) option" where
  "base64_loop [] acc bits = Some ([], acc, bits)"
| "base64_loop (c # cs) acc bits =
     (case base64_digit c of
        None \<Rightarrow> None
      | Some v \<Rightarrow>
          let acc' = push_bit 6 acc OR word_of_nat v; bits' = bits + 6 in
          if bits' \<ge> 8 then
            map_option (\<lambda>(out, rest). (ucast (drop_bit (bits' - 8) acc') # out, rest))
              (base64_loop cs acc' (bits' - 8))
          else base64_loop cs acc' bits')"

lemma base64_char_codes: "list_all (\<lambda>v. base64_char v = char_of (if v < 26 then v + 65 else if v < 52 then v + 71
    else if v < 62 then v - 4 else if v = 62 then 43 else 47 :: nat)) [0..<64]"
  by code_simp

lemma base64_char_code: "v < 64 \<Longrightarrow> base64_char v = char_of (if v < 26 then v + 65 else if v < 52 then v + 71
    else if v < 62 then v - 4 else if v = 62 then 43 else 47 :: nat)"
  using base64_char_codes by (simp add: list_all_iff)

lemma base64_literals:
  "code CHR ''A'' = 65" "code CHR ''Z'' = 90" "code CHR ''a'' = 97" "code CHR ''z'' = 122"
  "code CHR ''0'' = 48" "code CHR ''9'' = 57" "code CHR ''+'' = 43" "code CHR ''/'' = 47"
  by (simp_all add: code_def)

lemma base64_digit_char:
  assumes "v < 64"
  shows "base64_digit (base64_char v) = Some v"
proof -
  let ?n = "if v < 26 then v + 65 else if v < 52 then v + 71 else if v < 62 then v - 4 else if v = 62 then 43 else 47"
  have n: "code (base64_char v) = ?n"
    unfolding base64_char_code [OF assms] using assms by (intro code_char_of) auto
  have "base64_char v = CHR ''+'' \<longleftrightarrow> ?n = 43" "base64_char v = CHR ''/'' \<longleftrightarrow> ?n = 47"
    using n base64_literals(7,8) by (metis code_inject)+
  then show ?thesis
    using assms n by (auto simp: base64_digit_def char_between_def base64_literals split: if_splits)
qed

lemma base64_digit_inverse:
  assumes "base64_digit c = Some v"
  shows "v < 64" "c = base64_char v"
proof -
  have c: "v < 64 \<and> code c = (if v < 26 then v + 65 else if v < 52 then v + 71
      else if v < 62 then v - 4 else if v = 62 then 43 else 47)"
    using assms
    by (auto simp: base64_digit_def char_between_def base64_literals split: if_splits)
  then show v: "v < 64" by simp
  have "c = char_of (code c)" by simp
  then show "c = base64_char v" using c base64_char_code [OF v] by simp
qed


text \<open>
  The loop only depends on the \<open>bits\<close> low bits of its accumulator: the same loop on naturals.
\<close>

fun sextet_loop :: "nat list \<Rightarrow> nat \<Rightarrow> nat \<Rightarrow> nat list \<times> nat \<times> nat" where
  "sextet_loop [] low bits = ([], low, bits)"
| "sextet_loop (v # vs) low bits =
     (let n = low * 64 + v in
      if bits \<ge> 2 then
        (case sextet_loop vs (n mod 2 ^ (bits - 2)) (bits - 2) of (out, rest) \<Rightarrow>
           (n div 2 ^ (bits - 2) # out, rest))
      else sextet_loop vs n (bits + 6))"

lemma unat_shift_in:
  assumes "v < 64"
  shows "unat (push_bit 6 acc OR word_of_nat v :: u32) = (unat acc * 64 + v) mod 2 ^ 32"
proof -
  have "\<not> bit (word_of_nat v :: u32) k" if "6 \<le> k" for k
    using that assms nat_less_2p_iff_bits [of v 6] by (simp add: bit_of_nat_iff)
  then have "push_bit 6 acc AND word_of_nat v = (0 :: u32)"
    by (intro bit_word_eqI) (auto simp: bit_and_iff bit_push_bit_iff)
  then have "push_bit 6 acc OR word_of_nat v = push_bit 6 acc + (word_of_nat v :: u32)"
    by (simp add: disjunctive_add_eq_or)
  also have "\<dots> = word_of_nat (unat acc * 64 + v)" by (simp add: push_bit_eq_mult)
  finally have e: "push_bit 6 acc OR word_of_nat v = (word_of_nat (unat acc * 64 + v) :: u32)" .
  have "unat (word_of_nat m :: u32) = m mod 2 ^ 32" for m
    by (simp add: unat_of_nat)
  then show ?thesis unfolding e .
qed

lemma mod_2p_low: "k \<le> 32 \<Longrightarrow> (m mod 2 ^ 32) mod 2 ^ k = (m :: nat) mod 2 ^ k"
  by (rule mod_mod_cancel) (rule le_imp_power_dvd)

lemma base64_loop_low:
  assumes "list_all2 (\<lambda>c v. base64_digit c = Some v) cs vs" "bits < 8" "unat acc mod 2 ^ bits = low"
  shows "\<exists>acc'. base64_loop cs acc bits =
      Some (map word_of_nat (fst (sextet_loop vs low bits)), acc', snd (snd (sextet_loop vs low bits))) \<and>
    unat acc' mod 2 ^ snd (snd (sextet_loop vs low bits)) = fst (snd (sextet_loop vs low bits)) \<and>
    snd (snd (sextet_loop vs low bits)) < 8"
  using assms
proof (induction arbitrary: acc bits low rule: list_all2_induct)
  case Nil
  then show ?case by simp
next
  case (Cons c cs v vs)
  have v: "v < 64" using Cons.hyps(1) base64_digit_inverse(1) by blast
  define acc' where "acc' = push_bit 6 acc OR (word_of_nat v :: u32)"
  define n where "n = low * 64 + v"
  have n: "unat acc' mod 2 ^ (bits + 6) = n"
  proof -
    have "unat acc' mod 2 ^ (bits + 6) = (unat acc * 64 + v) mod 2 ^ (bits + 6)"
      unfolding acc'_def unat_shift_in [OF v] using Cons.prems(1) by (intro mod_2p_low) simp
    also have "\<dots> = ((unat acc mod 2 ^ bits) * 64 + v) mod 2 ^ (bits + 6)"
    proof -
      have "(unat acc mod 2 ^ bits) * 64 = (unat acc * 64) mod 2 ^ (bits + 6)"
        by (simp add: mult_mod_left power_add)
      then show ?thesis by (simp only: mod_add_left_eq)
    qed
    also have "\<dots> = n"
    proof -
      have "low < 2 ^ bits" using Cons.prems(2) by auto
      then have "(low + 1) * 64 \<le> 2 ^ bits * 64" by (intro mult_le_mono1) simp
      then have "low * 64 + v < 2 ^ (bits + 6)" using v by (simp add: power_add)
      then show ?thesis using Cons.prems(2) by (simp add: n_def)
    qed
    finally show ?thesis .
  qed
  show ?case
  proof (cases "2 \<le> bits")
    case True
    define j where "j = bits - 2"
    have j: "bits + 6 = j + 8" "j < 8" using True Cons.prems(1) by (auto simp: j_def)
    have low: "unat acc' mod 2 ^ j = n mod 2 ^ j"
      unfolding n [symmetric] by (simp add: j mod_mod_cancel le_imp_power_dvd)
    have byte: "(ucast (drop_bit j acc') :: u8) = word_of_nat (n div 2 ^ j)"
    proof -
      have "drop_bit j (unat acc') mod 2 ^ 8 = (unat acc' mod 2 ^ (j + 8)) div 2 ^ j"
        by (simp add: drop_bit_eq_div mod_mult2_eq power_add)
      then have "drop_bit j (unat acc') mod 2 ^ 8 = n div 2 ^ j" using n by (simp only: j)
      moreover have "(ucast (drop_bit j acc') :: u8) = word_of_nat (drop_bit j (unat acc'))"
        by (rule bit_word_eqI) (simp add: bit_unsigned_iff bit_of_nat_iff bit_drop_bit_eq bit_unat)
      moreover have "(word_of_nat (m mod 2 ^ 8) :: u8) = word_of_nat m" for m
        by (simp add: word_unat_eq_iff unat_of_nat)
      ultimately show ?thesis by metis
    qed
    obtain a where "base64_loop cs acc' j =
        Some (map word_of_nat (fst (sextet_loop vs (n mod 2 ^ j) j)), a, snd (snd (sextet_loop vs (n mod 2 ^ j) j)))"
      "unat a mod 2 ^ snd (snd (sextet_loop vs (n mod 2 ^ j) j)) = fst (snd (sextet_loop vs (n mod 2 ^ j) j))"
      "snd (snd (sextet_loop vs (n mod 2 ^ j) j)) < 8"
      using Cons.IH [OF j(2) low] by blast
    then show ?thesis
      using True Cons.hyps(1) byte j
      by (auto simp: Let_def acc'_def [symmetric] n_def [symmetric] j_def [symmetric] split: prod.splits)
  next
    case False
    then have "bits + 6 < 8" by simp
    from Cons.IH [OF this n] False Cons.hyps(1) show ?thesis
      by (simp add: Let_def acc'_def [symmetric] n_def [symmetric])
  qed
qed

text \<open>The reference encoder: three bytes as four digits, the last group padded.\<close>

fun base64_digits :: "nat list \<Rightarrow> nat list" where
  "base64_digits [] = []"
| "base64_digits [a] = [a div 4, a mod 4 * 16]"
| "base64_digits [a, b] = [a div 4, a mod 4 * 16 + b div 16, b mod 16 * 4]"
| "base64_digits (a # b # c # r) =
     [a div 4, a mod 4 * 16 + b div 16, b mod 16 * 4 + c div 64, c mod 64] @ base64_digits r"

definition base64_unpadded :: "u8 list \<Rightarrow> string" where
  "base64_unpadded bytes = map base64_char (base64_digits (map unat bytes))"

definition base64_padding :: "nat \<Rightarrow> string" where
  "base64_padding n = replicate ((3 - n mod 3) mod 3) CHR ''=''"

definition base64_encode :: "u8 list \<Rightarrow> string" where
  "base64_encode bytes = base64_unpadded bytes @ base64_padding (length bytes)"

text \<open>Arithmetic of the digit boundaries.\<close>

lemma join_div_mod:
  assumes "(lo :: nat) < m"
  shows "(hi * m + lo) div m = hi" "(hi * m + lo) mod m = lo"
  using assms by simp_all

lemma carry_div_mod:
  assumes "0 < (m :: nat)"
  shows "(v * (k * m) + w) div m = v * k + w div m" "(v * (k * m) + w) mod m = w mod m"
proof -
  have e: "v * (k * m) + w = w + v * k * m" by simp
  show "(v * (k * m) + w) div m = v * k + w div m" "(v * (k * m) + w) mod m = w mod m"
    unfolding e using assms div_mult_self1 [of m w "v * k"] mod_mult_self1 [of w "v * k" m] by linarith+
qed

lemma sextet_joins:
  "(v * 64 + w) div 16 = v * 4 + w div 16" "(v * 64 + w) mod 16 = w mod (16 :: nat)"
  "(v * 64 + w) div 4 = v * 16 + w div 4" "(v * 64 + w) mod 4 = w mod (4 :: nat)"
  using carry_div_mod [of 16 v 4 w] carry_div_mod [of 4 v 16 w] by simp_all

lemma sextet_loop_quad:
  "sextet_loop (v # w # x # y # vs) 0 0 =
    (case sextet_loop vs 0 0 of (out, rest) \<Rightarrow>
      ((v * 4 + w div 16) # (w mod 16 * 16 + x div 4) # (x mod 4 * 64 + y) # out, rest))"
  by (simp add: Let_def sextet_joins split: prod.splits)

lemma sextet_loop_tail:
  "sextet_loop [v, w] 0 0 = ([v * 4 + w div 16], w mod 16, 4)"
  "sextet_loop [v, w, x] 0 0 = ([v * 4 + w div 16, w mod 16 * 16 + x div 4], x mod 4, 2)"
  by (simp_all add: Let_def sextet_joins)

lemma digit_bounds:
  assumes "(a :: nat) < 256"
  shows "a div 4 < 64" "a div 16 < 16" "a div 64 < 4" "a mod 4 < 4" "a mod 16 < 16" "a mod 64 < 64"
  using assms by (simp_all add: div_less_iff_less_mult)

lemma digit_sums:
  assumes "(a :: nat) < 256" "b < 256"
  shows "a mod 4 * 16 < 64" "a mod 4 * 16 + b div 16 < 64" "a mod 16 * 4 < 64" "a mod 16 * 4 + b div 64 < 64"
  using digit_bounds [OF assms(1)] digit_bounds [OF assms(2)] by linarith+

lemma base64_digits_less: "list_all (\<lambda>a. a < 256) ns \<Longrightarrow> list_all (\<lambda>v. v < 64) (base64_digits ns)"
  by (induction ns rule: base64_digits.induct) (simp_all add: digit_bounds digit_sums)

lemma sextet_loop_digits:
  "list_all (\<lambda>a. a < 256) ns \<Longrightarrow>
    sextet_loop (base64_digits ns) 0 0 = (ns, 0, (if length ns mod 3 = 1 then 4 else if length ns mod 3 = 2 then 2 else 0))"
proof (induction ns rule: base64_digits.induct)
  case (2 a)
  then show ?case
    by (simp add: sextet_loop_tail digit_bounds del: sextet_loop.simps)
next
  case (3 a b)
  then show ?case
    using join_div_mod [OF digit_bounds(2), of b "a mod 4"]
    by (simp add: sextet_loop_tail del: sextet_loop.simps)
next
  case (4 a b c r)
  then show ?case
    using join_div_mod [OF digit_bounds(2), of b "a mod 4"] join_div_mod [OF digit_bounds(3), of c "b mod 16"]
    by (simp add: sextet_loop_quad del: sextet_loop.simps)
qed simp

text \<open>And back: digits whose unused low bits are zero are the digits of their bytes.\<close>

fun in_quads :: "nat list \<Rightarrow> bool" where
  "in_quads [] = True"
| "in_quads [v] = False"
| "in_quads [v, w] = True"
| "in_quads [v, w, x] = True"
| "in_quads (v # w # x # y # vs) = in_quads vs"

lemma in_quads_iff: "in_quads vs \<longleftrightarrow> length vs mod 4 \<noteq> 1"
  by (induction vs rule: in_quads.induct) simp_all

lemma byte_sums:
  assumes "(v :: nat) < 64" "w < 64"
  shows "v * 4 + w div 16 < 256" "v mod 16 * 16 + w div 4 < 256" "v mod 4 * 64 + w < 256"
    "w div 16 < 4" "w div 4 < 16"
proof -
  have "w div 16 < 4" "w div 4 < 16" "v mod 16 < 16" "v mod 4 < 4"
    using assms by (simp_all add: div_less_iff_less_mult)
  then show "v * 4 + w div 16 < 256" "v mod 16 * 16 + w div 4 < 256" "v mod 4 * 64 + w < 256"
    "w div 16 < 4" "w div 4 < 16" using assms by linarith+
qed

lemma sextet_loop_inverse:
  "in_quads vs \<Longrightarrow> list_all (\<lambda>v. v < 64) vs \<Longrightarrow> sextet_loop vs 0 0 = (out, 0, bits) \<Longrightarrow>
    base64_digits out = vs \<and> list_all (\<lambda>a. a < 256) out"
proof (induction vs arbitrary: out rule: in_quads.induct)
  case (3 v w)
  then have b: "v < 64" "w < 64" by simp_all
  from 3 have "out = [v * 4 + w div 16]" "w mod 16 = 0"
    by (simp_all add: sextet_loop_tail del: sextet_loop.simps)
  then show ?case
    using byte_sums [OF b] join_div_mod [OF byte_sums(4) [OF b], of v] div_mult_mod_eq [of w 16]
    by (simp del: div_mult_mod_eq)
next
  case (4 v w x)
  then have b: "v < 64" "w < 64" "x < 64" by simp_all
  from 4 have out: "out = [v * 4 + w div 16, w mod 16 * 16 + x div 4]" "x mod 4 = 0"
    by (simp_all add: sextet_loop_tail del: sextet_loop.simps)
  have "w div 16 * 16 + w mod 16 = w" "x div 4 * 4 = x" using out(2) by auto
  then show ?case
    using byte_sums [OF b(1,2)] byte_sums [OF b(2,3)] join_div_mod [OF byte_sums(4) [OF b(1,2)], of v]
      join_div_mod [OF byte_sums(5) [OF b(2,3)], of "w mod 16"]
    by (simp add: out(1))
next
  case (5 v w x y vs)
  then have b: "v < 64" "w < 64" "x < 64" "y < 64" by simp_all
  obtain out' where o': "sextet_loop vs 0 0 = (out', 0, bits)"
    and out: "out = (v * 4 + w div 16) # (w mod 16 * 16 + x div 4) # (x mod 4 * 64 + y) # out'"
    using 5(4) by (auto simp: sextet_loop_quad simp del: sextet_loop.simps split: prod.splits)
  have "w div 16 * 16 + w mod 16 = w" "x div 4 * 4 + x mod 4 = x" by simp_all
  then show ?case
    using 5(1) [OF _ _ o'] 5(2,3) byte_sums [OF b(1,2)] byte_sums [OF b(2,3)] byte_sums [OF b(3,4)]
      join_div_mod [OF byte_sums(4) [OF b(1,2)], of v] join_div_mod [OF byte_sums(5) [OF b(2,3)], of "w mod 16"]
      join_div_mod [OF b(4), of "x mod 4"]
    by (simp add: out)
qed simp_all

end
