(* ===== verification/Protocol.thy ===== *)
theory Protocol
  imports ProtobufGuard TextCodec
begin

text \<open>
  Frame classification, \<open>src/protocol.cpp\<close>: channel keys and their two text forms, the nonce
  and channel hash of the wire format, the plausibility test on decrypted envelopes, and
  \<open>classify_meshtastic\<close> over a keyring. The cipher of OpenSSL is an argument \<open>ctr\<close> (key, nonce
  and data to data); the nanopb decoder is modelled for the fields of the \<open>Data\<close> message the
  program reads. The main results: no evidence without a passing radio CRC and an eligible
  key, a verdict that depends only on the set of eligible keys, and the round trip of the
  synthetic frame.
\<close>

section \<open>Channel keys\<close>

text \<open>\<open>ChannelKey::bytes\<close>; a key that was moved from is empty.\<close>

type_synonym channel_key = "u8 list"

definition key_from_hex :: "string \<Rightarrow> channel_key option" where
  "key_from_hex hex = (if length hex \<noteq> 32 \<and> length hex \<noteq> 64 then None else hex_bytes hex)"

definition key_from_user_input :: "string \<Rightarrow> channel_key option" where
  "key_from_user_input input =
     (if length input = 32 \<or> length input = 64 then key_from_hex input
      else if input = ''AQ=='' then key_from_hex ''d4f1bb3a20290759f0bcffabcf4e6901''
      else let aes128 = (length input = 24) in
        if \<not> aes128 \<and> length input \<noteq> 44 then None
        else let data_chars = (if aes128 then 22 else 43) in
          if drop data_chars input \<noteq> (if aes128 then ''=='' else ''='') then None
          else case base64_loop (take data_chars input) 0 0 of
            None \<Rightarrow> None
          | Some (bytes, acc, bits) \<Rightarrow>
              if acc AND (push_bit bits 1 - 1) \<noteq> 0 then None else Some bytes)"

definition channel_hash :: "string \<Rightarrow> channel_key \<Rightarrow> u8" where
  "channel_hash name key = fold (XOR) key (fold (\<lambda>c h. h XOR byte_of c) name 0)"

section \<open>Words on the wire\<close>

definition le32 :: "u8 list \<Rightarrow> u32" where
  "le32 bytes = ucast (bytes ! 0) OR push_bit 8 (ucast (bytes ! 1)) OR
     push_bit 16 (ucast (bytes ! 2)) OR push_bit 24 (ucast (bytes ! 3))"

definition put32 :: "u32 \<Rightarrow> u8 list" where
  "put32 v = map (\<lambda>i. ucast (drop_bit (8 * i) v)) [0..<4]"

text \<open>\<open>put32\<close> at offsets 0 and 8 of sixteen zero bytes.\<close>

definition meshtastic_nonce :: "u32 \<Rightarrow> u32 \<Rightarrow> u8 list" where
  "meshtastic_nonce from_id packet_id = put32 packet_id @ replicate 4 0 @ put32 from_id @ replicate 4 0"

section \<open>Profiles and results\<close>

record profile =
  pr_id :: string
  pr_label :: string
  pr_channel_name :: string
  pr_keys :: "channel_key list"
  pr_restrict_channel_name :: bool

definition max_user_keyring_profiles :: nat where "max_user_keyring_profiles = 16"
definition max_keyring_profiles :: nat where "max_keyring_profiles = max_user_keyring_profiles + 1"
definition max_profile_keys :: nat where "max_profile_keys = 16"

datatype status = Classified | Bad_phy_crc | Invalid_frame | No_matching_key
  | Decryption_unvalidated | Unsupported_payload | Ambiguous_keys
  | Unsupported_pki | Invalid_profile | Crypto_error

fun status_name :: "status \<Rightarrow> string" where
  "status_name Classified = ''envelope validated''"
| "status_name Bad_phy_crc = ''bad phy CRC''"
| "status_name Invalid_frame = ''invalid frame''"
| "status_name No_matching_key = ''no matching key''"
| "status_name Decryption_unvalidated = ''decryption unvalidated''"
| "status_name Unsupported_payload = ''unsupported payload''"
| "status_name Ambiguous_keys = ''ambiguous keys''"
| "status_name Unsupported_pki = ''unsupported PKI''"
| "status_name Invalid_profile = ''invalid profile''"
| "status_name Crypto_error = ''crypto error''"

record evidence =
  ev_port :: u32
  ev_signature :: bool

record decode_result =
  dr_status :: status
  dr_classification :: string
  dr_authentication :: string
  dr_evidence :: "evidence option"

definition fresh_result :: decode_result where
  "fresh_result = \<lparr>dr_status = Invalid_frame, dr_classification = ''unknown LoRa'',
     dr_authentication = ''not authenticated'', dr_evidence = None\<rparr>"

definition public_meshtastic_profile :: profile where
  "public_meshtastic_profile =
     \<lparr>pr_id = ''public-meshtastic'', pr_label = ''Public Meshtastic'', pr_channel_name = [],
      pr_keys = [the (key_from_user_input ''AQ=='')], pr_restrict_channel_name = False\<rparr>"

definition synthetic_profile :: profile where
  "synthetic_profile =
     \<lparr>pr_id = ''synthetic-demo'', pr_label = ''Synthetic demo only'', pr_channel_name = ''OVMeshSynthetic'',
      pr_keys = [the (key_from_hex ''000102030405060708090a0b0c0d0e0f'')], pr_restrict_channel_name = True\<rparr>"

section \<open>The Data envelope\<close>

text \<open>The descriptor of \<open>meshtastic.Data\<close> as generated; it has no submessage.\<close>

datatype message_type = Data_message

definition data_descriptor :: "message_type \<Rightarrow> u32 \<Rightarrow> message_type pb_field option" where
  "data_descriptor m tag =
     (let singular = (\<lambda>t size. Some \<lparr>pb_ltype = t, pb_htype = HT_OPTIONAL, pb_data_size = size, pb_submsg = None\<rparr>) in
      if tag = 1 then singular LT_UVARINT 4
      else if tag = 2 then singular LT_BYTES 236
      else if tag = 3 then singular LT_BOOL 1
      else if tag \<in> {4, 5, 6, 7, 8} then singular LT_FIXED32 4
      else if tag = 9 then singular LT_UVARINT 4
      else if tag = 10 then singular LT_BYTES 66
      else None)"

record data_message =
  dm_portnum :: u32
  dm_payload_size :: nat
  dm_signature_size :: nat

text \<open>
  \<open>pb_decode\<close> of one field: the port must fit 32 bits, byte arrays with their two-byte size
  must fit their slots; the other fields are not read by the program.
\<close>

definition decode_data_field :: "wire_field \<Rightarrow> data_message \<Rightarrow> data_message option" where
  "decode_data_field f m =
     (if wf_tag f = 1 then
        (if wf_value f \<le> 0xffffffff then Some (m\<lparr>dm_portnum := ucast (wf_value f)\<rparr>) else None)
      else if wf_tag f = 2 then
        (if 2 + length (wf_bytes f) \<le> 236 then Some (m\<lparr>dm_payload_size := length (wf_bytes f)\<rparr>) else None)
      else if wf_tag f = 10 then
        (if 2 + length (wf_bytes f) \<le> 66 then Some (m\<lparr>dm_signature_size := length (wf_bytes f)\<rparr>) else None)
      else Some m)"

fun decode_data_fields :: "wire_field list \<Rightarrow> data_message \<Rightarrow> data_message option" where
  "decode_data_fields [] m = Some m"
| "decode_data_fields (f # fs) m =
     (case decode_data_field f m of None \<Rightarrow> None | Some m' \<Rightarrow> decode_data_fields fs m')"

definition decode_data :: "u8 list \<Rightarrow> data_message option" where
  "decode_data bytes =
     (if \<not> validate_wire data_descriptor (Some Data_message) bytes then None
      else case wire_fields bytes of
        None \<Rightarrow> None
      | Some fs \<Rightarrow> decode_data_fields fs \<lparr>dm_portnum = 0, dm_payload_size = 0, dm_signature_size = 0\<rparr>)"

definition parse_data :: "u8 list \<Rightarrow> evidence option" where
  "parse_data bytes =
     (case decode_data bytes of
        None \<Rightarrow> None
      | Some m \<Rightarrow>
          let port = dm_portnum m in
          if port = 0 \<or> port > 65535 \<or> dm_payload_size m > 233 \<or>
             (dm_signature_size m \<noteq> 0 \<and> dm_signature_size m \<noteq> 64) then None
          else if \<not> has_wire_field bytes 2 \<and> port \<noteq> 70 then None
          else Some \<lparr>ev_port = port, ev_signature = dm_signature_size m \<noteq> 0\<rparr>)"

definition recognized_port :: "u32 \<Rightarrow> bool" where
  "recognized_port port \<longleftrightarrow> port \<in> {1, 3, 4, 5, 67, 70}"

section \<open>Decryption and classification\<close>

type_synonym cipher = "channel_key \<Rightarrow> u8 list \<Rightarrow> u8 list \<Rightarrow> u8 list option"

definition crypt :: "cipher \<Rightarrow> u8 list \<Rightarrow> channel_key \<Rightarrow> u8 list \<Rightarrow> u8 list option" where
  "crypt ctr input key nonce =
     (if length input > 255 then None
      else if length key \<noteq> 16 \<and> length key \<noteq> 32 then None
      else case ctr key nonce input of
        None \<Rightarrow> None
      | Some out \<Rightarrow> if length out = length input then Some out else None)"

definition profile_valid :: "profile \<Rightarrow> bool" where
  "profile_valid p \<longleftrightarrow> \<not> ((pr_restrict_channel_name p \<and> pr_channel_name p = []) \<or>
     length (pr_channel_name p) > 32 \<or> pr_id p = [] \<or> length (pr_id p) > 128 \<or>
     length (pr_keys p) > max_profile_keys) \<and>
     list_all (\<lambda>k. length k = 16 \<or> length k = 32) (pr_keys p)"

text \<open>The two nested loops, over profiles and over their keys, as one list of attempts.\<close>

definition attempts :: "profile list \<Rightarrow> (profile \<times> channel_key) list" where
  "attempts ps = concat (map (\<lambda>p. map (Pair p) (pr_keys p)) ps)"

definition eligible :: "u8 list \<Rightarrow> profile \<times> channel_key \<Rightarrow> bool" where
  "eligible frame a \<longleftrightarrow>
     \<not> (pr_restrict_channel_name (fst a) \<and> channel_hash (pr_channel_name (fst a)) (snd a) \<noteq> frame ! 13)"

definition decrypt_frame :: "cipher \<Rightarrow> u8 list \<Rightarrow> channel_key \<Rightarrow> u8 list option" where
  "decrypt_frame ctr frame key =
     crypt ctr (drop 16 frame) key (meshtastic_nonce (le32 (drop 4 frame)) (le32 (drop 8 frame)))"

text \<open>
  The loop body: \<open>matched\<close>, and \<open>best\<close> for \<open>plausible\<close>, \<open>successful_key\<close> and the evidence,
  which the code sets together. A result on the left is an early return.
\<close>

fun try_keys ::
  "cipher \<Rightarrow> u8 list \<Rightarrow> (profile \<times> channel_key) list \<Rightarrow> bool \<Rightarrow> (channel_key \<times> evidence) option \<Rightarrow>
    status + bool \<times> (channel_key \<times> evidence) option" where
  "try_keys ctr frame [] matched best = Inr (matched, best)"
| "try_keys ctr frame (a # rest) matched best =
     (if \<not> eligible frame a then try_keys ctr frame rest matched best
      else if map_option fst best = Some (snd a) then try_keys ctr frame rest True best
      else case decrypt_frame ctr frame (snd a) of
        None \<Rightarrow> Inl Crypto_error
      | Some plain \<Rightarrow>
          (case parse_data plain of
             None \<Rightarrow> try_keys ctr frame rest True best
           | Some candidate \<Rightarrow>
               if best \<noteq> None then Inl Ambiguous_keys
               else try_keys ctr frame rest True (Some (snd a, candidate))))"

definition verdict :: "bool \<times> (channel_key \<times> evidence) option \<Rightarrow> decode_result" where
  "verdict s = (case s of (matched, best) \<Rightarrow>
     (case best of
        Some (k, e) \<Rightarrow>
          if recognized_port (ev_port e)
          then fresh_result\<lparr>dr_status := Classified, dr_classification := ''likely Meshtastic'', dr_evidence := Some e\<rparr>
          else fresh_result\<lparr>dr_status := Unsupported_payload, dr_classification := ''possible Meshtastic'', dr_evidence := Some e\<rparr>
      | None \<Rightarrow> fresh_result\<lparr>dr_status := (if matched then Decryption_unvalidated else No_matching_key)\<rparr>))"

definition classify_meshtastic :: "cipher \<Rightarrow> u8 list \<Rightarrow> bool \<Rightarrow> profile list \<Rightarrow> decode_result" where
  "classify_meshtastic ctr frame crc ps =
     (if \<not> crc then fresh_result\<lparr>dr_status := Bad_phy_crc\<rparr>
      else if length frame \<le> 16 \<or> length frame > 255 then fresh_result
      else if length ps > max_keyring_profiles then fresh_result\<lparr>dr_status := Invalid_profile\<rparr>
      else if \<not> list_all profile_valid ps then fresh_result\<lparr>dr_status := Invalid_profile\<rparr>
      else let dest = le32 frame; source = le32 (drop 4 frame) in
        if source = 0 \<or> source = 0xffffffff \<or> dest = 0 then fresh_result
        else if frame ! 13 = 0 \<and> dest \<noteq> 0xffffffff then fresh_result\<lparr>dr_status := Unsupported_pki\<rparr>
        else case try_keys ctr frame (attempts ps) False None of
          Inl s \<Rightarrow> fresh_result\<lparr>dr_status := s\<rparr>
        | Inr s \<Rightarrow> verdict s)"

text \<open>The overload for one profile.\<close>

definition classify_with_profile :: "cipher \<Rightarrow> u8 list \<Rightarrow> bool \<Rightarrow> profile \<Rightarrow> decode_result" where
  "classify_with_profile ctr frame crc p = classify_meshtastic ctr frame crc [p]"

section \<open>The synthetic frame\<close>

definition synthetic_plaintext :: "string \<Rightarrow> u8 list" where
  "synthetic_plaintext txt = [8, 1, 18] @
     (if length txt > 127 then [(word_of_nat (length txt) AND 127) OR 128, 1] else [word_of_nat (length txt)]) @
     map byte_of txt"

definition synthetic_text_frame :: "cipher \<Rightarrow> profile \<Rightarrow> u32 \<Rightarrow> string \<Rightarrow> u8 list" where
  "synthetic_text_frame ctr p packet_id txt =
     (if length (pr_keys p) \<noteq> 1 \<or> txt = [] \<or> length txt > 233 then []
      else let key = hd (pr_keys p); plain = synthetic_plaintext txt;
        head = put32 0xffffffff @ put32 0x10203040 @ put32 packet_id @
               [0x63, channel_hash (pr_channel_name p) key, 0, 0]
        in case crypt ctr plain key (meshtastic_nonce 0x10203040 packet_id) of
             None \<Rightarrow> []
           | Some cipher_text \<Rightarrow> head @ cipher_text)"

section \<open>What the key loop finds\<close>

lemma parse_data_range: "parse_data bytes = Some e \<Longrightarrow> ev_port e \<noteq> 0 \<and> ev_port e \<le> 65535"
  by (auto simp: parse_data_def Let_def not_less split: option.splits if_splits)

definition opens :: "cipher \<Rightarrow> u8 list \<Rightarrow> channel_key \<Rightarrow> evidence \<Rightarrow> bool" where
  "opens ctr frame k e \<longleftrightarrow> (\<exists>plain. decrypt_frame ctr frame k = Some plain \<and> parse_data plain = Some e)"

lemma opens_unique: "opens ctr frame k e \<Longrightarrow> opens ctr frame k e' \<Longrightarrow> e = e'"
  by (auto simp: opens_def)

text \<open>The plausible keys among some attempts, with the envelope each one opens.\<close>

definition plausible_keys :: "cipher \<Rightarrow> u8 list \<Rightarrow> (profile \<times> channel_key) list \<Rightarrow> (channel_key \<times> evidence) set" where
  "plausible_keys ctr frame as = {(k, e). (\<exists>a\<in>set as. eligible frame a \<and> snd a = k) \<and> opens ctr frame k e}"

lemma plausible_keys_simps:
  "plausible_keys ctr frame [] = {}"
  "\<not> eligible frame a \<Longrightarrow> plausible_keys ctr frame (a # as) = plausible_keys ctr frame as"
  "eligible frame a \<Longrightarrow> opens ctr frame (snd a) e \<Longrightarrow>
    plausible_keys ctr frame (a # as) = insert (snd a, e) (plausible_keys ctr frame as)"
  "eligible frame a \<Longrightarrow> \<not> (\<exists>e. opens ctr frame (snd a) e) \<Longrightarrow>
    plausible_keys ctr frame (a # as) = plausible_keys ctr frame as"
  using opens_unique by (fastforce simp: plausible_keys_def)+

lemma try_keys_sound:
  "try_keys ctr frame as matched best = Inr (m, Some (k, e)) \<Longrightarrow>
    best = Some (k, e) \<or> (k, e) \<in> plausible_keys ctr frame as"
  by (induction ctr frame as matched best rule: try_keys.induct)
    (auto simp: plausible_keys_def opens_def split: if_splits option.splits)

definition one_element :: "'a set \<Rightarrow> 'a option" where
  "one_element S = (if S = {} then None else Some (the_elem S))"

definition several :: "'a set \<Rightarrow> bool" where
  "several S \<longleftrightarrow> (\<exists>x\<in>S. \<exists>y\<in>S. x \<noteq> y)"

lemma several_singleton: "\<not> several (insert x S) \<Longrightarrow> insert x S = {x}"
  by (auto simp: several_def)

text \<open>
  When no decryption fails, the loop computes the set of plausible keys: several of them are
  an ambiguity, whatever their order and however often they are listed.
\<close>

lemma try_keys_set:
  assumes "\<forall>a\<in>set as. eligible frame a \<longrightarrow> decrypt_frame ctr frame (snd a) \<noteq> None"
    and "\<forall>k e. best = Some (k, e) \<longrightarrow> opens ctr frame k e"
  shows "try_keys ctr frame as matched best =
    (let S = set_option best \<union> plausible_keys ctr frame as in
     if several S then Inl Ambiguous_keys
     else Inr (matched \<or> (\<exists>a\<in>set as. eligible frame a), one_element S))"
  using assms
proof (induction ctr frame as matched best rule: try_keys.induct)
  case (1 ctr frame matched best)
  then show ?case by (cases best) (auto simp: plausible_keys_simps several_def one_element_def)
next
  case (2 ctr frame a rest matched best)
  show ?case
  proof (cases "eligible frame a")
    case False
    then show ?thesis using 2(1) 2(5,6) by (auto simp: plausible_keys_simps Let_def)
  next
    case el: True
    show ?thesis
    proof (cases "map_option fst best = Some (snd a)")
      case True
      then obtain e where b: "best = Some (snd a, e)" by auto
      then have "opens ctr frame (snd a) e" using 2(6) by blast
      then have "set_option best \<union> plausible_keys ctr frame (a # rest) = set_option best \<union> plausible_keys ctr frame rest"
        using b el by (simp add: plausible_keys_simps(3))
      then show ?thesis using 2(2) [OF _ True] 2(5,6) el True by (simp add: Let_def)
    next
      case new: False
      obtain plain where p: "decrypt_frame ctr frame (snd a) = Some plain" using 2(5) el by auto
      show ?thesis
      proof (cases "parse_data plain")
        case None
        then have "\<not> (\<exists>e. opens ctr frame (snd a) e)" using p by (auto simp: opens_def)
        then have "plausible_keys ctr frame (a # rest) = plausible_keys ctr frame rest"
          using el by (rule plausible_keys_simps(4) [rotated])
        then show ?thesis using 2(3) [OF _ new p None] 2(5,6) el new p None by (simp add: Let_def)
      next
        case (Some e)
        then have o: "opens ctr frame (snd a) e" using p by (auto simp: opens_def)
        note pk = plausible_keys_simps(3) [OF el o]
        show ?thesis
        proof (cases best)
          case None
          have "try_keys ctr frame rest True (Some (snd a, e)) =
            (let S = set_option (Some (snd a, e)) \<union> plausible_keys ctr frame rest in
             if several S then Inl Ambiguous_keys
             else Inr (True \<or> (\<exists>a\<in>set rest. eligible frame a), one_element S))"
            using 2(4) [OF _ new p Some] None 2(5) el o by auto
          then show ?thesis using el new p Some None by (simp add: pk Let_def)
        next
          case (Some b)
          then have "several (set_option best \<union> plausible_keys ctr frame (a # rest))"
            using new unfolding pk several_def by (cases b) auto
          then show ?thesis using el new p \<open>parse_data plain = Some e\<close> Some by (simp add: Let_def)
        qed
      qed
    qed
  qed
qed

section \<open>Key text\<close>

lemma base64_unpadded_loop:
  "\<exists>acc. base64_loop (base64_unpadded k) 0 0 =
     Some (k, acc, if length k mod 3 = 1 then 4 else if length k mod 3 = 2 then 2 else 0) \<and>
   unat acc mod 2 ^ (if length k mod 3 = 1 then 4 else if length k mod 3 = 2 then 2 else 0) = 0"
proof -
  have less: "list_all (\<lambda>a. a < 256) (map unat k)"
    by (auto simp: list_all_iff intro: order.strict_trans2 [OF unsigned_less])
  note digits = base64_digits_less [OF less]
  have "list_all2 (\<lambda>c v. base64_digit c = Some v) (base64_unpadded k) (base64_digits (map unat k))"
    using digits by (auto simp: base64_unpadded_def list_all2_conv_all_nth list_all_length base64_digit_char)
  from base64_loop_low [OF this, of 0 0 0] sextet_loop_digits [OF less] show ?thesis
    by (auto simp: comp_def)
qed

lemma low_bits_zero: "acc AND (push_bit bits 1 - 1) = 0 \<longleftrightarrow> unat (acc :: u32) mod 2 ^ bits = 0"
proof -
  have "acc AND (push_bit bits 1 - 1) = take_bit bits acc"
    by (simp add: take_bit_eq_mask mask_eq_exp_minus_1)
  moreover have "unat (take_bit bits acc) = unat acc mod 2 ^ bits"
  proof -
    have "unat (take_bit bits acc) = take_bit bits (unat acc)"
      by (rule bit_eqI) (simp add: bit_unat bit_take_bit_iff)
    then show ?thesis by (simp add: take_bit_eq_mod)
  qed
  ultimately show ?thesis by (metis unat_eq_zero)
qed

lemma length_base64_digits: "length (base64_digits ns) = (4 * length ns + 2) div 3"
  by (induction ns rule: base64_digits.induct) simp_all

lemma base64_encode_shape:
  assumes "length k = 16 \<or> length k = 32"
  shows "base64_encode k = base64_unpadded k @ (if length k = 16 then ''=='' else ''='')"
    "length (base64_unpadded k) = (if length k = 16 then 22 else 43)"
proof -
  have "2 = Suc (Suc 0)" by simp
  then show "base64_encode k = base64_unpadded k @ (if length k = 16 then ''=='' else ''='')"
    using assms by (auto simp: base64_encode_def base64_padding_def numeral_2_eq_2)
  show "length (base64_unpadded k) = (if length k = 16 then 22 else 43)"
    using assms by (auto simp: base64_unpadded_def length_base64_digits)
qed

text \<open>The Base64 branch of \<open>from_user_input\<close>.\<close>

definition key_from_base64 :: "string \<Rightarrow> channel_key option" where
  "key_from_base64 input = (if length input = 24 \<or> length input = 44 then key_from_user_input input else None)"

lemma key_from_base64_encode:
  assumes "length k = 16 \<or> length k = 32"
  shows "key_from_base64 (base64_encode k) = Some k"
proof -
  note shape = base64_encode_shape [OF assms]
  have len: "length (base64_encode k) = (if length k = 16 then 24 else 44)"
    using shape by simp
  then have not_token: "base64_encode k \<noteq> ''AQ==''" using assms by fastforce
  obtain acc bits where acc: "base64_loop (base64_unpadded k) 0 0 = Some (k, acc, bits)"
    "acc AND (push_bit bits 1 - 1) = 0"
  proof -
    obtain acc bits where "base64_loop (base64_unpadded k) 0 0 = Some (k, acc, bits)" "unat acc mod 2 ^ bits = 0"
      using base64_unpadded_loop [of k] by metis
    then show thesis by (intro that [of acc bits]) (simp_all only: low_bits_zero)
  qed
  show ?thesis
  proof (cases "length k = 16")
    case True
    then have "length (base64_encode k) = 24" "take 22 (base64_encode k) = base64_unpadded k"
      "drop 22 (base64_encode k) = ''==''" using shape len by simp_all
    then show ?thesis
      using acc not_token by (simp add: key_from_base64_def key_from_user_input_def)
  next
    case False
    then have "length (base64_encode k) = 44" "take 43 (base64_encode k) = base64_unpadded k"
      "drop 43 (base64_encode k) = ''=''" using shape len by simp_all
    then show ?thesis
      using acc not_token by (simp add: key_from_base64_def key_from_user_input_def)
  qed
qed

lemma digits_inverse:
  "list_all2 (\<lambda>c v. base64_digit c = Some v) cs vs \<Longrightarrow>
    list_all (\<lambda>v. v < 64) vs \<and> cs = map base64_char vs"
  by (induction rule: list_all2_induct) (auto dest: base64_digit_inverse)

lemma base64_loop_digits:
  "base64_loop cs acc bits = Some out \<Longrightarrow> \<exists>vs. list_all2 (\<lambda>c v. base64_digit c = Some v) cs vs"
proof (induction cs arbitrary: acc bits out)
  case (Cons c cs)
  then obtain v where v: "base64_digit c = Some v" by (auto split: option.splits)
  then obtain acc' bits' out' where "base64_loop cs acc' bits' = Some out'"
    using Cons.prems by (auto simp: Let_def split: if_splits)
  from Cons.IH [OF this] v show ?case by (meson list_all2_Cons)
qed (auto intro: exI [of _ "[]"])

lemma key_from_base64_canonical:
  assumes "key_from_base64 input = Some k"
  shows "(length k = 16 \<or> length k = 32) \<and> input = base64_encode k"
proof -
  let ?n = "if length input = 24 then 22 else 43 :: nat"
  have len: "length input = 24 \<or> length input = 44"
    using assms by (auto simp: key_from_base64_def split: if_splits)
  then have nt: "input \<noteq> ''AQ==''" by auto
  obtain acc bits where r: "base64_loop (take ?n input) 0 0 = Some (k, acc, bits)"
    and z: "unat acc mod 2 ^ bits = 0"
    and pad: "drop ?n input = (if length input = 24 then ''=='' else ''='')"
    using assms len nt low_bits_zero
    by (auto simp: key_from_base64_def key_from_user_input_def Let_def split: if_splits option.splits prod.splits)
  obtain vs where vs: "list_all2 (\<lambda>c v. base64_digit c = Some v) (take ?n input) vs"
    using base64_loop_digits [OF r] by blast
  have lvs: "length vs = ?n" using list_all2_lengthD [OF vs] len by auto
  have quads: "in_quads vs" using lvs by (auto simp: in_quads_iff)
  have small: "list_all (\<lambda>v. v < 64) vs" and chars: "take ?n input = map base64_char vs"
    using digits_inverse [OF vs] by auto
  obtain out low b where s: "sextet_loop vs 0 0 = (out, low, b)" by (metis prod_cases3)
  from base64_loop_low [OF vs, of 0 0 0] s r z
  have k: "k = map word_of_nat out" "low = 0" by auto
  have inv: "base64_digits out = vs" "list_all (\<lambda>a. a < 256) out"
    using sextet_loop_inverse [OF quads small] s k(2) by auto
  have "map unat k = out"
    using inv(2) unfolding k(1) by (auto simp: list_all_iff unat_of_nat intro: map_idI)
  then have up: "base64_unpadded k = take ?n input"
    by (simp add: base64_unpadded_def inv(1) chars)
  have "(4 * length k + 2) div 3 = ?n"
    using arg_cong [OF inv(1), of length] lvs k(1) by (simp add: length_base64_digits)
  then have lk: "length k = (if length input = 24 then 16 else 32)" by (auto split: if_splits)
  then have ok: "length k = 16 \<or> length k = 32" by simp
  have "base64_encode k = take ?n input @ drop ?n input"
    using base64_encode_shape(1) [OF ok] up pad lk by simp
  then show ?thesis using ok by simp
qed

interpretation base64_key: canonical_codec base64_encode key_from_base64 "\<lambda>k. length k = 16 \<or> length k = 32"
  by unfold_locales (use key_from_base64_encode key_from_base64_canonical in blast)+

section \<open>Words and frames\<close>

lemma length_put32 [simp]: "length (put32 v) = 4"
  by (simp add: put32_def)

lemma bit_byte_of_word: "bit (ucast (ucast (drop_bit n v) :: u8) :: u32) k \<longleftrightarrow> k < 8 \<and> bit (v :: u32) (n + k)"
  by (auto simp: bit_unsigned_iff bit_drop_bit_eq dest: bit_imp_le_length)

lemma le32_put32: "le32 (put32 v @ rest) = v"
proof -
  let ?b = "\<lambda>n. ucast (ucast (drop_bit n v) :: u8) :: u32"
  have "put32 v = [ucast (drop_bit 0 v), ucast (drop_bit 8 v), ucast (drop_bit 16 v), ucast (drop_bit 24 v)]"
    by (simp add: put32_def upt_rec)
  then have e: "le32 (put32 v @ rest) = ?b 0 OR push_bit 8 (?b 8) OR push_bit 16 (?b 16) OR push_bit 24 (?b 24)"
    by (simp only: le32_def append_Cons nth_Cons_0 One_nat_def nth_Cons_Suc numeral_2_eq_2 numeral_3_eq_3)
  show ?thesis
    unfolding e
  proof (rule bit_word_eqI)
    fix k :: nat assume k: "k < LENGTH(32)"
    then consider "k < 8" | "8 \<le> k" "k < 16" | "16 \<le> k" "k < 24" | "24 \<le> k" "k < 32" by force
    then show "bit (?b 0 OR push_bit 8 (?b 8) OR push_bit 16 (?b 16) OR push_bit 24 (?b 24)) k = bit v k"
      by cases (simp_all only: bit_or_iff bit_push_bit_iff bit_byte_of_word, auto)
  qed
qed

lemma put32_inject: "put32 a = put32 b \<Longrightarrow> a = b"
  by (metis append_Nil2 le32_put32)

lemma nonce_injective:
  "meshtastic_nonce f i = meshtastic_nonce f' i' \<Longrightarrow> f = f' \<and> i = i'"
  by (auto simp: meshtastic_nonce_def dest: put32_inject)

text \<open>The documented behaviour of a counter mode cipher: total on keys of 16 and 32 bytes, its own inverse.\<close>

definition counter_mode :: "cipher \<Rightarrow> bool" where
  "counter_mode ctr \<longleftrightarrow> (\<forall>key nonce input. length key = 16 \<or> length key = 32 \<longrightarrow>
     (\<exists>out. ctr key nonce input = Some out \<and> length out = length input \<and> ctr key nonce out = Some input))"

lemma crypt_total:
  assumes "counter_mode ctr" "length k = 16 \<or> length k = 32" "length input \<le> 255"
  shows "\<exists>out. crypt ctr input k nonce = Some out \<and> length out = length input \<and> crypt ctr out k nonce = Some input"
proof -
  obtain out where "ctr k nonce input = Some out" "length out = length input" "ctr k nonce out = Some input"
    using assms(1,2) unfolding counter_mode_def by blast
  then show ?thesis using assms(2,3) by (auto simp: crypt_def)
qed

definition xor_cipher :: cipher where
  "xor_cipher key nonce input = Some (map (\<lambda>b. b XOR (key ! 0)) input)"

lemma xor_cipher_counter_mode: "counter_mode xor_cipher"
  by (auto simp: counter_mode_def xor_cipher_def comp_def xor.assoc intro!: map_idI)

lemma decrypt_frame_total:
  assumes "counter_mode ctr" "length k = 16 \<or> length k = 32" "length frame \<le> 255"
  shows "decrypt_frame ctr frame k \<noteq> None"
  using crypt_total [OF assms(1,2), of "drop 16 frame"] assms(3) by (fastforce simp: decrypt_frame_def)

lemma attempts_keys: "a \<in> set (attempts ps) \<longleftrightarrow> fst a \<in> set ps \<and> snd a \<in> set (pr_keys (fst a))"
  by (cases a) (auto simp: attempts_def)

lemma valid_attempt_key:
  "list_all profile_valid ps \<Longrightarrow> a \<in> set (attempts ps) \<Longrightarrow> length (snd a) = 16 \<or> length (snd a) = 32"
  by (fastforce simp: attempts_keys profile_valid_def list_all_iff)

lemma plausible_keys_cong:
  "set as = set bs \<Longrightarrow> plausible_keys ctr frame as = plausible_keys ctr frame bs"
  by (simp add: plausible_keys_def)

lemma try_attempts:
  assumes "counter_mode ctr" "length frame \<le> 255" "list_all profile_valid ps"
  shows "try_keys ctr frame (attempts ps) False None =
    (if several (plausible_keys ctr frame (attempts ps)) then Inl Ambiguous_keys
     else Inr (\<exists>a\<in>set (attempts ps). eligible frame a, one_element (plausible_keys ctr frame (attempts ps))))"
  using try_keys_set [of "attempts ps" frame ctr None False]
    decrypt_frame_total [OF assms(1) valid_attempt_key [OF assms(3)] assms(2)]
  by (auto simp: Let_def)

section \<open>The plaintext of the synthetic frame\<close>

definition port_field :: wire_field where
  "port_field = \<lparr>wf_tag = 1, wf_wire = 0, wf_value = 1, wf_bytes = []\<rparr>"

definition payload_field :: "u8 list \<Rightarrow> wire_field" where
  "payload_field bytes = \<lparr>wf_tag = 2, wf_wire = 2, wf_value = 0, wf_bytes = bytes\<rparr>"

lemma put_varint_small: "unat v < 128 \<Longrightarrow> put_varint v = [word_of_nat (unat v)]"
  by (simp add: put_varint_def base128_small)

lemma synthetic_plaintext_fields:
  assumes "length txt \<le> 233"
  shows "synthetic_plaintext txt = put_fields [port_field, payload_field (map byte_of txt)]"
proof -
  let ?n = "length txt"
  have n: "unat (word_of_nat ?n :: u64) = ?n" "unat (word_of_nat ?n :: u8) = ?n"
    using assms by (simp_all add: unat_of_nat)
  have len: "put_varint (word_of_nat ?n) =
    (if ?n > 127 then [(word_of_nat ?n AND 127) OR 128, 1] else [word_of_nat ?n])"
  proof (cases "?n > 127")
    case True
    have m: "unat (word_of_nat ?n AND 127 :: u8) = ?n mod 128" by (simp add: unat_byte_and_127 n)
    have "(word_of_nat ?n AND 127 :: u8) AND 128 = 0"
      unfolding byte_and_128 m by simp
    then have "(word_of_nat ?n AND 127) OR 128 = (word_of_nat ?n AND 127) + (128 :: u8)"
      by (simp add: disjunctive_add_eq_or)
    moreover have "(word_of_nat ?n AND 127 :: u8) = word_of_nat (?n mod 128)"
    proof -
      have "(word_of_nat ?n AND 127 :: u8) = word_of_nat (unat (word_of_nat ?n AND 127 :: u8))"
        by simp
      then show ?thesis unfolding m .
    qed
    moreover have "?n div 128 = 1" using True assms by (simp add: div_nat_eqI)
    ultimately show ?thesis
      using True n by (simp add: put_varint_def base128_large base128_small)
  qed (simp add: put_varint_def base128_small n)
  have tags: "field_tag port_field = 8" "field_tag (payload_field bs) = 18" for bs
    by (simp_all add: field_tag_def port_field_def payload_field_def)
  show ?thesis
    by (simp add: put_fields_def put_field_def tags synthetic_plaintext_def len [symmetric])
      (simp add: port_field_def payload_field_def put_varint_small len)
qed

lemma synthetic_fields_ok:
  assumes "bs \<noteq> []" "length bs \<le> 233"
  shows "list_all field_ok [port_field, payload_field bs]"
    "decode_data (put_fields [port_field, payload_field bs]) =
      Some \<lparr>dm_portnum = 1, dm_payload_size = length bs, dm_signature_size = 0\<rparr>"
    "has_wire_field (put_fields [port_field, payload_field bs]) 2"
proof -
  let ?fs = "[port_field, payload_field bs]"
  show ok: "list_all field_ok ?fs"
    using assms(2) by (simp add: field_ok_def port_field_def payload_field_def)
  have read: "wire_fields (put_fields ?fs) = Some ?fs" by (rule wire.round_trip [OF ok])
  show "has_wire_field (put_fields ?fs) 2"
    unfolding has_wire_field_iff [OF read] by (simp add: payload_field_def)
  have "length (put_varint (word_of_nat (length bs))) \<le> 2"
  proof -
    have "unat (word_of_nat (length bs) :: u64) = length bs" using assms(2) by (simp add: unat_of_nat)
    then show ?thesis
      using assms(2) by (cases "length bs < 128") (simp_all add: base128_small base128_large)
  qed
  then have len: "length (put_fields ?fs) \<le> 239"
    using assms(2)
    by (simp add: put_fields_def put_field_def port_field_def payload_field_def field_tag_def base128_small)
  have "validate_wire data_descriptor (Some Data_message) (put_fields ?fs)"
    unfolding validate_wire_iff
  proof (intro conjI exI [of _ ?fs])
    have desc: "data_descriptor Data_message 1 =
        Some \<lparr>pb_ltype = LT_UVARINT, pb_htype = HT_OPTIONAL, pb_data_size = 4, pb_submsg = None\<rparr>"
      "data_descriptor Data_message 2 =
        Some \<lparr>pb_ltype = LT_BYTES, pb_htype = HT_OPTIONAL, pb_data_size = 236, pb_submsg = None\<rparr>"
      by (simp_all add: data_descriptor_def)
    show "distinct (singular_tags (data_descriptor Data_message) ?fs)"
      "length (singular_tags (data_descriptor Data_message) ?fs) \<le> 128"
      "length (oneof_fields (data_descriptor Data_message) ?fs) \<le> 1"
      by (simp_all add: singular_tags_def oneof_fields_def port_field_def payload_field_def desc)
    show "list_all (field_allowed (data_descriptor Data_message) (validate_wire_at data_descriptor 8)) ?fs"
      by (simp add: field_allowed_def port_field_def payload_field_def desc kind_fits_def scalar_fits_def)
  qed (use ok len in simp_all)
  then show "decode_data (put_fields ?fs) = Some \<lparr>dm_portnum = 1, dm_payload_size = length bs, dm_signature_size = 0\<rparr>"
    by (simp add: decode_data_def read)
      (use assms(2) in \<open>simp add: decode_data_field_def port_field_def payload_field_def\<close>)
qed

lemma parse_synthetic:
  assumes "txt \<noteq> []" "length txt \<le> 233"
  shows "parse_data (synthetic_plaintext txt) = Some \<lparr>ev_port = 1, ev_signature = False\<rparr>"
  using synthetic_fields_ok(2,3) [of "map byte_of txt"] assms
  by (simp add: parse_data_def synthetic_plaintext_fields)

lemma length_synthetic_plaintext:
  "length txt \<le> 233 \<Longrightarrow> length (synthetic_plaintext txt) \<le> 238 \<and> 4 \<le> length (synthetic_plaintext txt)"
  by (simp add: synthetic_plaintext_def)

definition synthetic_ok :: "profile \<Rightarrow> string \<Rightarrow> bool" where
  "synthetic_ok p txt \<longleftrightarrow> profile_valid p \<and> length (pr_keys p) = 1 \<and> txt \<noteq> [] \<and> length txt \<le> 233"

definition text_evidence :: evidence where
  "text_evidence = \<lparr>ev_port = 1, ev_signature = False\<rparr>"

lemma classify_synthetic:
  assumes c: "counter_mode ctr" and ok: "synthetic_ok p txt"
  shows "classify_with_profile ctr (synthetic_text_frame ctr p packet_id txt) True p =
    \<lparr>dr_status = Classified, dr_classification = ''likely Meshtastic'',
     dr_authentication = ''not authenticated'', dr_evidence = Some text_evidence\<rparr>"
proof -
  obtain k where k: "pr_keys p = [k]" using ok by (auto simp: synthetic_ok_def length_Suc_conv)
  have valid: "profile_valid p" "length k = 16 \<or> length k = 32"
    using ok k by (auto simp: synthetic_ok_def profile_valid_def)
  have tx: "txt \<noteq> []" "length txt \<le> 233" using ok by (auto simp: synthetic_ok_def)
  note lens = length_synthetic_plaintext [OF tx(2)]
  let ?nonce = "meshtastic_nonce 0x10203040 packet_id"
  obtain out where out: "crypt ctr (synthetic_plaintext txt) k ?nonce = Some out"
    "length out = length (synthetic_plaintext txt)" "crypt ctr out k ?nonce = Some (synthetic_plaintext txt)"
    using crypt_total [OF c valid(2), of "synthetic_plaintext txt" ?nonce] lens by auto
  let ?hash = "channel_hash (pr_channel_name p) k"
  let ?tail = "[0x63, ?hash, 0, 0] @ out"
  define frame where "frame = put32 0xffffffff @ put32 0x10203040 @ put32 packet_id @ ?tail"
  have made: "synthetic_text_frame ctr p packet_id txt = frame"
    using k tx out by (simp add: synthetic_text_frame_def Let_def frame_def)
  have fields: "le32 frame = 0xffffffff" "le32 (drop 4 frame) = 0x10203040" "le32 (drop 8 frame) = packet_id"
    "drop 16 frame = out" "frame ! 13 = ?hash"
    using le32_put32 by (simp_all add: frame_def nth_append)
  have len: "16 < length frame" "length frame \<le> 255" using lens out(2) by (auto simp: frame_def)
  have el: "eligible frame (p, k)" using fields(5) by (simp add: eligible_def)
  have dec: "decrypt_frame ctr frame k = Some (synthetic_plaintext txt)"
    using out(3) by (simp add: decrypt_frame_def fields)
  have "try_keys ctr frame (attempts [p]) False None = Inr (True, Some (k, text_evidence))"
    using el dec parse_synthetic [OF tx] by (simp add: attempts_def k text_evidence_def)
  then show ?thesis
    using len valid
    by (simp add: classify_with_profile_def made classify_meshtastic_def max_keyring_profiles_def fields
        verdict_def recognized_port_def text_evidence_def fresh_result_def)
qed

lemma synthetic_profile_ok: "txt \<noteq> [] \<Longrightarrow> length txt \<le> 233 \<Longrightarrow> synthetic_ok synthetic_profile txt"
proof -
  have "key_from_hex ''000102030405060708090a0b0c0d0e0f'' = Some [0,1,2,3,4,5,6,7,8,9,10,11,12,13,14,15]"
    by (simp add: key_from_hex_def hex_digit_def char_between_def code_def)
  then show "txt \<noteq> [] \<Longrightarrow> length txt \<le> 233 \<Longrightarrow> synthetic_ok synthetic_profile txt"
    by (simp add: synthetic_ok_def synthetic_profile_def profile_valid_def max_profile_keys_def)
qed

section \<open>Properties\<close>

text \<open>
  C13: no evidence without justification: a result carries envelope evidence only for a frame
  of 17 to 255 bytes that passed its radio CRC, with a valid keyring, a nonzero port, and an
  explicitly configured key that is eligible for the frame and opens exactly that envelope;
  even then the source stays "not authenticated".
\<close>

theorem evidence_justified:
  assumes "dr_evidence (classify_meshtastic ctr frame crc ps) = Some e"
  shows "crc \<and> 16 < length frame \<and> length frame \<le> 255 \<and>
    length ps \<le> max_keyring_profiles \<and> list_all profile_valid ps \<and>
    ev_port e \<noteq> 0 \<and> ev_port e \<le> 65535 \<and>
    (\<exists>p\<in>set ps. \<exists>k\<in>set (pr_keys p). eligible frame (p, k) \<and> opens ctr frame k e) \<and>
    dr_authentication (classify_meshtastic ctr frame crc ps) = ''not authenticated''"
proof -
  have auth: "dr_authentication (classify_meshtastic ctr frame crc ps) = ''not authenticated''"
    by (auto simp: classify_meshtastic_def Let_def fresh_result_def verdict_def split: sum.splits option.splits prod.splits)
  have pre: "crc \<and> 16 < length frame \<and> length frame \<le> 255 \<and> length ps \<le> max_keyring_profiles \<and>
      list_all profile_valid ps \<and> (\<exists>m k. try_keys ctr frame (attempts ps) False None = Inr (m, Some (k, e)))"
    using assms
    by (auto simp: classify_meshtastic_def Let_def fresh_result_def verdict_def not_less
        split: if_splits sum.splits option.splits prod.splits)
  then obtain m k where t: "try_keys ctr frame (attempts ps) False None = Inr (m, Some (k, e))" by blast
  from try_keys_sound [OF t] obtain a where a: "a \<in> set (attempts ps)" "eligible frame a" "snd a = k"
    and o: "opens ctr frame k e" by (auto simp: plausible_keys_def)
  then have "\<exists>p\<in>set ps. \<exists>k\<in>set (pr_keys p). eligible frame (p, k) \<and> opens ctr frame k e"
    by (intro bexI [of _ "fst a"] bexI [of _ k]) (auto simp: attempts_keys)
  moreover have "ev_port e \<noteq> 0 \<and> ev_port e \<le> 65535"
    using o parse_data_range by (auto simp: opens_def)
  ultimately show ?thesis using pre auth by blast
qed

theorem evidence_justified_witness:
  "16 < length (synthetic_text_frame xor_cipher synthetic_profile 1 ''hi'')"
  using evidence_justified [of xor_cipher "synthetic_text_frame xor_cipher synthetic_profile 1 ''hi''" True
      "[synthetic_profile]" text_evidence]
    classify_synthetic [OF xor_cipher_counter_mode synthetic_profile_ok, of "''hi''" 1]
  by (simp add: classify_with_profile_def)

definition verdict_of_keys :: "bool \<Rightarrow> (channel_key \<times> evidence) set \<Rightarrow> decode_result" where
  "verdict_of_keys any S =
     (if several S then fresh_result\<lparr>dr_status := Ambiguous_keys\<rparr> else verdict (any, one_element S))"

text \<open>
  C8: the verdict is a function of the set of plausible keys. With a working cipher, a valid
  keyring and a frame that reaches the key loop, several distinct plausible keys suppress the
  evidence as ambiguous; one gives its envelope, classified when its port is recognized; none
  tells whether any key was eligible. Order and repetition of keys and profiles never matter.
\<close>

theorem verdict_depends_on_key_set:
  assumes "counter_mode ctr" and "list_all profile_valid ps" and "length ps \<le> max_keyring_profiles"
    and "16 < length frame" and "length frame \<le> 255"
    and "le32 (drop 4 frame) \<notin> {0, 0xffffffff}" and "le32 frame \<noteq> 0"
    and "frame ! 13 \<noteq> 0 \<or> le32 frame = 0xffffffff"
  shows "classify_meshtastic ctr frame True ps =
    verdict_of_keys (\<exists>a\<in>set (attempts ps). eligible frame a) (plausible_keys ctr frame (attempts ps))"
  using assms(2-8) try_attempts [OF assms(1,5,2)]
  by (auto simp: classify_meshtastic_def verdict_of_keys_def Let_def)

definition example_frame :: "u8 list" where
  "example_frame = [255, 255, 255, 255, 1, 0, 0, 0, 7, 0, 0, 0, 0x63, 0x10, 0, 0, 8, 1, 18, 1, 65]"

theorem verdict_depends_on_key_set_witness:
  "classify_meshtastic xor_cipher example_frame True [synthetic_profile, public_meshtastic_profile] =
    verdict_of_keys (\<exists>a\<in>set (attempts [synthetic_profile, public_meshtastic_profile]). eligible example_frame a)
      (plausible_keys xor_cipher example_frame (attempts [synthetic_profile, public_meshtastic_profile]))"
proof (rule verdict_depends_on_key_set [OF xor_cipher_counter_mode])
  have "key_from_hex ''d4f1bb3a20290759f0bcffabcf4e6901'' =
      Some [0xd4, 0xf1, 0xbb, 0x3a, 0x20, 0x29, 0x07, 0x59, 0xf0, 0xbc, 0xff, 0xab, 0xcf, 0x4e, 0x69, 0x01]"
    by (simp add: key_from_hex_def hex_digit_def char_between_def code_def)
  then have "profile_valid public_meshtastic_profile"
    by (simp add: public_meshtastic_profile_def profile_valid_def max_profile_keys_def key_from_user_input_def)
  then show "list_all profile_valid [synthetic_profile, public_meshtastic_profile]"
    using synthetic_profile_ok [of "''x''"] by (simp add: synthetic_ok_def)
qed (simp_all add: example_frame_def max_keyring_profiles_def max_user_keyring_profiles_def le32_def)

text \<open>
  C25: with a working cipher, the frame \<open>synthetic_text_frame\<close> builds for a valid one-key
  profile and a text of 1 to 233 bytes is classified under that profile as a text message
  without signature, for every packet id; its plaintext passes the wire policy.
\<close>

theorem synthetic_frame_classified:
  assumes "counter_mode ctr" and "synthetic_ok p txt"
  shows "classify_with_profile ctr (synthetic_text_frame ctr p packet_id txt) True p =
    \<lparr>dr_status = Classified, dr_classification = ''likely Meshtastic'',
     dr_authentication = ''not authenticated'', dr_evidence = Some text_evidence\<rparr>"
  by (rule classify_synthetic [OF assms])

theorem synthetic_frame_classified_witness:
  "dr_status (classify_with_profile xor_cipher
    (synthetic_text_frame xor_cipher synthetic_profile 1 ''Synthetic survey packet'') True synthetic_profile) = Classified"
  using synthetic_frame_classified [OF xor_cipher_counter_mode synthetic_profile_ok, of "''Synthetic survey packet''" 1]
  by simp

text \<open>
  An input of 24 or 44 characters is a key exactly when it is the one canonical padded
  Base64 text of a 16 or 32 byte key: no other spelling, padding, alphabet or stray low bits.
\<close>

theorem base64_keys_canonical:
  "(if length input = 24 \<or> length input = 44 then key_from_user_input input else None) = Some k \<longleftrightarrow>
    (length k = 16 \<or> length k = 32) \<and> input = base64_encode k"
  unfolding key_from_base64_def [symmetric] by (rule base64_key.dec_iff)

text \<open>
  The nonce of the counter mode cipher determines sender and packet id, and \<open>le32\<close> reads
  back what \<open>put32\<close> wrote.
\<close>

theorem nonce_unique:
  "(meshtastic_nonce f i = meshtastic_nonce f' i' \<longleftrightarrow> f = f' \<and> i = i') \<and> le32 (put32 v @ rest) = v"
  using nonce_injective le32_put32 by blast

end
