(* ===== verification/Concentrator.thy ===== *)
theory Concentrator
  imports Prelude
begin

text \<open>
  Concentrator boards (\<open>concentrator.hpp\<close>, \<open>concentrator.cpp\<close>): the configuration of one or
  two RAK5146 boards, its validation, and the sampled RSSI histograms of the energy scanner.
  A \<open>double\<close> of the sources is a rational number; the values compared here are multiples
  of one half below 2^53, which a \<open>double\<close> represents exactly.
\<close>

section \<open>Configuration\<close>

record board_config =
  bc_path :: string
  bc_id :: string
  bc_packets :: bool
  bc_freq :: u64
  bc_bw :: u32
  bc_sf :: u32
  bc_sync :: u32

definition default_board :: board_config where
  "default_board = \<lparr>bc_path = '''', bc_id = '''', bc_packets = True, bc_freq = 906875000,
     bc_bw = 250000, bc_sf = 11, bc_sync = 0x2b\<rparr>"

record concentrator_config =
  cc_boards :: "board_config list"
  cc_scan :: bool
  cc_decode :: bool
  cc_step :: u32
  cc_samples :: u32

definition default_concentrators :: concentrator_config where
  "default_concentrators = \<lparr>cc_boards = [default_board], cc_scan = True, cc_decode = True,
     cc_step = 200000, cc_samples = 2000\<rparr>"

text \<open>The edges of the survey, \<open>double(center) -+ span/2.\<close>.\<close>

definition survey_lower :: "u64 \<Rightarrow> u32 \<Rightarrow> rat" where
  "survey_lower center wid = rat_of_word center - rat_of_word wid / 2"

definition survey_upper :: "u64 \<Rightarrow> u32 \<Rightarrow> rat" where
  "survey_upper center wid = rat_of_word center + rat_of_word wid / 2"

definition us_band :: string where
  "us_band = ''902'' @ en_dash @ ''928 MHz''"

definition validate_board_paths :: "board_config list \<Rightarrow> nat \<Rightarrow> board_config \<Rightarrow> unit result" where
  "validate_board_paths boards i b =
    bind_result (guard_err (bc_path b = [] \<or> length (bc_path b) > 1024 \<or> length (bc_id b) > 2048 \<or>
        CHR 0x00 \<in> set (bc_path b) \<or> CHR 0x00 \<in> set (bc_id b))
      ''Select each concentrator from the local USB device list'') (\<lambda>_.
    guard_err (i \<noteq> 0 \<and> (bc_path b = bc_path (boards ! 0) \<or>
        (bc_id b \<noteq> [] \<and> bc_id b = bc_id (boards ! 0))))
      ''Two concentrators must be two different USB devices'')"

definition validate_board :: "concentrator_config \<Rightarrow> u64 \<Rightarrow> u32 \<Rightarrow> bool \<Rightarrow> nat \<Rightarrow> board_config \<Rightarrow> unit result" where
  "validate_board c center wid require_paths i b =
    bind_result (if require_paths then validate_board_paths (cc_boards c) i b else Inr ()) (\<lambda>_.
    bind_result (guard_err (\<not> bc_packets b \<and> \<not> cc_scan c)
      ''Enable sampled RF scanning or packet reception for each concentrator'') (\<lambda>_.
    bind_result (guard_err (bc_bw b \<noteq> 125000 \<and> bc_bw b \<noteq> 250000 \<and> bc_bw b \<noteq> 500000)
      ''RAK service modem bandwidth must be 125, 250 or 500 kHz'') (\<lambda>_.
    bind_result (guard_err (unat (bc_sf b) < 7 \<or> unat (bc_sf b) > 12 \<or>
        (bc_sync b \<noteq> 0x2b \<and> bc_sync b \<noteq> 0x12 \<and> bc_sync b \<noteq> 0x34))
      (''RAK service modem supports SF7'' @ en_dash @ ''12 and sync words 0x2B, 0x12 or 0x34'')) (\<lambda>_.
    bind_result (guard_err (unat (bc_freq b) < 902000000 \<or> unat (bc_freq b) > 928000000)
      (''RAK packet frequency must be within '' @ us_band)) (\<lambda>_.
    guard_err (bc_packets b \<and>
        (rat_of_word (bc_freq b) - rat_of_word (bc_bw b) / 2 < survey_lower center wid \<or>
         rat_of_word (bc_freq b) + rat_of_word (bc_bw b) / 2 > survey_upper center wid))
      ''Each enabled packet profile's full bandwidth must fit inside the survey range'')))))"

definition validate_concentrator_config ::
    "concentrator_config \<Rightarrow> u64 \<Rightarrow> u32 \<Rightarrow> int \<Rightarrow> bool \<Rightarrow> unit result" where
  "validate_concentrator_config c center wid offset require_paths =
    bind_result (guard_err (cc_boards c = [] \<or> length (cc_boards c) > 2)
      ''Choose one or two RAK5146 concentrators'') (\<lambda>_.
    bind_result (guard_err (unat center < 902000000 \<or> unat center > 928000000 \<or>
        unat wid < 500000 \<or> unat wid > 26000000 \<or> offset < -100000 \<or> offset > 100000)
      (''RAK5146 US915 survey requires '' @ us_band @ '', a 0.5'' @ en_dash @
       ''26 MHz span and Offset within +/-100 kHz'')) (\<lambda>_.
    bind_result (guard_err (survey_lower center wid < 902000000 \<or> survey_upper center wid > 928000000 \<or>
        survey_lower center wid + of_int offset < 902000000 \<or>
        survey_upper center wid + of_int offset > 928000000)
      (''Requested and corrected RAK5146 survey edges must remain within '' @ us_band)) (\<lambda>_.
    bind_result (guard_err (unat (cc_step c) < 25000 \<or> unat (cc_step c) > 1000000 \<or> cc_samples c \<noteq> 2000)
      (''RAK scan step must be 25'' @ en_dash @ ''1000 kHz, with 2000 RSSI samples per histogram'')) (\<lambda>_.
    for_each (validate_board c center wid require_paths) 0 (cc_boards c)))))"

section \<open>Histograms\<close>

text \<open>The 33 counters of a scan; the last bin collects everything below the range.\<close>

record concentrator_scan =
  cs_id :: u64
  cs_board :: u32
  cs_freq :: u64
  cs_filter :: u32
  cs_offset_db :: "rat option"
  cs_counts :: "u32 list"

definition concentrator_sample_count :: "concentrator_scan \<Rightarrow> u64" where
  "concentrator_sample_count s = fold (\<lambda>n acc. acc + ucast n) (cs_counts s) 0"

text \<open>
  A \<open>double\<close> that need not be finite is an option, \<open>None\<close> for an infinity or NaN. The
  lower edge of the last bin is \<open>-infinity\<close>.
\<close>

definition concentrator_bin_lower_dbm :: "nat \<Rightarrow> rat option \<Rightarrow> rat option result" where
  "concentrator_bin_lower_dbm bin offset =
    (case offset of
       None \<Rightarrow> Inl ''Invalid RSSI histogram bin''
     | Some off \<Rightarrow> bind_result (guard_err (bin > 32) ''Invalid RSSI histogram bin'') (\<lambda>_.
         Inr (if bin = 32 then None else Some (off - 4 * of_nat bin))))"

definition bin_above :: "rat option \<Rightarrow> rat \<Rightarrow> nat \<Rightarrow> bool" where
  "bin_above offset threshold i =
    (case concentrator_bin_lower_dbm i offset of
       Inr (Some lower) \<Rightarrow> threshold \<le> lower
     | _ \<Rightarrow> False)"

definition concentrator_above :: "concentrator_scan \<Rightarrow> rat \<Rightarrow> u64" where
  "concentrator_above s threshold =
    fold (\<lambda>i acc. if bin_above (cs_offset_db s) threshold i then acc + ucast (cs_counts s ! i) else acc)
      [0..<32] 0"

definition concentrator_fraction_above :: "concentrator_scan \<Rightarrow> rat option \<Rightarrow> rat result" where
  "concentrator_fraction_above s threshold =
    (case (threshold, cs_offset_db s) of
       (Some t, Some _) \<Rightarrow>
         (let total = concentrator_sample_count s in
          Inr (if total \<noteq> 0 then rat_of_word (concentrator_above s t) / rat_of_word total else 0))
     | _ \<Rightarrow> Inl ''Invalid RSSI histogram threshold'')"

section \<open>The accumulators do not wrap\<close>

lemma unat_fold_add:
  fixes g :: "'x \<Rightarrow> u64"
  assumes "unat a + sum_list (map (\<lambda>x. unat (g x)) xs) < 2 ^ 64"
  shows "unat (fold (\<lambda>x acc. acc + g x) xs a) = unat a + sum_list (map (\<lambda>x. unat (g x)) xs)"
  using assms
proof (induction xs arbitrary: a)
  case Nil
  then show ?case by simp
next
  case (Cons x xs)
  have "unat (a + g x) = unat a + unat (g x)"
    using Cons.prems by (simp add: unat_add_lem [symmetric])
  with Cons.IH [of "a + g x"] Cons.prems show ?case by simp
qed

definition scan_wf :: "concentrator_scan \<Rightarrow> bool" where
  "scan_wf s \<longleftrightarrow> length (cs_counts s) = 33"

lemma unat_u32_less: "unat (w :: u32) < 4294967296"
  by (rule order.strict_trans2 [OF unsigned_less]) simp

lemma unat_ucast_32_64: "unat (ucast (w :: u32) :: u64) = unat w"
  using unat_u32_less [of w] by (simp add: unsigned_ucast_eq take_bit_nat_eq_self)

lemma sum_counts_bound: "sum_list (map unat (ws :: u32 list)) \<le> length ws * 4294967295"
proof (induction ws)
  case Nil
  then show ?case by simp
next
  case (Cons w ws)
  then show ?case using unat_u32_less [of w] by simp
qed

lemma sample_count_sum:
  assumes "scan_wf s"
  shows "unat (concentrator_sample_count s) = sum_list (map unat (cs_counts s))"
  using unat_fold_add [of 0 "ucast" "cs_counts s"] sum_counts_bound [of "cs_counts s"] assms
  by (simp add: concentrator_sample_count_def unat_ucast_32_64 scan_wf_def comp_def)

lemma sum_list_if_le:
  "sum_list (map (\<lambda>i. if P i then f i else 0) xs) \<le> sum_list (map f xs)" for f :: "'x \<Rightarrow> nat"
  by (induction xs) auto

lemma counts_sum_index:
  assumes "scan_wf s"
  shows "sum_list (map unat (cs_counts s)) =
    sum_list (map (\<lambda>i. unat (cs_counts s ! i)) [0..<32]) + unat (cs_counts s ! 32)"
proof -
  have "map unat (cs_counts s) = map (\<lambda>i. unat (cs_counts s ! i)) [0..<33]"
    using assms by (intro nth_equalityI) (simp_all add: scan_wf_def)
  moreover have "[0..<33] = [0..<32] @ [32::nat]"
    using upt_Suc_append [of 0 32] by simp
  ultimately show ?thesis by simp
qed

lemma above_sum:
  assumes "scan_wf s"
  shows "unat (concentrator_above s t) =
    sum_list (map (\<lambda>i. if bin_above (cs_offset_db s) t i then unat (cs_counts s ! i) else 0) [0..<32])"
proof -
  let ?g = "\<lambda>i. (if bin_above (cs_offset_db s) t i then ucast (cs_counts s ! i) else 0) :: u64"
  have g: "unat (?g i) = (if bin_above (cs_offset_db s) t i then unat (cs_counts s ! i) else 0)" for i
    by (simp add: unat_ucast_32_64)
  have "concentrator_above s t = fold (\<lambda>i acc. acc + ?g i) [0..<32] 0"
    unfolding concentrator_above_def by (intro fold_cong) auto
  moreover have "sum_list (map (\<lambda>i. unat (?g i)) [0..<32]) < 2 ^ 64"
    unfolding g
    using sum_list_if_le [of "bin_above (cs_offset_db s) t" "\<lambda>i. unat (cs_counts s ! i)" "[0..<32]"]
      counts_sum_index [OF assms] sum_counts_bound [of "cs_counts s"] assms
    by (simp add: scan_wf_def)
  ultimately show ?thesis
    using unat_fold_add [of 0 ?g "[0..<32]"] unfolding g by simp
qed

lemma bin_above_antitone: "t \<le> t' \<Longrightarrow> bin_above off t' i \<Longrightarrow> bin_above off t i"
  by (auto simp: bin_above_def split: sum.splits option.splits)

lemma above_antitone:
  assumes "scan_wf s" "t \<le> t'"
  shows "unat (concentrator_above s t') \<le> unat (concentrator_above s t)"
  unfolding above_sum [OF assms(1)] using assms(2)
  by (intro sum_list_mono) (auto dest: bin_above_antitone)

lemma above_le_total:
  assumes "scan_wf s"
  shows "unat (concentrator_above s t) \<le> unat (concentrator_sample_count s)"
  unfolding above_sum [OF assms] sample_count_sum [OF assms] counts_sum_index [OF assms]
  using sum_list_if_le [of "bin_above (cs_offset_db s) t" "\<lambda>i. unat (cs_counts s ! i)" "[0..<32]"]
  by simp

section \<open>Properties\<close>

text \<open>
  The exceedance fraction of a scan is a fraction. For any 33 counters the 64-bit sums do
  not wrap, the result lies between 0 and 1, and raising the threshold never raises it.
\<close>

theorem exceedance_fraction:
  assumes "scan_wf s" and "cs_offset_db s = Some off" and "t \<le> t'"
  shows "\<exists>x y. concentrator_fraction_above s (Some t) = Inr x \<and>
    concentrator_fraction_above s (Some t') = Inr y \<and> 0 \<le> y \<and> y \<le> x \<and> x \<le> 1 \<and>
    unat (concentrator_sample_count s) = sum_list (map unat (cs_counts s))"
proof -
  have "concentrator_above s t' \<le> concentrator_above s t"
    "concentrator_above s t \<le> concentrator_sample_count s"
    using above_antitone [OF assms(1,3)] above_le_total [OF assms(1)]
    by (simp_all add: word_le_nat_alt)
  then have "rat_of_word (concentrator_above s t') \<le> rat_of_word (concentrator_above s t)"
    "rat_of_word (concentrator_above s t) \<le> rat_of_word (concentrator_sample_count s)"
    by simp_all
  then show ?thesis
    using assms(2) sample_count_sum [OF assms(1)]
    by (simp add: concentrator_fraction_above_def Let_def divide_right_mono divide_le_eq_1
        order.not_eq_order_implies_strict)
qed

definition example_scan :: concentrator_scan where
  "example_scan = \<lparr>cs_id = 1, cs_board = 0, cs_freq = 906875000, cs_filter = 234300,
     cs_offset_db = Some (-11), cs_counts = [0, 3, 5] @ replicate 30 7\<rparr>"

theorem exceedance_fraction_witness:
  "\<exists>x y. concentrator_fraction_above example_scan (Some (-87)) = Inr x \<and>
    concentrator_fraction_above example_scan (Some (-20)) = Inr y \<and> 0 \<le> y \<and> y \<le> x \<and> x \<le> 1"
proof -
  have "scan_wf example_scan" "cs_offset_db example_scan = Some (-11)"
    by (simp_all add: example_scan_def scan_wf_def)
  from exceedance_fraction [OF this, of "-87" "-20"] show ?thesis by auto
qed

text \<open>What two boards must be to count as two devices, and one board to be selected.\<close>

definition boards_selected :: "board_config list \<Rightarrow> bool" where
  "boards_selected bs \<longleftrightarrow>
     list_all (\<lambda>b. bc_path b \<noteq> [] \<and> length (bc_path b) \<le> 1024 \<and> length (bc_id b) \<le> 2048 \<and>
       CHR 0x00 \<notin> set (bc_path b) \<and> CHR 0x00 \<notin> set (bc_id b)) bs \<and>
     distinct (map bc_path bs) \<and> distinct (filter (\<lambda>i. i \<noteq> []) (map bc_id bs))"

definition board_in_range :: "concentrator_config \<Rightarrow> u64 \<Rightarrow> u32 \<Rightarrow> board_config \<Rightarrow> bool" where
  "board_in_range c center wid b \<longleftrightarrow> (bc_packets b \<or> cc_scan c) \<and> bc_bw b \<in> {125000, 250000, 500000} \<and>
     unat (bc_sf b) \<in> {7..12} \<and> bc_sync b \<in> {0x2b, 0x12, 0x34} \<and> unat (bc_freq b) \<in> {902000000..928000000} \<and>
     (bc_packets b \<longrightarrow> survey_lower center wid \<le> rat_of_word (bc_freq b) - rat_of_word (bc_bw b) / 2 \<and>
       rat_of_word (bc_freq b) + rat_of_word (bc_bw b) / 2 \<le> survey_upper center wid)"

lemma board_paths_ok:
  "validate_board_paths bs i b = Inr () \<longleftrightarrow>
     bc_path b \<noteq> [] \<and> length (bc_path b) \<le> 1024 \<and> length (bc_id b) \<le> 2048 \<and>
     CHR 0x00 \<notin> set (bc_path b) \<and> CHR 0x00 \<notin> set (bc_id b) \<and>
     (i \<noteq> 0 \<longrightarrow> bc_path b \<noteq> bc_path (bs ! 0) \<and> (bc_id b \<noteq> [] \<longrightarrow> bc_id b \<noteq> bc_id (bs ! 0)))"
  by (auto simp: validate_board_paths_def bind_result_Inr guard_err_Inr not_less)

lemma board_ok:
  "validate_board c center wid True i b = Inr () \<longleftrightarrow>
     validate_board_paths (cc_boards c) i b = Inr () \<and> board_in_range c center wid b"
  by (auto simp: validate_board_def bind_result_Inr guard_err_Inr board_in_range_def not_less)

lemma boards_ok:
  assumes "length bs \<in> {1, 2}"
  shows "(\<forall>i<length bs. validate_board_paths bs i (bs ! i) = Inr ()) \<longleftrightarrow> boards_selected bs"
proof -
  consider b where "bs = [b]" | a b where "bs = [a, b]"
    using assms by (auto simp: numeral_2_eq_2 length_Suc_conv)
  then show ?thesis
    by cases (auto simp: board_paths_ok boards_selected_def less_Suc_eq numeral_2_eq_2)
qed



end
