(* ===== verification/Survey.thy ===== *)
theory Survey
  imports Protocol Concentrator
begin

text \<open>
  The survey data that several components exchange (\<open>survey.hpp\<close>, \<open>engine.hpp\<close>,
  \<open>concentrator.hpp\<close>): receiver positions, receptions, sampled scans with their times, and
  the bounded most-recent-first lists in which the engine keeps them. Times are rational
  numbers of seconds.
\<close>

record position_fix =
  px_lat :: rat
  px_lon :: rat
  px_alt :: "rat option"
  px_utc :: rat
  px_mono :: rat
  px_valid :: bool
  px_manual :: bool
  px_source :: string
  px_hdop :: "rat option"
  px_satellites :: nat

definition fresh_fix :: position_fix where
  "fresh_fix = \<lparr>px_lat = 0, px_lon = 0, px_alt = None, px_utc = 0, px_mono = 0, px_valid = False,
     px_manual = False, px_source = '''', px_hdop = None, px_satellites = 0\<rparr>"

record timed_scan = concentrator_scan +
  ts_utc_start :: rat
  ts_utc_end :: rat
  ts_start :: rat
  ts_end :: rat
  ts_position :: "position_fix option"

record packet_metadata =
  md_board :: u32
  md_rssi :: rat
  md_us :: u32

record reception =
  rc_id :: u64
  rc_utc :: rat
  rc_elapsed :: rat
  rc_freq :: u64
  rc_bw :: u32
  rc_sf :: u32
  rc_cr :: u32
  rc_duration :: rat
  rc_snr :: rat
  rc_freq_error :: rat
  rc_header_valid :: bool
  rc_crc_valid :: bool
  rc_label :: string
  rc_decoded :: decode_result
  rc_position :: "position_fix option"
  rc_concentrator :: "packet_metadata option"

record concentrator_health =
  ch_state :: string
  ch_ready :: bool
  ch_scans :: u64
  ch_samples :: u64
  ch_receptions :: u64
  ch_crc_failures :: u64
  ch_ready_elapsed :: rat
  ch_last_update :: rat

section \<open>Bounded most-recent-first lists\<close>

text \<open>\<open>insert(begin(), x); if (size() > n) pop_back();\<close>\<close>

definition push_recent :: "nat \<Rightarrow> 'a \<Rightarrow> 'a list \<Rightarrow> 'a list" where
  "push_recent n x xs = (let ys = x # xs in if length ys > n then butlast ys else ys)"

text \<open>The interface of a bounded history: pushing keeps the newest elements, in order.\<close>

locale bounded_history =
  fixes push :: "'a \<Rightarrow> 'a list \<Rightarrow> 'a list"
    and bound :: nat
  assumes push_take: "length xs \<le> bound \<Longrightarrow> push x xs = take bound (x # xs)"
    and bound_pos: "0 < bound"
begin

lemma push_bounded: "length xs \<le> bound \<Longrightarrow> length (push x xs) \<le> bound"
  by (simp add: push_take)

lemma newest_first: "length xs \<le> bound \<Longrightarrow> push x xs \<noteq> [] \<and> hd (push x xs) = x"
  using bound_pos by (cases bound) (simp_all add: push_take)

lemma pushes: "length xs \<le> bound \<Longrightarrow> fold push ys xs = take bound (rev ys @ xs)"
proof (induction ys arbitrary: xs)
  case Nil
  then show ?case by simp
next
  case (Cons y ys)
  then have "fold push ys (push y xs) = take bound (rev ys @ take bound (y # xs))"
    using push_bounded [of xs y] by (simp add: push_take)
  then show ?case by (simp add: take_append min_def del: take_Suc_Cons)
qed

lemma nothing_invented: "length xs \<le> bound \<Longrightarrow> set (push x xs) \<subseteq> insert x (set xs)"
  using set_take_subset by (fastforce simp: push_take)

end

lemma push_recent_take: "length xs \<le> n \<Longrightarrow> push_recent n x xs = take n (x # xs)"
  by (cases "length xs = n") (auto simp: push_recent_def Let_def butlast_conv_take)

interpretation receptions: bounded_history "push_recent 512" 512
  by unfold_locales (simp_all add: push_recent_take)

interpretation waveforms: bounded_history "push_recent 256" 256
  by unfold_locales (simp_all add: push_recent_take)

interpretation events: bounded_history "push_recent 200" 200
  by unfold_locales (simp_all add: push_recent_take)

end
