(* ===== verification/Numbers.thy ===== *)
theory Numbers
  imports TextCodec
begin

text \<open>
  The number formats of the C and C++ libraries that the program reads and writes:
  \<open>std::to_string\<close>, \<open>std::from_chars\<close> on integers, \<open>printf("%.kf")\<close> and the formatted
  input of a \<open>double\<close> in the classic locale. A \<open>double\<close> is a rational number here: the
  rounding of the text to the nearest \<open>double\<close> is not modelled, its overflow is.
  Also the lower-case hexadecimal form that preferences and worker records use.
\<close>

section \<open>Decimal digits\<close>

definition is_digit :: "char \<Rightarrow> bool" where
  "is_digit c \<longleftrightarrow> 48 \<le> code c \<and> code c \<le> 57"

definition digit_val :: "char \<Rightarrow> nat" where
  "digit_val c = code c - 48"

definition digit_char :: "nat \<Rightarrow> char" where
  "digit_char d = char_of (48 + d)"

lemma digit_char_simps [simp]:
  assumes "d < 10"
  shows "is_digit (digit_char d)" "digit_val (digit_char d) = d"
  using assms by (simp_all add: is_digit_def digit_val_def digit_char_def)

lemma digit_val_less [simp]: "is_digit c \<Longrightarrow> digit_val c < 10"
  unfolding is_digit_def digit_val_def by linarith

lemma zero_is_digit [simp]: "is_digit CHR ''0''"
  by (simp add: is_digit_def code_def)

lemma digit_val_zero [simp]: "digit_val CHR ''0'' = 0"
  by (simp add: digit_val_def code_def)

lemma digit_char_val [simp]: "is_digit c \<Longrightarrow> digit_char (digit_val c) = c"
  by (simp add: is_digit_def digit_val_def digit_char_def)

definition digits_from :: "nat \<Rightarrow> string \<Rightarrow> nat" where
  "digits_from acc s = fold (\<lambda>c acc. acc * 10 + digit_val c) s acc"

abbreviation digits_value :: "string \<Rightarrow> nat" where
  "digits_value \<equiv> digits_from 0"

lemma digits_from_Nil [simp]: "digits_from acc [] = acc"
  by (simp add: digits_from_def)

lemma digits_from_append [simp]: "digits_from acc (s @ t) = digits_from (digits_from acc s) t"
  by (simp add: digits_from_def)

lemma digits_from_single [simp]: "digits_from acc [c] = acc * 10 + digit_val c"
  by (simp add: digits_from_def)

lemma digits_from_shift: "digits_from acc s = acc * 10 ^ length s + digits_value s"
proof (induction s rule: rev_induct)
  case Nil
  then show ?case by simp
next
  case (snoc c s)
  then show ?case by (simp add: algebra_simps)
qed

lemma digits_value_less: "list_all is_digit s \<Longrightarrow> digits_value s < 10 ^ length s"
proof (induction s rule: rev_induct)
  case Nil
  then show ?case by simp
next
  case (snoc c s)
  then have "digits_value s + 1 \<le> 10 ^ length s" "digit_val c < 10" by simp_all
  then have "digits_value s * 10 + digit_val c < (digits_value s + 1) * 10"
    "(digits_value s + 1) * 10 \<le> 10 ^ length s * 10" by simp_all
  then have "digits_value s * 10 + digit_val c < 10 ^ length s * 10" by (rule less_le_trans)
  then show ?case by simp
qed

section \<open>Writing integers\<close>

fun show_nat :: "nat \<Rightarrow> string" where
  "show_nat n = (if n < 10 then [digit_char n] else show_nat (n div 10) @ [digit_char (n mod 10)])"

declare show_nat.simps [simp del]

definition show_int :: "int \<Rightarrow> string" where
  "show_int i = (if i < 0 then CHR ''-'' # show_nat (nat (- i)) else show_nat (nat i))"

lemma show_nat_digits: "list_all is_digit (show_nat n)"
proof (induction n rule: show_nat.induct)
  case (1 n)
  then show ?case by (subst show_nat.simps) simp
qed

lemma show_nat_nonempty [simp]: "show_nat n \<noteq> []"
  by (subst show_nat.simps) simp

lemma digits_value_show_nat [simp]: "digits_value (show_nat n) = n"
proof (induction n rule: show_nat.induct)
  case (1 n)
  then show ?case by (subst show_nat.simps) simp
qed

lemma hd_show_nat: "0 < n \<Longrightarrow> hd (show_nat n) \<noteq> CHR ''0''"
proof (induction n rule: show_nat.induct)
  case (1 n)
  show ?case
  proof (cases "n < 10")
    case True
    with 1 have "digit_val (digit_char n) \<noteq> digit_val CHR ''0''" by simp
    then have "digit_char n \<noteq> CHR ''0''" by metis
    then show ?thesis using True by (subst show_nat.simps) simp
  next
    case False
    with 1 show ?thesis by (subst show_nat.simps) simp
  qed
qed

lemma length_show_nat: "n < 10 ^ Suc k \<Longrightarrow> length (show_nat n) \<le> Suc k"
proof (induction k arbitrary: n)
  case 0
  then show ?case by (subst show_nat.simps) simp
next
  case (Suc k)
  then have "n div 10 < 10 ^ Suc k" by (simp add: less_mult_imp_div_less)
  from Suc.IH [OF this] show ?case by (subst show_nat.simps) simp
qed

lemma show_nat_canonical:
  "list_all is_digit s \<Longrightarrow> s \<noteq> [] \<Longrightarrow> hd s \<noteq> CHR ''0'' \<or> s = ''0'' \<Longrightarrow> show_nat (digits_value s) = s"
proof (induction s rule: rev_induct)
  case Nil
  then show ?case by simp
next
  case (snoc c s)
  show ?case
  proof (cases "s = []")
    case True
    with snoc.prems show ?thesis by (subst show_nat.simps) simp
  next
    case False
    with snoc have IH: "show_nat (digits_value s) = s" "is_digit c" by simp_all
    from False obtain d t where s: "s = d # t" by (cases s) simp_all
    have "CHR ''0'' = digit_char 0" by (metis digit_char_val digit_val_zero zero_is_digit)
    moreover have "is_digit d" using snoc.prems s by simp
    moreover have "d \<noteq> CHR ''0''" using snoc.prems s by auto
    ultimately have "digit_val d \<noteq> 0" using digit_char_val [of d] by metis
    moreover have "digits_value s = digit_val d * 10 ^ length t + digits_value t"
      using digits_from_shift [of "digit_val d" t] s by (simp add: digits_from_def)
    ultimately have "digits_value s \<noteq> 0" by simp
    then have "\<not> digits_value (s @ [c]) < 10" by simp
    then show ?thesis using IH by (subst show_nat.simps) simp
  qed
qed

section \<open>Reading integers\<close>

text \<open>
  \<open>std::from_chars\<close> followed by the test that all characters were consumed: digits only,
  for a signed type after an optional minus sign, and the value in range.
\<close>

definition read_unsigned :: "nat \<Rightarrow> string \<Rightarrow> nat option" where
  "read_unsigned limit s =
    (if s \<noteq> [] \<and> list_all is_digit s \<and> digits_value s < limit then Some (digits_value s) else None)"

definition read_signed :: "nat \<Rightarrow> string \<Rightarrow> int option" where
  "read_signed limit s =
    (case s of
       c # r \<Rightarrow>
         if c = CHR ''-'' then
           (case read_unsigned (limit + 1) r of None \<Rightarrow> None | Some n \<Rightarrow> Some (- int n))
         else map_option int (read_unsigned limit s)
     | [] \<Rightarrow> None)"

lemma read_unsigned_show [simp]: "n < limit \<Longrightarrow> read_unsigned limit (show_nat n) = Some n"
  by (simp add: read_unsigned_def show_nat_digits)

lemma read_unsigned_bound: "read_unsigned limit s = Some n \<Longrightarrow> n < limit"
  by (auto simp: read_unsigned_def split: if_splits)

lemma minus_not_digit [simp]: "\<not> is_digit CHR ''-''"
  by (simp add: is_digit_def code_def)

lemma show_nat_not_minus: "show_nat n \<noteq> CHR ''-'' # s"
  using show_nat_digits [of n] by auto

lemma read_signed_show:
  assumes "- int limit \<le> i" "i < int limit"
  shows "read_signed limit (show_int i) = Some i"
proof (cases "i < 0")
  case True
  with assms have "read_unsigned (limit + 1) (show_nat (nat (- i))) = Some (nat (- i))"
    by (intro read_unsigned_show) linarith
  with True show ?thesis by (simp add: read_signed_def show_int_def)
next
  case False
  with assms have r: "read_unsigned limit (show_nat (nat i)) = Some (nat i)"
    by (intro read_unsigned_show) linarith
  obtain c t where "show_nat (nat i) = c # t" by (cases "show_nat (nat i)") simp_all
  with r False show_nat_not_minus [of "nat i"] show ?thesis
    by (auto simp: read_signed_def show_int_def)
qed

text \<open>Integers of a machine width.\<close>

definition show_word :: "'a::len word \<Rightarrow> string" where
  "show_word w = show_nat (unat w)"

definition read_word :: "string \<Rightarrow> 'a::len word option" where
  "read_word s = map_option word_of_nat (read_unsigned (2 ^ LENGTH('a)) s)"

lemma read_word_show [simp]: "read_word (show_word (w :: 'a::len word)) = Some w"
  by (simp add: read_word_def show_word_def unsigned_less)

section \<open>Splitting\<close>

lemma takeWhile_all: "list_all P xs \<Longrightarrow> takeWhile P xs = xs"
  by (simp add: list_all_iff takeWhile_eq_all_conv)

lemma dropWhile_all: "list_all P xs \<Longrightarrow> dropWhile P xs = []"
  by (simp add: list_all_iff)

lemma takeWhile_stop: "list_all P xs \<Longrightarrow> \<not> P y \<Longrightarrow> takeWhile P (xs @ y # ys) = xs"
  by (simp add: list_all_iff takeWhile_append2)

lemma dropWhile_stop: "list_all P xs \<Longrightarrow> \<not> P y \<Longrightarrow> dropWhile P (xs @ y # ys) = y # ys"
  by (simp add: list_all_iff dropWhile_append2)

section \<open>Decimal fractions\<close>

text \<open>
  \<open>input >> value\<close> on a \<open>double\<close>, with the test that nothing is left over: an optional sign,
  digits with an optional point, an optional exponent; a magnitude beyond the largest
  \<open>double\<close> fails.
\<close>

definition read_sign :: "string \<Rightarrow> bool \<times> string" where
  "read_sign s = (case s of
     c # r \<Rightarrow> if c = CHR ''-'' then (True, r) else if c = CHR ''+'' then (False, r) else (False, s)
   | [] \<Rightarrow> (False, []))"

definition read_exponent :: "string \<Rightarrow> int option" where
  "read_exponent s = (case s of
     [] \<Rightarrow> Some 0
   | c # r \<Rightarrow>
       if c = CHR ''e'' \<or> c = CHR ''E'' then
         (let (neg, d) = read_sign r in
          if d \<noteq> [] \<and> list_all is_digit d
          then Some (if neg then - int (digits_value d) else int (digits_value d)) else None)
       else None)"

definition scale10 :: "rat \<Rightarrow> int \<Rightarrow> rat" where
  "scale10 x e = (if e < 0 then x / 10 ^ nat (- e) else x * 10 ^ nat e)"

definition read_real :: "string \<Rightarrow> rat option" where
  "read_real s =
    (let (neg, r) = read_sign s;
         ip = takeWhile is_digit r;
         rest = dropWhile is_digit r;
         (fp, tail) = (case rest of
            c # q \<Rightarrow> if c = CHR ''.'' then (takeWhile is_digit q, dropWhile is_digit q) else ([], rest)
          | [] \<Rightarrow> ([], []))
     in if ip = [] \<and> fp = [] then None
        else (case read_exponent tail of
            None \<Rightarrow> None
          | Some e \<Rightarrow>
              let x = scale10 (of_nat (digits_value (ip @ fp))) (e - int (length fp)) in
              if x < 2 ^ 1024 then Some (if neg then - x else x) else None))"

text \<open>\<open>printf("%.kf", x)\<close>: rounding to the nearest, ties to even.\<close>

definition round_even :: "rat \<Rightarrow> int" where
  "round_even x =
    (let f = \<lfloor>x\<rfloor>; d = x - of_int f in
     if d < 1 / 2 then f else if d > 1 / 2 then f + 1 else if even f then f else f + 1)"

definition pad_digits :: "nat \<Rightarrow> string \<Rightarrow> string" where
  "pad_digits k s = replicate (k - length s) CHR ''0'' @ s"

definition show_fixed :: "nat \<Rightarrow> rat \<Rightarrow> string" where
  "show_fixed k x =
    (let m = nat (round_even (\<bar>x\<bar> * 10 ^ k)) in
     (if x < 0 then ''-'' else '''') @ show_nat (m div 10 ^ k) @
     (if k = 0 then '''' else CHR ''.'' # pad_digits k (show_nat (m mod 10 ^ k))))"

definition rounded :: "nat \<Rightarrow> rat \<Rightarrow> rat" where
  "rounded k x = (if x < 0 then - 1 else 1) * of_int (round_even (\<bar>x\<bar> * 10 ^ k)) / 10 ^ k"

lemma round_even_nonneg: "0 \<le> x \<Longrightarrow> 0 \<le> round_even x"
  by (auto simp: round_even_def Let_def)

lemma round_even_le: "x \<le> of_int n \<Longrightarrow> round_even x \<le> n"
proof -
  assume x: "x \<le> of_int n"
  have f: "\<lfloor>x\<rfloor> \<le> n" using x by (simp add: floor_le_iff)
  show ?thesis
  proof (cases "\<lfloor>x\<rfloor> = n")
    case True
    then have "x = of_int n" using x by (metis antisym of_int_floor_le)
    then show ?thesis by (simp add: round_even_def Let_def)
  next
    case False
    with f have "\<lfloor>x\<rfloor> + 1 \<le> n" by simp
    then show ?thesis by (simp add: round_even_def Let_def)
  qed
qed

lemma digits_value_zeros [simp]: "digits_value (replicate n CHR ''0'' @ s) = digits_value s"
proof -
  have "digits_from 0 (replicate n CHR ''0'') = 0"
    by (induction n) (simp_all add: digits_from_def)
  then show ?thesis by simp
qed

lemma point_not_digit [simp]: "\<not> is_digit CHR ''.''"
  by (simp add: is_digit_def code_def)

lemma pad_digits_digits [simp]: "list_all is_digit s \<Longrightarrow> list_all is_digit (pad_digits k s)"
  by (auto simp: pad_digits_def list_all_iff)

lemma digits_value_pad [simp]: "digits_value (pad_digits k s) = digits_value s"
  unfolding pad_digits_def by (rule digits_value_zeros)

lemma length_pad: "length s \<le> k \<Longrightarrow> length (pad_digits k s) = k"
  by (simp add: pad_digits_def)

lemma digits_value_fixed:
  assumes "0 < k"
  shows "digits_value (show_nat (m div 10 ^ k) @ pad_digits k (show_nat (m mod 10 ^ k))) = m"
proof -
  obtain k' where k: "k = Suc k'" using assms by (cases k) simp_all
  have "length (pad_digits k (show_nat (m mod 10 ^ k))) = k"
    unfolding k by (intro length_pad length_show_nat) simp
  then show ?thesis
    using digits_from_shift [of "m div 10 ^ k" "pad_digits k (show_nat (m mod 10 ^ k))"]
    by (simp add: div_mult_mod_eq)
qed

lemma read_sign_digits [simp]:
  assumes "list_all is_digit s" "s \<noteq> []"
  shows "read_sign (s @ t) = (False, s @ t)" "read_sign (CHR ''-'' # s @ t) = (True, s @ t)"
proof -
  obtain c r where s: "s = c # r" using assms(2) by (cases s) simp_all
  then have "c \<noteq> CHR ''-''" "c \<noteq> CHR ''+''"
    using assms(1) by (auto simp: is_digit_def code_def)
  then show "read_sign (s @ t) = (False, s @ t)" by (simp add: read_sign_def s)
  show "read_sign (CHR ''-'' # s @ t) = (True, s @ t)" by (simp add: read_sign_def)
qed

lemma read_real_digits:
  assumes "0 < k" and "of_nat m / 10 ^ k < (2 :: rat) ^ 1024"
  shows "read_real ((if neg then ''-'' else '''') @ show_nat (m div 10 ^ k) @
      CHR ''.'' # pad_digits k (show_nat (m mod 10 ^ k))) =
    Some (if neg then - (of_nat m / 10 ^ k) else of_nat m / 10 ^ k)"
proof -
  let ?ip = "show_nat (m div 10 ^ k)" and ?fp = "pad_digits k (show_nat (m mod 10 ^ k))"
  obtain k' where k: "k = Suc k'" using assms(1) by (cases k) simp_all
  have len: "length ?fp = k"
    unfolding k by (intro length_pad length_show_nat) simp
  have ip: "list_all is_digit ?ip" "?ip \<noteq> []" and fp: "list_all is_digit ?fp"
    by (simp_all add: show_nat_digits)
  have sign: "read_sign ((if neg then ''-'' else '''') @ ?ip @ CHR ''.'' # ?fp) = (neg, ?ip @ CHR ''.'' # ?fp)"
    using read_sign_digits [OF ip, of "CHR ''.'' # ?fp"] by simp
  have v: "scale10 (of_nat (digits_value (?ip @ ?fp))) (0 - int (length ?fp)) = of_nat m / 10 ^ k"
    using digits_value_fixed [OF assms(1), of m] assms(1)
    by (simp add: scale10_def len del: digits_from_append)
  have split: "takeWhile is_digit (?ip @ CHR ''.'' # ?fp) = ?ip"
    "dropWhile is_digit (?ip @ CHR ''.'' # ?fp) = CHR ''.'' # ?fp"
    "takeWhile is_digit ?fp = ?fp" "dropWhile is_digit ?fp = []"
    using ip fp by (simp_all add: takeWhile_stop dropWhile_stop takeWhile_all dropWhile_all)
  have e: "read_exponent [] = Some 0" by (simp add: read_exponent_def)
  show ?thesis
    unfolding read_real_def sign Let_def prod.case split list.case
    using ip(2) v assms(2) by (simp add: e del: digits_from_append)
qed

lemma read_real_fixed:
  assumes "0 < k" and "\<bar>x\<bar> < 10 ^ 300"
  shows "read_real (show_fixed k x) = Some (rounded k x)"
proof -
  define z where "z = round_even (\<bar>x\<bar> * 10 ^ k)"
  have nonneg: "0 \<le> z" unfolding z_def by (rule round_even_nonneg) simp
  have "\<bar>x\<bar> * 10 ^ k \<le> of_int (10 ^ 300 * 10 ^ k)"
    using assms(2) by (simp add: mult_right_mono)
  then have "z \<le> 10 ^ 300 * 10 ^ k" unfolding z_def by (rule round_even_le)
  then have "(of_int z :: rat) \<le> of_int (10 ^ 300 * 10 ^ k)"
    by (simp only: of_int_le_iff)
  then have "of_int z / 10 ^ k \<le> (10 :: rat) ^ 300"
    by (simp add: divide_le_eq)
  also have "(10 :: rat) ^ 300 < 2 ^ 1024" by simp
  finally have b: "of_nat (nat z) / 10 ^ k < (2 :: rat) ^ 1024"
    using nonneg by simp
  have s: "show_fixed k x = (if x < 0 then ''-'' else '''') @ show_nat (nat z div 10 ^ k) @
      CHR ''.'' # pad_digits k (show_nat (nat z mod 10 ^ k))"
    using assms(1) by (simp add: show_fixed_def Let_def z_def)
  show ?thesis
    unfolding s read_real_digits [OF assms(1) b] rounded_def z_def [symmetric]
    using nonneg by simp
qed

section \<open>Lower-case hexadecimal\<close>

definition lower_hex_digit :: "char \<Rightarrow> nat option" where
  "lower_hex_digit c =
     (if char_between CHR ''0'' CHR ''9'' c then Some (code c - code CHR ''0'')
      else if char_between CHR ''a'' CHR ''f'' c then Some (code c - code CHR ''a'' + 10)
      else None)"

fun lower_hex_bytes :: "string \<Rightarrow> u8 list option" where
  "lower_hex_bytes [] = Some []"
| "lower_hex_bytes [c] = None"
| "lower_hex_bytes (c # d # cs) =
     (case (lower_hex_digit c, lower_hex_digit d) of
        (Some a, Some b) \<Rightarrow> map_option ((#) (word_of_nat (a * 16 + b))) (lower_hex_bytes cs)
      | _ \<Rightarrow> None)"

lemma lower_hex_digit_table:
  "list_all (\<lambda>v. lower_hex_digit (hex_char v) = Some v \<and> hex_char v \<noteq> CHR ''-'' \<and>
     32 < code (hex_char v) \<and> code (hex_char v) < 127) [0..<16]"
  by code_simp

lemma lower_hex_digit_char: "v < 16 \<Longrightarrow> lower_hex_digit (hex_char v) = Some v"
  using lower_hex_digit_table by (simp add: list_all_iff)

lemma lower_hex_digit_inv:
  assumes "lower_hex_digit c = Some v"
  shows "v < 16 \<and> hex_char v = c"
proof -
  have inv: "list_all (\<lambda>v. code (hex_char v) = (if v < 10 then 48 + v else 87 + v)) [0..<16]"
    by code_simp
  have lit: "code CHR ''0'' = 48" "code CHR ''9'' = 57" "code CHR ''a'' = 97" "code CHR ''f'' = 102"
    by (simp_all add: code_def)
  from assms have v: "v < 16" "code c = (if v < 10 then 48 + v else 87 + v)"
    unfolding lower_hex_digit_def char_between_def lit by (auto split: if_splits)
  with inv have "code (hex_char v) = code c" by (simp add: list_all_iff)
  with v(1) show ?thesis by (simp add: code_inject)
qed

lemma lower_hex_encode: "lower_hex_bytes (hex_encode bs) = Some bs"
proof (induction bs)
  case (Cons b bs)
  have "hex_encode (b # bs) = hex_char (unat b div 16) # hex_char (unat b mod 16) # hex_encode bs"
    by (simp add: hex_encode_def)
  then show ?case
    using Cons by (simp only: lower_hex_bytes.simps lower_hex_digit_char [OF byte_nibbles(1)]
        lower_hex_digit_char [OF byte_nibbles(2)] byte_nibbles(3)) simp
qed (simp add: hex_encode_def)

lemma lower_hex_canonical: "lower_hex_bytes s = Some bs \<Longrightarrow> s = hex_encode bs"
proof (induction s arbitrary: bs rule: lower_hex_bytes.induct)
  case (3 c d cs)
  then obtain a b r where ab: "lower_hex_digit c = Some a" "lower_hex_digit d = Some b"
    and r: "lower_hex_bytes cs = Some r" "bs = word_of_nat (a * 16 + b) # r"
    by (auto split: option.splits)
  have lt: "a < 16" "b < 16" "hex_char a = c" "hex_char b = d"
    using lower_hex_digit_inv ab by auto
  then have "unat (word_of_nat (a * 16 + b) :: u8) = a * 16 + b"
    by (simp only: unat_of_nat) simp
  then show ?case using 3(1) [OF refl ab r(1)] lt r(2) by (simp add: hex_encode_def)
qed (simp_all add: hex_encode_def)

interpretation lower_hex: canonical_codec hex_encode lower_hex_bytes "\<lambda>_. True"
  by unfold_locales (simp_all add: lower_hex_encode lower_hex_canonical)

end
