(* ===== verification/RakRecords.thy ===== *)
theory RakRecords
  imports Numbers Concentrator
begin

text \<open>
  The line protocol between the program and its receiver worker: the records the worker
  prints (\<open>rak_worker.c\<close>), the bounded parser of the parent (\<open>parse_rak_message\<close>), the
  transport reader that keeps the records before a failure (\<open>RakProcess::poll\<close>), and the
  command line that the parent builds and the worker parses.
\<close>

section \<open>Splitting a line at a separator\<close>

fun split_on :: "char \<Rightarrow> string \<Rightarrow> string list" where
  "split_on sep [] = [[]]"
| "split_on sep (c # cs) =
     (if c = sep then [] # split_on sep cs
      else case split_on sep cs of [] \<Rightarrow> [[c]] | w # ws \<Rightarrow> (c # w) # ws)"

lemma split_on_nonempty [simp]: "split_on sep s \<noteq> []"
  by (induction s) (auto split: list.splits)

lemma split_on_word: "sep \<notin> set w \<Longrightarrow> split_on sep w = [w]"
  by (induction w) auto

lemma split_on_append: "sep \<notin> set w \<Longrightarrow> split_on sep (w @ sep # s) = w # split_on sep s"
  by (induction w) auto

section \<open>Messages\<close>

datatype rak_message =
    Ready
  | Heartbeat
  | Scan (scan_freq: u64) (scan_start: rat) (scan_end: rat) (scan_counts: "u32 list")
  | Packet (pk_freq: u64) (pk_bw: u32) (pk_sf: u32) (pk_cr: u32) (pk_rssi: rat) (pk_snr: rat)
      (pk_crc: bool) (pk_us: u32) (pk_payload: "u8 list")
  | End
  | Error string

definition malformed :: string where
  "malformed = ''Invalid or oversized RAK worker record; reception stopped''"

definition error_codes :: "string list" where
  "error_codes =
    [''operation-timeout'', ''receive-timeout'', ''scan-timeout'', ''initialization-timeout'',
     ''invalid-arguments'', ''device-unavailable'', ''initialization-failed'', ''receive-failed'',
     ''usb-ack-header-timeout'', ''usb-ack-body-timeout'', ''usb-request-timeout'',
     ''scan-start-failed'', ''scan-tune-failed'', ''scan-command-failed'', ''scan-status-failed'',
     ''scan-read-failed'', ''scan-count-mismatch'', ''scan-incomplete'', ''record-overflow'',
     ''scanner-close-failed'', ''receiver-close-failed'', ''device-close-failed'']"

definition require_some :: "'a option \<Rightarrow> 'a result" where
  "require_some x = (case x of None \<Rightarrow> Inl malformed | Some v \<Rightarrow> Inr v)"

lemma require_some_Inr [simp]: "require_some x = Inr v \<longleftrightarrow> x = Some v"
  by (simp add: require_some_def split: option.split)

lemma require_some_Some [simp]: "require_some (Some v) = Inr v"
  by simp

definition number :: "string \<Rightarrow> 'a::len word result" where
  "number s = require_some (read_word s)"

definition real_number :: "string \<Rightarrow> rat result" where
  "real_number s = bind_result (guard_err (length s > 40) malformed) (\<lambda>_. require_some (read_real s))"

fun numbers :: "string list \<Rightarrow> 'a::len word list result" where
  "numbers [] = Inr []"
| "numbers (s # ss) = bind_result (number s) (\<lambda>n. bind_result (numbers ss) (\<lambda>ns. Inr (n # ns)))"

definition parse_scan :: "string list \<Rightarrow> rak_message result" where
  "parse_scan f =
    bind_result (number (f ! 1)) (\<lambda>freq.
    bind_result (real_number (f ! 2)) (\<lambda>start.
    bind_result (real_number (f ! 3)) (\<lambda>stop.
    bind_result (guard_err (unat (freq :: u64) < 902000000 \<or> unat freq > 928000000 \<or> start < 0 \<or>
        stop \<le> start \<or> stop - start > 5) malformed) (\<lambda>_.
    bind_result (numbers (drop 4 f)) (\<lambda>counts.
    bind_result (guard_err (fold (\<lambda>n acc. acc + ucast n) counts 0 \<noteq> (2000 :: u64)) malformed) (\<lambda>_.
    Inr (Scan freq start stop counts)))))))"

definition parse_payload :: "bool \<Rightarrow> string \<Rightarrow> u8 list result" where
  "parse_payload crc_valid hex =
    (if hex = ''-'' then Inr []
     else bind_result (guard_err (\<not> crc_valid \<or> length hex > 510 \<or> odd (length hex)) malformed) (\<lambda>_.
       require_some (lower_hex_bytes hex)))"

definition parse_packet :: "string list \<Rightarrow> rak_message result" where
  "parse_packet f =
    bind_result (number (f ! 1)) (\<lambda>freq.
    bind_result (number (f ! 2)) (\<lambda>bw.
    bind_result (number (f ! 3)) (\<lambda>sf.
    bind_result (number (f ! 4)) (\<lambda>cr.
    bind_result (real_number (f ! 5)) (\<lambda>rssi.
    bind_result (real_number (f ! 6)) (\<lambda>snr.
    bind_result (number (f ! 7)) (\<lambda>crc.
    bind_result (number (f ! 8)) (\<lambda>us.
    bind_result (guard_err (unat (freq :: u64) < 902000000 \<or> unat freq > 928000000 \<or>
        ((bw :: u32) \<noteq> 125000 \<and> bw \<noteq> 250000 \<and> bw \<noteq> 500000) \<or>
        unat (sf :: u32) < 7 \<or> unat sf > 12 \<or> unat (cr :: u32) < 5 \<or> unat cr > 8 \<or>
        unat (crc :: u32) > 1 \<or> rssi < -250 \<or> rssi > 100 \<or> snr < -100 \<or> snr > 100) malformed) (\<lambda>_.
    bind_result (parse_payload (crc = 1) (f ! 9)) (\<lambda>payload.
    Inr (Packet freq bw sf cr rssi snr (crc = 1) us payload)))))))))))"

definition parse_rak_message :: "string \<Rightarrow> rak_message result" where
  "parse_rak_message line =
    (if line = [] \<or> length line > 2048 then Inl malformed
     else let f = split_on CHR '' '' line; n = length f in
       if [] \<in> set f \<or> n > 48 then Inl malformed
       else if f ! 0 = ''ERROR'' then
         Inl (if n = 2 \<and> f ! 1 \<in> set error_codes then ''RAK receiver failure: '' @ f ! 1
              else ''RAK worker reported a USB or receiver failure; stop and reconnect the selected concentrator'')
       else if f ! 0 = ''READY'' \<and> n = 1 then Inr Ready
       else if f ! 0 = ''HEARTBEAT'' \<and> n = 1 then Inr Heartbeat
       else if f ! 0 = ''END'' \<and> n = 1 then Inr End
       else if f ! 0 = ''SCAN'' \<and> n = 37 then parse_scan f
       else if f ! 0 = ''PACKET'' \<and> n = 10 then parse_packet f
       else Inl malformed)"

section \<open>The transport reader\<close>

record rak_link =
  lk_pending :: string
  lk_ended :: bool
  lk_saw_end :: bool
  lk_failed :: bool
  lk_eof :: bool

definition new_link :: rak_link where
  "new_link = \<lparr>lk_pending = '''', lk_ended = False, lk_saw_end = False, lk_failed = False, lk_eof = False\<rparr>"

text \<open>What one \<open>recv\<close> returns: bytes, the end of the stream, nothing yet, or an error.\<close>

datatype received = Bytes string | Closed | Nothing | Broken

text \<open>The loop over the bytes read; a failure keeps the records before it.\<close>

definition take_byte :: "char \<Rightarrow> rak_link \<Rightarrow> (rak_message list \<times> rak_link) result" where
  "take_byte c k =
    (if lk_saw_end k then Inl malformed
     else if c = CHR 0x0A then
       bind_result (parse_rak_message (lk_pending k)) (\<lambda>m.
         Inr ([m], if m = End then k\<lparr>lk_pending := '''', lk_saw_end := True, lk_ended := True\<rparr>
                   else k\<lparr>lk_pending := ''''\<rparr>))
     else if length (lk_pending k) \<ge> 2048 \<or> code c < 32 \<or> code c > 126 then Inl malformed
     else Inr ([], k\<lparr>lk_pending := lk_pending k @ [c]\<rparr>))"

fun take_bytes :: "string \<Rightarrow> rak_link \<Rightarrow> rak_message list \<times> rak_link \<times> string option" where
  "take_bytes [] k = ([], k, None)"
| "take_bytes (c # cs) k =
    (case take_byte c k of
       Inl e \<Rightarrow> ([], k, Some e)
     | Inr (ms, k') \<Rightarrow> (case take_bytes cs k' of (ms', rest) \<Rightarrow> (ms @ ms', rest)))"

definition terminal :: "string \<Rightarrow> rak_link \<Rightarrow> rak_message list \<times> rak_link" where
  "terminal reason k = ([Error reason], k\<lparr>lk_failed := True, lk_ended := True, lk_pending := ''''\<rparr>)"

definition rak_poll :: "received \<Rightarrow> rak_link \<Rightarrow> rak_message list \<times> rak_link" where
  "rak_poll input k =
    (if lk_eof k then ([], k)
     else case input of
       Closed \<Rightarrow>
         (let k' = k\<lparr>lk_eof := True, lk_ended := True\<rparr> in
          if \<not> lk_failed k' \<and> (\<not> lk_saw_end k' \<or> lk_pending k' \<noteq> '''')
          then terminal ''RAK worker closed without a complete END record; receiver may have disconnected'' k'
          else ([], k'))
     | Nothing \<Rightarrow> ([], k)
     | Broken \<Rightarrow> if \<not> lk_failed k then terminal ''RAK worker communication failed'' k else ([], k)
     | Bytes bs \<Rightarrow>
         if lk_failed k then ([], k)
         else
           (let (ms, k', e) = take_bytes bs k in
            case e of
              None \<Rightarrow> (ms, k')
            | Some reason \<Rightarrow> (let (es, k'') = terminal reason k' in (ms @ es, k''))))"

section \<open>The packet records of the worker\<close>

text \<open>
  A received packet of the vendor library: bandwidth in hertz (0 for an unknown code), coding
  rate code 1 to 4, floats that may not be finite.
\<close>

record hal_packet =
  hp_lora :: bool
  hp_bw :: u32
  hp_sf :: u32
  hp_coderate :: u32
  hp_freq :: u32
  hp_rssi :: "rat option"
  hp_snr :: "rat option"
  hp_crc_ok :: bool
  hp_us :: u32
  hp_payload :: "u8 list"

definition packet_line :: "hal_packet \<Rightarrow> string option" where
  "packet_line p =
    (case (hp_rssi p, hp_snr p) of
       (Some rssi, Some snr) \<Rightarrow>
         if \<not> hp_lora p \<or> hp_bw p = 0 \<or> hp_sf p < 7 \<or> hp_sf p > 12 \<or>
           hp_coderate p < 1 \<or> hp_coderate p > 4 \<or> length (hp_payload p) > 255 then None
         else
           (let header = ''PACKET '' @ show_word (hp_freq p) @ '' '' @ show_word (hp_bw p) @ '' '' @
                  show_word (hp_sf p) @ '' '' @ show_word (hp_coderate p + 4) @ '' '' @
                  show_fixed 3 rssi @ '' '' @ show_fixed 3 snr @ '' '' @
                  (if hp_crc_ok p then ''1'' else ''0'') @ '' '' @ show_word (hp_us p) @ '' ''
            in if length header + 2 * length (hp_payload p) + 3 \<ge> 1024 then None
               else Some (header @
                 (if \<not> hp_crc_ok p \<or> hp_payload p = [] then ''-'' else hex_encode (hp_payload p)) @
                 [CHR 0x0A]))
     | _ \<Rightarrow> None)"

section \<open>The command line of the worker\<close>

text \<open>\<open>strtoul\<close> with base 0 on a text with neither sign nor blank in front, all consumed.\<close>

fun digits_in :: "nat \<Rightarrow> nat \<Rightarrow> string \<Rightarrow> nat option" where
  "digits_in base acc [] = Some acc"
| "digits_in base acc (c # cs) =
     (case hex_digit c of
        None \<Rightarrow> None
      | Some d \<Rightarrow> if d < base then digits_in base (acc * base + d) cs else None)"

definition is_blank :: "char \<Rightarrow> bool" where
  "is_blank c \<longleftrightarrow> c = CHR '' '' \<or> (9 \<le> code c \<and> code c \<le> 13)"

definition strtoul0 :: "string \<Rightarrow> nat option" where
  "strtoul0 text =
    (let s = dropWhile is_blank text;
         (neg, r) = read_sign s;
         v = (if length r > 2 \<and> r ! 0 = CHR ''0'' \<and> r ! 1 \<in> {CHR ''x'', CHR ''X''} then digits_in 16 0 (drop 2 r)
              else if r \<noteq> [] \<and> r ! 0 = CHR ''0'' then digits_in 8 0 r
              else if r \<noteq> [] then digits_in 10 0 r else None)
     in case v of
          None \<Rightarrow> None
        | Some n \<Rightarrow> if n < 2 ^ 64 then Some (if neg then (2 ^ 64 - n) mod 2 ^ 64 else n) else None)"

definition worker_integer :: "string \<Rightarrow> u32 option" where
  "worker_integer text =
    (if text = [] \<or> hd text \<in> {CHR ''-'', CHR ''+'', CHR '' ''} then None
     else case strtoul0 text of
       None \<Rightarrow> None
     | Some v \<Rightarrow> if v > 4294967295 then None else Some (word_of_nat v))"

definition valid_device_path :: "string \<Rightarrow> bool" where
  "valid_device_path path \<longleftrightarrow> length path < 50 \<and> take 11 path = ''/dev/ttyACM'' \<and> drop 11 path \<noteq> [] \<and>
     list_all (\<lambda>c. char_between CHR ''0'' CHR ''9'' c \<or> char_between CHR ''a'' CHR ''z'' c \<or>
       char_between CHR ''A'' CHR ''Z'' c \<or> c = CHR ''-'' \<or> c = CHR ''_'') (drop 11 path)"

record rak_options =
  ro_device :: "string option"
  ro_freq :: u32
  ro_bw :: u32
  ro_sf :: u32
  ro_sync :: u32
  ro_lower :: u32
  ro_upper :: u32
  ro_step :: u32
  ro_samples :: u32
  ro_board :: u32

definition initial_options :: rak_options where
  "initial_options = \<lparr>ro_device = None, ro_freq = 0, ro_bw = 250000, ro_sf = 11, ro_sync = 0x2b, ro_lower = 0,
     ro_upper = 0, ro_step = 200000, ro_samples = 2000, ro_board = 0\<rparr>"

definition option_names :: "string list" where
  "option_names = [''--device'', ''--frequency'', ''--bandwidth'', ''--sf'', ''--sync'', ''--scan-lower'',
     ''--scan-upper'', ''--scan-step'', ''--scan-samples'', ''--board-index'']"

definition set_number :: "string \<Rightarrow> u32 \<Rightarrow> rak_options \<Rightarrow> rak_options" where
  "set_number opt v ops =
    (if opt = ''--frequency'' then ops\<lparr>ro_freq := v\<rparr>
     else if opt = ''--bandwidth'' then ops\<lparr>ro_bw := v\<rparr>
     else if opt = ''--sf'' then ops\<lparr>ro_sf := v\<rparr>
     else if opt = ''--sync'' then ops\<lparr>ro_sync := v\<rparr>
     else if opt = ''--scan-lower'' then ops\<lparr>ro_lower := v\<rparr>
     else if opt = ''--scan-upper'' then ops\<lparr>ro_upper := v\<rparr>
     else if opt = ''--scan-step'' then ops\<lparr>ro_step := v\<rparr>
     else if opt = ''--scan-samples'' then ops\<lparr>ro_samples := v\<rparr>
     else ops\<lparr>ro_board := v\<rparr>)"

text \<open>The loop over pairs of arguments; \<open>seen\<close> is the set of options given so far.\<close>

fun read_options :: "string list \<Rightarrow> string list \<Rightarrow> rak_options \<Rightarrow> rak_options option" where
  "read_options [] seen ops = Some ops"
| "read_options [opt] seen ops = None"
| "read_options (opt # arg # rest) seen ops =
    (if opt \<notin> set option_names \<or> opt \<in> set seen then None
     else if opt = ''--device'' then read_options rest (opt # seen) (ops\<lparr>ro_device := Some arg\<rparr>)
     else case worker_integer arg of
       None \<Rightarrow> None
     | Some v \<Rightarrow> read_options rest (opt # seen) (set_number opt v ops))"

definition options_ok :: "rak_options \<Rightarrow> bool" where
  "options_ok ops \<longleftrightarrow>
    (case ro_device ops of None \<Rightarrow> False | Some d \<Rightarrow> valid_device_path d) \<and> ro_board ops \<le> 1 \<and>
    (ro_sync ops = 0x2b \<or> ro_sync ops = 0x12 \<or> ro_sync ops = 0x34) \<and> 7 \<le> ro_sf ops \<and> ro_sf ops \<le> 12 \<and>
    (ro_bw ops = 125000 \<or> ro_bw ops = 250000 \<or> ro_bw ops = 500000) \<and>
    (ro_freq ops \<noteq> 0 \<longrightarrow> 902000000 \<le> ro_freq ops \<and> ro_freq ops \<le> 928000000) \<and>
    (ro_lower ops = 0 \<longleftrightarrow> ro_upper ops = 0) \<and>
    (ro_lower ops \<noteq> 0 \<longrightarrow> 902000000 \<le> ro_lower ops \<and> ro_upper ops \<le> 928000000 \<and> ro_lower ops \<le> ro_upper ops \<and>
      25000 \<le> ro_step ops \<and> ro_step ops \<le> 1000000 \<and> (ro_upper ops - ro_lower ops) div ro_step ops \<le> 1039) \<and>
    ro_samples ops = 2000 \<and> (ro_freq ops \<noteq> 0 \<or> ro_lower ops \<noteq> 0)"

definition parse_options :: "string list \<Rightarrow> rak_options option" where
  "parse_options args =
    (case read_options args [] initial_options of
       None \<Rightarrow> None
     | Some ops \<Rightarrow> if options_ok ops then Some ops else None)"

text \<open>The arguments that \<open>RakProcess::start\<close> passes.\<close>

definition worker_arguments :: "board_config \<Rightarrow> int \<Rightarrow> u64 \<Rightarrow> u64 \<Rightarrow> u32 \<Rightarrow> u32 \<Rightarrow> nat \<Rightarrow> string list" where
  "worker_arguments b offset lower upper step samples index =
    [''--device'', bc_path b,
     ''--frequency'', show_int (if bc_packets b then uint (bc_freq b) + offset else 0),
     ''--bandwidth'', show_word (bc_bw b), ''--sf'', show_word (bc_sf b), ''--sync'', show_word (bc_sync b),
     ''--scan-lower'', show_int (if lower \<noteq> 0 then uint lower + offset else 0),
     ''--scan-upper'', show_int (if upper \<noteq> 0 then uint upper + offset else 0),
     ''--scan-step'', show_word step, ''--scan-samples'', show_word samples,
     ''--board-index'', show_nat index]"

section \<open>Reading in pieces\<close>

lemma take_bytes_append:
  "take_bytes (xs @ ys) k =
    (case take_bytes xs k of
       (ms, k', Some e) \<Rightarrow> (ms, k', Some e)
     | (ms, k', None) \<Rightarrow> (case take_bytes ys k' of (ms', rest) \<Rightarrow> (ms @ ms', rest)))"
  by (induction xs arbitrary: k) (auto split: prod.splits option.splits sum.splits)

lemma take_byte_flags:
  "take_byte c k = Inr (ms, k') \<Longrightarrow> lk_failed k' = lk_failed k \<and> lk_eof k' = lk_eof k"
  by (auto simp: take_byte_def bind_result_Inr split: if_splits)

lemma take_bytes_flags:
  "take_bytes xs k = (ms, k', e) \<Longrightarrow> lk_failed k' = lk_failed k \<and> lk_eof k' = lk_eof k"
  by (induction xs arbitrary: k ms k' e) (fastforce dest: take_byte_flags split: prod.splits sum.splits)+

text \<open>
  C18: how the operating system cuts the worker's output into reads makes no difference. One
  read of two pieces of text delivers the records, in order, and leaves the state that reading
  the pieces one after the other does, failures included.
\<close>

theorem reads_may_be_split:
  "rak_poll (Bytes (xs @ ys)) k =
    (case rak_poll (Bytes xs) k of
       (ms, k') \<Rightarrow> (case rak_poll (Bytes ys) k' of (ms', k'') \<Rightarrow> (ms @ ms', k'')))"
proof (cases "lk_eof k \<or> lk_failed k")
  case True
  then show ?thesis by (auto simp: rak_poll_def)
next
  case False
  obtain ms k1 e where xs: "take_bytes xs k = (ms, k1, e)" by (metis prod_cases3)
  from take_bytes_flags [OF xs] False have f: "\<not> lk_eof k1" "\<not> lk_failed k1" by simp_all
  show ?thesis
  proof (cases e)
    case None
    obtain ms2 k2 e2 where ys: "take_bytes ys k1 = (ms2, k2, e2)" by (metis prod_cases3)
    then show ?thesis using False xs None f
      by (cases e2) (simp_all add: rak_poll_def take_bytes_append terminal_def Let_def)
  next
    case (Some r)
    then show ?thesis using False xs f
      by (simp add: rak_poll_def take_bytes_append terminal_def Let_def)
  qed
qed

text \<open>
  The invariant of a link: the unfinished record is bounded, and after the END record or a
  failure nothing is pending.
\<close>

definition link_ok :: "rak_link \<Rightarrow> bool" where
  "link_ok k \<longleftrightarrow> length (lk_pending k) \<le> 2048 \<and>
     list_all (\<lambda>c. 32 \<le> code c \<and> code c \<le> 126) (lk_pending k) \<and>
     (lk_saw_end k \<or> lk_failed k \<longrightarrow> lk_pending k = '''' \<and> lk_ended k)"

lemma parse_never_error: "parse_rak_message s \<noteq> Inr (Error r)"
  by (auto simp: parse_rak_message_def parse_scan_def parse_packet_def Let_def bind_result_Inr split: if_splits)

text \<open>
  The protocol of a stream of records, over the two flags \<open>saw_end\<close> and \<open>failed\<close>: data
  records, at most one END, at most one failure, and nothing after a failure.
\<close>

definition is_terminal :: "rak_message \<Rightarrow> bool" where
  "is_terminal m \<longleftrightarrow> m = End \<or> (\<exists>r. m = Error r)"

inductive rak_stream :: "bool \<Rightarrow> bool \<Rightarrow> rak_message list \<Rightarrow> bool \<Rightarrow> bool \<Rightarrow> bool" where
  stop: "rak_stream e f [] e f"
| data: "\<not> is_terminal m \<Longrightarrow> rak_stream False False ms e' f' \<Longrightarrow> rak_stream False False (m # ms) e' f'"
| finish: "rak_stream True False ms e' f' \<Longrightarrow> rak_stream False False (End # ms) e' f'"
| failure: "rak_stream e True ms e' f' \<Longrightarrow> rak_stream e False (Error r # ms) e' f'"

inductive_cases rak_stream_failedE: "rak_stream e True ms e' f'"
inductive_cases rak_stream_endedE: "rak_stream True False ms e' f'"

lemma rak_stream_append: "rak_stream e f ms e1 f1 \<Longrightarrow> rak_stream e1 f1 ms' e2 f2 \<Longrightarrow> rak_stream e f (ms @ ms') e2 f2"
  by (induction rule: rak_stream.induct) (auto intro: rak_stream.intros)

lemma rak_stream_shape:
  "rak_stream e f ms e' f' \<Longrightarrow>
    \<exists>ns t. ms = ns @ (if e' \<and> \<not> e then [End] else []) @ t \<and> list_all (\<lambda>m. \<not> is_terminal m) ns \<and>
      (if f' \<and> \<not> f then \<exists>r. t = [Error r] else t = [])"
proof (induction rule: rak_stream.induct)
  case (stop e f)
  then show ?case by simp
next
  case (data m ms e' f')
  then obtain ns t where "ms = ns @ (if e' \<and> \<not> False then [End] else []) @ t"
    "list_all (\<lambda>m. \<not> is_terminal m) (m # ns)" "if f' \<and> \<not> False then \<exists>r. t = [Error r] else t = []"
    by auto
  then show ?case by (intro exI [of _ "m # ns"] exI [of _ t]) simp
next
  case (finish ms e' f')
  from finish.hyps have "e' \<and> (if f' then \<exists>r. ms = [Error r] else ms = [])"
    by (elim rak_stream_endedE rak_stream_failedE) auto
  then show ?case by (intro exI [of _ "[]"] exI [of _ ms]) auto
next
  case (failure e ms e' f' r)
  from failure.hyps have "e' = e \<and> f' \<and> ms = []" by (elim rak_stream_failedE) auto
  then show ?case by (intro exI [of _ "[]"] exI [of _ "[Error r]"]) auto
qed

abbreviation streamed :: "rak_link \<Rightarrow> rak_message list \<Rightarrow> rak_link \<Rightarrow> bool" where
  "streamed k ms k' \<equiv> rak_stream (lk_saw_end k) (lk_failed k) ms (lk_saw_end k') (lk_failed k') \<and> link_ok k'"

lemma take_byte_streamed:
  assumes "take_byte c k = Inr (ms, k')" "link_ok k" "\<not> lk_failed k"
  shows "streamed k ms k'"
proof (cases "c = CHR 0x0A")
  case True
  with assms(1) obtain m where m: "parse_rak_message (lk_pending k) = Inr m" "ms = [m]" "\<not> lk_saw_end k"
    and k': "k' = (if m = End then k\<lparr>lk_pending := '''', lk_saw_end := True, lk_ended := True\<rparr>
      else k\<lparr>lk_pending := ''''\<rparr>)"
    by (auto simp: take_byte_def bind_result_Inr split: if_split_asm)
  from m(1) parse_never_error have "\<forall>r. m \<noteq> Error r" by auto
  with m k' assms(2,3) show ?thesis
    by (cases "m = End") (auto simp: link_ok_def is_terminal_def intro: rak_stream.intros)
next
  case False
  with assms show ?thesis
    by (auto simp: take_byte_def link_ok_def intro: rak_stream.stop split: if_split_asm)
qed

lemma take_bytes_streamed:
  "take_bytes xs k = (ms, k', e) \<Longrightarrow> link_ok k \<Longrightarrow> \<not> lk_failed k \<Longrightarrow> streamed k ms k'"
proof (induction xs arbitrary: k ms k' e)
  case Nil
  then show ?case by (auto intro: rak_stream.stop)
next
  case (Cons c xs)
  show ?case
  proof (cases "take_byte c k")
    case (Inl r)
    with Cons.prems show ?thesis by (auto intro: rak_stream.stop)
  next
    case (Inr a)
    obtain m1 k1 where a: "take_byte c k = Inr (m1, k1)" using Inr by (cases a) simp
    obtain m2 where rec: "take_bytes xs k1 = (m2, k', e)" "ms = m1 @ m2"
      using Cons.prems(1) a by (auto split: prod.splits)
    from take_byte_streamed [OF a Cons.prems(2,3)] take_byte_flags [OF a] Cons.prems(3)
    have 1: "streamed k m1 k1" "link_ok k1" "\<not> lk_failed k1" by simp_all
    from 1(1) Cons.IH [OF rec(1) 1(2,3)] show ?thesis
      unfolding rec(2) by (auto intro: rak_stream_append)
  qed
qed

lemma terminal_streamed:
  assumes "terminal r k = (ms, k')" "\<not> lk_failed k"
  shows "streamed k ms k'"
  using assms rak_stream.failure [OF rak_stream.stop, of "lk_saw_end k" r]
  by (auto simp: terminal_def link_ok_def)

lemma rak_poll_streamed:
  assumes "rak_poll r k = (ms, k')" "link_ok k"
  shows "streamed k ms k'"
proof (cases "lk_eof k \<or> lk_failed k")
  case True
  with assms show ?thesis
    by (cases r) (auto simp: rak_poll_def link_ok_def Let_def intro: rak_stream.stop split: if_split_asm)
next
  case False
  then have f: "\<not> lk_eof k" "\<not> lk_failed k" by simp_all
  show ?thesis
  proof (cases r)
    case (Bytes bs)
    obtain m1 k1 e where t: "take_bytes bs k = (m1, k1, e)" by (metis prod_cases3)
    note s1 = take_bytes_streamed [OF t assms(2) f(2)]
    have f1: "\<not> lk_failed k1" using take_bytes_flags [OF t] f by simp
    show ?thesis
    proof (cases e)
      case None
      with assms(1) Bytes f t s1 show ?thesis by (simp add: rak_poll_def)
    next
      case (Some x)
      obtain m2 where m2: "terminal x k1 = (m2, k')" "ms = m1 @ m2"
        using assms(1) Bytes f t Some by (auto simp: rak_poll_def split: prod.splits)
      from terminal_streamed [OF m2(1) f1] s1 show ?thesis
        unfolding m2(2) by (auto intro: rak_stream_append)
    qed
  next
    case Closed
    with assms f terminal_streamed [of _ "k\<lparr>lk_eof := True, lk_ended := True\<rparr>" ms k'] show ?thesis
      by (auto simp: rak_poll_def link_ok_def Let_def intro: rak_stream.stop split: if_split_asm)
  next
    case Nothing
    with assms f show ?thesis by (auto simp: rak_poll_def intro: rak_stream.stop)
  next
    case Broken
    with assms f terminal_streamed [of _ k ms k'] show ?thesis by (auto simp: rak_poll_def)
  qed
qed

fun poll_all :: "received list \<Rightarrow> rak_link \<Rightarrow> rak_message list \<times> rak_link" where
  "poll_all [] k = ([], k)"
| "poll_all (r # rs) k =
    (case rak_poll r k of (ms, k') \<Rightarrow> (case poll_all rs k' of (ms', k'') \<Rightarrow> (ms @ ms', k'')))"

lemma poll_all_streamed: "poll_all rs k = (ms, k') \<Longrightarrow> link_ok k \<Longrightarrow> streamed k ms k'"
proof (induction rs arbitrary: k ms)
  case Nil
  then show ?case by (auto intro: rak_stream.stop)
next
  case (Cons r rs)
  then obtain m1 k1 m2 where 1: "rak_poll r k = (m1, k1)" and 2: "poll_all rs k1 = (m2, k')" and ms: "ms = m1 @ m2"
    by (auto split: prod.splits)
  from rak_poll_streamed [OF 1 Cons.prems(2)] have 3: "streamed k m1 k1" .
  with Cons.IH [OF 2] show ?case unfolding ms by (auto intro: rak_stream_append)
qed

text \<open>
  C33: whatever a worker writes, the records handed on are data records, then at most one END,
  then at most one failure, and after a failure nothing more. The unfinished record never
  exceeds 2048 printable characters.
\<close>

theorem worker_stream_shape:
  assumes "poll_all rs new_link = (ms, k)"
  shows "\<exists>ns t. ms = ns @ (if lk_saw_end k then [End] else []) @ t \<and> End \<notin> set ns \<and>
    (\<forall>r. Error r \<notin> set ns) \<and> (if lk_failed k then \<exists>r. t = [Error r] else t = []) \<and>
    length (lk_pending k) \<le> 2048 \<and> list_all (\<lambda>c. 32 \<le> code c \<and> code c \<le> 126) (lk_pending k)"
proof -
  have "link_ok new_link" by (simp add: link_ok_def new_link_def)
  from poll_all_streamed [OF assms this] have p: "rak_stream False False ms (lk_saw_end k) (lk_failed k)" "link_ok k"
    by (simp_all add: new_link_def)
  from rak_stream_shape [OF p(1)] obtain ns t where "ms = ns @ (if lk_saw_end k then [End] else []) @ t"
    "list_all (\<lambda>m. \<not> is_terminal m) ns" "if lk_failed k then \<exists>r. t = [Error r] else t = []"
    by auto
  with p(2) show ?thesis
    by (intro exI [of _ ns] exI [of _ t] conjI) (auto simp: list_all_iff is_terminal_def link_ok_def split: if_splits)
qed

theorem worker_stream_shape_witness:
  "\<exists>k. poll_all [Bytes ''READ'', Nothing, Bytes [CHR ''Y'', CHR 0x0A, CHR ''x'', CHR 0x0A], Bytes ''END''] new_link =
     ([Ready, Error malformed], k) \<and> lk_failed k \<and> length (lk_pending k) \<le> 2048"
proof -
  let ?rs = "[Bytes ''READ'', Nothing, Bytes [CHR ''Y'', CHR 0x0A, CHR ''x'', CHR 0x0A], Bytes ''END'']"
  obtain k where k: "poll_all ?rs new_link = ([Ready, Error malformed], k)" "lk_failed k"
    by (simp add: rak_poll_def take_byte_def new_link_def code_def parse_rak_message_def Let_def terminal_def)
  with worker_stream_shape [OF k(1)] show ?thesis by blast
qed

section \<open>Packet records survive the wire\<close>

definition plain :: "string \<Rightarrow> bool" where
  "plain s \<longleftrightarrow> s \<noteq> [] \<and> list_all (\<lambda>c. 32 < code c \<and> code c < 127) s"

lemma plain_no_blank: "plain s \<Longrightarrow> CHR '' '' \<notin> set s"
  by (auto simp: plain_def list_all_iff code_def)

lemma plain_nonempty: "plain s \<Longrightarrow> s \<noteq> []"
  by (simp add: plain_def)

lemma plain_append: "plain s \<Longrightarrow> plain t \<Longrightarrow> plain (s @ t)"
  by (simp add: plain_def)

lemma plain_digits: "list_all is_digit s \<Longrightarrow> s \<noteq> [] \<Longrightarrow> plain s"
  by (auto simp: plain_def list_all_iff is_digit_def)

lemma plain_show_nat [simp]: "plain (show_nat n)"
  by (simp add: plain_digits show_nat_digits)

lemma plain_show_word [simp]: "plain (show_word w)"
  by (simp add: show_word_def)

lemma plain_show_fixed: "plain (show_fixed 3 x)"
proof -
  define m where "m = nat (round_even (\<bar>x\<bar> * 10 ^ 3))"
  have "pad_digits 3 (show_nat (m mod 10 ^ 3)) \<noteq> []" by (simp add: pad_digits_def)
  then have pad: "plain (pad_digits 3 (show_nat (m mod 10 ^ 3)))"
    using show_nat_digits by (intro plain_digits) simp_all
  have sign: "plain ''-''" "plain ''.''" by (simp_all add: plain_def code_def)
  have "plain (show_nat (m div 10 ^ 3) @ ''.'' @ pad_digits 3 (show_nat (m mod 10 ^ 3)))"
    by (rule plain_append [OF plain_show_nat plain_append [OF sign(2) pad]])
  moreover have "show_fixed 3 x = (if x < 0 then ''-'' else '''') @
      show_nat (m div 10 ^ 3) @ ''.'' @ pad_digits 3 (show_nat (m mod 10 ^ 3))"
    unfolding show_fixed_def Let_def m_def by simp
  ultimately show ?thesis
    using plain_append [OF sign(1)] by simp
qed

lemma hex_char_plain: "v < 16 \<Longrightarrow> 32 < code (hex_char v) \<and> code (hex_char v) < 127 \<and> hex_char v \<noteq> CHR ''-''"
  using lower_hex_digit_table by (simp add: list_all_iff)

lemma hex_encode_codes: "list_all (\<lambda>c. 32 < code c \<and> code c < 127 \<and> c \<noteq> CHR ''-'') (hex_encode bs)"
proof (induction bs)
  case (Cons b bs)
  then show ?case
    using hex_char_plain [OF byte_nibbles(1)] hex_char_plain [OF byte_nibbles(2)]
    by (simp add: hex_encode_def)
qed (simp add: hex_encode_def)

lemma plain_hex:
  assumes "bs \<noteq> []"
  shows "plain (hex_encode bs)"
proof -
  have "length (hex_encode bs) \<noteq> 0" using assms by simp
  then have "hex_encode bs \<noteq> []" by (metis list.size(3))
  then show ?thesis
    using hex_encode_codes [of bs] by (simp add: plain_def list_all_iff)
qed

lemma number_show [simp]: "number (show_word w) = Inr w"
  by (simp add: number_def)

lemma split_words:
  assumes "list_all plain ws" "ws \<noteq> []"
  shows "split_on CHR '' '' (concat (map (\<lambda>w. w @ '' '') (butlast ws)) @ last ws) = ws"
  using assms
proof (induction ws)
  case Nil
  then show ?case by simp
next
  case (Cons w ws)
  show ?case
  proof (cases "ws = []")
    case True
    with Cons.prems show ?thesis by (simp add: split_on_word plain_no_blank)
  next
    case False
    with Cons show ?thesis
      using split_on_append [of "CHR '' ''" w] by (simp add: plain_no_blank)
  qed
qed

definition packet_words :: "hal_packet \<Rightarrow> rat \<Rightarrow> rat \<Rightarrow> string list" where
  "packet_words p rssi snr = [''PACKET'', show_word (hp_freq p), show_word (hp_bw p), show_word (hp_sf p),
     show_word (hp_coderate p + 4), show_fixed 3 rssi, show_fixed 3 snr, if hp_crc_ok p then ''1'' else ''0'',
     show_word (hp_us p), if \<not> hp_crc_ok p \<or> hp_payload p = [] then ''-'' else hex_encode (hp_payload p)]"

lemma packet_words_plain: "list_all plain (packet_words p rssi snr)"
  by (simp add: packet_words_def plain_show_fixed plain_hex) (simp add: plain_def code_def)

lemma packet_line_words:
  assumes "packet_line p = Some line" "hp_rssi p = Some rssi" "hp_snr p = Some snr"
  shows "butlast line = concat (map (\<lambda>w. w @ '' '') (butlast (packet_words p rssi snr))) @ last (packet_words p rssi snr)"
    and "length line < 1024" and "last line = CHR 0x0A"
proof -
  from assms have "line = concat (map (\<lambda>w. w @ '' '') (butlast (packet_words p rssi snr))) @
      last (packet_words p rssi snr) @ [CHR 0x0A]"
    by (auto simp: packet_line_def packet_words_def Let_def split: if_split_asm)
  then show "butlast line = concat (map (\<lambda>w. w @ '' '') (butlast (packet_words p rssi snr))) @ last (packet_words p rssi snr)"
    "last line = CHR 0x0A"
    by (simp_all flip: append_assoc add: butlast_append)
  show "length line < 1024"
    using assms by (auto simp: packet_line_def Let_def split: if_split_asm)
qed

lemma show_word_1_u32: "number ''1'' = Inr (1 :: u32)" "number ''0'' = Inr (0 :: u32)"
  by (simp_all add: number_def read_word_def read_unsigned_def digits_from_def digit_val_def is_digit_def code_def)

lemma rounded_limit:
  assumes "\<bar>rounded 3 x\<bar> \<le> 250"
  shows "round_even (\<bar>x\<bar> * 10 ^ 3) \<le> 250000" "\<bar>x\<bar> < 10 ^ 300"
proof -
  define z where "z = round_even (\<bar>x\<bar> * 10 ^ 3)"
  have "0 \<le> z" unfolding z_def by (rule round_even_nonneg) simp
  moreover have "\<bar>rounded 3 x\<bar> = \<bar>rat_of_int z\<bar> / 1000"
    unfolding rounded_def z_def [symmetric] by (simp add: abs_mult)
  ultimately have "rat_of_int z \<le> rat_of_int 250000" using assms by simp
  then have z: "z \<le> 250000" by (simp only: of_int_le_iff)
  then show "round_even (\<bar>x\<bar> * 10 ^ 3) \<le> 250000" by (simp add: z_def)
  have "\<lfloor>\<bar>x\<bar> * 10 ^ 3\<rfloor> \<le> z" by (auto simp: z_def round_even_def Let_def)
  then have "\<bar>x\<bar> * 10 ^ 3 < rat_of_int (250000 + 1)" using z unfolding floor_le_iff by linarith
  then have "\<bar>x\<bar> < 251" by simp
  then show "\<bar>x\<bar> < 10 ^ 300" by (rule order.strict_trans) simp
qed

lemma length_show_fixed:
  assumes "round_even (\<bar>x\<bar> * 10 ^ 3) \<le> 250000"
  shows "length (show_fixed 3 x) \<le> 40"
proof -
  define m where "m = nat (round_even (\<bar>x\<bar> * 10 ^ 3))"
  have "m div 10 ^ 3 < 10 ^ Suc 2" unfolding m_def using assms by simp
  then have 1: "length (show_nat (m div 10 ^ 3)) \<le> Suc 2" by (rule length_show_nat)
  have "length (show_nat (m mod 10 ^ 3)) \<le> Suc 2" by (rule length_show_nat) simp
  then have 2: "length (pad_digits 3 (show_nat (m mod 10 ^ 3))) = 3" by (intro length_pad) simp
  have "show_fixed 3 x = (if x < 0 then ''-'' else '''') @
      show_nat (m div 10 ^ 3) @ ''.'' @ pad_digits 3 (show_nat (m mod 10 ^ 3))"
    unfolding show_fixed_def Let_def m_def by simp
  with 1 2 show ?thesis by simp
qed

lemma real_number_fixed:
  assumes "\<bar>x\<bar> < 2 ^ 128"
  shows "real_number (show_fixed 3 x) = Inr (rounded 3 x) \<or>
    real_number (show_fixed 3 x) = Inl malformed \<and> 250 < \<bar>rounded 3 x\<bar>"
proof -
  have "\<bar>x\<bar> < 10 ^ 300" using assms by (rule order.strict_trans) simp
  then have "read_real (show_fixed 3 x) = Some (rounded 3 x)" by (intro read_real_fixed) simp_all
  moreover have "length (show_fixed 3 x) \<le> 40 \<or> 250 < \<bar>rounded 3 x\<bar>"
    using length_show_fixed [OF rounded_limit(1) [of x]] by linarith
  ultimately show ?thesis by (auto simp: real_number_def guard_err_def)
qed

lemma number_show_wide: "number (show_word (w :: u32)) = Inr (ucast w :: u64)"
proof -
  have "show_word w = show_word (ucast w :: u64)" by (simp add: show_word_def unat_ucast_32_64)
  then show ?thesis by simp
qed

text \<open>The fields of a packet that the reader accepts.\<close>

definition packet_accepted :: "hal_packet \<Rightarrow> rat \<Rightarrow> rat \<Rightarrow> bool" where
  "packet_accepted p rssi snr \<longleftrightarrow> unat (hp_freq p) \<in> {902000000..928000000} \<and> hp_bw p \<in> {125000, 250000, 500000} \<and>
     rounded 3 rssi \<in> {-250..100} \<and> rounded 3 snr \<in> {-100..100}"

lemma parse_packet_words:
  assumes "packet_line p = Some line" and "hp_rssi p = Some rssi" and "hp_snr p = Some snr"
    and "\<bar>rssi\<bar> < 2 ^ 128" "\<bar>snr\<bar> < 2 ^ 128"
  shows "parse_packet (packet_words p rssi snr) = (if packet_accepted p rssi snr
    then Inr (Packet (ucast (hp_freq p)) (hp_bw p) (hp_sf p) (hp_coderate p + 4) (rounded 3 rssi) (rounded 3 snr)
      (hp_crc_ok p) (hp_us p) (if hp_crc_ok p then hp_payload p else []))
    else Inl malformed)"
proof -
  let ?ws = "packet_words p rssi snr"
  have f: "hp_sf p \<ge> 7" "hp_sf p \<le> 12" "hp_coderate p \<noteq> 0" "hp_coderate p \<le> 4" "length (hp_payload p) \<le> 255"
    using assms(1-3) by (auto simp: packet_line_def not_less split: if_split_asm)
  then have sf: "\<not> unat (hp_sf p) < 7" "\<not> unat (hp_sf p) > 12" by (simp_all add: word_le_nat_alt)
  have "unat (hp_coderate p + 4) = unat (hp_coderate p) + 4" "1 \<le> unat (hp_coderate p)" "unat (hp_coderate p) \<le> 4"
    using f by (simp_all add: word_le_nat_alt unat_add_lem [THEN iffD1] Suc_le_eq unat_gt_0)
  then have cr: "\<not> unat (hp_coderate p + 4) < 5" "\<not> unat (hp_coderate p + 4) > 8" by linarith+
  have pay: "parse_payload (hp_crc_ok p) (if \<not> hp_crc_ok p \<or> hp_payload p = [] then ''-'' else hex_encode (hp_payload p)) =
      Inr (if hp_crc_ok p then hp_payload p else [])"
  proof (cases "hp_crc_ok p \<and> hp_payload p \<noteq> []")
    case True
    then have "hex_encode (hp_payload p) \<noteq> ''-''"
      using hex_encode_codes [of "hp_payload p"] by auto
    with True f(5) show ?thesis by (simp add: parse_payload_def lower_hex_encode guard_err_def)
  next
    case False
    then show ?thesis by (auto simp: parse_payload_def)
  qed
  have crc: "(number (if hp_crc_ok p then ''1'' else ''0'') :: u32 result) = Inr (if hp_crc_ok p then 1 else 0)"
    by (simp add: show_word_1_u32)
  have acc: "packet_accepted p rssi snr \<longleftrightarrow> \<not> (unat (ucast (hp_freq p) :: u64) < 902000000 \<or> unat (ucast (hp_freq p) :: u64) > 928000000 \<or>
        (hp_bw p \<noteq> 125000 \<and> hp_bw p \<noteq> 250000 \<and> hp_bw p \<noteq> 500000) \<or>
        unat (hp_sf p) < 7 \<or> unat (hp_sf p) > 12 \<or> unat (hp_coderate p + 4) < 5 \<or> unat (hp_coderate p + 4) > 8 \<or>
        unat (if hp_crc_ok p then 1 else 0 :: u32) > 1 \<or>
        rounded 3 rssi < -250 \<or> rounded 3 rssi > 100 \<or> rounded 3 snr < -100 \<or> rounded 3 snr > 100)"
    using sf cr by (auto simp: packet_accepted_def unat_ucast_32_64 not_less)
  have ok1: "((if hp_crc_ok p then 1 else 0 :: u32) = 1) = hp_crc_ok p" by simp
  note ps = parse_packet_def packet_words_def
  have w: "?ws ! 1 = show_word (hp_freq p)" "?ws ! 2 = show_word (hp_bw p)" "?ws ! 3 = show_word (hp_sf p)"
    "?ws ! 4 = show_word (hp_coderate p + 4)" "?ws ! 5 = show_fixed 3 rssi" "?ws ! 6 = show_fixed 3 snr"
    "?ws ! 7 = (if hp_crc_ok p then ''1'' else ''0'')" "?ws ! 8 = show_word (hp_us p)"
    "?ws ! 9 = (if \<not> hp_crc_ok p \<or> hp_payload p = [] then ''-'' else hex_encode (hp_payload p))"
    by (simp_all add: packet_words_def)
  have u: "number (show_word (w :: 'x::len word)) = Inr w" for w by simp
  show ?thesis
  proof (cases "real_number (show_fixed 3 rssi) = Inr (rounded 3 rssi) \<and> real_number (show_fixed 3 snr) = Inr (rounded 3 snr)")
    case True
    then show ?thesis
      unfolding parse_packet_def w number_show_wide u crc bind_result_simps conjunct1 [OF True] conjunct2 [OF True] ok1 pay acc
      by (simp only: guard_err_def bind_result_simps if_distrib [of "\<lambda>r. bind_result r f" for f] split: if_split) auto
  next
    case False
    then have bad: "(real_number (show_fixed 3 rssi) = Inl malformed \<or> real_number (show_fixed 3 snr) = Inl malformed) \<and>
        \<not> packet_accepted p rssi snr"
      using real_number_fixed [OF assms(4)] real_number_fixed [OF assms(5)] by (auto simp: packet_accepted_def)
    then have "parse_packet ?ws = Inl malformed"
      unfolding parse_packet_def w number_show_wide u bind_result_simps
      using real_number_fixed [OF assms(4)] real_number_fixed [OF assms(5)] by auto
    then show ?thesis using bad by simp
  qed
qed

text \<open>
  C32: what the worker prints of a packet is what the program reads. Whatever packet the worker
  prints, with levels that a \<open>float\<close> can hold, its record is read back with the same fields, the
  levels rounded to a thousandth, and the payload exactly, if its CRC was good, or none of it, when
  the packet is in the US915 band at a service bandwidth with an RSSI of -250 to 100 and an SNR of
  -100 to 100 after rounding; otherwise, and only then, it is refused as malformed.
\<close>

theorem packet_record_round_trip:
  assumes "packet_line p = Some line" and "hp_rssi p = Some rssi" and "hp_snr p = Some snr"
    and "\<bar>rssi\<bar> < 2 ^ 128" "\<bar>snr\<bar> < 2 ^ 128"
  shows "last line = CHR 0x0A \<and> parse_rak_message (butlast line) =
    (if unat (hp_freq p) \<in> {902000000..928000000} \<and> hp_bw p \<in> {125000, 250000, 500000} \<and>
       rounded 3 rssi \<in> {-250..100} \<and> rounded 3 snr \<in> {-100..100}
     then Inr (Packet (ucast (hp_freq p)) (hp_bw p) (hp_sf p) (hp_coderate p + 4) (rounded 3 rssi) (rounded 3 snr)
       (hp_crc_ok p) (hp_us p) (if hp_crc_ok p then hp_payload p else []))
     else Inl malformed)"
proof -
  let ?ws = "packet_words p rssi snr"
  note line = packet_line_words [OF assms(1-3)]
  have len: "length (butlast line) \<le> 2048" using line(2) by simp
  have ws: "split_on CHR '' '' (butlast line) = ?ws"
    unfolding line(1) by (rule split_words [OF packet_words_plain]) (simp add: packet_words_def)
  have "[] \<notin> set ?ws" using packet_words_plain [of p rssi snr] by (auto simp: list_all_iff plain_def)
  moreover have "butlast line \<noteq> []" unfolding line(1) by (simp add: packet_words_def)
  ultimately have "parse_rak_message (butlast line) = parse_packet ?ws"
    using len unfolding parse_rak_message_def ws by (simp add: Let_def packet_words_def)
  then show ?thesis
    using line(3) parse_packet_words [OF assms] unfolding packet_accepted_def by simp
qed

definition example_packet :: hal_packet where
  "example_packet = \<lparr>hp_lora = True, hp_bw = 250000, hp_sf = 11, hp_coderate = 1, hp_freq = 906875000,
     hp_rssi = Some (-80), hp_snr = Some 5, hp_crc_ok = True, hp_us = 7, hp_payload = [0x48, 0x69]\<rparr>"

lemma example_packet_line: "\<exists>line. packet_line example_packet = Some line"
  by (simp add: packet_line_def example_packet_def show_word_def show_nat.simps digit_char_def show_fixed_def
      round_even_def pad_digits_def Let_def)

definition weak_packet :: hal_packet where
  "weak_packet = example_packet\<lparr>hp_rssi := Some (-131), hp_snr := Some (-12)\<rparr>"

theorem packet_record_round_trip_witness:
  "\<exists>line. packet_line weak_packet = Some line \<and> parse_rak_message (butlast line) =
    Inr (Packet 906875000 250000 11 5 (rounded 3 (-131)) (rounded 3 (-12)) True 7 [0x48, 0x69])"
proof -
  obtain line where line: "packet_line weak_packet = Some line"
    by (auto simp: weak_packet_def packet_line_def example_packet_def show_word_def show_nat.simps digit_char_def show_fixed_def
      round_even_def pad_digits_def Let_def)
  have "rounded 3 (-131) \<in> {-250..100}" "rounded 3 (-12) \<in> {-100..100}"
    by (simp_all add: rounded_def round_even_def)
  then show ?thesis
    using packet_record_round_trip [OF line, of "-131" "-12"] line
    by (simp add: weak_packet_def example_packet_def)
qed

end
