(* ===== verification/Gps.thy ===== *)
theory Gps
  imports Survey RakRecords Numbers "HOL-Library.Sublist"
begin

text \<open>
  The serial GPS (\<open>gps.cpp\<close>): the parser of one checksummed NMEA sentence, the state of the
  serial reader with its delivery of fixes, and the choice of the fix that belongs to a
  sample time. A \<open>double\<close> is a rational number, and \<open>None\<close> where the code tests for a value
  that is not finite. The clocks are arguments: every operation that reads them takes
  their values. The device is what it answers: a list of events for the reader, and the
  outcome of each system call for \<open>start\<close>. The callback is a function that tells whether
  it throws; the fixes it has been given are recorded in the state.
\<close>

section \<open>Fields of a sentence\<close>

definition digits :: "string \<Rightarrow> bool" where
  "digits s \<longleftrightarrow> s \<noteq> [] \<and> list_all is_digit s"

fun integer_loop :: "nat \<Rightarrow> nat \<Rightarrow> string \<Rightarrow> nat option" where
  "integer_loop m r [] = Some r"
| "integer_loop m r (c # cs) =
     (let r' = r * 10 + digit_val c in if r' > m then None else integer_loop m r' cs)"

definition integer_field :: "string \<Rightarrow> nat \<Rightarrow> nat option" where
  "integer_field s m = (if \<not> digits s \<or> length s > 9 then None else integer_loop m 0 s)"

fun fraction_loop :: "rat \<Rightarrow> rat \<Rightarrow> string \<Rightarrow> rat" where
  "fraction_loop r scale [] = r"
| "fraction_loop r scale (c # cs) = fraction_loop (r + of_nat (digit_val c) * scale) (scale * (1 / 10)) cs"

text \<open>\<open>substr(0, find('.'))\<close>, and what follows the point if there is one.\<close>

definition decimal_field :: "string \<Rightarrow> bool \<Rightarrow> rat option" where
  "decimal_field s signed_value =
     (if s = [] \<or> length s > 24 then None
      else
        let negative = hd s = CHR ''-'' \<and> signed_value;
          v = (if negative then tl s else s);
          whole = takeWhile (\<lambda>c. c \<noteq> CHR ''.'') v;
          rest = dropWhile (\<lambda>c. c \<noteq> CHR ''.'') v
        in if \<not> digits whole \<or> length whole > 9 then None
        else
          let r = fold (\<lambda>c r. r * 10 + of_nat (digit_val c)) whole 0;
            sgn = (if negative then - 1 else 1)
          in case rest of
              [] \<Rightarrow> Some (r * sgn)
            | _ # fraction \<Rightarrow>
                if \<not> digits fraction \<or> length fraction > 12 then None
                else Some (fraction_loop r (1 / 10) fraction * sgn))"

definition clock_seconds :: "string \<Rightarrow> rat option" where
  "clock_seconds s =
     (if length s < 6 \<or> \<not> digits (take 6 s) \<or> (length s > 6 \<and> s ! 6 \<noteq> CHR ''.'') then None
      else case (integer_field (take 2 s) 23, integer_field (take 2 (drop 2 s)) 59,
                 decimal_field (drop 4 s) False) of
          (Some hour, Some minute, Some second) \<Rightarrow>
            if second \<ge> 60 then None else Some (of_nat (hour * 3600 + minute * 60) + second)
        | _ \<Rightarrow> None)"

text \<open>The proleptic Gregorian calendar of \<open>std::chrono\<close>, on the years 1980 to 2079.\<close>

definition leap_year :: "nat \<Rightarrow> bool" where
  "leap_year y \<longleftrightarrow> y mod 4 = 0 \<and> (y mod 100 \<noteq> 0 \<or> y mod 400 = 0)"

definition month_lengths :: "nat \<Rightarrow> nat list" where
  "month_lengths y = [31, if leap_year y then 29 else 28, 31, 30, 31, 30, 31, 31, 30, 31, 30, 31]"

definition days_since_1970 :: "nat \<Rightarrow> nat \<Rightarrow> nat \<Rightarrow> nat" where
  "days_since_1970 y m d =
     365 * (y - 1970) + ((y - 1) div 4 - (y - 1) div 100 + (y - 1) div 400 - 477) +
     sum_list (take (m - 1) (month_lengths y)) + (d - 1)"

definition date_seconds :: "string \<Rightarrow> rat option" where
  "date_seconds s =
     (if length s \<noteq> 6 \<or> \<not> digits s then None
      else case (integer_field (take 2 s) 31, integer_field (take 2 (drop 2 s)) 12,
                 integer_field (take 2 (drop 4 s)) 99) of
          (Some d, Some m, Some y) \<Rightarrow>
            if d = 0 \<or> m = 0 then None
            else
              let full = (if y \<ge> 80 then 1900 + y else 2000 + y)
              in if d > month_lengths full ! (m - 1) then None
              else Some (of_nat (86400 * days_since_1970 full m d))
        | _ \<Rightarrow> None)"

definition coordinate :: "string \<Rightarrow> string \<Rightarrow> bool \<Rightarrow> rat option" where
  "coordinate s direction latitude =
     (let n = (if latitude then 2 else 3); limit = (if latitude then 90 else 180)
      in if length s < n + 2 \<or> (length s > n + 2 \<and> s ! (n + 2) \<noteq> CHR ''.'') then None
      else case (integer_field (take n s) limit, decimal_field (drop n s) False) of
          (Some degree, Some minute) \<Rightarrow>
            if minute \<ge> 60 \<or> (degree = limit \<and> minute \<noteq> 0) then None
            else
              let r = of_nat degree + minute / 60
              in if direction = (if latitude then ''S'' else ''W'') then Some (- r)
              else if direction \<noteq> (if latitude then ''N'' else ''E'') then None
              else Some r
        | _ \<Rightarrow> None)"

definition invalidate :: "string \<Rightarrow> position_fix \<Rightarrow> position_fix" where
  "invalidate reason f = f\<lparr>px_valid := False, px_source := px_source f @ ''; '' @ reason\<rparr>"

section \<open>Sentences\<close>

definition maximum_sentence :: nat where
  "maximum_sentence = 128"

definition strip_newline :: "string \<Rightarrow> string" where
  "strip_newline s =
     (if suffix [CHR 0x0D, CHR 0x0A] s then take (length s - 2) s
      else if suffix [CHR 0x0A] s then take (length s - 1) s else s)"

definition printable :: "char \<Rightarrow> bool" where
  "printable c \<longleftrightarrow> 32 \<le> code c \<and> code c \<le> 126"

definition checksum :: "string \<Rightarrow> u8" where
  "checksum body = fold (\<lambda>c acc. acc XOR byte_of c) body 0"

text \<open>The text between \<open>$\<close> and \<open>*\<close>, once the frame and its checksum are right.\<close>

definition sentence_body :: "string \<Rightarrow> string option" where
  "sentence_body s =
     (if length s < 10 \<or> hd s \<noteq> CHR ''$'' then None
      else
        let star = length (takeWhile (\<lambda>c. c \<noteq> CHR ''*'') s)
        in if star = length s \<or> star + 3 \<noteq> length s then None
        else case (hex_digit (s ! (star + 1)), hex_digit (s ! (star + 2))) of
            (Some h, Some l) \<Rightarrow>
              let body = take (star - 1) (drop 1 s)
              in if \<not> list_all (\<lambda>c. printable c \<and> c \<noteq> CHR ''$'') body then None
              else if checksum body \<noteq> word_of_nat (16 * h + l) then None
              else Some body
          | _ \<Rightarrow> None)"

definition sentence_fields :: "string \<Rightarrow> string list option" where
  "sentence_fields body = (let f = split_on CHR '','' body in if length f > 20 then None else Some f)"

text \<open>A host or GNSS clock that disagrees makes the fix unusable.\<close>

definition finish_fix :: "rat \<Rightarrow> position_fix \<Rightarrow> position_fix" where
  "finish_fix received_utc fix0 =
     (let f = fix0\<lparr>px_valid := True\<rparr>
      in if received_utc - px_utc f > 10 \<or> px_utc f - received_utc > 5
         then invalidate ''stale/future sentence or host clock disagreement'' f else f)"

definition parse_rmc :: "string list \<Rightarrow> rat \<Rightarrow> rat \<Rightarrow> position_fix \<Rightarrow> position_fix option" where
  "parse_rmc f time received_utc fix0 =
     (let count = length f in
      case date_seconds (f ! 9) of
        None \<Rightarrow> None
      | Some date \<Rightarrow>
          let fix1 = fix0\<lparr>px_utc := date + time\<rparr> in
          if f ! 2 \<noteq> ''A'' \<and> f ! 2 \<noteq> ''V'' then None
          else if f ! 2 = ''V'' then Some (invalidate ''receiver reports invalid fix'' fix1)
          else if count > 12 \<and> f ! 12 \<noteq> [] \<and> f ! 12 \<notin> {''A'', ''D'', ''F'', ''P'', ''R''} then
            Some (invalidate ''unsupported or invalid navigation mode'' fix1)
          else if count > 13 \<and> f ! 13 \<noteq> [] \<and> f ! 13 \<notin> {''A'', ''D'', ''V''} then
            Some (invalidate ''invalid navigation status'' fix1)
          else case (coordinate (f ! 3) (f ! 4) True, coordinate (f ! 5) (f ! 6) False) of
              (Some lat, Some lon) \<Rightarrow>
                Some (finish_fix received_utc (fix1\<lparr>px_lat := lat, px_lon := lon\<rparr>))
            | _ \<Rightarrow> None)"

definition gga_utc :: "rat \<Rightarrow> rat \<Rightarrow> rat" where
  "gga_utc received_utc time =
     (let day = of_int \<lfloor>received_utc / 86400\<rfloor> * 86400;
        u = day + time;
        u' = (if u - received_utc > 43200 then u - 86400 else u)
      in if received_utc - u' > 43200 then u' + 86400 else u')"

definition parse_gga :: "string list \<Rightarrow> rat \<Rightarrow> rat \<Rightarrow> position_fix \<Rightarrow> position_fix option" where
  "parse_gga f time received_utc fix0 =
     (let fix1 = fix0\<lparr>px_utc := gga_utc received_utc time\<rparr> in
      case integer_field (f ! 6) 8 of
        None \<Rightarrow> None
      | Some quality \<Rightarrow>
          if quality = 0 then Some (invalidate ''receiver reports no fix'' fix1)
          else if quality > 5 then Some (invalidate ''estimated/manual/simulated fix excluded'' fix1)
          else case (coordinate (f ! 2) (f ! 3) True, coordinate (f ! 4) (f ! 5) False,
                     integer_field (f ! 7) 99, decimal_field (f ! 8) False) of
              (Some lat, Some lon, Some satellites, Some hdop) \<Rightarrow>
                if satellites = 0 \<or> hdop > 1000 then None
                else
                  let fix2 = fix1\<lparr>px_lat := lat, px_lon := lon, px_satellites := satellites,
                    px_hdop := Some hdop\<rparr>
                  in if f ! 9 = [] then Some (finish_fix received_utc fix2)
                  else (case decimal_field (f ! 9) True of
                      None \<Rightarrow> None
                    | Some altitude \<Rightarrow>
                        if altitude < - 12000 \<or> altitude > 100000 \<or> f ! 10 \<noteq> ''M'' then None
                        else Some (finish_fix received_utc (fix2\<lparr>px_alt := Some altitude\<rparr>)))
            | _ \<Rightarrow> None)"

definition upper_letter :: "char \<Rightarrow> bool" where
  "upper_letter c \<longleftrightarrow> 65 \<le> code c \<and> code c \<le> 90"

definition parse_fields :: "string list \<Rightarrow> rat \<Rightarrow> rat \<Rightarrow> position_fix option" where
  "parse_fields f received_monotonic received_utc =
     (let count = length f; kind = drop 2 (f ! 0) in
      if length (f ! 0) \<noteq> 5 \<or> \<not> upper_letter (f ! 0 ! 0) \<or> \<not> upper_letter (f ! 0 ! 1) then None
      else if kind \<noteq> ''RMC'' \<and> kind \<noteq> ''GGA'' then None
      else if (kind = ''RMC'' \<and> (count < 12 \<or> count > 14)) \<or> (kind = ''GGA'' \<and> count \<noteq> 15) then None
      else
        let fix0 = fresh_fix\<lparr>px_mono := received_monotonic, px_utc := received_utc,
          px_source := ''NMEA '' @ kind @
            (if kind = ''RMC'' then ''; GNSS UTC'' else ''; date inferred from host UTC'')\<rparr>
        in case clock_seconds (f ! 1) of
            None \<Rightarrow> None
          | Some time \<Rightarrow>
              if kind = ''RMC'' then parse_rmc f time received_utc fix0
              else parse_gga f time received_utc fix0)"

definition parse_nmea :: "string \<Rightarrow> rat option \<Rightarrow> rat option \<Rightarrow> position_fix option" where
  "parse_nmea s received_monotonic received_utc =
     (case (received_monotonic, received_utc) of
        (Some m, Some u) \<Rightarrow>
          if m < 0 \<or> u < 0 \<or> u > 4102444800 \<or> length s > maximum_sentence then None
          else (case sentence_body (strip_newline s) of
              None \<Rightarrow> None
            | Some body \<Rightarrow>
                (case sentence_fields body of None \<Rightarrow> None | Some f \<Rightarrow> parse_fields f m u))
      | _ \<Rightarrow> None)"

section \<open>The fix at a sample time\<close>

fun position_back :: "rat \<Rightarrow> position_fix list \<Rightarrow> position_fix option" where
  "position_back target [] = None"
| "position_back target (f # fs) =
     (if px_mono f > target then position_back target fs
      else if \<not> px_valid f then None
      else if px_manual f \<or> target - px_mono f \<le> 2 then Some f
      else None)"

definition position_at :: "position_fix list \<Rightarrow> rat option \<Rightarrow> position_fix option" where
  "position_at history target =
     (case target of
        None \<Rightarrow> None
      | Some t \<Rightarrow> if t < 0 then None else position_back t (rev history))"

section \<open>The serial reader\<close>

datatype gps_state = Disconnected | Waiting_For_Fix | Valid_Fix | Stale_Fix | Read_Error

record gps_status =
  gs_state :: gps_state
  gs_path :: string
  gs_detail :: string

definition no_connection :: gps_status where
  "no_connection = \<lparr>gs_state = Disconnected, gs_path = '''', gs_detail = ''GPS disconnected''\<rparr>"

record serial_gps =
  sg_running :: bool
  sg_worker :: bool
  sg_callback :: bool
  sg_pending :: string
  sg_last_utc :: rat
  sg_last_mono :: rat
  sg_last_fix :: "position_fix option"
  sg_connection :: gps_status
  sg_fresh_mono :: rat
  sg_device :: bool
  sg_delivered :: "position_fix list"

definition new_serial_gps :: serial_gps where
  "new_serial_gps = \<lparr>sg_running = False, sg_worker = False, sg_callback = False, sg_pending = '''',
     sg_last_utc = - 1, sg_last_mono = 0, sg_last_fix = None, sg_connection = no_connection,
     sg_fresh_mono = 0, sg_device = False, sg_delivered = []\<rparr>"

definition epoch_tolerance :: rat where
  "epoch_tolerance = 1 / 10000"

text \<open>
  The first half of \<open>deliver\<close>: a valid fix against the last epoch. The result is the fix
  that goes on, and the last epoch with its monotonic time.
\<close>

definition complete_epoch :: "position_fix option \<Rightarrow> position_fix \<Rightarrow> position_fix" where
  "complete_epoch previous f =
     (case previous of
        None \<Rightarrow> f
      | Some p \<Rightarrow> f\<lparr>px_alt := (case px_alt f of None \<Rightarrow> px_alt p | a \<Rightarrow> a),
          px_hdop := (case px_hdop f of None \<Rightarrow> px_hdop p | h \<Rightarrow> h),
          px_satellites := (if px_satellites f = 0 then px_satellites p else px_satellites f)\<rparr>)"

definition order_fix :: "position_fix \<Rightarrow> serial_gps \<Rightarrow> position_fix \<times> serial_gps" where
  "order_fix f g =
     (if \<not> px_valid f then (f, g)
      else if px_utc f < sg_last_utc g - epoch_tolerance then (invalidate ''out-of-order fix'' f, g)
      else
        let (f', g') =
          (if \<bar>px_utc f - sg_last_utc g\<bar> < epoch_tolerance then
             let f1 = complete_epoch (sg_last_fix g) (f\<lparr>px_mono := sg_last_mono g\<rparr>)
             in (f1\<lparr>px_source := px_source f1 @ ''; same epoch freshness preserved''\<rparr>, g)
           else (f, g\<lparr>sg_last_utc := px_utc f, sg_last_mono := px_mono f\<rparr>))
        in (f', g'\<lparr>sg_last_fix := Some f'\<rparr>))"

definition connection_after :: "position_fix \<Rightarrow> serial_gps \<Rightarrow> serial_gps" where
  "connection_after f g =
     (let c = sg_connection g in
      if gs_state c = Read_Error then g
      else if px_valid f then
        g\<lparr>sg_connection := c\<lparr>gs_state := Valid_Fix, gs_detail := ''GPS fix valid''\<rparr>,
          sg_fresh_mono := px_mono f\<rparr>
      else if sg_last_fix g \<noteq> None then
        g\<lparr>sg_connection := c\<lparr>gs_state := Stale_Fix, gs_detail := ''GPS fix lost; waiting for a valid fix''\<rparr>\<rparr>
      else
        g\<lparr>sg_connection := c\<lparr>gs_state := Waiting_For_Fix,
          gs_detail := ''GPS connected; waiting for a valid fix''\<rparr>\<rparr>)"

definition call_back :: "(position_fix \<Rightarrow> bool) \<Rightarrow> position_fix \<Rightarrow> serial_gps \<Rightarrow> serial_gps" where
  "call_back throws f g =
     (let g' = g\<lparr>sg_delivered := sg_delivered g @ [f]\<rparr> in
      if throws f then
        g'\<lparr>sg_running := False, sg_connection := (sg_connection g')
          \<lparr>gs_state := Read_Error, gs_detail := ''GPS receiver callback failed''\<rparr>\<rparr>
      else g')"

definition deliver :: "(position_fix \<Rightarrow> bool) \<Rightarrow> position_fix \<Rightarrow> serial_gps \<Rightarrow> serial_gps" where
  "deliver throws f g = (let (f', g') = order_fix f g in call_back throws f' (connection_after f' g'))"

text \<open>One character with the readings of the two clocks, should a sentence end with it.\<close>

definition feed_char :: "(position_fix \<Rightarrow> bool) \<Rightarrow> char \<times> rat \<times> rat \<Rightarrow> serial_gps \<Rightarrow> serial_gps" where
  "feed_char throws = (\<lambda>(c, mono, utc) g.
     if c = CHR ''$'' then g\<lparr>sg_pending := [c]\<rparr>
     else if sg_pending g = [] then g
     else if c = CHR 0x0A then
       let s = sg_pending g @ [c];
         g' = (case parse_nmea s (Some mono) (Some utc) of
                 None \<Rightarrow> g
               | Some f \<Rightarrow> deliver throws f g)
       in g'\<lparr>sg_pending := []\<rparr>
     else if length (sg_pending g) \<ge> maximum_sentence - 1 \<or> (c \<noteq> CHR 0x0D \<and> \<not> printable c) then
       g\<lparr>sg_pending := []\<rparr>
     else g\<lparr>sg_pending := sg_pending g @ [c]\<rparr>)"

definition feed_bytes :: "(position_fix \<Rightarrow> bool) \<Rightarrow> (char \<times> rat \<times> rat) list \<Rightarrow> serial_gps \<Rightarrow> serial_gps" where
  "feed_bytes throws = fold (feed_char throws)"

definition disconnected :: "(position_fix \<Rightarrow> bool) \<Rightarrow> rat \<times> rat \<Rightarrow> serial_gps \<Rightarrow> serial_gps" where
  "disconnected throws clocks g =
     (if sg_running g then
        deliver throws
          (fresh_fix\<lparr>px_mono := fst clocks, px_utc := snd clocks,
             px_source := ''Serial GPS disconnected or read failed''\<rparr>)
          (g\<lparr>sg_running := False, sg_connection := (sg_connection g)
             \<lparr>gs_state := Read_Error, gs_detail := ''GPS serial device disconnected or read failed''\<rparr>\<rparr>)
      else g)"

datatype read_outcome =
    Read_Bytes "(char \<times> rat \<times> rat) list"
  | Read_Failed (transient: bool)

datatype poll_outcome =
    Poll_Failed (interrupted: bool)
  | Poll_Timeout
  | Poll_Ready (hang_up: bool) (input: "read_outcome option")

text \<open>The reader's thread, over what the device answers on each turn of the loop.\<close>

fun read_loop :: "(position_fix \<Rightarrow> bool) \<Rightarrow> (poll_outcome \<times> rat \<times> rat) list \<Rightarrow> serial_gps \<Rightarrow> serial_gps" where
  "read_loop throws [] g = g"
| "read_loop throws ((event, clocks) # events) g =
     (if \<not> sg_running g then g
      else case event of
          Poll_Failed eintr \<Rightarrow>
            if eintr then read_loop throws events g else disconnected throws clocks g
        | Poll_Timeout \<Rightarrow> read_loop throws events g
        | Poll_Ready hup inp \<Rightarrow>
            if hup then disconnected throws clocks g
            else (case inp of
                None \<Rightarrow> read_loop throws events g
              | Some (Read_Bytes cs) \<Rightarrow> read_loop throws events (feed_bytes throws cs g)
              | Some (Read_Failed again) \<Rightarrow>
                  if again then read_loop throws events g else disconnected throws clocks g))"

section \<open>Connecting and stopping\<close>

text \<open>The answers of the operating system to the calls of \<open>start\<close>.\<close>

record serial_os =
  so_open_error :: "string option"
  so_is_terminal :: bool
  so_configures :: bool
  so_starts_thread :: bool

definition failed :: "string \<Rightarrow> string \<Rightarrow> serial_gps \<Rightarrow> (string + unit) \<times> serial_gps" where
  "failed path e g = (Inl e, g\<lparr>sg_connection := \<lparr>gs_state = Read_Error, gs_path = path, gs_detail = e\<rparr>\<rparr>)"

definition stop_gps :: "serial_gps \<Rightarrow> serial_gps" where
  "stop_gps g = g\<lparr>sg_running := False, sg_worker := False, sg_device := False, sg_pending := '''',
     sg_last_fix := None, sg_callback := False, sg_connection := no_connection, sg_fresh_mono := 0\<rparr>"

definition start_gps ::
  "serial_os \<Rightarrow> string \<Rightarrow> nat \<Rightarrow> bool \<Rightarrow> serial_gps \<Rightarrow> (string + unit) \<times> serial_gps" where
  "start_gps os path baud has_callback g =
     (if sg_worker g then (Inl ''GPS is already connected; disconnect before changing ports'', g)
      else if \<not> has_callback \<or> path = [] \<or> length path > 240 \<or> CHR 0x00 \<in> set path then
        failed path ''An explicit local serial port is required'' g
      else if baud \<notin> {4800, 9600, 19200, 38400, 57600, 115200} then
        failed path ''Supported GPS baud rates: 4800, 9600, 19200, 38400, 57600, 115200'' g
      else if \<not> (prefix ''/dev/tty'' path \<or> prefix ''/dev/cu.'' path) \<or> sublist ''/../'' path then
        failed path ''Specify a local serial device under /dev/tty or /dev/cu.'' g
      else case so_open_error os of
          Some e \<Rightarrow> failed path (''Unable to open the requested GPS serial port: '' @ e) g
        | None \<Rightarrow>
            if \<not> so_is_terminal os then
              failed path ''Requested path is not a configurable local serial device''
                (g\<lparr>sg_device := False\<rparr>)
            else if \<not> so_configures os then
              failed path ''Unable to configure GPS serial settings'' (g\<lparr>sg_device := False\<rparr>)
            else
              let g1 = g\<lparr>sg_device := True, sg_callback := True, sg_pending := '''', sg_last_utc := - 1,
                sg_last_fix := None, sg_running := True,
                sg_connection := \<lparr>gs_state = Waiting_For_Fix, gs_path = path,
                  gs_detail = ''GPS connected; waiting for a valid fix''\<rparr>,
                sg_fresh_mono := 0\<rparr>
              in if so_starts_thread os then (Inr (), g1\<lparr>sg_worker := True\<rparr>)
              else failed path ''Unable to start GPS reader'' (stop_gps g1))"

definition gps_status_now :: "rat \<Rightarrow> serial_gps \<Rightarrow> gps_status" where
  "gps_status_now now g =
     (let r = sg_connection g in
      if gs_state r = Valid_Fix \<and> now - sg_fresh_mono g > 2 then
        r\<lparr>gs_state := Stale_Fix, gs_detail := ''GPS fix stale; waiting for a fresh fix''\<rparr>
      else r)"


section \<open>The sign and the bounds of the fields\<close>

lemma integer_loop_bound: "integer_loop m r s = Some v \<Longrightarrow> r \<le> m \<Longrightarrow> v \<le> m"
  by (induction m r s rule: integer_loop.induct) (auto simp: Let_def split: if_splits)

lemma integer_field_bound: "integer_field s m = Some v \<Longrightarrow> v \<le> m"
  by (auto simp: integer_field_def split: if_splits intro: integer_loop_bound)

lemma fraction_loop_ge: "0 \<le> scale \<Longrightarrow> r \<le> fraction_loop r scale s"
proof (induction r scale s rule: fraction_loop.induct)
  case (2 r scale c cs)
  have "r \<le> r + of_nat (digit_val c) * scale" using 2(2) by simp
  also have "\<dots> \<le> fraction_loop (r + of_nat (digit_val c) * scale) (scale * (1 / 10)) cs"
    using 2 by simp
  finally show ?case by simp
qed simp

lemma whole_part_nonneg: "0 \<le> r \<Longrightarrow> 0 \<le> fold (\<lambda>c r. r * 10 + of_nat (digit_val c)) s (r :: rat)"
  by (induction s arbitrary: r) simp_all

lemma decimal_nonneg:
  assumes "decimal_field s False = Some v"
  shows "0 \<le> v"
proof -
  define r where "r = fold (\<lambda>c r. r * 10 + of_nat (digit_val c)) (takeWhile (\<lambda>c. c \<noteq> CHR ''.'') s) (0 :: rat)"
  have r: "0 \<le> r" unfolding r_def by (rule whole_part_nonneg) simp
  have "v = r \<or> (\<exists>x. v = fraction_loop r (1 / 10) x)"
    using assms unfolding decimal_field_def Let_def r_def by (auto split: if_splits list.splits)
  moreover have "r \<le> fraction_loop r (1 / 10) x" for x by (rule fraction_loop_ge) simp
  ultimately show ?thesis using r by (auto intro: order_trans)
qed

lemma coordinate_bound:
  assumes "coordinate s d latitude = Some v"
  shows "\<bar>v\<bar> \<le> (if latitude then 90 else 180)"
proof -
  define limit :: nat where "limit = (if latitude then 90 else 180)"
  define n :: nat where "n = (if latitude then 2 else 3)"
  obtain degree minute where f: "integer_field (take n s) limit = Some degree"
      "decimal_field (drop n s) False = Some minute"
    and m: "minute < 60" "degree = limit \<Longrightarrow> minute = 0"
    and v: "v = of_nat degree + minute / 60 \<or> v = - (of_nat degree + minute / 60)"
    using assms unfolding coordinate_def Let_def limit_def [symmetric] n_def [symmetric]
    by (auto split: option.splits if_splits)
  have deg: "degree \<le> limit" using integer_field_bound [OF f(1)] .
  have pos: "0 \<le> minute" using decimal_nonneg [OF f(2)] .
  have "of_nat degree + minute / 60 \<le> (of_nat limit :: rat)"
  proof (cases "degree = limit")
    case False
    with deg have "degree + 1 \<le> limit" by simp
    then have "of_nat degree + (1 :: rat) \<le> of_nat limit"
      by (metis of_nat_1 of_nat_add of_nat_le_iff)
    moreover have "minute / 60 \<le> 1" using m(1) by simp
    ultimately show ?thesis by linarith
  qed (use m(2) in simp)
  moreover have "0 \<le> of_nat degree + minute / 60" using pos by simp
  ultimately have "\<bar>v\<bar> \<le> (of_nat limit :: rat)" using v by auto
  then show ?thesis by (simp add: limit_def split: if_splits)
qed

lemma finish_fix_keeps [simp]:
  "px_mono (finish_fix u f) = px_mono f" "px_utc (finish_fix u f) = px_utc f"
  "px_lat (finish_fix u f) = px_lat f" "px_lon (finish_fix u f) = px_lon f"
  "px_alt (finish_fix u f) = px_alt f" "px_hdop (finish_fix u f) = px_hdop f"
  "px_satellites (finish_fix u f) = px_satellites f" "px_manual (finish_fix u f) = px_manual f"
  by (simp_all add: finish_fix_def invalidate_def Let_def)

lemma finish_fix_current: "px_valid (finish_fix u f) \<Longrightarrow> u - 10 \<le> px_utc f \<and> px_utc f \<le> u + 5"
  by (auto simp: finish_fix_def invalidate_def Let_def split: if_splits)

lemma invalidate_simps [simp]:
  "\<not> px_valid (invalidate reason f)" "px_mono (invalidate reason f) = px_mono f"
  by (simp_all add: invalidate_def)

text \<open>What both kinds of sentence promise of a fix they call valid.\<close>

definition usable_fix :: "rat \<Rightarrow> rat \<Rightarrow> position_fix \<Rightarrow> bool" where
  "usable_fix m u f \<longleftrightarrow> px_mono f = m \<and> \<not> px_manual f \<and> u - 10 \<le> px_utc f \<and> px_utc f \<le> u + 5 \<and>
     \<bar>px_lat f\<bar> \<le> 90 \<and> \<bar>px_lon f\<bar> \<le> 180 \<and> px_satellites f \<le> 99 \<and>
     (case px_hdop f of None \<Rightarrow> True | Some h \<Rightarrow> 0 \<le> h \<and> h \<le> 1000) \<and>
     (case px_alt f of None \<Rightarrow> True | Some a \<Rightarrow> - 12000 \<le> a \<and> a \<le> 100000)"

text \<open>Inverting a chain of tests and optional fields, one step at a time.\<close>

lemma option_chain:
  "(case x of None \<Rightarrow> None | Some y \<Rightarrow> g y) = Some z \<longleftrightarrow> (\<exists>y. x = Some y \<and> g y = Some z)"
  "(if c then None else r) = Some z \<longleftrightarrow> \<not> c \<and> r = Some z"
  by (auto split: option.splits)

lemma valid_chain:
  "(if c then Some (invalidate reason g) else r) = Some f \<and> px_valid f \<longleftrightarrow> \<not> c \<and> r = Some f \<and> px_valid f"
  by auto

lemma parse_rmc_valid:
  assumes "parse_rmc fs time u fix0 = Some f" "px_valid f"
  obtains utc lat lon where "f = finish_fix u (fix0\<lparr>px_utc := utc, px_lat := lat, px_lon := lon\<rparr>)"
    "coordinate (fs ! 3) (fs ! 4) True = Some lat" "coordinate (fs ! 5) (fs ! 6) False = Some lon"
proof -
  obtain date where "(if fs ! 2 = ''V'' then Some (invalidate ''receiver reports invalid fix'' (fix0\<lparr>px_utc := date + time\<rparr>))
      else if length fs > 12 \<and> fs ! 12 \<noteq> [] \<and> fs ! 12 \<notin> {''A'', ''D'', ''F'', ''P'', ''R''} then
        Some (invalidate ''unsupported or invalid navigation mode'' (fix0\<lparr>px_utc := date + time\<rparr>))
      else if length fs > 13 \<and> fs ! 13 \<noteq> [] \<and> fs ! 13 \<notin> {''A'', ''D'', ''V''} then
        Some (invalidate ''invalid navigation status'' (fix0\<lparr>px_utc := date + time\<rparr>))
      else case (coordinate (fs ! 3) (fs ! 4) True, coordinate (fs ! 5) (fs ! 6) False) of
          (Some lat, Some lon) \<Rightarrow>
            Some (finish_fix u (fix0\<lparr>px_utc := date + time, px_lat := lat, px_lon := lon\<rparr>))
        | _ \<Rightarrow> None) = Some f \<and> px_valid f"
    using assms unfolding parse_rmc_def Let_def option_chain by blast
  then have "(case (coordinate (fs ! 3) (fs ! 4) True, coordinate (fs ! 5) (fs ! 6) False) of
          (Some lat, Some lon) \<Rightarrow>
            Some (finish_fix u (fix0\<lparr>px_utc := date + time, px_lat := lat, px_lon := lon\<rparr>))
        | _ \<Rightarrow> None) = Some f"
    unfolding valid_chain by blast
  then show thesis
    unfolding prod.case option_chain using that by auto
qed

lemma parse_rmc_usable:
  assumes "parse_rmc fs time u fix0 = Some f" "px_valid f" "px_mono fix0 = m" "\<not> px_manual fix0"
    "px_hdop fix0 = None" "px_alt fix0 = None" "px_satellites fix0 \<le> 99"
  shows "usable_fix m u f"
  using assms(1,2)
proof (rule parse_rmc_valid)
  fix utc lat lon
  assume f: "f = finish_fix u (fix0\<lparr>px_utc := utc, px_lat := lat, px_lon := lon\<rparr>)"
    and c: "coordinate (fs ! 3) (fs ! 4) True = Some lat" "coordinate (fs ! 5) (fs ! 6) False = Some lon"
  show ?thesis
    using assms(3-7) coordinate_bound [OF c(1)] coordinate_bound [OF c(2)]
      finish_fix_current [OF assms(2) [unfolded f]]
    by (simp add: usable_fix_def f)
qed

lemma parse_gga_valid:
  assumes "parse_gga fs time u fix0 = Some f" "px_valid f"
  obtains lat lon satellites hdop alt where
    "f = finish_fix u (fix0\<lparr>px_utc := gga_utc u time, px_lat := lat, px_lon := lon,
      px_satellites := satellites, px_hdop := Some hdop, px_alt := alt\<rparr>)"
    "coordinate (fs ! 2) (fs ! 3) True = Some lat" "coordinate (fs ! 4) (fs ! 5) False = Some lon"
    "integer_field (fs ! 7) 99 = Some satellites" "decimal_field (fs ! 8) False = Some hdop" "hdop \<le> 1000"
    "alt = px_alt fix0 \<or> (\<exists>a. alt = Some a \<and> - 12000 \<le> a \<and> a \<le> 100000)"
proof -
  let ?fix1 = "fix0\<lparr>px_utc := gga_utc u time\<rparr>"
  have "\<exists>lat lon satellites hdop. coordinate (fs ! 2) (fs ! 3) True = Some lat \<and>
      coordinate (fs ! 4) (fs ! 5) False = Some lon \<and> integer_field (fs ! 7) 99 = Some satellites \<and>
      decimal_field (fs ! 8) False = Some hdop \<and> \<not> (satellites = 0 \<or> hdop > 1000) \<and>
      (if fs ! 9 = [] then Some (finish_fix u (?fix1\<lparr>px_lat := lat, px_lon := lon, px_satellites := satellites,
          px_hdop := Some hdop\<rparr>))
       else case decimal_field (fs ! 9) True of None \<Rightarrow> None
         | Some altitude \<Rightarrow> if altitude < - 12000 \<or> altitude > 100000 \<or> fs ! 10 \<noteq> ''M'' then None
             else Some (finish_fix u (?fix1\<lparr>px_lat := lat, px_lon := lon, px_satellites := satellites,
               px_hdop := Some hdop, px_alt := Some altitude\<rparr>))) = Some f"
    using assms unfolding parse_gga_def Let_def prod.case option_chain conj_assoc [symmetric] valid_chain
    by (elim exE conjE) (auto simp: option_chain split: if_split_asm)
  then obtain lat lon satellites hdop where p: "coordinate (fs ! 2) (fs ! 3) True = Some lat"
      "coordinate (fs ! 4) (fs ! 5) False = Some lon" "integer_field (fs ! 7) 99 = Some satellites"
      "decimal_field (fs ! 8) False = Some hdop" "hdop \<le> 1000" and
    f: "(if fs ! 9 = [] then Some (finish_fix u (?fix1\<lparr>px_lat := lat, px_lon := lon, px_satellites := satellites,
          px_hdop := Some hdop\<rparr>))
       else case decimal_field (fs ! 9) True of None \<Rightarrow> None
         | Some altitude \<Rightarrow> if altitude < - 12000 \<or> altitude > 100000 \<or> fs ! 10 \<noteq> ''M'' then None
             else Some (finish_fix u (?fix1\<lparr>px_lat := lat, px_lon := lon, px_satellites := satellites,
               px_hdop := Some hdop, px_alt := Some altitude\<rparr>))) = Some f"
    by auto
  have same: "r\<lparr>px_alt := px_alt r\<rparr> = r" for r :: position_fix by simp
  show thesis
  proof (cases "fs ! 9 = []")
    case True
    with f have "f = finish_fix u (fix0\<lparr>px_utc := gga_utc u time, px_lat := lat, px_lon := lon,
      px_satellites := satellites, px_hdop := Some hdop, px_alt := px_alt fix0\<rparr>)"
      using same [of "fix0\<lparr>px_utc := gga_utc u time, px_lat := lat, px_lon := lon,
        px_satellites := satellites, px_hdop := Some hdop\<rparr>"] by simp
    then show thesis by (rule that [OF _ p]) simp
  next
    case False
    with f obtain altitude where "\<not> (altitude < - 12000 \<or> altitude > 100000 \<or> fs ! 10 \<noteq> ''M'')"
      and fa: "f = finish_fix u (fix0\<lparr>px_utc := gga_utc u time, px_lat := lat, px_lon := lon,
        px_satellites := satellites, px_hdop := Some hdop, px_alt := Some altitude\<rparr>)"
      unfolding if_not_P [OF False] option_chain by auto
    then show thesis by (intro that [OF fa p]) simp
  qed
qed

lemma parse_gga_usable:
  assumes "parse_gga fs time u fix0 = Some f" "px_valid f" "px_mono fix0 = m" "\<not> px_manual fix0"
    "px_alt fix0 = None"
  shows "usable_fix m u f"
  using assms(1,2)
proof (rule parse_gga_valid)
  fix lat lon satellites hdop alt
  assume f: "f = finish_fix u (fix0\<lparr>px_utc := gga_utc u time, px_lat := lat, px_lon := lon,
      px_satellites := satellites, px_hdop := Some hdop, px_alt := alt\<rparr>)"
    and c: "coordinate (fs ! 2) (fs ! 3) True = Some lat" "coordinate (fs ! 4) (fs ! 5) False = Some lon"
    and p: "integer_field (fs ! 7) 99 = Some satellites" "decimal_field (fs ! 8) False = Some hdop" "hdop \<le> 1000"
      "alt = px_alt fix0 \<or> (\<exists>a. alt = Some a \<and> - 12000 \<le> a \<and> a \<le> 100000)"
  have u: "u - 10 \<le> px_utc f \<and> px_utc f \<le> u + 5"
    using finish_fix_current [OF assms(2) [unfolded f]] by (simp add: f)
  have "case alt of None \<Rightarrow> True | Some a \<Rightarrow> - 12000 \<le> a \<and> a \<le> 100000"
    using p(4) assms(5) by auto
  then show ?thesis
    using assms(3,4) u p(3) coordinate_bound [OF c(1)] coordinate_bound [OF c(2)]
      integer_field_bound [OF p(1)] decimal_nonneg [OF p(2)]
    by (simp add: usable_fix_def f)
qed

lemma parse_rmc_mono: "parse_rmc fs time u fix0 = Some f \<Longrightarrow> px_mono f = px_mono fix0"
  unfolding parse_rmc_def Let_def option_chain prod.case
  by (elim exE conjE) (simp only: if_split_asm [of "\<lambda>x. x = Some f"] option_chain, auto)

lemma parse_gga_mono: "parse_gga fs time u fix0 = Some f \<Longrightarrow> px_mono f = px_mono fix0"
  unfolding parse_gga_def Let_def option_chain prod.case
  by (elim exE conjE) (simp only: if_split_asm [of "\<lambda>x. x = Some f"] option_chain, auto)

lemma parse_nmea_cases:
  assumes "parse_nmea s (Some m) (Some u) = Some f"
  obtains body fs time source where "0 \<le> m" "0 \<le> u" "length s \<le> maximum_sentence"
    "sentence_body (strip_newline s) = Some body"
    "parse_rmc fs time u (fresh_fix\<lparr>px_mono := m, px_utc := u, px_source := source\<rparr>) = Some f \<or>
     parse_gga fs time u (fresh_fix\<lparr>px_mono := m, px_utc := u, px_source := source\<rparr>) = Some f"
proof -
  from assms obtain body fs where b: "\<not> (m < 0 \<or> u < 0 \<or> u > 4102444800 \<or> length s > maximum_sentence)"
      "sentence_body (strip_newline s) = Some body" "parse_fields fs m u = Some f"
    unfolding parse_nmea_def prod.case option.case option_chain by blast
  define source where "source = ''NMEA '' @ drop 2 (fs ! 0) @
            (if drop 2 (fs ! 0) = ''RMC'' then ''; GNSS UTC'' else ''; date inferred from host UTC'')"
  obtain time where "parse_rmc fs time u (fresh_fix\<lparr>px_mono := m, px_utc := u, px_source := source\<rparr>) = Some f \<or>
     parse_gga fs time u (fresh_fix\<lparr>px_mono := m, px_utc := u, px_source := source\<rparr>) = Some f"
    using b(3) unfolding parse_fields_def Let_def source_def [symmetric] option_chain
    by (elim conjE exE) (metis)
  then show thesis using b(1,2) by (intro that) auto
qed

lemma parse_nmea_mono:
  assumes "parse_nmea s (Some m) (Some u) = Some f"
  shows "px_mono f = m"
  using assms by (rule parse_nmea_cases) (auto dest: parse_rmc_mono parse_gga_mono)

lemma framed_text:
  assumes "length s \<ge> 10" "hd s = CHR ''$''" "star + 3 = length s" "s ! star = CHR ''*''"
  shows "s = CHR ''$'' # take (star - 1) (drop 1 s) @ [CHR ''*'', s ! (star + 1), s ! (star + 2)]"
proof -
  obtain r where r: "s = CHR ''$'' # r" using assms(1,2) by (cases s) auto
  obtain k where k: "star = Suc k" using assms(1,3) by (cases star) auto
  have "r = take k r @ drop k r" by simp
  also have "drop k r = [r ! k, r ! Suc k, r ! Suc (Suc k)]"
    using assms(3) r k by (simp add: Cons_nth_drop_Suc [symmetric])
  finally show ?thesis using assms(4) by (simp add: r k)
qed

lemma sentence_body_framed:
  assumes "sentence_body s = Some body"
  shows "\<exists>a b h l. s = CHR ''$'' # body @ [CHR ''*'', a, b] \<and> hex_digit a = Some h \<and> hex_digit b = Some l \<and>
    checksum body = word_of_nat (16 * h + l)"
proof -
  define star where "star = length (takeWhile (\<lambda>c. c \<noteq> CHR ''*'') s)"
  from assms obtain h l where s: "\<not> (length s < 10 \<or> hd s \<noteq> CHR ''$'')" "\<not> (star = length s \<or> star + 3 \<noteq> length s)"
    and hl: "hex_digit (s ! (star + 1)) = Some h" "hex_digit (s ! (star + 2)) = Some l"
    and body: "take (star - 1) (drop 1 s) = body" and sum: "checksum body = word_of_nat (16 * h + l)"
    unfolding sentence_body_def Let_def star_def [symmetric] prod.case option_chain by auto
  have "star < length s" using s(2) by linarith
  then have "s ! star = CHR ''*''"
    using nth_length_takeWhile [of "\<lambda>c. c \<noteq> CHR ''*''" s] unfolding star_def by simp
  then have "s = CHR ''$'' # body @ [CHR ''*'', s ! (star + 1), s ! (star + 2)]"
    using framed_text [of s star] s body by simp
  then show ?thesis using hl sum by blast
qed

text \<open>
  C26: A sentence that yields a valid fix is framed by \<open>$\<close>, \<open>*\<close> and the two hexadecimal
  digits of the checksum of what lies between, was received at a finite, non-negative time,
  and its fix is usable: coordinates on the globe, a time at most ten seconds before and
  five after the host clock, bounded satellites, dilution and altitude, stamped with the
  monotonic time of its reception and never marked as manual.
\<close>

theorem nmea_fix_sound:
  assumes "parse_nmea s received_monotonic received_utc = Some f" and "px_valid f"
  shows "\<exists>m u. received_monotonic = Some m \<and> received_utc = Some u \<and> 0 \<le> m \<and> 0 \<le> u \<and> usable_fix m u f \<and>
    (\<exists>body a b h l. strip_newline s = CHR ''$'' # body @ [CHR ''*'', a, b] \<and> hex_digit a = Some h \<and>
       hex_digit b = Some l \<and> checksum body = word_of_nat (16 * h + l))"
proof -
  obtain m u where mu: "received_monotonic = Some m" "received_utc = Some u"
    using assms(1) by (auto simp: parse_nmea_def split: option.splits)
  show ?thesis
  proof (rule parse_nmea_cases [OF assms(1) [unfolded mu]])
    fix body fs time source
    assume nn: "0 \<le> m" "0 \<le> u" and b: "sentence_body (strip_newline s) = Some body"
      and p: "parse_rmc fs time u (fresh_fix\<lparr>px_mono := m, px_utc := u, px_source := source\<rparr>) = Some f \<or>
        parse_gga fs time u (fresh_fix\<lparr>px_mono := m, px_utc := u, px_source := source\<rparr>) = Some f"
    from p have "usable_fix m u f"
      using assms(2) by (elim disjE) ((erule parse_rmc_usable parse_gga_usable; simp add: fresh_fix_def)+)
    with nn mu sentence_body_framed [OF b] show ?thesis by blast
  qed
qed

definition sample_sentence :: string where
  "sample_sentence = ''$GPGGA,120000,4700,N,00900,E,1,08,1,,M,,M,,*6c''"

definition sample_words :: "string list" where
  "sample_words = [''GPGGA'', ''120000'', ''4700'', ''N'', ''00900'', ''E'', ''1'', ''08'', ''1'', [], ''M'', [], ''M'', [], []]"

lemma sample_fields:
  "clock_seconds ''120000'' = Some 43200" "coordinate ''4700'' ''N'' True = Some 47"
  "coordinate ''00900'' ''E'' False = Some 9" "gga_utc 43200 43200 = 43200" "integer_field ''1'' 8 = Some 1"
  "integer_field ''08'' 99 = Some 8" "decimal_field ''1'' False = Some 1" "upper_letter CHR ''G''" "upper_letter CHR ''P''"
proof -
  have "integer_field ''12'' 23 = Some 12" "integer_field ''00'' 59 = Some 0" "decimal_field ''00'' False = Some 0"
    "digits ''120000''"
    by (code_simp, code_simp, code_simp, code_simp)
  then show "clock_seconds ''120000'' = Some 43200" by (simp add: clock_seconds_def)
  have "\<lfloor>1 / 2 :: rat\<rfloor> = 0" by (simp add: floor_eq_iff)
  then show "gga_utc 43200 43200 = 43200" by (simp add: gga_utc_def)
  show "coordinate ''4700'' ''N'' True = Some 47" by code_simp
  show "coordinate ''00900'' ''E'' False = Some 9" by code_simp
  show "integer_field ''1'' 8 = Some 1" by code_simp
  show "integer_field ''08'' 99 = Some 8" by code_simp
  show "decimal_field ''1'' False = Some 1" by code_simp
  show "upper_letter CHR ''G''" by code_simp
  show "upper_letter CHR ''P''" by code_simp
qed

lemma sample_parses: "\<exists>f. parse_nmea sample_sentence (Some 5) (Some 43200) = Some f \<and> px_valid f"
proof -
  have "sentence_body (strip_newline sample_sentence) = Some ''GPGGA,120000,4700,N,00900,E,1,08,1,,M,,M,,''"
    by code_simp
  moreover have "sentence_fields ''GPGGA,120000,4700,N,00900,E,1,08,1,,M,,M,,'' = Some sample_words"
    by code_simp
  moreover have "parse_fields sample_words 5 43200 = Some (finish_fix 43200 (fresh_fix\<lparr>px_mono := 5,
      px_source := ''NMEA GGA; date inferred from host UTC'', px_utc := 43200, px_lat := 47, px_lon := 9, px_satellites := 8,
      px_hdop := Some 1\<rparr>))"
    by (simp add: sample_words_def parse_fields_def parse_gga_def sample_fields)
  moreover have "length sample_sentence \<le> maximum_sentence"
    by (simp add: sample_sentence_def maximum_sentence_def)
  ultimately show ?thesis by (simp add: parse_nmea_def finish_fix_def)
qed

lemma nmea_fix_sound_witness:
  "\<exists>f. parse_nmea sample_sentence (Some 5) (Some 43200) = Some f \<and> usable_fix 5 43200 f"
proof -
  obtain f where f: "parse_nmea sample_sentence (Some 5) (Some 43200) = Some f" "px_valid f"
    using sample_parses by blast
  from nmea_fix_sound [OF f] f(1) show ?thesis by auto
qed

section \<open>The association of a sample with a fix\<close>

lemma position_back_iff:
  "position_back t fs = Some p \<longleftrightarrow>
    (\<exists>newer older. fs = newer @ p # older \<and> (\<forall>f\<in>set newer. t < px_mono f) \<and> px_mono p \<le> t \<and> px_valid p \<and>
       (px_manual p \<or> t - px_mono p \<le> 2))"
  (is "_ \<longleftrightarrow> ?R fs")
proof (induction fs)
  case Nil
  then show ?case by simp
next
  case (Cons f fs)
  show ?case
  proof (cases "t < px_mono f")
    case True
    then have "?R (f # fs) \<longleftrightarrow> ?R fs"
    proof (intro iffI; elim exE conjE)
      fix newer older
      assume a: "f # fs = newer @ p # older" "\<forall>f\<in>set newer. t < px_mono f" "px_mono p \<le> t" "px_valid p"
        "px_manual p \<or> t - px_mono p \<le> 2"
      then show "?R fs" using True by (cases newer) auto
    next
      fix newer older
      assume "fs = newer @ p # older" "\<forall>f\<in>set newer. t < px_mono f" "px_mono p \<le> t" "px_valid p"
        "px_manual p \<or> t - px_mono p \<le> 2"
      then show "?R (f # fs)" using True by (intro exI [of _ "f # newer"] exI [of _ older]) auto
    qed
    with Cons True show ?thesis by simp
  next
    case False
    then have "?R (f # fs) \<longleftrightarrow> f = p \<and> px_valid p \<and> (px_manual p \<or> t - px_mono p \<le> 2)"
    proof (intro iffI; elim exE conjE)
      fix newer older
      assume a: "f # fs = newer @ p # older" "\<forall>f\<in>set newer. t < px_mono f" "px_mono p \<le> t" "px_valid p"
        "px_manual p \<or> t - px_mono p \<le> 2"
      then show "f = p \<and> px_valid p \<and> (px_manual p \<or> t - px_mono p \<le> 2)" using False by (cases newer) auto
    next
      assume "f = p" "px_valid p" "px_manual p \<or> t - px_mono p \<le> 2"
      then show "?R (f # fs)" using False by (intro exI [of _ "[]"] exI [of _ fs]) auto
    qed
    with False show ?thesis by auto
  qed
qed

text \<open>
  C27: A sample time is associated with a fix exactly when that fix is the newest entry of
  the history not after it, is valid, and is manual or at most two seconds old: a marker of
  a lost or cleared position, once passed, is never crossed.
\<close>

theorem position_association:
  "position_at history (Some t) = Some p \<longleftrightarrow>
    0 \<le> t \<and> (\<exists>older newer. history = older @ p # newer \<and> (\<forall>f\<in>set newer. t < px_mono f) \<and>
      px_mono p \<le> t \<and> px_valid p \<and> (px_manual p \<or> t - px_mono p \<le> 2))"
proof -
  have "(\<exists>newer older. rev history = newer @ p # older \<and> (\<forall>f\<in>set newer. t < px_mono f) \<and> px_mono p \<le> t \<and>
      px_valid p \<and> (px_manual p \<or> t - px_mono p \<le> 2)) \<longleftrightarrow>
    (\<exists>older newer. history = older @ p # newer \<and> (\<forall>f\<in>set newer. t < px_mono f) \<and> px_mono p \<le> t \<and>
      px_valid p \<and> (px_manual p \<or> t - px_mono p \<le> 2))" (is "?A \<longleftrightarrow> ?B")
  proof
    assume ?A
    then obtain newer older where a: "rev history = newer @ p # older" and
      b: "\<forall>f\<in>set newer. t < px_mono f" "px_mono p \<le> t" "px_valid p" "px_manual p \<or> t - px_mono p \<le> 2"
      by blast
    from a have "rev (rev history) = rev (newer @ p # older)" by (simp only:)
    then have "history = rev older @ p # rev newer" by simp
    with b show ?B by (metis set_rev)
  next
    assume ?B
    then obtain newer older where "history = older @ p # newer" and
      b: "\<forall>f\<in>set newer. t < px_mono f" "px_mono p \<le> t" "px_valid p" "px_manual p \<or> t - px_mono p \<le> 2"
      by blast
    then have "rev history = rev newer @ p # rev older" by simp
    with b show ?A by (metis set_rev)
  qed
  then show ?thesis by (auto simp: position_at_def position_back_iff)
qed

definition sample_fix :: "bool \<Rightarrow> rat \<Rightarrow> position_fix" where
  "sample_fix valid m = fresh_fix\<lparr>px_valid := valid, px_mono := m\<rparr>"

lemma position_association_witness:
  "position_at [sample_fix True 10, sample_fix False 12] (Some 11) = Some (sample_fix True 10)"
proof -
  have "\<exists>older newer. [sample_fix True 10, sample_fix False 12] = older @ sample_fix True 10 # newer \<and>
      (\<forall>f\<in>set newer. 11 < px_mono f) \<and> px_mono (sample_fix True 10) \<le> 11 \<and> px_valid (sample_fix True 10) \<and>
      (px_manual (sample_fix True 10) \<or> 11 - px_mono (sample_fix True 10) \<le> 2)"
    by (rule exI [of _ "[]"], rule exI [of _ "[sample_fix False 12]"]) (simp add: sample_fix_def)
  then show ?thesis
    using position_association [of "[sample_fix True 10, sample_fix False 12]" 11 "sample_fix True 10"] by simp
qed

section \<open>The stream of fixes\<close>

text \<open>A valid fix and the next one: no older an epoch, beyond the tolerances, and no less fresh.\<close>

definition not_after :: "position_fix \<Rightarrow> position_fix \<Rightarrow> bool" where
  "not_after a b \<longleftrightarrow> px_mono a \<le> px_mono b \<and> px_utc a < px_utc b + 2 * epoch_tolerance"

definition valid_deliveries :: "serial_gps \<Rightarrow> position_fix list" where
  "valid_deliveries g = filter px_valid (sg_delivered g)"

definition before_epoch :: "serial_gps \<Rightarrow> position_fix \<Rightarrow> bool" where
  "before_epoch g a \<longleftrightarrow> px_mono a \<le> sg_last_mono g \<and> px_utc a < sg_last_utc g + epoch_tolerance"

definition stream_ok :: "rat \<Rightarrow> serial_gps \<Rightarrow> bool" where
  "stream_ok now g \<longleftrightarrow> sg_last_mono g \<le> now \<and> successively not_after (valid_deliveries g) \<and>
     (valid_deliveries g = [] \<or> before_epoch g (last (valid_deliveries g)))"

lemma epoch_tolerance_pos: "0 < epoch_tolerance"
  by (simp add: epoch_tolerance_def)

lemma complete_epoch_keeps [simp]:
  "px_mono (complete_epoch p f) = px_mono f" "px_utc (complete_epoch p f) = px_utc f"
  "px_valid (complete_epoch p f) = px_valid f"
  by (simp_all add: complete_epoch_def split: option.splits)

lemma order_fix_ok:
  assumes "order_fix f g = (f', g')" "sg_last_mono g \<le> px_mono f"
  shows "sg_last_mono g' \<le> px_mono f \<and> sg_delivered g' = sg_delivered g \<and>
    (if px_valid f' then before_epoch g' f' \<and> (\<forall>a. before_epoch g a \<longrightarrow> not_after a f')
     else sg_last_mono g' = sg_last_mono g \<and> sg_last_utc g' = sg_last_utc g)"
proof -
  consider "\<not> px_valid f" | "px_valid f" "px_utc f < sg_last_utc g - epoch_tolerance"
    | "px_valid f" "\<not> px_utc f < sg_last_utc g - epoch_tolerance" "\<bar>px_utc f - sg_last_utc g\<bar> < epoch_tolerance"
    | "px_valid f" "\<not> px_utc f < sg_last_utc g - epoch_tolerance" "\<not> \<bar>px_utc f - sg_last_utc g\<bar> < epoch_tolerance"
    by blast
  then show ?thesis
  proof cases
    case 1
    then show ?thesis using assms by (auto simp: order_fix_def)
  next
    case 2
    then show ?thesis using assms by (auto simp: order_fix_def)
  next
    case 3
    define h where "h = complete_epoch (sg_last_fix g) (f\<lparr>px_mono := sg_last_mono g\<rparr>)"
    have f': "f' = h\<lparr>px_source := px_source h @ ''; same epoch freshness preserved''\<rparr>"
      "g' = g\<lparr>sg_last_fix := Some f'\<rparr>"
      using assms(1) 3 by (auto simp: order_fix_def h_def Let_def)
    have m: "px_mono f' = sg_last_mono g" "px_utc f' = px_utc f" by (simp_all add: f'(1) h_def)
    have "not_after a f'" if "before_epoch g a" for a
      using that 3(2) unfolding not_after_def before_epoch_def m by simp
    then show ?thesis
      using assms(2) 3 m by (simp add: f'(2) before_epoch_def abs_less_iff)
  next
    case 4
    then have f': "f' = f" "g' = g\<lparr>sg_last_utc := px_utc f, sg_last_mono := px_mono f, sg_last_fix := Some f\<rparr>"
      using assms(1) by (auto simp: order_fix_def Let_def)
    have "not_after a f" if "before_epoch g a" for a
      using that 4(2) assms(2) unfolding not_after_def before_epoch_def by simp
    then show ?thesis
      using 4(1) epoch_tolerance_pos by (simp add: f' before_epoch_def)
  qed
qed

lemma connection_after_keeps [simp]:
  "sg_delivered (connection_after f g) = sg_delivered g" "sg_last_mono (connection_after f g) = sg_last_mono g"
  "sg_last_utc (connection_after f g) = sg_last_utc g"
  by (simp_all add: connection_after_def Let_def)

lemma call_back_keeps [simp]:
  "sg_delivered (call_back throws f g) = sg_delivered g @ [f]" "sg_last_mono (call_back throws f g) = sg_last_mono g"
  "sg_last_utc (call_back throws f g) = sg_last_utc g"
  by (simp_all add: call_back_def Let_def)

lemma deliver_ok:
  assumes "stream_ok now g" "now \<le> px_mono f"
  shows "stream_ok (px_mono f) (deliver throws f g)"
proof -
  obtain f' g' where d: "order_fix f g = (f', g')" by fastforce
  have g: "sg_last_mono g \<le> px_mono f" "successively not_after (valid_deliveries g)"
    "valid_deliveries g = [] \<or> before_epoch g (last (valid_deliveries g))"
    using assms by (auto simp: stream_ok_def)
  note new = order_fix_ok [OF d g(1)]
  have v: "valid_deliveries (deliver throws f g) = valid_deliveries g @ (if px_valid f' then [f'] else [])"
    using new by (simp add: deliver_def d valid_deliveries_def)
  have l: "sg_last_mono (deliver throws f g) = sg_last_mono g'" "sg_last_utc (deliver throws f g) = sg_last_utc g'"
    by (simp_all add: deliver_def d)
  then have b: "before_epoch (deliver throws f g) = before_epoch g'"
    by (simp add: before_epoch_def fun_eq_iff)
  show ?thesis
  proof (cases "px_valid f'")
    case True
    then show ?thesis using new g unfolding stream_ok_def v l b by (auto simp: successively_append_iff)
  next
    case False
    with new have "before_epoch g' = before_epoch g" by (simp add: before_epoch_def fun_eq_iff)
    with False show ?thesis using new g unfolding stream_ok_def v l b by simp
  qed
qed

lemma feed_char_ok:
  assumes "stream_ok now g" "now \<le> tm"
  shows "stream_ok tm (feed_char throws (c, tm, utc) g)"
proof -
  have keep: "stream_ok tm (g\<lparr>sg_pending := p\<rparr>)" for p
    using assms by (auto simp: stream_ok_def valid_deliveries_def before_epoch_def)
  have reset: "stream_ok tm (h\<lparr>sg_pending := []\<rparr>)" if "stream_ok tm h" for h
    using that by (auto simp: stream_ok_def valid_deliveries_def before_epoch_def)
  have g: "stream_ok tm g" using assms by (auto simp: stream_ok_def)
  have d: "stream_ok tm (deliver throws f g)" if "parse_nmea s (Some tm) (Some utc) = Some f" for s f
    using deliver_ok [OF assms(1), of f] parse_nmea_mono [OF that] assms(2) by simp
  show ?thesis
    by (simp add: feed_char_def Let_def keep g reset d split: option.split)
qed

text \<open>Receivers that report their time in milliseconds, and the order of two such fixes.\<close>

definition whole_milliseconds :: "rat \<Rightarrow> bool" where
  "whole_milliseconds x \<longleftrightarrow> of_int \<lfloor>x * 1000\<rfloor> = x * 1000"

definition epoch_order :: "position_fix \<Rightarrow> position_fix \<Rightarrow> bool" where
  "epoch_order a b \<longleftrightarrow> px_utc a \<le> px_utc b \<and> (px_utc a = px_utc b \<longrightarrow> px_mono a = px_mono b)"

lemma milliseconds_apart:
  assumes "whole_milliseconds x" "whole_milliseconds y" "- epoch_tolerance \<le> x - y"
  shows "y \<le> x \<and> (\<bar>x - y\<bar> < epoch_tolerance \<longleftrightarrow> x = y)"
proof -
  let ?k = "\<lfloor>x * 1000\<rfloor> - \<lfloor>y * 1000\<rfloor>"
  have k: "rat_of_int ?k = (x - y) * 1000"
    using assms(1,2) unfolding whole_milliseconds_def by (simp only: of_int_diff left_diff_distrib)
  moreover have "- 1 / 10 \<le> (x - y) * 1000" using assms(3) by (simp add: epoch_tolerance_def)
  ultimately have "- 1 < rat_of_int ?k" by linarith
  then have "rat_of_int (- 1) < rat_of_int ?k" by simp
  then have "0 \<le> ?k" by (simp only: of_int_less_iff)
  then have "?k = 0 \<or> 1 \<le> ?k" by linarith
  then consider "x = y" | "1 \<le> (x - y) * 1000"
  proof
    assume "1 \<le> ?k"
    then have "rat_of_int 1 \<le> rat_of_int ?k" by (simp only: of_int_le_iff)
    then show ?thesis using that(2) k by simp
  qed (use k that(1) in simp)
  then show ?thesis by cases (simp_all add: epoch_tolerance_def)
qed

text \<open>What the state remembers of the newest of such fixes.\<close>

definition epochs_ok :: "serial_gps \<Rightarrow> bool" where
  "epochs_ok g \<longleftrightarrow> (list_all (\<lambda>f. whole_milliseconds (px_utc f)) (valid_deliveries g) \<longrightarrow>
     whole_milliseconds (sg_last_utc g) \<and> successively epoch_order (valid_deliveries g) \<and>
     (valid_deliveries g \<noteq> [] \<longrightarrow> px_utc (last (valid_deliveries g)) = sg_last_utc g \<and>
       px_mono (last (valid_deliveries g)) = sg_last_mono g))"

lemma deliver_epochs:
  assumes "epochs_ok g"
  shows "epochs_ok (deliver throws f g)"
proof -
  obtain f' g' where d: "order_fix f g = (f', g')" by fastforce
  have l: "sg_last_mono (deliver throws f g) = sg_last_mono g'" "sg_last_utc (deliver throws f g) = sg_last_utc g'"
    by (simp_all add: deliver_def d)
  have v: "valid_deliveries (deliver throws f g) = valid_deliveries g @ (if px_valid f' then [f'] else [])"
  proof -
    have "sg_delivered g' = sg_delivered g" using d by (auto simp: order_fix_def Let_def split: if_splits)
    then show ?thesis by (simp add: deliver_def d valid_deliveries_def)
  qed
  consider (invalid) "\<not> px_valid f" | (older) "px_valid f" "px_utc f < sg_last_utc g - epoch_tolerance"
    | (same) "px_valid f" "\<not> px_utc f < sg_last_utc g - epoch_tolerance" "\<bar>px_utc f - sg_last_utc g\<bar> < epoch_tolerance"
    | (new) "px_valid f" "\<not> px_utc f < sg_last_utc g - epoch_tolerance" "\<not> \<bar>px_utc f - sg_last_utc g\<bar> < epoch_tolerance"
    by blast
  then show ?thesis
  proof cases
    case invalid
    then have "\<not> px_valid f'" "g' = g" using d by (auto simp: order_fix_def)
    then show ?thesis using assms by (simp add: epochs_ok_def v l)
  next
    case older
    then have "\<not> px_valid f'" "g' = g" using d by (auto simp: order_fix_def invalidate_def)
    then show ?thesis using assms by (simp add: epochs_ok_def v l)
  next
    case same
    define h where "h = complete_epoch (sg_last_fix g) (f\<lparr>px_mono := sg_last_mono g\<rparr>)"
    have f': "f' = h\<lparr>px_source := px_source h @ ''; same epoch freshness preserved''\<rparr>" "g' = g\<lparr>sg_last_fix := Some f'\<rparr>"
      using d same by (auto simp: order_fix_def h_def Let_def)
    then have m: "px_mono f' = sg_last_mono g" "px_utc f' = px_utc f" "px_valid f'"
        "sg_last_utc g' = sg_last_utc g" "sg_last_mono g' = sg_last_mono g"
      using same(1) by (simp_all add: h_def)
    have "px_utc f = sg_last_utc g" if "whole_milliseconds (px_utc f)" "whole_milliseconds (sg_last_utc g)"
      using milliseconds_apart [OF that] same(3) by (simp add: abs_less_iff)
    then show ?thesis using assms m by (auto simp: epochs_ok_def v l successively_append_iff epoch_order_def)
  next
    case new
    then have f': "f' = f" "g' = g\<lparr>sg_last_utc := px_utc f, sg_last_mono := px_mono f, sg_last_fix := Some f\<rparr>"
      using d by (auto simp: order_fix_def Let_def)
    have "sg_last_utc g < px_utc f" if "whole_milliseconds (px_utc f)" "whole_milliseconds (sg_last_utc g)"
      using milliseconds_apart [OF that] new(2,3) by auto
    then show ?thesis using assms new(1) by (auto simp: epochs_ok_def v l f' successively_append_iff epoch_order_def)
  qed
qed

lemma epochs_frame:
  "epochs_ok (g\<lparr>sg_pending := p\<rparr>) = epochs_ok g"
  by (simp add: epochs_ok_def valid_deliveries_def)

lemma feed_char_epochs: "epochs_ok g \<Longrightarrow> epochs_ok (feed_char throws b g)"
  by (cases b) (simp add: feed_char_def Let_def epochs_frame deliver_epochs split: option.split)

lemma fed_stream:
  assumes "stream_ok now g" "epochs_ok g" "sorted (now # map (fst \<circ> snd) bytes)"
  shows "(\<exists>later. stream_ok later (feed_bytes throws bytes g)) \<and> epochs_ok (feed_bytes throws bytes g)"
  using assms unfolding feed_bytes_def
proof (induction bytes arbitrary: now g)
  case Nil
  then show ?case by auto
next
  case (Cons b bytes)
  obtain c tm utc where b: "b = (c, tm, utc)" by (cases b)
  have t: "now \<le> tm" "sorted (tm # map (fst \<circ> snd) bytes)" using Cons.prems(3) by (simp_all add: b comp_def)
  show ?case
    using Cons.IH [OF feed_char_ok [OF Cons.prems(1) t(1), of throws c utc] feed_char_epochs [OF Cons.prems(2)] t(2)]
    by (simp add: b)
qed

text \<open>
  C17: Whatever bytes a serial receiver sends, if the monotonic clock does not run backwards, the
  freshness stamps of the valid fixes it hands to the survey never decrease. If the receiver
  reports its time in whole milliseconds, their epochs never go back either, over the whole
  stream, and a repeated epoch does not advance the freshness. At a finer resolution the test of
  the code lets a fix be older than the one before it, but by less than twice the tolerance of
  a tenth of a millisecond.
\<close>

theorem delivered_fixes_ordered:
  assumes "sorted (0 # map (fst \<circ> snd) bytes)"
  shows "let fixes = valid_deliveries (feed_bytes throws bytes new_serial_gps) in
    sorted (map px_mono fixes) \<and>
    (list_all (\<lambda>f. whole_milliseconds (px_utc f)) fixes \<longrightarrow> sorted_wrt epoch_order fixes) \<and>
    successively (\<lambda>a b. px_utc a < px_utc b + 2 * epoch_tolerance) fixes"
proof -
  let ?fixes = "valid_deliveries (feed_bytes throws bytes new_serial_gps)"
  have new: "stream_ok 0 new_serial_gps" "epochs_ok new_serial_gps"
    by (simp_all add: stream_ok_def epochs_ok_def new_serial_gps_def valid_deliveries_def whole_milliseconds_def)
  from fed_stream [OF new assms] have o: "successively not_after ?fixes" and e: "epochs_ok (feed_bytes throws bytes new_serial_gps)"
    by (auto simp: stream_ok_def)
  have "successively (\<lambda>a b. px_mono a \<le> px_mono b) ?fixes" by (rule successively_mono [OF o]) (simp add: not_after_def)
  moreover have "transp (\<lambda>a b. px_mono a \<le> px_mono b)" by (auto simp: transp_def)
  ultimately have "sorted (map px_mono ?fixes)" unfolding sorted_map by (rule successively_conv_sorted_wrt [THEN iffD1, rotated])
  moreover have "transp epoch_order" by (force simp: transp_def epoch_order_def)
  then have "list_all (\<lambda>f. whole_milliseconds (px_utc f)) ?fixes \<longrightarrow> sorted_wrt epoch_order ?fixes"
    using e by (simp add: epochs_ok_def successively_conv_sorted_wrt)
  moreover have "successively (\<lambda>a b. px_utc a < px_utc b + 2 * epoch_tolerance) ?fixes"
    by (rule successively_mono [OF o]) (simp add: not_after_def)
  ultimately show ?thesis by (simp add: Let_def)
qed

lemma delivered_fixes_ordered_witness:
  "sorted (map px_mono (valid_deliveries (feed_bytes (\<lambda>_. False)
     (map (\<lambda>c. (c, 5, 43200)) (sample_sentence @ [CHR 0x0A] @ sample_sentence @ [CHR 0x0A])) new_serial_gps)))"
proof -
  have "sorted (0 # map (fst \<circ> snd) (map (\<lambda>c. (c, 5 :: rat, 43200 :: rat))
      (sample_sentence @ [CHR 0x0A] @ sample_sentence @ [CHR 0x0A])))"
    by (simp add: sample_sentence_def)
  from delivered_fixes_ordered [OF this] show ?thesis unfolding Let_def by blast
qed

text \<open>
  The edge between the two tests of \<open>deliver\<close>: a fix exactly one tolerance older is neither out of
  order nor of the same epoch, so it is taken as new and moves the epoch back.
\<close>

lemma epoch_steps_back:
  assumes "px_valid f" "px_utc f = sg_last_utc g - epoch_tolerance"
  shows "fst (order_fix f g) = f \<and> sg_last_utc (snd (order_fix f g)) = sg_last_utc g - epoch_tolerance \<and>
    sg_last_mono (snd (order_fix f g)) = px_mono f"
  using assms epoch_tolerance_pos by (simp add: order_fix_def Let_def)

end
