(* ===== verification/LoraCodec.thy ===== *)
theory LoraCodec
  imports Prelude
begin

text \<open>
  The LoRa block codec of \<open>third_party/sdrangel/lora_codec.hpp\<close> (namespace
  \<open>lora_detail\<close>): Hamming codewords, the diagonal interleaver, whitening, the two
  checksums and the explicit header. \<open>unsigned\<close> counters are naturals (no operation
  on them wraps), bytes and symbols are words of their width. The lemmas show that
  each routine undoes its inverse, and what the Hamming code corrects and detects.
\<close>

section \<open>Nibbles and codewords\<close>

definition codeword84 :: "u8 list" where
  "codeword84 = [0, 23, 45, 58, 78, 89, 99, 116, 139, 156, 166, 177, 197, 210, 232, 255]"

definition codeword45 :: "u8 list" where
  "codeword45 = [0, 24, 40, 48, 72, 80, 96, 120, 136, 144, 160, 184, 192, 216, 232, 240]"

definition reverse4 :: "u8 \<Rightarrow> u8" where
  "reverse4 v = (push_bit 3 (v AND 1) OR push_bit 1 (v AND 2)) OR
     (drop_bit 1 (v AND 4) OR drop_bit 3 (v AND 8))"

definition encode_nibble :: "u8 \<Rightarrow> nat \<Rightarrow> u8" where
  "encode_nibble nibble parity =
     drop_bit (4 - parity)
       ((if parity = 1 then codeword45 else codeword84) ! unat (reverse4 (nibble AND 15)))"

record nibble =
  nib_value :: u8
  nib_corrected :: bool
  nib_invalid :: bool

definition popcount :: "'a::len word \<Rightarrow> nat" where
  "popcount w = length (filter (bit w) [0..<LENGTH('a)])"

text \<open>One round of the search for the nearest codeword: \<open>(best, ties, result)\<close>.\<close>

definition nearest_step :: "u8 \<Rightarrow> nat \<Rightarrow> nat \<Rightarrow> nat \<times> nat \<times> u8 \<Rightarrow> nat \<times> nat \<times> u8" where
  "nearest_step cw parity n s =
     (case s of (best, ties, res) \<Rightarrow>
        let distance = popcount (cw XOR encode_nibble (word_of_nat n) parity) in
        if distance < best then (distance, 1, word_of_nat n)
        else if distance = best then (best, ties + 1, res)
        else (best, ties, res))"

definition decode_nibble :: "u8 \<Rightarrow> nat \<Rightarrow> nibble" where
  "decode_nibble cw parity =
     (if parity < 1 \<or> parity > 4 then \<lparr>nib_value = 0, nib_corrected = False, nib_invalid = True\<rparr>
      else case fold (nearest_step cw parity) [0..<16] (9, 0, 0) of (best, ties, res) \<Rightarrow>
        \<lparr>nib_value = res, nib_corrected = best \<noteq> 0,
         nib_invalid = ties \<noteq> 1 \<or> best > (if parity \<ge> 3 then 1 else 0)\<rparr>)"

section \<open>Checksums and whitening\<close>

definition header_checksum :: "u8 \<Rightarrow> u8 \<Rightarrow> u8" where
  "header_checksum len flags =
     (let a0 = drop_bit 4 len AND 1; a1 = drop_bit 5 len AND 1;
          a2 = drop_bit 6 len AND 1; a3 = drop_bit 7 len AND 1;
          b0 = len AND 1; b1 = drop_bit 1 len AND 1;
          b2 = drop_bit 2 len AND 1; b3 = drop_bit 3 len AND 1;
          c0 = flags AND 1; c1 = drop_bit 1 flags AND 1;
          c2 = drop_bit 2 flags AND 1; c3 = drop_bit 3 flags AND 1
      in push_bit 4 (a0 XOR a1 XOR a2 XOR a3) OR push_bit 3 (a3 XOR b1 XOR b2 XOR b3 XOR c0) OR
         push_bit 2 (a2 XOR b0 XOR b3 XOR c1 XOR c3) OR
         push_bit 1 (a1 XOR b0 XOR b2 XOR c0 XOR c1 XOR c2) OR
         (a0 XOR b1 XOR c0 XOR c1 XOR c2 XOR c3))"

definition crc_bit :: "u16 \<Rightarrow> u16" where
  "crc_bit crc = push_bit 1 crc XOR (if crc AND 0x8000 \<noteq> 0 then 0x1021 else 0)"

definition crc_byte :: "u8 \<Rightarrow> u16 \<Rightarrow> u16" where
  "crc_byte b crc = (crc_bit ^^ 8) (crc XOR push_bit 8 (ucast b))"

definition crc_ccitt :: "u8 list \<Rightarrow> u16" where
  "crc_ccitt bytes = fold crc_byte bytes 0"

definition payload_crc :: "u8 list \<Rightarrow> u16" where
  "payload_crc bytes =
     (if length bytes < 2 then 0
      else crc_ccitt (take (length bytes - 2) bytes) XOR ucast (last bytes) XOR
           push_bit 8 (ucast (bytes ! (length bytes - 2))))"

definition lfsr_step :: "u8 \<Rightarrow> u8" where
  "lfsr_step s =
     (let feedback = (drop_bit 7 s XOR drop_bit 5 s XOR drop_bit 4 s XOR drop_bit 3 s) AND 1
      in push_bit 1 s OR feedback)"

fun whiten_from :: "u8 \<Rightarrow> u8 list \<Rightarrow> u8 list" where
  "whiten_from s [] = []"
| "whiten_from s (b # bs) = (b XOR s) # whiten_from (lfsr_step s) bs"

definition whiten :: "u8 list \<Rightarrow> u8 list" where
  "whiten bytes = whiten_from 0xff bytes"

section \<open>Interleaving\<close>

text \<open>The row of bit \<open>j\<close> of symbol \<open>i\<close>, and the loops over both.\<close>

definition diag_row :: "nat \<Rightarrow> nat \<times> nat \<Rightarrow> nat" where
  "diag_row width p = (fst p + 2 * width - snd p - 1) mod width"

definition deinterleave :: "u16 list \<Rightarrow> nat \<Rightarrow> nat \<Rightarrow> u8 list" where
  "deinterleave symbols width parity =
     (if width < 5 \<or> width > 12 \<or> parity < 1 \<or> parity > 4 \<or> length symbols \<noteq> 4 + parity then []
      else let len = 4 + parity in
        or_loop (diag_row width)
          (\<lambda>(i, j). push_bit (len - 1 - i) (ucast (drop_bit (width - 1 - j) (symbols ! i) AND 1)))
          (List.product [0..<len] [0..<width]) (replicate width 0))"

definition interleave :: "u8 list \<Rightarrow> nat \<Rightarrow> nat \<Rightarrow> u16 list" where
  "interleave nibbles width parity =
     (let len = 4 + parity in
        or_loop fst
          (\<lambda>(i, j). let row = diag_row width (i, j);
                       cw = encode_nibble (if row < length nibbles then nibbles ! row else 0) parity
                   in push_bit (width - 1 - j) (ucast (drop_bit (len - 1 - i) cw AND 1)))
          (List.product [0..<len] [0..<width]) (replicate len 0))"

section \<open>The explicit header\<close>

record header =
  hdr_length :: nat
  hdr_parity :: nat
  hdr_symbols :: nat
  hdr_crc :: bool
  hdr_valid :: bool
  hdr_corrected :: bool

definition no_header :: header where
  "no_header = \<lparr>hdr_length = 0, hdr_parity = 0, hdr_symbols = 0, hdr_crc = False,
     hdr_valid = False, hdr_corrected = False\<rparr>"

definition ldro :: "nat \<Rightarrow> nat \<Rightarrow> bool" where
  "ldro sf bandwidth \<longleftrightarrow> 2 ^ sf * 1000 > 16 * bandwidth"

text \<open>The symbol a peak bin carries, with its Gray code undone by \<open>s^(s>>1)\<close>.\<close>

definition xor_shift :: "nat \<Rightarrow> u16 \<Rightarrow> u16" where
  "xor_shift k x = x XOR drop_bit k x"

definition gray_code :: "u16 \<Rightarrow> u16" where
  "gray_code s = xor_shift 1 s"

definition symbol_of_bin :: "nat \<Rightarrow> nat \<Rightarrow> u16 \<Rightarrow> u16" where
  "symbol_of_bin n dv b = gray_code (word_of_nat (((unat b + n - 1) mod n) div dv))"

text \<open>
  The loop over the five header nibbles returns at the first uncorrectable one; the flag
  \<open>corrected\<close> is set by the nibbles before it.
\<close>

fun header_nibbles :: "u8 list \<Rightarrow> bool \<Rightarrow> bool \<times> u8 list option" where
  "header_nibbles [] corrected = (corrected, Some [])"
| "header_nibbles (cw # cws) corrected =
     (let d = decode_nibble cw 4 in
      if nib_invalid d then (corrected, None)
      else case header_nibbles cws (corrected \<or> nib_corrected d) of
             (c, None) \<Rightarrow> (c, None)
           | (c, Some ns) \<Rightarrow> (c, Some (nib_value d # ns)))"

definition payload_width :: "nat \<Rightarrow> nat \<Rightarrow> nat" where
  "payload_width sf bandwidth = sf - (if ldro sf bandwidth then 2 else 0)"

definition header_symbols :: "nat \<Rightarrow> nat \<Rightarrow> nat \<Rightarrow> bool \<Rightarrow> nat \<Rightarrow> nat" where
  "header_symbols sf bandwidth len crc parity =
     (let pw = payload_width sf bandwidth;
          nibbles = 2 * (len + (if crc then 2 else 0));
          carried = sf - 7;
          remaining = (if nibbles > carried then nibbles - carried else 0)
      in 8 + (remaining + pw - 1) div pw * (4 + parity))"

definition parse_header :: "nat \<Rightarrow> nat \<Rightarrow> bool \<Rightarrow> u8 list \<Rightarrow> header" where
  "parse_header sf bandwidth corrected nibs =
     (let len = unat (nibs ! 0) * 16 + unat (nibs ! 1);
          parity = unat (drop_bit 1 (nibs ! 2));
          crc = (nibs ! 2 AND 1 \<noteq> 0);
          check = unat (nibs ! 3) * 16 + unat (nibs ! 4);
          h = no_header\<lparr>hdr_length := len, hdr_parity := parity, hdr_crc := crc,
                hdr_corrected := corrected\<rparr>
      in if len = 0 \<or> parity < 1 \<or> parity > 4 \<or>
            check \<noteq> unat (header_checksum (word_of_nat len) (nibs ! 2)) then h
         else h\<lparr>hdr_symbols := header_symbols sf bandwidth len crc parity, hdr_valid := True\<rparr>)"

definition decode_header :: "u16 list \<Rightarrow> nat \<Rightarrow> nat \<Rightarrow> header" where
  "decode_header bins sf bandwidth =
     (if sf < 7 \<or> sf > 12 \<or> length bins < 8 \<or> bandwidth = 0 then no_header
      else if \<exists>b\<in>set (take 8 bins). unat b \<ge> 2 ^ sf then no_header
      else let symbols = map (symbol_of_bin (2 ^ sf) 4) (take 8 bins);
               cw = deinterleave symbols (sf - 2) 4
           in case header_nibbles (take 5 cw) False of
                (c, None) \<Rightarrow> no_header\<lparr>hdr_corrected := c\<rparr>
              | (c, Some nibs) \<Rightarrow> parse_header sf bandwidth c nibs)"

section \<open>What the Hamming code corrects and detects\<close>

text \<open>Distances are popcounts of differences.\<close>

lemma popcount_card: "popcount (w :: 'a::len word) = card {k. bit w k}"
proof -
  have "{k. bit w k} = set (filter (bit w) [0..<LENGTH('a)])"
    by (auto dest: bit_imp_le_length)
  moreover have "distinct (filter (bit w) [0..<LENGTH('a)])" by simp
  ultimately show ?thesis
    unfolding popcount_def by (metis distinct_card)
qed

lemma finite_bits: "finite {k. bit (w :: 'a::len word) k}"
proof (rule finite_subset)
  show "{k. bit w k} \<subseteq> {..<LENGTH('a)}" by (auto dest: bit_imp_le_length)
qed simp

lemma popcount_triangle: "popcount (x XOR y) \<le> popcount x + popcount (y :: 'a::len word)"
proof -
  have "{k. bit (x XOR y) k} \<subseteq> {k. bit x k} \<union> {k. bit y k}"
    by (auto simp: bit_xor_iff)
  then have "card {k. bit (x XOR y) k} \<le> card ({k. bit x k} \<union> {k. bit y k})"
    by (intro card_mono) (simp_all add: finite_bits)
  also have "\<dots> \<le> card {k. bit x k} + card {k. bit y k}" by (rule card_Un_le)
  finally show ?thesis by (simp add: popcount_card)
qed

lemma popcount_0_iff: "popcount (w :: 'a::len word) = 0 \<longleftrightarrow> w = 0"
proof -
  have "popcount w = 0 \<longleftrightarrow> {k. bit w k} = {}"
    unfolding popcount_card using finite_bits [of w] by simp
  also have "\<dots> \<longleftrightarrow> w = 0"
    by (auto intro: bit_eqI)
  finally show ?thesis .
qed

text \<open>The code is linear: a codeword is the sum of the generators of the set bits.\<close>

definition generator_sum :: "u8 \<Rightarrow> nat \<Rightarrow> u8" where
  "generator_sum n p =
     (if bit n 0 then encode_nibble 1 p else 0) XOR (if bit n 1 then encode_nibble 2 p else 0) XOR
     (if bit n 2 then encode_nibble 4 p else 0) XOR (if bit n 3 then encode_nibble 8 p else 0)"

lemma generator_sum_xor: "generator_sum (a XOR b) p = generator_sum a p XOR generator_sum b p"
  by (simp add: generator_sum_def bit_xor_iff ac_simps)


lemma encode_nibble_table:
  "\<forall>p\<in>set [1..<5]. \<forall>n\<in>set [0..<16].
     encode_nibble (word_of_nat n) p = generator_sum (word_of_nat n) p"
  by code_simp

lemma encode_nibble_weights:
  "\<forall>p\<in>set [1..<5]. \<forall>n\<in>set [1..<16].
     (if p = 4 then 4 else if p = 3 then 3 else 2) \<le> popcount (encode_nibble (word_of_nat n) p)"
  by code_simp

definition code_distance :: "nat \<Rightarrow> nat" where
  "code_distance parity = (if parity = 4 then 4 else if parity = 3 then 3 else 2)"

lemma encode_nibble_generator:
  assumes "1 \<le> p" "p \<le> 4" "unat a < 16"
  shows "encode_nibble a p = generator_sum a p"
proof -
  have "p \<in> set [1..<5]" "unat a \<in> set [0..<16]" using assms by auto
  then show ?thesis using encode_nibble_table by force
qed

lemma nibble_xor_less: "unat a < 16 \<Longrightarrow> unat b < 16 \<Longrightarrow> unat (a XOR b) < 16" for a b :: u8
  using word_less_2p_iff_bits [of a 4] word_less_2p_iff_bits [of b 4]
    word_less_2p_iff_bits [of "a XOR b" 4]
  by (simp add: bit_xor_iff)

lemma encode_nibble_distance:
  assumes p: "1 \<le> p" "p \<le> 4" and ab: "unat a < 16" "unat b < 16" "a \<noteq> b"
  shows "code_distance p \<le> popcount (encode_nibble a p XOR encode_nibble b p)"
proof -
  have x: "unat (a XOR b) < 16" by (rule nibble_xor_less [OF ab(1,2)])
  have "a XOR b \<noteq> 0" using ab(3) by (metis xor.left_neutral xor.assoc xor_self_eq)
  then have "unat (a XOR b) \<in> set [1..<16]" using x by (simp add: Suc_le_eq unat_gt_0)
  moreover have "p \<in> set [1..<5]" using p by auto
  ultimately have "code_distance p \<le> popcount (encode_nibble (word_of_nat (unat (a XOR b))) p)"
    unfolding code_distance_def using encode_nibble_weights by blast
  also have "encode_nibble (word_of_nat (unat (a XOR b))) p = encode_nibble a p XOR encode_nibble b p"
    using p ab x by (simp add: encode_nibble_generator generator_sum_xor)
  finally show ?thesis .
qed

text \<open>What the search loop computes.\<close>

lemma nearest_fold_bounds:
  assumes "fold (nearest_step cw p) ns (best0, ties0, res0) = (best, ties, res)"
  shows "best \<le> best0 \<and> (\<forall>n\<in>set ns. best \<le> popcount (cw XOR encode_nibble (word_of_nat n) p)) \<and>
    (best = best0 \<or> (\<exists>n\<in>set ns. best = popcount (cw XOR encode_nibble (word_of_nat n) p)))"
  using assms
proof (induction ns arbitrary: best0 ties0 res0)
  case Nil
  then show ?case by simp
next
  case (Cons n ns)
  obtain b t r where s: "nearest_step cw p n (best0, ties0, res0) = (b, t, r)"
    by (metis prod_cases3)
  have "b \<le> best0 \<and> b \<le> popcount (cw XOR encode_nibble (word_of_nat n) p) \<and>
      (b = best0 \<or> b = popcount (cw XOR encode_nibble (word_of_nat n) p))"
    using s by (auto simp: nearest_step_def Let_def split: if_splits)
  moreover have "fold (nearest_step cw p) ns (b, t, r) = (best, ties, res)"
    using Cons.prems s by simp
  note Cons.IH [OF this]
  ultimately show ?case by auto
qed

lemma nearest_fold_keeps:
  assumes "\<forall>n\<in>set ns. best < popcount (cw XOR encode_nibble (word_of_nat n) p)"
  shows "fold (nearest_step cw p) ns (best, ties, res) = (best, ties, res)"
  using assms by (induction ns) (auto simp: nearest_step_def Let_def)

lemma nearest_fold_unique:
  assumes k: "popcount (cw XOR encode_nibble (word_of_nat k) p) < best0"
    and others: "\<forall>n\<in>set (ns1 @ ns2).
      popcount (cw XOR encode_nibble (word_of_nat k) p) < popcount (cw XOR encode_nibble (word_of_nat n) p)"
  shows "fold (nearest_step cw p) (ns1 @ k # ns2) (best0, ties0, res0) =
    (popcount (cw XOR encode_nibble (word_of_nat k) p), 1, word_of_nat k)"
proof -
  let ?d = "popcount (cw XOR encode_nibble (word_of_nat k) p)"
  obtain b t r where s: "fold (nearest_step cw p) ns1 (best0, ties0, res0) = (b, t, r)"
    by (metis prod_cases3)
  have "?d < b" using nearest_fold_bounds [OF s] k others by auto
  then have "nearest_step cw p k (b, t, r) = (?d, 1, word_of_nat k)"
    by (simp add: nearest_step_def Let_def)
  moreover have "fold (nearest_step cw p) ns2 (?d, 1, word_of_nat k) = (?d, 1, word_of_nat k)"
    by (rule nearest_fold_keeps) (use others in auto)
  ultimately show ?thesis using s by simp
qed

lemma upt_split: "k < n \<Longrightarrow> [0..<n] = [0..<k] @ k # [Suc k..<n]"
  using upt_add_eq_append [of 0 k "n - k"] by (simp add: upt_conv_Cons)

lemma popcount_le_8: "popcount (w :: u8) \<le> 8"
proof -
  have "length (filter (bit w) [0..<8]) \<le> length [0..<8]" by (rule length_filter_le)
  then show ?thesis by (simp add: popcount_def)
qed

lemma distance_to_other_codeword:
  assumes p: "1 \<le> p" "p \<le> 4" and n: "unat n < 16" "unat m < 16" "m \<noteq> n"
  shows "code_distance p \<le> popcount e + popcount ((encode_nibble n p XOR e) XOR encode_nibble m p)"
proof -
  have "encode_nibble n p XOR encode_nibble m p = e XOR ((encode_nibble n p XOR e) XOR encode_nibble m p)"
    by (simp add: ac_simps)
  then show ?thesis
    using encode_nibble_distance [OF p n(1,2)] n(3) popcount_triangle
    by (metis order_trans)
qed

lemma decode_nibble_corrects:
  assumes p: "1 \<le> p" "p \<le> 4" and n: "unat n < 16"
    and e: "popcount e \<le> (if p \<ge> 3 then 1 else 0)"
  shows "decode_nibble (encode_nibble n p XOR e) p =
    \<lparr>nib_value = n, nib_corrected = e \<noteq> 0, nib_invalid = False\<rparr>"
proof -
  let ?cw = "encode_nibble n p XOR e"
  have own: "?cw XOR encode_nibble n p = e"
    by (metis xor.assoc xor.commute xor_self_eq xor.right_neutral)
  have own': "popcount (?cw XOR encode_nibble (word_of_nat (unat n)) p) = popcount e"
    by (simp add: own)
  have other: "popcount e < popcount (?cw XOR encode_nibble (word_of_nat k) p)"
    if "k < 16" "k \<noteq> unat n" for k
  proof -
    have "unat (word_of_nat k :: u8) = k" using that by (simp add: unat_of_nat)
    then have "unat (word_of_nat k :: u8) < 16" "(word_of_nat k :: u8) \<noteq> n" using that by auto
    from distance_to_other_codeword [OF p n this, of e] e p show ?thesis
      by (auto simp: code_distance_def split: if_splits)
  qed
  have "fold (nearest_step ?cw p) ([0..<unat n] @ unat n # [Suc (unat n)..<16]) (9, 0, 0) =
      (popcount e, 1, n)"
  proof -
    have "\<forall>k\<in>set ([0..<unat n] @ [Suc (unat n)..<16]).
        popcount (?cw XOR encode_nibble (word_of_nat (unat n)) p) < popcount (?cw XOR encode_nibble (word_of_nat k) p)"
      using other n by (auto simp: own)
    moreover have "popcount (?cw XOR encode_nibble (word_of_nat (unat n)) p) < 9"
      unfolding own' using popcount_le_8 [of e] by simp
    ultimately show ?thesis
      using nearest_fold_unique [of ?cw "unat n" p 9] own' by simp
  qed
  moreover have "[0..<16] = [0..<unat n] @ unat n # [Suc (unat n)..<16]"
    by (rule upt_split [OF n])
  ultimately show ?thesis
    using p e popcount_0_iff [of e] by (simp add: decode_nibble_def) auto
qed

lemma decode_encode_nibble:
  assumes "1 \<le> p" "p \<le> 4" "unat n < 16"
  shows "decode_nibble (encode_nibble n p) p = \<lparr>nib_value = n, nib_corrected = False, nib_invalid = False\<rparr>"
proof -
  have "popcount (0 :: u8) = 0" by (simp add: popcount_0_iff)
  then show ?thesis using decode_nibble_corrects [OF assms, of 0] by simp
qed

lemma decode_nibble_detects:
  assumes p: "p \<in> {1, 2, 4}" and n: "unat n < 16"
    and e: "popcount e = (if p = 4 then 2 else 1)"
  shows "nib_invalid (decode_nibble (encode_nibble n p XOR e) p)"
proof -
  let ?cw = "encode_nibble n p XOR e"
  have p': "1 \<le> p" "p \<le> 4" using p by auto
  obtain best ties res where f: "fold (nearest_step ?cw p) [0..<16] (9, 0, 0) = (best, ties, res)"
    by (metis prod_cases3)
  have far: "popcount e \<le> popcount (?cw XOR encode_nibble (word_of_nat k) p)" if "k < 16" for k
  proof (cases "k = unat n")
    case True
    have "?cw XOR encode_nibble n p = e"
      by (metis xor.assoc xor.commute xor_self_eq xor.right_neutral)
    then show ?thesis using True by simp
  next
    case False
    have "unat (word_of_nat k :: u8) = k" using that by (simp add: unat_of_nat)
    then have "unat (word_of_nat k :: u8) < 16" "(word_of_nat k :: u8) \<noteq> n" using that False by auto
    from distance_to_other_codeword [OF p' n this, of e] e p show ?thesis
      by (auto simp: code_distance_def split: if_splits)
  qed
  have "popcount e \<le> best"
    using nearest_fold_bounds [OF f] far e by (auto split: if_splits)
  then show ?thesis
    using p e f by (auto simp: decode_nibble_def split: if_splits)
qed
section \<open>Gray code, interleaving and whitening undo each other\<close>

text \<open>The prefix XOR of the encoder, \<open>for(shift=1;shift<16;shift<<=1) binary^=binary>>shift\<close>.\<close>

definition gray_decode :: "u16 \<Rightarrow> u16" where
  "gray_decode g = fold xor_shift [1, 2, 4, 8] g"

lemma bit_gray_code: "bit (gray_code s) k \<longleftrightarrow> bit s k \<noteq> bit s (Suc k)"
  by (simp add: gray_code_def xor_shift_def bit_xor_iff bit_drop_bit_eq)

lemma xor_shift_twice: "xor_shift s (xor_shift s x) = xor_shift (2 * s) x"
  by (rule bit_word_eqI) (auto simp: xor_shift_def bit_xor_iff bit_drop_bit_eq mult_2 add.assoc)

lemma xor_shift_commute: "xor_shift s (xor_shift t x) = xor_shift t (xor_shift s x)"
  by (rule bit_word_eqI) (auto simp: xor_shift_def bit_xor_iff bit_drop_bit_eq ac_simps)

lemma xor_shift_16: "xor_shift 16 x = x"
  by (rule bit_word_eqI) (auto simp: xor_shift_def bit_xor_iff bit_drop_bit_eq bit_word_ge)

lemma gray_code_decode: "gray_code (gray_decode g) = g"
proof -
  have "gray_code (gray_decode g) = xor_shift 1 (xor_shift 8 (xor_shift 4 (xor_shift 2 (xor_shift 1 g))))"
    by (simp add: gray_code_def gray_decode_def)
  also have "\<dots> = xor_shift 8 (xor_shift 4 (xor_shift 2 (xor_shift 1 (xor_shift 1 g))))"
    by (simp only: xor_shift_commute [of 1 8] xor_shift_commute [of 1 4] xor_shift_commute [of 1 2])
  also have "\<dots> = g"
    by (simp add: xor_shift_twice xor_shift_16)
  finally show ?thesis .
qed

lemma gray_decode_less:
  assumes "unat g < 2 ^ w"
  shows "unat (gray_decode g) < 2 ^ w"
proof -
  have "\<not> bit g k" if "w \<le> k" for k
    using assms that by (simp add: word_less_2p_iff_bits)
  then show ?thesis
    unfolding word_less_2p_iff_bits gray_decode_def by (simp add: xor_shift_def bit_xor_iff bit_drop_bit_eq)
qed

lemma diag_row_less: "0 < w \<Longrightarrow> diag_row w p < w"
  by (simp add: diag_row_def)

lemma diag_row_surj:
  assumes "r < w"
  shows "\<exists>j<w. diag_row w (i, j) = r"
proof -
  define j where "j = (i + 2 * w - 1 - r) mod w"
  have j: "j < w" using assms by (simp add: j_def)
  have "int ((i + 2 * w - j - 1) mod w) = int r"
  proof -
    have le: "j + 1 \<le> i + 2 * w" "1 + r \<le> i + 2 * w" using j assms by auto
    have "int ((i + 2 * w - j - 1) mod w) = (int i + 2 * int w - int j - 1) mod int w"
      using le(1) by (simp add: of_nat_mod of_nat_diff algebra_simps)
    also have "\<dots> = (int i + 2 * int w - (int i + 2 * int w - 1 - int r) mod int w - 1) mod int w"
      using le(2) by (simp add: j_def of_nat_mod of_nat_diff algebra_simps)
    also have "\<dots> = (int i + 2 * int w - (int i + 2 * int w - 1 - int r) - 1) mod int w"
      by (metis (no_types, lifting) mod_diff_left_eq mod_diff_right_eq)
    also have "\<dots> = int r" using assms by simp
    finally show ?thesis .
  qed
  then show ?thesis using j by (auto simp: diag_row_def)
qed

lemma encode_nibble_less:
  assumes "1 \<le> p" "p \<le> 4"
  shows "unat (encode_nibble n p) < 2 ^ (4 + p)"
proof -
  have "\<not> bit (encode_nibble n p) k" if "4 + p \<le> k" for k
    using assms that by (auto simp: encode_nibble_def bit_drop_bit_eq bit_word_ge)
  then show ?thesis by (simp add: word_less_2p_iff_bits)
qed

lemma length_interleave [simp]: "length (interleave ns w p) = 4 + p"
  by (simp add: interleave_def Let_def)

lemma bit_interleave:
  assumes "i < 4 + p"
  shows "bit (interleave ns w p ! i) m \<longleftrightarrow>
    (\<exists>j<w. m = w - 1 - j \<and> m < 16 \<and>
      bit (encode_nibble (if diag_row w (i, j) < length ns then ns ! diag_row w (i, j) else 0) p) (3 + p - i))"
proof -
  have b: "bit (push_bit s (ucast (drop_bit m cw AND 1)) :: u16) k \<longleftrightarrow> k = s \<and> k < 16 \<and> bit cw m"
    for s m k and cw :: u8
    by (auto simp: bit_push_bit_iff bit_unsigned_iff bit_and_iff bit_drop_bit_eq bit_1_iff)
  show ?thesis
    using assms unfolding interleave_def Let_def
    by (subst bit_or_loop) (auto simp: b)
qed

lemma bit_deinterleave:
  assumes w: "5 \<le> w" "w \<le> 12" and p: "1 \<le> p" "p \<le> 4" and len: "length syms = 4 + p" and r: "r < w"
  shows "bit (deinterleave syms w p ! r) k \<longleftrightarrow>
    (\<exists>i<4 + p. \<exists>j<w. diag_row w (i, j) = r \<and> k = 3 + p - i \<and> bit (syms ! i) (w - 1 - j))"
proof -
  have b: "bit (push_bit s (ucast (drop_bit m sy AND 1)) :: u8) k \<longleftrightarrow> k = s \<and> k < 8 \<and> bit sy m"
    for s m k and sy :: u16
    by (auto simp: bit_push_bit_iff bit_unsigned_iff bit_and_iff bit_drop_bit_eq bit_1_iff)
  have aux: "3 + p - i < 8" for i using p by arith
  have d: "deinterleave syms w p = or_loop (diag_row w)
      (\<lambda>(i, j). push_bit (4 + p - 1 - i) (ucast (drop_bit (w - 1 - j) (syms ! i) AND 1)))
      (List.product [0..<4 + p] [0..<w]) (replicate w 0)"
    using w p len by (simp add: deinterleave_def Let_def)
  show ?thesis
    unfolding d using r p aux by (subst bit_or_loop) (simp_all add: b, fastforce)
qed

lemma length_deinterleave:
  "5 \<le> w \<Longrightarrow> w \<le> 12 \<Longrightarrow> 1 \<le> p \<Longrightarrow> p \<le> 4 \<Longrightarrow> length syms = 4 + p \<Longrightarrow>
    length (deinterleave syms w p) = w"
  by (simp add: deinterleave_def Let_def)

lemma deinterleave_interleave:
  assumes w: "5 \<le> w" "w \<le> 12" and p: "1 \<le> p" "p \<le> 4"
  shows "deinterleave (interleave ns w p) w p =
    map (\<lambda>r. encode_nibble (if r < length ns then ns ! r else 0) p) [0..<w]"
proof (rule nth_equalityI)
  show "length (deinterleave (interleave ns w p) w p) =
      length (map (\<lambda>r. encode_nibble (if r < length ns then ns ! r else 0) p) [0..<w])"
    using w p by (simp add: length_deinterleave)
next
  fix r assume "r < length (deinterleave (interleave ns w p) w p)"
  then have r: "r < w" using w p by (simp add: length_deinterleave)
  let ?cw = "\<lambda>r. encode_nibble (if r < length ns then ns ! r else 0) p"
  have "bit (deinterleave (interleave ns w p) w p ! r) k = bit (?cw r) k" for k
  proof
    assume "bit (deinterleave (interleave ns w p) w p ! r) k"
    then obtain i j where ij: "i < 4 + p" "j < w" "diag_row w (i, j) = r" "k = 3 + p - i"
      and b: "bit (interleave ns w p ! i) (w - 1 - j)"
      using w p r by (auto simp: bit_deinterleave)
    from b ij(1) obtain j' where "j' < w" "w - 1 - j = w - 1 - j'"
      and b': "bit (?cw (diag_row w (i, j'))) (3 + p - i)"
      by (auto simp: bit_interleave)
    then have "j' = j" using ij(2) by arith
    then have "bit (?cw r) (3 + p - i)" using b' ij(3) by metis
    then show "bit (?cw r) k" by (simp only: ij(4))
  next
    assume b: "bit (?cw r) k"
    then have k: "k < 4 + p"
      using encode_nibble_less [OF p, of "if r < length ns then ns ! r else 0"]
      unfolding word_less_2p_iff_bits by (meson not_less)
    define i where "i = 3 + p - k"
    have i: "i < 4 + p" "k = 3 + p - i" using k by (auto simp: i_def)
    obtain j where j: "j < w" "diag_row w (i, j) = r" using diag_row_surj [OF r] by blast
    have "bit (interleave ns w p ! i) (w - 1 - j)"
      unfolding bit_interleave [OF i(1)]
      using w b i j by (intro exI [of _ j]) auto
    then show "bit (deinterleave (interleave ns w p) w p ! r) k"
      using w p r i j by (auto simp: bit_deinterleave)
  qed
  then have "deinterleave (interleave ns w p) w p ! r = ?cw r" by (intro bit_eqI)
  then show "deinterleave (interleave ns w p) w p ! r =
      map (\<lambda>r. encode_nibble (if r < length ns then ns ! r else 0) p) [0..<w] ! r"
    using r by simp
qed

lemma interleave_less:
  assumes "s \<in> set (interleave ns w p)" "0 < w"
  shows "unat s < 2 ^ w"
proof -
  obtain i where i: "i < 4 + p" "s = interleave ns w p ! i"
    using assms by (auto simp: in_set_conv_nth)
  have "\<not> bit s k" if "w \<le> k" for k
    using that assms(2) unfolding i(2) bit_interleave [OF i(1)] by auto
  then show ?thesis by (simp add: word_less_2p_iff_bits)
qed

lemma length_whiten_from [simp]: "length (whiten_from s bs) = length bs"
  by (induction s bs rule: whiten_from.induct) simp_all

lemma length_whiten [simp]: "length (whiten bs) = length bs"
  by (simp add: whiten_def)

lemma whiten_from_involution: "whiten_from s (whiten_from s bs) = bs"
  by (induction s bs rule: whiten_from.induct) (simp_all add: xor.assoc)

lemma whiten_involution: "whiten (whiten bs) = bs"
  by (simp add: whiten_def whiten_from_involution)

lemma take_whiten_from: "take n (whiten_from s bs) = whiten_from s (take n bs)"
proof (induction s bs arbitrary: n rule: whiten_from.induct)
  case (2 s b bs)
  then show ?case by (cases n) simp_all
qed simp

end
