(* ===== verification/PhyCodec.thy ===== *)
theory PhyCodec
  imports LoraCodec
begin

text \<open>
  The native symbol codec of \<open>src/phy_codec.cpp\<close>: \<open>encode_lora_symbols\<close> writes a payload
  as FFT peak bins, \<open>decode_lora_symbols\<close> reads them back. The main results: decoding
  what was encoded returns the payload with a passing CRC, and a returned frame always
  has the length and coding rate its header announced.
\<close>

section \<open>Configuration and frames (include/ovmesh/phy.hpp)\<close>

record phy_config =
  pc_bandwidth :: nat
  pc_sf :: nat
  pc_cr :: nat
  pc_sync_word :: u8

record phy_frame =
  pf_bytes :: "u8 list"
  pf_header_valid :: bool
  pf_crc_valid :: bool
  pf_crc_present :: bool
  pf_fec_corrected :: bool
  pf_coding_rate :: nat
  pf_first_sample :: nat
  pf_last_sample :: nat

definition supported_lora_bandwidth :: "nat \<Rightarrow> bool" where
  "supported_lora_bandwidth bw \<longleftrightarrow>
     bw = 15625 \<or> bw = 62500 \<or> bw = 125000 \<or> bw = 250000 \<or> bw = 500000"

definition validate_phy :: "phy_config \<Rightarrow> unit result" where
  "validate_phy c = guard_err (pc_sf c < 7 \<or> pc_sf c > 12 \<or> pc_cr c < 5 \<or> pc_cr c > 8 \<or>
     \<not> supported_lora_bandwidth (pc_bandwidth c)) ''Unsupported LoRa profile''"

text \<open>
  \<open>div\<close> and \<open>width\<close> of a block: the header block and every block of a low data rate
  profile carry two bits less per symbol.
\<close>

definition block_div :: "phy_config \<Rightarrow> bool \<Rightarrow> nat" where
  "block_div c hdr = (if hdr \<or> ldro (pc_sf c) (pc_bandwidth c) then 4 else 1)"

definition block_width :: "phy_config \<Rightarrow> bool \<Rightarrow> nat" where
  "block_width c hdr = pc_sf c - (if block_div c hdr = 4 then 2 else 0)"

section \<open>Decoding\<close>

text \<open>
  An uncorrectable codeword contributes its systematic nibble, and claims no correction.
\<close>

definition codeword_nibble :: "nat \<Rightarrow> u8 \<Rightarrow> u8" where
  "codeword_nibble parity cw =
     (let d = decode_nibble cw parity in
      if nib_invalid d then reverse4 (drop_bit parity cw) else nib_value d)"

definition codeword_corrected :: "nat \<Rightarrow> u8 \<Rightarrow> bool" where
  "codeword_corrected parity cw =
     (let d = decode_nibble cw parity in \<not> nib_invalid d \<and> nib_corrected d)"

function decode_blocks ::
  "phy_config \<Rightarrow> header \<Rightarrow> u16 list \<Rightarrow> nat \<Rightarrow> u8 list \<Rightarrow> bool \<Rightarrow> (u8 list \<times> bool) option" where
  "decode_blocks c h bins offset nibbles corrected =
     (if offset < hdr_symbols h then
        let hdr = (offset = 0);
            parity = (if hdr then 4 else hdr_parity h);
            dv = block_div c hdr;
            width = block_width c hdr;
            block = take (4 + parity) (drop offset bins)
        in if \<exists>b\<in>set block. unat b \<ge> 2 ^ pc_sf c then None
           else let symbols = map (symbol_of_bin (2 ^ pc_sf c) dv) block;
                    cw = take width (deinterleave symbols width parity)
                in decode_blocks c h bins (offset + (4 + parity))
                     (nibbles @ map (codeword_nibble parity) cw)
                     (corrected \<or> (\<exists>w\<in>set cw. codeword_corrected parity w))
      else Some (nibbles, corrected))"
  by pat_completeness auto
termination
  by (relation "measure (\<lambda>(c, h, bins, offset, ns, k). hdr_symbols h - offset)") auto

declare decode_blocks.simps [simp del]

definition nibble_pair :: "u8 list \<Rightarrow> nat \<Rightarrow> u8" where
  "nibble_pair nibbles i = nibbles ! (5 + 2 * i) OR push_bit 4 (nibbles ! (6 + 2 * i))"

definition frame_of :: "header \<Rightarrow> bool \<Rightarrow> u8 list \<Rightarrow> phy_frame" where
  "frame_of h corrected raw =
     (let bytes = whiten (take (hdr_length h) raw) @ drop (hdr_length h) raw;
          received = ucast (bytes ! hdr_length h) OR push_bit 8 (ucast (bytes ! (hdr_length h + 1))) :: u16
      in \<lparr>pf_bytes = take (hdr_length h) bytes,
          pf_header_valid = True,
          pf_crc_valid = (hdr_crc h \<and> hdr_length h \<ge> 2 \<and>
            received = payload_crc (take (hdr_length h) bytes)),
          pf_crc_present = hdr_crc h,
          pf_fec_corrected = corrected,
          pf_coding_rate = 4 + hdr_parity h,
          pf_first_sample = 0, pf_last_sample = 0\<rparr>)"

definition decode_lora_symbols :: "u16 list \<Rightarrow> phy_config \<Rightarrow> phy_frame option result" where
  "decode_lora_symbols bins c = bind_result (validate_phy c) (\<lambda>_.
     let h = decode_header bins (pc_sf c) (pc_bandwidth c) in
     if \<not> hdr_valid h \<or> length bins < hdr_symbols h then Inr None
     else case decode_blocks c h bins 0 [] (hdr_corrected h) of
       None \<Rightarrow> Inr None
     | Some (nibbles, corrected) \<Rightarrow>
         let count = hdr_length h + (if hdr_crc h then 2 else 0) in
         if length nibbles < 5 + 2 * count then Inr None
         else Inr (Some (frame_of h corrected (map (nibble_pair nibbles) [0..<count]))))"

section \<open>Encoding\<close>

definition encode_block :: "phy_config \<Rightarrow> bool \<Rightarrow> u8 list \<Rightarrow> u16 list" where
  "encode_block c hdr chunk =
     map (\<lambda>gray. word_of_nat ((unat (gray_decode gray) * block_div c hdr + 1) mod 2 ^ pc_sf c))
       (interleave chunk (block_width c hdr) (if hdr then 4 else pc_cr c - 4))"

text \<open>
  The loop over the blocks; a profile accepted by \<open>validate_phy\<close> has a positive width, so
  the first test only makes the recursion well-founded.
\<close>

function encode_blocks :: "phy_config \<Rightarrow> bool \<Rightarrow> u8 list \<Rightarrow> u16 list" where
  "encode_blocks c hdr nibbles =
     (if block_width c hdr = 0 \<or> nibbles = [] then []
      else encode_block c hdr (take (block_width c hdr) nibbles) @
           encode_blocks c False (drop (block_width c hdr) nibbles))"
  by pat_completeness auto
termination
  by (relation "measure (\<lambda>(c, hdr, ns). length ns)") auto

declare encode_blocks.simps [simp del]

definition header_flags :: "phy_config \<Rightarrow> u8" where
  "header_flags c = push_bit 1 (word_of_nat (pc_cr c - 4)) OR 1"

definition header_bytes :: "nat \<Rightarrow> u8 \<Rightarrow> u8 list" where
  "header_bytes len flags =
     (let size = word_of_nat len; check = header_checksum size flags
      in [drop_bit 4 size, size AND 15, flags, drop_bit 4 check, check AND 15])"

definition split_nibbles :: "u8 list \<Rightarrow> u8 list" where
  "split_nibbles bytes = concat (map (\<lambda>b. [b AND 15, drop_bit 4 b]) bytes)"

definition crc_bytes :: "u16 \<Rightarrow> u8 list" where
  "crc_bytes crc = [ucast crc, ucast (drop_bit 8 crc)]"

definition encode_lora_symbols :: "u8 list \<Rightarrow> phy_config \<Rightarrow> u16 list result" where
  "encode_lora_symbols payload c = bind_result (validate_phy c) (\<lambda>_.
     bind_result (guard_err (length payload < 2 \<or> length payload > 255)
       ''LoRa fixture payload length must be 2..255'') (\<lambda>_.
     Inr (encode_blocks c True
       (header_bytes (length payload) (header_flags c) @
        split_nibbles (whiten payload @ crc_bytes (payload_crc payload))))))"

section \<open>A block and its symbols\<close>

definition valid_profile :: "phy_config \<Rightarrow> bool" where
  "valid_profile c \<longleftrightarrow> 7 \<le> pc_sf c \<and> pc_sf c \<le> 12 \<and> 5 \<le> pc_cr c \<and> pc_cr c \<le> 8 \<and>
     supported_lora_bandwidth (pc_bandwidth c)"

lemma validate_phy_iff [simp]: "validate_phy c = Inr () \<longleftrightarrow> valid_profile c"
  by (auto simp: validate_phy_def valid_profile_def)

lemma validate_phy_Inr: "valid_profile c \<Longrightarrow> validate_phy c = Inr ()"
  by simp

lemma validate_phy_Inl: "\<not> valid_profile c \<Longrightarrow> validate_phy c = Inl ''Unsupported LoRa profile''"
  by (auto simp: validate_phy_def valid_profile_def)

lemma block_div_pos [simp]: "0 < block_div c hdr"
  by (simp add: block_div_def)

lemma block_width_bounds:
  assumes "valid_profile c"
  shows "5 \<le> block_width c hdr" "block_width c hdr \<le> 12" "0 < block_width c hdr"
  using assms by (auto simp: block_width_def valid_profile_def)

lemma block_size:
  assumes "valid_profile c"
  shows "2 ^ block_width c hdr * block_div c hdr = 2 ^ pc_sf c"
proof -
  have "(2::nat) ^ pc_sf c = 2 ^ (pc_sf c - 2) * 2 ^ 2"
    unfolding power_add [symmetric] using assms by (intro arg_cong [of _ _ "(^) 2"]) (auto simp: valid_profile_def)
  then show ?thesis by (auto simp: block_width_def block_div_def)
qed

lemma sf_power_bounds:
  assumes "valid_profile c"
  shows "(2::nat) ^ pc_sf c \<le> 4096" "128 \<le> (2::nat) ^ pc_sf c"
proof -
  have "(2::nat) ^ pc_sf c \<le> 2 ^ 12" "(2::nat) ^ 7 \<le> 2 ^ pc_sf c"
    using assms by (intro power_increasing; simp add: valid_profile_def)+
  then show "(2::nat) ^ pc_sf c \<le> 4096" "128 \<le> (2::nat) ^ pc_sf c" by simp_all
qed

lemma unat_encoded_bin:
  assumes "valid_profile c"
  shows "unat (word_of_nat (x mod 2 ^ pc_sf c) :: u16) = x mod 2 ^ pc_sf c"
proof -
  have "x mod 2 ^ pc_sf c < 2 ^ pc_sf c" by simp
  also have "\<dots> \<le> 4096" by (rule sf_power_bounds [OF assms])
  finally show ?thesis by (simp add: unat_of_nat)
qed

lemma symbol_of_encoded_bin:
  assumes c: "valid_profile c" and g: "unat g < 2 ^ block_width c hdr"
  shows "symbol_of_bin (2 ^ pc_sf c) (block_div c hdr)
    (word_of_nat ((unat (gray_decode g) * block_div c hdr + 1) mod 2 ^ pc_sf c)) = g"
proof -
  let ?n = "(2::nat) ^ pc_sf c" and ?v = "unat (gray_decode g)" and ?d = "block_div c hdr"
  have v: "?v < 2 ^ block_width c hdr" by (rule gray_decode_less [OF g])
  then have lt: "?v * ?d < ?n"
    using block_size [OF c, of hdr] block_div_pos [of c hdr] by (metis mult_less_mono1)
  have "((?v * ?d + 1) mod ?n + ?n - 1) mod ?n = ?v * ?d"
  proof (cases "?v * ?d + 1 = ?n")
    case True
    then show ?thesis using lt by simp
  next
    case False
    then show ?thesis using lt by simp
  qed
  then show ?thesis
    using unat_encoded_bin [OF c, of "?v * ?d + 1"]
    by (simp add: symbol_of_bin_def gray_code_decode)
qed

definition block_parity :: "phy_config \<Rightarrow> bool \<Rightarrow> nat" where
  "block_parity c hdr = (if hdr then 4 else pc_cr c - 4)"

lemma block_parity_bounds:
  "valid_profile c \<Longrightarrow> 1 \<le> block_parity c hdr" "valid_profile c \<Longrightarrow> block_parity c hdr \<le> 4"
  by (auto simp: block_parity_def valid_profile_def)

lemma length_encode_block [simp]: "length (encode_block c hdr chunk) = 4 + block_parity c hdr"
  by (simp add: encode_block_def block_parity_def)

lemma symbols_of_encode_block:
  assumes "valid_profile c"
  shows "map (symbol_of_bin (2 ^ pc_sf c) (block_div c hdr)) (encode_block c hdr chunk) =
    interleave chunk (block_width c hdr) (block_parity c hdr)"
proof -
  have "symbol_of_bin (2 ^ pc_sf c) (block_div c hdr)
    (word_of_nat ((unat (gray_decode g) * block_div c hdr + 1) mod 2 ^ pc_sf c)) = g"
    if "g \<in> set (interleave chunk (block_width c hdr) (block_parity c hdr))" for g
    by (rule symbol_of_encoded_bin [OF assms interleave_less [OF that]])
      (simp add: block_width_bounds [OF assms])
  then show ?thesis by (simp add: encode_block_def block_parity_def comp_def cong: map_cong)
qed

lemma encode_block_less:
  assumes "valid_profile c" "b \<in> set (encode_block c hdr chunk)"
  shows "unat b < 2 ^ pc_sf c"
  using assms(2) unat_encoded_bin [OF assms(1)] by (auto simp: encode_block_def)

definition padded :: "nat \<Rightarrow> u8 list \<Rightarrow> u8 list" where
  "padded w chunk = chunk @ replicate (w - length chunk) 0"

lemma padded_nth: "length chunk \<le> w \<Longrightarrow>
    padded w chunk = map (\<lambda>r. if r < length chunk then chunk ! r else 0) [0..<w]"
  by (rule nth_equalityI) (auto simp: padded_def nth_append)

lemma deinterleave_encode_block:
  assumes c: "valid_profile c" and chunk: "length chunk \<le> block_width c hdr"
  shows "deinterleave (map (symbol_of_bin (2 ^ pc_sf c) (block_div c hdr)) (encode_block c hdr chunk))
      (block_width c hdr) (block_parity c hdr) =
    map (\<lambda>n. encode_nibble n (block_parity c hdr)) (padded (block_width c hdr) chunk)"
  by (simp only: symbols_of_encode_block [OF c] padded_nth [OF chunk] map_map comp_def
      deinterleave_interleave [OF block_width_bounds(1,2) [OF c] block_parity_bounds [OF c]])

definition nibbles_ok :: "u8 list \<Rightarrow> bool" where
  "nibbles_ok ns \<longleftrightarrow> (\<forall>n\<in>set ns. unat n < 16)"

lemma nibbles_ok_simps [simp]:
  "nibbles_ok []" "nibbles_ok (n # ns) \<longleftrightarrow> unat n < 16 \<and> nibbles_ok ns"
  "nibbles_ok (xs @ ys) \<longleftrightarrow> nibbles_ok xs \<and> nibbles_ok ys"
  by (auto simp: nibbles_ok_def)

lemma nibbles_ok_sub:
  "nibbles_ok ns \<Longrightarrow> nibbles_ok (take k ns)" "nibbles_ok ns \<Longrightarrow> nibbles_ok (drop k ns)"
  by (auto simp: nibbles_ok_def dest: in_set_takeD in_set_dropD)

lemma nibbles_ok_padded: "nibbles_ok (padded w ns) \<longleftrightarrow> nibbles_ok ns"
  by (auto simp: padded_def nibbles_ok_def)

lemma length_padded: "length ns \<le> w \<Longrightarrow> length (padded w ns) = w"
  by (simp add: padded_def)

text \<open>
  A received codeword differs from the sent one in at most one bit, and only where the
  code corrects one.
\<close>

definition codeword_hit :: "nat \<Rightarrow> u8 \<Rightarrow> u8 \<Rightarrow> bool" where
  "codeword_hit p n cw \<longleftrightarrow> popcount (encode_nibble n p XOR cw) \<le> (if p \<ge> 3 then 1 else 0)"

lemma decode_hit_nibble:
  assumes "1 \<le> p" "p \<le> 4" "unat n < 16" "codeword_hit p n cw"
  shows "decode_nibble cw p = \<lparr>nib_value = n, nib_corrected = cw \<noteq> encode_nibble n p, nib_invalid = False\<rparr>"
proof -
  have cw: "encode_nibble n p XOR (encode_nibble n p XOR cw) = cw" by (simp add: xor.assoc [symmetric])
  have "encode_nibble n p XOR cw \<noteq> 0 \<longleftrightarrow> cw \<noteq> encode_nibble n p" by (metis cw xor.right_neutral xor_self_eq)
  then show ?thesis
    using decode_nibble_corrects [OF assms(1-3), of "encode_nibble n p XOR cw"] assms(4)
    by (simp add: codeword_hit_def cw)
qed

lemma popcount_0 [simp]: "popcount (0 :: 'a::len word) = 0"
  by (simp add: popcount_0_iff)

lemma codeword_hit_refl [simp]: "codeword_hit p n (encode_nibble n p)"
  by (simp add: codeword_hit_def)

lemma block_nibbles_hit:
  assumes "1 \<le> p" "p \<le> 4" "nibbles_ok ns" "list_all2 (codeword_hit p) ns cws"
  shows "map (codeword_nibble p) cws = ns"
    "cws = map (\<lambda>n. encode_nibble n p) ns \<Longrightarrow> \<not> (\<exists>w\<in>set cws. codeword_corrected p w)"
proof -
  have "codeword_nibble p cw = n" if "codeword_hit p n cw" "unat n < 16" for n cw
    using decode_hit_nibble [OF assms(1,2) that(2,1)] by (simp add: codeword_nibble_def)
  with assms(4,3) show "map (codeword_nibble p) cws = ns"
    by (induction rule: list_all2_induct) auto
  have "\<not> codeword_corrected p (encode_nibble n p)" if "unat n < 16" for n
    using decode_hit_nibble [OF assms(1,2) that codeword_hit_refl] by (simp add: codeword_corrected_def)
  then show "cws = map (\<lambda>n. encode_nibble n p) ns \<Longrightarrow> \<not> (\<exists>w\<in>set cws. codeword_corrected p w)"
    using assms(3) by (auto simp: nibbles_ok_def)
qed

text \<open>
  One wrong symbol of a block reaches each codeword of it in one bit: symbol \<open>i\<close> holds
  bit \<open>3 + p - i\<close> of every codeword.
\<close>

lemma deinterleave_one_symbol:
  assumes w: "5 \<le> w" "w \<le> 12" and p: "1 \<le> p" "p \<le> 4" and len: "length syms = 4 + p" and r: "r < w"
  shows "popcount (deinterleave syms w p ! r XOR deinterleave (syms[i := x]) w p ! r) \<le> 1"
proof (cases "i < 4 + p")
  case True
  have "k = 3 + p - i" if b: "bit (deinterleave syms w p ! r XOR deinterleave (syms[i := x]) w p ! r) k" for k
  proof (rule ccontr)
    assume k: "k \<noteq> 3 + p - i"
    have "bit (syms[i := x] ! i') m = bit (syms ! i') m" if "k = 3 + p - i'" for i' m
      using k that by (cases "i' = i") auto
    then have "bit (deinterleave (syms[i := x]) w p ! r) k = bit (deinterleave syms w p ! r) k"
      unfolding bit_deinterleave [OF w p len r]
        bit_deinterleave [OF w p trans [OF length_list_update len] r] by metis
    then show False using b by (simp add: bit_xor_iff)
  qed
  then have "{k. bit (deinterleave syms w p ! r XOR deinterleave (syms[i := x]) w p ! r) k} \<subseteq> {3 + p - i}"
    by auto
  then have "popcount (deinterleave syms w p ! r XOR deinterleave (syms[i := x]) w p ! r) \<le> card {3 + p - i}"
    unfolding popcount_card by (intro card_mono) simp_all
  then show ?thesis by simp
next
  case False
  then have "syms[i := x] = syms" using len by (simp add: list_update_beyond)
  then show ?thesis by simp
qed

definition block_hit :: "phy_config \<Rightarrow> bool \<Rightarrow> u16 list \<Rightarrow> u16 list \<Rightarrow> bool" where
  "block_hit c hdr sent recv \<longleftrightarrow> (\<forall>b\<in>set recv. unat b < 2 ^ pc_sf c) \<and>
     (recv = sent \<or> 3 \<le> block_parity c hdr \<and> (\<exists>i<length sent. recv = sent[i := recv ! i]))"

lemma codewords_of_hit_block:
  assumes c: "valid_profile c" and chunk: "length chunk \<le> block_width c hdr"
    and hit: "block_hit c hdr (encode_block c hdr chunk) recv"
  shows "list_all2 (codeword_hit (block_parity c hdr)) (padded (block_width c hdr) chunk)
    (deinterleave (map (symbol_of_bin (2 ^ pc_sf c) (block_div c hdr)) recv)
      (block_width c hdr) (block_parity c hdr))"
    (is "list_all2 (codeword_hit ?p) (padded ?w chunk) (?cws recv)")
proof -
  let ?sent = "encode_block c hdr chunk"
  note wp = block_width_bounds(1,2) [OF c, of hdr] block_parity_bounds [OF c, of hdr]
  have sent: "?cws ?sent = map (\<lambda>n. encode_nibble n ?p) (padded ?w chunk)"
    by (rule deinterleave_encode_block [OF c chunk])
  show ?thesis
  proof (cases "recv = ?sent")
    case True
    then show ?thesis using sent by (simp add: list_all2_conv_all_nth)
  next
    case False
    then obtain i where p3: "3 \<le> ?p" and i: "recv = ?sent[i := recv ! i]"
      using hit by (auto simp: block_hit_def)
    have len: "length recv = 4 + ?p" using i by (metis length_list_update length_encode_block)
    let ?sym = "symbol_of_bin (2 ^ pc_sf c) (block_div c hdr)"
    have recv: "?cws recv = deinterleave ((map ?sym ?sent)[i := ?sym (recv ! i)]) ?w ?p"
      using i by (metis map_update)
    have "codeword_hit ?p (padded ?w chunk ! r) (?cws recv ! r)" if r: "r < ?w" for r
      unfolding codeword_hit_def recv
      using deinterleave_one_symbol [OF wp, of "map ?sym ?sent" r i "?sym (recv ! i)"] r p3
        length_padded [OF chunk] by (simp add: sent)
    then show ?thesis
      using length_padded [OF chunk] len by (simp add: list_all2_conv_all_nth length_deinterleave [OF wp])
  qed
qed

lemma length_block_hit: "block_hit c hdr sent recv \<Longrightarrow> length recv = length sent"
  by (auto simp: block_hit_def) (metis length_list_update)

lemma encode_blocks_Nil [simp]: "encode_blocks c hdr [] = []"
  by (simp add: encode_blocks.simps)

lemma encode_blocks_step:
  assumes "valid_profile c" "ns \<noteq> []"
  shows "encode_blocks c hdr ns = encode_block c hdr (take (block_width c hdr) ns) @
      encode_blocks c False (drop (block_width c hdr) ns)"
  using assms block_width_bounds(3) [OF assms(1), of hdr] by (subst encode_blocks.simps) auto

text \<open>One round of the decoder's loop on a received block.\<close>

lemma decode_blocks_step:
  assumes c: "valid_profile c" and same: "pc_sf c' = pc_sf c" "pc_bandwidth c' = pc_bandwidth c"
    and p: "block_parity c (offset = 0) = (if offset = 0 then 4 else hdr_parity h)"
    and ns: "nibbles_ok ns" "length ns \<le> block_width c (offset = 0)"
    and hit: "block_hit c (offset = 0) (encode_block c (offset = 0) ns)
      (take (4 + block_parity c (offset = 0)) (drop offset recv))"
    and more: "offset < hdr_symbols h"
  shows "\<exists>k'. decode_blocks c' h recv offset acc k =
      decode_blocks c' h recv (offset + (4 + block_parity c (offset = 0)))
        (acc @ padded (block_width c (offset = 0)) ns) k' \<and>
    (take (4 + block_parity c (offset = 0)) (drop offset recv) = encode_block c (offset = 0) ns \<longrightarrow> k' = k)"
proof -
  let ?hdr = "offset = 0"
  let ?p = "block_parity c ?hdr" and ?w = "block_width c ?hdr"
  let ?here = "take (4 + ?p) (drop offset recv)"
  let ?cw = "deinterleave (map (symbol_of_bin (2 ^ pc_sf c) (block_div c ?hdr)) ?here) ?w ?p"
  have eq: "block_div c' ?hdr = block_div c ?hdr" "block_width c' ?hdr = ?w" "pc_sf c' = pc_sf c"
    using same by (simp_all add: block_div_def block_width_def)
  have inb: "\<not> (\<exists>b\<in>set ?here. 2 ^ pc_sf c \<le> unat b)"
    using hit by (fastforce simp: block_hit_def)
  note cw = codewords_of_hit_block [OF c ns(2) hit]
  have w: "take ?w ?cw = ?cw"
    using list_all2_lengthD [OF cw] length_padded [OF ns(2)] by simp
  have pad: "nibbles_ok (padded ?w ns)" using ns by (simp add: nibbles_ok_padded)
  note nibs = block_nibbles_hit [OF block_parity_bounds [OF c] pad cw]
  have clean: "\<not> (\<exists>x\<in>set ?cw. codeword_corrected ?p x)" if "?here = encode_block c ?hdr ns"
    using nibs(2) deinterleave_encode_block [OF c ns(2)] that by metis
  have "decode_blocks c' h recv offset acc k =
      decode_blocks c' h recv (offset + (4 + ?p)) (acc @ padded ?w ns)
        (k \<or> (\<exists>x\<in>set ?cw. codeword_corrected ?p x))"
    using more
    by (subst decode_blocks.simps)
      (simp only: if_True Let_def p [symmetric] eq inb w nibs(1) simp_thms if_False)
  then show ?thesis using clean by blast
qed

text \<open>
  Received bins of a frame: in range, and at most one wrong symbol in each block, none
  after the header block unless the coding rate corrects single bits. Block 0 is the
  header block of eight symbols; the others have \<open>pc_cr c\<close> symbols.
\<close>

definition symbol_block :: "phy_config \<Rightarrow> nat \<Rightarrow> nat" where
  "symbol_block c i = (if i < 8 then 0 else Suc ((i - 8) div pc_cr c))"

definition damaged :: "phy_config \<Rightarrow> u16 list \<Rightarrow> u16 list \<Rightarrow> bool" where
  "damaged c sent recv \<longleftrightarrow> length recv = length sent \<and> (\<forall>b\<in>set recv. unat b < 2 ^ pc_sf c) \<and>
     (\<forall>i<length sent. \<forall>j<length sent. recv ! i \<noteq> sent ! i \<and> recv ! j \<noteq> sent ! j \<and>
        symbol_block c i = symbol_block c j \<longrightarrow> i = j) \<and>
     (\<forall>i<length sent. recv ! i \<noteq> sent ! i \<and> 8 \<le> i \<longrightarrow> 7 \<le> pc_cr c)"

lemma list_one_difference:
  assumes "length ys = length xs" and "\<forall>i<length xs. \<forall>j<length xs. ys ! i \<noteq> xs ! i \<and> ys ! j \<noteq> xs ! j \<longrightarrow> i = j"
  shows "ys = xs \<or> (\<exists>i<length xs. ys ! i \<noteq> xs ! i \<and> ys = xs[i := ys ! i])"
proof (cases "ys = xs")
  case False
  then obtain i where i: "i < length xs" "ys ! i \<noteq> xs ! i"
    using assms(1) by (metis nth_equalityI)
  have "ys = xs[i := ys ! i]"
    using i assms by (intro nth_equalityI) (auto simp: nth_list_update)
  then show ?thesis using i by blast
qed simp

lemma block_hit_of_damaged:
  assumes d: "damaged c sent recv" and c: "valid_profile c"
    and len: "offset + n \<le> length sent"
    and blk: "\<And>i. offset \<le> i \<Longrightarrow> i < offset + n \<Longrightarrow> symbol_block c i = m"
    and hdr: "hdr \<longleftrightarrow> offset = 0" and off: "offset = 0 \<or> 8 \<le> offset"
  shows "block_hit c hdr (take n (drop offset sent)) (take n (drop offset recv))"
proof -
  let ?s = "take n (drop offset sent)" and ?r = "take n (drop offset recv)"
  have lens: "length ?s = n" "length ?r = n" using len d by (auto simp: damaged_def)
  have nths: "?s ! i = sent ! (offset + i)" "?r ! i = recv ! (offset + i)" if "i < n" for i
    using that len d by (auto simp: damaged_def)
  have "set ?r \<subseteq> set recv" by (auto dest: in_set_takeD in_set_dropD)
  then have range: "\<forall>b\<in>set ?r. unat b < 2 ^ pc_sf c" using d by (auto simp: damaged_def)
  have "i = j" if "i < n" "j < n" "?r ! i \<noteq> ?s ! i" "?r ! j \<noteq> ?s ! j" for i j
  proof -
    have uniq: "i = j" if "i < length sent" "j < length sent" "recv ! i \<noteq> sent ! i" "recv ! j \<noteq> sent ! j"
        "symbol_block c i = symbol_block c j" for i j
      using d that unfolding damaged_def by blast
    have "offset + i = offset + j"
    proof (rule uniq)
      show "recv ! (offset + i) \<noteq> sent ! (offset + i)" using that(1,3) nths(1,2) [OF that(1)] by metis
      show "recv ! (offset + j) \<noteq> sent ! (offset + j)" using that(2,4) nths(1,2) [OF that(2)] by metis
      show "symbol_block c (offset + i) = symbol_block c (offset + j)"
        using that(1,2) blk [of "offset + i"] blk [of "offset + j"] by simp
    qed (use that(1,2) len in simp_all)
    then show ?thesis by simp
  qed
  then have "?r = ?s \<or> (\<exists>i<n. ?r ! i \<noteq> ?s ! i \<and> ?r = ?s[i := ?r ! i])"
    using list_one_difference [of ?r ?s] lens by metis
  moreover have "3 \<le> block_parity c hdr" if "i < n" "?r ! i \<noteq> ?s ! i" for i
  proof (cases hdr)
    case False
    then have "8 \<le> offset + i" "offset + i < length sent" using hdr off that len by auto
    then have "7 \<le> pc_cr c" using d that by (simp add: damaged_def nths)
    then show ?thesis using False by (simp add: block_parity_def)
  qed (simp add: block_parity_def)
  ultimately show ?thesis using range lens unfolding block_hit_def by metis
qed

lemma symbol_block_payload:
  assumes "0 < pc_cr c" "offset = 8 + m * pc_cr c" "offset \<le> i" "i < offset + pc_cr c"
  shows "symbol_block c i = Suc m"
proof -
  have "(i - 8) div pc_cr c = m"
    using assms by (intro div_nat_eqI) (auto simp: mult.commute)
  then show ?thesis using assms by (simp add: symbol_block_def)
qed

text \<open>The blocks after the header, by induction on the nibbles they carry.\<close>

lemma decode_blocks_rest:
  assumes c: "valid_profile c" and same: "pc_sf c' = pc_sf c" "pc_bandwidth c' = pc_bandwidth c"
    and p: "hdr_parity h = pc_cr c - 4" and d: "damaged c sent recv"
    and ns: "nibbles_ok ns" and pos: "offset = 8 + m * pc_cr c"
    and bins: "drop offset sent = encode_blocks c False ns"
    and size: "hdr_symbols h = offset + length (encode_blocks c False ns)"
  shows "\<exists>z k'. decode_blocks c' h recv offset acc k = Some (acc @ ns @ replicate z 0, k') \<and>
    (recv = sent \<longrightarrow> k' = k)"
  using ns pos bins size
proof (induction "length ns" arbitrary: ns offset acc k m rule: less_induct)
  case less
  let ?w = "block_width c False" and ?p = "block_parity c False"
  show ?case
  proof (cases "ns = []")
    case True
    then show ?thesis using less.prems by (auto simp: decode_blocks.simps)
  next
    case False
    have w: "0 < ?w" by (rule block_width_bounds(3) [OF c])
    have cr: "4 + ?p = pc_cr c" "0 < pc_cr c" using c by (auto simp: block_parity_def valid_profile_def)
    note step = encode_blocks_step [OF c False, of False]
    have pos: "(offset = 0) = False" using less.prems(2) by simp
    have p': "block_parity c (offset = 0) = (if offset = 0 then 4 else hdr_parity h)"
      using p pos by (simp add: block_parity_def)
    have here: "take (4 + ?p) (drop offset sent) = encode_block c False (take ?w ns)"
      using less.prems(3) step by simp
    have len: "offset + (4 + ?p) \<le> length sent"
      using arg_cong [OF less.prems(3), of length] step by simp
    have hit: "block_hit c False (encode_block c False (take ?w ns)) (take (4 + ?p) (drop offset recv))"
      unfolding here [symmetric]
      using symbol_block_payload [OF cr(2) less.prems(2)] less.prems(2) cr(1)
      by (intro block_hit_of_damaged [OF d c len, of "Suc m"]) auto
    have more: "offset < hdr_symbols h" using less.prems(4) step by simp
    define offset' where "offset' = offset + (4 + ?p)"
    obtain k1 where nxt: "decode_blocks c' h recv offset acc k =
        decode_blocks c' h recv offset' (acc @ padded ?w (take ?w ns)) k1"
      and k1': "take (4 + ?p) (drop offset recv) = encode_block c False (take ?w ns) \<longrightarrow> k1 = k"
      using decode_blocks_step [OF c same p', of "take ?w ns" recv acc k, unfolded pos]
        nibbles_ok_sub(1) [OF less.prems(1)] hit more by (auto simp: offset'_def)
    have k1: "recv = sent \<longrightarrow> k1 = k" using here k1' by simp
    have "drop offset' sent = drop (4 + ?p) (drop offset sent)"
      by (simp add: offset'_def add.commute)
    then have bins': "drop offset' sent = encode_blocks c False (drop ?w ns)"
      using less.prems(3) step by simp
    have size': "hdr_symbols h = offset' + length (encode_blocks c False (drop ?w ns))"
      using less.prems(4) step by (simp add: offset'_def)
    have shorter: "length (drop ?w ns) < length ns" using w False by simp
    have pos': "offset' = 8 + Suc m * pc_cr c" using less.prems(2) cr(1) by (simp add: offset'_def)
    obtain z k2 where "decode_blocks c' h recv offset' (acc @ padded ?w (take ?w ns)) k1 =
        Some ((acc @ padded ?w (take ?w ns)) @ drop ?w ns @ replicate z 0, k2)"
      and k2: "recv = sent \<longrightarrow> k2 = k1"
      using less.hyps [OF shorter nibbles_ok_sub(2) [OF less.prems(1)] pos' bins' size',
          of "acc @ padded ?w (take ?w ns)" k1] by blast
    then have "decode_blocks c' h recv offset acc k =
        Some ((acc @ padded ?w (take ?w ns)) @ drop ?w ns @ replicate z 0, k2)"
      by (simp add: nxt)
    moreover have "\<exists>z'. padded ?w (take ?w ns) @ drop ?w ns @ replicate z 0 = ns @ replicate z' 0"
    proof (cases "?w \<le> length ns")
      case True
      then have "padded ?w (take ?w ns) @ drop ?w ns @ replicate z 0 = ns @ replicate z 0"
        by (simp add: padded_def append_assoc [symmetric] del: append_assoc)
      then show ?thesis by blast
    next
      case False
      then show ?thesis by (auto simp: padded_def replicate_add [symmetric])
    qed
    ultimately show ?thesis using k1 k2 by auto
  qed
qed

lemma length_encode_blocks_rest:
  assumes c: "valid_profile c"
  shows "length (encode_blocks c False ns) =
    (length ns + block_width c False - 1) div block_width c False * (4 + block_parity c False)"
proof (induction "length ns" arbitrary: ns rule: less_induct)
  case less
  let ?w = "block_width c False"
  have w: "0 < ?w" by (rule block_width_bounds(3) [OF c])
  show ?case
  proof (cases "ns = []")
    case True
    then show ?thesis using w by simp
  next
    case False
    have "length (encode_blocks c False (drop ?w ns)) =
        (length ns - ?w + ?w - 1) div ?w * (4 + block_parity c False)"
      using less [of "drop ?w ns"] w False by simp
    moreover have "(length ns + ?w - 1) div ?w = Suc ((length ns - ?w + ?w - 1) div ?w)"
    proof (cases "?w \<le> length ns")
      case True
      have "length ns + ?w - 1 = ?w + (length ns - 1)" using w True by arith
      then have "(length ns + ?w - 1) div ?w = (?w + (length ns - 1)) div ?w" by (rule arg_cong)
      also have "\<dots> = Suc ((length ns - 1) div ?w)"
        using w div_add_self1 [of ?w "length ns - 1"] by simp
      finally have "(length ns + ?w - 1) div ?w = Suc ((length ns - 1) div ?w)" .
      then show ?thesis using w True by simp
    next
      case False
      have "length ns + ?w - 1 = ?w + (length ns - 1)"
        using \<open>ns \<noteq> []\<close> by (cases ns) auto
      then have "(length ns + ?w - 1) div ?w = (?w + (length ns - 1)) div ?w" by (rule arg_cong)
      also have "\<dots> = Suc ((length ns - 1) div ?w)"
        using w div_add_self1 [of ?w "length ns - 1"] by simp
      finally show ?thesis using False w by simp
    qed
    ultimately show ?thesis
      using encode_blocks_step [OF c False, of False] by simp
  qed
qed

section \<open>Header and byte fields\<close>

lemma unat_and_15: "unat (b AND 15 :: u8) = unat b mod 16"
proof -
  have "unat (b AND 15) = unat b AND 15" by (simp add: unsigned_and_eq)
  also have "\<dots> = take_bit 4 (unat b)" by (simp add: take_bit_eq_mask mask_eq_exp_minus_1)
  finally show ?thesis by (simp add: take_bit_eq_mod)
qed

lemma unat_drop_4: "unat (drop_bit 4 b :: u8) = unat b div 16"
proof -
  have "unat (drop_bit 4 b) = drop_bit 4 (unat b)"
    by (rule bit_eqI) (simp add: bit_unat bit_drop_bit_eq)
  then show ?thesis by (simp add: drop_bit_eq_div)
qed

lemma unat_drop_4_less: "unat (drop_bit 4 b :: u8) < 16"
proof -
  have "unat b < 2 ^ 8" by (rule order.strict_trans2 [OF unsigned_less]) simp
  then show ?thesis unfolding unat_drop_4 by (simp add: div_less_iff_less_mult)
qed

lemma nibble_recombine: "unat (drop_bit 4 b :: u8) * 16 + unat (b AND 15) = unat b"
  by (simp add: unat_and_15 unat_drop_4)

lemma byte_recombine: "(b AND 15) OR push_bit 4 (drop_bit 4 b) = (b :: u8)"
proof (rule bit_word_eqI)
  fix k :: nat assume "k < LENGTH(8)"
  have b: "b AND 15 = take_bit 4 b" by (simp add: take_bit_eq_mask mask_eq_exp_minus_1)
  have k4: "4 \<le> k \<Longrightarrow> 4 + (k - 4) = k" by simp
  show "bit ((b AND 15) OR push_bit 4 (drop_bit 4 b)) k = bit b k"
    using \<open>k < LENGTH(8)\<close> k4 unfolding b bit_or_iff bit_push_bit_iff bit_drop_bit_eq bit_take_bit_iff
    by (cases "4 \<le> k") simp_all
qed

lemma header_flags_fields:
  assumes "valid_profile c"
  shows "unat (drop_bit 1 (header_flags c)) = pc_cr c - 4" "header_flags c AND 1 \<noteq> 0"
    "unat (header_flags c) < 16"
proof -
  consider "pc_cr c = 5" | "pc_cr c = 6" | "pc_cr c = 7" | "pc_cr c = 8"
    using assms by (auto simp: valid_profile_def le_Suc_eq numeral_eq_Suc)
  then have "unat (drop_bit 1 (header_flags c)) = pc_cr c - 4 \<and> header_flags c AND 1 \<noteq> 0 \<and>
      unat (header_flags c) < 16"
    by cases (simp_all add: header_flags_def)
  then show "unat (drop_bit 1 (header_flags c)) = pc_cr c - 4" "header_flags c AND 1 \<noteq> 0"
    "unat (header_flags c) < 16" by simp_all
qed

lemma header_checksum_nibbles: "nibbles_ok [drop_bit 4 (b::u8), b AND 15]"
  by (simp add: unat_and_15 unat_drop_4_less)

lemma header_bytes_ok:
  assumes "valid_profile c"
  shows "nibbles_ok (header_bytes len (header_flags c))" "length (header_bytes len (header_flags c)) = 5"
  using header_flags_fields(3) [OF assms]
  by (simp_all add: header_bytes_def Let_def unat_and_15 unat_drop_4_less)

lemma parse_header_bytes:
  assumes c: "valid_profile c" and len: "0 < len" "len \<le> 255"
  shows "parse_header sf bw k (header_bytes len (header_flags c)) =
    \<lparr>hdr_length = len, hdr_parity = pc_cr c - 4,
     hdr_symbols = header_symbols sf bw len True (pc_cr c - 4),
     hdr_crc = True, hdr_valid = True, hdr_corrected = k\<rparr>"
proof -
  have "unat (word_of_nat len :: u8) = len" using len by (simp add: unat_of_nat)
  then show ?thesis
    using header_flags_fields [OF c] c len
    by (auto simp: parse_header_def header_bytes_def Let_def nibble_recombine no_header_def
        valid_profile_def)
qed

lemma nibbles_ok_split: "nibbles_ok (split_nibbles bs)"
  by (induction bs) (simp_all add: split_nibbles_def unat_and_15 unat_drop_4_less)

lemma length_split_nibbles [simp]: "length (split_nibbles bs) = 2 * length bs"
  by (induction bs) (simp_all add: split_nibbles_def)

lemma split_nibbles_nth:
  "i < length bs \<Longrightarrow> split_nibbles bs ! (2 * i) = bs ! i AND 15 \<and>
    split_nibbles bs ! (2 * i + 1) = drop_bit 4 (bs ! i)"
proof (induction bs arbitrary: i)
  case (Cons b bs)
  then show ?case by (cases i) (auto simp: split_nibbles_def)
qed simp

lemma nibble_pair_split:
  assumes "length hs = 5"
  shows "map (nibble_pair (hs @ split_nibbles bs @ zs)) [0..<length bs] = bs"
proof (rule nth_equalityI)
  fix i assume "i < length (map (nibble_pair (hs @ split_nibbles bs @ zs)) [0..<length bs])"
  then have i: "i < length bs" by simp
  have "nibble_pair (hs @ split_nibbles bs @ zs) i =
      split_nibbles bs ! (2 * i) OR push_bit 4 (split_nibbles bs ! (2 * i + 1))"
    using i assms by (simp add: nibble_pair_def nth_append)
  then show "map (nibble_pair (hs @ split_nibbles bs @ zs)) [0..<length bs] ! i = bs ! i"
    using i by (simp add: split_nibbles_nth [OF i, simplified] byte_recombine)
qed simp

lemma crc_bytes_recombine:
  "(ucast (ucast (w :: u16) :: u8) OR push_bit 8 (ucast (ucast (drop_bit 8 w) :: u8)) :: u16) = w"
  by (rule bit_word_eqI)
    (auto simp: bit_or_iff bit_push_bit_iff bit_drop_bit_eq bit_unsigned_iff)

lemma header_nibbles_hit:
  assumes "list_all2 (codeword_hit 4) ns cws" "nibbles_ok ns"
  shows "\<exists>k'. header_nibbles cws k = (k', Some ns) \<and> (cws = map (\<lambda>n. encode_nibble n 4) ns \<longrightarrow> k' = k)"
  using assms
proof (induction arbitrary: k rule: list_all2_induct)
  case (Cons n ns cw cws)
  then obtain k' where "header_nibbles cws (k \<or> cw \<noteq> encode_nibble n 4) = (k', Some ns)"
    "cws = map (\<lambda>n. encode_nibble n 4) ns \<longrightarrow> k' = (k \<or> cw \<noteq> encode_nibble n 4)"
    by fastforce
  then show ?case using decode_hit_nibble [of 4 n cw] Cons by (auto simp: Let_def)
qed simp

section \<open>Decoding what was encoded\<close>

definition frame_nibbles :: "u8 list \<Rightarrow> phy_config \<Rightarrow> u8 list" where
  "frame_nibbles payload c =
     header_bytes (length payload) (header_flags c) @
       split_nibbles (whiten payload @ crc_bytes (payload_crc payload))"

definition encodable :: "phy_config \<Rightarrow> u8 list \<Rightarrow> bool" where
  "encodable c payload \<longleftrightarrow> valid_profile c \<and> 2 \<le> length payload \<and> length payload \<le> 255"

lemma encode_lora_symbols_eq:
  assumes "encodable c payload"
  shows "encode_lora_symbols payload c = Inr (encode_blocks c True (frame_nibbles payload c))"
  using assms by (simp add: encode_lora_symbols_def frame_nibbles_def encodable_def
      validate_phy_Inr guard_err_bind)

lemma frame_nibbles_ok:
  assumes "encodable c payload"
  shows "nibbles_ok (frame_nibbles payload c)" "length (frame_nibbles payload c) = 9 + 2 * length payload"
    "frame_nibbles payload c \<noteq> []"
  using assms header_bytes_ok [of c "length payload"] nibbles_ok_split
  by (auto simp: frame_nibbles_def encodable_def crc_bytes_def)

lemma block_width_hdr: "block_width c True = pc_sf c - 2"
  by (simp add: block_width_def block_div_def)

lemma block_width_payload: "block_width c False = payload_width (pc_sf c) (pc_bandwidth c)"
  by (simp add: block_width_def block_div_def payload_width_def)

lemma length_encode_blocks:
  assumes e: "encodable c payload"
  shows "length (encode_blocks c True (frame_nibbles payload c)) =
    header_symbols (pc_sf c) (pc_bandwidth c) (length payload) True (pc_cr c - 4)"
proof -
  have c: "valid_profile c" using e by (simp add: encodable_def)
  have "2 * (length payload + 2) - (pc_sf c - 7) = 9 + 2 * length payload - (pc_sf c - 2)"
    "pc_sf c - 7 < 2 * (length payload + 2)"
    using c e by (auto simp: valid_profile_def encodable_def)
  then show ?thesis
    using encode_blocks_step [OF c frame_nibbles_ok(3) [OF e], of True] frame_nibbles_ok(2) [OF e]
    by (simp add: length_encode_blocks_rest [OF c] block_width_hdr block_width_payload
        header_symbols_def Let_def block_parity_def)
qed

lemma header_block_hit:
  assumes e: "encodable c payload" and d: "damaged c (encode_blocks c True (frame_nibbles payload c)) recv"
  shows "take 8 (encode_blocks c True (frame_nibbles payload c)) =
      encode_block c True (take (pc_sf c - 2) (frame_nibbles payload c))"
    "8 \<le> length (encode_blocks c True (frame_nibbles payload c))"
    "block_hit c True (encode_block c True (take (pc_sf c - 2) (frame_nibbles payload c))) (take 8 recv)"
proof -
  have c: "valid_profile c" using e by (simp add: encodable_def)
  note step = encode_blocks_step [OF c frame_nibbles_ok(3) [OF e], of True]
  show here: "take 8 (encode_blocks c True (frame_nibbles payload c)) =
      encode_block c True (take (pc_sf c - 2) (frame_nibbles payload c))"
    using step by (simp add: block_parity_def block_width_hdr)
  show len: "8 \<le> length (encode_blocks c True (frame_nibbles payload c))"
    using step by (simp add: block_parity_def)
  show "block_hit c True (encode_block c True (take (pc_sf c - 2) (frame_nibbles payload c))) (take 8 recv)"
    unfolding here [symmetric]
    using block_hit_of_damaged [OF d c, of 0 8 0 True] len by (simp add: symbol_block_def)
qed

lemma decode_header_encoded:
  assumes e: "encodable c payload" and d: "damaged c (encode_blocks c True (frame_nibbles payload c)) recv"
  shows "\<exists>k. decode_header recv (pc_sf c) (pc_bandwidth c) =
    \<lparr>hdr_length = length payload, hdr_parity = pc_cr c - 4,
     hdr_symbols = header_symbols (pc_sf c) (pc_bandwidth c) (length payload) True (pc_cr c - 4),
     hdr_crc = True, hdr_valid = True, hdr_corrected = k\<rparr> \<and>
    (recv = encode_blocks c True (frame_nibbles payload c) \<longrightarrow> \<not> k)"
proof -
  have c: "valid_profile c" and len: "0 < length payload" "length payload \<le> 255"
    using e by (auto simp: encodable_def)
  let ?ns = "frame_nibbles payload c"
  let ?w = "pc_sf c - 2" and ?hb = "header_bytes (length payload) (header_flags c)"
  let ?bins = "encode_blocks c True ?ns"
  let ?cw = "\<lambda>bins. deinterleave (map (symbol_of_bin (2 ^ pc_sf c) 4) (take 8 bins)) ?w 4"
  note hb = header_bytes_ok [OF c, of "length payload"]
  note first = header_block_hit [OF e d]
  have chunk: "length (take ?w ?ns) \<le> block_width c True" by (simp add: block_width_hdr)
  have inb: "\<not> (\<exists>b\<in>set (take 8 recv). 2 ^ pc_sf c \<le> unat b)"
    using first(3) by (fastforce simp: block_hit_def)
  have five: "take 5 (padded ?w (take ?w ?ns)) = ?hb"
    using c hb(2) by (auto simp: padded_def frame_nibbles_def valid_profile_def)
  have "list_all2 (codeword_hit 4) (padded ?w (take ?w ?ns)) (?cw recv)"
    using codewords_of_hit_block [OF c chunk first(3)]
    by (simp add: block_width_hdr block_parity_def block_div_def)
  then have "list_all2 (codeword_hit 4) (take 5 (padded ?w (take ?w ?ns))) (take 5 (?cw recv))"
    by (rule list_all2_takeI)
  moreover have "take 5 (?cw ?bins) = map (\<lambda>n. encode_nibble n 4) ?hb"
    using deinterleave_encode_block [OF c chunk] five
    by (simp add: first block_div_def block_parity_def block_width_hdr take_map)
  ultimately obtain k where k: "header_nibbles (take 5 (?cw recv)) False = (k, Some ?hb)"
    "recv = ?bins \<longrightarrow> \<not> k"
    using header_nibbles_hit [of ?hb "take 5 (?cw recv)" False] hb(1) unfolding five by metis
  have "8 \<le> length recv" using d first(2) by (simp add: damaged_def)
  then show ?thesis
    using c inb k parse_header_bytes [OF c len, of "pc_sf c" "pc_bandwidth c" k]
    by (auto simp: decode_header_def valid_profile_def supported_lora_bandwidth_def Let_def)
qed

lemma frame_of_encoded:
  assumes "2 \<le> length payload" and h: "hdr_length h = length payload" "hdr_crc h"
  shows "frame_of h k (whiten payload @ crc_bytes (payload_crc payload)) =
    \<lparr>pf_bytes = payload, pf_header_valid = True, pf_crc_valid = True, pf_crc_present = True,
     pf_fec_corrected = k, pf_coding_rate = 4 + hdr_parity h,
     pf_first_sample = 0, pf_last_sample = 0\<rparr>"
  using assms by (simp add: frame_of_def Let_def whiten_involution crc_bytes_def nth_append
      crc_bytes_recombine)

definition sent_frame :: "phy_config \<Rightarrow> u8 list \<Rightarrow> phy_frame" where
  "sent_frame c payload =
    \<lparr>pf_bytes = payload, pf_header_valid = True, pf_crc_valid = True, pf_crc_present = True,
     pf_fec_corrected = False, pf_coding_rate = pc_cr c, pf_first_sample = 0, pf_last_sample = 0\<rparr>"

lemma decode_blocks_encoded:
  assumes e: "encodable c payload" and same: "pc_sf c' = pc_sf c" "pc_bandwidth c' = pc_bandwidth c"
    and d: "damaged c (encode_blocks c True (frame_nibbles payload c)) recv"
    and h: "hdr_parity h = pc_cr c - 4" "hdr_symbols h = length (encode_blocks c True (frame_nibbles payload c))"
  shows "\<exists>z k'. decode_blocks c' h recv 0 [] k = Some (frame_nibbles payload c @ replicate z 0, k') \<and>
    (recv = encode_blocks c True (frame_nibbles payload c) \<longrightarrow> k' = k)"
proof -
  have c: "valid_profile c" using e by (simp add: encodable_def)
  let ?ns = "frame_nibbles payload c" and ?w = "pc_sf c - 2"
  let ?bins = "encode_blocks c True ?ns"
  note ok = frame_nibbles_ok [OF e] and first = header_block_hit [OF e d]
  have long: "?w \<le> length ?ns"
    using ok(2) c e by (auto simp: valid_profile_def encodable_def)
  note step = encode_blocks_step [OF c ok(3), of True, unfolded block_width_hdr]
  have "\<exists>k1. decode_blocks c' h recv 0 [] k = decode_blocks c' h recv 8 (padded ?w (take ?w ?ns)) k1 \<and>
      (recv = ?bins \<longrightarrow> k1 = k)"
  proof -
    have "encode_blocks c True ?ns \<noteq> []" using first(2) by auto
    then obtain k1 where "decode_blocks c' h recv 0 [] k = decode_blocks c' h recv 8 (padded ?w (take ?w ?ns)) k1"
        "take 8 recv = encode_block c True (take ?w ?ns) \<longrightarrow> k1 = k"
      using decode_blocks_step [OF c same, of 0 h "take ?w ?ns" recv "[]" k] ok first h
      by (auto simp: block_parity_def nibbles_ok_sub block_width_hdr)
    then show ?thesis using first(1) by auto
  qed
  then obtain k1 where k1: "decode_blocks c' h recv 0 [] k = decode_blocks c' h recv 8 (padded ?w (take ?w ?ns)) k1"
      "recv = ?bins \<longrightarrow> k1 = k" by blast
  have "\<exists>z k2. decode_blocks c' h recv 8 (take ?w ?ns) k1 =
      Some (take ?w ?ns @ drop ?w ?ns @ replicate z 0, k2) \<and> (recv = ?bins \<longrightarrow> k2 = k1)"
    using ok step h
    by (intro decode_blocks_rest [OF c same h(1) d, of _ 8 0]) (simp_all add: nibbles_ok_sub block_parity_def)
  then show ?thesis
    using long k1 by (simp add: padded_def append_assoc [symmetric] del: append_assoc)
qed

lemma decode_damaged_frame:
  assumes e: "encodable c payload" and c': "valid_profile c'"
    and same: "pc_sf c' = pc_sf c" "pc_bandwidth c' = pc_bandwidth c"
    and d: "damaged c (encode_blocks c True (frame_nibbles payload c)) recv"
  shows "\<exists>k. decode_lora_symbols recv c' = Inr (Some ((sent_frame c payload)\<lparr>pf_fec_corrected := k\<rparr>)) \<and>
    (recv = encode_blocks c True (frame_nibbles payload c) \<longrightarrow> \<not> k)"
proof -
  let ?ns = "frame_nibbles payload c"
  let ?bins = "encode_blocks c True ?ns"
  let ?raw = "whiten payload @ crc_bytes (payload_crc payload)"
  let ?h = "\<lambda>k. \<lparr>hdr_length = length payload, hdr_parity = pc_cr c - 4,
     hdr_symbols = header_symbols (pc_sf c) (pc_bandwidth c) (length payload) True (pc_cr c - 4),
     hdr_crc = True, hdr_valid = True, hdr_corrected = k\<rparr>"
  note ok = frame_nibbles_ok [OF e]
  obtain k0 where h: "decode_header recv (pc_sf c) (pc_bandwidth c) = ?h k0" "recv = ?bins \<longrightarrow> \<not> k0"
    using decode_header_encoded [OF e d] by blast
  obtain z k where z: "decode_blocks c' (?h k0) recv 0 [] k0 = Some (?ns @ replicate z 0, k)"
      "recv = ?bins \<longrightarrow> k = k0"
    using decode_blocks_encoded [OF e same d, of "?h k0" k0] length_encode_blocks [OF e] by auto
  have raw: "map (nibble_pair (?ns @ replicate z 0)) [0..<length payload + 2] = ?raw"
    using nibble_pair_split [of "header_bytes (length payload) (header_flags c)" ?raw "replicate z 0"] e
      header_bytes_ok(2) [of c "length payload"]
    by (simp add: frame_nibbles_def encodable_def crc_bytes_def)
  have "frame_of (?h k0) k ?raw = (sent_frame c payload)\<lparr>pf_fec_corrected := k\<rparr>"
    using frame_of_encoded [of payload "?h k0" k] e
    by (simp add: sent_frame_def encodable_def valid_profile_def)
  moreover have "length recv = hdr_symbols (?h k0)" using d length_encode_blocks [OF e] by (simp add: damaged_def)
  ultimately show ?thesis
    using ok(2) z raw h
    by (intro exI [of _ k]) (simp add: decode_lora_symbols_def validate_phy_Inr [OF c'] same Let_def)
qed

lemma bins_in_range:
  assumes c: "valid_profile c"
  shows "b \<in> set (encode_blocks c hdr ns) \<Longrightarrow> unat b < 2 ^ pc_sf c"
proof (induction "length ns" arbitrary: ns hdr rule: less_induct)
  case less
  show ?case
  proof (cases "ns = []")
    case False
    then have "length (drop (block_width c hdr) ns) < length ns"
      using block_width_bounds(3) [OF c, of hdr] by simp
    note IH = less.hyps [OF this, of False]
    have "b \<in> set (encode_block c hdr (take (block_width c hdr) ns)) \<or>
        b \<in> set (encode_blocks c False (drop (block_width c hdr) ns))"
      using less.prems encode_blocks_step [OF c False, of hdr] by auto
    then show ?thesis using IH encode_block_less [OF c] by blast
  qed (use less in simp)
qed

lemma damaged_refl: "valid_profile c \<Longrightarrow> damaged c (encode_blocks c hdr ns) (encode_blocks c hdr ns)"
  by (simp add: damaged_def bins_in_range)


section \<open>When the decoder returns a frame\<close>

lemma decode_header_valid:
  assumes "hdr_valid (decode_header bins sf bw)"
  shows "7 \<le> sf \<and> sf \<le> 12 \<and> 8 \<le> length bins \<and>
    0 < hdr_length (decode_header bins sf bw) \<and>
    1 \<le> hdr_parity (decode_header bins sf bw) \<and> hdr_parity (decode_header bins sf bw) \<le> 4 \<and>
    hdr_symbols (decode_header bins sf bw) = header_symbols sf bw (hdr_length (decode_header bins sf bw))
      (hdr_crc (decode_header bins sf bw)) (hdr_parity (decode_header bins sf bw)) \<and>
    (\<forall>b\<in>set (take 8 bins). unat b < 2 ^ sf)"
  using assms
  by (auto simp: decode_header_def no_header_def parse_header_def Let_def not_le
      split: if_splits prod.splits option.splits)

definition payload_blocks :: "phy_config \<Rightarrow> header \<Rightarrow> nat" where
  "payload_blocks c h = (hdr_symbols h - 8) div (4 + hdr_parity h)"

lemma header_symbols_blocks:
  assumes "hdr_valid (decode_header bins (pc_sf c) (pc_bandwidth c))"
  shows "hdr_symbols (decode_header bins (pc_sf c) (pc_bandwidth c)) =
    8 + payload_blocks c (decode_header bins (pc_sf c) (pc_bandwidth c)) *
      (4 + hdr_parity (decode_header bins (pc_sf c) (pc_bandwidth c)))"
  using decode_header_valid [OF assms] by (simp add: payload_blocks_def header_symbols_def Let_def)

text \<open>The capacity of the blocks always covers the announced nibbles.\<close>

lemma ceil_div_mult: "0 < w \<Longrightarrow> n \<le> (n + w - 1) div w * (w :: nat)"
proof -
  assume w: "0 < w"
  have "(n + w - 1) mod w < w" using w by simp
  moreover have "(n + w - 1) div w * w + (n + w - 1) mod w = n + w - 1" by simp
  ultimately show "n \<le> (n + w - 1) div w * w" using w by linarith
qed

lemma block_capacity:
  assumes c: "valid_profile c" and h: "hdr_valid h" "1 \<le> hdr_parity h"
    and sym: "hdr_symbols h = header_symbols (pc_sf c) (pc_bandwidth c) (hdr_length h) (hdr_crc h) (hdr_parity h)"
  shows "5 + 2 * (hdr_length h + (if hdr_crc h then 2 else 0)) \<le>
    block_width c True + payload_blocks c h * block_width c False"
proof -
  let ?pw = "payload_width (pc_sf c) (pc_bandwidth c)"
  let ?need = "2 * (hdr_length h + (if hdr_crc h then 2 else 0))"
  have pw: "0 < ?pw" using block_width_bounds(3) [OF c, of False] by (simp add: block_width_payload)
  have "hdr_symbols h = 8 + ((?need - (pc_sf c - 7)) + ?pw - 1) div ?pw * (4 + hdr_parity h)"
    by (simp add: sym header_symbols_def Let_def)
  then have "payload_blocks c h = ((?need - (pc_sf c - 7)) + ?pw - 1) div ?pw"
    by (simp add: payload_blocks_def)
  then have "?need - (pc_sf c - 7) \<le> payload_blocks c h * ?pw"
    using ceil_div_mult [OF pw, of "?need - (pc_sf c - 7)"] by metis
  moreover have "5 + (pc_sf c - 7) = pc_sf c - 2" using c by (auto simp: valid_profile_def)
  ultimately show ?thesis unfolding block_width_payload block_width_hdr by linarith
qed

lemma decode_blocks_payload:
  assumes c: "valid_profile c" and p: "1 \<le> hdr_parity h" "hdr_parity h \<le> 4"
    and sym: "hdr_symbols h = 8 + n * (4 + hdr_parity h)" and len: "hdr_symbols h \<le> length bins"
    and off: "offset = 8 + m * (4 + hdr_parity h)" and m: "m \<le> n"
  shows "if \<exists>b\<in>set (take (hdr_symbols h - offset) (drop offset bins)). 2 ^ pc_sf c \<le> unat b
    then decode_blocks c h bins offset acc k = None
    else \<exists>ns k'. decode_blocks c h bins offset acc k = Some (acc @ ns, k') \<and>
      length ns = (n - m) * block_width c False"
  using off m
proof (induction "n - m" arbitrary: m offset acc k)
  case 0
  then show ?case using sym by (simp add: decode_blocks.simps)
next
  case (Suc d)
  let ?q = "4 + hdr_parity h" and ?w = "block_width c False"
  have m: "m < n" using Suc.hyps(2) by simp
  then have "Suc m * ?q \<le> n * ?q" by (intro mult_le_mono1) simp
  then have fit: "offset + ?q \<le> hdr_symbols h" using sym Suc.prems by simp
  then have more: "offset < hdr_symbols h" using p by linarith
  have pos: "(offset = 0) = False" using Suc.prems by simp
  let ?block = "take ?q (drop offset bins)"
  have split: "take (hdr_symbols h - offset) (drop offset bins) =
      ?block @ take (hdr_symbols h - (offset + ?q)) (drop (offset + ?q) bins)"
  proof -
    have n: "hdr_symbols h - offset = ?q + (hdr_symbols h - (offset + ?q))" using fit by simp
    have "drop ?q (drop offset bins) = drop (offset + ?q) bins" by (simp add: add.commute)
    then show ?thesis by (simp only: n take_add)
  qed
  show ?case
  proof (cases "\<exists>b\<in>set ?block. 2 ^ pc_sf c \<le> unat b")
    case True
    then have "decode_blocks c h bins offset acc k = None"
      using more by (subst decode_blocks.simps) (simp add: pos Let_def)
    then show ?thesis using True unfolding split by (simp add: bex_Un)
  next
    case False
    define cw where "cw = take ?w (deinterleave (map (symbol_of_bin (2 ^ pc_sf c) (block_div c False)) ?block)
      ?w (hdr_parity h))"
    have "length ?block = ?q" using len fit by simp
    then have lcw: "length cw = ?w"
      unfolding cw_def using block_width_bounds [OF c, of False] p by (simp add: length_deinterleave)
    have step: "decode_blocks c h bins offset acc k =
        decode_blocks c h bins (offset + ?q) (acc @ map (codeword_nibble (hdr_parity h)) cw)
          (k \<or> (\<exists>w\<in>set cw. codeword_corrected (hdr_parity h) w))"
      using more False by (subst decode_blocks.simps) (simp add: pos Let_def cw_def)
    have IH: "if \<exists>b\<in>set (take (hdr_symbols h - (offset + ?q)) (drop (offset + ?q) bins)). 2 ^ pc_sf c \<le> unat b
      then decode_blocks c h bins offset acc k = None
      else \<exists>ns k'. decode_blocks c h bins offset acc k =
          Some ((acc @ map (codeword_nibble (hdr_parity h)) cw) @ ns, k') \<and> length ns = (n - Suc m) * ?w"
      unfolding step using m Suc.hyps(2) Suc.prems by (intro Suc.hyps(1)) simp_all
    show ?thesis
    proof (cases "\<exists>b\<in>set (take (hdr_symbols h - (offset + ?q)) (drop (offset + ?q) bins)). 2 ^ pc_sf c \<le> unat b")
      case True
      then show ?thesis using IH unfolding split by (simp add: bex_Un)
    next
      case none: False
      then obtain ns k' where "decode_blocks c h bins offset acc k =
          Some (acc @ (map (codeword_nibble (hdr_parity h)) cw @ ns), k')" "length ns = (n - Suc m) * ?w"
        using IH by auto
      moreover have "length (map (codeword_nibble (hdr_parity h)) cw @ ns) = (n - m) * ?w"
        using calculation(2) lcw m by (simp add: Suc_diff_Suc [symmetric])
      ultimately show ?thesis using False none unfolding split by (simp add: bex_Un)
    qed
  qed
qed


text \<open>The whole loop, from the header block on.\<close>

lemma decode_blocks_all:
  assumes c: "valid_profile c" and p: "1 \<le> hdr_parity h" "hdr_parity h \<le> 4"
    and sym: "hdr_symbols h = 8 + n * (4 + hdr_parity h)" and len: "hdr_symbols h \<le> length bins"
  shows "if \<exists>b\<in>set (take (hdr_symbols h) bins). 2 ^ pc_sf c \<le> unat b
    then decode_blocks c h bins 0 [] k = None
    else \<exists>ns k'. decode_blocks c h bins 0 [] k = Some (ns, k') \<and>
      length ns = block_width c True + n * block_width c False"
proof -
  let ?w = "block_width c True"
  have more: "0 < hdr_symbols h" using sym by simp
  have eight: "8 \<le> length bins" using sym len by simp
  have split: "take (hdr_symbols h) bins = take 8 bins @ take (hdr_symbols h - 8) (drop 8 bins)"
    using take_add [of 8 "hdr_symbols h - 8" bins] sym by simp
  show ?thesis
  proof (cases "\<exists>b\<in>set (take 8 bins). 2 ^ pc_sf c \<le> unat b")
    case True
    then have "decode_blocks c h bins 0 [] k = None"
      using more by (subst decode_blocks.simps) (simp add: Let_def)
    then show ?thesis using True unfolding split by (simp add: bex_Un)
  next
    case False
    define cw where "cw = take ?w (deinterleave (map (symbol_of_bin (2 ^ pc_sf c) (block_div c True)) (take 8 bins)) ?w 4)"
    have lcw: "length cw = ?w"
      unfolding cw_def using block_width_bounds [OF c, of True] eight by (simp add: length_deinterleave)
    have step: "decode_blocks c h bins 0 [] k =
        decode_blocks c h bins 8 (map (codeword_nibble 4) cw) (k \<or> (\<exists>w\<in>set cw. codeword_corrected 4 w))"
      using more False by (subst decode_blocks.simps) (simp add: Let_def cw_def)
    have rest: "if \<exists>b\<in>set (take (hdr_symbols h - 8) (drop 8 bins)). 2 ^ pc_sf c \<le> unat b
      then decode_blocks c h bins 0 [] k = None
      else \<exists>ns k'. decode_blocks c h bins 0 [] k = Some (map (codeword_nibble 4) cw @ ns, k') \<and>
        length ns = n * block_width c False"
      unfolding step using decode_blocks_payload [OF c p sym len, of 8 0 "map (codeword_nibble 4) cw"
        "k \<or> (\<exists>w\<in>set cw. codeword_corrected 4 w)"] by (auto split: if_splits)
    show ?thesis
    proof (cases "\<exists>b\<in>set (take (hdr_symbols h - 8) (drop 8 bins)). 2 ^ pc_sf c \<le> unat b")
      case True
      then show ?thesis using rest unfolding split by (simp add: bex_Un)
    next
      case none: False
      then obtain ns k' where "decode_blocks c h bins 0 [] k = Some (map (codeword_nibble 4) cw @ ns, k')"
          "length ns = n * block_width c False"
        using rest by auto
      then have "\<exists>ns k'. decode_blocks c h bins 0 [] k = Some (ns, k') \<and>
          length ns = ?w + n * block_width c False"
        using lcw by (intro exI [of _ "map (codeword_nibble 4) cw @ ns"] exI [of _ k']) simp
      then show ?thesis using False none unfolding split by (simp add: bex_Un)
    qed
  qed
qed

definition bins_readable :: "u16 list \<Rightarrow> phy_config \<Rightarrow> bool" where
  "bins_readable bins c =
     (let h = decode_header bins (pc_sf c) (pc_bandwidth c) in
      hdr_valid h \<and> hdr_symbols h \<le> length bins \<and>
      list_all (\<lambda>b. unat b < 2 ^ pc_sf c) (take (hdr_symbols h) bins))"

lemma decode_blocks_result:
  assumes c: "valid_profile c" and v: "hdr_valid (decode_header bins (pc_sf c) (pc_bandwidth c))"
    and len: "hdr_symbols (decode_header bins (pc_sf c) (pc_bandwidth c)) \<le> length bins"
  shows "if bins_readable bins c
    then \<exists>ns k'. decode_blocks c (decode_header bins (pc_sf c) (pc_bandwidth c)) bins 0 [] k = Some (ns, k') \<and>
      5 + 2 * (hdr_length (decode_header bins (pc_sf c) (pc_bandwidth c)) +
        (if hdr_crc (decode_header bins (pc_sf c) (pc_bandwidth c)) then 2 else 0)) \<le> length ns
    else decode_blocks c (decode_header bins (pc_sf c) (pc_bandwidth c)) bins 0 [] k = None"
proof -
  let ?h = "decode_header bins (pc_sf c) (pc_bandwidth c)"
  note hv = decode_header_valid [OF v]
  have p: "1 \<le> hdr_parity ?h" "hdr_parity ?h \<le> 4" using hv by auto
  have readable: "bins_readable bins c \<longleftrightarrow> \<not> (\<exists>b\<in>set (take (hdr_symbols ?h) bins). 2 ^ pc_sf c \<le> unat b)"
    using v len by (auto simp: bins_readable_def Let_def list_all_iff not_le)
  have cap: "5 + 2 * (hdr_length ?h + (if hdr_crc ?h then 2 else 0)) \<le>
    block_width c True + payload_blocks c ?h * block_width c False"
    by (rule block_capacity [OF c v p(1)]) (use hv in simp)
  show ?thesis
    using decode_blocks_all [OF c p header_symbols_blocks [OF v] len, of k] cap unfolding readable
    by (auto split: if_splits)
qed

lemma decode_lora_symbols_cases:
  assumes "valid_profile c"
  shows "decode_lora_symbols bins c = Inr None \<and> \<not> bins_readable bins c \<or>
    bins_readable bins c \<and> (\<exists>ns k. decode_lora_symbols bins c =
      (let h = decode_header bins (pc_sf c) (pc_bandwidth c) in
       Inr (Some (frame_of h k (map (nibble_pair ns) [0..<hdr_length h + (if hdr_crc h then 2 else 0)])))))"
proof (cases "hdr_valid (decode_header bins (pc_sf c) (pc_bandwidth c)) \<and>
    hdr_symbols (decode_header bins (pc_sf c) (pc_bandwidth c)) \<le> length bins")
  case True
  then have v: "hdr_valid (decode_header bins (pc_sf c) (pc_bandwidth c))"
    "hdr_symbols (decode_header bins (pc_sf c) (pc_bandwidth c)) \<le> length bins" by auto
  let ?h = "decode_header bins (pc_sf c) (pc_bandwidth c)"
  note r = decode_blocks_result [OF assms v, of "hdr_corrected ?h"]
  show ?thesis
  proof (cases "bins_readable bins c")
    case True
    then obtain ns k where "decode_blocks c ?h bins 0 [] (hdr_corrected ?h) = Some (ns, k)"
      "5 + 2 * (hdr_length ?h + (if hdr_crc ?h then 2 else 0)) \<le> length ns" using r by auto
    then have "decode_lora_symbols bins c =
        Inr (Some (frame_of ?h k (map (nibble_pair ns) [0..<hdr_length ?h + (if hdr_crc ?h then 2 else 0)])))"
      using v by (simp add: decode_lora_symbols_def validate_phy_Inr [OF assms] Let_def)
    then show ?thesis using True unfolding Let_def by blast
  next
    case False
    then show ?thesis using r v by (simp add: decode_lora_symbols_def validate_phy_Inr [OF assms] Let_def)
  qed
next
  case False
  then show ?thesis
    by (auto simp: decode_lora_symbols_def validate_phy_Inr [OF assms] Let_def bins_readable_def)
qed

text \<open>The header nibbles are four bits wide, so a length fits a byte.\<close>

lemma decode_nibble_less: "unat (nib_value (decode_nibble cw p)) < 16"
proof -
  have "unat (snd (snd (fold (nearest_step cw p) ns (b, t, r)))) < 16"
    if "unat r < 16" "\<forall>n\<in>set ns. n < 16" for ns b t and r :: u8
    using that
  proof (induction ns arbitrary: b t r)
    case (Cons n ns)
    have "\<exists>b' t' r'. nearest_step cw p n (b, t, r) = (b', t', r') \<and> unat r' < 16"
      using Cons.prems by (auto simp: nearest_step_def Let_def unat_of_nat)
    then show ?case using Cons by auto
  qed simp
  from this [of 0 "[0..<16]" 9 0] show ?thesis
    by (auto simp: decode_nibble_def split: prod.splits)
qed

lemma header_nibbles_less:
  "header_nibbles cws k = (k', Some ns) \<Longrightarrow> nibbles_ok ns \<and> length ns = length cws"
  by (induction cws arbitrary: k k' ns)
    (auto simp: Let_def decode_nibble_less split: if_splits prod.splits option.splits)

lemma decode_header_length:
  assumes v: "hdr_valid (decode_header bins sf bw)"
  shows "hdr_length (decode_header bins sf bw) \<le> 255"
proof -
  let ?cws = "take 5 (deinterleave (map (symbol_of_bin (2 ^ sf) 4) (take 8 bins)) (sf - 2) 4)"
  obtain k r where r: "header_nibbles ?cws False = (k, r)" by fastforce
  from decode_header_valid [OF v] have g: "7 \<le> sf" "sf \<le> 12" "8 \<le> length bins"
    "\<not> (\<exists>b\<in>set (take 8 bins). 2 ^ sf \<le> unat b)" by auto
  have bw: "bw \<noteq> 0" using v by (cases "bw = 0") (simp_all add: decode_header_def no_header_def)
  have d: "decode_header bins sf bw = (case r of None \<Rightarrow> no_header\<lparr>hdr_corrected := k\<rparr>
      | Some ns \<Rightarrow> parse_header sf bw k ns)"
    using g bw r by (simp add: decode_header_def Let_def)
  obtain ns where ns: "r = Some ns" using v d by (cases r) (simp_all add: no_header_def)
  have "length ?cws = 5" using g by (simp add: length_deinterleave)
  then have h: "decode_header bins sf bw = parse_header sf bw k ns" "nibbles_ok ns" "length ns = 5"
    using d ns r header_nibbles_less by auto
  have "unat (ns ! 0) < 16" "unat (ns ! 1) < 16" using h(2,3) by (auto simp: nibbles_ok_def)
  then show ?thesis by (simp add: h(1) parse_header_def Let_def no_header_def)
qed

lemma frame_of_fields:
  assumes "length raw = hdr_length h + (if hdr_crc h then 2 else 0)"
  shows "length (pf_bytes (frame_of h k raw)) = hdr_length h" "pf_header_valid (frame_of h k raw)"
    "pf_coding_rate (frame_of h k raw) = 4 + hdr_parity h" "pf_crc_present (frame_of h k raw) = hdr_crc h"
    "pf_crc_valid (frame_of h k raw) \<longleftrightarrow> hdr_crc h \<and> 2 \<le> hdr_length h \<and>
      raw ! hdr_length h = ucast (payload_crc (pf_bytes (frame_of h k raw))) \<and>
      raw ! (hdr_length h + 1) = ucast (drop_bit 8 (payload_crc (pf_bytes (frame_of h k raw))))"
proof -
  have split: "(ucast a OR push_bit 8 (ucast b) :: u16) = w \<longleftrightarrow> a = ucast w \<and> b = ucast (drop_bit 8 w)"
    for a b :: u8 and w
  proof
    assume w: "ucast a OR push_bit 8 (ucast b) = w"
    show "a = ucast w \<and> b = ucast (drop_bit 8 w)"
      unfolding w [symmetric]
      by (auto intro!: bit_word_eqI simp: bit_or_iff bit_push_bit_iff bit_drop_bit_eq bit_unsigned_iff bit_word_ge)
  qed (simp add: crc_bytes_recombine)
  show "length (pf_bytes (frame_of h k raw)) = hdr_length h" "pf_header_valid (frame_of h k raw)"
    "pf_coding_rate (frame_of h k raw) = 4 + hdr_parity h" "pf_crc_present (frame_of h k raw) = hdr_crc h"
    using assms by (simp_all add: frame_of_def Let_def)
  show "pf_crc_valid (frame_of h k raw) \<longleftrightarrow> hdr_crc h \<and> 2 \<le> hdr_length h \<and>
      raw ! hdr_length h = ucast (payload_crc (pf_bytes (frame_of h k raw))) \<and>
      raw ! (hdr_length h + 1) = ucast (drop_bit 8 (payload_crc (pf_bytes (frame_of h k raw))))"
    using assms by (auto simp: frame_of_def Let_def nth_append split)
qed

lemma decode_lora_symbols_frame:
  assumes "decode_lora_symbols bins c = Inr (Some f)"
  shows "valid_profile c \<and> pf_header_valid f \<and> 1 \<le> length (pf_bytes f) \<and> length (pf_bytes f) \<le> 255 \<and>
    5 \<le> pf_coding_rate f \<and> pf_coding_rate f \<le> 8 \<and>
    (pf_crc_valid f \<longrightarrow> pf_crc_present f \<and> 2 \<le> length (pf_bytes f))"
proof -
  have c: "valid_profile c"
    using assms by (auto simp: decode_lora_symbols_def result_simps)
  let ?h = "decode_header bins (pc_sf c) (pc_bandwidth c)"
  let ?n = "hdr_length ?h + (if hdr_crc ?h then 2 else 0)"
  from decode_lora_symbols_cases [OF c, of bins] assms obtain ns k
    where f: "f = frame_of ?h k (map (nibble_pair ns) [0..<?n])" and r: "bins_readable bins c"
    by (auto simp: Let_def)
  then have v: "hdr_valid ?h" by (simp add: bins_readable_def Let_def)
  have raw: "length (map (nibble_pair ns) [0..<?n]) = ?n" by simp
  show ?thesis
    using c decode_header_valid [OF v] decode_header_length [OF v] frame_of_fields [OF raw, of k]
    unfolding f by auto
qed

section \<open>The codec contract\<close>

text \<open>
  For a fixed profile, the encoder with the payload of a CRC-valid frame as decoder is a
  codec on the payloads of 2 to 255 bytes; so are the nibble code at each rate, whitening
  and the Gray code.
\<close>

definition frame_symbols :: "phy_config \<Rightarrow> u8 list \<Rightarrow> u16 list" where
  "frame_symbols c payload = encode_blocks c True (frame_nibbles payload c)"

definition trusted_payload :: "phy_config \<Rightarrow> u16 list \<Rightarrow> u8 list option" where
  "trusted_payload c bins = (case decode_lora_symbols bins c of
     Inr (Some f) \<Rightarrow> if pf_crc_valid f then Some (pf_bytes f) else None
   | _ \<Rightarrow> None)"

lemma sent_frame_fields [simp]:
  "pf_crc_valid (sent_frame c p)" "pf_bytes (sent_frame c p) = p" "pf_coding_rate (sent_frame c p) = pc_cr c"
  "\<not> pf_fec_corrected (sent_frame c p)"
  by (simp_all add: sent_frame_def)

lemma trusted_payload_round_trip:
  assumes "encodable c p"
  shows "trusted_payload c (frame_symbols c p) = Some p"
proof -
  have c: "valid_profile c" using assms by (simp add: encodable_def)
  from decode_damaged_frame [OF assms c refl refl damaged_refl [OF c]] show ?thesis
    by (auto simp: trusted_payload_def frame_symbols_def)
qed

interpretation frame: codec "frame_symbols c" "trusted_payload c" "encodable c" for c
  by unfold_locales (rule trusted_payload_round_trip)

definition checked_nibble :: "nat \<Rightarrow> u8 \<Rightarrow> u8 option" where
  "checked_nibble p cw = (let d = decode_nibble cw p in if nib_invalid d then None else Some (nib_value d))"

interpretation hamming: codec "\<lambda>n. encode_nibble n p" "checked_nibble p"
  "\<lambda>n. 1 \<le> p \<and> p \<le> 4 \<and> unat n < 16" for p
  by unfold_locales (simp add: checked_nibble_def decode_encode_nibble Let_def)

interpretation whitening: canonical_codec whiten "\<lambda>bs. Some (whiten bs)" "\<lambda>_. True"
  by unfold_locales (auto simp: whiten_involution)

interpretation gray: codec gray_decode "\<lambda>s. Some (gray_code s)" "\<lambda>_. True"
  by unfold_locales (simp add: gray_code_decode)

section \<open>Properties\<close>

definition example_profile :: phy_config where
  "example_profile = \<lparr>pc_bandwidth = 125000, pc_sf = 7, pc_cr = 8, pc_sync_word = 0x2b\<rparr>"

lemma example_profile_encodable: "encodable example_profile [0x48, 0x69]"
  by (simp add: encodable_def valid_profile_def example_profile_def supported_lora_bandwidth_def)

text \<open>
  C5: for every supported profile and every payload of 2 to 255 bytes, the symbols that
  \<open>encode_lora_symbols\<close> writes are decoded by \<open>decode_lora_symbols\<close>, under any supported
  configuration of the same spreading factor and bandwidth, to a frame with exactly those
  bytes, a valid header and CRC, no claimed correction and the sender's coding rate.
\<close>

theorem frame_round_trip:
  assumes "encodable c payload" and "valid_profile c'"
    and "pc_sf c' = pc_sf c" and "pc_bandwidth c' = pc_bandwidth c"
  shows "\<exists>symbols. encode_lora_symbols payload c = Inr symbols \<and>
    decode_lora_symbols symbols c' = Inr (Some (sent_frame c payload))"
proof -
  have "valid_profile c" using assms(1) by (simp add: encodable_def)
  from decode_damaged_frame [OF assms damaged_refl [OF this]] show ?thesis
    by (auto simp: encode_lora_symbols_eq [OF assms(1)] sent_frame_def)
qed

theorem frame_round_trip_witness:
  "\<exists>symbols. encode_lora_symbols [0x48, 0x69] example_profile = Inr symbols \<and>
    decode_lora_symbols symbols (example_profile\<lparr>pc_cr := 5\<rparr>) =
      Inr (Some (sent_frame example_profile [0x48, 0x69]))"
  by (rule frame_round_trip [OF example_profile_encodable])
    (simp_all add: valid_profile_def example_profile_def supported_lora_bandwidth_def)

lemma damaged_one:
  assumes c: "valid_profile c" and x: "unat x < 2 ^ pc_sf c" and i: "i < 8 \<or> 7 \<le> pc_cr c"
  shows "damaged c (frame_symbols c payload) ((frame_symbols c payload)[i := x])"
proof -
  have "unat b < 2 ^ pc_sf c" if "b \<in> set ((frame_symbols c payload)[i := x])" for b
    using that x bins_in_range [OF c] set_update_subset_insert [of "frame_symbols c payload" i x]
    by (auto simp: frame_symbols_def)
  moreover have "j = i" if "(frame_symbols c payload)[i := x] ! j \<noteq> frame_symbols c payload ! j" for j
    using that by (metis nth_list_update_neq)
  ultimately show ?thesis using i unfolding damaged_def by (metis length_list_update not_less)
qed

text \<open>
  C10: the interleaver spreads a symbol over all codewords of its block, so one arbitrarily
  wrong (in range) symbol in the header block, and at coding rates 4/7 and 4/8 one in every
  payload block, leaves the decoded bytes, header, CRC and coding rate unchanged.
\<close>

theorem one_symbol_per_block_corrected:
  assumes "encodable c payload" and "encode_lora_symbols payload c = Inr sent"
    and "damaged c sent received"
  shows "\<exists>corrected. decode_lora_symbols received c =
    Inr (Some ((sent_frame c payload)\<lparr>pf_fec_corrected := corrected\<rparr>))"
proof -
  have c: "valid_profile c" using assms(1) by (simp add: encodable_def)
  have "sent = encode_blocks c True (frame_nibbles payload c)"
    using assms(2) by (simp add: encode_lora_symbols_eq [OF assms(1)])
  then show ?thesis
    using decode_damaged_frame [OF assms(1) c refl refl, of received] assms(3) by auto
qed

theorem one_symbol_per_block_corrected_witness:
  "\<exists>corrected. decode_lora_symbols ((frame_symbols example_profile [0x48, 0x69])[9 := 100]) example_profile =
    Inr (Some ((sent_frame example_profile [0x48, 0x69])\<lparr>pf_fec_corrected := corrected\<rparr>))"
proof (rule one_symbol_per_block_corrected [OF example_profile_encodable])
  show "encode_lora_symbols [0x48, 0x69] example_profile = Inr (frame_symbols example_profile [0x48, 0x69])"
    by (simp add: encode_lora_symbols_eq [OF example_profile_encodable] frame_symbols_def)
  show "damaged example_profile (frame_symbols example_profile [0x48, 0x69])
      ((frame_symbols example_profile [0x48, 0x69])[9 := 100])"
    by (rule damaged_one) (simp_all add: valid_profile_def example_profile_def supported_lora_bandwidth_def)
qed

text \<open>
  C15: with a supported configuration the decoder always terminates with an answer, and
  refuses exactly the inputs whose header block does not check, that are shorter than the
  header announces, or that hold a bin outside the transform; its last length test never
  fails.
\<close>

theorem decode_returns_frame_iff:
  assumes "valid_profile c"
  shows "if bins_readable bins c then \<exists>f. decode_lora_symbols bins c = Inr (Some f)
    else decode_lora_symbols bins c = Inr None"
  using decode_lora_symbols_cases [OF assms, of bins] by (auto simp: Let_def)

theorem decode_returns_frame_iff_witness:
  "decode_lora_symbols [1, 2, 3] example_profile = Inr None"
  using decode_returns_frame_iff [of example_profile "[1, 2, 3]"]
  by (simp add: bins_readable_def decode_header_def no_header_def example_profile_def
      valid_profile_def supported_lora_bandwidth_def)

text \<open>
  Every frame the decoder returns comes from a supported configuration, has 1 to 255
  bytes, a valid header and a coding rate 4/5 to 4/8, and claims a valid CRC only when the
  header announced one and the payload has at least two bytes.
\<close>

theorem decoded_frame_well_formed:
  assumes "decode_lora_symbols bins c = Inr (Some f)"
  shows "valid_profile c \<and> pf_header_valid f \<and> 1 \<le> length (pf_bytes f) \<and> length (pf_bytes f) \<le> 255 \<and>
    5 \<le> pf_coding_rate f \<and> pf_coding_rate f \<le> 8 \<and>
    (pf_crc_valid f \<longrightarrow> pf_crc_present f \<and> 2 \<le> length (pf_bytes f))"
  by (rule decode_lora_symbols_frame [OF assms])

lemma example_frame_decodes:
  "decode_lora_symbols (frame_symbols example_profile [0x48, 0x69]) example_profile =
    Inr (Some (sent_frame example_profile [0x48, 0x69]))"
proof -
  have c: "valid_profile example_profile" using example_profile_encodable by (simp add: encodable_def)
  show ?thesis
    using decode_damaged_frame [OF example_profile_encodable c refl refl damaged_refl [OF c]]
    by (auto simp: frame_symbols_def sent_frame_def)
qed

theorem decoded_frame_well_formed_witness:
  "5 \<le> pf_coding_rate (sent_frame example_profile [0x48, 0x69]) \<and>
    pf_crc_present (sent_frame example_profile [0x48, 0x69])"
  using decoded_frame_well_formed [OF example_frame_decodes] by simp

text \<open>
  At parities 3 and 4 every codeword with at most one flipped bit decodes to its nibble,
  and reports a correction exactly when a bit was flipped; at every parity an unharmed
  codeword decodes to its nibble with no correction.
\<close>

theorem hamming_corrects:
  assumes "1 \<le> parity" and "parity \<le> 4" and "unat n < 16"
    and "popcount flipped \<le> (if parity \<ge> 3 then 1 else 0)"
  shows "decode_nibble (encode_nibble n parity XOR flipped) parity =
    \<lparr>nib_value = n, nib_corrected = flipped \<noteq> 0, nib_invalid = False\<rparr>"
  by (rule decode_nibble_corrects [OF assms])

theorem hamming_corrects_witness:
  "decode_nibble (encode_nibble 11 4 XOR 0x20) 4 =
    \<lparr>nib_value = 11, nib_corrected = True, nib_invalid = False\<rparr>"
proof -
  have "popcount (0x20 :: u8) = 1" by code_simp
  then show ?thesis using hamming_corrects [of 4 11 "0x20"] by simp
qed

text \<open>
  No silent miscorrection: one flipped bit at parities 1 and 2, and two at parity 4, are
  reported as invalid.
\<close>

theorem hamming_detects:
  assumes "parity \<in> {1, 2, 4}" and "unat n < 16"
    and "popcount flipped = (if parity = 4 then 2 else 1)"
  shows "nib_invalid (decode_nibble (encode_nibble n parity XOR flipped) parity)"
  by (rule decode_nibble_detects [OF assms])

theorem hamming_detects_witness: "nib_invalid (decode_nibble (encode_nibble 11 4 XOR 0x22) 4)"
proof -
  have "popcount (0x22 :: u8) = 2" by code_simp
  then show ?thesis using hamming_detects [of 4 11 "0x22"] by simp
qed

text \<open>
  The encoder accepts exactly the payloads of 2 to 255 bytes under a supported profile,
  writes the number of symbols its header announces, every one below \<open>2 ^ SF\<close>, and
  different payloads never share their symbols.
\<close>

theorem encoder_output:
  "(is_ok (encode_lora_symbols payload c) \<longleftrightarrow> encodable c payload) \<and>
   (encodable c payload \<longrightarrow> (\<exists>symbols. encode_lora_symbols payload c = Inr symbols \<and>
      length symbols = header_symbols (pc_sf c) (pc_bandwidth c) (length payload) True (pc_cr c - 4) \<and>
      list_all (\<lambda>s. unat s < 2 ^ pc_sf c) symbols \<and>
      (encodable c other \<longrightarrow> encode_lora_symbols other c = Inr symbols \<longrightarrow> other = payload)))"
proof -
  have "is_ok (encode_lora_symbols payload c) \<longleftrightarrow> encodable c payload"
    by (cases "valid_profile c")
      (auto simp: encode_lora_symbols_def encodable_def validate_phy_Inr validate_phy_Inl guard_err_bind)
  moreover have "encode_lora_symbols payload c = Inr (frame_symbols c payload) \<and>
      length (frame_symbols c payload) = header_symbols (pc_sf c) (pc_bandwidth c) (length payload) True (pc_cr c - 4) \<and>
      list_all (\<lambda>s. unat s < 2 ^ pc_sf c) (frame_symbols c payload) \<and>
      (encodable c other \<longrightarrow> encode_lora_symbols other c = Inr (frame_symbols c payload) \<longrightarrow> other = payload)"
    if e: "encodable c payload"
  proof (intro conjI impI)
    show "encode_lora_symbols payload c = Inr (frame_symbols c payload)"
      by (simp add: encode_lora_symbols_eq [OF e] frame_symbols_def)
    show "list_all (\<lambda>s. unat s < 2 ^ pc_sf c) (frame_symbols c payload)"
      using e bins_in_range by (auto simp: list_all_iff frame_symbols_def encodable_def)
    assume o: "encodable c other" and "encode_lora_symbols other c = Inr (frame_symbols c payload)"
    then have "frame_symbols c other = frame_symbols c payload"
      by (simp add: encode_lora_symbols_eq [OF o] frame_symbols_def)
    then show "other = payload" by (rule frame.enc_injective [OF o e])
  qed (simp add: frame_symbols_def length_encode_blocks [OF e])
  ultimately show ?thesis by blast
qed

theorem encoder_output_witness:
  "is_ok (encode_lora_symbols [0x48, 0x69] example_profile) \<and>
    length (frame_symbols example_profile [0x48, 0x69]) = header_symbols 7 125000 2 True 4"
  using encoder_output [of "[0x48, 0x69]" example_profile "[0x48, 0x69]"] example_profile_encodable
  by (auto simp: encode_lora_symbols_eq [OF example_profile_encodable] frame_symbols_def)
    (simp add: example_profile_def numeral_2_eq_2)

end
