(* ===== verification/LoraReceiver.thy ===== *)
theory LoraReceiver
  imports PhyCodec Complex_Main
begin

text \<open>
  The receiver of \<open>src/phy.cpp\<close> (\<open>LoRaReceiver::Impl\<close>): the acquisition state machine from
  the preamble search over the sync word and the down chirps to the payload symbols, with
  its bounded sample buffer and its diagnostics. The floating-point transform is an argument,
  the \<open>estimator\<close>: the power of every bin of a window, the ratio of the strongest to the
  total, and the fractional offset of two windows. The main results: the buffer and the
  symbol list stay bounded, a checked header always leads to a delivered frame, and frames lie
  within the samples fed.
\<close>

section \<open>The estimator and its peaks\<close>

record 'a estimator =
  es_power :: "'a list \<Rightarrow> bool \<Rightarrow> rat \<Rightarrow> int \<Rightarrow> nat \<Rightarrow> rat"
  es_ratio :: "'a list \<Rightarrow> bool \<Rightarrow> rat \<Rightarrow> int \<Rightarrow> rat option"
  es_fraction :: "'a list \<Rightarrow> 'a list \<Rightarrow> rat"
  es_finite :: "'a \<Rightarrow> bool"
  es_zero :: 'a

record peak =
  pk_bin :: nat
  pk_ratio :: rat

text \<open>
  The strongest of the \<open>n\<close> bins; no ratio stands for a total that is not finite or below
  1e-20, where the code returns an empty peak. The correction is \<open>fraction + whole\<close>.
\<close>

definition strongest_bin :: "nat \<Rightarrow> (nat \<Rightarrow> rat) \<Rightarrow> nat" where
  "strongest_bin n pw =
     snd (fold (\<lambda>i (best, index). if pw i > best then (pw i, i) else (best, index)) [0..<n] (0, 0))"

definition peak_of :: "'a estimator \<Rightarrow> nat \<Rightarrow> 'a list \<Rightarrow> bool \<Rightarrow> rat \<Rightarrow> int \<Rightarrow> peak" where
  "peak_of es n window down fraction whole =
     (case es_ratio es window down fraction whole of
        None \<Rightarrow> \<lparr>pk_bin = 0, pk_ratio = 0\<rparr>
      | Some ratio \<Rightarrow> \<lparr>pk_bin = strongest_bin n (es_power es window down fraction whole), pk_ratio = ratio\<rparr>)"

section \<open>Bins\<close>

text \<open>The remainder of C++ truncates towards zero.\<close>

definition c_rem :: "int \<Rightarrow> int \<Rightarrow> int" where
  "c_rem a b = sgn a * (\<bar>a\<bar> mod \<bar>b\<bar>)"

definition wrap :: "int \<Rightarrow> int \<Rightarrow> int" where
  "wrap v sz = c_rem (c_rem v sz + sz) sz"

definition sync_distance :: "int \<Rightarrow> int \<Rightarrow> int" where
  "sync_distance bin target = (let period = 16 * 8 in
     \<bar>wrap (bin - target + period div 2) period - period div 2\<bar>)"

definition signed_bin :: "nat \<Rightarrow> int \<Rightarrow> int" where
  "signed_bin n v = (if v \<ge> int (n div 2) then v - int n else v)"

definition bin_distance :: "nat \<Rightarrow> int \<Rightarrow> int \<Rightarrow> int" where
  "bin_distance n a b = \<bar>signed_bin n (wrap (a - b) (int n))\<bar>"

definition increment :: "u64 \<Rightarrow> u64" where
  "increment v = (if v < -1 then v + 1 else v)"

section \<open>State\<close>

datatype acquisition = Search | Sync | Down1 | Down2 | Quarter | Payload

record diagnostics =
  dg_preamble_candidates :: u64
  dg_sync_matches :: u64
  dg_sync_rejections :: u64
  dg_sync_low_ratio :: u64
  dg_sync_timeout :: u64
  dg_sync_first_mismatch :: u64
  dg_sync_second_mismatch :: u64
  dg_headers_valid :: u64
  dg_headers_failed :: u64
  dg_completed_frames :: u64

record 'a receiver =
  rx_config :: phy_config
  rx_diag :: diagnostics
  rx_buffer :: "'a list"
  rx_symbols :: "u16 list"
  rx_base :: nat
  rx_first :: nat
  rx_cursor :: nat
  rx_phase :: acquisition
  rx_stable :: nat
  rx_sync_count :: nat
  rx_expected :: nat
  rx_sync_wait :: nat
  rx_old_bin :: int
  rx_down_bin :: int
  rx_cfo_int :: int
  rx_cfo_fraction :: rat

definition rx_n :: "'a receiver \<Rightarrow> nat" where
  "rx_n r = 2 ^ pc_sf (rx_config r)"

definition new_receiver :: "phy_config \<Rightarrow> 'a receiver result" where
  "new_receiver c = bind_result (validate_phy c) (\<lambda>_. Inr
     \<lparr>rx_config = c, rx_diag = \<lparr>dg_preamble_candidates = 0, dg_sync_matches = 0, dg_sync_rejections = 0,
        dg_sync_low_ratio = 0, dg_sync_timeout = 0, dg_sync_first_mismatch = 0, dg_sync_second_mismatch = 0,
        dg_headers_valid = 0, dg_headers_failed = 0, dg_completed_frames = 0\<rparr>,
      rx_buffer = [], rx_symbols = [], rx_base = 0, rx_first = 0, rx_cursor = 0, rx_phase = Search,
      rx_stable = 0, rx_sync_count = 0, rx_expected = 0, rx_sync_wait = 0, rx_old_bin = 0,
      rx_down_bin = 0, rx_cfo_int = 0, rx_cfo_fraction = 0\<rparr>)"

definition restart :: "'a receiver \<Rightarrow> 'a receiver" where
  "restart r = r\<lparr>rx_phase := Search, rx_stable := 0, rx_sync_count := 0, rx_sync_wait := 0,
     rx_expected := 0, rx_cfo_int := 0, rx_cfo_fraction := 0, rx_symbols := []\<rparr>"

definition advance :: "nat \<Rightarrow> 'a receiver \<Rightarrow> 'a receiver" where
  "advance k r = r\<lparr>rx_cursor := rx_cursor r + k\<rparr>"

definition count_up :: "(diagnostics \<Rightarrow> diagnostics) \<Rightarrow> 'a receiver \<Rightarrow> 'a receiver" where
  "count_up f r = r\<lparr>rx_diag := f (rx_diag r)\<rparr>"

definition compact :: "'a receiver \<Rightarrow> 'a receiver" where
  "compact r =
     (let n = rx_n r; keep = (if rx_phase r = Search then n else 0) in
      if rx_cursor r > keep + 4 * n then
        let count = min (rx_cursor r - keep) (length (rx_buffer r)) in
        r\<lparr>rx_buffer := drop count (rx_buffer r), rx_cursor := rx_cursor r - count,
          rx_base := rx_base r + count\<rparr>
      else r)"

definition window :: "'a receiver \<Rightarrow> nat \<Rightarrow> 'a list" where
  "window r from = take (rx_n r) (drop from (rx_buffer r))"

section \<open>One round of \<open>process\<close>\<close>

text \<open>
  The thresholds are the values of the float literals 0.08f and 0.06f.
\<close>

definition coherent_ratio :: rat where "coherent_ratio = 10737418 / 134217728"
definition lock_ratio :: rat where "lock_ratio = 16106127 / 268435456"

definition search_step :: "'a estimator \<Rightarrow> 'a receiver \<Rightarrow> 'a receiver" where
  "search_step es r =
     (let n = rx_n r;
          p = peak_of es n (window r (rx_cursor r)) False 0 0;
          coherent = (pk_ratio p > coherent_ratio);
          stable = (if coherent \<and> rx_stable r \<noteq> 0 \<and> bin_distance n (int (pk_bin p)) (rx_old_bin r) \<le> 1
                    then rx_stable r + 1 else if coherent then 1 else 0);
          r1 = r\<lparr>rx_stable := stable, rx_old_bin := int (pk_bin p)\<rparr>
      in if stable \<ge> 4 then
           (count_up (\<lambda>d. d\<lparr>dg_preamble_candidates := increment (dg_preamble_candidates d)\<rparr>) r1)
             \<lparr>rx_cfo_fraction := (if rx_cursor r \<ge> n
                then es_fraction es (window r (rx_cursor r)) (window r (rx_cursor r - n)) else 0),
              rx_first := rx_base r + rx_cursor r - 3 * n,
              rx_cursor := rx_cursor r + (n + nat (wrap (- int (pk_bin p)) (int n))),
              rx_phase := Sync, rx_sync_count := 0, rx_sync_wait := 0\<rparr>
         else advance n r1)"

definition reject_sync :: "(diagnostics \<Rightarrow> diagnostics) \<Rightarrow> 'a receiver \<Rightarrow> 'a receiver" where
  "reject_sync f r = advance (rx_n r) (restart (count_up f (count_up
     (\<lambda>d. d\<lparr>dg_sync_rejections := increment (dg_sync_rejections d)\<rparr>) r)))"

definition sync_step :: "'a estimator \<Rightarrow> 'a receiver \<Rightarrow> 'a receiver" where
  "sync_step es r =
     (let n = rx_n r;
          p = peak_of es n (window r (rx_cursor r)) False (rx_cfo_fraction r) 0
      in if pk_ratio p < lock_ratio then
           reject_sync (\<lambda>d. d\<lparr>dg_sync_low_ratio := increment (dg_sync_low_ratio d)\<rparr>) r
         else let r1 = r\<lparr>rx_sync_wait := rx_sync_wait r + 1\<rparr> in
         if rx_sync_wait r1 > 80 then
           reject_sync (\<lambda>d. d\<lparr>dg_sync_timeout := increment (dg_sync_timeout d)\<rparr>) r1
         else if rx_sync_count r = 0 \<and> bin_distance n (int (pk_bin p)) 0 \<le> 1 then advance n r1
         else let word = pc_sync_word (rx_config r);
                  target = (if rx_sync_count r = 0 then unat (drop_bit 4 word) * 8 else unat (word AND 15) * 8) in
         if sync_distance (int (pk_bin p)) (int target) > 2 then
           reject_sync (if rx_sync_count r = 0
             then (\<lambda>d. d\<lparr>dg_sync_first_mismatch := increment (dg_sync_first_mismatch d)\<rparr>)
             else (\<lambda>d. d\<lparr>dg_sync_second_mismatch := increment (dg_sync_second_mismatch d)\<rparr>)) r1
         else let r2 = advance n (r1\<lparr>rx_sync_count := rx_sync_count r + 1\<rparr>) in
         if rx_sync_count r2 = 2 then
           (count_up (\<lambda>d. d\<lparr>dg_sync_matches := increment (dg_sync_matches d)\<rparr>) r2)\<lparr>rx_phase := Down1\<rparr>
         else r2)"

definition down_step :: "'a estimator \<Rightarrow> 'a receiver \<Rightarrow> 'a receiver" where
  "down_step es r =
     (let n = rx_n r;
          p = peak_of es n (window r (rx_cursor r)) True (rx_cfo_fraction r) 0
      in if pk_ratio p < lock_ratio then advance n (restart r)
         else let r1 = advance n (r\<lparr>rx_down_bin := signed_bin n (int (pk_bin p))\<rparr>) in
           if rx_phase r = Down1 then r1\<lparr>rx_phase := Down2\<rparr>
           else r1\<lparr>rx_cfo_int := rx_down_bin r1 div 2, rx_phase := Quarter\<rparr>)"

definition quarter_step :: "'a receiver \<Rightarrow> 'a receiver" where
  "quarter_step r =
     (let n = rx_n r; adv = int (n div 4) + rx_cfo_int r in
      if adv < 0 \<or> adv > int (n div 2) then restart r
      else (advance (nat adv) r)\<lparr>rx_phase := Payload, rx_symbols := []\<rparr>)"

text \<open>
  The flag tells whether the round ends in \<open>continue\<close>, which skips \<open>compact\<close>; the frame is
  handed to the callback after \<open>restart\<close>.
\<close>

definition payload_step :: "'a estimator \<Rightarrow> 'a receiver \<Rightarrow> 'a receiver \<times> phy_frame option \<times> bool" where
  "payload_step es r =
     (let n = rx_n r; c = rx_config r;
          p = peak_of es n (window r (rx_cursor r)) False (rx_cfo_fraction r) (rx_cfo_int r);
          r1 = advance n (r\<lparr>rx_symbols := rx_symbols r @ [word_of_nat (pk_bin p)]\<rparr>);
          h = decode_header (rx_symbols r1) (pc_sf c) (pc_bandwidth c)
      in if length (rx_symbols r1) = 8 \<and> \<not> hdr_valid h then
           (restart (count_up (\<lambda>d. d\<lparr>dg_headers_failed := increment (dg_headers_failed d)\<rparr>) r1), None, True)
         else let r2 = (if length (rx_symbols r1) = 8
             then (count_up (\<lambda>d. d\<lparr>dg_headers_valid := increment (dg_headers_valid d)\<rparr>) r1)\<lparr>rx_expected := hdr_symbols h\<rparr>
             else r1);
           (r3, frame) = (if rx_expected r2 \<noteq> 0 \<and> length (rx_symbols r2) = rx_expected r2
             then (case decode_lora_symbols (rx_symbols r2) c of
                Inr (Some f) \<Rightarrow>
                  (restart (count_up (\<lambda>d. d\<lparr>dg_completed_frames := increment (dg_completed_frames d)\<rparr>) r2),
                   Some (f\<lparr>pf_first_sample := rx_first r2, pf_last_sample := rx_base r2 + rx_cursor r2\<rparr>))
              | _ \<Rightarrow> (restart r2, None))
             else (r2, None))
           in (if length (rx_symbols r3) > 1024 then restart r3 else r3, frame, False))"

definition rx_step :: "'a estimator \<Rightarrow> 'a receiver \<Rightarrow> 'a receiver \<times> phy_frame option" where
  "rx_step es r =
     (case rx_phase r of
        Search \<Rightarrow> (compact (search_step es r), None)
      | Sync \<Rightarrow> (compact (sync_step es r), None)
      | Down1 \<Rightarrow> (compact (down_step es r), None)
      | Down2 \<Rightarrow> (compact (down_step es r), None)
      | Quarter \<Rightarrow> (compact (quarter_step r), None)
      | Payload \<Rightarrow> (case payload_step es r of
          (r', frame, skip) \<Rightarrow> (if skip then r' else compact r', frame)))"

text \<open>The loop \<open>while(cursor+n<=buffer.size())\<close>, with the frames handed to the callback.\<close>

definition rx_gap :: "'a receiver \<Rightarrow> int" where
  "rx_gap r = int (length (rx_buffer r)) - int (rx_cursor r)"

named_theorems rx_defs "fields of the receiver after an operation"

lemma rx_n_pos [simp]: "0 < rx_n r"
  by (simp add: rx_n_def)

lemma restart_fields [rx_defs, simp]:
  "rx_config (restart r) = rx_config r" "rx_diag (restart r) = rx_diag r" "rx_buffer (restart r) = rx_buffer r"
  "rx_symbols (restart r) = []" "rx_base (restart r) = rx_base r" "rx_first (restart r) = rx_first r"
  "rx_cursor (restart r) = rx_cursor r" "rx_phase (restart r) = Search" "rx_stable (restart r) = 0"
  "rx_sync_count (restart r) = 0" "rx_expected (restart r) = 0" "rx_n (restart r) = rx_n r"
  by (simp_all add: restart_def rx_n_def)

lemma advance_fields [rx_defs, simp]:
  "rx_config (advance k r) = rx_config r" "rx_diag (advance k r) = rx_diag r" "rx_buffer (advance k r) = rx_buffer r"
  "rx_symbols (advance k r) = rx_symbols r" "rx_base (advance k r) = rx_base r" "rx_first (advance k r) = rx_first r"
  "rx_cursor (advance k r) = rx_cursor r + k" "rx_phase (advance k r) = rx_phase r" "rx_stable (advance k r) = rx_stable r"
  "rx_sync_count (advance k r) = rx_sync_count r" "rx_expected (advance k r) = rx_expected r"
  "rx_sync_wait (advance k r) = rx_sync_wait r" "rx_n (advance k r) = rx_n r"
  by (simp_all add: advance_def rx_n_def)

lemma count_up_fields [rx_defs, simp]:
  "rx_config (count_up f r) = rx_config r" "rx_diag (count_up f r) = f (rx_diag r)" "rx_buffer (count_up f r) = rx_buffer r"
  "rx_symbols (count_up f r) = rx_symbols r" "rx_base (count_up f r) = rx_base r" "rx_first (count_up f r) = rx_first r"
  "rx_cursor (count_up f r) = rx_cursor r" "rx_phase (count_up f r) = rx_phase r" "rx_stable (count_up f r) = rx_stable r"
  "rx_sync_count (count_up f r) = rx_sync_count r" "rx_expected (count_up f r) = rx_expected r" "rx_n (count_up f r) = rx_n r"
  by (simp_all add: count_up_def rx_n_def)

lemma c_rem_eq:
  assumes "0 < b"
  shows "c_rem a b = (if a mod b = 0 \<or> 0 \<le> a then a mod b else a mod b - b)"
proof (cases "0 \<le> a")
  case True
  then show ?thesis using assms by (cases "a = 0") (simp_all add: c_rem_def sgn_if)
next
  case False
  then show ?thesis using assms by (simp add: c_rem_def sgn_if zmod_zminus1_eq_if)
qed

lemma wrap_eq:
  assumes "0 < sz"
  shows "wrap v sz = v mod sz"
proof -
  have "(c_rem v sz + sz) mod sz = v mod sz"
    using assms by (simp add: c_rem_eq)
  moreover have "0 \<le> c_rem v sz + sz"
    using assms pos_mod_sign [OF assms, of v] pos_mod_bound [OF assms, of v] by (simp add: c_rem_eq)
  ultimately show ?thesis using assms by (simp add: wrap_def c_rem_eq [of sz "c_rem v sz + sz"])
qed

lemma strongest_bin_less: "0 < n \<Longrightarrow> strongest_bin n pw < n"
proof -
  assume n: "0 < n"
  have "snd (fold (\<lambda>i (best, index). if pw i > best then (pw i, i) else (best, index)) is (b, k)) < n"
    if "k < n" "\<forall>i\<in>set is. i < n" for "is" b k
    using that by (induction "is" arbitrary: b k) auto
  then show ?thesis using n by (simp add: strongest_bin_def)
qed

lemma peak_bin_less: "0 < n \<Longrightarrow> pk_bin (peak_of es n w d f k) < n"
  by (simp add: peak_of_def strongest_bin_less split: option.split)

lemma compact_gap: "rx_gap (compact r) = rx_gap r"
  by (auto simp: compact_def rx_gap_def Let_def)

lemma compact_fields [rx_defs, simp]:
  "rx_config (compact r) = rx_config r" "rx_diag (compact r) = rx_diag r" "rx_symbols (compact r) = rx_symbols r"
  "rx_phase (compact r) = rx_phase r" "rx_stable (compact r) = rx_stable r" "rx_first (compact r) = rx_first r"
  "rx_sync_count (compact r) = rx_sync_count r" "rx_expected (compact r) = rx_expected r"
  "rx_n (compact r) = rx_n r" "rx_base (compact r) + rx_cursor (compact r) = rx_base r + rx_cursor r"
  by (auto simp: compact_def Let_def rx_n_def)

text \<open>A round moves the cursor by at least one symbol, or leaves the quarter state.\<close>

lemma gap_moves:
  "rx_gap (restart r) = rx_gap r" "rx_gap (advance k r) = rx_gap r - int k" "rx_gap (count_up f r) = rx_gap r"
  by (simp_all add: rx_gap_def)

lemma search_step_gap: "rx_gap (search_step es r) \<le> rx_gap r - int (rx_n r)"
  by (simp add: search_step_def Let_def rx_gap_def)

lemma sync_step_gap: "rx_gap (sync_step es r) = rx_gap r - int (rx_n r)"
  by (simp add: sync_step_def Let_def rx_gap_def reject_sync_def rx_n_def)

lemma down_step_gap: "rx_gap (down_step es r) = rx_gap r - int (rx_n r)"
  by (simp add: down_step_def Let_def rx_gap_def rx_n_def)

lemma quarter_step_gap: "rx_gap (quarter_step r) \<le> rx_gap r" "rx_phase (quarter_step r) \<noteq> Quarter"
  by (auto simp: quarter_step_def Let_def rx_gap_def)

lemma payload_step_gap: "rx_gap (fst (payload_step es r)) = rx_gap r - int (rx_n r)"
  by (auto simp: payload_step_def Let_def gap_moves rx_gap_def rx_n_def restart_def count_up_def
      split: prod.splits sum.splits option.splits if_splits)

definition rx_left :: "'a receiver \<Rightarrow> nat" where
  "rx_left r = 2 * nat (rx_gap r) + (if rx_phase r = Quarter then 1 else 0)"

lemma rx_step_progress:
  assumes "(r1, frame) = rx_step es r" and "rx_cursor r + rx_n r \<le> length (rx_buffer r)"
  shows "rx_left r1 < rx_left r"
proof (cases "rx_phase r = Quarter")
  case True
  then show ?thesis
    using quarter_step_gap [of r] assms(1) by (simp add: rx_step_def compact_gap rx_left_def)
next
  case False
  have "rx_gap r1 \<le> rx_gap r - int (rx_n r)"
    using False search_step_gap [of es r] sync_step_gap [of es r] down_step_gap [of es r] payload_step_gap [of es r] assms(1)
    by (cases "rx_phase r") (auto simp: rx_step_def compact_gap split: prod.splits)
  moreover have "int (rx_n r) \<le> rx_gap r" using assms(2) by (simp add: rx_gap_def)
  ultimately have "nat (rx_gap r1) < nat (rx_gap r)"
    using rx_n_pos [of r] by linarith
  then show ?thesis by (simp add: rx_left_def del: zless_nat_conj nat_less_eq_zless)
qed

function process :: "'a estimator \<Rightarrow> 'a receiver \<Rightarrow> 'a receiver \<times> phy_frame list" where
  "process es r =
     (if rx_cursor r + rx_n r \<le> length (rx_buffer r) then
        case rx_step es r of (r1, frame) \<Rightarrow>
          (case process es r1 of (r2, frames) \<Rightarrow>
             (r2, (case frame of None \<Rightarrow> frames | Some f \<Rightarrow> f # frames)))
      else (r, []))"
  by pat_completeness auto
termination
  by (relation "measure (\<lambda>(es, r). rx_left r)") (auto intro: rx_step_progress)

declare process.simps [simp del]

section \<open>\<open>reset\<close> and \<open>feed\<close>\<close>

definition rx_reset :: "'a receiver \<Rightarrow> 'a receiver" where
  "rx_reset r = restart (r\<lparr>rx_buffer := [], rx_cursor := 0, rx_base := 0\<rparr>)"

definition push_sample :: "'a estimator \<Rightarrow> 'a \<Rightarrow> 'a receiver \<Rightarrow> 'a receiver" where
  "push_sample es v r =
     (if \<not> es_finite es v then (rx_reset r)\<lparr>rx_buffer := [es_zero es]\<rparr>
      else r\<lparr>rx_buffer := rx_buffer r @ [v]\<rparr>)"

function feed :: "'a estimator \<Rightarrow> 'a list \<Rightarrow> 'a receiver \<Rightarrow> 'a receiver \<times> phy_frame list" where
  "feed es samples r =
     (if samples = [] then (r, [])
      else let count = min (rx_n r) (length samples);
               r1 = fold (push_sample es) (take count samples) r
           in case process es r1 of (r2, fs) \<Rightarrow>
                (case feed es (drop count samples) r2 of (r3, fs') \<Rightarrow> (r3, fs @ fs')))"
  by pat_completeness auto
termination
  by (relation "measure (\<lambda>(es, samples, r). length samples)") auto

declare feed.simps [simp del]

section \<open>Invariants\<close>

text \<open>Saturating counters: \<open>b\<close> counts at least what \<open>a\<close> counts, strictly more if \<open>ahead\<close>.\<close>

definition counter_below :: "bool \<Rightarrow> u64 \<Rightarrow> u64 \<Rightarrow> bool" where
  "counter_below ahead a b \<longleftrightarrow> a \<le> b \<and> (ahead \<longrightarrow> a < b \<or> b = -1)"

lemma unat_max_u64: "unat (-1 :: u64) = 2 ^ 64 - 1"
  by (simp add: unsigned_minus_1_eq_mask mask_eq_exp_minus_1)

lemma unat_increment: "unat (increment v) = min (2 ^ 64 - 1) (unat v + 1)"
proof (cases "v < -1")
  case True
  then have "unat v < 2 ^ 64 - 1" by (simp add: word_less_nat_alt unat_max_u64)
  then have "unat (v + 1) = unat v + 1" by (simp add: unat_plus_if_size word_size)
  then show ?thesis using True \<open>unat v < 2 ^ 64 - 1\<close> by (simp add: increment_def)
next
  case False
  have "unat v < 2 ^ 64" by (rule order.strict_trans2 [OF unsigned_less]) simp
  then have "v = -1"
    using False by (simp add: word_less_nat_alt word_unat_eq_iff unat_max_u64)
  then show ?thesis by (simp add: increment_def unat_max_u64)
qed

lemma counter_below_up:
  "counter_below ahead a b \<Longrightarrow> counter_below True a (increment b)"
  "counter_below True a b \<Longrightarrow> counter_below False (increment a) b"
  "counter_below ahead a b \<Longrightarrow> counter_below False a b"
  "counter_below ahead a b \<Longrightarrow> counter_below ahead a (increment b)"
proof -
  have le: "unat b \<le> 2 ^ 64 - 1" for b :: u64
  proof -
    have "unat b < 2 ^ 64" by (rule order.strict_trans2 [OF unsigned_less]) simp
    then show ?thesis by simp
  qed
  have max: "b = -1 \<longleftrightarrow> unat b = 2 ^ 64 - 1" for b :: u64
    by (simp add: word_unat_eq_iff unat_max_u64)
  show "counter_below ahead a b \<Longrightarrow> counter_below True a (increment b)"
    "counter_below True a b \<Longrightarrow> counter_below False (increment a) b"
    "counter_below ahead a b \<Longrightarrow> counter_below False a b"
    "counter_below ahead a b \<Longrightarrow> counter_below ahead a (increment b)"
    using le [of a] le [of b]
    unfolding counter_below_def word_le_nat_alt word_less_nat_alt max unat_increment by auto
qed

definition sync_rejections_ok :: "diagnostics \<Rightarrow> bool" where
  "sync_rejections_ok d \<longleftrightarrow> unat (dg_sync_rejections d) =
     min (2 ^ 64 - 1) (unat (dg_sync_low_ratio d) + unat (dg_sync_timeout d) +
       unat (dg_sync_first_mismatch d) + unat (dg_sync_second_mismatch d))"

definition funnel_ok :: "'a receiver \<Rightarrow> bool" where
  "funnel_ok r \<longleftrightarrow>
     counter_below (rx_phase r = Sync) (dg_sync_matches (rx_diag r)) (dg_preamble_candidates (rx_diag r)) \<and>
     counter_below (rx_phase r \<in> {Down1, Down2, Quarter} \<or> rx_phase r = Payload \<and> rx_expected r = 0)
       (dg_headers_valid (rx_diag r)) (dg_sync_matches (rx_diag r)) \<and>
     counter_below (rx_phase r = Payload \<and> rx_expected r \<noteq> 0)
       (dg_completed_frames (rx_diag r)) (dg_headers_valid (rx_diag r))"

definition symbols_ok :: "'a receiver \<Rightarrow> bool" where
  "symbols_ok r \<longleftrightarrow> list_all (\<lambda>b. unat b < rx_n r) (rx_symbols r) \<and>
     (if rx_phase r \<noteq> Payload then rx_symbols r = [] \<and> rx_expected r = 0
      else if rx_expected r = 0 then length (rx_symbols r) < 8
      else 8 \<le> length (rx_symbols r) \<and> length (rx_symbols r) < rx_expected r \<and>
        hdr_valid (decode_header (rx_symbols r) (pc_sf (rx_config r)) (pc_bandwidth (rx_config r))) \<and>
        hdr_symbols (decode_header (rx_symbols r) (pc_sf (rx_config r)) (pc_bandwidth (rx_config r))) = rx_expected r)"

definition position_ok :: "'a receiver \<Rightarrow> bool" where
  "position_ok r \<longleftrightarrow> rx_cursor r \<le> (if rx_phase r = Search then 5 else 4) * rx_n r \<and>
     (rx_phase r = Search \<longrightarrow> rx_stable r * rx_n r \<le> rx_base r + rx_cursor r) \<and>
     (rx_phase r \<noteq> Search \<longrightarrow> rx_first r \<le> rx_base r + rx_cursor r)"

definition rx_inv :: "'a receiver \<Rightarrow> bool" where
  "rx_inv r \<longleftrightarrow> valid_profile (rx_config r) \<and> position_ok r \<and> symbols_ok r \<and> funnel_ok r \<and>
     sync_rejections_ok (rx_diag r)"

text \<open>A delivered frame: well formed, and within the samples received so far.\<close>

definition frame_ok :: "nat \<Rightarrow> phy_frame \<Rightarrow> bool" where
  "frame_ok fed f \<longleftrightarrow> pf_header_valid f \<and> 1 \<le> length (pf_bytes f) \<and> length (pf_bytes f) \<le> 255 \<and>
     5 \<le> pf_coding_rate f \<and> pf_coding_rate f \<le> 8 \<and> pf_first_sample f \<le> pf_last_sample f \<and>
     pf_last_sample f \<le> fed"

lemma compact_position:
  assumes "rx_cursor r \<le> k + 2 * rx_n r" "k + rx_n r \<le> length (rx_buffer r)"
  shows "rx_cursor (compact r) \<le> (if rx_phase r = Search then 5 else 4) * rx_n r"
  using assms by (auto simp: compact_def Let_def min_def)

lemma compact_base: "rx_base (compact r) + length (rx_buffer (compact r)) = rx_base r + length (rx_buffer r)"
  by (simp add: compact_def Let_def min_def)

lemma compact_inv:
  assumes "symbols_ok r" "funnel_ok r" "sync_rejections_ok (rx_diag r)" "valid_profile (rx_config r)"
    and "rx_cursor r \<le> k + 2 * rx_n r" "k + rx_n r \<le> length (rx_buffer r)"
    and "rx_phase r = Search \<Longrightarrow> rx_stable r * rx_n r \<le> rx_base r + rx_cursor r"
    and "rx_phase r \<noteq> Search \<Longrightarrow> rx_first r \<le> rx_base r + rx_cursor r"
  shows "rx_inv (compact r)"
  using assms compact_position [OF assms(5,6)]
  by (auto simp: rx_inv_def position_ok_def symbols_ok_def funnel_ok_def)

lemma rx_n_config: "rx_config r' = rx_config r \<Longrightarrow> rx_n r' = rx_n r"
  by (simp add: rx_n_def)

lemma reject_fields:
  "rx_config (reject_sync f r) = rx_config r" "rx_buffer (reject_sync f r) = rx_buffer r"
  "rx_symbols (reject_sync f r) = []" "rx_base (reject_sync f r) = rx_base r"
  "rx_cursor (reject_sync f r) = rx_cursor r + rx_n r" "rx_phase (reject_sync f r) = Search"
  "rx_stable (reject_sync f r) = 0" "rx_expected (reject_sync f r) = 0" "rx_n (reject_sync f r) = rx_n r"
  "rx_diag (reject_sync f r) = f ((rx_diag r)\<lparr>dg_sync_rejections := increment (dg_sync_rejections (rx_diag r))\<rparr>)"
  by (simp_all add: reject_sync_def)

lemma search_step_inv:
  assumes "rx_inv r" "rx_phase r = Search" "rx_cursor r + rx_n r \<le> length (rx_buffer r)"
  shows "rx_inv (compact (search_step es r))"
proof (rule compact_inv [where k = "rx_cursor r"])
  let ?r = "search_step es r" and ?p = "peak_of es (rx_n r) (window r (rx_cursor r)) False 0 0"
  have inv: "valid_profile (rx_config r)" "rx_symbols r = []" "rx_expected r = 0" "funnel_ok r"
    "sync_rejections_ok (rx_diag r)" "rx_stable r * rx_n r \<le> rx_base r + rx_cursor r"
    using assms(1,2) by (auto simp: rx_inv_def symbols_ok_def position_ok_def)
  have w: "nat (wrap (- int (pk_bin ?p)) (int (rx_n r))) \<le> rx_n r"
  proof -
    have pos: "0 < int (rx_n r)" by simp
    then have "wrap (- int (pk_bin ?p)) (int (rx_n r)) < int (rx_n r)"
      unfolding wrap_eq [OF pos] by (rule pos_mod_bound)
    then show ?thesis by simp
  qed
  have n: "rx_n ?r = rx_n r" by (rule rx_n_config) (simp add: search_step_def Let_def)
  show "symbols_ok ?r" using inv assms(2) by (simp add: symbols_ok_def search_step_def Let_def)
  show "funnel_ok ?r"
    using inv(4) assms(2) inv(3)
    by (auto simp: funnel_ok_def search_step_def Let_def intro: counter_below_up)
  show "sync_rejections_ok (rx_diag ?r)"
    using inv(5) by (simp add: sync_rejections_ok_def search_step_def Let_def)
  show "valid_profile (rx_config ?r)" using inv(1) by (simp add: search_step_def Let_def)
  show "rx_cursor ?r \<le> rx_cursor r + 2 * rx_n ?r"
    unfolding n using w by (simp add: search_step_def Let_def)
  show "rx_cursor r + rx_n ?r \<le> length (rx_buffer ?r)"
    unfolding n using assms(3) by (simp add: search_step_def Let_def)
  show "rx_phase ?r = Search \<Longrightarrow> rx_stable ?r * rx_n ?r \<le> rx_base ?r + rx_cursor ?r"
    unfolding n using inv(6) by (auto simp: search_step_def Let_def split: if_splits)
  show "rx_phase ?r \<noteq> Search \<Longrightarrow> rx_first ?r \<le> rx_base ?r + rx_cursor ?r"
    using assms(2) by (auto simp: search_step_def Let_def split: if_splits)
qed

lemma rejections_up:
  assumes "sync_rejections_ok d"
  shows "sync_rejections_ok (d\<lparr>dg_sync_rejections := increment (dg_sync_rejections d), dg_sync_low_ratio := increment (dg_sync_low_ratio d)\<rparr>)"
    "sync_rejections_ok (d\<lparr>dg_sync_rejections := increment (dg_sync_rejections d), dg_sync_timeout := increment (dg_sync_timeout d)\<rparr>)"
    "sync_rejections_ok (d\<lparr>dg_sync_rejections := increment (dg_sync_rejections d), dg_sync_first_mismatch := increment (dg_sync_first_mismatch d)\<rparr>)"
    "sync_rejections_ok (d\<lparr>dg_sync_rejections := increment (dg_sync_rejections d), dg_sync_second_mismatch := increment (dg_sync_second_mismatch d)\<rparr>)"
  using assms by (auto simp: sync_rejections_ok_def unat_increment min_def)

lemma sync_step_inv:
  assumes "rx_inv r" "rx_phase r = Sync" "rx_cursor r + rx_n r \<le> length (rx_buffer r)"
  shows "rx_inv (compact (sync_step es r))"
proof (rule compact_inv [where k = "rx_cursor r"])
  let ?r = "sync_step es r"
  have inv: "valid_profile (rx_config r)" "rx_symbols r = []" "rx_expected r = 0" "funnel_ok r"
    "sync_rejections_ok (rx_diag r)" "rx_first r \<le> rx_base r + rx_cursor r"
    using assms(1,2) by (auto simp: rx_inv_def symbols_ok_def position_ok_def)
  have cfg: "rx_config ?r = rx_config r" by (simp add: sync_step_def Let_def reject_fields)
  then have n: "rx_n ?r = rx_n r" by (rule rx_n_config)
  show "symbols_ok ?r" using inv assms(2) by (simp add: symbols_ok_def sync_step_def Let_def reject_fields)
  show "funnel_ok ?r"
    using inv(4) assms(2) inv(3)
    by (auto simp: funnel_ok_def sync_step_def Let_def reject_fields intro: counter_below_up)
  show "sync_rejections_ok (rx_diag ?r)"
    using inv(5) by (auto simp: sync_step_def Let_def reject_fields rejections_up) (auto simp: sync_rejections_ok_def)
  show "valid_profile (rx_config ?r)" using inv(1) cfg by simp
  show "rx_cursor ?r \<le> rx_cursor r + 2 * rx_n ?r"
    unfolding n by (simp add: sync_step_def Let_def reject_fields rx_n_def)
  show "rx_cursor r + rx_n ?r \<le> length (rx_buffer ?r)"
    unfolding n using assms(3) by (simp add: sync_step_def Let_def reject_fields)
  show "rx_phase ?r = Search \<Longrightarrow> rx_stable ?r * rx_n ?r \<le> rx_base ?r + rx_cursor ?r"
    using assms(2) by (auto simp: sync_step_def Let_def reject_fields split: if_splits)
  show "rx_phase ?r \<noteq> Search \<Longrightarrow> rx_first ?r \<le> rx_base ?r + rx_cursor ?r"
    using inv(6) by (auto simp: sync_step_def Let_def reject_fields split: if_splits)
qed

lemma down_step_inv:
  assumes "rx_inv r" "rx_phase r = Down1 \<or> rx_phase r = Down2" "rx_cursor r + rx_n r \<le> length (rx_buffer r)"
  shows "rx_inv (compact (down_step es r))"
proof (rule compact_inv [where k = "rx_cursor r"])
  let ?r = "down_step es r"
  have inv: "valid_profile (rx_config r)" "rx_symbols r = []" "rx_expected r = 0" "funnel_ok r"
    "sync_rejections_ok (rx_diag r)" "rx_first r \<le> rx_base r + rx_cursor r"
    using assms(1,2) by (auto simp: rx_inv_def symbols_ok_def position_ok_def)
  have cfg: "rx_config ?r = rx_config r" by (simp add: down_step_def Let_def)
  then have n: "rx_n ?r = rx_n r" by (rule rx_n_config)
  show "symbols_ok ?r" using inv assms(2) by (auto simp: symbols_ok_def down_step_def Let_def)
  show "funnel_ok ?r"
    using inv(4) assms(2) inv(3)
    by (auto simp: funnel_ok_def down_step_def Let_def intro: counter_below_up)
  show "sync_rejections_ok (rx_diag ?r)" using inv(5) by (simp add: down_step_def Let_def)
  show "valid_profile (rx_config ?r)" using inv(1) cfg by simp
  show "rx_cursor ?r \<le> rx_cursor r + 2 * rx_n ?r"
    unfolding n by (simp add: down_step_def Let_def rx_n_def)
  show "rx_cursor r + rx_n ?r \<le> length (rx_buffer ?r)"
    unfolding n using assms(3) by (simp add: down_step_def Let_def)
  show "rx_phase ?r = Search \<Longrightarrow> rx_stable ?r * rx_n ?r \<le> rx_base ?r + rx_cursor ?r"
    using assms(2) by (auto simp: down_step_def Let_def split: if_splits)
  show "rx_phase ?r \<noteq> Search \<Longrightarrow> rx_first ?r \<le> rx_base ?r + rx_cursor ?r"
    using inv(6) by (auto simp: down_step_def Let_def split: if_splits)
qed

lemma quarter_step_inv:
  assumes "rx_inv r" "rx_phase r = Quarter" "rx_cursor r + rx_n r \<le> length (rx_buffer r)"
  shows "rx_inv (compact (quarter_step r))"
proof (rule compact_inv [where k = "rx_cursor r"])
  let ?r = "quarter_step r"
  have inv: "valid_profile (rx_config r)" "rx_symbols r = []" "rx_expected r = 0" "funnel_ok r"
    "sync_rejections_ok (rx_diag r)" "rx_first r \<le> rx_base r + rx_cursor r"
    using assms(1,2) by (auto simp: rx_inv_def symbols_ok_def position_ok_def)
  have cfg: "rx_config ?r = rx_config r" by (simp add: quarter_step_def Let_def)
  then have n: "rx_n ?r = rx_n r" by (rule rx_n_config)
  show "symbols_ok ?r" using inv assms(2) by (auto simp: symbols_ok_def quarter_step_def Let_def)
  show "funnel_ok ?r"
    using inv(4) assms(2) inv(3)
    by (auto simp: funnel_ok_def quarter_step_def Let_def intro: counter_below_up)
  show "sync_rejections_ok (rx_diag ?r)" using inv(5) by (simp add: quarter_step_def Let_def)
  show "valid_profile (rx_config ?r)" using inv(1) cfg by simp
  show "rx_cursor ?r \<le> rx_cursor r + 2 * rx_n ?r"
    unfolding n by (auto simp: quarter_step_def Let_def)
  show "rx_cursor r + rx_n ?r \<le> length (rx_buffer ?r)"
    unfolding n using assms(3) by (simp add: quarter_step_def Let_def)
  show "rx_phase ?r = Search \<Longrightarrow> rx_stable ?r * rx_n ?r \<le> rx_base ?r + rx_cursor ?r"
    using assms(2) by (auto simp: quarter_step_def Let_def split: if_splits)
  show "rx_phase ?r \<noteq> Search \<Longrightarrow> rx_first ?r \<le> rx_base ?r + rx_cursor ?r"
    using inv(6) by (auto simp: quarter_step_def Let_def split: if_splits)
qed


lemma header_symbols_bound:
  assumes "7 \<le> sf" "len \<le> 255" "p \<le> 4"
  shows "header_symbols sf bw len crc p \<le> 1024"
proof -
  let ?pw = "payload_width sf bw"
  let ?k = "(let nibbles = 2 * (len + (if crc then 2 else 0)); carried = sf - 7 in
    if nibbles > carried then nibbles - carried else 0)"
  have pw: "5 \<le> ?pw" using assms(1) by (auto simp: payload_width_def)
  have "?k \<le> 514" using assms(2) by (auto simp: Let_def)
  then have "?k + ?pw - 1 \<le> 514 + (?pw - 1)" using pw by linarith
  then have "(?k + ?pw - 1) div ?pw \<le> (514 + (?pw - 1)) div ?pw" by (rule div_le_mono)
  also have "\<dots> \<le> 103"
  proof -
    have "514 + (?pw - 1) < 104 * ?pw" using pw by linarith
    then have "(514 + (?pw - 1)) div ?pw < 104" using pw by (simp add: div_less_iff_less_mult)
    then show ?thesis by simp
  qed
  finally have "(?k + ?pw - 1) div ?pw * (4 + p) \<le> 103 * 8"
    using assms(3) by (intro mult_le_mono) simp_all
  then show ?thesis by (simp add: header_symbols_def Let_def)
qed

lemma decode_header_snoc: "8 \<le> length xs \<Longrightarrow> decode_header (xs @ [b]) sf bw = decode_header xs sf bw"
  by (simp add: decode_header_def)

lemma payload_symbols:
  assumes inv: "rx_inv r" and p: "rx_phase r = Payload" and s: "s = rx_symbols r @ [word_of_nat (pk_bin (peak_of es (rx_n r) w d f k))]"
  shows "list_all (\<lambda>b. unat b < rx_n r) s" "s \<noteq> []"
proof -
  let ?b = "pk_bin (peak_of es (rx_n r) w d f k)"
  have c: "valid_profile (rx_config r)" using inv by (simp add: rx_inv_def)
  have "?b < rx_n r" by (rule peak_bin_less) simp
  moreover have "rx_n r \<le> 4096" using sf_power_bounds(1) [OF c] by (simp add: rx_n_def)
  ultimately have "unat (word_of_nat ?b :: u16) < rx_n r" by (simp add: unat_of_nat)
  then show "list_all (\<lambda>b. unat b < rx_n r) s"
    using inv by (simp add: s rx_inv_def symbols_ok_def)
qed (simp add: s)

text \<open>Enough symbols behind a checked header always decode: the frame is delivered.\<close>

lemma expected_symbols_decode:
  assumes c: "valid_profile c" and syms: "list_all (\<lambda>b. unat b < 2 ^ pc_sf c) s"
    and h: "hdr_valid (decode_header s (pc_sf c) (pc_bandwidth c))"
    and len: "length s = hdr_symbols (decode_header s (pc_sf c) (pc_bandwidth c))"
  shows "\<exists>f. decode_lora_symbols s c = Inr (Some f)"
proof -
  have "bins_readable s c" using h len syms by (simp add: bins_readable_def Let_def)
  then show ?thesis using decode_lora_symbols_cases [OF c, of s] by (auto simp: Let_def)
qed

lemma decode_header_bounds:
  assumes "hdr_valid (decode_header s sf bw)"
  shows "8 \<le> hdr_symbols (decode_header s sf bw)" "hdr_symbols (decode_header s sf bw) \<le> 1024"
  using decode_header_valid [OF assms] decode_header_length [OF assms] header_symbols_bound [of sf]
  by (auto simp: header_symbols_def Let_def)

definition payload_received :: "'a estimator \<Rightarrow> 'a receiver \<Rightarrow> 'a receiver" where
  "payload_received es r = advance (rx_n r) (r\<lparr>rx_symbols := rx_symbols r @
     [word_of_nat (pk_bin (peak_of es (rx_n r) (window r (rx_cursor r)) False (rx_cfo_fraction r) (rx_cfo_int r)))]\<rparr>)"

lemma payload_received_fields:
  "rx_config (payload_received es r) = rx_config r" "rx_diag (payload_received es r) = rx_diag r"
  "rx_buffer (payload_received es r) = rx_buffer r" "rx_base (payload_received es r) = rx_base r"
  "rx_first (payload_received es r) = rx_first r" "rx_cursor (payload_received es r) = rx_cursor r + rx_n r"
  "rx_phase (payload_received es r) = rx_phase r" "rx_expected (payload_received es r) = rx_expected r"
  "rx_n (payload_received es r) = rx_n r" "length (rx_symbols (payload_received es r)) = length (rx_symbols r) + 1"
  by (simp_all add: payload_received_def rx_n_def)

text \<open>The four outcomes of a payload round.\<close>

lemma payload_step_cases:
  assumes inv: "rx_inv r" and p: "rx_phase r = Payload"
  shows "let r1 = payload_received es r; c = rx_config r;
      h = decode_header (rx_symbols r1) (pc_sf c) (pc_bandwidth c) in
    (\<exists>f. payload_step es r = (restart (count_up f r1), None, True) \<and>
       f = (\<lambda>d. d\<lparr>dg_headers_failed := increment (dg_headers_failed d)\<rparr>) \<and> \<not> hdr_valid h) \<or>
    (payload_step es r = (r1, None, False) \<and> length (rx_symbols r1) \<noteq> 8 \<and>
       (rx_expected r = 0 \<or> length (rx_symbols r1) < rx_expected r)) \<or>
    (payload_step es r = ((count_up (\<lambda>d. d\<lparr>dg_headers_valid := increment (dg_headers_valid d)\<rparr>) r1)
         \<lparr>rx_expected := hdr_symbols h\<rparr>, None, False) \<and>
       rx_expected r = 0 \<and> hdr_valid h \<and> length (rx_symbols r1) = 8 \<and> 8 < hdr_symbols h) \<or>
    (\<exists>f r2. payload_step es r =
         (restart (count_up (\<lambda>d. d\<lparr>dg_completed_frames := increment (dg_completed_frames d)\<rparr>) r2),
          Some (f\<lparr>pf_first_sample := rx_first r, pf_last_sample := rx_base r + rx_cursor r1\<rparr>), False) \<and>
       decode_lora_symbols (rx_symbols r1) c = Inr (Some f) \<and> hdr_valid h \<and>
       (if rx_expected r = 0 then r2 = (count_up (\<lambda>d. d\<lparr>dg_headers_valid := increment (dg_headers_valid d)\<rparr>) r1)
          \<lparr>rx_expected := hdr_symbols h\<rparr> else r2 = r1))"
proof -
  let ?r1 = "payload_received es r" and ?c = "rx_config r"
  let ?s = "rx_symbols ?r1"
  let ?hh = "decode_header ?s (pc_sf ?c) (pc_bandwidth ?c)"
  have c: "valid_profile ?c" using inv by (simp add: rx_inv_def)
  have range: "list_all (\<lambda>b. unat b < 2 ^ pc_sf ?c) ?s"
    using payload_symbols(1) [OF inv p refl] by (simp add: payload_received_def rx_n_def)
  have step: "payload_step es r = (let r1 = ?r1; h = ?hh in
      if length (rx_symbols r1) = 8 \<and> \<not> hdr_valid h then
        (restart (count_up (\<lambda>d. d\<lparr>dg_headers_failed := increment (dg_headers_failed d)\<rparr>) r1), None, True)
      else let r2 = (if length (rx_symbols r1) = 8
             then (count_up (\<lambda>d. d\<lparr>dg_headers_valid := increment (dg_headers_valid d)\<rparr>) r1)\<lparr>rx_expected := hdr_symbols h\<rparr>
             else r1);
           (r3, frame) = (if rx_expected r2 \<noteq> 0 \<and> length (rx_symbols r2) = rx_expected r2
             then (case decode_lora_symbols (rx_symbols r2) ?c of
                Inr (Some f) \<Rightarrow>
                  (restart (count_up (\<lambda>d. d\<lparr>dg_completed_frames := increment (dg_completed_frames d)\<rparr>) r2),
                   Some (f\<lparr>pf_first_sample := rx_first r2, pf_last_sample := rx_base r2 + rx_cursor r2\<rparr>))
              | _ \<Rightarrow> (restart r2, None))
             else (r2, None))
           in (if length (rx_symbols r3) > 1024 then restart r3 else r3, frame, False))"
    by (simp only: payload_step_def payload_received_def Let_def)
  show ?thesis
  proof (cases "length ?s = 8")
    case True
    then have e0: "rx_expected r = 0"
      using inv p by (auto simp: rx_inv_def symbols_ok_def payload_received_fields split: if_splits)
    show ?thesis
    proof (cases "hdr_valid ?hh")
      case False
      then show ?thesis using True by (simp add: step Let_def)
    next
      case v: True
      note b = decode_header_bounds [OF v]
      show ?thesis
      proof (cases "hdr_symbols ?hh = 8")
        case True
        then obtain f where f: "decode_lora_symbols ?s ?c = Inr (Some f)"
          using expected_symbols_decode [OF c range v] \<open>length ?s = 8\<close> by auto
        show ?thesis
          using True v e0 f \<open>length ?s = 8\<close> by (auto simp: step Let_def payload_received_fields(1-9))
      next
        case False
        then show ?thesis
          using v e0 b \<open>length ?s = 8\<close> by (simp add: step Let_def)
      qed
    qed
  next
    case False
    show ?thesis
    proof (cases "rx_expected r \<noteq> 0 \<and> length ?s = rx_expected r")
      case True
      then have old: "8 \<le> length (rx_symbols r)"
        "hdr_valid (decode_header (rx_symbols r) (pc_sf ?c) (pc_bandwidth ?c))"
        "hdr_symbols (decode_header (rx_symbols r) (pc_sf ?c) (pc_bandwidth ?c)) = rx_expected r"
        using inv p by (auto simp: rx_inv_def symbols_ok_def)
      then have h: "hdr_valid ?hh" "hdr_symbols ?hh = rx_expected r"
        by (simp_all add: payload_received_def decode_header_snoc)
      then obtain f where f: "decode_lora_symbols ?s ?c = Inr (Some f)"
        using expected_symbols_decode [OF c range h(1)] True by auto
      show ?thesis
        using False True h f by (auto simp: step Let_def payload_received_fields(1-9))
    next
      case other: False
      have "length ?s \<le> 1024 \<and> (rx_expected r = 0 \<or> length ?s < rx_expected r)"
      proof (cases "rx_expected r = 0")
        case True
        then show ?thesis using inv p by (auto simp: rx_inv_def symbols_ok_def payload_received_fields)
      next
        case nz: False
        then have "length (rx_symbols r) < rx_expected r" "rx_expected r \<le> 1024"
          using inv p decode_header_bounds(2) [of "rx_symbols r" "pc_sf ?c" "pc_bandwidth ?c"]
          by (auto simp: rx_inv_def symbols_ok_def)
        then show ?thesis using other nz by (auto simp: payload_received_fields)
      qed
      then show ?thesis
        using False other by (auto simp: step Let_def payload_received_fields(1-9))
    qed
  qed
qed

lemma payload_step_inv:
  assumes inv: "rx_inv r" and p: "rx_phase r = Payload" and len: "rx_cursor r + rx_n r \<le> length (rx_buffer r)"
    and st: "payload_step es r = (r', frame, skip)"
  shows "rx_inv (if skip then r' else compact r')"
    "frame = Some f \<Longrightarrow> frame_ok (rx_base r + length (rx_buffer r)) f"
    "rx_base r' + length (rx_buffer r') = rx_base r + length (rx_buffer r)" "rx_buffer r' = rx_buffer r"
    "rx_config r' = rx_config r"
proof -
  let ?r1 = "payload_received es r" and ?c = "rx_config r"
  let ?h = "decode_header (rx_symbols ?r1) (pc_sf ?c) (pc_bandwidth ?c)"
  note flds = payload_received_fields
  have c: "valid_profile ?c" "funnel_ok r" "sync_rejections_ok (rx_diag r)" "rx_first r \<le> rx_base r + rx_cursor r"
    "rx_cursor r \<le> 4 * rx_n r"
    using inv p by (auto simp: rx_inv_def position_ok_def)
  have syms: "list_all (\<lambda>b. unat b < rx_n r) (rx_symbols ?r1)"
    using payload_symbols(1) [OF inv p refl] by (simp add: payload_received_def)
  have funnel: "funnel_ok (restart ?r1)"
    "funnel_ok (restart (count_up (\<lambda>d. d\<lparr>dg_headers_failed := increment (dg_headers_failed d)\<rparr>) ?r1))"
    using c(2) p by (auto simp: funnel_ok_def flds intro: counter_below_up)
  have fin: "rx_inv (compact (restart r2))" if "rx_config r2 = ?c" "rx_buffer r2 = rx_buffer r"
    "rx_cursor r2 = rx_cursor r + rx_n r" "rx_n r2 = rx_n r" "funnel_ok (restart r2)" "sync_rejections_ok (rx_diag r2)" for r2 :: "'a receiver"
    by (rule compact_inv [where k = "rx_cursor r"]) (use that len c(1) in \<open>simp_all add: symbols_ok_def\<close>)
  let ?failed = "restart (count_up (\<lambda>d. d\<lparr>dg_headers_failed := increment (dg_headers_failed d)\<rparr>) ?r1)"
  let ?ok = "(count_up (\<lambda>d. d\<lparr>dg_headers_valid := increment (dg_headers_valid d)\<rparr>) ?r1)\<lparr>rx_expected := hdr_symbols ?h\<rparr>"
  let ?complete = "\<lambda>r2. restart (count_up (\<lambda>d. d\<lparr>dg_completed_frames := increment (dg_completed_frames d)\<rparr>) r2)"
  consider (failed) "r' = ?failed" "frame = None" "skip"
    | (more) "r' = ?r1" "frame = None" "\<not> skip" "length (rx_symbols ?r1) \<noteq> 8"
        "rx_expected r = 0 \<or> length (rx_symbols ?r1) < rx_expected r"
    | (header) "r' = ?ok" "frame = None" "\<not> skip" "rx_expected r = 0" "hdr_valid ?h"
        "length (rx_symbols ?r1) = 8" "8 < hdr_symbols ?h"
    | (frame) g r2 where "r' = ?complete r2" "\<not> skip"
        "frame = Some (g\<lparr>pf_first_sample := rx_first r, pf_last_sample := rx_base r + rx_cursor ?r1\<rparr>)"
        "decode_lora_symbols (rx_symbols ?r1) ?c = Inr (Some g)"
        "if rx_expected r = 0 then r2 = ?ok else r2 = ?r1"
    using payload_step_cases [OF inv p, of es] st unfolding Let_def by auto
  then have "rx_inv (if skip then r' else compact r') \<and>
    (frame = Some f \<longrightarrow> frame_ok (rx_base r + length (rx_buffer r)) f) \<and>
    rx_base r' = rx_base r \<and> rx_buffer r' = rx_buffer r \<and> rx_config r' = rx_config r"
  proof cases
    case failed
    have "rx_inv ?failed"
      using funnel(2) c by (simp add: rx_inv_def position_ok_def symbols_ok_def flds sync_rejections_ok_def)
    then show ?thesis using failed by (simp add: flds)
  next
    case more
    have "rx_inv (compact ?r1)"
    proof (rule compact_inv [where k = "rx_cursor r"])
      have "rx_expected r \<noteq> 0 \<Longrightarrow> decode_header (rx_symbols ?r1) sf bw = decode_header (rx_symbols r) sf bw" for sf bw
        using inv p by (simp add: rx_inv_def symbols_ok_def payload_received_def decode_header_snoc)
      then show "symbols_ok ?r1"
        using inv p more syms by (auto simp: symbols_ok_def flds rx_inv_def split: if_splits)
      show "funnel_ok ?r1" using c(2) p by (simp add: funnel_ok_def flds)
    qed (use c len p in \<open>simp_all add: flds\<close>)
    then show ?thesis using more by (simp add: flds)
  next
    case header
    have "rx_inv (compact ?ok)"
    proof (rule compact_inv [where k = "rx_cursor r"])
      show "symbols_ok ?ok"
        using header syms p by (simp add: symbols_ok_def flds rx_n_def)
      show "funnel_ok ?ok"
        using c(2) p header by (auto simp: funnel_ok_def flds intro: counter_below_up)
    qed (use c len p in \<open>simp_all add: flds rx_n_def sync_rejections_ok_def\<close>)
    then show ?thesis using header by (simp add: flds)
  next
    case frame
    have r2: "rx_config r2 = ?c" "rx_buffer r2 = rx_buffer r" "rx_cursor r2 = rx_cursor r + rx_n r"
      "rx_n r2 = rx_n r" "rx_base r2 = rx_base r" "sync_rejections_ok (rx_diag r2)"
      using frame(5) c(3) by (auto simp: flds rx_n_def sync_rejections_ok_def split: if_splits)
    have "funnel_ok (?complete r2)"
      using c(2) p frame(5)
      by (cases "rx_expected r = 0") (auto simp: funnel_ok_def flds intro: counter_below_up)
    then have "rx_inv (compact (?complete r2))"
      using fin [of "count_up (\<lambda>d. d\<lparr>dg_completed_frames := increment (dg_completed_frames d)\<rparr>) r2"] r2
      by (simp add: sync_rejections_ok_def)
    moreover have "frame_ok (rx_base r + length (rx_buffer r)) f" if "frame = Some f"
      using that frame(3) decode_lora_symbols_frame [OF frame(4)] c(4) len
      by (auto simp: frame_ok_def flds)
    ultimately show ?thesis using frame r2 by simp
  qed
  then show "rx_inv (if skip then r' else compact r')"
    "frame = Some f \<Longrightarrow> frame_ok (rx_base r + length (rx_buffer r)) f"
    "rx_base r' + length (rx_buffer r') = rx_base r + length (rx_buffer r)" "rx_buffer r' = rx_buffer r"
    "rx_config r' = rx_config r" by simp_all
qed

lemma rx_step_inv:
  assumes inv: "rx_inv r" and len: "rx_cursor r + rx_n r \<le> length (rx_buffer r)"
    and st: "rx_step es r = (r', frame)"
  shows "rx_inv r'" "frame = Some f \<Longrightarrow> frame_ok (rx_base r + length (rx_buffer r)) f"
    "rx_base r' + length (rx_buffer r') = rx_base r + length (rx_buffer r)"
    "length (rx_buffer r') \<le> length (rx_buffer r)" "rx_config r' = rx_config r"
proof -
  have shorter: "length (rx_buffer (compact q)) \<le> length (rx_buffer q)" for q :: "'a receiver"
    by (simp add: compact_def Let_def)
  have bufs: "rx_base (search_step es r) = rx_base r" "rx_buffer (search_step es r) = rx_buffer r"
    "rx_base (sync_step es r) = rx_base r" "rx_buffer (sync_step es r) = rx_buffer r"
    "rx_base (down_step es r) = rx_base r" "rx_buffer (down_step es r) = rx_buffer r"
    "rx_base (quarter_step r) = rx_base r" "rx_buffer (quarter_step r) = rx_buffer r"
    "rx_config (search_step es r) = rx_config r" "rx_config (sync_step es r) = rx_config r"
    "rx_config (down_step es r) = rx_config r" "rx_config (quarter_step r) = rx_config r"
    by (simp_all add: search_step_def sync_step_def down_step_def quarter_step_def Let_def reject_fields)
  have "rx_inv r' \<and> (frame = Some f \<longrightarrow> frame_ok (rx_base r + length (rx_buffer r)) f) \<and>
    rx_base r' + length (rx_buffer r') = rx_base r + length (rx_buffer r) \<and>
    length (rx_buffer r') \<le> length (rx_buffer r) \<and> rx_config r' = rx_config r"
  proof (cases "rx_phase r = Payload")
    case True
    obtain q g skip where q: "payload_step es r = (q, g, skip)" by (metis prod_cases3)
    then have r': "r' = (if skip then q else compact q)" "frame = g" using st True by (auto simp: rx_step_def)
    note pi = payload_step_inv [OF inv True len q]
    show ?thesis
      using pi(1) pi(2) [of f] pi(3-5) shorter [of q] compact_base [of q] unfolding r' by auto
  next
    case False
    have "frame = None \<and> r' = compact (case rx_phase r of Search \<Rightarrow> search_step es r | Sync \<Rightarrow> sync_step es r
        | Quarter \<Rightarrow> quarter_step r | _ \<Rightarrow> down_step es r)"
      using st False by (cases "rx_phase r") (auto simp: rx_step_def)
    moreover have "rx_inv r'"
      using st False search_step_inv [OF inv _ len] sync_step_inv [OF inv _ len] down_step_inv [OF inv _ len]
        quarter_step_inv [OF inv _ len]
      by (cases "rx_phase r") (auto simp: rx_step_def)
    ultimately show ?thesis
      using False bufs compact_base shorter
      by (cases "rx_phase r") (simp_all add: compact_base, metis+)
  qed
  then show "rx_inv r'" "frame = Some f \<Longrightarrow> frame_ok (rx_base r + length (rx_buffer r)) f"
    "rx_base r' + length (rx_buffer r') = rx_base r + length (rx_buffer r)"
    "length (rx_buffer r') \<le> length (rx_buffer r)" "rx_config r' = rx_config r" by simp_all
qed

text \<open>After \<open>process\<close> less than one symbol is unread, and the buffer is short.\<close>

lemma process_inv:
  assumes "rx_inv r" "process es r = (r', frames)"
  shows "rx_inv r' \<and> list_all (frame_ok (rx_base r + length (rx_buffer r))) frames \<and>
    rx_base r' + length (rx_buffer r') = rx_base r + length (rx_buffer r) \<and>
    length (rx_buffer r') < rx_cursor r' + rx_n r' \<and> rx_config r' = rx_config r"
  using assms
proof (induction es r arbitrary: r' frames rule: process.induct)
  case (1 es r)
  show ?case
  proof (cases "rx_cursor r + rx_n r \<le> length (rx_buffer r)")
    case False
    then show ?thesis using 1(2,3) by (subst (asm) process.simps) auto
  next
    case True
    obtain r1 g where s: "rx_step es r = (r1, g)" by fastforce
    obtain r2 fs where p: "process es r1 = (r2, fs)" by fastforce
    have r': "r' = r2" "frames = (case g of None \<Rightarrow> fs | Some f \<Rightarrow> f # fs)"
      using 1(3) True s p by (subst (asm) process.simps, simp)+
    note step = rx_step_inv [OF 1(2) True s]
    note rest = 1(1) [OF True s [symmetric] step(1) p]
    show ?thesis
      using rest step(2) step(3) step(5) unfolding r' by (cases g) auto
  qed
qed

lemma rx_inv_small_buffer:
  assumes "rx_inv r" "length (rx_buffer r) < rx_cursor r + rx_n r"
  shows "length (rx_buffer r) < 6 * rx_n r"
  using assms by (auto simp: rx_inv_def position_ok_def split: if_splits)

lemma rx_reset_inv: "rx_inv r \<Longrightarrow> rx_inv (rx_reset r)"
  by (auto simp: rx_inv_def position_ok_def symbols_ok_def funnel_ok_def rx_reset_def restart_def rx_n_def
      intro: counter_below_up)

lemma push_sample_inv:
  assumes "rx_inv r"
  shows "rx_inv (push_sample es v r)" "rx_n (push_sample es v r) = rx_n r"
    "length (rx_buffer (push_sample es v r)) \<le> length (rx_buffer r) + 1"
    "rx_base (push_sample es v r) + length (rx_buffer (push_sample es v r)) \<le> rx_base r + length (rx_buffer r) + 1"
proof -
  have r: "rx_inv (rx_reset r)" by (rule rx_reset_inv [OF assms])
  have buf: "rx_inv (q\<lparr>rx_buffer := b\<rparr>) \<longleftrightarrow> rx_inv q" for q :: "'a receiver" and b
    by (simp add: rx_inv_def position_ok_def symbols_ok_def funnel_ok_def rx_n_def)
  show "rx_inv (push_sample es v r)" using assms r by (simp add: push_sample_def buf)
  show "rx_n (push_sample es v r) = rx_n r"
    by (simp add: push_sample_def rx_reset_def rx_n_def)
  show "length (rx_buffer (push_sample es v r)) \<le> length (rx_buffer r) + 1"
    "rx_base (push_sample es v r) + length (rx_buffer (push_sample es v r)) \<le> rx_base r + length (rx_buffer r) + 1"
    by (simp_all add: push_sample_def rx_reset_def)
qed

lemma push_samples_inv:
  "rx_inv r \<Longrightarrow> rx_inv (fold (push_sample es) vs r) \<and> rx_n (fold (push_sample es) vs r) = rx_n r \<and>
    length (rx_buffer (fold (push_sample es) vs r)) \<le> length (rx_buffer r) + length vs \<and>
    rx_base (fold (push_sample es) vs r) + length (rx_buffer (fold (push_sample es) vs r)) \<le>
      rx_base r + length (rx_buffer r) + length vs"
proof (induction vs arbitrary: r)
  case (Cons v vs)
  note ps = push_sample_inv [OF Cons.prems, of es v]
  from Cons.IH [OF ps(1)] ps(2-4) show ?case by auto
qed simp

text \<open>The states between two calls, and the bound on what \<open>feed\<close> keeps in memory.\<close>

definition rx_idle :: "'a receiver \<Rightarrow> bool" where
  "rx_idle r \<longleftrightarrow> rx_inv r \<and> length (rx_buffer r) < 6 * rx_n r"

lemma feed_inv:
  assumes "rx_idle r" "feed es samples r = (r', frames)"
  shows "rx_idle r' \<and> list_all (frame_ok (rx_base r + length (rx_buffer r) + length samples)) frames \<and>
    rx_base r' + length (rx_buffer r') \<le> rx_base r + length (rx_buffer r) + length samples"
  using assms
proof (induction es samples r arbitrary: r' frames rule: feed.induct)
  case (1 es samples r)
  show ?case
  proof (cases "samples = []")
    case True
    then show ?thesis using 1(2,3) by (subst (asm) feed.simps) auto
  next
    case False
    define count where "count = min (rx_n r) (length samples)"
    define r1 where "r1 = fold (push_sample es) (take count samples) r"
    obtain r2 fs where p: "process es r1 = (r2, fs)" by fastforce
    obtain r3 fs' where f: "feed es (drop count samples) r2 = (r3, fs')" by fastforce
    have r': "r' = r3" "frames = fs @ fs'"
      using 1(3) False p f by (subst (asm) feed.simps, simp add: Let_def count_def [symmetric] r1_def [symmetric])+
    have inv: "rx_inv r" using 1(2) by (simp add: rx_idle_def)
    have i1: "rx_inv r1" "rx_base r1 + length (rx_buffer r1) \<le> rx_base r + length (rx_buffer r) + count"
      using push_samples_inv [OF inv, of es "take count samples"] by (auto simp: r1_def count_def)
    have i2: "rx_inv r2" "list_all (frame_ok (rx_base r1 + length (rx_buffer r1))) fs"
      "rx_base r2 + length (rx_buffer r2) = rx_base r1 + length (rx_buffer r1)" "length (rx_buffer r2) < rx_cursor r2 + rx_n r2"
      using process_inv [OF i1(1) p] by auto
    have idle: "rx_idle r2" using i2(1) rx_inv_small_buffer [OF i2(1,4)] by (simp add: rx_idle_def)
    have i3: "rx_idle r3" "list_all (frame_ok (rx_base r2 + length (rx_buffer r2) + length (drop count samples))) fs'"
      "rx_base r3 + length (rx_buffer r3) \<le> rx_base r2 + length (rx_buffer r2) + length (drop count samples)"
      using 1(1) [OF False count_def r1_def p [symmetric] idle f] by auto
    have count: "count \<le> length samples" by (simp add: count_def)
    have grow: "frame_ok a g \<Longrightarrow> a \<le> b \<Longrightarrow> frame_ok b g" for a b g by (auto simp: frame_ok_def)
    let ?all = "rx_base r + length (rx_buffer r) + length samples"
    have "rx_base r1 + length (rx_buffer r1) \<le> ?all" using i1(2) count by simp
    then have "list_all (frame_ok ?all) fs" using i2(2) grow by (auto simp: list_all_iff)
    moreover have "rx_base r2 + length (rx_buffer r2) + length (drop count samples) \<le> ?all"
      using i1(2) i2(3) count by simp
    then have "list_all (frame_ok ?all) fs'" "rx_base r3 + length (rx_buffer r3) \<le> ?all"
      using i3(2,3) grow by (auto simp: list_all_iff)
    ultimately show ?thesis using i3(1) r' by simp
  qed
qed

section \<open>Properties\<close>

text \<open>A client's calls on one receiver, with all frames delivered.\<close>

datatype 'a rx_call = Feed "'a list" | Reset

fun rx_run :: "'a estimator \<Rightarrow> 'a rx_call list \<Rightarrow> 'a receiver \<Rightarrow> 'a receiver \<times> phy_frame list" where
  "rx_run es [] r = (r, [])"
| "rx_run es (Feed samples # calls) r =
     (case feed es samples r of (r1, fs) \<Rightarrow> (case rx_run es calls r1 of (r2, fs') \<Rightarrow> (r2, fs @ fs')))"
| "rx_run es (Reset # calls) r = rx_run es calls (rx_reset r)"

definition samples_fed :: "'a rx_call list \<Rightarrow> nat" where
  "samples_fed calls = sum_list (map (\<lambda>c. case c of Feed s \<Rightarrow> length s | Reset \<Rightarrow> 0) calls)"

lemma rx_run_inv:
  "rx_idle r \<Longrightarrow> rx_base r + length (rx_buffer r) \<le> t \<Longrightarrow> rx_run es calls r = (r', frames) \<Longrightarrow>
    rx_idle r' \<and> list_all (frame_ok (t + samples_fed calls)) frames"
proof (induction es calls r arbitrary: t r' frames rule: rx_run.induct)
  case (1 es r)
  then show ?case by (simp add: samples_fed_def)
next
  case (2 es samples calls r)
  obtain r1 fs where f: "feed es samples r = (r1, fs)" by fastforce
  obtain r2 fs' where g: "rx_run es calls r1 = (r2, fs')" by fastforce
  have r': "r' = r2" "frames = fs @ fs'" using 2(4) f g by simp_all
  note fi = feed_inv [OF 2(2) f]
  have IH: "rx_idle r2 \<and> list_all (frame_ok (t + length samples + samples_fed calls)) fs'"
    using 2(1) [OF f [symmetric] _ _ g, of "t + length samples"] fi 2(3) by simp
  have grow: "frame_ok a h \<Longrightarrow> a \<le> b \<Longrightarrow> frame_ok b h" for a b h by (auto simp: frame_ok_def)
  have all: "t + samples_fed (Feed samples # calls) = t + length samples + samples_fed calls"
    by (simp add: samples_fed_def)
  have "list_all (frame_ok (t + samples_fed (Feed samples # calls))) fs"
    using fi 2(3) grow unfolding all by (fastforce simp: list_all_iff)
  then show ?case using IH unfolding r' all by simp
next
  case (3 es calls r)
  have "rx_idle (rx_reset r)"
    using 3(2) rx_reset_inv [of r] by (auto simp: rx_idle_def rx_reset_def)
  moreover have "rx_base (rx_reset r) + length (rx_buffer (rx_reset r)) \<le> t" by (simp add: rx_reset_def)
  ultimately show ?case using 3(1) [of t r' frames] 3(4) by (simp add: samples_fed_def)
qed

lemma new_receiver_idle:
  assumes "new_receiver c = Inr r"
  shows "rx_idle r" "rx_base r + length (rx_buffer r) = 0" "rx_config r = c"
  using assms
  by (auto simp: new_receiver_def result_simps rx_idle_def rx_inv_def position_ok_def symbols_ok_def
      funnel_ok_def sync_rejections_ok_def counter_below_def)

definition example_estimator :: "rat estimator" where
  "example_estimator = \<lparr>es_power = (\<lambda>w d f k i. w ! i), es_ratio = (\<lambda>w d f k. Some 1),
     es_fraction = (\<lambda>a b. 0), es_finite = (\<lambda>_. True), es_zero = 0\<rparr>"

text \<open>A round leaves the cursor at most one symbol behind the samples received.\<close>

lemma search_step_ahead: "rx_gap r - 2 * int (rx_n r) \<le> rx_gap (search_step es r)"
proof -
  let ?p = "peak_of es (rx_n r) (window r (rx_cursor r)) False 0 0"
  have pos: "0 < int (rx_n r)" by simp
  then have "wrap (- int (pk_bin ?p)) (int (rx_n r)) < int (rx_n r)"
    unfolding wrap_eq [OF pos] by (rule pos_mod_bound)
  then have "int (nat (wrap (- int (pk_bin ?p)) (int (rx_n r)))) \<le> int (rx_n r)" using pos by simp
  then show ?thesis by (simp add: search_step_def Let_def rx_gap_def)
qed

lemma quarter_step_ahead: "rx_gap r - int (rx_n r) \<le> rx_gap (quarter_step r)"
  by (auto simp: quarter_step_def Let_def rx_gap_def)

lemma rx_step_ahead:
  assumes "rx_step es r = (r', frame)" "rx_cursor r + rx_n r \<le> length (rx_buffer r)"
  shows "- int (rx_n r) \<le> rx_gap r'"
proof -
  have g: "int (rx_n r) \<le> rx_gap r" using assms(2) by (simp add: rx_gap_def)
  have "rx_gap r - 2 * int (rx_n r) \<le> rx_gap r'"
    using assms(1) search_step_ahead [of r es] sync_step_gap [of es r] down_step_gap [of es r] quarter_step_ahead [of r]
      payload_step_gap [of es r]
    by (cases "rx_phase r") (auto simp: rx_step_def compact_gap split: prod.splits if_splits)
  then show ?thesis using g by linarith
qed

lemma process_ahead:
  assumes "rx_inv r" "- int (rx_n r) \<le> rx_gap r" "process es r = (r', frames)"
  shows "- int (rx_n r') \<le> rx_gap r'"
  using assms
proof (induction es r arbitrary: r' frames rule: process.induct)
  case (1 es r)
  show ?case
  proof (cases "rx_cursor r + rx_n r \<le> length (rx_buffer r)")
    case False
    then show ?thesis using 1(2-4) by (subst (asm) process.simps) auto
  next
    case True
    obtain r1 g where s: "rx_step es r = (r1, g)" by fastforce
    obtain r2 fs where p: "process es r1 = (r2, fs)" by fastforce
    have r': "r' = r2" using 1(4) True s p by (subst (asm) process.simps, simp)
    note step = rx_step_inv [OF 1(2) True s]
    have "- int (rx_n r1) \<le> rx_gap r1"
      using rx_step_ahead [OF s True] rx_n_config [OF step(5)] by simp
    then show ?thesis using 1(1) [OF True s [symmetric] step(1) _ p] r' by simp
  qed
qed

lemma push_sample_ahead:
  assumes "- int (rx_n r) \<le> rx_gap r"
  shows "- int (rx_n r) \<le> rx_gap (push_sample es v r)"
  using assms by (simp add: push_sample_def rx_gap_def rx_reset_def)

lemma push_samples_ahead:
  "rx_inv r \<Longrightarrow> - int (rx_n r) \<le> rx_gap r \<Longrightarrow> - int (rx_n r) \<le> rx_gap (fold (push_sample es) vs r)"
proof (induction vs arbitrary: r)
  case (Cons v vs)
  then show ?case
    using push_sample_inv [OF Cons.prems(1), of es v] push_sample_ahead [OF Cons.prems(2), of es v]
      Cons.IH [of "push_sample es v r"] by simp
qed simp

lemma feed_ahead:
  assumes "rx_inv r" "- int (rx_n r) \<le> rx_gap r" "feed es samples r = (r', frames)"
  shows "rx_inv r' \<and> - int (rx_n r') \<le> rx_gap r'"
  using assms
proof (induction es samples r arbitrary: r' frames rule: feed.induct)
  case (1 es samples r)
  show ?case
  proof (cases "samples = []")
    case True
    then show ?thesis using 1(2-4) by (subst (asm) feed.simps) auto
  next
    case False
    define count where "count = min (rx_n r) (length samples)"
    define r1 where "r1 = fold (push_sample es) (take count samples) r"
    obtain r2 fs where p: "process es r1 = (r2, fs)" by fastforce
    obtain r3 fs' where f: "feed es (drop count samples) r2 = (r3, fs')" by fastforce
    have r': "r' = r3"
      using 1(4) False p f by (subst (asm) feed.simps, simp add: Let_def count_def [symmetric] r1_def [symmetric])
    have i1: "rx_inv r1" "- int (rx_n r1) \<le> rx_gap r1"
      using push_samples_inv [OF 1(2), of es "take count samples"] push_samples_ahead [OF 1(2,3), of es "take count samples"]
      by (simp_all add: r1_def)
    have "rx_inv r2" using process_inv [OF i1(1) p] by blast
    then show ?thesis
      using 1(1) [OF False count_def r1_def p [symmetric] _ process_ahead [OF i1 p] f] r' by simp
  qed
qed

lemma rx_run_ahead:
  "rx_inv r \<Longrightarrow> - int (rx_n r) \<le> rx_gap r \<Longrightarrow> rx_run es calls r = (r', frames) \<Longrightarrow> - int (rx_n r') \<le> rx_gap r'"
proof (induction es calls r arbitrary: r' frames rule: rx_run.induct)
  case (2 es samples calls r)
  obtain r1 fs where f: "feed es samples r = (r1, fs)" by fastforce
  obtain r2 fs' where g: "rx_run es calls r1 = (r2, fs')" by fastforce
  then show ?case using 2(1) [OF f [symmetric] _ _ g] feed_ahead [OF 2(2,3) f] 2(4) f by simp
next
  case (3 es calls r)
  have "- int (rx_n (rx_reset r)) \<le> rx_gap (rx_reset r)" by (simp add: rx_reset_def rx_gap_def)
  then show ?case using 3(1) [of r' frames] 3(4) rx_reset_inv [OF 3(2)] by simp
qed simp

lemma rx_symbols_bound:
  assumes inv: "rx_inv r"
  shows "length (rx_symbols r) \<le> 1024"
proof (cases "rx_phase r = Payload \<and> rx_expected r \<noteq> 0")
  case True
  then have "length (rx_symbols r) < rx_expected r" "rx_expected r \<le> 1024"
    using inv decode_header_bounds(2) [of "rx_symbols r" "pc_sf (rx_config r)" "pc_bandwidth (rx_config r)"]
    by (auto simp: rx_inv_def symbols_ok_def)
  then show ?thesis by simp
next
  case False
  then show ?thesis using inv by (auto simp: rx_inv_def symbols_ok_def split: if_splits)
qed

definition counters_bounded :: "diagnostics \<Rightarrow> bool" where
  "counters_bounded d \<longleftrightarrow> dg_completed_frames d \<le> dg_headers_valid d \<and> dg_headers_valid d \<le> dg_sync_matches d \<and>
     dg_sync_matches d \<le> dg_preamble_candidates d \<and>
     unat (dg_sync_rejections d) = min (2 ^ 64 - 1) (unat (dg_sync_low_ratio d) + unat (dg_sync_timeout d) +
       unat (dg_sync_first_mismatch d) + unat (dg_sync_second_mismatch d))"

text \<open>
  C20: bounded memory and well-formed output. Whatever is fed to a new receiver, in calls of
  any size and with resets anywhere, it then holds fewer than six symbols of samples, so
  that no slice fills more than seven of the twelve it reserves, and at most 1024 payload
  symbols; its cursor is at most five symbols into the buffer and one symbol behind its end;
  its counters saturate together: no more frames than headers, headers than synchronisations,
  synchronisations than preambles, and the rejections are the sum of their reasons; every frame
  it delivered has a valid header, 1 to 255 bytes, a coding rate of 5 to 8, and sample positions
  in order within the samples fed.
\<close>

theorem receiver_bounded:
  assumes "new_receiver c = Inr r" and "rx_run es calls r = (r', frames)"
  shows "length (rx_buffer r') < 6 * rx_n r' \<and>
    (\<forall>slice. length slice \<le> rx_n r' \<longrightarrow> length (rx_buffer (fold (push_sample es) slice r')) \<le> 7 * rx_n r') \<and>
    rx_cursor r' \<le> 5 * rx_n r' \<and> rx_cursor r' \<le> length (rx_buffer r') + rx_n r' \<and>
    length (rx_symbols r') \<le> 1024 \<and> counters_bounded (rx_diag r') \<and> list_all (frame_ok (samples_fed calls)) frames"
proof -
  note new = new_receiver_idle [OF assms(1)]
  have i: "rx_idle r'" and f: "list_all (frame_ok (samples_fed calls)) frames"
    using rx_run_inv [OF new(1) _ assms(2), of 0] new(2) by auto
  have inv: "rx_inv r'" and b: "length (rx_buffer r') < 6 * rx_n r'" using i by (auto simp: rx_idle_def)
  have "length (rx_buffer (fold (push_sample es) slice r')) \<le> 7 * rx_n r'" if "length slice \<le> rx_n r'" for slice
    using push_samples_inv [OF inv, of es slice] that b by simp
  moreover have "rx_cursor r' \<le> length (rx_buffer r') + rx_n r'"
  proof -
    have "rx_inv r" "- int (rx_n r) \<le> rx_gap r"
      using assms(1) new(1) by (auto simp: rx_idle_def new_receiver_def result_simps rx_gap_def)
    from rx_run_ahead [OF this assms(2)] show ?thesis by (simp add: rx_gap_def)
  qed
  moreover have "rx_cursor r' \<le> 5 * rx_n r'" "counters_bounded (rx_diag r')"
    using inv by (auto simp: rx_inv_def position_ok_def counters_bounded_def funnel_ok_def sync_rejections_ok_def
        counter_below_def split: if_splits)
  ultimately show ?thesis using b f rx_symbols_bound [OF inv] by blast
qed

theorem receiver_bounded_witness:
  "\<exists>r r' frames. new_receiver example_profile = Inr r \<and>
    rx_run example_estimator [Feed [1, 2, 3], Reset, Feed [4]] r = (r', frames) \<and>
    length (rx_buffer r') < 6 * rx_n r'"
proof -
  have "valid_profile example_profile"
    by (simp add: valid_profile_def example_profile_def supported_lora_bandwidth_def)
  then obtain r :: "rat receiver" where r: "new_receiver example_profile = Inr r"
    by (simp add: new_receiver_def validate_phy_Inr)
  obtain r' frames where "rx_run example_estimator [Feed [1, 2, 3], Reset, Feed [4]] r = (r', frames)" by fastforce
  with r receiver_bounded [OF r this] show ?thesis by blast
qed

text \<open>
  The diagnostics tell one story. After any calls, at most as many frames are completed
  as headers checked, headers checked as sync words matched, and sync words matched as
  preambles found; and the sync rejections are the (saturating) sum of their four causes.
\<close>

theorem receiver_diagnostics:
  assumes "new_receiver c = Inr r" and "rx_run es calls r = (r', frames)"
  shows "dg_completed_frames (rx_diag r') \<le> dg_headers_valid (rx_diag r') \<and>
    dg_headers_valid (rx_diag r') \<le> dg_sync_matches (rx_diag r') \<and>
    dg_sync_matches (rx_diag r') \<le> dg_preamble_candidates (rx_diag r') \<and>
    sync_rejections_ok (rx_diag r')"
  using rx_run_inv [OF new_receiver_idle(1) [OF assms(1)] _ assms(2), of 0] new_receiver_idle(2) [OF assms(1)]
  by (auto simp: rx_idle_def rx_inv_def funnel_ok_def counter_below_def)

theorem receiver_diagnostics_witness:
  "\<exists>r r' frames. new_receiver example_profile = Inr r \<and>
    rx_run example_estimator [Feed [1, 2, 3], Reset, Feed [4]] r = (r', frames) \<and>
    dg_completed_frames (rx_diag r') \<le> dg_headers_valid (rx_diag r')"
proof -
  have "valid_profile example_profile"
    by (simp add: valid_profile_def example_profile_def supported_lora_bandwidth_def)
  then obtain r :: "rat receiver" where r: "new_receiver example_profile = Inr r"
    by (simp add: new_receiver_def validate_phy_Inr)
  obtain r' frames where "rx_run example_estimator [Feed [1, 2, 3], Reset, Feed [4]] r = (r', frames)" by fastforce
  with r receiver_diagnostics [OF r this] show ?thesis by blast
qed

text \<open>A header that was checked in an earlier round is still the header of all symbols.\<close>

lemma announced_header:
  assumes "rx_inv r" "rx_phase r = Payload" "rx_expected r \<noteq> 0"
  shows "hdr_valid (decode_header (rx_symbols (payload_received es r)) (pc_sf (rx_config r)) (pc_bandwidth (rx_config r)))"
    "hdr_symbols (decode_header (rx_symbols (payload_received es r)) (pc_sf (rx_config r)) (pc_bandwidth (rx_config r))) = rx_expected r"
  using assms by (simp_all add: rx_inv_def symbols_ok_def payload_received_def decode_header_snoc)

text \<open>
  C36: a checked header is never lost. In every state reached, the round in which the symbols
  received become as many as their valid header announces delivers a frame: the one that
  \<open>decode_lora_symbols\<close> reads from them, with the positions of its first and last sample. The
  receiver is then searching again, with no symbols, no expectation and no run of repeated
  chirps, one symbol further, and has counted the frame.
\<close>

theorem checked_header_delivers:
  assumes "rx_inv r" and "rx_phase r = Payload"
    and "hdr_valid (decode_header (rx_symbols (payload_received es r)) (pc_sf (rx_config r)) (pc_bandwidth (rx_config r)))"
    and "length (rx_symbols (payload_received es r)) =
      hdr_symbols (decode_header (rx_symbols (payload_received es r)) (pc_sf (rx_config r)) (pc_bandwidth (rx_config r)))"
  shows "\<exists>r' f g. rx_step es r = (r', Some f) \<and>
    decode_lora_symbols (rx_symbols (payload_received es r)) (rx_config r) = Inr (Some g) \<and>
    f = g\<lparr>pf_first_sample := rx_first r, pf_last_sample := rx_base r + rx_cursor r + rx_n r\<rparr> \<and>
    rx_phase r' = Search \<and> rx_symbols r' = [] \<and> rx_expected r' = 0 \<and> rx_stable r' = 0 \<and> rx_sync_count r' = 0 \<and>
    rx_base r' + rx_cursor r' = rx_base r + rx_cursor r + rx_n r \<and>
    unat (dg_completed_frames (rx_diag r')) = min (2 ^ 64 - 1) (unat (dg_completed_frames (rx_diag r)) + 1)"
proof -
  let ?r1 = "payload_received es r" and ?c = "rx_config r"
  let ?h = "decode_header (rx_symbols ?r1) (pc_sf ?c) (pc_bandwidth ?c)"
  have full: "rx_expected r \<noteq> 0 \<Longrightarrow> rx_expected r = hdr_symbols ?h"
    using assms(1,2) by (auto simp: rx_inv_def symbols_ok_def payload_received_def decode_header_snoc)
  have eight: "8 \<le> length (rx_symbols ?r1)" "rx_expected r = 0 \<Longrightarrow> length (rx_symbols ?r1) \<le> 8"
    using decode_header_bounds(1) [OF assms(3)] assms(1,2,4)
    by (auto simp: rx_inv_def symbols_ok_def payload_received_fields)
  obtain f r2 where step: "payload_step es r =
         (restart (count_up (\<lambda>d. d\<lparr>dg_completed_frames := increment (dg_completed_frames d)\<rparr>) r2),
          Some (f\<lparr>pf_first_sample := rx_first r, pf_last_sample := rx_base r + rx_cursor ?r1\<rparr>), False)"
      "decode_lora_symbols (rx_symbols ?r1) ?c = Inr (Some f)"
      "if rx_expected r = 0 then r2 = (count_up (\<lambda>d. d\<lparr>dg_headers_valid := increment (dg_headers_valid d)\<rparr>) ?r1)
          \<lparr>rx_expected := hdr_symbols ?h\<rparr> else r2 = ?r1"
    using payload_step_cases [OF assms(1,2), of es] assms(3,4) full eight unfolding Let_def by fastforce
  have r2: "rx_base r2 = rx_base r" "rx_cursor r2 = rx_cursor r + rx_n r"
    "dg_completed_frames (rx_diag r2) = dg_completed_frames (rx_diag r)"
    using step(3) by (auto simp: payload_received_fields split: if_splits)
  show ?thesis
    using step(1,2) r2 assms(2)
    by (simp add: rx_step_def payload_received_fields unat_increment add.assoc)
qed

definition payload_example :: "rat receiver" where
  "payload_example = \<lparr>rx_config = example_profile,
     rx_diag = \<lparr>dg_preamble_candidates = 1, dg_sync_matches = 1, dg_sync_rejections = 0,
        dg_sync_low_ratio = 0, dg_sync_timeout = 0, dg_sync_first_mismatch = 0, dg_sync_second_mismatch = 0,
        dg_headers_valid = 1, dg_headers_failed = 0, dg_completed_frames = 0\<rparr>,
     rx_buffer = replicate 128 0, rx_symbols = take 23 (frame_symbols example_profile [0x48, 0x69]),
     rx_base = 0, rx_first = 0, rx_cursor = 0, rx_phase = Payload, rx_stable = 0, rx_sync_count = 0,
     rx_expected = 24, rx_sync_wait = 0, rx_old_bin = 0, rx_down_bin = 0, rx_cfo_int = 0, rx_cfo_fraction = 0\<rparr>"

lemma payload_example_inv: "rx_inv payload_example" "length (rx_symbols payload_example) = 23"
proof -
  let ?bins = "frame_symbols example_profile [0x48, 0x69]"
  have c: "valid_profile example_profile" using example_profile_encodable by (simp add: encodable_def)
  have sym: "header_symbols 7 125000 2 True 4 = 24"
    by (simp add: header_symbols_def payload_width_def ldro_def)
  have len: "length ?bins = 24"
    using length_encode_blocks [OF example_profile_encodable] sym
    by (simp add: frame_symbols_def example_profile_def numeral_2_eq_2)
  have h: "hdr_valid (decode_header ?bins 7 125000)" "hdr_symbols (decode_header ?bins 7 125000) = 24"
    using decode_header_encoded [OF example_profile_encodable damaged_refl [OF c]] sym
    by (auto simp: frame_symbols_def example_profile_def numeral_2_eq_2)
  have t: "decode_header (take 23 ?bins) 7 125000 = decode_header ?bins 7 125000"
    using len by (simp add: decode_header_def)
  have "list_all (\<lambda>b. unat b < 128) (take 23 ?bins)"
    using bins_in_range [OF c] set_take_subset [of 23 ?bins]
    by (fastforce simp: list_all_iff frame_symbols_def example_profile_def)
  moreover have "pc_sf example_profile = 7" "pc_bandwidth example_profile = 125000"
    by (simp_all add: example_profile_def)
  ultimately show "rx_inv payload_example" "length (rx_symbols payload_example) = 23"
    using c h t len
    by (simp_all add: payload_example_def rx_inv_def position_ok_def symbols_ok_def funnel_ok_def
        sync_rejections_ok_def counter_below_def rx_n_def)
qed

theorem checked_header_delivers_witness:
  "\<exists>r' f. rx_step example_estimator payload_example = (r', Some f) \<and> rx_phase r' = Search"
proof -
  have p: "rx_phase payload_example = Payload" "rx_expected payload_example \<noteq> 0" "rx_expected payload_example = 24"
    by (simp_all add: payload_example_def)
  note h = announced_header [OF payload_example_inv(1) p(1,2), of example_estimator]
  show ?thesis
    using checked_header_delivers [OF payload_example_inv(1) p(1) h(1)] h(2) p(3) payload_example_inv(2)
    by (auto simp: payload_received_fields)
qed

text \<open>
  \<open>sync_distance\<close> is the distance to the target within the 128-bin period of the sync
  nibbles: 0 to 64, zero exactly for bins congruent to the target, and the same for all
  spellings of a bin (so SF11 bins 2008 and 88 encode the same nibble); the \<open>wrap\<close> it uses on
  C++'s truncating remainder is the mathematical residue.
\<close>

theorem sync_distance_periodic:
  "0 \<le> sync_distance b t \<and> sync_distance b t \<le> 64 \<and>
   (sync_distance b t = 0 \<longleftrightarrow> b mod 128 = t mod 128) \<and>
   sync_distance (b + 128 * k) t = sync_distance b t \<and> sync_distance 2008 88 = 0 \<and>
   wrap v (int (Suc m)) = v mod int (Suc m)"
proof (intro conjI)
  have d: "sync_distance b t = \<bar>(b - t + 64) mod 128 - 64\<bar>" for b t
    by (simp add: sync_distance_def Let_def wrap_eq)
  have m: "0 \<le> (b - t + 64) mod 128" "(b - t + 64) mod 128 < 128" by simp_all
  show "0 \<le> sync_distance b t" "sync_distance b t \<le> 64"
    unfolding d using m by linarith+
  have "(x + 64) mod 128 = 64 \<longleftrightarrow> 128 dvd x" for x :: int
    using mod_eq_dvd_iff [of "x + 64" 128 64] by simp
  then have "(b - t + 64) mod 128 = 64 \<longleftrightarrow> b mod 128 = t mod 128"
    by (simp add: mod_eq_dvd_iff)
  then show "sync_distance b t = 0 \<longleftrightarrow> b mod 128 = t mod 128"
    unfolding d by simp
  have "b + 128 * k - t + 64 = (b - t + 64) + k * 128" by simp
  then have "(b + 128 * k - t + 64) mod 128 = (b - t + 64) mod 128" by (metis mod_mult_self1)
  then show "sync_distance (b + 128 * k) t = sync_distance b t"
    unfolding d by simp
  show "sync_distance 2008 88 = 0" unfolding d by simp
  show "wrap v (int (Suc m)) = v mod int (Suc m)" by (simp add: wrap_eq)
qed

end
