(* ===== verification/Presets.thy ===== *)
theory Presets
  imports PhyCodec
begin

text \<open>
  The preset table of \<open>meshtastic_presets.hpp\<close>: the modem presets of Meshtastic with
  their wire identifiers and radio parameters, and the lookup by identifier.
\<close>

datatype preset_id =
  LongFast | LongSlow | VeryLongSlow | MediumSlow | MediumFast | ShortSlow | ShortFast
  | LongModerate | ShortTurbo | LongTurbo | LiteFast | LiteSlow | NarrowFast | NarrowSlow
  | TinyFast | TinySlow | MediumTurbo

primrec wire_id :: "preset_id \<Rightarrow> u8" where
  "wire_id LongFast = 0"
| "wire_id LongSlow = 1"
| "wire_id VeryLongSlow = 2"
| "wire_id MediumSlow = 3"
| "wire_id MediumFast = 4"
| "wire_id ShortSlow = 5"
| "wire_id ShortFast = 6"
| "wire_id LongModerate = 7"
| "wire_id ShortTurbo = 8"
| "wire_id LongTurbo = 9"
| "wire_id LiteFast = 10"
| "wire_id LiteSlow = 11"
| "wire_id NarrowFast = 12"
| "wire_id NarrowSlow = 13"
| "wire_id TinyFast = 14"
| "wire_id TinySlow = 15"
| "wire_id MediumTurbo = 16"

record preset =
  ps_id :: preset_id
  ps_name :: string
  ps_bandwidth :: u32
  ps_sf :: u8
  ps_cr :: u8
  ps_deprecated :: bool
  ps_phy_supported :: bool
  ps_support_note :: string
  ps_historical_only :: bool
  ps_in_2_7_19 :: bool
  ps_wire_name :: string

abbreviation (input) preset_row where
  "preset_row i nm bw sf cr dep note hist avail wire \<equiv>
    \<lparr>ps_id = i, ps_name = nm, ps_bandwidth = bw, ps_sf = sf, ps_cr = cr, ps_deprecated = dep,
     ps_phy_supported = True, ps_support_note = note, ps_historical_only = hist,
     ps_in_2_7_19 = avail, ps_wire_name = wire\<rparr>"

definition tiny_note :: string where
  "tiny_note = ''15.625 kHz modem bandwidth; upstream's 20 kHz description includes channel padding.''"

definition presets :: "preset list" where
  "presets = [
    preset_row LongFast ''LongFast'' 250000 11 5 False '''' False True ''LONG_FAST'',
    preset_row LongSlow ''LongSlow'' 125000 12 8 True
      ''Deprecated by upstream; retained for existing traffic.'' False True ''LONG_SLOW'',
    preset_row VeryLongSlow ''VeryLongSlow'' 62500 12 8 True
      ''Historical RF profile; current firmware no longer maps this enum to these parameters.''
      True True ''VERY_LONG_SLOW'',
    preset_row MediumSlow ''MediumSlow'' 250000 10 5 False '''' False True ''MEDIUM_SLOW'',
    preset_row MediumFast ''MediumFast'' 250000 9 5 False '''' False True ''MEDIUM_FAST'',
    preset_row ShortSlow ''ShortSlow'' 250000 8 5 False '''' False True ''SHORT_SLOW'',
    preset_row ShortFast ''ShortFast'' 250000 7 5 False '''' False True ''SHORT_FAST'',
    preset_row LongModerate ''LongModerate'' 125000 11 8 False '''' False True ''LONG_MODERATE'',
    preset_row ShortTurbo ''ShortTurbo'' 500000 7 5 False '''' False True ''SHORT_TURBO'',
    preset_row LongTurbo ''LongTurbo'' 500000 11 8 False '''' False True ''LONG_TURBO'',
    preset_row LiteFast ''LiteFast'' 125000 9 5 False '''' False False ''LITE_FAST'',
    preset_row LiteSlow ''LiteSlow'' 125000 10 5 False '''' False False ''LITE_SLOW'',
    preset_row NarrowFast ''NarrowFast'' 62500 7 6 False '''' False False ''NARROW_FAST'',
    preset_row NarrowSlow ''NarrowSlow'' 62500 8 6 False '''' False False ''NARROW_SLOW'',
    preset_row TinyFast ''TinyFast'' 15625 7 5 False tiny_note False False ''TINY_FAST'',
    preset_row TinySlow ''TinySlow'' 15625 8 6 False tiny_note False False ''TINY_SLOW'',
    preset_row MediumTurbo ''MediumTurbo'' 500000 9 5 False '''' False False ''MEDIUM_TURBO'']"

definition find_preset :: "preset_id \<Rightarrow> preset option" where
  "find_preset i = find (\<lambda>p. ps_id p = i) presets"

text \<open>The modem settings that a preset stands for, at a given sync word.\<close>

definition preset_profile :: "preset \<Rightarrow> u8 \<Rightarrow> phy_config" where
  "preset_profile p w = \<lparr>pc_bandwidth = unat (ps_bandwidth p), pc_sf = unat (ps_sf p),
     pc_cr = unat (ps_cr p), pc_sync_word = w\<rparr>"

lemma find_preset_table:
  "\<exists>p. find_preset i = Some p \<and> ps_id p = i \<and> p \<in> set presets"
  by (cases i) (simp_all add: find_preset_def presets_def)

lemma presets_valid: "list_all (\<lambda>p. valid_profile (preset_profile p w)) presets"
  by (simp add: presets_def valid_profile_def preset_profile_def supported_lora_bandwidth_def)

lemma presets_distinct:
  "distinct (map ps_id presets)" "distinct (map ps_name presets)"
  "distinct (map ps_wire_name presets)"
  "distinct (map (\<lambda>p. (ps_bandwidth p, ps_sf p, ps_cr p)) presets)"
  by (simp_all add: presets_def)

lemma wire_ids: "map (wire_id \<circ> ps_id) presets = map of_nat [0..<17]"
  by (simp add: presets_def upt_rec)

text \<open>
  The preset table is total and unambiguous. Every enumerator has exactly one row, the
  row at the position of its wire identifier; the profile of the row is one that the native
  receiver and codec accept, and no two presets share their radio parameters, their name or
  their wire name.
\<close>

theorem preset_table:
  "(\<exists>p. find_preset i = Some p \<and> presets ! unat (wire_id i) = p \<and> ps_id p = i \<and>
     (\<forall>w. validate_phy (preset_profile p w) = Inr ())) \<and>
   distinct (map (\<lambda>p. (ps_bandwidth p, ps_sf p, ps_cr p)) presets) \<and>
   distinct (map ps_name presets) \<and> distinct (map ps_wire_name presets)"
proof -
  obtain p where p: "find_preset i = Some p" "ps_id p = i" "p \<in> set presets"
    using find_preset_table by blast
  have "valid_profile (preset_profile p w)" for w
    using presets_valid [of w] p(3) by (simp add: list_all_iff)
  moreover have "presets ! unat (wire_id i) = the (find_preset i)"
    by (cases i) (simp_all add: find_preset_def presets_def)
  ultimately show ?thesis
    using p presets_distinct by simp
qed

end
