(* ===== verification/ReceiverConfig.thy ===== *)
theory ReceiverConfig
  imports PhyCodec Concentrator
begin

text \<open>
  Receiver settings (\<open>engine.hpp\<close>) and their validation at the start of a reception
  (\<open>engine.cpp\<close>): the corrected tuner frequency, the checks on every setting, and the
  lookup of the settings that were in force at a moment of a survey.
\<close>

section \<open>Settings\<close>

datatype hardware_receiver = HackRf | RtlSdr | Rak5146

record lane_config =
  ln_label :: string
  ln_channel :: string
  ln_protocol :: string
  ln_freq :: u64
  ln_bw :: u32
  ln_sf :: u8
  ln_cr :: u8
  ln_enabled :: bool

definition default_lane :: lane_config where
  "default_lane = \<lparr>ln_label = ''LongFast'', ln_channel = ''LongFast'', ln_protocol = ''Meshtastic'',
     ln_freq = 906875000, ln_bw = 250000, ln_sf = 11, ln_cr = 5, ln_enabled = True\<rparr>"

text \<open>The threshold is a \<open>float\<close>, \<open>None\<close> if it is not finite.\<close>

record receiver_config =
  cf_synthetic :: bool
  cf_hardware :: hardware_receiver
  cf_center :: u64
  cf_offset :: int
  cf_rate :: u32
  cf_span :: u32
  cf_lna :: u32
  cf_vga :: u32
  cf_amp :: bool
  cf_rtl_gain :: int
  cf_rtl_auto :: bool
  cf_serial :: string
  cf_boards :: concentrator_config
  cf_threshold :: "rat option"
  cf_discover :: bool
  cf_automatic :: bool
  cf_compact :: bool
  cf_lanes :: "lane_config list"
  cf_path :: string
  cf_title :: string
  cf_antenna :: string
  cf_receiver :: string
  cf_notes :: string

definition default_config :: receiver_config where
  "default_config = \<lparr>cf_synthetic = True, cf_hardware = HackRf, cf_center = 907500000, cf_offset = 0,
     cf_rate = 16000000, cf_span = 10000000, cf_lna = 16, cf_vga = 16, cf_amp = False,
     cf_rtl_gain = 280, cf_rtl_auto = False, cf_serial = '''', cf_boards = default_concentrators,
     cf_threshold = Some (-55), cf_discover = False, cf_automatic = False, cf_compact = True,
     cf_lanes = [default_lane], cf_path = '''', cf_title = ''RF survey'', cf_antenna = '''',
     cf_receiver = '''', cf_notes = ''''\<rparr>"

definition receiver_source_name :: "receiver_config \<Rightarrow> string" where
  "receiver_source_name c =
    (if cf_synthetic c then ''Synthetic RF''
     else if cf_hardware c = Rak5146 then ''RAK5146 USB/LBT''
     else if cf_hardware c = RtlSdr then ''RTL-SDR'' else ''HackRF'')"

abbreviation is_rtl :: "receiver_config \<Rightarrow> bool" where
  "is_rtl c \<equiv> \<not> cf_synthetic c \<and> cf_hardware c = RtlSdr"

abbreviation is_rak :: "receiver_config \<Rightarrow> bool" where
  "is_rak c \<equiv> \<not> cf_synthetic c \<and> cf_hardware c = Rak5146"

section \<open>Tuning\<close>

definition tuned_center_hz :: "receiver_config \<Rightarrow> u64 result" where
  "tuned_center_hz c =
    bind_result (guard_err (unat (cf_center c) < 1000000 \<or> unat (cf_center c) > 6000000000)
      ''Center frequency must be between 1 MHz and 6 GHz'') (\<lambda>_.
    bind_result (guard_err (cf_offset c < -100000 \<or> cf_offset c > 100000)
      ''Tuning offset must be between -100000 and 100000 Hz'') (\<lambda>_.
    let command = uint (cf_center c) + cf_offset c in
    bind_result (guard_err (command < 1000000 \<or> command > 6000000000)
      ''Corrected tuner frequency must be between 1 MHz and 6 GHz'') (\<lambda>_.
    bind_result (guard_err (is_rtl c \<and> (unat (cf_center c) < 24000000 \<or> unat (cf_center c) > 1766000000 \<or>
        command < 24000000 \<or> command > 1766000000))
      ''RTL-SDR center and corrected tuner frequency must be between 24 and 1766 MHz; tuning also depends on the attached tuner'') (\<lambda>_.
    Inr (word_of_int command)))))"

section \<open>Validation\<close>

text \<open>The arithmetic on spans and rates is that of 32-bit unsigned integers.\<close>

definition check_provenance :: "receiver_config \<Rightarrow> unit result" where
  "check_provenance c = guard_err (length (cf_antenna c) > 240 \<or> length (cf_receiver c) > 240 \<or>
     length (cf_notes c) > 2000) ''Survey provenance text is too long''"

definition check_rate :: "receiver_config \<Rightarrow> unit result" where
  "check_rate c =
    (if is_rtl c then
       bind_result (guard_err (cf_rate c \<noteq> 1000000 \<and> cf_rate c \<noteq> 2000000)
         ''RTL-SDR supports a 1 or 2 MS/s sample rate in this build'') (\<lambda>_.
       bind_result (guard_err (cf_rtl_gain c < -100 \<or> cf_rtl_gain c > 600)
         ''RTL-SDR manual gain must be between -10 and 60 dB; the nearest supported tuner gain is applied'') (\<lambda>_.
       bind_result (guard_err (cf_amp c)
         ''The HackRF RF amplifier control is unavailable for RTL-SDR; disable it before starting'') (\<lambda>_.
       guard_err (cf_discover c \<and> (cf_rate c \<noteq> 2000000 \<or> cf_span c > 1500000))
         ''RTL-SDR LoRa discovery requires 2 MS/s and a survey span of at most 1.5 MHz; other supported settings can measure spectrum with discovery disabled'')))
     else guard_err (cf_rate c \<notin> {8000000, 10000000, 12000000, 16000000, 20000000})
       ''Choose an 8, 10, 12, 16 or 20 MS/s sample rate'')"

definition check_span :: "receiver_config \<Rightarrow> unit result" where
  "check_span c =
    bind_result (guard_err (cf_span c < 500000 \<or> cf_span c > cf_rate c * 4 div 5)
      ''Survey span must be 0.5 MHz through 80% of sample rate; passband remains uncalibrated'') (\<lambda>_.
    bind_result (guard_err (cf_center c < ucast (cf_span c div 2) \<or>
        cf_center c + ucast (cf_span c div 2) > 6000000000)
      ''Survey edges exceed receiver range'') (\<lambda>_.
    guard_err (is_rtl c \<and> (cf_center c - ucast (cf_span c div 2) < 24000000 \<or>
        cf_center c + ucast (cf_span c div 2) > 1766000000))
      (''Survey edges exceed the supported RTL-SDR 24'' @ en_dash @ ''1766 MHz range'')))"

definition check_lane :: "receiver_config \<Rightarrow> nat \<Rightarrow> lane_config \<Rightarrow> unit result" where
  "check_lane c i l =
    bind_result (guard_err (length (ln_label l) > 80 \<or> length (ln_channel l) > 80)
      ''Profile labels are too long'') (\<lambda>_.
    if \<not> ln_enabled l then Inr () else
    bind_result (guard_err (\<not> supported_lora_bandwidth (unat (ln_bw l)))
      ''Supported LoRa bandwidths are 15.625, 62.5, 125, 250 and 500 kHz'') (\<lambda>_.
    bind_result (guard_err (ln_sf l < 7 \<or> ln_sf l > 12 \<or> ln_cr l < 5 \<or> ln_cr l > 8)
      (''Supported LoRa profiles use SF7'' @ en_dash @ ''12 and CR4/5'' @ en_dash @ ''4/8'')) (\<lambda>_.
    bind_result (guard_err (cf_rate c mod (ln_bw l * 4) \<noteq> 0)
      ''Sample rate must support integer decoder decimation; 500 kHz legacy profiles need RTL-SDR at 2 MS/s'') (\<lambda>_.
    bind_result (guard_err (ln_freq l > 6000000000) ''Decoder frequency exceeds receiver range'') (\<lambda>_.
    let offset = \<bar>uint (ln_freq l) - uint (cf_center c)\<bar> in
    guard_err (offset + uint (ln_bw l div 2) > uint (cf_span c div 2))
      ''Each decoder's entire bandwidth must be inside the survey span'')))))"

definition validate_receiver :: "receiver_config \<Rightarrow> unit result" where
  "validate_receiver c =
    bind_result (tuned_center_hz c) (\<lambda>_.
    if is_rak c then
      bind_result (validate_concentrator_config (cf_boards c) (cf_center c) (cf_span c) (cf_offset c) True) (\<lambda>_.
      check_provenance c)
    else
      bind_result (check_rate c) (\<lambda>_.
      bind_result (check_span c) (\<lambda>_.
      bind_result (guard_err (\<not> is_rtl c \<and> (cf_lna c > 40 \<or> cf_lna c mod 8 \<noteq> 0 \<or> cf_vga c > 62 \<or> cf_vga c mod 2 \<noteq> 0))
        (''LNA must be 0'' @ en_dash @ ''40 dB in 8 dB steps; VGA 0'' @ en_dash @ ''62 dB in 2 dB steps'')) (\<lambda>_.
      bind_result (guard_err (length (cf_serial c) > 256 \<or> CHR 0x00 \<in> set (cf_serial c))
        ''Receiver serial is invalid or too long'') (\<lambda>_.
      bind_result (guard_err (case cf_threshold c of None \<Rightarrow> True | Some t \<Rightarrow> t > 0 \<or> t < -140)
        ''Activity threshold must be -140 through 0 dBFS/bin'') (\<lambda>_.
      bind_result (check_provenance c) (\<lambda>_.
      bind_result (guard_err (cf_automatic c \<and> \<not> cf_discover c)
        ''Automatic decoding requires waveform discovery'') (\<lambda>_.
      bind_result (guard_err (length (cf_lanes c) > 4)
        ''This build permits at most four explicitly configured decoder lanes'') (\<lambda>_.
      for_each (check_lane c) 0 (cf_lanes c))))))))))"

section \<open>Acquisition segments\<close>

record acquisition_segment =
  sg_id :: u64
  sg_start :: rat
  sg_end :: rat
  sg_finalized :: bool
  sg_config :: receiver_config

text \<open>
  \<open>std::upper_bound\<close> is a binary search; on segments in order it finds the first that starts
  after the time, and this is the search written here. \<open>None\<close> is a time that is not finite.
\<close>

definition time_slack :: rat where "time_slack = 1 / 100000000"

definition acquisition_config_at ::
    "acquisition_segment list \<Rightarrow> receiver_config \<Rightarrow> rat option \<Rightarrow> receiver_config result" where
  "acquisition_config_at segments legacy elapsed =
    (if segments = [] then Inr legacy
     else case elapsed of
       None \<Rightarrow> Inl ''Invalid acquisition time''
     | Some t \<Rightarrow>
         if t < 0 then Inl ''Invalid acquisition time''
         else
           (let before = takeWhile (\<lambda>s. \<not> t + time_slack < sg_start s) segments in
            if before = [] then Inl ''Measurement precedes its acquisition''
            else if t > sg_end (last before) + time_slack
            then Inl ''Measurement falls outside its acquisition interval''
            else Inr (sg_config (last before))))"

section \<open>Properties\<close>

lemma unat_word_less: "unat (w :: 'a::len word) < 2 ^ LENGTH('a)"
  by (rule unsigned_less)

lemma uint_of_int_u64: "0 \<le> s \<Longrightarrow> s < 18446744073709551616 \<Longrightarrow> uint (word_of_int s :: u64) = s"
  by (simp add: unsigned_of_int take_bit_int_eq_self)

lemma word_of_int_u64_iff:
  assumes "0 \<le> s" "s < 18446744073709551616"
  shows "word_of_int s = (w :: u64) \<longleftrightarrow> uint w = s"
  using uint_of_int_u64 [OF assms] by (metis word_of_int_uint)

text \<open>
  C38: the tuner command is the exact sum of the centre and the correction, never a wrapped
  word, and it is refused exactly when the centre, the correction or the sum leaves the range
  of the receiver in use.
\<close>

theorem tuner_command_exact:
  "tuned_center_hz c = Inr w \<longleftrightarrow>
    uint w = uint (cf_center c) + cf_offset c \<and> \<bar>cf_offset c\<bar> \<le> 100000 \<and>
    (\<forall>f\<in>{uint (cf_center c), uint (cf_center c) + cf_offset c}.
       (if is_rtl c then 24000000 \<le> f \<and> f \<le> 1766000000 else 1000000 \<le> f \<and> f \<le> 6000000000))"
proof -
  obtain n where n: "unat (cf_center c) = n" "uint (cf_center c) = int n" by simp
  let ?s = "int n + cf_offset c"
  have word: "word_of_int ?s = w \<longleftrightarrow> uint w = ?s" if "1000000 \<le> ?s" "?s \<le> 6000000000"
    using that by (intro word_of_int_u64_iff) simp_all
  show ?thesis
    unfolding tuned_center_hz_def Let_def bind_result_Inr guard_err_Inr sum.inject n
    using word by (cases "1000000 \<le> ?s \<and> ?s \<le> 6000000000"; cases "is_rtl c") (auto simp del: of_int_add)
qed

theorem tuner_command_exact_witness:
  "tuned_center_hz (default_config\<lparr>cf_offset := -100000\<rparr>) = Inr 907400000"
  using tuner_command_exact [of "default_config\<lparr>cf_offset := -100000\<rparr>" 907400000]
  by (simp add: default_config_def)

definition lane_profile :: "lane_config \<Rightarrow> u8 \<Rightarrow> phy_config" where
  "lane_profile l w = \<lparr>pc_bandwidth = unat (ln_bw l), pc_sf = unat (ln_sf l), pc_cr = unat (ln_cr l), pc_sync_word = w\<rparr>"

lemma check_lane_accepts:
  assumes "check_lane c i l = Inr ()" "ln_enabled l"
  shows "valid_profile (lane_profile l w)" "unat (cf_rate c) mod (4 * unat (ln_bw l)) = 0"
    "\<bar>uint (ln_freq l) - uint (cf_center c)\<bar> + uint (ln_bw l) div 2 \<le> uint (cf_span c) div 2"
proof -
  have v: "supported_lora_bandwidth (unat (ln_bw l)) \<and> 7 \<le> ln_sf l \<and> ln_sf l \<le> 12 \<and> 5 \<le> ln_cr l \<and> ln_cr l \<le> 8 \<and>
      cf_rate c mod (ln_bw l * 4) = 0 \<and>
      \<bar>uint (ln_freq l) - uint (cf_center c)\<bar> + uint (ln_bw l div 2) \<le> uint (cf_span c div 2)"
    using assms unfolding check_lane_def Let_def bind_result_Inr guard_err_Inr
    by (simp add: not_less not_le bind_result_Inr)
  then have n: "7 \<le> unat (ln_sf l)" "unat (ln_sf l) \<le> 12" "5 \<le> unat (ln_cr l)" "unat (ln_cr l) \<le> 8"
    by (simp_all add: word_le_nat_alt)
  with v show "valid_profile (lane_profile l w)"
    by (simp add: valid_profile_def lane_profile_def)
  have "unat (ln_bw l) \<le> 500000" using v by (auto simp: supported_lora_bandwidth_def)
  then have "unat (ln_bw l * 4) = 4 * unat (ln_bw l)"
    by (simp add: unat_mult_lem [THEN iffD1])
  moreover have "unat (cf_rate c mod (ln_bw l * 4)) = 0" using v by simp
  ultimately show "unat (cf_rate c) mod (4 * unat (ln_bw l)) = 0"
    by (simp add: unat_mod)
  show "\<bar>uint (ln_freq l) - uint (cf_center c)\<bar> + uint (ln_bw l) div 2 \<le> uint (cf_span c) div 2"
    using v by (simp add: uint_div)
qed

lemma check_span_accepts:
  assumes "check_span c = Inr ()" "unat (cf_rate c) \<le> 20000000"
  shows "uint (cf_span c) * 5 \<le> uint (cf_rate c) * 4"
proof -
  have "cf_span c \<le> cf_rate c * 4 div 5"
    using assms(1) unfolding check_span_def bind_result_Inr guard_err_Inr by (simp add: not_less)
  then have "unat (cf_span c) \<le> unat (cf_rate c * 4) div 5"
    by (simp add: word_le_nat_alt unat_div)
  moreover have "unat (cf_rate c * 4) = unat (cf_rate c) * 4"
    using assms(2) by (simp add: unat_mult_lem [THEN iffD1])
  ultimately have "unat (cf_span c) * 5 \<le> unat (cf_rate c) * 4" by linarith
  then have "int (unat (cf_span c) * 5) \<le> int (unat (cf_rate c) * 4)" by (simp only: of_nat_le_iff)
  then show ?thesis by simp
qed

lemma check_rate_accepts:
  assumes "check_rate c = Inr ()"
  shows "0 < unat (cf_rate c)" "unat (cf_rate c) \<le> 20000000"
  using assms unfolding check_rate_def bind_result_Inr guard_err_Inr
  by (auto split: if_splits simp: bind_result_Inr)

lemma nyquist_bound: "a \<le> b \<Longrightarrow> 2 * b \<le> s \<Longrightarrow> s * 5 \<le> r * 4 \<Longrightarrow> 0 < r \<Longrightarrow> 2 * a < (r :: int)"
  by linarith

text \<open>
  C39: an accepted SDR configuration never asks a decoder for a band it cannot see. Each
  enabled lane has a profile the native receiver supports, an integer decimation by a multiple
  of four, and a band that lies wholly inside the survey and below the Nyquist frequency.
\<close>

theorem accepted_lanes_decodable:
  assumes "validate_receiver c = Inr ()" and "\<not> is_rak c" and "l \<in> set (cf_lanes c)" and "ln_enabled l"
  shows "validate_phy (lane_profile l w) = Inr () \<and>
    (\<exists>k>0. unat (cf_rate c) = 4 * k * unat (ln_bw l)) \<and>
    \<bar>uint (ln_freq l) - uint (cf_center c)\<bar> + uint (ln_bw l) div 2 \<le> uint (cf_span c) div 2 \<and>
    2 * (\<bar>uint (ln_freq l) - uint (cf_center c)\<bar> + uint (ln_bw l) div 2) < uint (cf_rate c)"
proof -
  have v: "check_rate c = Inr () \<and> check_span c = Inr () \<and> for_each (check_lane c) 0 (cf_lanes c) = Inr ()"
    using assms(1,2) unfolding validate_receiver_def bind_result_Inr guard_err_Inr
    by (simp add: bind_result_Inr)
  obtain i where "i < length (cf_lanes c)" "cf_lanes c ! i = l"
    using assms(3) by (auto simp: in_set_conv_nth)
  with v have lane: "check_lane c i l = Inr ()" by (auto simp: for_each_Inr)
  note acc = check_lane_accepts [OF lane assms(4)]
  note rate = check_rate_accepts [OF conjunct1 [OF v]]
  have sp: "uint (cf_span c) * 5 \<le> uint (cf_rate c) * 4"
    using v rate by (intro check_span_accepts) simp_all
  from acc(2) have "4 * unat (ln_bw l) dvd unat (cf_rate c)" by (simp only: mod_eq_0_iff_dvd)
  then obtain k where r: "unat (cf_rate c) = 4 * unat (ln_bw l) * k" by (elim dvdE)
  with rate(1) have "0 < k" by (cases k) simp_all
  with r have k: "\<exists>k>0. unat (cf_rate c) = 4 * k * unat (ln_bw l)"
    by (intro exI [of _ k]) (simp only: ac_simps simp_thms)
  from rate(1) have "int 0 < int (unat (cf_rate c))" by (simp only: of_nat_less_iff)
  then have "0 < uint (cf_rate c)" by simp
  moreover have "2 * (uint (cf_span c) div 2) \<le> uint (cf_span c)" by simp
  ultimately have "2 * (\<bar>uint (ln_freq l) - uint (cf_center c)\<bar> + uint (ln_bw l) div 2) < uint (cf_rate c)"
    using nyquist_bound [OF acc(3) _ sp] by simp
  with acc(1,3) k show ?thesis by simp
qed

theorem accepted_lanes_decodable_witness:
  "validate_receiver default_config = Inr () \<and> (\<exists>k>0. unat (cf_rate default_config) = 4 * k * unat (ln_bw default_lane))"
proof -
  have "validate_receiver default_config = Inr ()"
    by (simp add: validate_receiver_def default_config_def default_lane_def check_rate_def check_span_def
        check_lane_def check_provenance_def tuned_center_hz_def guard_err_def supported_lora_bandwidth_def Let_def)
  moreover have "\<not> is_rak default_config" "default_lane \<in> set (cf_lanes default_config)" "ln_enabled default_lane"
    by (simp_all add: default_config_def default_lane_def)
  ultimately show ?thesis using accepted_lanes_decodable [of default_config default_lane 0] by blast
qed

text \<open>
  The settings attributed to a moment are those of the acquisition that covers it. In a
  list of segments in time order, a moment from the start of segment \<open>k\<close> to its end (with the
  tolerance of the code) and before the next start gets the settings of \<open>k\<close>; a moment in the
  pause after segment \<open>k\<close>, or before the first segment, gets an error and no settings.
\<close>

theorem acquisition_lookup:
  assumes "sorted_wrt (\<lambda>s s'. sg_start s \<le> sg_start s') segments" and "0 \<le> t" and "k < length segments"
    and "sg_start (segments ! k) \<le> t + time_slack"
    and "Suc k < length segments \<Longrightarrow> t + time_slack < sg_start (segments ! Suc k)"
  shows "acquisition_config_at segments legacy (Some t) =
    (if t \<le> sg_end (segments ! k) + time_slack then Inr (sg_config (segments ! k))
     else Inl ''Measurement falls outside its acquisition interval'')"
proof -
  let ?p = "\<lambda>s. \<not> t + time_slack < sg_start s"
  have "takeWhile ?p segments = take (Suc k) segments"
  proof (rule takeWhile_eq_take_P_nth)
    fix i assume "i < Suc k" "i < length segments"
    then have "sg_start (segments ! i) \<le> sg_start (segments ! k)"
      using assms(1,3) by (cases "i = k") (auto simp: sorted_wrt_iff_nth_less)
    with assms(4) show "\<not> t + time_slack < sg_start (segments ! i)" by linarith
  next
    assume "Suc k < length segments"
    with assms(5) show "\<not> \<not> t + time_slack < sg_start (segments ! Suc k)" by simp
  qed
  moreover have "last (take (Suc k) segments) = segments ! k" "take (Suc k) segments \<noteq> []" "segments \<noteq> []"
    using assms(3) by (auto simp: take_Suc_conv_app_nth)
  ultimately show ?thesis
    using assms(2) by (simp add: acquisition_config_at_def Let_def not_less)
qed

definition example_segments :: "acquisition_segment list" where
  "example_segments =
    [\<lparr>sg_id = 1, sg_start = 0, sg_end = 10, sg_finalized = True, sg_config = default_config\<rparr>,
     \<lparr>sg_id = 2, sg_start = 20, sg_end = 30, sg_finalized = True, sg_config = default_config\<lparr>cf_center := 915000000\<rparr>\<rparr>]"

theorem acquisition_lookup_witness:
  "acquisition_config_at example_segments default_config (Some 5) = Inr default_config \<and>
   acquisition_config_at example_segments default_config (Some 15) =
     Inl ''Measurement falls outside its acquisition interval''"
  using acquisition_lookup [of example_segments 5 0 default_config]
    acquisition_lookup [of example_segments 15 0 default_config]
  by (simp add: example_segments_def time_slack_def)

end
