(* ===== verification/RakSurvey.thy ===== *)
theory RakSurvey
  imports Survey RakRecords ReceiverConfig
begin

text \<open>
  The survey with concentrator boards (\<open>engine_rak.inc\<close>): how the sweep is divided among the
  boards, how the records of the workers are checked, stored and counted, and the sweep of
  the worker itself (\<open>rak_worker.c\<close>).
\<close>

section \<open>The sweep\<close>

text \<open>First and last centre of the 234.3 kHz filter inside the survey, and the grid between.\<close>

definition scan_first :: "receiver_config \<Rightarrow> u64" where
  "scan_first c = cf_center c - ucast (cf_span c div 2) + 117150"

definition scan_last :: "receiver_config \<Rightarrow> u64" where
  "scan_last c = cf_center c + ucast (cf_span c div 2) - 117150"

definition scan_points :: "receiver_config \<Rightarrow> u64" where
  "scan_points c = (scan_last c - scan_first c) div ucast (cc_step (cf_boards c)) + 1"

definition board_count :: "receiver_config \<Rightarrow> nat" where
  "board_count c = length (cc_boards (cf_boards c))"

definition sweep_begin :: "receiver_config \<Rightarrow> nat \<Rightarrow> u64" where
  "sweep_begin c i = scan_points c * of_nat i div of_nat (board_count c)"

definition sweep_freq :: "receiver_config \<Rightarrow> u64 \<Rightarrow> u64" where
  "sweep_freq c k = scan_first c + k * ucast (cc_step (cf_boards c))"

text \<open>The arguments of the worker of board \<open>i\<close>, if it can be started.\<close>

definition start_board :: "receiver_config \<Rightarrow> nat \<Rightarrow> string list result" where
  "start_board c i =
    (let begin = sweep_begin c i; stop = sweep_begin c (i + 1); rc = cf_boards c in
     bind_result (guard_err (cc_scan rc \<and> begin = stop)
       ''RAK scan step leaves too few scan centers for two boards; reduce the step or use one board'') (\<lambda>_.
     Inr (worker_arguments (cc_boards rc ! i) (cf_offset c)
       (if cc_scan rc then sweep_freq c begin else 0)
       (if cc_scan rc then sweep_freq c (stop - 1) else 0)
       (cc_step rc) (cc_samples rc) i)))"

text \<open>The next centre of the worker's sweep.\<close>

definition next_scan :: "rak_options \<Rightarrow> u32 \<Rightarrow> u32" where
  "next_scan ops f = (if ro_upper ops - f < ro_step ops then ro_lower ops else f + ro_step ops)"

section \<open>State\<close>

text \<open>
  The measurements of the snapshot that this path writes, with the counters of the thread.
  \<open>rs_stored\<close> is what was appended to the recording, newest last.
\<close>

datatype stored = Stored_scan timed_scan | Stored_reception reception

record rak_state =
  rs_health :: "concentrator_health list"
  rs_recent :: "timed_scan list"
  rs_scans :: u64
  rs_samples :: u64
  rs_total :: u64
  rs_classified :: u64
  rs_receptions :: "reception list"
  rs_scan_id :: u64
  rs_packet_id :: u64
  rs_previous_end :: "rat list"
  rs_last_record :: "rat list"
  rs_view_state :: string
  rs_view_error :: string
  rs_stored :: "stored list"

text \<open>
  What the handler reads: the settings, the clock of the survey, the position history, the
  keyring and the cipher of the classification, and whether a recording is open.
\<close>

record rak_env =
  re_config :: receiver_config
  re_started :: rat
  re_started_utc :: rat
  re_clock_shift :: rat
  re_position :: "rat \<Rightarrow> position_fix option"
  re_profiles :: "profile list"
  re_cipher :: cipher
  re_recording :: bool

definition put_health :: "nat \<Rightarrow> (concentrator_health \<Rightarrow> concentrator_health) \<Rightarrow> rak_state \<Rightarrow> rak_state" where
  "put_health i f s = s\<lparr>rs_health := (rs_health s)[i := f (rs_health s ! i)]\<rparr>"

definition store_item :: "rak_env \<Rightarrow> stored \<Rightarrow> rak_state \<Rightarrow> rak_state" where
  "store_item env x s = (if re_recording env then s\<lparr>rs_stored := rs_stored s @ [x]\<rparr> else s)"

section \<open>The handler\<close>

text \<open>Each part returns the state as it was left, and the exception if one was thrown.\<close>

type_synonym handled = "rak_state \<times> string option"

definition handle_ready :: "rak_env \<Rightarrow> rat \<Rightarrow> nat \<Rightarrow> rak_state \<Rightarrow> handled" where
  "handle_ready env now i s =
    (if ch_ready (rs_health s ! i) then (s, Some ''RAK worker unexpectedly restarted during the survey'')
     else
       (let elapsed = now - re_started env;
            s' = put_health i (\<lambda>h. h\<lparr>ch_ready := True, ch_ready_elapsed := elapsed,
                   ch_last_update := elapsed, ch_state := ''Receiving''\<rparr>) s
        in (if rs_view_error s' = [] \<and> list_all ch_ready (rs_health s')
            then s'\<lparr>rs_view_state := ''Receiving RAK5146''\<rparr> else s', None)))"

text \<open>\<open>physical\<close>: the centre without the correction, on the grid assigned to the board.\<close>

definition assigned :: "receiver_config \<Rightarrow> nat \<Rightarrow> int \<Rightarrow> bool" where
  "assigned c i physical \<longleftrightarrow>
    uint (sweep_freq c (sweep_begin c i)) \<le> physical \<and>
    physical \<le> uint (sweep_freq c (sweep_begin c (i + 1) - 1)) \<and>
    (physical - uint (scan_first c)) mod uint (cc_step (cf_boards c)) = 0"

definition same_reading :: "nat \<Rightarrow> timed_scan \<Rightarrow> timed_scan \<Rightarrow> bool" where
  "same_reading i scan v \<longleftrightarrow> unat (cs_board v) = i \<and> cs_freq v = cs_freq scan"

fun replace_reading :: "nat \<Rightarrow> timed_scan \<Rightarrow> timed_scan list \<Rightarrow> timed_scan list option" where
  "replace_reading i scan [] = None"
| "replace_reading i scan (v # vs) =
     (if same_reading i scan v then Some (scan # vs)
      else map_option ((#) v) (replace_reading i scan vs))"

definition publish_scan :: "nat \<Rightarrow> timed_scan \<Rightarrow> rak_state \<Rightarrow> handled" where
  "publish_scan i scan s =
    (let n = concentrator_sample_count (concentrator_scan.truncate scan);
         s1 = put_health i (\<lambda>h. h\<lparr>ch_scans := ch_scans h + 1, ch_samples := ch_samples h + n\<rparr>) s;
         s2 = s1\<lparr>rs_scans := rs_scans s1 + 1, rs_samples := rs_samples s1 + n\<rparr>
     in case replace_reading i scan (rs_recent s2) of
          Some recent \<Rightarrow> (s2\<lparr>rs_recent := recent\<rparr>, None)
        | None \<Rightarrow>
            if length (rs_recent s2) < 2080 then (s2\<lparr>rs_recent := rs_recent s2 @ [scan]\<rparr>, None)
            else (s2, Some ''RAK live scan inventory exceeded its configured bound''))"

definition handle_scan :: "rak_env \<Rightarrow> rat \<Rightarrow> nat \<Rightarrow> u64 \<Rightarrow> rat \<Rightarrow> rat \<Rightarrow> u32 list \<Rightarrow> rak_state \<Rightarrow> handled" where
  "handle_scan env now i freq mono_start mono_end counts s =
    (let c = re_config env in
     if \<not> cc_scan (cf_boards c) then (s, Some ''RAK returned an unrequested scan'')
     else
       (let s = s\<lparr>rs_scan_id := rs_scan_id s + 1\<rparr>;
            physical = uint freq - cf_offset c;
            start = mono_start + re_clock_shift env;
            stop = mono_end + re_clock_shift env
        in if \<not> assigned c i physical then (s, Some ''RAK scan frequency does not match its assigned sweep'')
           else if start < 0 \<or> stop > now - re_started env + 1 / 10 \<or>
             start + 1 / 10000 < rs_previous_end s ! i
           then (s, Some ''RAK scan timing is inconsistent; survey stopped to preserve measurement integrity'')
           else
             (let s = s\<lparr>rs_previous_end := (rs_previous_end s)[i := stop]\<rparr>;
                  scan = \<lparr>cs_id = rs_scan_id s, cs_board = of_nat i, cs_freq = word_of_int physical,
                    cs_filter = 234300, cs_offset_db = Some (-11), cs_counts = counts,
                    ts_utc_start = re_started_utc env + start, ts_utc_end = re_started_utc env + stop,
                    ts_start = start, ts_end = stop, ts_position = re_position env (re_started env + stop)\<rparr>
              in publish_scan i scan (store_item env (Stored_scan scan) s))))"

definition count_reception :: "nat \<Rightarrow> reception \<Rightarrow> rak_state \<Rightarrow> rak_state" where
  "count_reception i r s =
    (let s1 = put_health i (\<lambda>h. h\<lparr>ch_receptions := ch_receptions h + 1,
           ch_crc_failures := ch_crc_failures h + (if rc_crc_valid r then 0 else 1)\<rparr>) s
     in s1\<lparr>rs_classified := rs_classified s1 +
            (if dr_status (rc_decoded r) = Classified \<and> dr_evidence (rc_decoded r) \<noteq> None then 1 else 0),
          rs_total := rs_total s1 + 1,
          rs_receptions := push_recent 512 r (rs_receptions s1)\<rparr>)"

definition handle_packet :: "rak_env \<Rightarrow> rat \<Rightarrow> nat \<Rightarrow> rak_message \<Rightarrow> rak_state \<Rightarrow> handled" where
  "handle_packet env now i m s =
    (let c = re_config env; b = cc_boards (cf_boards c) ! i in
     if \<not> bc_packets b \<or> pk_freq m \<noteq> word_of_int (uint (bc_freq b) + cf_offset c) \<or>
       pk_bw m \<noteq> bc_bw b \<or> pk_sf m \<noteq> bc_sf b
     then (s, Some ''RAK packet metadata does not match its configured service modem'')
     else
       (let s = s\<lparr>rs_packet_id := rs_packet_id s + 1\<rparr>;
            elapsed = now - re_started env;
            r = \<lparr>rc_id = rs_packet_id s, rc_utc = re_started_utc env + elapsed, rc_elapsed = elapsed,
              rc_freq = bc_freq b, rc_bw = bc_bw b, rc_sf = bc_sf b, rc_cr = pk_cr m, rc_duration = 0,
              rc_snr = pk_snr m, rc_freq_error = 0, rc_header_valid = pk_crc m, rc_crc_valid = pk_crc m,
              rc_label = ''Concentrator '' @ show_nat (i + 1),
              rc_decoded = (if cc_decode (cf_boards c)
                then classify_meshtastic (re_cipher env) (pk_payload m) (pk_crc m) (re_profiles env)
                else fresh_result),
              rc_position = re_position env now,
              rc_concentrator = Some \<lparr>md_board = of_nat i, md_rssi = pk_rssi m, md_us = pk_us m\<rparr>\<rparr>
        in (count_reception i r (store_item env (Stored_reception r) s), None)))"

definition rak_handle :: "rak_env \<Rightarrow> rat \<Rightarrow> bool \<Rightarrow> nat \<Rightarrow> rak_message \<Rightarrow> rak_state \<Rightarrow> handled" where
  "rak_handle env now stopping i m s0 =
    (let s = s0\<lparr>rs_last_record := (rs_last_record s0)[i := now]\<rparr> in
     case m of
       Error e \<Rightarrow> (s, Some e)
     | End \<Rightarrow> (s, if stopping then None else Some ''RAK worker stopped before the survey was stopped'')
     | Ready \<Rightarrow> handle_ready env now i s
     | _ \<Rightarrow>
         (let ready = ch_ready (rs_health s ! i);
              s = put_health i (\<lambda>h. h\<lparr>ch_last_update := now - re_started env\<rparr>) s
          in if \<not> ready then (s, Some ''RAK worker returned measurements before receiver initialization completed'')
             else case m of
                 Scan freq start stop counts \<Rightarrow> handle_scan env now i freq start stop counts s
               | Packet _ _ _ _ _ _ _ _ _ \<Rightarrow> handle_packet env now i m s
               | _ \<Rightarrow> (s, None)))"

text \<open>A board times out 40 seconds after its start, 8 seconds after its last record once ready.\<close>

definition timed_out :: "rat \<Rightarrow> nat \<Rightarrow> rak_state \<Rightarrow> bool" where
  "timed_out now i s \<longleftrightarrow> now - rs_last_record s ! i > (if ch_ready (rs_health s ! i) then 8 else 40)"

text \<open>The records of one poll of a board, in order, up to the first exception.\<close>

fun handle_all :: "rak_env \<Rightarrow> rat \<Rightarrow> bool \<Rightarrow> nat \<Rightarrow> rak_message list \<Rightarrow> rak_state \<Rightarrow> handled" where
  "handle_all env now stopping i [] s = (s, None)"
| "handle_all env now stopping i (m # ms) s =
     (case rak_handle env now stopping i m s of
        (s', None) \<Rightarrow> handle_all env now stopping i ms s'
      | (s', Some e) \<Rightarrow> (s', Some e))"

end
