(* ===== verification/RakSweep.thy ===== *)
theory RakSweep
  imports RakSurvey
begin

text \<open>
  The correctness of the division of the sweep: no gap and no overlap between the boards,
  agreement of each worker with its assignment, and the invariant of the live inventory of
  readings.
\<close>

section \<open>The sweep in natural numbers\<close>

lemma validate_receiver_rak:
  assumes "validate_receiver c = Inr ()" "is_rak c"
  shows "validate_concentrator_config (cf_boards c) (cf_center c) (cf_span c) (cf_offset c) True = Inr ()"
  using assms unfolding validate_receiver_def by (simp add: bind_result_Inr)

text \<open>Whole-number form of the edges of an accepted survey.\<close>

lemma half_edges:
  fixes C S :: nat
  assumes "(902000000 :: rat) \<le> of_nat C - of_nat S / 2" "of_nat C + of_nat S / 2 \<le> (928000000 :: rat)"
  shows "902000000 \<le> C - S div 2" "C + S div 2 \<le> 928000000" "S div 2 \<le> C"
proof -
  have "(of_nat (2 * 902000000 + S) :: rat) \<le> of_nat (2 * C)" "(of_nat (2 * C + S) :: rat) \<le> of_nat (2 * 928000000)"
    using assms by (simp_all add: field_simps)
  then have "2 * 902000000 + S \<le> 2 * C" "2 * C + S \<le> 2 * 928000000" by (simp_all only: of_nat_le_iff)
  then show "902000000 \<le> C - S div 2" "C + S div 2 \<le> 928000000" "S div 2 \<le> C" by linarith+
qed

lemma half_edges_offset:
  fixes C S :: nat and off :: int
  assumes "(902000000 :: rat) \<le> of_nat C - of_nat S / 2 + of_int off" "of_nat C + of_nat S / 2 + of_int off \<le> (928000000 :: rat)"
  shows "902000000 \<le> int C - int S div 2 + off" "int C + int S div 2 + off \<le> 928000000"
proof -
  have "(of_int (2 * 902000000 + int S) :: rat) \<le> of_int (2 * int C + 2 * off)"
    "(of_int (2 * int C + int S + 2 * off) :: rat) \<le> of_int (2 * 928000000)"
    using assms by (simp_all add: field_simps)
  then have "2 * 902000000 + int S \<le> 2 * int C + 2 * off" "2 * int C + int S + 2 * off \<le> 2 * 928000000"
    by (simp_all only: of_int_le_iff)
  then show "902000000 \<le> int C - int S div 2 + off" "int C + int S div 2 + off \<le> 928000000" by linarith+
qed

lemma uint_eq: "uint w = int (unat w)"
  by simp

lemma unat_sub_u64: "unat b \<le> unat a \<Longrightarrow> unat (a - b :: u64) = unat a - unat b"
  by (simp add: unat_sub word_le_nat_alt)

lemma unat_add_u64: "unat a + unat b < 18446744073709551616 \<Longrightarrow> unat (a + b :: u64) = unat a + unat b"
  by (simp add: unat_add_lem [THEN iffD1])

lemma unat_mult_u64: "unat a * unat b < 18446744073709551616 \<Longrightarrow> unat (a * b :: u64) = unat a * unat b"
  by (simp add: unat_mult_lem [THEN iffD1])

locale rak_plan =
  fixes c :: receiver_config
  assumes valid: "validate_receiver c = Inr ()" and rak: "is_rak c"
begin

abbreviation C where "C \<equiv> unat (cf_center c)"
abbreviation H where "H \<equiv> unat (cf_span c) div 2"
abbreviation D where "D \<equiv> unat (cc_step (cf_boards c))"
abbreviation N where "N \<equiv> board_count c"
abbreviation P where "P \<equiv> unat (scan_points c)"

lemma config: "validate_concentrator_config (cf_boards c) (cf_center c) (cf_span c) (cf_offset c) True = Inr ()"
  by (rule validate_receiver_rak [OF valid rak])

lemma limits:
  "N \<noteq> 0" "N \<le> 2" "250000 \<le> H" "H \<le> 13000000" "902000000 \<le> C - H" "H \<le> C" "C + H \<le> 928000000"
  "25000 \<le> D" "D \<le> 1000000" "cc_samples (cf_boards c) = 2000"
  "902000000 \<le> int C - int H + cf_offset c" "int C + int H + cf_offset c \<le> 928000000" "\<bar>cf_offset c\<bar> \<le> 100000"
proof -
  have v: "cc_boards (cf_boards c) \<noteq> [] \<and> length (cc_boards (cf_boards c)) \<le> 2 \<and>
    500000 \<le> unat (cf_span c) \<and> unat (cf_span c) \<le> 26000000 \<and>
    25000 \<le> D \<and> D \<le> 1000000 \<and> cc_samples (cf_boards c) = 2000 \<and>
    902000000 \<le> survey_lower (cf_center c) (cf_span c) \<and> survey_upper (cf_center c) (cf_span c) \<le> 928000000 \<and>
    902000000 \<le> survey_lower (cf_center c) (cf_span c) + of_int (cf_offset c) \<and>
    survey_upper (cf_center c) (cf_span c) + of_int (cf_offset c) \<le> 928000000 \<and> \<bar>cf_offset c\<bar> \<le> 100000"
    using config unfolding validate_concentrator_config_def bind_result_Inr by (simp add: not_less abs_le_iff)
  then show "N \<noteq> 0" "N \<le> 2" "250000 \<le> H" "H \<le> 13000000" "25000 \<le> D" "D \<le> 1000000"
    "cc_samples (cf_boards c) = 2000" "\<bar>cf_offset c\<bar> \<le> 100000"
    by (auto simp: board_count_def)
  from v show "902000000 \<le> C - H" "H \<le> C" "C + H \<le> 928000000"
    using half_edges [of C "unat (cf_span c)"] by (simp_all only: survey_lower_def survey_upper_def rat_of_word_def)
  have "int H = int (unat (cf_span c)) div 2" by (simp add: zdiv_int)
  with v show "902000000 \<le> int C - int H + cf_offset c" "int C + int H + cf_offset c \<le> 928000000"
    using half_edges_offset [of C "unat (cf_span c)" "cf_offset c"]
    by (simp_all only: survey_lower_def survey_upper_def rat_of_word_def)
qed

lemma half_word: "unat (ucast (cf_span c div 2) :: u64) = H"
  by (simp add: unat_ucast_32_64 unat_div)

lemma scan_first: "unat (scan_first c) = C - H + 117150"
proof -
  have "unat (cf_center c - ucast (cf_span c div 2)) = C - H"
    using limits half_word by (simp add: unat_sub_u64)
  moreover from this have "unat (cf_center c - ucast (cf_span c div 2)) + unat (117150 :: u64) < 18446744073709551616"
    using limits(5-7) by simp
  ultimately show ?thesis unfolding scan_first_def by (subst unat_add_u64) simp_all
qed

lemma scan_last: "unat (scan_last c) = C + H - 117150"
proof -
  have "C + H < 18446744073709551616" using limits(7) by linarith
  then have "unat (cf_center c + ucast (cf_span c div 2)) = C + H"
    using half_word by (subst unat_add_u64) simp_all
  moreover have "117150 \<le> C + H" using limits(3) by linarith
  ultimately show ?thesis unfolding scan_last_def by (subst unat_sub_u64) simp_all
qed

lemma points: "P = (2 * H - 234300) div D + 1"
proof -
  have le: "C - H + 117150 \<le> C + H - 117150" "C + H - 117150 - (C - H + 117150) = 2 * H - 234300"
    using limits(3,6) by linarith+
  then have "unat (scan_last c - scan_first c) = 2 * H - 234300"
    by (subst unat_sub_u64) (simp_all only: scan_first scan_last)
  then have q: "unat ((scan_last c - scan_first c) div ucast (cc_step (cf_boards c))) = (2 * H - 234300) div D"
    by (simp add: unat_div unat_ucast_32_64)
  have "(2 * H - 234300) div D \<le> 2 * H - 234300" by (rule div_le_dividend)
  then have "(2 * H - 234300) div D + 1 < 18446744073709551616" using limits(4) by linarith
  then show ?thesis unfolding scan_points_def using q by (subst unat_add_u64) simp_all
qed

lemma points_bounds: "0 < P" "P \<le> 1040" "(P - 1) * D \<le> 2 * H - 234300"
proof -
  show "0 < P" by (simp add: points)
  have "(2 * H - 234300) div D \<le> (2 * H - 234300) div 25000"
    using limits by (intro div_le_mono2) simp_all
  also have "\<dots> \<le> 25765700 div 25000" using limits(4) by (intro div_le_mono) linarith
  finally show "P \<le> 1040" by (simp add: points)
  show "(P - 1) * D \<le> 2 * H - 234300" by (simp add: points div_times_less_eq_dividend)
qed

lemma sweep_begin: "i \<le> 2 \<Longrightarrow> unat (sweep_begin c i) = P * i div N"
proof -
  assume i: "i \<le> 2"
  then have "unat (of_nat i :: u64) = i" "unat (of_nat N :: u64) = N"
    using limits by (simp_all add: unat_of_nat)
  moreover have "P * i < 18446744073709551616"
  proof -
    have "P * i \<le> 1040 * 2" using points_bounds i by (intro mult_le_mono)
    then show ?thesis by simp
  qed
  ultimately show ?thesis
    unfolding sweep_begin_def by (simp add: unat_div unat_mult_u64)
qed

lemma sweep_freq: "unat k < P \<Longrightarrow> unat (sweep_freq c k) = C - H + 117150 + unat k * D"
proof -
  assume k: "unat k < P"
  then have "unat k * D \<le> (P - 1) * D" by (intro mult_le_mono) simp_all
  also have "\<dots> \<le> 26000000" using points_bounds(3) limits(4) by linarith
  finally have b: "unat k * D \<le> 26000000" .
  then have "unat (k * ucast (cc_step (cf_boards c))) = unat k * D"
    by (subst unat_mult_u64) (simp_all add: unat_ucast_32_64)
  then show ?thesis
    unfolding sweep_freq_def using scan_first limits(6,7) b by (subst unat_add_u64) simp_all
qed

lemma sweep_freq_edge: "k < P \<Longrightarrow> C - H + 117150 + k * D \<le> C + H - 117150"
proof -
  assume k: "k < P"
  then have "k * D \<le> (P - 1) * D" by (intro mult_le_mono) simp_all
  with points_bounds(3) limits show ?thesis by linarith
qed

lemma begins: "unat (sweep_begin c 0) = 0" "unat (sweep_begin c N) = P"
  "i < N \<Longrightarrow> unat (sweep_begin c i) \<le> unat (sweep_begin c (i + 1))"
  "i < N \<Longrightarrow> unat (sweep_begin c (i + 1)) \<le> P"
proof -
  show "unat (sweep_begin c 0) = 0" "unat (sweep_begin c N) = P"
    using sweep_begin [of 0] sweep_begin [of N] limits by simp_all
  assume i: "i < N"
  then have b: "unat (sweep_begin c i) = P * i div N" "unat (sweep_begin c (i + 1)) = P * (i + 1) div N"
    using limits by (intro sweep_begin; simp)+
  show "unat (sweep_begin c i) \<le> unat (sweep_begin c (i + 1))"
    unfolding b by (intro div_le_mono) simp
  have "P * (i + 1) div N \<le> P * N div N" using i by (intro div_le_mono mult_le_mono) simp_all
  then show "unat (sweep_begin c (i + 1)) \<le> P" unfolding b using limits by simp
qed

lemma partition: "k < P \<Longrightarrow> \<exists>!i. i < N \<and> unat (sweep_begin c i) \<le> k \<and> k < unat (sweep_begin c (i + 1))"
proof -
  assume k: "k < P"
  from limits(1,2) consider "N = 1" | "N = 2" by linarith
  then show ?thesis
  proof cases
    case 1
    then show ?thesis using k begins(1,2) by (intro ex1I [of _ 0]) simp_all
  next
    case 2
    define h where "h = unat (sweep_begin c 1)"
    have b: "unat (sweep_begin c 0) = 0" "unat (sweep_begin c (Suc 1)) = P" "unat (sweep_begin c 1) = h"
      using begins(1,2) 2 by (simp_all add: h_def numeral_2_eq_2)
    show ?thesis
    proof (cases "k < h")
      case True
      then show ?thesis using 2 k b by (intro ex1I [of _ 0]) (auto simp: less_Suc_eq numeral_2_eq_2)
    next
      case False
      then show ?thesis using 2 k b by (intro ex1I [of _ 1]) (auto simp: less_Suc_eq numeral_2_eq_2)
    qed
  qed
qed

text \<open>The frequencies assigned to a board, as points of the grid.\<close>

lemma assigned_iff:
  assumes "i < N" "unat (sweep_begin c i) < unat (sweep_begin c (i + 1))"
  shows "assigned c i f \<longleftrightarrow> (\<exists>k. unat (sweep_begin c i) \<le> k \<and> k < unat (sweep_begin c (i + 1)) \<and>
    f = int (C - H + 117150 + k * D))"
proof -
  let ?b = "unat (sweep_begin c i)" and ?e = "unat (sweep_begin c (i + 1))" and ?F = "C - H + 117150"
  have e: "unat (sweep_begin c (i + 1) - 1) = ?e - 1"
    using assms(2) by (subst unat_sub_u64) simp_all
  have le: "?e \<le> P" by (rule begins(4) [OF assms(1)])
  have be: "unat (sweep_begin c i) < P" "unat (sweep_begin c (i + 1) - 1) < P"
    using assms(2) le e by linarith+
  have lo: "uint (sweep_freq c (sweep_begin c i)) = int (?F + ?b * D)"
    by (simp only: uint_eq sweep_freq [OF be(1)])
  have hi: "uint (sweep_freq c (sweep_begin c (i + 1) - 1)) = int (?F + (?e - 1) * D)"
    by (simp only: uint_eq sweep_freq [OF be(2)] e)
  have fi: "uint (scan_first c) = int ?F" by (simp only: uint_eq scan_first)
  have d: "uint (cc_step (cf_boards c)) = int D" by simp
  have pos: "0 < D" using limits by linarith
  show ?thesis
  proof
    assume a: "assigned c i f"
    then have r: "int (?F + ?b * D) \<le> f" "f \<le> int (?F + (?e - 1) * D)" "int D dvd f - int ?F"
      unfolding assigned_def lo hi fi d by (auto simp only: mod_eq_0_iff_dvd)
    then obtain q where q: "f - int ?F = int D * q" by (elim dvdE)
    with r have "int ?b * int D \<le> q * int D" "q * int D \<le> int (?e - 1) * int D" by (simp_all add: ac_simps)
    then have b: "int ?b \<le> q" "q \<le> int (?e - 1)" using pos by (simp_all only: mult_le_cancel_right)
    from b(1) obtain m where m: "q = int m" by (metis of_nat_0_le_iff order_trans nonneg_int_cases)
    then have "f = int (?F + m * D)" using q by (simp add: ac_simps)
    moreover have "?b \<le> m" "m < ?e" using b assms(2) unfolding m by linarith+
    ultimately show "\<exists>k. ?b \<le> k \<and> k < ?e \<and> f = int (?F + k * D)" by blast
  next
    assume "\<exists>k. ?b \<le> k \<and> k < ?e \<and> f = int (?F + k * D)"
    then obtain k where k: "?b \<le> k" "k < ?e" "f = int (?F + k * D)" by blast
    then have "?F + ?b * D \<le> ?F + k * D" "?F + k * D \<le> ?F + (?e - 1) * D"
      by (intro add_left_mono mult_le_mono; simp)+
    then have "int (?F + ?b * D) \<le> f" "f \<le> int (?F + (?e - 1) * D)"
      unfolding k(3) by (simp_all only: of_nat_le_iff)
    moreover have "f - int ?F = int k * int D" unfolding k(3) by (simp only: of_nat_add of_nat_mult)
    ultimately show "assigned c i f"
      unfolding assigned_def lo hi fi d by simp
  qed
qed

text \<open>The sweep of a worker started for board \<open>i\<close> visits exactly the points assigned to it.\<close>

lemma worker_sweep:
  assumes "i < N" "unat (sweep_begin c i) < unat (sweep_begin c (i + 1))"
    and "ro_step ops = cc_step (cf_boards c)"
    and "int (unat (ro_lower ops)) = int (unat (sweep_freq c (sweep_begin c i))) + cf_offset c"
    and "int (unat (ro_upper ops)) = int (unat (sweep_freq c (sweep_begin c (i + 1) - 1))) + cf_offset c"
  defines "n \<equiv> unat (sweep_begin c (i + 1)) - unat (sweep_begin c i)"
  shows "unat ((next_scan ops ^^ j) (ro_lower ops)) = unat (ro_lower ops) + (j mod n) * D"
proof -
  let ?b = "unat (sweep_begin c i)" and ?e = "unat (sweep_begin c (i + 1))" and ?F = "C - H + 117150"
  let ?L = "unat (ro_lower ops)"
  have le: "?e \<le> P" by (rule begins(4) [OF assms(1)])
  have e: "unat (sweep_begin c (i + 1) - 1) = ?e - 1"
    using assms(2) by (subst unat_sub_u64) simp_all
  have be: "unat (sweep_begin c i) < P" "unat (sweep_begin c (i + 1) - 1) < P"
    using assms(2) le e by linarith+
  have n: "0 < n" "?e - 1 = ?b + (n - 1)" using assms(2) by (simp_all add: n_def)
  have "int (unat (ro_upper ops)) = int ?L + int ((n - 1) * D)"
    using assms(4,5) unfolding sweep_freq [OF be(1)] sweep_freq [OF be(2)] e n(2)
    by (simp add: distrib_right)
  then have "int (unat (ro_upper ops)) = int (?L + (n - 1) * D)" by (simp only: of_nat_add)
  then have upper: "unat (ro_upper ops) = ?L + (n - 1) * D" by (simp only: of_nat_eq_iff)
  have small: "unat (ro_upper ops) < 4294967296" by (rule unat_u32_less)
  have D: "unat (ro_step ops) = D" "0 < D" using assms(3) limits by simp_all
  show ?thesis
  proof (induction j)
    case 0
    then show ?case by simp
  next
    case (Suc j)
    let ?m = "j mod n"
    obtain f where f: "(next_scan ops ^^ j) (ro_lower ops) = f" by blast
    have next_f: "(next_scan ops ^^ Suc j) (ro_lower ops) = next_scan ops f" using f by simp
    note Suc = Suc [unfolded f]
    have m: "?m < n" using n by simp
    then have le: "?m * D \<le> (n - 1) * D" by (intro mult_le_mono) simp_all
    then have "f \<le> ro_upper ops" using Suc upper by (simp add: word_le_nat_alt)
    then have "unat (ro_upper ops - f) = unat (ro_upper ops) - unat f"
      by (simp add: unat_sub)
    also have "\<dots> = (n - 1 - ?m) * D"
      unfolding Suc upper by (simp add: diff_mult_distrib)
    finally have diff: "unat (ro_upper ops - f) = (n - 1 - ?m) * D" .
    show ?case
    proof (cases "?m = n - 1")
      case True
      then have "Suc j mod n = 0" using n by (simp add: mod_Suc)
      moreover have "ro_upper ops - f < ro_step ops"
        using diff True D by (simp add: word_less_nat_alt)
      ultimately show ?thesis unfolding next_f by (simp add: next_scan_def)
    next
      case False
      then have "Suc ?m < n" using m by linarith
      then have m': "Suc j mod n = Suc ?m" "Suc ?m \<le> n - 1" by (auto simp: mod_Suc)
      have "1 * D \<le> (n - 1 - ?m) * D" using m' by (intro mult_le_mono) simp_all
      then have "\<not> ro_upper ops - f < ro_step ops" using diff D by (simp add: word_less_nat_alt)
      then have step: "(next_scan ops ^^ Suc j) (ro_lower ops) = f + ro_step ops"
        unfolding next_f by (simp add: next_scan_def)
      have "Suc ?m * D \<le> (n - 1) * D" using m' by (intro mult_le_mono) simp_all
      then have "unat f + unat (ro_step ops) < 4294967296" using Suc upper small D by simp
      then have "unat (f + ro_step ops) = unat f + D"
        using D by (simp add: unat_add_lem [THEN iffD1])
      then show ?thesis unfolding step m' Suc by simp
    qed
  qed
qed

end

section \<open>The worker accepts its command line\<close>

lemma hex_digit_of_digit: "is_digit d \<Longrightarrow> hex_digit d = Some (digit_val d)"
  by (simp add: hex_digit_def char_between_def is_digit_def digit_val_def code_def)

lemma digits_in_10: "list_all is_digit s \<Longrightarrow> digits_in 10 acc s = Some (digits_from acc s)"
proof (induction s arbitrary: acc)
  case (Cons d s)
  then show ?case by (simp add: hex_digit_of_digit digits_from_def)
qed simp

lemma digit_not_blank: "is_digit d \<Longrightarrow> \<not> is_blank d \<and> d \<notin> {CHR ''-'', CHR ''+'', CHR '' ''}"
  by (auto simp: is_blank_def is_digit_def code_def)

lemma worker_integer_show:
  assumes "n \<le> 4294967295"
  shows "worker_integer (show_nat n) = Some (word_of_nat n)"
proof -
  obtain d t where s: "show_nat n = d # t" by (cases "show_nat n") simp_all
  have dg: "list_all is_digit (d # t)" using show_nat_digits [of n] s by simp
  then have nb: "\<not> is_blank d" "d \<notin> {CHR ''-'', CHR ''+'', CHR '' ''}" using digit_not_blank by auto
  have sign: "read_sign (d # t) = (False, d # t)"
    using read_sign_digits(1) [OF dg, of "[]"] by simp
  have v: "digits_value (d # t) = n" using digits_value_show_nat [of n] s by simp
  have "strtoul0 (show_nat n) = Some n"
  proof (cases "n = 0")
    case True
    then have "show_nat n = [digit_char 0]" by (simp add: show_nat.simps)
    also have "digit_char 0 = CHR ''0''" by (metis digit_char_val digit_val_zero zero_is_digit)
    finally have "show_nat n = ''0''" .
    then show ?thesis using True
      by (simp add: strtoul0_def is_blank_def read_sign_def code_def hex_digit_def char_between_def)
  next
    case False
    then have "d \<noteq> CHR ''0''" using hd_show_nat [of n] s by simp
    moreover have "n < 2 ^ 64" using assms by simp
    ultimately show ?thesis
      using nb(1) sign digits_in_10 [OF dg, of 0] v unfolding s
      by (simp add: strtoul0_def Let_def)
  qed
  then show ?thesis using nb(2) assms unfolding worker_integer_def s by simp
qed

lemma worker_integer_word: "worker_integer (show_word (w :: u32)) = Some w"
  using worker_integer_show [of "unat w"] unat_u32_less [of w] by (simp add: show_word_def)

lemma worker_integer_int:
  assumes "0 \<le> z" "z \<le> 4294967295"
  shows "worker_integer (show_int z) = Some (word_of_int z)"
  using worker_integer_show [of "nat z"] assms by (simp add: show_int_def)

lemma read_worker_arguments:
  assumes "0 \<le> fq" "fq \<le> 4294967295" "0 \<le> lo" "lo \<le> 4294967295" "0 \<le> up" "up \<le> 4294967295" "i \<le> 1"
  shows "read_options [''--device'', dev, ''--frequency'', show_int fq, ''--bandwidth'', show_word bw,
      ''--sf'', show_word sf, ''--sync'', show_word sync, ''--scan-lower'', show_int lo,
      ''--scan-upper'', show_int up, ''--scan-step'', show_word step, ''--scan-samples'', show_word samples,
      ''--board-index'', show_nat i] [] initial_options =
    Some \<lparr>ro_device = Some dev, ro_freq = word_of_int fq, ro_bw = bw, ro_sf = sf, ro_sync = sync,
      ro_lower = word_of_int lo, ro_upper = word_of_int up, ro_step = step, ro_samples = samples,
      ro_board = word_of_nat i\<rparr>"
proof -
  have "worker_integer (show_nat i) = Some (word_of_nat i)"
    using assms(7) by (intro worker_integer_show) simp
  then show ?thesis
    using worker_integer_int [OF assms(1,2)] worker_integer_int [OF assms(3,4)] worker_integer_int [OF assms(5,6)]
    by (simp add: option_names_def initial_options_def set_number_def worker_integer_word)
qed

definition example_rak :: receiver_config where
  "example_rak = default_config\<lparr>cf_synthetic := False, cf_hardware := Rak5146, cf_center := 915000000,
     cf_span := 26000000, cf_boards := default_concentrators\<lparr>cc_boards :=
       [default_board\<lparr>bc_path := ''/dev/ttyACM0''\<rparr>,
        default_board\<lparr>bc_path := ''/dev/ttyACM1'', bc_freq := 908750000, bc_bw := 500000\<rparr>]\<rparr>\<rparr>"

lemma example_rak_valid: "validate_receiver example_rak = Inr ()" "is_rak example_rak"
  by (simp_all add: validate_receiver_def example_rak_def default_config_def default_concentrators_def
      default_board_def validate_concentrator_config_def validate_board_def validate_board_paths_def
      tuned_center_hz_def check_provenance_def guard_err_def survey_lower_def survey_upper_def Let_def)

interpretation example_plan: rak_plan example_rak
  by unfold_locales (use example_rak_valid in simp_all)

context rak_plan begin

lemma board:
  assumes "i < N"
  defines "b \<equiv> cc_boards (cf_boards c) ! i"
  shows "bc_bw b = 125000 \<or> bc_bw b = 250000 \<or> bc_bw b = 500000" "7 \<le> bc_sf b" "bc_sf b \<le> 12"
    "bc_sync b = 0x2b \<or> bc_sync b = 0x12 \<or> bc_sync b = 0x34" "bc_packets b \<or> cc_scan (cf_boards c)"
    "bc_packets b \<Longrightarrow> 902000000 \<le> uint (bc_freq b) + cf_offset c \<and> uint (bc_freq b) + cf_offset c \<le> 928000000"
proof -
  have v: "validate_board (cf_boards c) (cf_center c) (cf_span c) True i b = Inr () \<and>
    902000000 \<le> survey_lower (cf_center c) (cf_span c) + of_int (cf_offset c) \<and>
    survey_upper (cf_center c) (cf_span c) + of_int (cf_offset c) \<le> 928000000"
    using config assms unfolding validate_concentrator_config_def bind_result_Inr for_each_Inr
    by (simp add: not_less board_count_def)
  then have w: "(bc_packets b \<or> cc_scan (cf_boards c)) \<and> (bc_bw b = 125000 \<or> bc_bw b = 250000 \<or> bc_bw b = 500000) \<and>
    7 \<le> unat (bc_sf b) \<and> unat (bc_sf b) \<le> 12 \<and> (bc_sync b = 0x2b \<or> bc_sync b = 0x12 \<or> bc_sync b = 0x34) \<and>
    (bc_packets b \<longrightarrow>
      survey_lower (cf_center c) (cf_span c) \<le> rat_of_word (bc_freq b) - rat_of_word (bc_bw b) / 2 \<and>
      rat_of_word (bc_freq b) + rat_of_word (bc_bw b) / 2 \<le> survey_upper (cf_center c) (cf_span c))"
    unfolding validate_board_def bind_result_Inr by (simp add: not_less)
  then show "bc_bw b = 125000 \<or> bc_bw b = 250000 \<or> bc_bw b = 500000" "7 \<le> bc_sf b" "bc_sf b \<le> 12"
    "bc_sync b = 0x2b \<or> bc_sync b = 0x12 \<or> bc_sync b = 0x34" "bc_packets b \<or> cc_scan (cf_boards c)"
    by (simp_all add: word_le_nat_alt)
  assume "bc_packets b"
  with v w have "902000000 \<le> rat_of_word (bc_freq b) - rat_of_word (bc_bw b) / 2 + of_int (cf_offset c)"
    "rat_of_word (bc_freq b) + rat_of_word (bc_bw b) / 2 + of_int (cf_offset c) \<le> 928000000" by linarith+
  moreover have "0 \<le> rat_of_word (bc_bw b) / 2" by simp
  ultimately have "902000000 \<le> rat_of_word (bc_freq b) + of_int (cf_offset c)"
    "rat_of_word (bc_freq b) + of_int (cf_offset c) \<le> 928000000" by linarith+
  then have "(of_int 902000000 :: rat) \<le> of_int (int (unat (bc_freq b)) + cf_offset c)"
    "(of_int (int (unat (bc_freq b)) + cf_offset c) :: rat) \<le> of_int 928000000"
    by (simp_all add: rat_of_word_def)
  then have "902000000 \<le> int (unat (bc_freq b)) + cf_offset c" "int (unat (bc_freq b)) + cf_offset c \<le> 928000000"
    by (simp_all only: of_int_le_iff)
  then show "902000000 \<le> uint (bc_freq b) + cf_offset c \<and> uint (bc_freq b) + cf_offset c \<le> 928000000" by simp
qed

lemma sweep_edges:
  assumes "i < N" "unat (sweep_begin c i) < unat (sweep_begin c (i + 1))"
  shows "902000000 \<le> uint (sweep_freq c (sweep_begin c i)) + cf_offset c"
    "uint (sweep_freq c (sweep_begin c i)) + cf_offset c \<le> uint (sweep_freq c (sweep_begin c (i + 1) - 1)) + cf_offset c"
    "uint (sweep_freq c (sweep_begin c (i + 1) - 1)) + cf_offset c \<le> 928000000"
    "uint (sweep_freq c (sweep_begin c (i + 1) - 1)) - uint (sweep_freq c (sweep_begin c i)) \<le> 1039 * int D"
proof -
  let ?b = "unat (sweep_begin c i)" and ?e = "unat (sweep_begin c (i + 1))"
  have le: "?e \<le> P" by (rule begins(4) [OF assms(1)])
  have e: "unat (sweep_begin c (i + 1) - 1) = ?e - 1"
    using assms(2) by (subst unat_sub_u64) simp_all
  have be: "unat (sweep_begin c i) < P" "unat (sweep_begin c (i + 1) - 1) < P"
    using assms(2) le e by linarith+
  note lo = uint_eq [of "sweep_freq c (sweep_begin c i)", unfolded sweep_freq [OF be(1)]]
  note hi = uint_eq [of "sweep_freq c (sweep_begin c (i + 1) - 1)", unfolded sweep_freq [OF be(2)] e]
  have mono: "?b * D \<le> (?e - 1) * D" using assms(2) by (intro mult_le_mono) simp_all
  have top: "C - H + 117150 + (?e - 1) * D \<le> C + H - 117150"
    using be(2) unfolding e by (rule sweep_freq_edge)
  have "(?e - 1) * D \<le> 1039 * D" using le points_bounds(2) by (intro mult_le_mono) simp_all
  with mono show "uint (sweep_freq c (sweep_begin c (i + 1) - 1)) - uint (sweep_freq c (sweep_begin c i)) \<le> 1039 * int D"
    unfolding lo hi by linarith
  show "902000000 \<le> uint (sweep_freq c (sweep_begin c i)) + cf_offset c"
    unfolding lo using limits(6,11) by linarith
  show "uint (sweep_freq c (sweep_begin c i)) + cf_offset c \<le> uint (sweep_freq c (sweep_begin c (i + 1) - 1)) + cf_offset c"
    unfolding lo hi using mono by linarith
  show "uint (sweep_freq c (sweep_begin c (i + 1) - 1)) + cf_offset c \<le> 928000000"
    unfolding hi using top limits(3,12) by linarith
qed

end

section \<open>Properties\<close>

text \<open>
  C19: the survey is divided among the boards without gap and without overlap. For every
  accepted configuration each point of the sweep belongs to exactly one board, and the filter
  around every point lies inside the requested range.
\<close>

theorem sweep_partitioned:
  assumes "validate_receiver c = Inr ()" and "is_rak c" and "k < scan_points c"
  shows "(\<exists>!i. i < board_count c \<and> sweep_begin c i \<le> k \<and> k < sweep_begin c (i + 1)) \<and>
    uint (cf_center c) - uint (cf_span c) div 2 \<le> uint (sweep_freq c k) - 117150 \<and>
    uint (sweep_freq c k) + 117150 \<le> uint (cf_center c) + uint (cf_span c) div 2"
proof -
  have p: "rak_plan c" using assms(1,2) by unfold_locales
  have k: "unat k < unat (scan_points c)" using assms(3) by (simp add: word_less_nat_alt)
  have f: "uint (sweep_freq c k) = int (unat (cf_center c) - unat (cf_span c) div 2 + 117150 + unat k * unat (cc_step (cf_boards c)))"
    by (simp only: uint_nat rak_plan.sweep_freq [OF p k])
  have h: "uint (cf_span c) div 2 = int (unat (cf_span c) div 2)" by (simp add: zdiv_int)
  note edge = rak_plan.sweep_freq_edge [OF p k] rak_plan.limits(3,6) [OF p]
  show ?thesis
  proof (intro conjI)
    show "\<exists>!i. i < board_count c \<and> sweep_begin c i \<le> k \<and> k < sweep_begin c (i + 1)"
      using rak_plan.partition [OF p k] by (simp add: word_le_nat_alt word_less_nat_alt)
    show "uint (cf_center c) - uint (cf_span c) div 2 \<le> uint (sweep_freq c k) - 117150"
      unfolding f h unfolding uint_eq [of "cf_center c"] using edge by linarith
    show "uint (sweep_freq c k) + 117150 \<le> uint (cf_center c) + uint (cf_span c) div 2"
      unfolding f h unfolding uint_eq [of "cf_center c"] using edge by linarith
  qed
qed

theorem sweep_partitioned_witness:
  "\<exists>!i. i < board_count example_rak \<and> sweep_begin example_rak i \<le> 70 \<and> 70 < sweep_begin example_rak (i + 1)"
proof -
  have "(70 :: u64) < scan_points example_rak"
    by (simp add: scan_points_def scan_first_def scan_last_def example_rak_def default_config_def default_concentrators_def)
  from sweep_partitioned [OF example_rak_valid this] show ?thesis by blast
qed

lemma scan_words:
  assumes l: "902000000 \<le> lo" "lo \<le> up" "up \<le> 928000000" "up - lo \<le> 1039 * int (unat step)"
    and step: "25000 \<le> unat step" "unat step \<le> 1000000"
  shows "902000000 \<le> (word_of_int lo :: u32) \<and> word_of_int up \<le> (928000000 :: u32) \<and>
      word_of_int lo \<le> (word_of_int up :: u32) \<and> 25000 \<le> step \<and> step \<le> (1000000 :: u32) \<and>
      (word_of_int up - word_of_int lo) div step \<le> 1039"
proof -
  have w: "uint (word_of_int lo :: u32) = lo" "uint (word_of_int up :: u32) = up"
    using l by (simp_all add: unsigned_of_int take_bit_int_eq_self)
  have le: "word_of_int lo \<le> (word_of_int up :: u32)" using l by (simp add: word_le_def w)
  have "uint (word_of_int up - word_of_int lo :: u32) = up - lo"
    using le by (simp add: uint_sub_if' word_le_def w)
  then have "uint (word_of_int up - word_of_int lo :: u32) \<le> 1039 * int (unat step)" using l by simp
  then have d: "unat (word_of_int up - word_of_int lo :: u32) \<le> 1039 * unat step"
    unfolding uint_eq by linarith
  have "unat (word_of_int up - word_of_int lo :: u32) div unat step \<le> 1039 * unat step div unat step"
    using d by (rule div_le_mono)
  then have "(word_of_int up - word_of_int lo) div step \<le> 1039"
    using step(1) by (simp add: word_le_nat_alt unat_div)
  moreover have "25000 \<le> step" "step \<le> 1000000" using step by (simp_all add: word_le_nat_alt)
  moreover have "902000000 \<le> (word_of_int lo :: u32)" "word_of_int up \<le> (928000000 :: u32)"
    using l by (simp_all add: word_le_def w)
  ultimately show ?thesis using le by blast
qed

text \<open>The options that the command line of board \<open>i\<close> stands for.\<close>

definition board_options :: "receiver_config \<Rightarrow> nat \<Rightarrow> rak_options" where
  "board_options c i =
     (let b = cc_boards (cf_boards c) ! i; scan = cc_scan (cf_boards c);
        edge = (\<lambda>k. if scan then uint (sweep_freq c k) + cf_offset c else 0)
      in \<lparr>ro_device = Some (bc_path b),
          ro_freq = word_of_int (if bc_packets b then uint (bc_freq b) + cf_offset c else 0), ro_bw = bc_bw b, ro_sf = bc_sf b,
          ro_sync = bc_sync b, ro_lower = word_of_int (edge (sweep_begin c i)), ro_upper = word_of_int (edge (sweep_begin c (i + 1) - 1)),
          ro_step = cc_step (cf_boards c), ro_samples = cc_samples (cf_boards c), ro_board = word_of_nat i\<rparr>)"

lemma board_sweeps:
  assumes p: "rak_plan c" and i: "i < board_count c" and args: "start_board c i = Inr args" and scan: "cc_scan (cf_boards c)"
  shows "unat (sweep_begin c i) < unat (sweep_begin c (i + 1))"
  using args scan rak_plan.begins(3) [OF p i]
  by (auto simp: start_board_def Let_def result_simps word_unat_eq_iff split: if_splits)

lemma worker_accepts:
  assumes "rak_plan c" and "i < board_count c" and "start_board c i = Inr args"
  shows "parse_options args =
      (if valid_device_path (bc_path (cc_boards (cf_boards c) ! i)) then Some (board_options c i) else None)"
    "uint (ro_freq (board_options c i)) = (if bc_packets (cc_boards (cf_boards c) ! i)
       then uint (bc_freq (cc_boards (cf_boards c) ! i)) + cf_offset c else 0)"
    "cc_scan (cf_boards c) \<Longrightarrow> uint (ro_lower (board_options c i)) = uint (sweep_freq c (sweep_begin c i)) + cf_offset c"
    "cc_scan (cf_boards c) \<Longrightarrow>
       uint (ro_upper (board_options c i)) = uint (sweep_freq c (sweep_begin c (i + 1) - 1)) + cf_offset c"
proof -
  let ?b = "cc_boards (cf_boards c) ! i" and ?scan = "cc_scan (cf_boards c)"
  note lim = rak_plan.limits [OF assms(1)] and board = rak_plan.board [OF assms(1) assms(2)]
  define fq where "fq = (if bc_packets ?b then uint (bc_freq ?b) + cf_offset c else 0)"
  define lf where "lf = uint (sweep_freq c (sweep_begin c i))"
  define uf where "uf = uint (sweep_freq c (sweep_begin c (i + 1) - 1))"
  define lo where "lo = (if ?scan then lf + cf_offset c else 0)"
  define up where "up = (if ?scan then uf + cf_offset c else 0)"
  have i: "i \<le> 1" using assms(2) lim(2) by simp
  note ne = board_sweeps [OF assms(1,2,3)]
  note edges = rak_plan.sweep_edges [OF assms(1) assms(2) ne, folded lf_def uf_def]
  have fq: "fq = 0 \<or> (902000000 \<le> fq \<and> fq \<le> 928000000)" using board(6) by (auto simp: fq_def)
  have lu: "lo = 0 \<and> up = 0 \<and> \<not> ?scan \<or>
      902000000 \<le> lo \<and> lo \<le> up \<and> up \<le> 928000000 \<and> up - lo \<le> 1039 * int (unat (cc_step (cf_boards c))) \<and> ?scan"
    using edges by (auto simp: lo_def up_def)
  let ?ops = "\<lparr>ro_device = Some (bc_path ?b), ro_freq = word_of_int fq, ro_bw = bc_bw ?b, ro_sf = bc_sf ?b,
    ro_sync = bc_sync ?b, ro_lower = word_of_int lo, ro_upper = word_of_int up, ro_step = cc_step (cf_boards c),
    ro_samples = cc_samples (cf_boards c), ro_board = word_of_nat i\<rparr>"
  have w: "uint (word_of_int fq :: u32) = fq" "uint (word_of_int lo :: u32) = lo" "uint (word_of_int up :: u32) = up"
    using fq lu by (auto simp: unsigned_of_int take_bit_int_eq_self)
  have "lf \<noteq> 0" "uf \<noteq> 0" if ?scan using edges that lim(13) by linarith+
  then have ends: "(if (if ?scan then sweep_freq c (sweep_begin c i) else 0) \<noteq> 0
        then uint (if ?scan then sweep_freq c (sweep_begin c i) else 0) + cf_offset c else 0) = lo"
      "(if (if ?scan then sweep_freq c (sweep_begin c (i + 1) - 1) else 0) \<noteq> 0
        then uint (if ?scan then sweep_freq c (sweep_begin c (i + 1) - 1) else 0) + cf_offset c else 0) = up"
    by (auto simp: lo_def up_def lf_def uf_def)
  have "args = worker_arguments ?b (cf_offset c) (if ?scan then sweep_freq c (sweep_begin c i) else 0)
      (if ?scan then sweep_freq c (sweep_begin c (i + 1) - 1) else 0) (cc_step (cf_boards c)) (cc_samples (cf_boards c)) i"
    using assms(3) unfolding start_board_def Let_def bind_result_Inr by blast
  then have args: "args = [''--device'', bc_path ?b, ''--frequency'', show_int fq, ''--bandwidth'', show_word (bc_bw ?b),
      ''--sf'', show_word (bc_sf ?b), ''--sync'', show_word (bc_sync ?b), ''--scan-lower'', show_int lo,
      ''--scan-upper'', show_int up, ''--scan-step'', show_word (cc_step (cf_boards c)), ''--scan-samples'',
      show_word (cc_samples (cf_boards c)), ''--board-index'', show_nat i]"
    unfolding worker_arguments_def ends fq_def by simp
  have read: "read_options args [] initial_options = Some ?ops"
    unfolding args by (rule read_worker_arguments) (use fq lu i in auto)
  have small: "word_of_nat i \<le> (1 :: u32)" using i by (cases i) simp_all
  have order: "902000000 \<le> (word_of_int fq :: u32) \<and> word_of_int fq \<le> (928000000 :: u32)" if "fq \<noteq> 0"
    using fq that by (simp add: word_le_def w)
  have sweep: "902000000 \<le> (word_of_int lo :: u32) \<and> word_of_int up \<le> (928000000 :: u32) \<and>
      word_of_int lo \<le> (word_of_int up :: u32) \<and> 25000 \<le> cc_step (cf_boards c) \<and> cc_step (cf_boards c) \<le> 1000000 \<and>
      (word_of_int up - word_of_int lo) div cc_step (cf_boards c) \<le> 1039" if "lo \<noteq> 0"
    using scan_words [of lo up "cc_step (cf_boards c)"] lu that lim(8,9) by auto
  have zero: "word_of_int lo = (0 :: u32) \<longleftrightarrow> lo = 0" "word_of_int up = (0 :: u32) \<longleftrightarrow> up = 0"
    "word_of_int fq = (0 :: u32) \<longleftrightarrow> fq = 0"
    using w by (metis uint_0_eq word_of_int_0)+
  have some: "fq \<noteq> 0 \<or> lo \<noteq> 0"
    using board(5,6) lu by (auto simp: fq_def)
  have "lo = 0 \<longleftrightarrow> up = 0" using lu by auto
  then have "options_ok ?ops \<longleftrightarrow> valid_device_path (bc_path ?b)"
    unfolding options_ok_def using small board(1-4) lim(10) order sweep some
    by (simp add: zero)
  then have "parse_options args = (if valid_device_path (bc_path ?b) then Some ?ops else None)" by (simp add: parse_options_def read)
  moreover have ops: "?ops = board_options c i" by (simp add: board_options_def Let_def fq_def lo_def up_def lf_def uf_def)
  ultimately show "parse_options args = (if valid_device_path (bc_path ?b) then Some (board_options c i) else None)" by simp
  show "uint (ro_freq (board_options c i)) = (if bc_packets ?b then uint (bc_freq ?b) + cf_offset c else 0)"
    using w(1) by (simp add: ops [symmetric] fq_def)
  show "uint (ro_lower (board_options c i)) = uint (sweep_freq c (sweep_begin c i)) + cf_offset c" if ?scan
    using w(2) that by (simp add: ops [symmetric] lo_def lf_def)
  show "uint (ro_upper (board_options c i)) = uint (sweep_freq c (sweep_begin c (i + 1) - 1)) + cf_offset c" if ?scan
    using w(3) that by (simp add: ops [symmetric] up_def uf_def)
qed

lemma worker_visits:
  assumes p: "rak_plan c" and i: "i < board_count c"
    and args: "start_board c i = Inr args" and scan: "cc_scan (cf_boards c)"
  shows "assigned c i (uint ((next_scan (board_options c i) ^^ j) (ro_lower (board_options c i))) - cf_offset c)"
proof -
  let ?ops = "board_options c i"
  note ne = board_sweeps [OF p i args scan] and ac = worker_accepts [OF p i args]
  have step: "ro_step ?ops = cc_step (cf_boards c)"
    "int (unat (ro_lower ?ops)) = int (unat (sweep_freq c (sweep_begin c i))) + cf_offset c"
    "int (unat (ro_upper ?ops)) = int (unat (sweep_freq c (sweep_begin c (i + 1) - 1))) + cf_offset c"
    using ac(3,4) [OF scan] by (simp_all add: board_options_def Let_def)
  let ?n = "unat (sweep_begin c (i + 1)) - unat (sweep_begin c i)"
  have n: "0 < ?n" using ne by simp
  have "unat (sweep_begin c i) < unat (scan_points c)"
    using ne rak_plan.begins(4) [OF p i] by linarith
  note sf = rak_plan.sweep_freq [OF p this]
  have "unat ((next_scan ?ops ^^ j) (ro_lower ?ops)) = unat (ro_lower ?ops) + (j mod ?n) * unat (cc_step (cf_boards c))"
    by (rule rak_plan.worker_sweep [OF p i ne step])
  then have "uint ((next_scan ?ops ^^ j) (ro_lower ?ops)) - cf_offset c =
      int (unat (cf_center c) - unat (cf_span c) div 2 + 117150 +
        (unat (sweep_begin c i) + j mod ?n) * unat (cc_step (cf_boards c)))"
    using step(2) unfolding uint_eq [of "(next_scan ?ops ^^ j) (ro_lower ?ops)"] sf
    by (simp only: of_nat_add distrib_right)
  moreover have "unat (sweep_begin c i) + j mod ?n < unat (sweep_begin c (i + 1))"
    using mod_less_divisor [OF n, of j] by linarith
  ultimately show ?thesis
    unfolding rak_plan.assigned_iff [OF p i ne]
    by (intro exI [of _ "unat (sweep_begin c i) + j mod ?n"]) simp
qed

text \<open>
  C16: the parent and its worker agree. The command line that the parent builds from an accepted
  configuration for a board is accepted by the worker exactly if the device path of the board has
  the form that the worker demands (the configuration itself may name any path); the worker then
  has the configured modem settings, and every frequency of its sweep, for ever, is one that the
  parent has assigned to that board. A command line is refused for nothing but its path.
\<close>

theorem worker_follows_plan:
  assumes "validate_receiver c = Inr ()" and "is_rak c" and "i < board_count c" and "start_board c i = Inr args"
  shows "if valid_device_path (bc_path (cc_boards (cf_boards c) ! i)) then
    \<exists>ops. parse_options args = Some ops \<and> ro_device ops = Some (bc_path (cc_boards (cf_boards c) ! i)) \<and>
    ro_bw ops = bc_bw (cc_boards (cf_boards c) ! i) \<and> ro_sf ops = bc_sf (cc_boards (cf_boards c) ! i) \<and>
    ro_sync ops = bc_sync (cc_boards (cf_boards c) ! i) \<and>
    uint (ro_freq ops) = (if bc_packets (cc_boards (cf_boards c) ! i)
      then uint (bc_freq (cc_boards (cf_boards c) ! i)) + cf_offset c else 0) \<and>
    (cc_scan (cf_boards c) \<longrightarrow>
      (\<forall>j. assigned c i (uint ((next_scan ops ^^ j) (ro_lower ops)) - cf_offset c)))
    else parse_options args = None"
proof -
  have p: "rak_plan c" using assms(1,2) by unfold_locales
  note ac = worker_accepts [OF p assms(3,4)]
  show ?thesis
  proof (cases "valid_device_path (bc_path (cc_boards (cf_boards c) ! i))")
    case True
    then show ?thesis
      using ac(1,2) worker_visits [OF p assms(3,4)]
      by (simp add: board_options_def Let_def)
  next
    case False
    then show ?thesis using ac(1) by simp
  qed
qed

theorem worker_follows_plan_witness:
  "\<exists>args ops. start_board example_rak 1 = Inr args \<and> parse_options args = Some ops \<and> uint (ro_freq ops) = 908750000"
proof -
  obtain args where a: "start_board example_rak 1 = Inr args"
    by (simp add: start_board_def sweep_begin_def scan_points_def scan_first_def scan_last_def board_count_def
        example_rak_def default_config_def default_concentrators_def guard_err_def Let_def)
  have "1 < board_count example_rak" "valid_device_path (bc_path (cc_boards (cf_boards example_rak) ! 1))"
    by (simp_all add: board_count_def example_rak_def default_config_def default_concentrators_def
        default_board_def valid_device_path_def char_between_def code_def)
  from worker_follows_plan [OF example_rak_valid this(1) a] this(2) a show ?thesis
    by (auto simp: example_rak_def default_config_def default_concentrators_def default_board_def)
qed

section \<open>The inventory of readings\<close>

definition readings_ok :: "receiver_config \<Rightarrow> rak_state \<Rightarrow> bool" where
  "readings_ok c s \<longleftrightarrow>
    distinct (map (\<lambda>v. (cs_board v, cs_freq v)) (rs_recent s)) \<and>
    (\<forall>v\<in>set (rs_recent s). \<exists>i<board_count c. cs_board v = of_nat i \<and> assigned c i (uint (cs_freq v)))"

lemma readings_ok_recent: "rs_recent s' = rs_recent s \<Longrightarrow> readings_ok c s' = readings_ok c s"
  by (simp add: readings_ok_def)

lemma replace_reading_keys:
  "replace_reading i scan vs = Some ws \<Longrightarrow> unat (cs_board scan) = i \<Longrightarrow>
    map (\<lambda>v. (cs_board v, cs_freq v)) ws = map (\<lambda>v. (cs_board v, cs_freq v)) vs"
  by (induction vs arbitrary: ws) (auto simp: same_reading_def word_unat_eq_iff split: if_splits)

lemma replace_reading_none:
  "replace_reading i scan vs = None \<Longrightarrow> unat (cs_board scan) = i \<Longrightarrow>
    (cs_board scan, cs_freq scan) \<notin> (\<lambda>v. (cs_board v, cs_freq v)) ` set vs"
  by (induction vs) (auto simp: same_reading_def split: if_splits)

lemma readings_ok_keys:
  "readings_ok c s \<longleftrightarrow> distinct (map (\<lambda>v. (cs_board v, cs_freq v)) (rs_recent s)) \<and>
    (\<forall>(b, f)\<in>set (map (\<lambda>v. (cs_board v, cs_freq v)) (rs_recent s)). \<exists>i<board_count c. b = of_nat i \<and> assigned c i (uint f))"
  by (auto simp: readings_ok_def)

context rak_plan begin

lemma assigned_point:
  assumes "i < N" "is_ok (start_board c i)" "cc_scan (cf_boards c)"
  shows "assigned c i f \<longleftrightarrow> (\<exists>k. unat (sweep_begin c i) \<le> k \<and> k < unat (sweep_begin c (i + 1)) \<and> k < P \<and>
    f = int (C - H + 117150 + k * D))"
proof -
  have "unat (sweep_begin c i) < unat (sweep_begin c (i + 1))"
    using assms(2,3) begins(3) [OF assms(1)]
    by (auto simp: start_board_def Let_def guard_err_def word_unat_eq_iff split: if_splits)
  note iff = assigned_iff [OF assms(1) this]
  have "k < P" if "k < unat (sweep_begin c (i + 1))" for k
    using that begins(4) [OF assms(1)] by linarith
  then show ?thesis unfolding iff by blast
qed

lemma inventory_bound:
  assumes ok: "\<forall>i<N. is_ok (start_board c i)" and scan: "cc_scan (cf_boards c)" and s: "readings_ok c s"
  shows "length (rs_recent s) \<le> P"
proof -
  let ?key = "\<lambda>v. (cs_board v, cs_freq v)"
  have point: "\<exists>i k. i < N \<and> cs_board v = of_nat i \<and> unat (sweep_begin c i) \<le> k \<and> k < unat (sweep_begin c (i + 1)) \<and>
      k < P \<and> uint (cs_freq v) = int (C - H + 117150 + k * D)" if "v \<in> set (rs_recent s)" for v
  proof -
    from s that obtain i where i: "i < N" "cs_board v = of_nat i" "assigned c i (uint (cs_freq v))"
      unfolding readings_ok_def by blast
    from i(3) assigned_point [OF i(1) ok [rule_format, OF i(1)] scan] i(1,2) show ?thesis by blast
  qed
  have pos: "0 < D" using limits by linarith
  have inj: "cs_board v = cs_board w" if vw: "v \<in> set (rs_recent s)" "w \<in> set (rs_recent s)" "cs_freq v = cs_freq w" for v w
  proof -
    obtain i k where 1: "i < N" "cs_board v = of_nat i" "unat (sweep_begin c i) \<le> k" "k < unat (sweep_begin c (i + 1))"
      "k < P" "uint (cs_freq v) = int (C - H + 117150 + k * D)" using point [OF vw(1)] by blast
    obtain i' k' where 2: "i' < N" "cs_board w = of_nat i'" "unat (sweep_begin c i') \<le> k'" "k' < unat (sweep_begin c (i' + 1))"
      "uint (cs_freq w) = int (C - H + 117150 + k' * D)" using point [OF vw(2)] by blast
    from 1(6) 2(5) vw(3) have "C - H + 117150 + k * D = C - H + 117150 + k' * D" by (simp only: of_nat_eq_iff)
    then have "k = k'" using pos by simp
    with 1 2 partition [OF 1(5)] have "i = i'" by blast
    with 1 2 show ?thesis by simp
  qed
  have freqs: "distinct (map cs_freq (rs_recent s))"
  proof -
    have "distinct (rs_recent s)" "inj_on ?key (set (rs_recent s))"
      using s by (simp_all add: readings_ok_def distinct_map)
    moreover have "inj_on cs_freq (set (rs_recent s))"
    proof (rule inj_onI)
      fix v w assume vw: "v \<in> set (rs_recent s)" "w \<in> set (rs_recent s)" "cs_freq v = cs_freq w"
      from inj [OF vw] vw(3) have "?key v = ?key w" by simp
      with \<open>inj_on ?key (set (rs_recent s))\<close> show "v = w" using vw(1,2) by (rule inj_onD)
    qed
    ultimately show ?thesis by (simp add: distinct_map)
  qed
  have "(\<lambda>f. unat (f :: u64)) ` set (map cs_freq (rs_recent s)) \<subseteq> (\<lambda>k. C - H + 117150 + k * D) ` {..<P}"
  proof
    fix x assume "x \<in> (\<lambda>f. unat f) ` set (map cs_freq (rs_recent s))"
    then obtain v where v: "v \<in> set (rs_recent s)" "x = unat (cs_freq v)" by auto
    from point [OF v(1)] obtain k where "k < P" "int x = int (C - H + 117150 + k * D)"
      unfolding v(2) uint_eq by blast
    then show "x \<in> (\<lambda>k. C - H + 117150 + k * D) ` {..<P}" by (auto simp only: of_nat_eq_iff)
  qed
  then have "card ((\<lambda>f. unat (f :: u64)) ` set (map cs_freq (rs_recent s))) \<le> P"
    by (rule order_trans [OF card_mono [OF finite_imageI [OF finite_lessThan]]])
      (rule order_trans [OF card_image_le [OF finite_lessThan]], simp only: card_lessThan)
  moreover have "card ((\<lambda>f. unat (f :: u64)) ` set (map cs_freq (rs_recent s))) = card (set (map cs_freq (rs_recent s)))"
    by (rule card_image) (simp add: inj_on_def word_unat_eq_iff)
  moreover have "card (set (map cs_freq (rs_recent s))) = length (rs_recent s)"
    using distinct_card [OF freqs] by simp
  ultimately show ?thesis by simp
qed


lemma points_bound: "P \<le> 1040"
proof -
  have "(2 * H - 234300) div D \<le> (2 * H - 234300) div 25000"
    by (rule div_le_mono2) (use limits(8) in simp_all)
  also have "\<dots> \<le> 25765700 div 25000" by (rule div_le_mono) (use limits(4) in linarith)
  finally show ?thesis unfolding points by simp
qed

lemma publish_scan_ok:
  assumes "\<forall>i<N. is_ok (start_board c i)" "cc_scan (cf_boards c)" "readings_ok c s"
    "i < N" "unat (cs_board scan) = i" "assigned c i (uint (cs_freq scan))" "publish_scan i scan s = (s', e)"
  shows "e = None \<and> readings_ok c s'"
proof -
  have len: "length (rs_recent s) < 2080"
    using inventory_bound [OF assms(1-3)] points_bound by linarith
  have b: "cs_board scan = of_nat i" unfolding assms(5) [symmetric] by simp
  show ?thesis
  proof (cases "replace_reading i scan (rs_recent s)")
    case None
    then have r: "rs_recent s' = rs_recent s @ [scan]" and e: "e = None"
      using assms(7) len by (auto simp: publish_scan_def put_health_def Let_def)
    have "readings_ok c s'"
      using assms(3,4,6) replace_reading_none [OF None assms(5)] b
      unfolding readings_ok_def r by (auto simp: image_iff)
    with e show ?thesis by blast
  next
    case (Some ws)
    then have r: "rs_recent s' = ws" and e: "e = None"
      using assms(7) by (auto simp: publish_scan_def put_health_def Let_def)
    have "readings_ok c s'"
      using assms(3) unfolding readings_ok_keys r replace_reading_keys [OF Some assms(5)] by blast
    with e show ?thesis by blast
  qed
qed

lemma handle_scan_ok:
  assumes "\<forall>i<N. is_ok (start_board c i)" "readings_ok c s" "i < N" "re_config env = c"
    "handle_scan env now i freq a b counts s = (s', e)"
  shows "readings_ok c s' \<and> e \<noteq> Some ''RAK live scan inventory exceeded its configured bound''"
proof -
  let ?s = "s\<lparr>rs_scan_id := rs_scan_id s + 1\<rparr>"
  have keep: "readings_ok c s" "readings_ok c ?s" using assms(2) by (simp_all add: readings_ok_def)
  consider "\<not> cc_scan (cf_boards c)" | "\<not> assigned c i (uint freq - cf_offset c)"
    | (fine) "cc_scan (cf_boards c)" "assigned c i (uint freq - cf_offset c)" by blast
  then show ?thesis
  proof cases
    case fine
    let ?p = "uint freq - cf_offset c"
    have p: "uint (word_of_int ?p :: u64) = ?p"
    proof -
      have "0 \<le> ?p" using fine(2) unfolding assigned_def by (meson order_trans uint_ge_0)
      moreover have "?p < 2 ^ 64"
        using fine(2) uint_bounded [of "sweep_freq c (sweep_begin c (i + 1) - 1)"] unfolding assigned_def by simp
      ultimately show ?thesis by (simp only: uint_word_of_int) simp
    qed
    have "i = 0 \<or> i = 1" using assms(3) limits(2) by linarith
    then have i: "unat (of_nat i :: u32) = i" by auto
    let ?start = "a + re_clock_shift env" and ?stop = "b + re_clock_shift env"
    show ?thesis
    proof (cases "?start < 0 \<or> ?stop > now - re_started env + 1 / 10 \<or> ?start + 1 / 10000 < rs_previous_end s ! i")
      case True
      then show ?thesis using assms(4,5) fine keep by (auto simp: handle_scan_def Let_def)
    next
      case False
      let ?t = "?s\<lparr>rs_previous_end := (rs_previous_end s)[i := ?stop]\<rparr>"
      let ?scan = "\<lparr>cs_id = rs_scan_id ?s, cs_board = of_nat i, cs_freq = word_of_int ?p,
        cs_filter = 234300, cs_offset_db = Some (-11), cs_counts = counts,
        ts_utc_start = re_started_utc env + ?start, ts_utc_end = re_started_utc env + ?stop,
        ts_start = ?start, ts_end = ?stop, ts_position = re_position env (re_started env + ?stop)\<rparr>"
      have run: "publish_scan i ?scan (store_item env (Stored_scan ?scan) ?t) = (s', e)"
        using assms(4,5) fine False by (simp add: handle_scan_def Let_def)
      have "readings_ok c (store_item env (Stored_scan ?scan) ?t)"
        using keep(1) by (simp add: readings_ok_def store_item_def)
      from publish_scan_ok [OF assms(1) fine(1) this assms(3) _ _ run] p i fine(2) show ?thesis by simp
    qed
  qed (use assms(4,5) keep in \<open>auto simp: handle_scan_def Let_def split: if_splits\<close>)
qed


lemma rak_handle_ok:
  assumes "\<forall>i<N. is_ok (start_board c i)" "readings_ok c s" "i < N" "re_config env = c"
    "rak_handle env now stopping i m s = (s', e)"
  shows "readings_ok c s' \<and> (e = Some ''RAK live scan inventory exceeded its configured bound'' \<longrightarrow>
    m = Error ''RAK live scan inventory exceeded its configured bound'')"
proof (cases m)
  case (Scan freq a b counts)
  let ?s = "s\<lparr>rs_last_record := (rs_last_record s)[i := now]\<rparr>"
  let ?t = "put_health i (\<lambda>h. h\<lparr>ch_last_update := now - re_started env\<rparr>) ?s"
  have t: "readings_ok c ?t" "readings_ok c ?s" using assms(2) by (simp_all add: readings_ok_def put_health_def)
  show ?thesis
  proof (cases "ch_ready (rs_health s ! i)")
    case True
    then have "handle_scan env now i freq a b counts ?t = (s', e)"
      using assms(5) Scan by (simp add: rak_handle_def Let_def)
    from handle_scan_ok [OF assms(1) t(1) assms(3,4) this] show ?thesis by blast
  next
    case False
    then show ?thesis using assms(5) Scan t by (auto simp: rak_handle_def Let_def)
  qed
qed (use assms(2,5) in \<open>auto simp: rak_handle_def handle_ready_def handle_packet_def count_reception_def
  store_item_def put_health_def readings_ok_def Let_def split: if_splits\<close>)

lemma handle_all_ok:
  assumes "\<forall>i<N. is_ok (start_board c i)" "readings_ok c s" "i < N" "re_config env = c"
    "handle_all env now stopping i ms s = (s', e)"
  shows "readings_ok c s' \<and> (e = Some ''RAK live scan inventory exceeded its configured bound'' \<longrightarrow>
    Error ''RAK live scan inventory exceeded its configured bound'' \<in> set ms)"
  using assms(2,5)
proof (induction ms arbitrary: s)
  case (Cons m ms)
  obtain t w where h: "rak_handle env now stopping i m s = (t, w)" by fastforce
  note ok = rak_handle_ok [OF assms(1) Cons.prems(1) assms(3,4) h]
  show ?case
  proof (cases w)
    case None
    then show ?thesis using Cons.IH [of t] Cons.prems(2) h ok by auto
  next
    case (Some x)
    then show ?thesis using Cons.prems(2) h ok by auto
  qed
qed simp

end

text \<open>
  C34: the live inventory of readings is bounded. It never holds two readings of one board at
  one frequency and every reading lies on the sweep assigned to its board, so it is never
  longer than the sweep (at most 1040 points) and the handler's own limit of 2080 is never
  reached.
\<close>

theorem live_inventory:
  assumes "validate_receiver c = Inr ()" "is_rak c" "cc_scan (cf_boards c)"
    and "\<forall>i<board_count c. is_ok (start_board c i)" "i < board_count c" "re_config env = c"
    and "readings_ok c s" "handle_all env now stopping i ms s = (s', e)"
  shows "readings_ok c s' \<and> length (rs_recent s') \<le> unat (scan_points c) \<and> unat (scan_points c) \<le> 1040 \<and>
    (e = Some ''RAK live scan inventory exceeded its configured bound'' \<longrightarrow>
      Error ''RAK live scan inventory exceeded its configured bound'' \<in> set ms)"
proof -
  have p: "rak_plan c" using assms(1,2) by (rule rak_plan.intro)
  note ok = rak_plan.handle_all_ok [OF p assms(4,7,5,6,8)]
  with rak_plan.inventory_bound [OF p assms(4,3)] rak_plan.points_bound [OF p] show ?thesis by blast
qed


text \<open>The state before the first record of \<open>n\<close> boards.\<close>

definition idle_state :: "nat \<Rightarrow> rak_state" where
  "idle_state n = \<lparr>rs_health = replicate n \<lparr>ch_state = [], ch_ready = False, ch_scans = 0, ch_samples = 0,
      ch_receptions = 0, ch_crc_failures = 0, ch_ready_elapsed = 0, ch_last_update = 0\<rparr>,
    rs_recent = [], rs_scans = 0, rs_samples = 0,
    rs_total = 0, rs_classified = 0, rs_receptions = [], rs_scan_id = 0, rs_packet_id = 0,
    rs_previous_end = replicate n 0, rs_last_record = replicate n 0, rs_view_state = [], rs_view_error = [],
    rs_stored = []\<rparr>"

definition example_env :: rak_env where
  "example_env = \<lparr>re_config = example_rak, re_started = 0, re_started_utc = 0, re_clock_shift = 0,
     re_position = (\<lambda>_. None), re_profiles = [], re_cipher = (\<lambda>_ _ _. None), re_recording = True\<rparr>"

lemma live_inventory_witness:
  "\<exists>s'. handle_all example_env 1 False 0 [Ready, Scan 902117150 0 (1 / 100) [2000]]
      (idle_state 2) = (s', None) \<and> rs_stored s' \<noteq> [] \<and> readings_ok example_rak s' \<and> length (rs_recent s') = 1"
proof -
  have n: "board_count example_rak = 2"
    by (simp add: board_count_def example_rak_def default_config_def default_concentrators_def)
  have cc: "cc_scan (cf_boards example_rak)"
    by (simp add: example_rak_def default_config_def default_concentrators_def)
  have "is_ok (start_board example_rak 0)" "is_ok (start_board example_rak 1)"
    by (simp_all add: start_board_def sweep_begin_def scan_points_def scan_first_def
        scan_last_def board_count_def example_rak_def default_config_def default_concentrators_def guard_err_def Let_def)
  then have boards: "\<forall>i<board_count example_rak. is_ok (start_board example_rak i)"
    unfolding n by (auto dest!: less_2_cases)
  have a: "assigned example_rak 0 902117150"
    by (simp add: assigned_def sweep_freq_def sweep_begin_def scan_points_def scan_first_def scan_last_def board_count_def
      example_rak_def default_config_def default_concentrators_def)
  have off: "cf_offset example_rak = 0" by (simp add: example_rak_def default_config_def)
  define t where "t = fst (rak_handle example_env 1 False 0 Ready (idle_state 2))"
  have 1: "rak_handle example_env 1 False 0 Ready (idle_state 2) = (t, None)"
    by (simp add: t_def example_env_def rak_handle_def handle_ready_def put_health_def idle_state_def
      numeral_2_eq_2 Let_def)
  have t: "rs_health t \<noteq> []" "ch_ready (rs_health t ! 0)" "rs_recent t = []" "rs_previous_end t = [0, 0]"
    "rs_stored t = []"
    by (simp_all add: t_def example_env_def rak_handle_def handle_ready_def put_health_def idle_state_def
      numeral_2_eq_2 Let_def)
  obtain u where 2: "rak_handle example_env 1 False 0 (Scan 902117150 0 (1 / 100) [2000]) t = (u, None)"
    "rs_health u \<noteq> []" "length (rs_recent u) = 1" "rs_stored u \<noteq> []"
    using a cc off t by (simp add: example_env_def rak_handle_def put_health_def handle_scan_def store_item_def
      publish_scan_def Let_def)
  from 1 2(1) have run: "handle_all example_env 1 False 0 [Ready, Scan 902117150 0 (1 / 100) [2000]] (idle_state 2) = (u, None)"
    by simp
  have "readings_ok example_rak (idle_state 2)" by (simp add: readings_ok_def idle_state_def)
  with live_inventory [OF example_rak_valid cc boards _ _ _ run] n
  have "readings_ok example_rak u" by (simp add: example_env_def)
  with run 2 show ?thesis by blast
qed

end
