(* ===== verification/Utf8.thy ===== *)
theory Utf8
  imports TextCodec
begin

text \<open>
  The UTF-8 check that settings (\<open>valid_text\<close> in \<open>preferences.cpp\<close>) and recordings
  (\<open>valid_utf8\<close> in \<open>storage.cpp\<close>) apply to every text, against the definition of UTF-8 as the
  encoding of sequences of Unicode scalar values.
\<close>

section \<open>The scanner\<close>

text \<open>The first byte of a multi-byte sequence: value, number of further bytes, smallest value.\<close>

definition utf8_lead :: "nat \<Rightarrow> (nat \<times> nat \<times> nat) option" where
  "utf8_lead first =
    (if 0xc2 \<le> first \<and> first \<le> 0xdf then Some (first mod 32, 1, 0x80)
     else if 0xe0 \<le> first \<and> first \<le> 0xef then Some (first mod 16, 2, 0x800)
     else if 0xf0 \<le> first \<and> first \<le> 0xf4 then Some (first mod 8, 3, 0x10000)
     else None)"

fun utf8_rest :: "nat \<Rightarrow> nat \<Rightarrow> string \<Rightarrow> (nat \<times> string) option" where
  "utf8_rest 0 v s = Some (v, s)"
| "utf8_rest (Suc n) v [] = None"
| "utf8_rest (Suc n) v (c # s) = (if code c div 64 = 2 then utf8_rest n (v * 64 + code c mod 64) s else None)"

definition utf8_tail :: "char \<Rightarrow> string \<Rightarrow> string option" where
  "utf8_tail c s =
    (case utf8_lead (code c) of
       None \<Rightarrow> None
     | Some (v0, remaining, minimum) \<Rightarrow>
         if remaining > length s then None
         else case utf8_rest remaining v0 s of
             None \<Rightarrow> None
           | Some (v, r) \<Rightarrow>
               if v < minimum \<or> v > 0x10ffff \<or> (0xd800 \<le> v \<and> v \<le> 0xdfff) then None else Some r)"

lemma utf8_rest_length: "utf8_rest n v s = Some (w, r) \<Longrightarrow> length s = n + length r"
  by (induction n v s rule: utf8_rest.induct) (auto split: if_splits)

lemma utf8_tail_length: "utf8_tail c s = Some r \<Longrightarrow> length r \<le> length s"
  by (auto simp: utf8_tail_def dest!: utf8_rest_length split: option.splits if_splits)

function utf8_scan :: "(nat \<Rightarrow> bool) \<Rightarrow> string \<Rightarrow> bool" where
  "utf8_scan admitted [] = True"
| "utf8_scan admitted (c # s) =
     (if \<not> admitted (code c) then False
      else if code c < 0x80 then utf8_scan admitted s
      else case utf8_tail c s of None \<Rightarrow> False | Some r \<Rightarrow> utf8_scan admitted r)"
  by pat_completeness auto
termination
  by (relation "measure (length \<circ> snd)") (auto dest: utf8_tail_length)

text \<open>\<open>valid_utf8\<close> of the storage, and \<open>valid_text\<close> of the settings, which also refuses controls.\<close>

definition valid_utf8 :: "string \<Rightarrow> bool" where
  "valid_utf8 s = utf8_scan (\<lambda>_. True) s"

definition valid_text :: "string \<Rightarrow> nat \<Rightarrow> bool" where
  "valid_text s limit \<longleftrightarrow> length s \<le> limit \<and> utf8_scan (\<lambda>first. \<not> (first < 0x20 \<or> first = 0x7f)) s"

section \<open>UTF-8\<close>

definition scalar_value :: "nat \<Rightarrow> bool" where
  "scalar_value v \<longleftrightarrow> v \<le> 0x10ffff \<and> \<not> (0xd800 \<le> v \<and> v \<le> 0xdfff)"

definition utf8_encode :: "nat \<Rightarrow> string" where
  "utf8_encode v =
    (if v < 0x80 then [char_of v]
     else if v < 0x800 then [char_of (0xc0 + v div 64), char_of (0x80 + v mod 64)]
     else if v < 0x10000 then
       [char_of (0xe0 + v div 4096), char_of (0x80 + v div 64 mod 64), char_of (0x80 + v mod 64)]
     else [char_of (0xf0 + v div 262144), char_of (0x80 + v div 4096 mod 64), char_of (0x80 + v div 64 mod 64),
       char_of (0x80 + v mod 64)])"

lemma continuation:
  assumes "code c div 64 = 2"
  obtains b where "b < 64" "c = char_of (128 + b)" "code c mod 64 = b"
proof
  show "code c mod 64 < 64" by simp
  have "code c = 128 + code c mod 64" using assms div_mult_mod_eq [of "code c" 64] by simp
  then show "c = char_of (128 + code c mod 64)" by (metis char_of_code)
qed simp

lemma lead:
  assumes "q * m \<le> code c" "code c < q * m + m"
  obtains a where "a < m" "c = char_of (q * m + a)" "code c mod m = a" "code c = q * m + a"
proof
  have "code c = q * m + (code c - q * m)" using assms(1) by simp
  moreover have lt: "code c - q * m < m" using assms by linarith
  ultimately have "code c mod m = code c - q * m" by (metis mod_less mod_mult_self3)
  with lt assms(1) show "code c mod m < m" "c = char_of (q * m + code c mod m)" "code c mod m = code c mod m"
    "code c = q * m + code c mod m"
    by simp_all
qed

lemma digits64:
  fixes a b :: nat
  assumes "b < 64"
  shows "(a * 64 + b) div 64 = a" "(a * 64 + b) mod 64 = b"
  using assms by simp_all

lemma mult_64: "64 * 64 = (4096 :: nat)" "4096 * 64 = (262144 :: nat)"
  by simp_all

lemma lead_digits:
  "a < 32 \<Longrightarrow> (192 + a) mod 32 = (a :: nat)"
  "a < 16 \<Longrightarrow> (224 + a) mod 16 = (a :: nat)"
  "a < 8 \<Longrightarrow> (240 + a) mod 8 = (a :: nat)"
  "a < 64 \<Longrightarrow> (128 + a) div 64 = (2 :: nat)"
  "a < 64 \<Longrightarrow> (128 + a) mod 64 = (a :: nat)"
  using mod_mult_self3 [of 6 32 a] mod_mult_self3 [of 14 16 a] mod_mult_self3 [of 30 8 a] mod_mult_self3 [of 2 64 a]
    div_mult_self3 [of 64 2 a]
  by simp_all

lemma encode_two: "b < 64 \<Longrightarrow> 0x80 \<le> a * 64 + b \<Longrightarrow> a < 32 \<Longrightarrow>
    utf8_encode (a * 64 + b) = [char_of (0xc0 + a), char_of (0x80 + b)]"
  by (simp add: utf8_encode_def)

lemma encode_three:
  assumes "b < 64" "e < 64" "a < 16" "0x800 \<le> (a * 64 + b) * 64 + e"
  shows "utf8_encode ((a * 64 + b) * 64 + e) = [char_of (0xe0 + a), char_of (0x80 + b), char_of (0x80 + e)]"
proof -
  let ?v = "(a * 64 + b) * 64 + e"
  have d: "?v div 64 = a * 64 + b" "?v mod 64 = e" "?v div 4096 = ?v div 64 div 64"
    using digits64 [OF assms(2), of "a * 64 + b"] div_mult2_eq [of ?v 64 64] by (simp_all only: mult_64)
  have "?v < 0x10000" using assms(1-3) by simp
  then show ?thesis
    unfolding utf8_encode_def d using assms(4) digits64 [OF assms(1), of a] by simp
qed

lemma encode_four:
  assumes "b < 64" "e < 64" "f < 64" "0x10000 \<le> ((a * 64 + b) * 64 + e) * 64 + f"
  shows "utf8_encode (((a * 64 + b) * 64 + e) * 64 + f) =
    [char_of (0xf0 + a), char_of (0x80 + b), char_of (0x80 + e), char_of (0x80 + f)]"
proof -
  let ?v = "((a * 64 + b) * 64 + e) * 64 + f"
  have d: "?v div 64 = (a * 64 + b) * 64 + e" "?v mod 64 = f" "?v div 4096 = ?v div 64 div 64"
    "?v div 262144 = ?v div 64 div 64 div 64"
    using digits64 [OF assms(3), of "(a * 64 + b) * 64 + e"] div_mult2_eq [of ?v 64 64] div_mult2_eq [of ?v 4096 64]
    by (simp_all only: mult_64)
  show ?thesis
    unfolding utf8_encode_def d using assms(4) digits64 [OF assms(1), of a] digits64 [OF assms(2), of "a * 64 + b"] by simp
qed

lemma utf8_rest_Suc:
  "utf8_rest (Suc n) v s = Some x \<longleftrightarrow>
    (\<exists>(b :: nat) s'. b < 64 \<and> s = char_of (128 + b) # s' \<and> utf8_rest n (v * 64 + b) s' = Some x)"
proof (cases s)
  case (Cons c s')
  show ?thesis
  proof (cases "code c div 64 = 2")
    case True
    then obtain b where "b < 64" "c = char_of (128 + b)" "code c mod 64 = b" by (rule continuation)
    then show ?thesis using Cons True by auto
  next
    case False
    then have "c \<noteq> char_of (128 + b)" if "b < 64" for b :: nat using that lead_digits(4) [OF that] by auto
    then show ?thesis using Cons False by auto
  qed
qed simp

lemma utf8_tail_decodes:
  assumes "utf8_tail c s = Some r"
  shows "\<exists>v. scalar_value v \<and> 0x80 \<le> v \<and> c # s = utf8_encode v @ r"
proof -
  obtain v0 n m v where l: "utf8_lead (code c) = Some (v0, n, m)" "utf8_rest n v0 s = Some (v, r)"
    and v: "m \<le> v" "scalar_value v"
    using assms by (auto simp: utf8_tail_def scalar_value_def split: option.splits if_splits)
  consider (two) "6 * 32 \<le> code c" "code c < 6 * 32 + 32" "n = Suc 0" "v0 = code c mod 32" "m = 0x80"
    | (three) "14 * 16 \<le> code c" "code c < 14 * 16 + 16" "n = Suc (Suc 0)" "v0 = code c mod 16" "m = 0x800"
    | (four) "30 * 8 \<le> code c" "code c < 30 * 8 + 8" "n = Suc (Suc (Suc 0))" "v0 = code c mod 8" "m = 0x10000"
    using l(1) by (auto simp: utf8_lead_def split: if_splits)
  then show ?thesis
  proof cases
    case two
    obtain a where a: "a < 32" "c = char_of (192 + a)" "v0 = a"
      using lead [OF two(1,2)] two(4) by auto
    obtain b where b: "b < 64" "s = char_of (128 + b) # r" "v = a * 64 + b"
      using l(2) unfolding two(3) utf8_rest_Suc utf8_rest.simps a(3) by auto
    then show ?thesis using encode_two [of b a] a v two(5) by (intro exI [of _ v]) simp
  next
    case three
    obtain a where a: "a < 16" "c = char_of (224 + a)" "v0 = a"
      using lead [OF three(1,2)] three(4) by auto
    obtain b e where b: "b < 64" "e < 64" "s = char_of (128 + b) # char_of (128 + e) # r" "v = (a * 64 + b) * 64 + e"
      using l(2) unfolding three(3) utf8_rest_Suc utf8_rest.simps a(3) by auto
    then show ?thesis using encode_three [of b e a] a v three(5) by (intro exI [of _ v]) simp
  next
    case four
    obtain a where a: "a < 8" "c = char_of (240 + a)" "v0 = a"
      using lead [OF four(1,2)] four(4) by auto
    obtain b e f where b: "b < 64" "e < 64" "f < 64" "s = char_of (128 + b) # char_of (128 + e) # char_of (128 + f) # r"
      "v = ((a * 64 + b) * 64 + e) * 64 + f"
      using l(2) unfolding four(3) utf8_rest_Suc utf8_rest.simps a(3) by auto
    then show ?thesis using encode_four [of b e f a] a v four(5) by (intro exI [of _ v]) simp
  qed
qed

lemma tail_intro:
  assumes "utf8_lead (code c) = Some (v0, n, m)" "utf8_rest n v0 s = Some (v, r)" "m \<le> v" "scalar_value v" "n \<le> length s"
  shows "utf8_tail c s = Some r"
  using assms by (auto simp: utf8_tail_def scalar_value_def)

lemma utf8_tail_encoded:
  assumes "scalar_value v" "0x80 \<le> v"
  shows "\<exists>c s. utf8_encode v = c # s \<and> 0x80 \<le> code c \<and> (\<forall>r. utf8_tail c (s @ r) = Some r)"
proof -
  define f where "f = v mod 64"
  define w where "w = v div 64"
  define e where "e = w mod 64"
  define x where "x = w div 64"
  define b where "b = x mod 64"
  define a where "a = x div 64"
  have v: "v = w * 64 + f" "w = x * 64 + e" "x = a * 64 + b" "f < 64" "e < 64" "b < 64"
    by (simp_all add: f_def w_def e_def x_def b_def a_def)
  have big: "v \<le> 0x10ffff" using assms(1) by (simp add: scalar_value_def)
  consider (two) "v < 0x800" | (three) "0x800 \<le> v" "v < 0x10000" | (four) "0x10000 \<le> v" by linarith
  then show ?thesis
  proof cases
    case two
    then have w: "2 \<le> w" "w < 32" using v(1,4) assms(2) by linarith+
    note v = v(1,4)
    have "utf8_tail (char_of (192 + w)) (char_of (128 + f) # r) = Some r" for r
      using w v(1) v(2) assms
      by (intro tail_intro [of _ w "Suc 0" "0x80" _ v]) (simp_all add: utf8_lead_def lead_digits)
    then show ?thesis using encode_two [OF v(2), of w] assms(2) w unfolding v(1) [symmetric] by simp
  next
    case three
    then have w: "x < 16" "32 \<le> w" using v by linarith+
    have "utf8_tail (char_of (224 + x)) (char_of (128 + e) # char_of (128 + f) # r) = Some r" for r
      using w v assms three
      by (intro tail_intro [of _ x "Suc (Suc 0)" "0x800" _ v]) (simp_all add: utf8_lead_def lead_digits)
    then show ?thesis using encode_three [OF v(5,4), of x] three w unfolding v(2) [symmetric] v(1) [symmetric] by simp
  next
    case four
    then have w: "a < 5" "x \<ge> 16" using v big by linarith+
    have "utf8_tail (char_of (240 + a)) (char_of (128 + b) # char_of (128 + e) # char_of (128 + f) # r) = Some r" for r
      using w v assms four
      by (intro tail_intro [of _ a "Suc (Suc (Suc 0))" "0x10000" _ v]) (simp_all add: utf8_lead_def lead_digits)
    then show ?thesis using encode_four [OF v(6,5,4), of a] four w
      unfolding v(3) [symmetric] v(2) [symmetric] v(1) [symmetric] by simp
  qed
qed

section \<open>The scanner accepts exactly UTF-8\<close>

lemma utf8_scan_sound:
  "utf8_scan admitted s \<Longrightarrow> \<exists>vs. list_all scalar_value vs \<and> s = concat (map utf8_encode vs) \<and>
    list_all (\<lambda>v. admitted (code (hd (utf8_encode v)))) vs"
proof (induction admitted s rule: utf8_scan.induct)
  case (1 admitted)
  show ?case by (intro exI [of _ "[]"]) simp
next
  case (2 admitted c s)
  show ?case
  proof (cases "code c < 0x80")
    case True
    then have "utf8_encode (code c) = [c]" "scalar_value (code c)"
      by (simp_all add: utf8_encode_def scalar_value_def)
    moreover obtain vs where "list_all scalar_value vs" "s = concat (map utf8_encode vs)"
      "list_all (\<lambda>v. admitted (code (hd (utf8_encode v)))) vs" "admitted (code c)"
      using 2 True by (auto split: if_splits)
    ultimately show ?thesis by (intro exI [of _ "code c # vs"]) simp
  next
    case False
    then obtain r where r: "utf8_tail c s = Some r" "utf8_scan admitted r" "admitted (code c)"
      using "2.prems" by (auto split: option.splits if_splits)
    from utf8_tail_decodes [OF r(1)] obtain v where v: "scalar_value v" "c # s = utf8_encode v @ r" by blast
    moreover from this have "hd (utf8_encode v) = c" by (auto simp: utf8_encode_def split: if_splits)
    moreover obtain vs where "list_all scalar_value vs" "r = concat (map utf8_encode vs)"
      "list_all (\<lambda>v. admitted (code (hd (utf8_encode v)))) vs"
      using "2.IH"(2) [OF _ False r(1,2)] r(3) by auto
    ultimately show ?thesis using r(3) by (intro exI [of _ "v # vs"]) simp
  qed
qed

lemma utf8_scan_complete:
  "list_all scalar_value vs \<Longrightarrow> list_all (\<lambda>v. admitted (code (hd (utf8_encode v)))) vs \<Longrightarrow>
    utf8_scan admitted (concat (map utf8_encode vs))"
proof (induction vs)
  case (Cons v vs)
  show ?case
  proof (cases "v < 0x80")
    case True
    then show ?thesis using Cons by (simp add: utf8_encode_def)
  next
    case False
    then obtain c s where "utf8_encode v = c # s" "0x80 \<le> code c" "\<forall>r. utf8_tail c (s @ r) = Some r"
      using utf8_tail_encoded [of v] Cons.prems by auto
    then show ?thesis using Cons by simp
  qed
qed simp

lemma control_lead:
  assumes "scalar_value v"
  shows "(code (hd (utf8_encode v)) < 0x20 \<or> code (hd (utf8_encode v)) = 0x7f) \<longleftrightarrow> v < 0x20 \<or> v = 0x7f"
proof (cases "v < 0x80")
  case True
  then show ?thesis by (simp add: utf8_encode_def)
next
  case False
  then show ?thesis using utf8_tail_encoded [OF assms] by fastforce
qed

text \<open>
  C35: the two text checks accept exactly UTF-8. A text is accepted for a recording when it is
  the encoding of a sequence of Unicode scalar values (no overlong form, no surrogate, no
  value above U+10FFFF, nothing truncated); a text of the settings must in addition be within
  its limit and free of control characters.
\<close>

theorem text_checks_exact:
  "(valid_utf8 s \<longleftrightarrow> (\<exists>vs. list_all scalar_value vs \<and> s = concat (map utf8_encode vs))) \<and>
   (valid_text s limit \<longleftrightarrow> length s \<le> limit \<and>
     (\<exists>vs. list_all (\<lambda>v. scalar_value v \<and> 0x20 \<le> v \<and> v \<noteq> 0x7f) vs \<and> s = concat (map utf8_encode vs)))"
proof
  show "valid_utf8 s \<longleftrightarrow> (\<exists>vs. list_all scalar_value vs \<and> s = concat (map utf8_encode vs))"
  proof
    assume "valid_utf8 s"
    then show "\<exists>vs. list_all scalar_value vs \<and> s = concat (map utf8_encode vs)"
      unfolding valid_utf8_def using utf8_scan_sound [of "\<lambda>_. True" s] by blast
  next
    assume "\<exists>vs. list_all scalar_value vs \<and> s = concat (map utf8_encode vs)"
    then obtain vs where "list_all scalar_value vs" "s = concat (map utf8_encode vs)" by blast
    then show "valid_utf8 s"
      unfolding valid_utf8_def using utf8_scan_complete [of vs "\<lambda>_. True"] by (simp add: list_all_iff)
  qed
  have ok: "(\<not> (code (hd (utf8_encode v)) < 0x20 \<or> code (hd (utf8_encode v)) = 0x7f)) \<longleftrightarrow> 0x20 \<le> v \<and> v \<noteq> 0x7f"
    if "scalar_value v" for v
    using control_lead [OF that] by linarith
  have "utf8_scan (\<lambda>first. \<not> (first < 0x20 \<or> first = 0x7f)) s \<longleftrightarrow>
      (\<exists>vs. list_all (\<lambda>v. scalar_value v \<and> 0x20 \<le> v \<and> v \<noteq> 0x7f) vs \<and> s = concat (map utf8_encode vs))"
  proof
    assume "utf8_scan (\<lambda>first. \<not> (first < 0x20 \<or> first = 0x7f)) s"
    from utf8_scan_sound [OF this] show "\<exists>vs. list_all (\<lambda>v. scalar_value v \<and> 0x20 \<le> v \<and> v \<noteq> 0x7f) vs \<and> s = concat (map utf8_encode vs)"
      using ok by (auto simp: list_all_iff)
  next
    assume "\<exists>vs. list_all (\<lambda>v. scalar_value v \<and> 0x20 \<le> v \<and> v \<noteq> 0x7f) vs \<and> s = concat (map utf8_encode vs)"
    then obtain vs where vs: "list_all (\<lambda>v. scalar_value v \<and> 0x20 \<le> v \<and> v \<noteq> 0x7f) vs" "s = concat (map utf8_encode vs)" by blast
    then show "utf8_scan (\<lambda>first. \<not> (first < 0x20 \<or> first = 0x7f)) s"
      unfolding vs(2) by (intro utf8_scan_complete) (use ok in \<open>auto simp: list_all_iff\<close>)
  qed
  then show "valid_text s limit \<longleftrightarrow> length s \<le> limit \<and>
     (\<exists>vs. list_all (\<lambda>v. scalar_value v \<and> 0x20 \<le> v \<and> v \<noteq> 0x7f) vs \<and> s = concat (map utf8_encode vs))"
    by (simp add: valid_text_def)
qed

end
