(* ===== verification/Rows.thy ===== *)
theory Rows
  imports Survey Utf8
begin

text \<open>
  The rows of a recording (\<open>storage.cpp\<close>): the values that are bound to a statement, the
  typed readers of a column, and the columns of a receiver position. SQLite is a store that
  returns the values bound to a row; a recording that was not written by the program may
  hold any row. A \<open>double\<close> is a rational number, so that the finiteness checks of the code
  hold of every number here.
\<close>

section \<open>Values\<close>

datatype sql_value = SNull | SInt int | SReal rat | SText string | SBlob "u8 list"

type_synonym row = "sql_value list"

definition int64_max :: u64 where "int64_max = 0x7fffffffffffffff"

definition uint32_max :: u64 where "uint32_max = 0xffffffff"

text \<open>\<open>int64_t(value)\<close> of the three unsigned types, and of a \<open>bool\<close>.\<close>

definition int_of_u64 :: "u64 \<Rightarrow> sql_value" where "int_of_u64 w = SInt (sint w)"

definition int_of_u32 :: "u32 \<Rightarrow> sql_value" where "int_of_u32 w = SInt (uint w)"

definition int_of_bool :: "bool \<Rightarrow> sql_value" where "int_of_bool b = SInt (if b then 1 else 0)"

definition number :: "rat option \<Rightarrow> sql_value" where
  "number v = (case v of None \<Rightarrow> SNull | Some x \<Rightarrow> SReal x)"

definition bind_value :: "sql_value \<Rightarrow> unit result" where
  "bind_value v =
    (case v of
       SBlob b \<Rightarrow> guard_err (b = [] \<or> length b > 65537) ''Invalid spectrum blob length''
     | SText s \<Rightarrow> guard_err (length s > 8192 \<or> \<not> valid_utf8 s) ''Invalid or oversized survey text field''
     | _ \<Rightarrow> Inr ())"

fun bind_row :: "row \<Rightarrow> unit result" where
  "bind_row [] = Inr ()"
| "bind_row (v # vs) = bind_result (bind_value v) (\<lambda>_. bind_row vs)"

text \<open>What \<open>insert\<close> hands to the store.\<close>

definition insert_row :: "row \<Rightarrow> row result" where
  "insert_row vs = bind_result (bind_row vs) (\<lambda>_. Inr vs)"

section \<open>Columns\<close>

definition column :: "row \<Rightarrow> nat \<Rightarrow> sql_value" where
  "column r n = (if n < length r then r ! n else SNull)"

definition integer_at :: "row \<Rightarrow> nat \<Rightarrow> int result" where
  "integer_at r n = (case column r n of SInt i \<Rightarrow> Inr i | _ \<Rightarrow> Inl ''Invalid saved integer'')"

definition real_at :: "row \<Rightarrow> nat \<Rightarrow> rat result" where
  "real_at r n = (case column r n of SReal x \<Rightarrow> Inr x | SInt i \<Rightarrow> Inr (of_int i)
     | _ \<Rightarrow> Inl ''Invalid saved measurement type'')"

definition null_at :: "row \<Rightarrow> nat \<Rightarrow> bool" where
  "null_at r n \<longleftrightarrow> column r n = SNull"

definition blob_at :: "row \<Rightarrow> nat \<Rightarrow> nat \<Rightarrow> u8 list result" where
  "blob_at r n maximum =
    (case column r n of
       SBlob b \<Rightarrow> if b = [] \<or> length b > maximum then Inl ''Invalid spectrum blob size'' else Inr b
     | _ \<Rightarrow> Inl ''Invalid spectrum blob type'')"

definition text_at :: "row \<Rightarrow> nat \<Rightarrow> string result" where
  "text_at r n =
    (case column r n of
       SNull \<Rightarrow> Inr []
     | SText s \<Rightarrow>
         if length s > 8192 then Inl ''Saved field exceeds supported size''
         else if \<not> valid_utf8 s then Inl ''Saved text is not valid UTF-8''
         else Inr s
     | _ \<Rightarrow> Inl ''Invalid saved text field'')"

definition unsigned_at :: "row \<Rightarrow> nat \<Rightarrow> u64 \<Rightarrow> u64 result" where
  "unsigned_at r n maximum =
    bind_result (integer_at r n) (\<lambda>v.
      if v < 0 \<or> word_of_int v > maximum then Inl ''Saved integer is outside its allowed range''
      else Inr (word_of_int v))"

definition boolean_at :: "row \<Rightarrow> nat \<Rightarrow> bool result" where
  "boolean_at r n = bind_result (unsigned_at r n 1) (\<lambda>v. Inr (v \<noteq> 0))"

text \<open>A column that may be null.\<close>

definition optional_at :: "row \<Rightarrow> nat \<Rightarrow> rat option result" where
  "optional_at r n = (if null_at r n then Inr None else bind_result (real_at r n) (\<lambda>x. Inr (Some x)))"

section \<open>Checks\<close>

definition nonnegative :: "rat \<Rightarrow> string \<Rightarrow> unit result" where
  "nonnegative v field = guard_err (v < 0) (''Invalid '' @ field)"

definition coordinates :: "rat \<Rightarrow> rat \<Rightarrow> unit result" where
  "coordinates lat lon = guard_err (\<bar>lat\<bar> > 90 \<or> \<bar>lon\<bar> > 180) ''Invalid geographic coordinates''"

definition validate_fix :: "position_fix \<Rightarrow> unit result" where
  "validate_fix f =
    bind_result (coordinates (px_lat f) (px_lon f)) (\<lambda>_.
    bind_result (nonnegative (px_utc f) ''GPS timestamp'') (\<lambda>_.
    bind_result (nonnegative (px_mono f) ''GPS monotonic timestamp'') (\<lambda>_.
    bind_result (case px_hdop f of None \<Rightarrow> Inr () | Some h \<Rightarrow> nonnegative h ''GPS HDOP'') (\<lambda>_.
    guard_err (px_satellites f > 1000 \<or> length (px_source f) > 512) ''Invalid GPS metadata''))))"

definition validate_optional_fix :: "position_fix option \<Rightarrow> unit result" where
  "validate_optional_fix p = (case p of None \<Rightarrow> Inr () | Some f \<Rightarrow> validate_fix f)"

section \<open>Receiver positions\<close>

definition fix_columns :: "position_fix \<Rightarrow> row" where
  "fix_columns f = [SReal (px_lat f), SReal (px_lon f), number (px_alt f), int_of_bool (px_manual f),
     SReal (px_utc f), SReal (px_mono f), SText (px_source f), number (px_hdop f), SInt (int (px_satellites f))]"

definition fix_values :: "position_fix option \<Rightarrow> row result" where
  "fix_values p =
    (case p of
       Some f \<Rightarrow> if px_valid f then bind_result (validate_fix f) (\<lambda>_. Inr (fix_columns f))
         else Inr (replicate 9 SNull)
     | None \<Rightarrow> Inr (replicate 9 SNull))"

definition read_fix :: "row \<Rightarrow> nat \<Rightarrow> position_fix option result" where
  "read_fix r k =
    (if null_at r k then
       (if list_all (\<lambda>i. null_at r (k + i)) [1..<9] then Inr None
        else Inl ''Incomplete spectrum receiver position'')
     else
       bind_result (real_at r k) (\<lambda>lat.
       bind_result (real_at r (k + 1)) (\<lambda>lon.
       bind_result (optional_at r (k + 2)) (\<lambda>alt.
       bind_result (boolean_at r (k + 3)) (\<lambda>manual.
       bind_result (real_at r (k + 4)) (\<lambda>utc.
       bind_result (real_at r (k + 5)) (\<lambda>monotonic.
       bind_result (text_at r (k + 6)) (\<lambda>source.
       bind_result (optional_at r (k + 7)) (\<lambda>hdop.
       bind_result (unsigned_at r (k + 8) 1000) (\<lambda>satellites.
       let f = \<lparr>px_lat = lat, px_lon = lon, px_alt = alt, px_utc = utc, px_mono = monotonic,
         px_valid = True, px_manual = manual, px_source = source, px_hdop = hdop,
         px_satellites = unat satellites\<rparr>
       in bind_result (validate_fix f) (\<lambda>_. Inr (Some f))))))))))))"

text \<open>Only valid positions are kept.\<close>

definition kept_fix :: "position_fix option \<Rightarrow> position_fix option" where
  "kept_fix p = (case p of None \<Rightarrow> None | Some f \<Rightarrow> if px_valid f then Some f else None)"

section \<open>Reading what was written\<close>

text \<open>
  The contract of a table: a record that is accepted is read back, up to the parts of it
  that are not recorded.
\<close>

locale stored_record =
  fixes put :: "'a \<Rightarrow> row result"
    and get :: "row \<Rightarrow> 'a result"
    and kept :: "'a \<Rightarrow> 'a"
  assumes read_back: "put x = Inr r \<Longrightarrow> get r = Inr (kept x)"
begin

lemma readable: "put x = Inr r \<Longrightarrow> is_ok (get r)"
  by (simp add: read_back)

lemma same_row: "put x = Inr r \<Longrightarrow> put y = Inr r \<Longrightarrow> kept x = kept y"
  by (metis read_back sum.inject(2))

lemma table_read_back:
  "list_all2 (\<lambda>x r. put x = Inr r) xs rs \<Longrightarrow> map get rs = map (\<lambda>x. Inr (kept x)) xs"
  by (induction xs rs rule: list_all2_induct) (simp_all add: read_back)

end

named_theorems row_simps "reading the columns of a row that was written"

lemma column_append [row_simps]:
  "n < length xs \<Longrightarrow> column (xs @ ys) n = column xs n"
  "length xs \<le> n \<Longrightarrow> column (xs @ ys) n = column ys (n - length xs)"
  by (auto simp: column_def nth_append)

lemma column_Cons [row_simps]:
  "column (v # vs) 0 = v" "column (v # vs) (numeral n) = column vs (pred_numeral n)"
  "column (v # vs) (Suc k) = column vs k" "column (v # vs) 1 = column vs 0"
  by (simp_all add: column_def numeral_eq_Suc)

lemma insert_row_Inr: "insert_row vs = Inr r \<longleftrightarrow> r = vs \<and> (\<forall>v\<in>set vs. bind_value v = Inr ())"
proof -
  have "bind_row vs = Inr () \<longleftrightarrow> (\<forall>v\<in>set vs. bind_value v = Inr ())"
    by (induction vs) (auto simp: bind_result_Inr)
  then show ?thesis by (auto simp: insert_row_def bind_result_Inr)
qed

lemma real_at_Real: "column r n = SReal x \<Longrightarrow> real_at r n = Inr x"
  by (simp add: real_at_def)

lemma integer_at_Int: "column r n = SInt x \<Longrightarrow> integer_at r n = Inr x"
  by (simp add: integer_at_def)

lemma optional_at_number: "column r n = number v \<Longrightarrow> optional_at r n = Inr v"
  by (simp add: optional_at_def null_at_def real_at_def number_def split: option.splits)

lemma text_at_Text:
  "column r n = SText s \<Longrightarrow> bind_value (SText s) = Inr () \<Longrightarrow> text_at r n = Inr s"
  by (simp add: text_at_def bind_value_def not_less)

lemma blob_at_Blob: "column r n = SBlob b \<Longrightarrow> b \<noteq> [] \<Longrightarrow> length b \<le> m \<Longrightarrow> blob_at r n m = Inr b"
  by (simp add: blob_at_def)

lemma boolean_at_bool: "column r n = int_of_bool b \<Longrightarrow> boolean_at r n = Inr b"
  by (simp add: boolean_at_def unsigned_at_def integer_at_def int_of_bool_def)

lemma unsigned_at_Int:
  assumes "column r n = SInt i" "0 \<le> i" "i \<le> uint m"
  shows "unsigned_at r n m = Inr (word_of_int i)"
proof -
  have "i < 2 ^ 64" using assms(3) uint_lt2p [of m] by simp
  then have "uint (word_of_int i :: u64) = i"
    using assms(2) by (simp add: unsigned_of_int take_bit_int_eq_self)
  then have "\<not> word_of_int i > m" using assms(3) by (simp add: word_less_def)
  with assms show ?thesis by (simp add: unsigned_at_def integer_at_def)
qed

lemma unsigned_at_u32:
  assumes "column r n = int_of_u32 w" "uint w \<le> uint m"
  shows "unsigned_at r n m = Inr (ucast w)"
  using unsigned_at_Int [of r n "uint w" m] assms by (simp add: int_of_u32_def)

lemma sint_u64: "w \<le> int64_max \<Longrightarrow> sint (w :: u64) = uint w"
proof -
  assume "w \<le> int64_max"
  then have "uint w < 9223372036854775808" by (simp add: int64_max_def word_le_def)
  moreover have "- 9223372036854775808 \<le> uint w" by (rule order_trans [OF _ uint_ge_0]) simp
  ultimately have "signed_take_bit 63 (uint w) = uint w" by (simp add: signed_take_bit_int_eq_self_iff)
  then show ?thesis by (simp add: sint_uint)
qed

lemma unsigned_at_u64:
  assumes "column r n = int_of_u64 w" "w \<le> m" "m \<le> int64_max"
  shows "unsigned_at r n m = Inr w"
proof -
  have "sint w = uint w" using assms(2,3) by (intro sint_u64) simp
  then show ?thesis
    using unsigned_at_Int [of r n "uint w" m] assms by (simp add: int_of_u64_def word_le_def)
qed

lemma length_fix_columns [simp]: "length (fix_columns f) = 9"
  by (simp add: fix_columns_def)

lemma read_fix_written:
  assumes vals: "fix_values p = Inr vs" and bound: "\<forall>v\<in>set vs. bind_value v = Inr ()"
    and at: "\<And>i. i < 9 \<Longrightarrow> column r (k + i) = column vs i"
  shows "length vs = 9 \<and> read_fix r k = Inr (kept_fix p)"
proof (cases "\<exists>f. p = Some f \<and> px_valid f")
  case True
  then obtain f where f: "p = Some f" "px_valid f" by blast
  then have ok: "validate_fix f = Inr ()" and vs: "vs = fix_columns f"
    using vals by (auto simp: fix_values_def bind_result_Inr)
  have c: "column r k = SReal (px_lat f)" "column r (k + 1) = SReal (px_lon f)" "column r (k + 2) = number (px_alt f)"
    "column r (k + 3) = int_of_bool (px_manual f)" "column r (k + 4) = SReal (px_utc f)"
    "column r (k + 5) = SReal (px_mono f)" "column r (k + 6) = SText (px_source f)"
    "column r (k + 7) = number (px_hdop f)" "column r (k + 8) = SInt (int (px_satellites f))"
    using at [of 0] at [of 1] at [of 2] at [of 3] at [of 4] at [of 5] at [of 6] at [of 7] at [of 8]
    by (simp_all add: vs fix_columns_def column_def)
  have s: "px_satellites f \<le> 1000" using ok by (simp add: validate_fix_def bind_result_Inr)
  have t: "text_at r (k + 6) = Inr (px_source f)"
    using bound by (intro text_at_Text [OF c(7)]) (simp add: vs fix_columns_def)
  have u: "unsigned_at r (k + 8) 1000 = Inr (word_of_int (int (px_satellites f)))"
    using s by (intro unsigned_at_Int [OF c(9)]) simp_all
  have n: "unat (word_of_int (int (px_satellites f)) :: u64) = px_satellites f"
    using s by (simp add: unat_of_nat)
  have "\<not> null_at r k" by (simp add: null_at_def c(1))
  moreover have "\<lparr>px_lat = px_lat f, px_lon = px_lon f, px_alt = px_alt f, px_utc = px_utc f, px_mono = px_mono f,
      px_valid = True, px_manual = px_manual f, px_source = px_source f, px_hdop = px_hdop f,
      px_satellites = px_satellites f\<rparr> = f"
    using f(2) by simp
  ultimately have "read_fix r k = Inr (Some f)"
    unfolding read_fix_def Let_def real_at_Real [OF c(1)] real_at_Real [OF c(2)] optional_at_number [OF c(3)]
      boolean_at_bool [OF c(4)] real_at_Real [OF c(5)] real_at_Real [OF c(6)] t optional_at_number [OF c(8)]
      u bind_result_simps n
    by (simp add: ok)
  then show ?thesis using f vs by (simp add: kept_fix_def)
next
  case False
  then have vs: "vs = replicate 9 SNull" and kept: "kept_fix p = None"
    using vals by (auto simp: fix_values_def kept_fix_def split: option.splits if_splits)
  have "null_at r (k + i)" if "i < 9" for i
    using at [OF that] that by (simp add: null_at_def vs column_def)
  then have "null_at r k" "list_all (\<lambda>i. null_at r (k + i)) [1..<9]"
    using add_0_right [of k] by (metis zero_less_numeral, simp add: list_all_iff)
  then show ?thesis by (simp add: read_fix_def kept vs)
qed

text \<open>
  The readers by the value they find; with \<open>row_simps\<close> the simplifier reads a whole row
  that is given column by column.
\<close>

definition found :: "(row \<Rightarrow> nat \<Rightarrow> 'a) \<Rightarrow> sql_value \<Rightarrow> 'a" where
  "found rd v = rd [v] 0"

definition found_unsigned :: "u64 \<Rightarrow> sql_value \<Rightarrow> u64 result" where
  "found_unsigned m v = unsigned_at [v] 0 m"

definition found_blob :: "nat \<Rightarrow> sql_value \<Rightarrow> u8 list result" where
  "found_blob k v = blob_at [v] 0 k"

lemma readers_find [row_simps]:
  "real_at r n = found real_at (column r n)" "integer_at r n = found integer_at (column r n)"
  "text_at r n = found text_at (column r n)" "optional_at r n = found optional_at (column r n)"
  "boolean_at r n = found boolean_at (column r n)" "null_at r n = found null_at (column r n)"
  "unsigned_at r n m = found_unsigned m (column r n)"
  "blob_at r n k = found_blob k (column r n)"
  by (simp_all add: found_def found_unsigned_def found_blob_def real_at_def integer_at_def text_at_def optional_at_def boolean_at_def null_at_def
      unsigned_at_def blob_at_def column_def)

lemma column_single [simp]: "column [v] 0 = v"
  by (simp add: column_def)

lemma found_plain [row_simps]:
  "found real_at (SReal x) = Inr x" "found integer_at (SInt i) = Inr i"
  "found optional_at (number v) = Inr v" "found boolean_at (int_of_bool b) = Inr b"
  "found null_at w \<longleftrightarrow> w = SNull" "number v = SNull \<longleftrightarrow> v = None"
  by (simp_all add: found_def real_at_Real integer_at_Int optional_at_number boolean_at_bool null_at_def)
    (simp add: number_def split: option.splits)

lemma found_text [row_simps]: "bind_value (SText s) = Inr () \<Longrightarrow> found text_at (SText s) = Inr s"
  unfolding found_def by (rule text_at_Text) simp

lemma found_blob_bytes [row_simps]: "b \<noteq> [] \<Longrightarrow> length b \<le> k \<Longrightarrow> found_blob k (SBlob b) = Inr b"
  unfolding found_blob_def by (rule blob_at_Blob) simp_all

lemma found_unsigned_int [row_simps]:
  "w \<le> m \<Longrightarrow> m \<le> int64_max \<Longrightarrow> found_unsigned m (int_of_u64 w) = Inr w"
  "uint u \<le> uint m \<Longrightarrow> found_unsigned m (int_of_u32 u) = Inr (ucast u)"
  "0 \<le> i \<Longrightarrow> i \<le> uint m \<Longrightarrow> found_unsigned m (SInt i) = Inr (word_of_int i)"
  unfolding found_unsigned_def
  by (rule unsigned_at_u64; simp) (rule unsigned_at_u32 unsigned_at_Int; simp)+

lemma numeral_le_int64_max [row_simps]:
  "(numeral n :: u64) \<le> int64_max \<longleftrightarrow> take_bit 64 (numeral n :: int) \<le> 9223372036854775807" "(1 :: u64) \<le> int64_max"
  by (simp_all add: int64_max_def word_le_def)

lemma ucast_u32 [simp]: "ucast (ucast (u :: u32) :: u64) = u"
  by (rule bit_word_eqI) (simp add: bit_ucast_iff bit_imp_le_length)

definition write_fix :: "position_fix option \<Rightarrow> row result" where
  "write_fix p = bind_result (fix_values p) insert_row"

interpretation positions: stored_record write_fix "\<lambda>r. read_fix r 0" kept_fix
proof
  fix p r assume "write_fix p = Inr r"
  then show "read_fix r 0 = Inr (kept_fix p)"
    using read_fix_written [of p r r 0] by (auto simp: write_fix_def bind_result_Inr insert_row_Inr)
qed

end
