(* ===== verification/SpectrumCodec.thy ===== *)
theory SpectrumCodec
  imports Rows "HOL-Library.While_Combinator"
begin

text \<open>
  The two encodings of a spectrum tile (\<open>storage.cpp\<close>): powers as signed 16-bit hundredths
  of a decibel, and the activity bitmap as runs of equal bytes, or as it is when the runs
  would not be shorter. The encoder's loop is a \<open>while\<close> loop over its variables, so that its
  termination is a theorem.
\<close>

section \<open>Powers\<close>

definition level :: "rat \<Rightarrow> unit result" where
  "level v = guard_err (v < - 300 \<or> v > 100) ''Spectrum power outside supported range''"

text \<open>\<open>std::lround\<close> rounds halves away from zero.\<close>

definition lround :: "rat \<Rightarrow> int" where
  "lround x = (if x < 0 then - \<lfloor>- x + 1 / 2\<rfloor> else \<lfloor>x + 1 / 2\<rfloor>)"

definition quantized :: "rat \<Rightarrow> u16" where
  "quantized v = word_of_int (lround (v * 100))"

fun quantize :: "rat list \<Rightarrow> u8 list result" where
  "quantize [] = Inr []"
| "quantize (v # vs) =
     bind_result (level v) (\<lambda>_.
     bind_result (quantize vs) (\<lambda>bytes.
     Inr (ucast (quantized v AND 255) # ucast (drop_bit 8 (quantized v)) # bytes)))"

definition centi :: "u8 \<Rightarrow> u8 \<Rightarrow> rat" where
  "centi a b =
     (let u = uint a + 256 * uint b; q = (if u \<ge> 32768 then u - 65536 else u) in of_int q / 100)"

fun dequantize_loop :: "u8 list \<Rightarrow> rat list result" where
  "dequantize_loop (a # b # bytes) =
     bind_result (level (centi a b)) (\<lambda>_.
     bind_result (dequantize_loop bytes) (\<lambda>vs. Inr (centi a b # vs)))"
| "dequantize_loop _ = Inr []"

definition dequantize :: "u8 list \<Rightarrow> nat \<Rightarrow> rat list result" where
  "dequantize bytes count =
     (if length bytes \<noteq> count * 2 then Inl ''Invalid quantized spectrum length'' else dequantize_loop bytes)"

section \<open>The activity bitmap\<close>

text \<open>The inner loop: how far the byte \<open>x\<close> repeats, at most 65535 times.\<close>

fun run_length :: "u8 \<Rightarrow> nat \<Rightarrow> u8 list \<Rightarrow> nat" where
  "run_length x n [] = n"
| "run_length x n (y # ys) = (if y = x \<and> n < 65535 then run_length x (n + 1) ys else n)"

definition run_bytes :: "nat \<Rightarrow> u8 \<Rightarrow> u8 list" where
  "run_bytes n x = [word_of_nat (n mod 256), word_of_nat (n div 256), x]"

definition encode_step :: "u8 list \<Rightarrow> nat \<times> u8 list \<times> bool \<Rightarrow> nat \<times> u8 list \<times> bool" where
  "encode_step source = (\<lambda>(i, out, raw).
     let n = run_length (source ! i) 1 (drop (i + 1) source);
       out' = out @ run_bytes n (source ! i)
     in if length out' \<ge> length source + 1 then (i + n, 0 # source, True) else (i + n, out', False))"

definition encode_loop :: "u8 list \<Rightarrow> (nat \<times> u8 list \<times> bool) option" where
  "encode_loop source =
     while_option (\<lambda>(i, out, raw). i < length source \<and> \<not> raw) (encode_step source) (0, [1], False)"

definition encode_activity :: "u8 list \<Rightarrow> u8 list option" where
  "encode_activity source = map_option (\<lambda>(i, out, raw). out) (encode_loop source)"

fun decode_runs :: "nat \<Rightarrow> u8 list \<Rightarrow> u8 list \<Rightarrow> u8 list result" where
  "decode_runs count out (a # b # x # encoded) =
     (let run = unat a + 256 * unat b
      in if run = 0 \<or> run > count - length out then Inl ''Invalid spectrum mask run length''
      else decode_runs count (out @ replicate run x) encoded)"
| "decode_runs count out _ = (if length out \<noteq> count then Inl ''Truncated spectrum mask'' else Inr out)"

definition decode_activity :: "u8 list \<Rightarrow> nat \<Rightarrow> u8 list result" where
  "decode_activity encoded count =
     (if count = 0 \<or> count > 65536 \<or> encoded = [] then Inl ''Invalid spectrum mask dimensions''
      else if hd encoded = 0 then
        (if length encoded \<noteq> count + 1 then Inl ''Invalid raw measurement mask length'' else Inr (tl encoded))
      else if hd encoded \<noteq> 1 \<or> (length encoded - 1) mod 3 \<noteq> 0 then Inl ''Invalid spectrum mask encoding''
      else decode_runs count [] (tl encoded))"

section \<open>Rounding to hundredths\<close>

definition hundredth :: "rat \<Rightarrow> rat" where
  "hundredth v = of_int (lround (v * 100)) / 100"

lemma lround_near: "\<bar>of_int (lround x) - x\<bar> \<le> 1 / 2"
proof -
  have f: "of_int \<lfloor>y\<rfloor> \<le> y" "y < of_int \<lfloor>y\<rfloor> + 1" for y :: rat
    using floor_correct [of y] by auto
  show ?thesis
  proof (cases "x < 0")
    case True
    then have "of_int (lround x) = - (of_int \<lfloor>- x + 1 / 2\<rfloor> :: rat)" unfolding lround_def by simp
    with f [of "- x + 1 / 2"] show ?thesis by (intro abs_leI; linarith)
  next
    case False
    then have "of_int (lround x) = (of_int \<lfloor>x + 1 / 2\<rfloor> :: rat)" unfolding lround_def by simp
    with f [of "x + 1 / 2"] show ?thesis by (intro abs_leI; linarith)
  qed
qed

lemma lround_mono:
  assumes "x \<le> y"
  shows "lround x \<le> lround y"
proof -
  have pos: "0 \<le> \<lfloor>z + 1 / 2\<rfloor>" if "0 \<le> z" for z :: rat
    using that by (simp add: zero_le_floor)
  consider "0 \<le> x" | "x < 0" "0 \<le> y" | "y < 0" using assms by linarith
  then show ?thesis
  proof cases
    case 1
    then show ?thesis using assms floor_mono [of "x + 1 / 2" "y + 1 / 2"] by (simp add: lround_def)
  next
    case 2
    then have "- \<lfloor>- x + 1 / 2\<rfloor> \<le> 0" "0 \<le> \<lfloor>y + 1 / 2\<rfloor>" using pos [of "- x"] pos [of y] by linarith+
    then have "- \<lfloor>- x + 1 / 2\<rfloor> \<le> \<lfloor>y + 1 / 2\<rfloor>" by linarith
    with 2 show ?thesis unfolding lround_def by simp
  next
    case 3
    then show ?thesis using assms floor_mono [of "- y + 1 / 2" "- x + 1 / 2"] by (simp add: lround_def)
  qed
qed

lemma hundredth_near: "\<bar>hundredth v - v\<bar> \<le> 1 / 200"
  using lround_near [of "v * 100"] by (simp add: hundredth_def abs_le_iff field_simps)

lemma hundredth_mono: "v \<le> w \<Longrightarrow> hundredth v \<le> hundredth w"
  using lround_mono [of "v * 100" "w * 100"] by (simp add: hundredth_def divide_right_mono)

lemma lround_of_int [simp]: "lround (of_int i) = i"
proof -
  have "\<lfloor>of_int j + 1 / 2 :: rat\<rfloor> = j" for j by (simp add: floor_eq_iff)
  from this [of i] this [of "- i"] show ?thesis by (simp add: lround_def)
qed

lemma level_hundredth: "level v = Inr () \<Longrightarrow> level (hundredth v) = Inr () \<and> - 30000 \<le> lround (v * 100) \<and> lround (v * 100) \<le> 10000"
proof -
  assume "level v = Inr ()"
  then have v: "- 300 \<le> v" "v \<le> 100" by (simp_all add: level_def not_less)
  have "lround (of_int (- 30000)) \<le> lround (v * 100)" "lround (v * 100) \<le> lround (of_int 10000)"
    using v by (intro lround_mono; simp)+
  then have b: "- 30000 \<le> lround (v * 100)" "lround (v * 100) \<le> 10000" unfolding lround_of_int by simp_all
  then have "of_int (- 30000) \<le> (of_int (lround (v * 100)) :: rat)" "(of_int (lround (v * 100)) :: rat) \<le> of_int 10000"
    by (simp_all only: of_int_le_iff)
  then show ?thesis using b by (simp add: level_def hundredth_def not_less)
qed

lemma word_bytes:
  fixes w :: u16
  shows "uint (ucast (w AND 255) :: u8) + 256 * uint (ucast (drop_bit 8 w) :: u8) = uint w"
proof -
  have w: "uint w < 65536" using uint_lt2p [of w] by simp
  have "w AND 255 = take_bit 8 w" by (simp add: take_bit_eq_mask mask_eq_exp_minus_1)
  then have lo: "uint (ucast (w AND 255) :: u8) = uint w mod 256"
    by (simp add: unsigned_ucast_eq unsigned_take_bit_eq take_bit_eq_mod uint_mod)
  have hi: "uint w div 256 mod 256 = uint w div 256"
    using w by (intro mod_pos_pos_trivial) (simp_all add: pos_imp_zdiv_nonneg_iff)
  have "uint (ucast (drop_bit 8 w) :: u8) = uint w div 256"
    using w hi by (simp add: unsigned_ucast_eq unsigned_drop_bit_eq drop_bit_eq_div take_bit_eq_mod uint_div)
  then show ?thesis using lo by simp
qed

lemma centi_quantized:
  assumes "- 30000 \<le> q" "q \<le> 10000"
  shows "centi (ucast ((word_of_int q :: u16) AND 255)) (ucast (drop_bit 8 (word_of_int q :: u16))) = of_int q / 100"
proof -
  have "uint (word_of_int q :: u16) = q mod 65536" by (simp add: unsigned_of_int take_bit_eq_mod)
  also have "\<dots> = (if q < 0 then q + 65536 else q)"
  proof (cases "q < 0")
    case True
    have "q mod 65536 = (q + 65536) mod 65536" by simp
    also have "\<dots> = q + 65536" using True assms by (intro mod_pos_pos_trivial) linarith+
    finally show ?thesis using True by simp
  next
    case False
    then have "q mod 65536 = q" using assms by (intro mod_pos_pos_trivial) linarith+
    then show ?thesis using False by simp
  qed
  finally show ?thesis
    using assms unfolding centi_def Let_def word_bytes by auto
qed

lemma quantize_length: "quantize vs = Inr bytes \<Longrightarrow> length bytes = 2 * length vs"
  by (induction vs arbitrary: bytes) (auto simp: bind_result_Inr)

lemma dequantize_quantize:
  assumes "quantize vs = Inr bytes"
  shows "dequantize bytes (length vs) = Inr (map hundredth vs)"
proof -
  have "dequantize_loop bytes = Inr (map hundredth vs)"
    using assms
  proof (induction vs arbitrary: bytes)
    case (Cons v vs)
    then obtain rest where l: "level v = Inr ()" and q: "quantize vs = Inr rest" and
      b: "bytes = ucast (quantized v AND 255) # ucast (drop_bit 8 (quantized v)) # rest"
      by (auto simp: bind_result_Inr)
    have "centi (ucast (quantized v AND 255)) (ucast (drop_bit 8 (quantized v))) = hundredth v"
      using centi_quantized level_hundredth [OF l] by (simp add: quantized_def hundredth_def)
    then show ?case using Cons.IH [OF q] level_hundredth [OF l] by (simp add: b)
  qed simp
  then show ?thesis by (simp add: dequantize_def quantize_length [OF assms])
qed

section \<open>Runs\<close>

lemma run_length_spec:
  "n \<le> 65535 \<Longrightarrow> n \<le> run_length x n ys \<and> run_length x n ys \<le> n + length ys \<and> run_length x n ys \<le> 65535 \<and>
    take (run_length x n ys - n) ys = replicate (run_length x n ys - n) x"
proof (induction x n ys rule: run_length.induct)
  case (2 x n y ys)
  show ?case
  proof (cases "y = x \<and> n < 65535")
    case True
    define r where "r = run_length x (Suc n) ys"
    have IH: "n + 1 \<le> r" "r \<le> n + 1 + length ys" "r \<le> 65535" "take (r - (n + 1)) ys = replicate (r - (n + 1)) x"
      using 2 True unfolding r_def by auto
    then have "r - n = Suc (r - (n + 1))" by simp
    then have "take (r - n) (y # ys) = replicate (r - n) x" using True IH(4) by simp
    then show ?thesis using True IH by (simp add: r_def [symmetric])
  qed (use 2 in auto)
qed simp

lemma run_step:
  assumes "i < length source"
  defines "n \<equiv> run_length (source ! i) 1 (drop (i + 1) source)"
  shows "0 < n" "i + n \<le> length source" "n \<le> 65535"
    "take (i + n) source = take i source @ replicate n (source ! i)"
proof -
  have r: "1 \<le> n" "n \<le> 1 + length (drop (i + 1) source)" "n \<le> 65535"
    "take (n - 1) (drop (i + 1) source) = replicate (n - 1) (source ! i)"
    using run_length_spec [of 1 "source ! i" "drop (i + 1) source"] by (simp_all add: n_def)
  then show "0 < n" "i + n \<le> length source" "n \<le> 65535" using assms by simp_all
  obtain k where k: "n = Suc k" using r(1) by (cases n) auto
  have "take n (drop i source) = source ! i # take k (drop (Suc i) source)"
    using assms(1) by (simp add: k Cons_nth_drop_Suc [symmetric])
  also have "\<dots> = replicate n (source ! i)" using r(4) by (simp add: k)
  finally show "take (i + n) source = take i source @ replicate n (source ! i)" by (simp add: take_add)
qed

text \<open>What the loop keeps: either the bitmap is stored as it is, or the bytes so far decode to the part read.\<close>

definition encode_inv :: "u8 list \<Rightarrow> nat \<times> u8 list \<times> bool \<Rightarrow> bool" where
  "encode_inv source = (\<lambda>(i, out, raw).
     if raw then out = 0 # source
     else i \<le> length source \<and> length out \<le> length source + 1 \<and> (\<exists>runs. out = 1 # runs \<and> length runs mod 3 = 0 \<and>
       (\<forall>rest. decode_runs (length source) [] (runs @ rest) = decode_runs (length source) (take i source) rest)))"

lemma run_value: "n \<le> 65535 \<Longrightarrow> unat (word_of_nat (n mod 256) :: u8) + 256 * unat (word_of_nat (n div 256) :: u8) = n"
  by (simp add: unat_of_nat)

lemma encode_step_inv:
  assumes "encode_inv source s" "(\<lambda>(i, out, raw). i < length source \<and> \<not> raw) s"
  shows "encode_inv source (encode_step source s)"
proof -
  obtain i out where s: "s = (i, out, False)" and i: "i < length source" using assms(2) by (cases s) auto
  define n where "n = run_length (source ! i) 1 (drop (i + 1) source)"
  note run = run_step [OF i, folded n_def]
  obtain runs where out: "out = 1 # runs" "length runs mod 3 = 0"
    and d: "\<And>rest. decode_runs (length source) [] (runs @ rest) = decode_runs (length source) (take i source) rest"
    using assms(1) by (auto simp: encode_inv_def s)
  have next_state: "encode_step source s =
      (if length (out @ run_bytes n (source ! i)) \<ge> length source + 1 then (i + n, 0 # source, True)
       else (i + n, out @ run_bytes n (source ! i), False))"
    by (simp only: encode_step_def s Let_def prod.case n_def)
  have step: "decode_runs (length source) (take i source) (run_bytes n (source ! i) @ rest) =
      decode_runs (length source) (take (i + n) source) rest" for rest
  proof -
    have l: "length (take i source) = i" using i by simp
    have c: "\<not> (n = 0 \<or> n > length source - i)" using run(1,2) by linarith
    show ?thesis
      unfolding run_bytes_def append_Cons append_Nil decode_runs.simps Let_def run_value [OF run(3)] l if_not_P [OF c]
      by (simp only: run(4))
  qed
  have "decode_runs (length source) [] ((runs @ run_bytes n (source ! i)) @ rest) =
      decode_runs (length source) (take (i + n) source) rest" for rest
    using d [of "run_bytes n (source ! i) @ rest"] step [of rest] by simp
  moreover have "length (runs @ run_bytes n (source ! i)) mod 3 = 0"
    using out(2) by (simp add: run_bytes_def mod_add_eq [symmetric])
  ultimately show ?thesis
    using run(2) unfolding next_state encode_inv_def out(1) by auto
qed

lemma encode_loop_returns: "\<exists>s. encode_loop source = Some s"
  unfolding encode_loop_def
proof (rule measure_while_option_Some [where P = "\<lambda>_. True" and f = "\<lambda>(i, out, raw). (if raw then 0 else 1) + (length source - i)"])
  fix s :: "nat \<times> u8 list \<times> bool"
  assume b: "(\<lambda>(i, out, raw). i < length source \<and> \<not> raw) s"
  obtain i out where s: "s = (i, out, False)" and i: "i < length source" using b by (cases s) auto
  show "True \<and> (\<lambda>(i, out, raw). (if raw then 0 else 1) + (length source - i)) (encode_step source s) <
      (\<lambda>(i, out, raw). (if raw then 0 else 1) + (length source - i)) s"
    using run_step(1,2) [OF i] i by (auto simp: encode_step_def s Let_def)
qed simp

lemma encode_loop_inv:
  assumes "encode_loop source = Some s"
  shows "encode_inv source s" "\<not> (\<lambda>(i, out, raw). i < length source \<and> \<not> raw) s"
proof -
  show "encode_inv source s"
    using encode_step_inv assms unfolding encode_loop_def
    by (rule while_option_rule) (simp_all add: encode_inv_def)
  show "\<not> (\<lambda>(i, out, raw). i < length source \<and> \<not> raw) s"
    using assms unfolding encode_loop_def by (rule while_option_stop)
qed

lemma encode_activity_returns:
  "\<exists>out. encode_activity source = Some out \<and> 0 < length out \<and> length out \<le> length source + 1"
proof -
  obtain i out raw where s: "encode_loop source = Some (i, out, raw)" using encode_loop_returns by (metis prod_cases3)
  then have "encode_inv source (i, out, raw)" by (rule encode_loop_inv)
  then show ?thesis by (auto simp: encode_activity_def s encode_inv_def split: if_splits)
qed

text \<open>A bitmap of a supported size is read back bit for bit.\<close>

lemma activity_round_trip:
  assumes "0 < length bits" "length bits \<le> 65536" "encode_activity bits = Some out"
  shows "decode_activity out (length bits) = Inr bits \<and> bind_value (SBlob out) = Inr ()"
proof -
  obtain i raw where s: "encode_loop bits = Some (i, out, raw)"
    using assms(3) by (auto simp: encode_activity_def)
  have inv: "encode_inv bits (i, out, raw)" and stop: "\<not> (i < length bits \<and> \<not> raw)"
    using encode_loop_inv [OF s] by simp_all
  have len: "out \<noteq> []" "length out \<le> length bits + 1"
    using encode_activity_returns [of bits] assms(3) by auto
  have "decode_activity out (length bits) = Inr bits"
  proof (cases raw)
    case True
    with inv assms show ?thesis by (simp add: encode_inv_def decode_activity_def)
  next
    case False
    then obtain runs where "out = 1 # runs" "length runs mod 3 = 0" "i = length bits"
      "\<And>rest. decode_runs (length bits) [] (runs @ rest) = decode_runs (length bits) (take i bits) rest"
      using inv stop by (auto simp: encode_inv_def)
    from this(1-3) this(4) [of "[]"] assms show ?thesis by (simp add: decode_activity_def)
  qed
  then show ?thesis using len assms(2) by (simp add: bind_value_def)
qed

text \<open>
  C40: The encoder of the activity bitmap returns on every bitmap, and what it returns is
  never empty nor more than one byte longer than the bitmap.
\<close>

theorem encoder_terminates:
  "\<exists>out. encode_activity source = Some out \<and> 0 < length out \<and> length out \<le> length source + 1"
  by (rule encode_activity_returns)

end
