(* ===== verification/SpectrumRows.thy ===== *)
theory SpectrumRows
  imports SpectrumCodec ReceiverConfig
begin

text \<open>
  The spectrum records of a survey (\<open>survey.hpp\<close>) and their rows (\<open>storage.cpp\<close>): tiles of
  contiguous FFT frames, energy events and gaps in the coverage. Each has its validation,
  the row that \<open>append\<close> writes and the reader of a row. Single-precision powers are rational
  numbers; a value read from a column is not rounded to single precision.
\<close>

section \<open>Records\<close>

record spectrum_tile =
  tl_id :: u64
  tl_first :: u64
  tl_end :: u64
  tl_utc_start :: rat
  tl_utc_end :: rat
  tl_start :: rat
  tl_stop :: rat
  tl_power_start :: rat
  tl_power_end :: rat
  tl_center :: rat
  tl_width :: rat
  tl_fft :: u32
  tl_frames :: u32
  tl_background :: rat
  tl_clipped :: u64
  tl_quality :: u32
  tl_mean :: "rat list"
  tl_peak :: "rat list"
  tl_activity :: "u8 list"
  tl_from :: "position_fix option"
  tl_to :: "position_fix option"

record spectrum_event =
  se_id :: u64
  se_first :: u64
  se_end :: u64
  se_utc_start :: rat
  se_utc_end :: rat
  se_start :: rat
  se_stop :: rat
  se_lower :: rat
  se_upper :: rat
  se_active :: rat
  se_mean :: rat
  se_peak :: rat
  se_quality :: u32
  se_from :: "position_fix option"
  se_to :: "position_fix option"

record coverage_gap =
  cg_id :: u64
  cg_missing :: u64
  cg_utc_start :: rat
  cg_utc_end :: rat
  cg_start :: rat
  cg_stop :: rat
  cg_reason :: string

definition power_aggregated :: u32 where "power_aggregated = 512"

section \<open>Validation\<close>

text \<open>An instance of every test is an entry, in order; the first that holds is the error.\<close>

fun first_error :: "(bool \<times> string) list \<Rightarrow> unit result" where
  "first_error [] = Inr ()"
| "first_error ((bad, message) # tests) = bind_result (guard_err bad message) (\<lambda>_. first_error tests)"

lemma first_error_Inr [result_simps]: "first_error tests = Inr () \<longleftrightarrow> (\<forall>t\<in>set tests. \<not> fst t)"
  by (induction tests rule: first_error.induct) (auto simp: bind_result_Inr)

definition interval :: "u64 \<Rightarrow> rat \<Rightarrow> rat \<Rightarrow> rat \<Rightarrow> rat \<Rightarrow> unit result" where
  "interval i utc_start utc_end start stop =
     first_error
      [(i = 0 \<or> i > int64_max, ''Invalid spectrum record identity''),
       (utc_start < 0 \<or> utc_end < 0 \<or> start < 0 \<or> stop < 0, ''Invalid spectrum record time''),
       (utc_end \<le> utc_start \<or> stop \<le> start \<or> stop > 10000000000 \<or>
          \<bar>(utc_end - utc_start) - (stop - start)\<bar> > 2 / 1000,
        ''Inconsistent spectrum time interval'')]"

definition hz :: "'a::len word \<Rightarrow> rat" where "hz w = rat_of_word w"

text \<open>
  The shape, the times and the quality of a tile. A sample rate of zero makes the quotient
  of the code infinite, and the tile invalid.
\<close>

definition tile_shape_bad :: "spectrum_tile \<Rightarrow> receiver_config \<Rightarrow> bool" where
  "tile_shape_bad t c =
     (let bins = length (tl_mean t); frames = unat (tl_frames t)
      in tl_fft t \<noteq> 4096 \<or> frames = 0 \<or> frames > 128 \<or> bins = 0 \<or> bins > 4096 \<or>
        length (tl_peak t) \<noteq> bins \<or> length (tl_activity t) \<noteq> (bins + 7) div 8 * frames \<or>
        tl_first t > int64_max \<or> tl_end t > int64_max \<or> tl_end t \<le> tl_first t \<or>
        tl_end t - tl_first t \<noteq> ucast (tl_frames t) * 4096 \<or>
        \<bar>tl_width t - hz (cf_rate c) / 4096\<bar> > 1 / 10000000 \<or>
        cf_rate c = 0 \<or>
        \<bar>(tl_stop t - tl_start t) - hz (tl_end t - tl_first t) / hz (cf_rate c)\<bar> > 1 / 10000000 \<or>
        tl_clipped t > tl_end t - tl_first t \<or> tl_quality t > 1023)"

definition tile_grid_bad :: "spectrum_tile \<Rightarrow> receiver_config \<Rightarrow> bool" where
  "tile_grid_bad t c =
     (let width = hz (cf_rate c) / 4096; bins = of_nat (length (tl_mean t));
        index = (tl_center t - (hz (cf_center c) - hz (cf_rate c) / 2)) / width
      in \<bar>index - of_int (lround index)\<bar> > 1 / 1000000 \<or> index < 0 \<or> index + bins > 4096 \<or>
        tl_center t - width / 2 < hz (cf_center c) - hz (cf_span c) / 2 - 1 / 100000 \<or>
        tl_center t + (bins - 1 / 2) * width > hz (cf_center c) + hz (cf_span c) / 2 + 1 / 100000)"

definition check_bin :: "rat \<Rightarrow> rat \<Rightarrow> unit result" where
  "check_bin mean peak =
     bind_result (level mean) (\<lambda>_.
     bind_result (level peak) (\<lambda>_.
     guard_err (mean > peak + 11 / 1000) ''Spectrum mean exceeds peak''))"

definition padding_bad :: "spectrum_tile \<Rightarrow> bool" where
  "padding_bad t =
     (let bins = length (tl_mean t); stride = (bins + 7) div 8
      in bins mod 8 \<noteq> 0 \<and>
        list_ex (\<lambda>f. tl_activity t ! ((f + 1) * stride - 1) AND push_bit (bins mod 8) 255 \<noteq> 0)
          [0..<unat (tl_frames t)])"

definition validate_tile :: "receiver_config \<Rightarrow> spectrum_tile \<Rightarrow> unit result" where
  "validate_tile c t =
     bind_result (interval (tl_id t) (tl_utc_start t) (tl_utc_end t) (tl_start t) (tl_stop t)) (\<lambda>_.
     bind_result (guard_err (tile_shape_bad t c) ''Invalid spectrum tile dimensions, timing, or quality'') (\<lambda>_.
     bind_result (guard_err (tile_grid_bad t c) ''Spectrum grid is outside the recorded usable range'') (\<lambda>_.
     bind_result (level (tl_background t)) (\<lambda>_.
     bind_result (for_each (\<lambda>_ (mean, peak). check_bin mean peak) 0 (zip (tl_mean t) (tl_peak t))) (\<lambda>_.
     bind_result (guard_err (padding_bad t) ''Nonzero spectrum bitmap padding'') (\<lambda>_.
     bind_result (validate_optional_fix (tl_from t)) (\<lambda>_.
     validate_optional_fix (tl_to t))))))))"

definition validate_event :: "receiver_config \<Rightarrow> spectrum_event \<Rightarrow> unit result" where
  "validate_event c e =
     bind_result (interval (se_id e) (se_utc_start e) (se_utc_end e) (se_start e) (se_stop e)) (\<lambda>_.
     bind_result (level (se_mean e)) (\<lambda>_.
     bind_result (level (se_peak e)) (\<lambda>_.
     bind_result (guard_err
       (se_end e \<le> se_first e \<or> se_end e > int64_max \<or>
        se_lower e < hz (cf_center c) - hz (cf_span c) / 2 - 1 / 100000 \<or>
        se_upper e > hz (cf_center c) + hz (cf_span c) / 2 + 1 / 100000 \<or>
        se_upper e \<le> se_lower e \<or> se_active e < 0 \<or>
        se_active e > se_stop e - se_start e + 1 / 10000000 \<or>
        se_mean e > se_peak e + 11 / 1000 \<or> se_quality e > 511)
       ''Invalid spectrum event'') (\<lambda>_.
     bind_result (validate_optional_fix (se_from e)) (\<lambda>_.
     validate_optional_fix (se_to e))))))"

definition validate_gap :: "coverage_gap \<Rightarrow> unit result" where
  "validate_gap g =
     bind_result (interval (cg_id g) (cg_utc_start g) (cg_utc_end g) (cg_start g) (cg_stop g)) (\<lambda>_.
     guard_err (cg_missing g > int64_max \<or> cg_reason g = [] \<or> length (cg_reason g) > 512 \<or> \<not> valid_utf8 (cg_reason g))
       ''Invalid coverage gap'')"

section \<open>Writing\<close>

text \<open>
  The detailed layout of a tile (schema 5). The encoder of the bitmap returns on every
  bitmap (\<open>encode_activity_returns\<close>), so that \<open>the\<close> is its result.
\<close>

definition tile_row :: "receiver_config \<Rightarrow> spectrum_tile \<Rightarrow> row result" where
  "tile_row c t =
     bind_result (validate_tile c t) (\<lambda>_.
     bind_result (guard_err (tl_quality t AND power_aggregated \<noteq> 0)
       ''Already aggregated power cannot be recorded as a fine input tile'') (\<lambda>_.
     bind_result (quantize (tl_mean t)) (\<lambda>mean.
     bind_result (quantize (tl_peak t)) (\<lambda>peak.
     bind_result (fix_values (tl_from t)) (\<lambda>from.
     bind_result (fix_values (tl_to t)) (\<lambda>to.
     insert_row
       ([int_of_u64 (tl_id t), int_of_u64 (tl_first t), int_of_u64 (tl_end t), SReal (tl_utc_start t),
         SReal (tl_utc_end t), SReal (tl_start t), SReal (tl_stop t), SReal (tl_center t), SReal (tl_width t),
         int_of_u32 (tl_fft t), int_of_u32 (tl_frames t), SInt (int (length (tl_mean t))),
         SReal (tl_background t), int_of_u64 (tl_clipped t), int_of_u32 (tl_quality t),
         SBlob mean, SBlob peak, SBlob (the (encode_activity (tl_activity t)))] @ from @ to)))))))"

definition event_row :: "receiver_config \<Rightarrow> spectrum_event \<Rightarrow> row result" where
  "event_row c e =
     bind_result (validate_event c e) (\<lambda>_.
     bind_result (fix_values (se_from e)) (\<lambda>from.
     bind_result (fix_values (se_to e)) (\<lambda>to.
     insert_row
       ([int_of_u64 (se_id e), int_of_u64 (se_first e), int_of_u64 (se_end e), SReal (se_utc_start e),
         SReal (se_utc_end e), SReal (se_start e), SReal (se_stop e), SReal (se_lower e), SReal (se_upper e),
         SReal (se_active e), SReal (se_mean e), SReal (se_peak e), int_of_u32 (se_quality e)] @ from @ to))))"

definition gap_row :: "coverage_gap \<Rightarrow> row result" where
  "gap_row g =
     bind_result (validate_gap g) (\<lambda>_.
     insert_row [int_of_u64 (cg_id g), int_of_u64 (cg_missing g), SReal (cg_utc_start g), SReal (cg_utc_end g),
       SReal (cg_start g), SReal (cg_stop g), SText (cg_reason g)])"

section \<open>Reading\<close>

text \<open>The part of a compact row (schema 6) that describes the block of its powers.\<close>

definition compact_power :: "row \<Rightarrow> receiver_config \<Rightarrow> spectrum_tile \<Rightarrow> nat \<Rightarrow> spectrum_tile result" where
  "compact_power r c t bins =
     bind_result (real_at r 36) (\<lambda>power_start.
     bind_result (real_at r 37) (\<lambda>power_end.
     bind_result (unsigned_at r 38 int64_max) (\<lambda>first.
     bind_result (unsigned_at r 39 int64_max) (\<lambda>last.
     bind_result (unsigned_at r 43 5000) (\<lambda>frames.
     bind_result (unsigned_at r 44 4096) (\<lambda>count.
     bind_result (unsigned_at r 49 int64_max) (\<lambda>block.
     bind_result (real_at r 50) (\<lambda>utc_start.
     bind_result (real_at r 51) (\<lambda>utc_end.
     bind_result (interval block utc_start utc_end power_start power_end) (\<lambda>_.
     bind_result (real_at r 40) (\<lambda>center.
     bind_result (real_at r 41) (\<lambda>width.
     bind_result (unsigned_at r 42 uint32_max) (\<lambda>fft.
     bind_result (guard_err
       (power_start > tl_start t + 1 / 100000000 \<or> power_end < tl_stop t - 1 / 100000000 \<or>
        power_end - power_start > 10000001 / 10000000 \<or> first > tl_first t \<or> last < tl_end t \<or>
        last - first \<noteq> frames * 4096 \<or> unat count \<noteq> bins \<or> center \<noteq> tl_center t \<or> width \<noteq> tl_width t \<or>
        fft \<noteq> 4096 \<or> cf_rate c = 0 \<or>
        \<bar>power_end - power_start - hz (last - first) / hz (cf_rate c)\<bar> > 1 / 10000000 \<or>
        (\<not> null_at r 45 \<and> (null_at r 47 \<or> integer_at r 45 \<noteq> integer_at r 47)) \<or>
        (\<not> null_at r 46 \<and> (null_at r 48 \<or> integer_at r 46 \<noteq> integer_at r 48)))
       ''Invalid compact power block or receiver reference'') (\<lambda>_.
     Inr (t\<lparr>tl_power_start := power_start, tl_power_end := power_end,
       tl_quality := tl_quality t OR power_aggregated\<rparr>)))))))))))))))"

definition tile_from :: "nat \<Rightarrow> receiver_config \<Rightarrow> row \<Rightarrow> spectrum_tile result" where
  "tile_from version c r =
     bind_result (unsigned_at r 0 int64_max) (\<lambda>i.
     bind_result (unsigned_at r 1 int64_max) (\<lambda>first.
     bind_result (unsigned_at r 2 int64_max) (\<lambda>end_sample.
     bind_result (real_at r 3) (\<lambda>utc_start.
     bind_result (real_at r 4) (\<lambda>utc_end.
     bind_result (real_at r 5) (\<lambda>start.
     bind_result (real_at r 6) (\<lambda>stop.
     bind_result (real_at r 7) (\<lambda>center.
     bind_result (real_at r 8) (\<lambda>width.
     bind_result (unsigned_at r 9 4096) (\<lambda>fft.
     bind_result (unsigned_at r 10 128) (\<lambda>frames.
     bind_result (unsigned_at r 11 4096) (\<lambda>bins.
     bind_result (guard_err (bins = 0 \<or> frames = 0) ''Empty spectrum tile'') (\<lambda>_.
     bind_result (real_at r 12) (\<lambda>background.
     bind_result (unsigned_at r 13 int64_max) (\<lambda>clipped.
     bind_result (unsigned_at r 14 511) (\<lambda>quality.
     bind_result (blob_at r 15 8192) (\<lambda>mean_bytes.
     bind_result (dequantize mean_bytes (unat bins)) (\<lambda>mean.
     bind_result (blob_at r 16 8192) (\<lambda>peak_bytes.
     bind_result (dequantize peak_bytes (unat bins)) (\<lambda>peak.
     bind_result (blob_at r 17 65537) (\<lambda>bits.
     bind_result (decode_activity bits ((unat bins + 7) div 8 * unat frames)) (\<lambda>activity.
     bind_result (read_fix r 18) (\<lambda>from.
     bind_result (read_fix r 27) (\<lambda>to.
     let t = \<lparr>tl_id = i, tl_first = first, tl_end = end_sample, tl_utc_start = utc_start, tl_utc_end = utc_end,
       tl_start = start, tl_stop = stop, tl_power_start = start, tl_power_end = stop, tl_center = center,
       tl_width = width, tl_fft = ucast fft, tl_frames = ucast frames, tl_background = background,
       tl_clipped = clipped, tl_quality = ucast quality, tl_mean = mean, tl_peak = peak, tl_activity = activity,
       tl_from = from, tl_to = to\<rparr>
     in bind_result (if version \<ge> 6 then compact_power r c t (unat bins) else Inr t) (\<lambda>t.
        bind_result (validate_tile c t) (\<lambda>_. Inr t))))))))))))))))))))))))))"

definition event_from :: "receiver_config \<Rightarrow> row \<Rightarrow> spectrum_event result" where
  "event_from c r =
     bind_result (unsigned_at r 0 int64_max) (\<lambda>i.
     bind_result (unsigned_at r 1 int64_max) (\<lambda>first.
     bind_result (unsigned_at r 2 int64_max) (\<lambda>end_sample.
     bind_result (real_at r 3) (\<lambda>utc_start.
     bind_result (real_at r 4) (\<lambda>utc_end.
     bind_result (real_at r 5) (\<lambda>start.
     bind_result (real_at r 6) (\<lambda>stop.
     bind_result (real_at r 7) (\<lambda>lower.
     bind_result (real_at r 8) (\<lambda>upper.
     bind_result (real_at r 9) (\<lambda>active.
     bind_result (real_at r 10) (\<lambda>mean.
     bind_result (real_at r 11) (\<lambda>peak.
     bind_result (unsigned_at r 12 511) (\<lambda>quality.
     bind_result (read_fix r 13) (\<lambda>from.
     bind_result (read_fix r 22) (\<lambda>to.
     let e = \<lparr>se_id = i, se_first = first, se_end = end_sample, se_utc_start = utc_start, se_utc_end = utc_end,
       se_start = start, se_stop = stop, se_lower = lower, se_upper = upper, se_active = active, se_mean = mean,
       se_peak = peak, se_quality = ucast quality, se_from = from, se_to = to\<rparr>
     in bind_result (validate_event c e) (\<lambda>_. Inr e))))))))))))))))"

definition gap_from :: "row \<Rightarrow> coverage_gap result" where
  "gap_from r =
     bind_result (unsigned_at r 0 int64_max) (\<lambda>i.
     bind_result (unsigned_at r 1 int64_max) (\<lambda>missing.
     bind_result (real_at r 2) (\<lambda>utc_start.
     bind_result (real_at r 3) (\<lambda>utc_end.
     bind_result (real_at r 4) (\<lambda>start.
     bind_result (real_at r 5) (\<lambda>stop.
     bind_result (text_at r 6) (\<lambda>reason.
     let g = \<lparr>cg_id = i, cg_missing = missing, cg_utc_start = utc_start, cg_utc_end = utc_end, cg_start = start,
       cg_stop = stop, cg_reason = reason\<rparr>
     in bind_result (validate_gap g) (\<lambda>_. Inr g))))))))"

section \<open>Reading what was written\<close>

lemma interval_id: "interval i a b s e = Inr () \<Longrightarrow> i \<le> int64_max"
  by (simp add: interval_def bind_result_Inr not_less)

lemma kept_fix_valid: "validate_optional_fix p = Inr () \<Longrightarrow> validate_optional_fix (kept_fix p) = Inr ()"
  by (simp add: validate_optional_fix_def kept_fix_def split: option.splits)

lemma ball_set_append: "(\<forall>x\<in>set (xs @ ys). P x) \<longleftrightarrow> (\<forall>x\<in>set xs. P x) \<and> (\<forall>x\<in>set ys. P x)"
  by auto

interpretation gaps: stored_record gap_row gap_from "\<lambda>g. g"
proof
  fix g r assume w: "gap_row g = Inr r"
  then have v: "validate_gap g = Inr ()" and
    r: "r = [int_of_u64 (cg_id g), int_of_u64 (cg_missing g), SReal (cg_utc_start g), SReal (cg_utc_end g),
       SReal (cg_start g), SReal (cg_stop g), SText (cg_reason g)]"
    and t: "bind_value (SText (cg_reason g)) = Inr ()"
    by (auto simp: gap_row_def bind_result_Inr insert_row_Inr)
  have b: "cg_id g \<le> int64_max" "cg_missing g \<le> int64_max"
    using v interval_id by (auto simp: validate_gap_def bind_result_Inr not_less)
  show "gap_from r = Inr g"
    using v b t unfolding r by (cases g) (simp add: gap_from_def row_simps Let_def)
qed

definition kept_event :: "spectrum_event \<Rightarrow> spectrum_event" where
  "kept_event e = e\<lparr>se_from := kept_fix (se_from e), se_to := kept_fix (se_to e)\<rparr>"

lemma two_fixes:
  assumes "fix_values p = Inr ps" "fix_values q = Inr qs"
    and bound: "\<forall>v\<in>set (front @ ps @ qs). bind_value v = Inr ()" and n: "length front = n"
  shows "read_fix (front @ ps @ qs) n = Inr (kept_fix p)" "read_fix (front @ ps @ qs) (n + 9) = Inr (kept_fix q)"
proof -
  have lp: "length ps = 9" and lq: "length qs = 9"
    using read_fix_written [OF assms(1), of ps 0] read_fix_written [OF assms(2), of qs 0] bound by auto
  have cp: "column (front @ ps @ qs) (n + i) = column ps i" if "i < 9" for i
    using that lp n by (simp add: column_append)
  have cq: "column (front @ ps @ qs) (n + 9 + i) = column qs i" if "i < 9" for i
    using that lp n by (simp add: column_append)
  show "read_fix (front @ ps @ qs) n = Inr (kept_fix p)"
    using read_fix_written [OF assms(1), of "front @ ps @ qs" n] bound cp by auto
  show "read_fix (front @ ps @ qs) (n + 9) = Inr (kept_fix q)"
    using read_fix_written [OF assms(2), of "front @ ps @ qs" "n + 9"] bound cq by auto
qed

interpretation events: stored_record "event_row c" "event_from c" kept_event for c
proof
  fix e r assume w: "event_row c e = Inr r"
  define front where "front = [int_of_u64 (se_id e), int_of_u64 (se_first e), int_of_u64 (se_end e), SReal (se_utc_start e),
         SReal (se_utc_end e), SReal (se_start e), SReal (se_stop e), SReal (se_lower e), SReal (se_upper e),
         SReal (se_active e), SReal (se_mean e), SReal (se_peak e), int_of_u32 (se_quality e)]"
  obtain ps qs where v: "validate_event c e = Inr ()" and f: "fix_values (se_from e) = Inr ps" "fix_values (se_to e) = Inr qs"
    and bound: "\<forall>v\<in>set (front @ ps @ qs). bind_value v = Inr ()" and r: "r = front @ ps @ qs"
    using w unfolding event_row_def bind_result_Inr insert_row_Inr front_def [symmetric]
    by - (elim exE conjE, rule that, simp, assumption+)
  have fixes_read: "read_fix r 13 = Inr (kept_fix (se_from e))" "read_fix r 22 = Inr (kept_fix (se_to e))"
    using two_fixes [OF f bound, of 13] by (simp_all add: r front_def)
  have "length front = 13" by (simp add: front_def)
  then have col: "column r k = column front k" if "k < 13" for k
    using that by (simp add: r column_append)
  have "\<not> (se_end e \<le> se_first e \<or> se_end e > int64_max)" "\<not> se_quality e > 511" "interval (se_id e) (se_utc_start e)
      (se_utc_end e) (se_start e) (se_stop e) = Inr ()"
    using v unfolding validate_event_def bind_result_Inr guard_err_Inr by auto
  then have b: "se_id e \<le> int64_max" "se_first e \<le> int64_max" "se_end e \<le> int64_max" "uint (se_quality e) \<le> 511"
    using interval_id [of "se_id e"] by (auto simp: word_le_def word_less_def)
  have "validate_event c (kept_event e) = Inr ()"
    using v kept_fix_valid unfolding validate_event_def kept_event_def by (auto simp: bind_result_Inr)
  moreover have rd: "unsigned_at r 0 int64_max = Inr (se_id e)" "unsigned_at r 1 int64_max = Inr (se_first e)"
    "unsigned_at r 2 int64_max = Inr (se_end e)" "real_at r 3 = Inr (se_utc_start e)" "real_at r 4 = Inr (se_utc_end e)"
    "real_at r 5 = Inr (se_start e)" "real_at r 6 = Inr (se_stop e)" "real_at r 7 = Inr (se_lower e)"
    "real_at r 8 = Inr (se_upper e)" "real_at r 9 = Inr (se_active e)" "real_at r 10 = Inr (se_mean e)"
    "real_at r 11 = Inr (se_peak e)" "unsigned_at r 12 511 = Inr (ucast (se_quality e))"
    using b by (simp_all only: readers_find, simp_all add: col, simp_all add: front_def row_simps)
  moreover have "\<lparr>se_id = se_id e, se_first = se_first e, se_end = se_end e, se_utc_start = se_utc_start e,
      se_utc_end = se_utc_end e, se_start = se_start e, se_stop = se_stop e, se_lower = se_lower e,
      se_upper = se_upper e, se_active = se_active e, se_mean = se_mean e, se_peak = se_peak e,
      se_quality = se_quality e, se_from = kept_fix (se_from e), se_to = kept_fix (se_to e)\<rparr> = kept_event e"
    by (simp add: kept_event_def)
  ultimately show "event_from c r = Inr (kept_event e)"
    by (simp add: event_from_def fixes_read Let_def)
qed

text \<open>A tile as it comes back: powers in hundredths of a decibel, valid positions only.\<close>

definition kept_tile :: "spectrum_tile \<Rightarrow> spectrum_tile" where
  "kept_tile t = t\<lparr>tl_power_start := tl_start t, tl_power_end := tl_stop t, tl_mean := map hundredth (tl_mean t),
     tl_peak := map hundredth (tl_peak t), tl_from := kept_fix (tl_from t), tl_to := kept_fix (tl_to t)\<rparr>"

lemma fine_quality:
  assumes "q \<le> 1023" "q AND power_aggregated = 0"
  shows "uint (q :: u32) \<le> 511"
proof -
  have "unat q < 2 ^ 10" using assms(1) by (simp add: word_le_nat_alt)
  then have hi: "\<forall>k\<ge>10. \<not> bit q k" by (simp only: word_less_2p_iff_bits)
  have "bit (push_bit 9 (1 :: u32)) 9" by (simp only: bit_push_bit_iff) simp
  then have "bit power_aggregated 9" by (simp add: power_aggregated_def)
  moreover have "\<not> bit (q AND power_aggregated) 9" using assms(2) by simp
  ultimately have "\<not> bit q 9" by (simp add: bit_and_iff)
  then have "\<not> bit q k" if "9 \<le> k" for k using that hi by (cases "k = 9") simp_all
  then have "unat q < 2 ^ 9" by (simp only: word_less_2p_iff_bits) blast
  then have "unat q \<le> 511" by simp
  then show ?thesis using uint_nat [of q] by linarith
qed

lemma kept_tile_valid:
  assumes v: "validate_tile c t = Inr ()" and le: "\<forall>i<length (tl_mean t). tl_mean t ! i \<le> tl_peak t ! i"
  shows "validate_tile c (kept_tile t) = Inr ()"
proof -
  have b: "interval (tl_id t) (tl_utc_start t) (tl_utc_end t) (tl_start t) (tl_stop t) = Inr ()"
    "\<not> tile_shape_bad t c" "\<not> tile_grid_bad t c" "level (tl_background t) = Inr ()"
    "for_each (\<lambda>_ (mean, peak). check_bin mean peak) 0 (zip (tl_mean t) (tl_peak t)) = Inr ()"
    "\<not> padding_bad t" "validate_optional_fix (tl_from t) = Inr ()" "validate_optional_fix (tl_to t) = Inr ()"
    using v unfolding validate_tile_def bind_result_Inr guard_err_Inr by auto
  have "check_bin (hundredth (tl_mean t ! i)) (hundredth (tl_peak t ! i)) = Inr ()"
    if "i < length (tl_mean t)" "i < length (tl_peak t)" for i
  proof -
    have "level (tl_mean t ! i) = Inr ()" "level (tl_peak t ! i) = Inr ()"
      using b(5) that by (auto simp: for_each_Inr check_bin_def bind_result_Inr)
    moreover have "hundredth (tl_mean t ! i) \<le> hundredth (tl_peak t ! i)"
      using le that by (intro hundredth_mono) simp
    ultimately show ?thesis using level_hundredth by (simp add: check_bin_def)
  qed
  then have "for_each (\<lambda>_ (mean, peak). check_bin mean peak) 0
      (zip (map hundredth (tl_mean t)) (map hundredth (tl_peak t))) = Inr ()"
    by (simp add: for_each_Inr)
  moreover have "\<not> tile_shape_bad (kept_tile t) c" using b(2) by (simp add: tile_shape_bad_def kept_tile_def Let_def)
  moreover have "\<not> tile_grid_bad (kept_tile t) c" using b(3) by (simp add: tile_grid_bad_def kept_tile_def Let_def)
  moreover have "\<not> padding_bad (kept_tile t)" using b(6) by (simp add: padding_bad_def kept_tile_def Let_def)
  ultimately show ?thesis
    unfolding validate_tile_def using b kept_fix_valid by (simp add: kept_tile_def guard_err_def)
qed

lemma tile_shape:
  assumes "\<not> tile_shape_bad t c"
  shows "tl_fft t = 4096" "0 < unat (tl_frames t)" "unat (tl_frames t) \<le> 128" "0 < length (tl_mean t)"
    "length (tl_mean t) \<le> 4096" "length (tl_peak t) = length (tl_mean t)"
    "length (tl_activity t) = (length (tl_mean t) + 7) div 8 * unat (tl_frames t)"
    "tl_first t \<le> int64_max" "tl_end t \<le> int64_max" "tl_clipped t \<le> tl_end t - tl_first t" "tl_first t < tl_end t"
    "tl_quality t \<le> 1023"
  using assms by (auto simp: tile_shape_bad_def Let_def)

lemma tile_activity_size:
  assumes "\<not> tile_shape_bad t c"
  shows "0 < length (tl_activity t)" "length (tl_activity t) \<le> 65536"
proof -
  have "1 \<le> (length (tl_mean t) + 7) div 8"
    using tile_shape(4) [OF assms] div_le_mono [of 8 "length (tl_mean t) + 7" 8] by (simp add: Suc_le_eq)
  then have "1 * 1 \<le> (length (tl_mean t) + 7) div 8 * unat (tl_frames t)"
    using tile_shape(2) [OF assms] by (intro mult_le_mono) auto
  moreover have "(length (tl_mean t) + 7) div 8 * unat (tl_frames t) \<le> 512 * 128"
    using tile_shape(3,5) [OF assms] by (intro mult_le_mono) auto
  ultimately show "0 < length (tl_activity t)" "length (tl_activity t) \<le> 65536"
    unfolding tile_shape(7) [OF assms] by simp_all
qed

lemma clipped_bound:
  assumes "\<not> tile_shape_bad t c"
  shows "tl_clipped t \<le> int64_max"
proof -
  have "tl_end t - tl_first t \<le> tl_end t"
    using tile_shape(11) [OF assms] by (simp add: word_sub_le)
  then show ?thesis using tile_shape(9,10) [OF assms] by (meson order_trans)
qed

definition tile_front :: "spectrum_tile \<Rightarrow> u8 list \<Rightarrow> u8 list \<Rightarrow> u8 list \<Rightarrow> row" where
  "tile_front t mean peak bits =
     [int_of_u64 (tl_id t), int_of_u64 (tl_first t), int_of_u64 (tl_end t), SReal (tl_utc_start t),
      SReal (tl_utc_end t), SReal (tl_start t), SReal (tl_stop t), SReal (tl_center t), SReal (tl_width t),
      int_of_u32 (tl_fft t), int_of_u32 (tl_frames t), SInt (int (length (tl_mean t))),
      SReal (tl_background t), int_of_u64 (tl_clipped t), int_of_u32 (tl_quality t), SBlob mean, SBlob peak, SBlob bits]"

lemma tile_row_parts:
  assumes w: "tile_row c t = Inr r"
  obtains mean peak bits ps qs where "validate_tile c t = Inr ()" "\<not> (tl_quality t AND power_aggregated \<noteq> 0)"
    "quantize (tl_mean t) = Inr mean" "quantize (tl_peak t) = Inr peak" "encode_activity (tl_activity t) = Some bits"
    "fix_values (tl_from t) = Inr ps" "fix_values (tl_to t) = Inr qs" "r = tile_front t mean peak bits @ ps @ qs"
    "\<forall>v\<in>set (tile_front t mean peak bits @ ps @ qs). bind_value v = Inr ()"
proof -
  obtain bits where bits: "encode_activity (tl_activity t) = Some bits" using encode_activity_returns by blast
  obtain mean peak ps qs where v: "validate_tile c t = Inr ()" "\<not> (tl_quality t AND power_aggregated \<noteq> 0)"
    and m: "quantize (tl_mean t) = Inr mean" "quantize (tl_peak t) = Inr peak"
    and f: "fix_values (tl_from t) = Inr ps" "fix_values (tl_to t) = Inr qs"
    and ins: "insert_row (tile_front t mean peak bits @ ps @ qs) = Inr r"
    using w unfolding tile_row_def bind_result_Inr guard_err_Inr bits option.sel
    by (elim exE conjE) (rule that; simp add: tile_front_def)
  show thesis by (rule that [OF v m bits f]) (use ins in \<open>unfold insert_row_Inr, blast+\<close>)
qed

lemma tile_front_columns:
  assumes bad: "\<not> tile_shape_bad t c" and i: "tl_id t \<le> int64_max" and q: "\<not> (tl_quality t AND power_aggregated \<noteq> 0)"
    and m: "quantize (tl_mean t) = Inr mean" "quantize (tl_peak t) = Inr peak" and bits: "encode_activity (tl_activity t) = Some bits"
    and r: "r = tile_front t mean peak bits @ rest"
  shows "unsigned_at r 0 int64_max = Inr (tl_id t)" "unsigned_at r 1 int64_max = Inr (tl_first t)"
    "unsigned_at r 2 int64_max = Inr (tl_end t)" "real_at r 3 = Inr (tl_utc_start t)" "real_at r 4 = Inr (tl_utc_end t)"
    "real_at r 5 = Inr (tl_start t)" "real_at r 6 = Inr (tl_stop t)" "real_at r 7 = Inr (tl_center t)"
    "real_at r 8 = Inr (tl_width t)" "unsigned_at r 9 4096 = Inr (ucast (tl_fft t))"
    "unsigned_at r 10 128 = Inr (ucast (tl_frames t))"
    "unsigned_at r 11 4096 = Inr (word_of_int (int (length (tl_mean t))))"
    "real_at r 12 = Inr (tl_background t)" "unsigned_at r 13 int64_max = Inr (tl_clipped t)"
    "unsigned_at r 14 511 = Inr (ucast (tl_quality t))" "blob_at r 15 8192 = Inr mean" "blob_at r 16 8192 = Inr peak"
    "blob_at r 17 65537 = Inr bits"
proof -
  note shape = tile_shape [OF bad] and size = tile_activity_size [OF bad]
  have "length (tile_front t mean peak bits) = 18" by (simp add: tile_front_def)
  then have col: "column r k = column (tile_front t mean peak bits) k" if "k < 18" for k
    using that by (simp add: r column_append)
  have b: "uint (tl_frames t) \<le> 128" "uint (tl_quality t) \<le> 511"
    using uint_nat [of "tl_frames t"] shape(3) fine_quality [OF shape(12)] q by linarith+
  have lens: "length mean = 2 * length (tl_mean t)" "length peak = 2 * length (tl_mean t)" "bits \<noteq> []" "length bits \<le> 65537"
    using quantize_length [OF m(1)] quantize_length [OF m(2)] shape(6) encode_activity_returns [of "tl_activity t"] bits size(2)
    by auto
  then have blobs: "mean \<noteq> []" "peak \<noteq> []" "length mean \<le> 8192" "length peak \<le> 8192"
    using shape(4,5) by auto
  show "unsigned_at r 0 int64_max = Inr (tl_id t)" "unsigned_at r 1 int64_max = Inr (tl_first t)"
    "unsigned_at r 2 int64_max = Inr (tl_end t)" "real_at r 3 = Inr (tl_utc_start t)" "real_at r 4 = Inr (tl_utc_end t)"
    "real_at r 5 = Inr (tl_start t)" "real_at r 6 = Inr (tl_stop t)" "real_at r 7 = Inr (tl_center t)"
    "real_at r 8 = Inr (tl_width t)" "unsigned_at r 9 4096 = Inr (ucast (tl_fft t))"
    "unsigned_at r 10 128 = Inr (ucast (tl_frames t))"
    "unsigned_at r 11 4096 = Inr (word_of_int (int (length (tl_mean t))))"
    "real_at r 12 = Inr (tl_background t)" "unsigned_at r 13 int64_max = Inr (tl_clipped t)"
    "unsigned_at r 14 511 = Inr (ucast (tl_quality t))" "blob_at r 15 8192 = Inr mean" "blob_at r 16 8192 = Inr peak"
    "blob_at r 17 65537 = Inr bits"
    using i shape(1,5,8,9) b blobs lens(3,4) clipped_bound [OF bad]
    by (simp_all only: readers_find, simp_all add: col, simp_all add: tile_front_def row_simps)
qed

text \<open>
  C7: A tile that the detailed recording accepts, and whose mean power nowhere exceeds its
  peak, is read back from its row: the same intervals, grid, counters, quality and activity,
  the powers rounded to the nearest hundredth of a decibel.
\<close>

theorem tile_round_trip:
  assumes w: "tile_row c t = Inr r" and le: "\<forall>i<length (tl_mean t). tl_mean t ! i \<le> tl_peak t ! i"
  shows "tile_from 5 c r = Inr (kept_tile t)"
proof -
  obtain mean peak bits ps qs where v: "validate_tile c t = Inr ()" and q: "\<not> (tl_quality t AND power_aggregated \<noteq> 0)"
    and m: "quantize (tl_mean t) = Inr mean" "quantize (tl_peak t) = Inr peak" and bits: "encode_activity (tl_activity t) = Some bits"
    and f: "fix_values (tl_from t) = Inr ps" "fix_values (tl_to t) = Inr qs" and r: "r = tile_front t mean peak bits @ ps @ qs"
    and bound: "\<forall>v\<in>set (tile_front t mean peak bits @ ps @ qs). bind_value v = Inr ()"
    using w by (rule tile_row_parts)
  have "length (tile_front t mean peak bits) = 18" by (simp add: tile_front_def)
  from two_fixes [OF f bound this] have fixes_read: "read_fix r 18 = Inr (kept_fix (tl_from t))" "read_fix r 27 = Inr (kept_fix (tl_to t))"
    by (simp_all add: r)
  have bad: "\<not> tile_shape_bad t c" and i: "tl_id t \<le> int64_max"
    using v interval_id [of "tl_id t"] unfolding validate_tile_def bind_result_Inr guard_err_Inr by auto
  note shape = tile_shape [OF bad] and size = tile_activity_size [OF bad]
  have n: "unat (word_of_int (int (length (tl_mean t))) :: u64) = length (tl_mean t)"
    "unat (ucast (tl_frames t) :: u64) = unat (tl_frames t)"
    using shape(3,5) by (simp_all add: unat_of_nat unsigned_ucast_eq take_bit_nat_eq_self)
  have nz: "\<not> (word_of_int (int (length (tl_mean t))) = (0 :: u64) \<or> ucast (tl_frames t) = (0 :: u64))"
    using n shape(2,4) by (metis less_irrefl unsigned_0)
  note rd = tile_front_columns [OF bad i q m bits r]
  have dec: "dequantize mean (length (tl_mean t)) = Inr (map hundredth (tl_mean t))"
    "dequantize peak (length (tl_mean t)) = Inr (map hundredth (tl_peak t))"
    "decode_activity bits ((length (tl_mean t) + 7) div 8 * unat (tl_frames t)) = Inr (tl_activity t)"
    using dequantize_quantize [OF m(1)] dequantize_quantize [OF m(2)] shape(6,7)
      activity_round_trip [OF size bits] by simp_all
  have e: "\<lparr>tl_id = tl_id t, tl_first = tl_first t, tl_end = tl_end t, tl_utc_start = tl_utc_start t,
       tl_utc_end = tl_utc_end t, tl_start = tl_start t, tl_stop = tl_stop t, tl_power_start = tl_start t,
       tl_power_end = tl_stop t, tl_center = tl_center t, tl_width = tl_width t, tl_fft = tl_fft t,
       tl_frames = tl_frames t, tl_background = tl_background t, tl_clipped = tl_clipped t,
       tl_quality = tl_quality t, tl_mean = map hundredth (tl_mean t), tl_peak = map hundredth (tl_peak t),
       tl_activity = tl_activity t, tl_from = kept_fix (tl_from t), tl_to = kept_fix (tl_to t)\<rparr> = kept_tile t"
    by (simp add: kept_tile_def)
  show ?thesis
    unfolding tile_from_def rd bind_result_simps n dec fixes_read Let_def ucast_u32 e
    using nz kept_tile_valid [OF v le] by (simp add: guard_err_def)
qed


definition sample_tile :: spectrum_tile where
  "sample_tile = \<lparr>tl_id = 1, tl_first = 0, tl_end = 4096, tl_utc_start = 100, tl_utc_end = 100 + 4096 / 16000000,
     tl_start = 1, tl_stop = 1 + 4096 / 16000000, tl_power_start = 0, tl_power_end = 0, tl_center = 907500000,
     tl_width = 16000000 / 4096, tl_fft = 4096, tl_frames = 1, tl_background = - 90, tl_clipped = 0,
     tl_quality = 1, tl_mean = [- 80], tl_peak = [- 70], tl_activity = [1], tl_from = None, tl_to = None\<rparr>"

lemma sample_tile_valid: "validate_tile default_config sample_tile = Inr ()"
proof -
  have s: "\<not> tile_shape_bad sample_tile default_config"
    by (simp add: tile_shape_bad_def sample_tile_def default_config_def int64_max_def hz_def rat_of_word_def Let_def)
  have "lround 2048 = 2048" using lround_of_int [of 2048] by simp
  then have g: "\<not> tile_grid_bad sample_tile default_config"
    by (simp add: tile_grid_bad_def sample_tile_def default_config_def hz_def rat_of_word_def Let_def)
  have p: "\<not> padding_bad sample_tile" by code_simp
  show ?thesis
    using s g p
    by (simp add: validate_tile_def guard_err_bind interval_def level_def check_bin_def validate_optional_fix_def guard_err_def)
      (simp add: sample_tile_def int64_max_def level_def check_bin_def guard_err_def)
qed

lemma tile_round_trip_witness:
  "\<exists>r. tile_row default_config sample_tile = Inr r \<and> tile_from 5 default_config r = Inr (kept_tile sample_tile)"
proof -
  obtain bits where bits: "encode_activity [1] = Some bits" "0 < length bits" "length bits \<le> 2"
    using encode_activity_returns [of "[1]"] by auto
  have q: "is_ok (quantize [- 80]) \<and> is_ok (quantize [- 70])"
    by (simp add: level_def guard_err_def)
  then obtain m p where mp: "quantize [- 80] = Inr m" "quantize [- 70] = Inr p"
    by (auto simp: is_ok_iff)
  have len: "length m = 2" "length p = 2" using quantize_length [OF mp(1)] quantize_length [OF mp(2)] by simp_all
  then have ne: "m \<noteq> []" "p \<noteq> []" by auto
  have nulls: "bind_row (replicate 9 SNull @ replicate 9 SNull) = Inr ()" by code_simp
  then have "\<exists>r. tile_row default_config sample_tile = Inr r"
    using bits sample_tile_valid
    by (simp add: tile_row_def insert_row_def bind_result_Inr guard_err_def fix_values_def)
      (auto simp: sample_tile_def mp len ne nulls power_aggregated_def bind_value_def int_of_u64_def int_of_u32_def
        simp del: quantize.simps)
  then obtain r where r: "tile_row default_config sample_tile = Inr r" by blast
  have "tile_from 5 default_config r = Inr (kept_tile sample_tile)"
    by (rule tile_round_trip [OF r]) (simp add: sample_tile_def)
  with r show ?thesis by blast
qed

end
