(* ===== verification/DiscoveryRows.thy ===== *)
theory DiscoveryRows
  imports SpectrumRows
begin

text \<open>
  What LoRa discovery leaves in a recording (\<open>survey.hpp\<close>, \<open>engine.hpp\<close>, \<open>storage.cpp\<close>):
  waveform observations, the coverage of every subband, the status counters, the gaps of the
  processing and the status of the automatic decoder, each with its validation, the row that
  is written and the reader of a row.
\<close>

section \<open>Records\<close>

record waveform_observation =
  wf_id :: u64
  wf_center :: rat
  wf_bw :: u32
  wf_sf :: u32
  wf_first :: rat
  wf_delimiter :: rat
  wf_utc :: rat
  wf_up :: rat
  wf_down :: rat
  wf_bands :: u32
  wf_complete :: bool
  wf_ambiguous :: bool
  wf_position :: "position_fix option"

record band_coverage =
  bd_index :: u32
  bd_center :: rat
  bd_processed :: u64
  bd_abandoned :: u64
  bd_source_gap :: u64
  bd_candidate_hits :: u64
  bd_track_hits :: u64
  bd_diagnostics :: bool
  bd_searches :: u64
  bd_windows :: u64
  bd_resets :: u64

record discovery_status =
  ds_enabled :: bool
  ds_finished :: bool
  ds_failed :: bool
  ds_method :: string
  ds_fault :: string
  ds_accepted :: u64
  ds_rejected :: u64
  ds_channelized :: u64
  ds_abandoned :: u64
  ds_queue_drops :: u64
  ds_stream_resets :: u64
  ds_result_overflows :: u64
  ds_gap_overflows :: u64
  ds_observations :: u64
  ds_bands :: "band_coverage list"

definition new_discovery_status :: discovery_status where
  "new_discovery_status = \<lparr>ds_enabled = False, ds_finished = False, ds_failed = False,
     ds_method = ''lora-preamble-v2'', ds_fault = [], ds_accepted = 0, ds_rejected = 0, ds_channelized = 0,
     ds_abandoned = 0, ds_queue_drops = 0, ds_stream_resets = 0, ds_result_overflows = 0,
     ds_gap_overflows = 0, ds_observations = 0, ds_bands = []\<rparr>"

record discovery_gap =
  dg_id :: u64
  dg_first :: u64
  dg_end :: u64
  dg_band :: int
  dg_reason :: string

record automatic_status =
  au_available :: bool
  au_enabled :: bool
  au_finished :: bool
  au_candidates :: u64
  au_started :: u64
  au_completed :: u64
  au_crc_valid :: u64
  au_classified :: u64
  au_history_misses :: u64
  au_limit_hits :: u64
  au_duplicates :: u64
  au_excluded :: u64
  au_outside :: u64
  au_unsupported :: u64
  au_timeouts :: u64
  au_resets :: u64
  au_abandoned :: u64
  au_overflows :: u64
  au_active :: u64
  au_history :: u64

definition new_automatic_status :: automatic_status where
  "new_automatic_status = \<lparr>au_available = False, au_enabled = False, au_finished = False, au_candidates = 0,
     au_started = 0, au_completed = 0, au_crc_valid = 0, au_classified = 0, au_history_misses = 0,
     au_limit_hits = 0, au_duplicates = 0, au_excluded = 0, au_outside = 0, au_unsupported = 0,
     au_timeouts = 0, au_resets = 0, au_abandoned = 0, au_overflows = 0, au_active = 0, au_history = 0\<rparr>"

text \<open>The counters, in the order of the columns.\<close>

definition automatic_counters :: "automatic_status \<Rightarrow> u64 list" where
  "automatic_counters s = [au_candidates s, au_started s, au_completed s, au_crc_valid s, au_classified s,
     au_history_misses s, au_limit_hits s, au_duplicates s, au_excluded s, au_outside s, au_unsupported s,
     au_timeouts s, au_resets s, au_abandoned s, au_overflows s]"

section \<open>Validation\<close>

definition discovery_band_limit :: nat where "discovery_band_limit = 32"

definition discovery_sample_limit :: u64 where "discovery_sample_limit = 2 ^ 53"

definition discovery_counter :: "u64 \<Rightarrow> unit result" where
  "discovery_counter v = guard_err (v > int64_max) ''Discovery counter exceeds saved integer range''"

definition waveform_profile_bad :: "receiver_config \<Rightarrow> waveform_observation \<Rightarrow> bool" where
  "waveform_profile_bad c w =
     (let lower = hz (cf_center c) - hz (cf_span c) / 2; upper = hz (cf_center c) + hz (cf_span c) / 2;
        low = wf_center w - hz (wf_bw w) / 2; high = wf_center w + hz (wf_bw w) / 2
      in \<not> cf_discover c \<or> wf_id w = 0 \<or> wf_id w > int64_max \<or> wf_center w \<le> 0 \<or> wf_center w > 6000000000 \<or>
        \<not> supported_lora_bandwidth (unat (wf_bw w)) \<or> wf_sf w < 7 \<or> wf_sf w > 12 \<or> wf_bands w = 0 \<or>
        unat (wf_bands w) > discovery_band_limit \<or> high \<le> lower \<or> low \<ge> upper \<or>
        (wf_complete w \<and> (low < lower - 1 / 100000 \<or> high > upper + 1 / 100000)))"

definition evidence_time :: "nat \<Rightarrow> rat \<Rightarrow> unit result" where
  "evidence_time i v =
     bind_result (nonnegative v ''waveform evidence time'') (\<lambda>_.
     guard_err (v > 10000000000) ''Waveform evidence time exceeds supported range'')"

definition match_fraction :: "nat \<Rightarrow> rat \<Rightarrow> unit result" where
  "match_fraction i v = guard_err (v \<le> 0 \<or> v > 100001 / 100000) ''Invalid waveform match fraction''"

definition validate_waveform :: "receiver_config \<Rightarrow> waveform_observation \<Rightarrow> unit result" where
  "validate_waveform c w =
     bind_result (guard_err (waveform_profile_bad c w)
       ''Invalid waveform identity, inferred profile or frequency extent'') (\<lambda>_.
     bind_result (for_each evidence_time 0 [wf_first w, wf_delimiter w, wf_utc w]) (\<lambda>_.
     bind_result (guard_err (wf_delimiter w \<le> wf_first w)
       ''Waveform delimiter must follow observed preamble evidence'') (\<lambda>_.
     bind_result (for_each match_fraction 0 [wf_up w, wf_down w]) (\<lambda>_.
     case wf_position w of
       None \<Rightarrow> Inr ()
     | Some f \<Rightarrow> bind_result (guard_err (\<not> px_valid f) ''Invalid waveform receiver position'') (\<lambda>_. validate_fix f)))))"

definition validate_discovery_band :: "band_coverage \<Rightarrow> unit result" where
  "validate_discovery_band b =
     bind_result (guard_err (unat (bd_index b) \<ge> discovery_band_limit \<or> bd_center b \<le> 0 \<or> bd_center b > 6000000000)
       ''Invalid discovery subband'') (\<lambda>_.
     for_each (\<lambda>_. discovery_counter) 0
       [bd_processed b, bd_abandoned b, bd_source_gap b, bd_candidate_hits b, bd_track_hits b])"

fun validate_bands :: "u32 set \<Rightarrow> band_coverage list \<Rightarrow> unit result" where
  "validate_bands indexes [] = Inr ()"
| "validate_bands indexes (b # bs) =
     bind_result (validate_discovery_band b) (\<lambda>_.
     bind_result (guard_err (bd_index b \<in> indexes) ''Duplicate discovery subband'') (\<lambda>_.
     validate_bands (insert (bd_index b) indexes) bs))"

definition discovery_counters :: "discovery_status \<Rightarrow> u64 list" where
  "discovery_counters d = [ds_accepted d, ds_rejected d, ds_channelized d, ds_abandoned d, ds_queue_drops d,
     ds_stream_resets d, ds_result_overflows d, ds_gap_overflows d, ds_observations d]"

definition validate_discovery_status :: "discovery_status \<Rightarrow> bool \<Rightarrow> unit result" where
  "validate_discovery_status d enabled =
     bind_result (guard_err
       (ds_enabled d \<noteq> enabled \<or> (ds_method d \<noteq> ''lora-preamble-v1'' \<and> ds_method d \<noteq> ''lora-preamble-v2'') \<or>
        length (ds_fault d) > 160 \<or> \<not> valid_utf8 (ds_fault d) \<or> CHR 0x00 \<in> set (ds_fault d) \<or>
        length (ds_bands d) > discovery_band_limit)
       ''Invalid discovery status or unsupported method'') (\<lambda>_.
     bind_result (for_each (\<lambda>_. discovery_counter) 0 (discovery_counters d)) (\<lambda>_.
     validate_bands {} (ds_bands d)))"

definition gap_reasons :: "string list" where
  "gap_reasons = [''source_queue_full'', ''input_discontinuity'', ''input_too_large'', ''invalid_input_order'',
     ''invalid_sample_coordinate'', ''processing_failure'']"

definition validate_discovery_gap :: "discovery_gap \<Rightarrow> unit result" where
  "validate_discovery_gap g =
     guard_err (dg_id g = 0 \<or> dg_id g > int64_max \<or> dg_end g \<le> dg_first g \<or> dg_end g > discovery_sample_limit \<or>
       dg_band g < - 1 \<or> dg_band g \<ge> int discovery_band_limit \<or> dg_reason g \<notin> set gap_reasons)
       ''Invalid discovery gap''"

definition validate_automatic :: "automatic_status \<Rightarrow> unit result" where
  "validate_automatic s =
     bind_result (for_each (\<lambda>_ v. guard_err (v > int64_max) ''Invalid automatic decoder counter'') 0
       (automatic_counters s)) (\<lambda>_.
     guard_err (au_active s > 256 \<or> au_history s > 2 ^ 27 \<or> au_started s > au_candidates s \<or>
       au_crc_valid s > au_completed s \<or> au_classified s > au_crc_valid s \<or>
       (\<not> au_available s \<and> (au_enabled s \<or> au_completed s \<noteq> 0)) \<or>
       (\<not> au_enabled s \<and> (au_started s \<noteq> 0 \<or> au_active s \<noteq> 0)))
       ''Invalid automatic decoder status'')"

section \<open>Writing\<close>

definition waveform_row :: "receiver_config \<Rightarrow> waveform_observation \<Rightarrow> row result" where
  "waveform_row c w =
     bind_result (validate_waveform c w) (\<lambda>_.
     bind_result (fix_values (wf_position w)) (\<lambda>position.
     insert_row
       ([int_of_u64 (wf_id w), SReal (wf_center w), int_of_u32 (wf_bw w), int_of_u32 (wf_sf w), SReal (wf_first w),
         SReal (wf_delimiter w), SReal (wf_utc w), SReal (wf_up w), SReal (wf_down w), int_of_u32 (wf_bands w),
         int_of_bool (wf_complete w), int_of_bool (wf_ambiguous w)] @ position)))"

definition band_row :: "band_coverage \<Rightarrow> row result" where
  "band_row b =
     bind_result (validate_discovery_band b) (\<lambda>_.
     insert_row [int_of_u32 (bd_index b), SReal (bd_center b), int_of_u64 (bd_processed b), int_of_u64 (bd_abandoned b),
       int_of_u64 (bd_source_gap b), int_of_u64 (bd_candidate_hits b), int_of_u64 (bd_track_hits b)])"

definition discovery_status_values :: "discovery_status \<Rightarrow> row" where
  "discovery_status_values d =
     [SInt 1, int_of_bool (ds_enabled d), int_of_bool (ds_finished d), int_of_bool (ds_failed d),
      SText (ds_method d), SText (ds_fault d), int_of_u64 (ds_accepted d), int_of_u64 (ds_rejected d),
      int_of_u64 (ds_channelized d), int_of_u64 (ds_abandoned d), int_of_u64 (ds_queue_drops d),
      int_of_u64 (ds_stream_resets d), int_of_u64 (ds_result_overflows d), int_of_u64 (ds_gap_overflows d),
      int_of_u64 (ds_observations d)]"

definition status_row :: "bool \<Rightarrow> discovery_status \<Rightarrow> row result" where
  "status_row enabled d =
     bind_result (validate_discovery_status d enabled) (\<lambda>_. insert_row (discovery_status_values d))"

definition discovery_gap_row :: "discovery_gap \<Rightarrow> row result" where
  "discovery_gap_row g =
     bind_result (validate_discovery_gap g) (\<lambda>_.
     insert_row [int_of_u64 (dg_id g), int_of_u64 (dg_first g), int_of_u64 (dg_end g), SInt (dg_band g), SText (dg_reason g)])"

definition automatic_row :: "u64 \<Rightarrow> automatic_status \<Rightarrow> row result" where
  "automatic_row i s =
     bind_result (validate_automatic s) (\<lambda>_.
     insert_row ([int_of_u64 i, SInt 1, int_of_bool (au_available s), int_of_bool (au_enabled s),
       int_of_bool (au_finished s)] @ map int_of_u64 (automatic_counters s) @
       [int_of_u64 (au_active s), int_of_u64 (au_history s)]))"

section \<open>Reading\<close>

definition waveform_from :: "receiver_config \<Rightarrow> row \<Rightarrow> waveform_observation result" where
  "waveform_from c r =
     bind_result (unsigned_at r 0 int64_max) (\<lambda>i.
     bind_result (real_at r 1) (\<lambda>center.
     bind_result (unsigned_at r 2 500000) (\<lambda>bw.
     bind_result (unsigned_at r 3 12) (\<lambda>sf.
     bind_result (real_at r 4) (\<lambda>first.
     bind_result (real_at r 5) (\<lambda>delimiter.
     bind_result (real_at r 6) (\<lambda>utc.
     bind_result (real_at r 7) (\<lambda>up.
     bind_result (real_at r 8) (\<lambda>down.
     bind_result (unsigned_at r 9 (word_of_nat discovery_band_limit)) (\<lambda>bands.
     bind_result (boolean_at r 10) (\<lambda>complete.
     bind_result (boolean_at r 11) (\<lambda>ambiguous.
     bind_result (read_fix r 12) (\<lambda>position.
     let w = \<lparr>wf_id = i, wf_center = center, wf_bw = ucast bw, wf_sf = ucast sf, wf_first = first,
       wf_delimiter = delimiter, wf_utc = utc, wf_up = up, wf_down = down, wf_bands = ucast bands,
       wf_complete = complete, wf_ambiguous = ambiguous, wf_position = position\<rparr>
     in bind_result (validate_waveform c w) (\<lambda>_. Inr w))))))))))))))"

definition discovery_band_from :: "row \<Rightarrow> band_coverage result" where
  "discovery_band_from r =
     bind_result (unsigned_at r 0 31) (\<lambda>index.
     bind_result (real_at r 1) (\<lambda>center.
     bind_result (unsigned_at r 2 int64_max) (\<lambda>processed.
     bind_result (unsigned_at r 3 int64_max) (\<lambda>abandoned.
     bind_result (unsigned_at r 4 int64_max) (\<lambda>source_gap.
     bind_result (unsigned_at r 5 int64_max) (\<lambda>candidates.
     bind_result (unsigned_at r 6 int64_max) (\<lambda>tracks.
     let b = \<lparr>bd_index = ucast index, bd_center = center, bd_processed = processed, bd_abandoned = abandoned,
       bd_source_gap = source_gap, bd_candidate_hits = candidates, bd_track_hits = tracks, bd_diagnostics = False,
       bd_searches = 0, bd_windows = 0, bd_resets = 0\<rparr>
     in bind_result (validate_discovery_band b) (\<lambda>_. Inr b))))))))"

definition discovery_status_from :: "row \<Rightarrow> discovery_status result" where
  "discovery_status_from r =
     bind_result (unsigned_at r 0 1) (\<lambda>identity.
     bind_result (guard_err (identity \<noteq> 1) ''Invalid discovery status identity'') (\<lambda>_.
     bind_result (guard_err (null_at r 4 \<or> null_at r 5) ''Missing discovery method or fault field'') (\<lambda>_.
     bind_result (boolean_at r 1) (\<lambda>enabled.
     bind_result (boolean_at r 2) (\<lambda>finished.
     bind_result (boolean_at r 3) (\<lambda>failed.
     bind_result (text_at r 4) (\<lambda>meth.
     bind_result (text_at r 5) (\<lambda>fault.
     bind_result (unsigned_at r 6 int64_max) (\<lambda>accepted.
     bind_result (unsigned_at r 7 int64_max) (\<lambda>rejected.
     bind_result (unsigned_at r 8 int64_max) (\<lambda>channelized.
     bind_result (unsigned_at r 9 int64_max) (\<lambda>abandoned.
     bind_result (unsigned_at r 10 int64_max) (\<lambda>drops.
     bind_result (unsigned_at r 11 int64_max) (\<lambda>resets.
     bind_result (unsigned_at r 12 int64_max) (\<lambda>results.
     bind_result (unsigned_at r 13 int64_max) (\<lambda>gap_overflows.
     bind_result (unsigned_at r 14 int64_max) (\<lambda>observations.
     Inr \<lparr>ds_enabled = enabled, ds_finished = finished, ds_failed = failed, ds_method = meth, ds_fault = fault,
       ds_accepted = accepted, ds_rejected = rejected, ds_channelized = channelized, ds_abandoned = abandoned,
       ds_queue_drops = drops, ds_stream_resets = resets, ds_result_overflows = results,
       ds_gap_overflows = gap_overflows, ds_observations = observations, ds_bands = []\<rparr>)))))))))))))))))"

definition discovery_gap_from :: "row \<Rightarrow> discovery_gap result" where
  "discovery_gap_from r =
     bind_result (unsigned_at r 0 int64_max) (\<lambda>i.
     bind_result (unsigned_at r 1 discovery_sample_limit) (\<lambda>first.
     bind_result (unsigned_at r 2 discovery_sample_limit) (\<lambda>end_sample.
     bind_result (integer_at r 3) (\<lambda>band.
     bind_result (guard_err (band < - 1 \<or> band \<ge> int discovery_band_limit) ''Invalid saved discovery-gap subband'') (\<lambda>_.
     bind_result (text_at r 4) (\<lambda>reason.
     let g = \<lparr>dg_id = i, dg_first = first, dg_end = end_sample, dg_band = band, dg_reason = reason\<rparr>
     in bind_result (validate_discovery_gap g) (\<lambda>_. Inr g)))))))"

fun counters_at :: "row \<Rightarrow> nat \<Rightarrow> nat \<Rightarrow> u64 list result" where
  "counters_at r k 0 = Inr []"
| "counters_at r k (Suc n) =
     bind_result (unsigned_at r k int64_max) (\<lambda>v. bind_result (counters_at r (Suc k) n) (\<lambda>vs. Inr (v # vs)))"

definition automatic_from :: "row \<Rightarrow> automatic_status result" where
  "automatic_from r =
     bind_result (unsigned_at r 0 2048) (\<lambda>_.
     bind_result (integer_at r 1) (\<lambda>version.
     bind_result (guard_err (version \<noteq> 1) ''Unsupported automatic decoder metadata'') (\<lambda>_.
     bind_result (boolean_at r 2) (\<lambda>available.
     bind_result (boolean_at r 3) (\<lambda>enabled.
     bind_result (boolean_at r 4) (\<lambda>finished.
     bind_result (counters_at r 5 15) (\<lambda>cs.
     bind_result (unsigned_at r 20 256) (\<lambda>active.
     bind_result (unsigned_at r 21 (2 ^ 27)) (\<lambda>history.
     let s = \<lparr>au_available = available, au_enabled = enabled, au_finished = finished, au_candidates = cs ! 0,
       au_started = cs ! 1, au_completed = cs ! 2, au_crc_valid = cs ! 3, au_classified = cs ! 4,
       au_history_misses = cs ! 5, au_limit_hits = cs ! 6, au_duplicates = cs ! 7, au_excluded = cs ! 8,
       au_outside = cs ! 9, au_unsupported = cs ! 10, au_timeouts = cs ! 11, au_resets = cs ! 12,
       au_abandoned = cs ! 13, au_overflows = cs ! 14, au_active = active, au_history = history\<rparr>
     in bind_result (validate_automatic s) (\<lambda>_. Inr s))))))))))"


section \<open>Reading what was written\<close>

lemma one_fix:
  assumes "fix_values p = Inr ps" and bound: "\<forall>v\<in>set (front @ ps). bind_value v = Inr ()" and n: "length front = n"
  shows "read_fix (front @ ps) n = Inr (kept_fix p)"
proof -
  have "length ps = 9" using read_fix_written [OF assms(1), of ps 0] bound by auto
  then have "column (front @ ps) (n + i) = column ps i" if "i < 9" for i
    using that n by (simp add: column_append)
  then show ?thesis using read_fix_written [OF assms(1), of "front @ ps" n] bound by auto
qed

lemma counter_list: "for_each (\<lambda>_. discovery_counter) 0 vs = Inr () \<longleftrightarrow> (\<forall>v\<in>set vs. v \<le> int64_max)"
  by (simp add: for_each_Inr discovery_counter_def not_less all_set_conv_all_nth)

interpretation waveforms: stored_record "waveform_row c" "waveform_from c" "\<lambda>w. w" for c
proof
  fix w r assume put: "waveform_row c w = Inr r"
  define front where "front = [int_of_u64 (wf_id w), SReal (wf_center w), int_of_u32 (wf_bw w), int_of_u32 (wf_sf w),
    SReal (wf_first w), SReal (wf_delimiter w), SReal (wf_utc w), SReal (wf_up w), SReal (wf_down w),
    int_of_u32 (wf_bands w), int_of_bool (wf_complete w), int_of_bool (wf_ambiguous w)]"
  obtain ps where v: "validate_waveform c w = Inr ()" and f: "fix_values (wf_position w) = Inr ps"
    and r: "r = front @ ps" and bound: "\<forall>v\<in>set (front @ ps). bind_value v = Inr ()"
    using put unfolding waveform_row_def bind_result_Inr insert_row_Inr front_def [symmetric]
    by - (elim exE conjE, rule that, simp, assumption+)
  have len: "length front = 12" by (simp add: front_def)
  then have col: "column r k = column front k" if "k < 12" for k
    using that by (simp add: r column_append)
  have p: "\<not> waveform_profile_bad c w" "\<And>f. wf_position w = Some f \<Longrightarrow> px_valid f"
    using v unfolding validate_waveform_def bind_result_Inr guard_err_Inr by (auto simp: bind_result_Inr)
  have "read_fix r 12 = Inr (kept_fix (wf_position w))"
    using one_fix [OF f bound len] by (simp add: r)
  then have fix_read: "read_fix r 12 = Inr (wf_position w)"
    using p(2) by (simp add: kept_fix_def split: option.splits)
  have n: "wf_id w \<le> int64_max" "unat (wf_bw w) \<le> 500000" "unat (wf_sf w) \<le> 12" "unat (wf_bands w) \<le> 32"
    using p(1) by (auto simp: waveform_profile_bad_def Let_def not_less supported_lora_bandwidth_def
        discovery_band_limit_def word_le_nat_alt)
  then have b: "uint (wf_bw w) \<le> 500000" "uint (wf_sf w) \<le> 12" "uint (wf_bands w) \<le> 32"
    using uint_nat [of "wf_bw w"] uint_nat [of "wf_sf w"] uint_nat [of "wf_bands w"] by linarith+
  have rd: "unsigned_at r 0 int64_max = Inr (wf_id w)" "real_at r 1 = Inr (wf_center w)"
    "unsigned_at r 2 500000 = Inr (ucast (wf_bw w))" "unsigned_at r 3 12 = Inr (ucast (wf_sf w))"
    "real_at r 4 = Inr (wf_first w)" "real_at r 5 = Inr (wf_delimiter w)" "real_at r 6 = Inr (wf_utc w)"
    "real_at r 7 = Inr (wf_up w)" "real_at r 8 = Inr (wf_down w)"
    "unsigned_at r 9 (word_of_nat discovery_band_limit) = Inr (ucast (wf_bands w))"
    "boolean_at r 10 = Inr (wf_complete w)" "boolean_at r 11 = Inr (wf_ambiguous w)"
    using n(1) b
    by (simp_all only: readers_find, simp_all add: col, simp_all add: front_def row_simps discovery_band_limit_def)
  have "\<lparr>wf_id = wf_id w, wf_center = wf_center w, wf_bw = wf_bw w, wf_sf = wf_sf w, wf_first = wf_first w,
      wf_delimiter = wf_delimiter w, wf_utc = wf_utc w, wf_up = wf_up w, wf_down = wf_down w, wf_bands = wf_bands w,
      wf_complete = wf_complete w, wf_ambiguous = wf_ambiguous w, wf_position = wf_position w\<rparr> = w"
    by simp
  then show "waveform_from c r = Inr w"
    by (simp only: waveform_from_def rd fix_read bind_result_simps Let_def ucast_u32 v)
qed

definition kept_band :: "band_coverage \<Rightarrow> band_coverage" where
  "kept_band b = b\<lparr>bd_diagnostics := False, bd_searches := 0, bd_windows := 0, bd_resets := 0\<rparr>"

interpretation bands: stored_record band_row discovery_band_from kept_band
proof
  fix b r assume put: "band_row b = Inr r"
  then have v: "validate_discovery_band b = Inr ()" and r: "r = [int_of_u32 (bd_index b), SReal (bd_center b),
      int_of_u64 (bd_processed b), int_of_u64 (bd_abandoned b), int_of_u64 (bd_source_gap b),
      int_of_u64 (bd_candidate_hits b), int_of_u64 (bd_track_hits b)]"
    by (auto simp: band_row_def bind_result_Inr insert_row_Inr)
  have n: "unat (bd_index b) < 32" "\<forall>v\<in>{bd_processed b, bd_abandoned b, bd_source_gap b, bd_candidate_hits b, bd_track_hits b}. v \<le> int64_max"
    using v unfolding validate_discovery_band_def bind_result_Inr guard_err_Inr counter_list
    by (auto simp: discovery_band_limit_def)
  then have i: "uint (bd_index b) \<le> 31" using uint_nat [of "bd_index b"] by linarith
  have rd: "unsigned_at r 0 31 = Inr (ucast (bd_index b))" "real_at r 1 = Inr (bd_center b)"
    "unsigned_at r 2 int64_max = Inr (bd_processed b)" "unsigned_at r 3 int64_max = Inr (bd_abandoned b)"
    "unsigned_at r 4 int64_max = Inr (bd_source_gap b)" "unsigned_at r 5 int64_max = Inr (bd_candidate_hits b)"
    "unsigned_at r 6 int64_max = Inr (bd_track_hits b)"
    using n(2) i by (simp_all only: readers_find, simp_all add: r row_simps)
  have e: "\<lparr>bd_index = bd_index b, bd_center = bd_center b, bd_processed = bd_processed b, bd_abandoned = bd_abandoned b,
      bd_source_gap = bd_source_gap b, bd_candidate_hits = bd_candidate_hits b, bd_track_hits = bd_track_hits b,
      bd_diagnostics = False, bd_searches = 0, bd_windows = 0, bd_resets = 0\<rparr> = kept_band b"
    by (simp add: kept_band_def)
  have "validate_discovery_band (kept_band b) = Inr ()"
    using v by (simp add: validate_discovery_band_def kept_band_def)
  then show "discovery_band_from r = Inr (kept_band b)"
    by (simp only: discovery_band_from_def rd bind_result_simps Let_def ucast_u32 e)
qed

interpretation statuses: stored_record "status_row enabled" discovery_status_from "\<lambda>d. d\<lparr>ds_bands := []\<rparr>" for enabled
proof
  fix d r assume put: "status_row enabled d = Inr r"
  then have v: "validate_discovery_status d enabled = Inr ()" and r: "r = discovery_status_values d"
    and t: "bind_value (SText (ds_method d)) = Inr ()" "bind_value (SText (ds_fault d)) = Inr ()"
    by (auto simp: status_row_def bind_result_Inr insert_row_Inr discovery_status_values_def)
  have n: "\<forall>v\<in>set (discovery_counters d). v \<le> int64_max"
    using v unfolding validate_discovery_status_def bind_result_Inr by (auto simp: counter_list)
  have rd: "unsigned_at r 0 1 = Inr 1" "null_at r 4 = False" "null_at r 5 = False"
    "boolean_at r 1 = Inr (ds_enabled d)" "boolean_at r 2 = Inr (ds_finished d)" "boolean_at r 3 = Inr (ds_failed d)"
    "text_at r 4 = Inr (ds_method d)" "text_at r 5 = Inr (ds_fault d)"
    "unsigned_at r 6 int64_max = Inr (ds_accepted d)" "unsigned_at r 7 int64_max = Inr (ds_rejected d)"
    "unsigned_at r 8 int64_max = Inr (ds_channelized d)" "unsigned_at r 9 int64_max = Inr (ds_abandoned d)"
    "unsigned_at r 10 int64_max = Inr (ds_queue_drops d)" "unsigned_at r 11 int64_max = Inr (ds_stream_resets d)"
    "unsigned_at r 12 int64_max = Inr (ds_result_overflows d)" "unsigned_at r 13 int64_max = Inr (ds_gap_overflows d)"
    "unsigned_at r 14 int64_max = Inr (ds_observations d)"
    using n t by (simp_all only: readers_find, simp_all add: r discovery_status_values_def discovery_counters_def row_simps)
  have "\<lparr>ds_enabled = ds_enabled d, ds_finished = ds_finished d, ds_failed = ds_failed d, ds_method = ds_method d,
      ds_fault = ds_fault d, ds_accepted = ds_accepted d, ds_rejected = ds_rejected d,
      ds_channelized = ds_channelized d, ds_abandoned = ds_abandoned d, ds_queue_drops = ds_queue_drops d,
      ds_stream_resets = ds_stream_resets d, ds_result_overflows = ds_result_overflows d,
      ds_gap_overflows = ds_gap_overflows d, ds_observations = ds_observations d, ds_bands = []\<rparr> = d\<lparr>ds_bands := []\<rparr>"
    by simp
  then show "discovery_status_from r = Inr (d\<lparr>ds_bands := []\<rparr>)"
    by (simp only: discovery_status_from_def rd bind_result_simps guard_err_def) simp
qed

interpretation discovery_gaps: stored_record discovery_gap_row discovery_gap_from "\<lambda>g. g"
proof
  fix g r assume put: "discovery_gap_row g = Inr r"
  then have v: "validate_discovery_gap g = Inr ()" and r: "r = [int_of_u64 (dg_id g), int_of_u64 (dg_first g),
      int_of_u64 (dg_end g), SInt (dg_band g), SText (dg_reason g)]" and t: "bind_value (SText (dg_reason g)) = Inr ()"
    by (auto simp: discovery_gap_row_def bind_result_Inr insert_row_Inr)
  have n: "dg_id g \<le> int64_max" "dg_first g \<le> discovery_sample_limit" "dg_end g \<le> discovery_sample_limit"
    "\<not> (dg_band g < - 1 \<or> dg_band g \<ge> int discovery_band_limit)"
    using v by (auto simp: validate_discovery_gap_def not_less not_le)
  have l: "discovery_sample_limit \<le> int64_max" by (simp add: discovery_sample_limit_def numeral_le_int64_max)
  have rd: "unsigned_at r 0 int64_max = Inr (dg_id g)" "unsigned_at r 1 discovery_sample_limit = Inr (dg_first g)"
    "unsigned_at r 2 discovery_sample_limit = Inr (dg_end g)" "integer_at r 3 = Inr (dg_band g)"
    "text_at r 4 = Inr (dg_reason g)"
    using n t l by (simp_all only: readers_find, simp_all add: r row_simps)
  have "\<lparr>dg_id = dg_id g, dg_first = dg_first g, dg_end = dg_end g, dg_band = dg_band g, dg_reason = dg_reason g\<rparr> = g"
    by simp
  then show "discovery_gap_from r = Inr g"
    using n(4) by (simp only: discovery_gap_from_def rd bind_result_simps guard_err_def Let_def v if_False)
qed

lemma counters_at_written:
  "(\<And>i. i < length vs \<Longrightarrow> column r (k + i) = int_of_u64 (vs ! i)) \<Longrightarrow> \<forall>v\<in>set vs. v \<le> int64_max \<Longrightarrow>
    counters_at r k (length vs) = Inr vs"
proof (induction vs arbitrary: k)
  case (Cons v vs)
  have "unsigned_at r k int64_max = Inr v"
    using Cons.prems(1) [of 0] Cons.prems(2) by (intro unsigned_at_u64) simp_all
  moreover have "counters_at r (Suc k) (length vs) = Inr vs"
  proof (rule Cons.IH)
    fix i assume "i < length vs"
    then show "column r (Suc k + i) = int_of_u64 (vs ! i)" using Cons.prems(1) [of "Suc i"] by simp
  qed (use Cons.prems(2) in simp)
  ultimately show ?case by simp
qed simp

lemma automatic_read_back:
  assumes put: "automatic_row i s = Inr r" and i: "i \<le> 2048"
  shows "automatic_from r = Inr s"
proof -
  define front where "front = [int_of_u64 i, SInt 1, int_of_bool (au_available s), int_of_bool (au_enabled s), int_of_bool (au_finished s)]"
  have v: "validate_automatic s = Inr ()" and r: "r = front @ map int_of_u64 (automatic_counters s) @
       [int_of_u64 (au_active s), int_of_u64 (au_history s)]"
    using put by (auto simp: automatic_row_def bind_result_Inr insert_row_Inr front_def)
  have n: "\<forall>v\<in>set (automatic_counters s). v \<le> int64_max" "au_active s \<le> 256" "au_history s \<le> 2 ^ 27"
    using v unfolding validate_automatic_def bind_result_Inr guard_err_Inr
    by (auto simp: for_each_Inr in_set_conv_nth not_less)
  have len: "length front = 5" "length (automatic_counters s) = 15" by (simp_all add: front_def automatic_counters_def)
  have cs: "counters_at r 5 15 = Inr (automatic_counters s)"
  proof -
    have "column r (5 + i) = int_of_u64 (automatic_counters s ! i)" if "i < length (automatic_counters s)" for i
      using that len by (simp add: r column_def nth_append)
    then have "counters_at r 5 (length (automatic_counters s)) = Inr (automatic_counters s)"
      using n(1) by (rule counters_at_written)
    then show ?thesis by (simp only: len(2))
  qed
  have col: "column r k = column front k" if "k < 5" for k using that len by (simp add: r column_append)
  have tail: "column r 20 = int_of_u64 (au_active s)" "column r 21 = int_of_u64 (au_history s)"
    using len by (simp_all add: r column_def nth_append)
  have rd: "unsigned_at r 0 2048 = Inr i" "integer_at r 1 = Inr 1" "boolean_at r 2 = Inr (au_available s)"
    "boolean_at r 3 = Inr (au_enabled s)" "boolean_at r 4 = Inr (au_finished s)"
    "unsigned_at r 20 256 = Inr (au_active s)" "unsigned_at r 21 (2 ^ 27) = Inr (au_history s)"
    using i n(2,3) by (simp_all only: readers_find tail, simp_all add: col, simp_all add: front_def row_simps)
  have "\<lparr>au_available = au_available s, au_enabled = au_enabled s, au_finished = au_finished s,
       au_candidates = automatic_counters s ! 0, au_started = automatic_counters s ! 1,
       au_completed = automatic_counters s ! 2, au_crc_valid = automatic_counters s ! 3,
       au_classified = automatic_counters s ! 4, au_history_misses = automatic_counters s ! 5,
       au_limit_hits = automatic_counters s ! 6, au_duplicates = automatic_counters s ! 7,
       au_excluded = automatic_counters s ! 8, au_outside = automatic_counters s ! 9,
       au_unsupported = automatic_counters s ! 10, au_timeouts = automatic_counters s ! 11,
       au_resets = automatic_counters s ! 12, au_abandoned = automatic_counters s ! 13,
       au_overflows = automatic_counters s ! 14, au_active = au_active s, au_history = au_history s\<rparr> = s"
    by (simp add: automatic_counters_def)
  then show ?thesis
    by (simp only: automatic_from_def rd cs bind_result_simps guard_err_def Let_def v not_True_eq_False refl if_False)
qed

interpretation automatic: stored_record "\<lambda>s. if i \<le> 2048 then automatic_row i s else Inl []" automatic_from "\<lambda>s. s" for i
  by unfold_locales (auto intro: automatic_read_back split: if_splits)

text \<open>
  C31: An observed waveform that was accepted is read back exactly as it was, its position
  included: the recording of discovery loses nothing, and two observations that leave the
  same row are the same.
\<close>

theorem waveform_round_trip:
  assumes "waveform_row c w = Inr r"
  shows "waveform_from c r = Inr w \<and> (waveform_row c w' = Inr r \<longrightarrow> w' = w)"
  using waveforms.read_back [OF assms] waveforms.same_row [OF assms] by blast

definition sample_waveform :: waveform_observation where
  "sample_waveform = \<lparr>wf_id = 1, wf_center = 906875000, wf_bw = 250000, wf_sf = 11, wf_first = 1, wf_delimiter = 2,
     wf_utc = 100, wf_up = 1 / 2, wf_down = 1 / 2, wf_bands = 1, wf_complete = True, wf_ambiguous = False,
     wf_position = None\<rparr>"

lemma waveform_round_trip_witness:
  "\<exists>r. waveform_row (default_config\<lparr>cf_discover := True\<rparr>) sample_waveform = Inr r \<and>
    waveform_from (default_config\<lparr>cf_discover := True\<rparr>) r = Inr sample_waveform"
proof -
  let ?c = "default_config\<lparr>cf_discover := True\<rparr>"
  have nulls: "bind_row (replicate 9 SNull) = Inr ()" by code_simp
  have "\<exists>r. waveform_row ?c sample_waveform = Inr r"
    by (simp add: waveform_row_def validate_waveform_def waveform_profile_bad_def sample_waveform_def default_config_def
        hz_def rat_of_word_def Let_def supported_lora_bandwidth_def discovery_band_limit_def evidence_time_def
        match_fraction_def nonnegative_def guard_err_def int64_max_def fix_values_def insert_row_def bind_value_def
        int_of_u64_def int_of_u32_def int_of_bool_def nulls)
  then obtain r where r: "waveform_row ?c sample_waveform = Inr r" by blast
  then show ?thesis using waveform_round_trip [OF r, of sample_waveform] by blast
qed

end
