(* ===== verification/ReceptionRows.thy ===== *)
theory ReceptionRows
  imports DiscoveryRows
begin

text \<open>
  Receptions in a recording (\<open>storage.cpp\<close>): what is accepted at the boundary to the
  persistent form, the row that is written, in which every column for payload, identity and
  routing is null, and the reader of a row of a given schema version. Also the provenance of a
  packet received by a concentrator, the frequency bins of a survey window and the text of
  exports.
\<close>

section \<open>Validation\<close>

definition canonical_classification :: "string \<Rightarrow> string" where
  "canonical_classification v =
     (if v = ''likely Meshtastic'' \<or> v = ''possible Meshtastic'' \<or> v = ''likely LoRaWAN'' then v
      else ''unknown LoRa'')"

definition reception_metadata_bad :: "reception \<Rightarrow> bool" where
  "reception_metadata_bad r \<longleftrightarrow>
     rc_id r > int64_max \<or> rc_freq r = 0 \<or> rc_freq r > 6000000000 \<or> rc_bw r = 0 \<or> rc_bw r > 2000000 \<or>
     rc_sf r < 5 \<or> rc_sf r > 12 \<or> rc_cr r < 5 \<or> rc_cr r > 8 \<or> length (rc_label r) > 160"

definition validate_evidence :: "reception \<Rightarrow> unit result" where
  "validate_evidence r =
     (let d = rc_decoded r in
      case dr_evidence d of
        Some e \<Rightarrow>
          guard_err (\<not> rc_crc_valid r \<or> \<not> rc_header_valid r \<or> ev_port e = 0 \<or> ev_port e > 65535 \<or>
            (dr_status d \<noteq> Classified \<and>
             (dr_status d \<noteq> Unsupported_payload \<or> dr_classification d \<noteq> ''possible Meshtastic'')))
            ''Envelope evidence eligibility is inconsistent''
      | None \<Rightarrow>
          guard_err (dr_classification d = ''possible Meshtastic'')
            ''Possible Meshtastic classification requires envelope evidence'')"

text \<open>The status is a value of the enumeration, so that its range check holds.\<close>

definition validate_reception :: "reception \<Rightarrow> unit result" where
  "validate_reception r =
     bind_result (guard_err (reception_metadata_bad r) ''Invalid reception metadata'') (\<lambda>_.
     bind_result (nonnegative (rc_utc r) ''reception time'') (\<lambda>_.
     bind_result (nonnegative (rc_elapsed r) ''reception elapsed time'') (\<lambda>_.
     bind_result (nonnegative (rc_duration r) ''reception duration'') (\<lambda>_.
     bind_result (guard_err (dr_authentication (rc_decoded r) \<noteq> ''not authenticated'')
       ''Unsupported authentication claim at persistence boundary'') (\<lambda>_.
     bind_result (guard_err
       (dr_status (rc_decoded r) = Classified \<and>
        (\<not> rc_crc_valid r \<or> \<not> rc_header_valid r \<or> dr_classification (rc_decoded r) \<noteq> ''likely Meshtastic''))
       ''Classification rejected at persistence boundary'') (\<lambda>_.
     bind_result (validate_evidence r) (\<lambda>_.
     validate_optional_fix (kept_fix (rc_position r)))))))))"

section \<open>Rows\<close>

definition statuses_in_order :: "status list" where
  "statuses_in_order = [Classified, Bad_phy_crc, Invalid_frame, No_matching_key, Decryption_unvalidated,
     Unsupported_payload, Ambiguous_keys, Unsupported_pki, Invalid_profile, Crypto_error]"

fun status_code :: "status \<Rightarrow> nat" where
  "status_code Classified = 0"
| "status_code Bad_phy_crc = 1"
| "status_code Invalid_frame = 2"
| "status_code No_matching_key = 3"
| "status_code Decryption_unvalidated = 4"
| "status_code Unsupported_payload = 5"
| "status_code Ambiguous_keys = 6"
| "status_code Unsupported_pki = 7"
| "status_code Invalid_profile = 8"
| "status_code Crypto_error = 9"

definition evidence_columns :: "evidence option \<Rightarrow> row" where
  "evidence_columns e =
     (case e of None \<Rightarrow> [SNull, SNull] | Some e \<Rightarrow> [int_of_u32 (ev_port e), int_of_bool (ev_signature e)])"

definition position_columns :: "position_fix option \<Rightarrow> row" where
  "position_columns p =
     (case p of Some f \<Rightarrow> if px_valid f then fix_columns f else replicate 9 SNull | None \<Rightarrow> replicate 9 SNull)"

definition reception_values :: "reception \<Rightarrow> row" where
  "reception_values r =
     [int_of_u64 (rc_id r), SReal (rc_utc r), SReal (rc_elapsed r), int_of_u64 (rc_freq r), int_of_u32 (rc_bw r),
      int_of_u32 (rc_sf r), int_of_u32 (rc_cr r), SReal (rc_duration r), SReal (rc_snr r), SReal (rc_freq_error r),
      int_of_bool (rc_header_valid r), int_of_bool (rc_crc_valid r), SText (rc_label r),
      SInt (int (status_code (dr_status (rc_decoded r)))),
      SText (canonical_classification (dr_classification (rc_decoded r))), SText ''not authenticated''] @
     replicate 31 SNull @ position_columns (rc_position r) @ evidence_columns (dr_evidence (rc_decoded r)) @
     replicate 4 SNull"

definition reception_row :: "reception \<Rightarrow> row result" where
  "reception_row r = bind_result (validate_reception r) (\<lambda>_. insert_row (reception_values r))"

definition saved_position :: "row \<Rightarrow> position_fix option result" where
  "saved_position s =
     (if \<not> null_at s 47 \<or> \<not> null_at s 48 then
       bind_result (real_at s 47) (\<lambda>lat.
       bind_result (real_at s 48) (\<lambda>lon.
       bind_result (optional_at s 49) (\<lambda>alt.
       bind_result (boolean_at s 50) (\<lambda>manual.
       bind_result (real_at s 51) (\<lambda>utc.
       bind_result (real_at s 52) (\<lambda>monotonic.
       bind_result (text_at s 53) (\<lambda>source.
       bind_result (optional_at s 54) (\<lambda>hdop.
       bind_result (unsigned_at s 55 1000) (\<lambda>satellites.
       Inr (Some \<lparr>px_lat = lat, px_lon = lon, px_alt = alt, px_utc = utc, px_mono = monotonic,
         px_valid = True, px_manual = manual, px_source = source, px_hdop = hdop,
         px_satellites = unat satellites\<rparr>))))))))))
      else if list_all (null_at s) [49..<56] then Inr None
      else Inl ''Incomplete receiver position in saved record'')"

definition saved_evidence :: "row \<Rightarrow> evidence option result" where
  "saved_evidence s =
     (if \<not> null_at s 56 \<or> \<not> null_at s 57 then
        bind_result (unsigned_at s 56 uint32_max) (\<lambda>port.
        bind_result (boolean_at s 57) (\<lambda>signature.
        Inr (Some \<lparr>ev_port = ucast port, ev_signature = signature\<rparr>)))
      else Inr None)"

definition reception_from :: "nat \<Rightarrow> row \<Rightarrow> reception result" where
  "reception_from version s =
     bind_result (unsigned_at s 0 int64_max) (\<lambda>i.
     bind_result (real_at s 1) (\<lambda>utc.
     bind_result (real_at s 2) (\<lambda>elapsed.
     bind_result (unsigned_at s 3 6000000000) (\<lambda>freq.
     bind_result (unsigned_at s 4 uint32_max) (\<lambda>bw.
     bind_result (unsigned_at s 5 12) (\<lambda>sf.
     bind_result (unsigned_at s 6 8) (\<lambda>cr.
     bind_result (real_at s 7) (\<lambda>duration.
     bind_result (real_at s 8) (\<lambda>snr.
     bind_result (real_at s 9) (\<lambda>freq_error.
     bind_result (boolean_at s 10) (\<lambda>header.
     bind_result (boolean_at s 11) (\<lambda>crc.
     bind_result (text_at s 12) (\<lambda>label.
     bind_result (integer_at s 13) (\<lambda>code.
     bind_result (guard_err (code < 0 \<or> code > int (status_code Crypto_error)) ''Unsupported saved decode status'') (\<lambda>_.
     bind_result (text_at s 14) (\<lambda>classification.
     bind_result (text_at s 15) (\<lambda>authentication.
     bind_result (saved_position s) (\<lambda>position.
     bind_result (if version \<ge> 3 then saved_evidence s else Inr None) (\<lambda>evidence.
     let r = \<lparr>rc_id = i, rc_utc = utc, rc_elapsed = elapsed, rc_freq = freq, rc_bw = ucast bw, rc_sf = ucast sf,
       rc_cr = ucast cr, rc_duration = duration, rc_snr = snr, rc_freq_error = freq_error, rc_header_valid = header,
       rc_crc_valid = crc, rc_label = label,
       rc_decoded = \<lparr>dr_status = statuses_in_order ! nat code,
         dr_classification = canonical_classification classification, dr_authentication = authentication,
         dr_evidence = evidence\<rparr>,
       rc_position = position, rc_concentrator = None\<rparr>
     in bind_result (validate_reception r) (\<lambda>_. Inr r))))))))))))))))))))"

text \<open>
  The columns that the reader of metadata selects: the former payload, identity and routing
  columns are selected as null, from a recording of any version.
\<close>

definition metadata_projection :: "nat \<Rightarrow> row \<Rightarrow> row" where
  "metadata_projection version s =
     map (column s) [0..<16] @ replicate 31 SNull @ map (column s) [47..<56] @
     (if version \<ge> 3 then map (column s) [56..<58] @ replicate 4 SNull else [])"

section \<open>Concentrator provenance\<close>

definition validate_concentrator_packet :: "receiver_config \<Rightarrow> reception \<Rightarrow> unit result" where
  "validate_concentrator_packet c r =
     bind_result (guard_err
       (\<not> cc_decode (cf_boards c) \<and> (dr_status (rc_decoded r) = Classified \<or> dr_evidence (rc_decoded r) \<noteq> None))
       ''Protocol classification is disabled for this concentrator recording'') (\<lambda>_.
     case rc_concentrator r of
       None \<Rightarrow> Inl ''Invalid concentrator packet provenance''
     | Some m \<Rightarrow>
         bind_result (guard_err (unat (md_board m) \<ge> length (cc_boards (cf_boards c)) \<or> md_rssi m < - 200 \<or> md_rssi m > 50)
           ''Invalid concentrator packet provenance'') (\<lambda>_.
         let b = cc_boards (cf_boards c) ! unat (md_board m)
         in guard_err (\<not> bc_packets b \<or> rc_freq r \<noteq> bc_freq b \<or> rc_bw r \<noteq> bc_bw b \<or> rc_sf r \<noteq> bc_sf b)
              ''Packet disagrees with configured concentrator service modem''))"

definition packet_row :: "u64 \<Rightarrow> packet_metadata \<Rightarrow> row result" where
  "packet_row i m = insert_row [int_of_u64 i, int_of_u32 (md_board m), SReal (md_rssi m), int_of_u32 (md_us m)]"

text \<open>The row of \<open>concentrator_packets\<close> without its key, if there is one.\<close>

definition read_concentrator_packet :: "row option \<Rightarrow> receiver_config \<Rightarrow> reception \<Rightarrow> reception result" where
  "read_concentrator_packet row c r =
     (case row of
        None \<Rightarrow> Inl ''Missing concentrator packet provenance''
      | Some s \<Rightarrow>
          bind_result (unsigned_at s 0 1) (\<lambda>board.
          bind_result (real_at s 1) (\<lambda>rssi.
          bind_result (unsigned_at s 2 uint32_max) (\<lambda>us.
          let r' = r\<lparr>rc_concentrator := Some \<lparr>md_board = ucast board, md_rssi = rssi, md_us = ucast us\<rparr>\<rparr>
          in bind_result (validate_concentrator_packet c r') (\<lambda>_. Inr r')))))"

section \<open>Frequency bins and survey windows\<close>

record frequency_summary =
  fs_center :: u64
  fs_width :: u32
  fs_mean :: rat
  fs_peak :: rat
  fs_observed :: rat
  fs_active :: rat

record survey_window =
  sw_id :: u64
  sw_utc_start :: rat
  sw_utc_end :: rat
  sw_start :: rat
  sw_stop :: rat
  sw_bins :: "frequency_summary list"
  sw_position :: "position_fix option"

definition validate_bin :: "frequency_summary \<Rightarrow> unit result" where
  "validate_bin b =
     bind_result (guard_err (fs_center b = 0 \<or> fs_center b > 6000000000 \<or> fs_width b = 0 \<or> fs_width b > 20000000)
       ''Invalid frequency-bin metadata'') (\<lambda>_.
     bind_result (nonnegative (fs_observed b) ''observed time'') (\<lambda>_.
     bind_result (nonnegative (fs_active b) ''active time'') (\<lambda>_.
     guard_err (fs_active b > fs_observed b + 1 / 1000000000) ''Activity exceeds observed time'')))"

fun validate_window_bins :: "u64 set \<Rightarrow> frequency_summary list \<Rightarrow> unit result" where
  "validate_window_bins centers [] = Inr ()"
| "validate_window_bins centers (b # bs) =
     bind_result (validate_bin b) (\<lambda>_.
     bind_result (guard_err (fs_center b \<in> centers) ''Duplicate frequency bin in survey window'') (\<lambda>_.
     validate_window_bins (insert (fs_center b) centers) bs))"

definition validate_window :: "survey_window \<Rightarrow> unit result" where
  "validate_window w =
     bind_result (guard_err (sw_id w = 0 \<or> sw_id w > int64_max \<or> sw_bins w = [] \<or> length (sw_bins w) > 8192)
       ''Invalid survey-window identity or bin count'') (\<lambda>_.
     bind_result (nonnegative (sw_utc_start w) ''survey-window UTC start'') (\<lambda>_.
     bind_result (nonnegative (sw_utc_end w) ''survey-window UTC end'') (\<lambda>_.
     bind_result (nonnegative (sw_start w) ''survey-window elapsed start'') (\<lambda>_.
     bind_result (nonnegative (sw_stop w) ''survey-window elapsed end'') (\<lambda>_.
     bind_result (guard_err (sw_utc_end w \<le> sw_utc_start w \<or> sw_stop w \<le> sw_start w)
       ''Survey-window end must follow its start'') (\<lambda>_.
     bind_result (validate_window_bins {} (sw_bins w)) (\<lambda>_.
     validate_optional_fix (kept_fix (sw_position w)))))))))"

section \<open>Text of exports\<close>

text \<open>\<open>json_string\<close> writes control characters as four hexadecimal digits.\<close>

definition json_char :: "char \<Rightarrow> string" where
  "json_char c =
     (if c = CHR ''\"'' \<or> c = CHR 0x5C then [CHR 0x5C, c]
      else if code c < 32 then [CHR 0x5C, CHR ''u'', CHR ''0'', CHR ''0'', hex_char (code c div 16), hex_char (code c mod 16)]
      else [c])"

definition json_string :: "string \<Rightarrow> string" where
  "json_string s = [CHR ''\"''] @ concat (map json_char s) @ [CHR ''\"'']"


section \<open>Reading what was written\<close>

definition reception_front :: "reception \<Rightarrow> row" where
  "reception_front r =
     [int_of_u64 (rc_id r), SReal (rc_utc r), SReal (rc_elapsed r), int_of_u64 (rc_freq r), int_of_u32 (rc_bw r),
      int_of_u32 (rc_sf r), int_of_u32 (rc_cr r), SReal (rc_duration r), SReal (rc_snr r), SReal (rc_freq_error r),
      int_of_bool (rc_header_valid r), int_of_bool (rc_crc_valid r), SText (rc_label r),
      SInt (int (status_code (dr_status (rc_decoded r)))),
      SText (canonical_classification (dr_classification (rc_decoded r))), SText ''not authenticated'']"

lemma reception_values_parts:
  "reception_values r = reception_front r @ replicate 31 SNull @ position_columns (rc_position r) @
     evidence_columns (dr_evidence (rc_decoded r)) @ replicate 4 SNull"
  by (simp add: reception_values_def reception_front_def)

lemma part_lengths [simp]:
  "length (reception_front r) = 16" "length (position_columns p) = 9" "length (evidence_columns e) = 2"
  by (simp_all add: reception_front_def position_columns_def evidence_columns_def split: option.splits)

lemma reception_columns:
  "k < 16 \<Longrightarrow> column (reception_values r) k = column (reception_front r) k"
  "16 \<le> k \<Longrightarrow> k < 47 \<Longrightarrow> column (reception_values r) k = SNull"
  "i < 9 \<Longrightarrow> column (reception_values r) (47 + i) = column (position_columns (rc_position r)) i"
  "i < 2 \<Longrightarrow> column (reception_values r) (56 + i) = column (evidence_columns (dr_evidence (rc_decoded r))) i"
  "58 \<le> k \<Longrightarrow> column (reception_values r) k = SNull"
  by (simp_all add: reception_values_parts column_def nth_append less_diff_conv2)

definition kept_reception :: "reception \<Rightarrow> reception" where
  "kept_reception r = r\<lparr>rc_decoded := (rc_decoded r)
     \<lparr>dr_classification := canonical_classification (dr_classification (rc_decoded r))\<rparr>,
     rc_position := kept_fix (rc_position r), rc_concentrator := None\<rparr>"

lemma status_code_nth: "statuses_in_order ! status_code st = st" "status_code st \<le> 9"
  by (cases st; simp add: statuses_in_order_def)+

lemma saved_position_written:
  assumes bound: "\<forall>v\<in>set (reception_values r). bind_value v = Inr ()"
    and ok: "validate_optional_fix (kept_fix (rc_position r)) = Inr ()"
  shows "saved_position (reception_values r) = Inr (kept_fix (rc_position r))"
proof (cases "kept_fix (rc_position r)")
  case (Some f)
  then have f: "rc_position r = Some f" "px_valid f" by (auto simp: kept_fix_def split: option.splits if_splits)
  have p: "position_columns (rc_position r) = fix_columns f" using f by (simp add: position_columns_def)
  note c = reception_columns(3) [of 0 r, unfolded p] reception_columns(3) [of 1 r, unfolded p]
    reception_columns(3) [of 2 r, unfolded p] reception_columns(3) [of 3 r, unfolded p]
    reception_columns(3) [of 4 r, unfolded p] reception_columns(3) [of 5 r, unfolded p]
    reception_columns(3) [of 6 r, unfolded p] reception_columns(3) [of 7 r, unfolded p]
    reception_columns(3) [of 8 r, unfolded p]
  have s: "px_satellites f \<le> 1000" using ok Some by (simp add: validate_optional_fix_def validate_fix_def bind_result_Inr)
  have t: "bind_value (SText (px_source f)) = Inr ()"
    using bound by (auto simp: reception_values_parts p fix_columns_def)
  have n: "unat (word_of_int (int (px_satellites f)) :: u64) = px_satellites f"
    using s by (simp add: unat_of_nat)
  have rd: "null_at (reception_values r) 47 = False" "real_at (reception_values r) 47 = Inr (px_lat f)"
    "real_at (reception_values r) 48 = Inr (px_lon f)" "optional_at (reception_values r) 49 = Inr (px_alt f)"
    "boolean_at (reception_values r) 50 = Inr (px_manual f)" "real_at (reception_values r) 51 = Inr (px_utc f)"
    "real_at (reception_values r) 52 = Inr (px_mono f)" "text_at (reception_values r) 53 = Inr (px_source f)"
    "optional_at (reception_values r) 54 = Inr (px_hdop f)"
    "unsigned_at (reception_values r) 55 1000 = Inr (word_of_int (int (px_satellites f)))"
    using c s t by (simp_all only: readers_find, simp_all add: fix_columns_def row_simps del: of_int_of_nat_eq)
  have "\<lparr>px_lat = px_lat f, px_lon = px_lon f, px_alt = px_alt f, px_utc = px_utc f, px_mono = px_mono f,
      px_valid = True, px_manual = px_manual f, px_source = px_source f, px_hdop = px_hdop f,
      px_satellites = px_satellites f\<rparr> = f"
    using f(2) by simp
  then show ?thesis
    by (simp only: saved_position_def rd bind_result_simps n Some not_False_eq_True simp_thms if_True)
next
  case None
  then have p: "position_columns (rc_position r) = replicate 9 SNull"
    by (auto simp: kept_fix_def position_columns_def split: option.splits if_splits)
  have null_here: "null_at (reception_values r) (47 + i)" if "i < 9" for i
    using reception_columns(3) [OF that, of r] that by (simp add: null_at_def p column_def)
  have n: "null_at (reception_values r) k" if le: "47 \<le> k" and lt: "k < 56" for k
  proof -
    obtain i where "k = 47 + i" using le_Suc_ex [OF le] by blast
    then show ?thesis using null_here [of i] lt by simp
  qed
  from n [of 47] n [of 48] n show ?thesis by (simp add: saved_position_def None list_all_iff)
qed

lemma saved_evidence_written:
  "saved_evidence (reception_values r) = Inr (dr_evidence (rc_decoded r))"
proof (cases "dr_evidence (rc_decoded r)")
  case None
  then have "column (reception_values r) 56 = SNull" "column (reception_values r) 57 = SNull"
    using reception_columns(4) [of 0 r] reception_columns(4) [of 1 r] by (simp_all add: evidence_columns_def row_simps)
  then show ?thesis by (simp add: saved_evidence_def null_at_def None)
next
  case (Some e)
  then have c: "column (reception_values r) 56 = int_of_u32 (ev_port e)" "column (reception_values r) 57 = int_of_bool (ev_signature e)"
    using reception_columns(4) [of 0 r] reception_columns(4) [of 1 r] by (simp_all add: evidence_columns_def row_simps)
  have "uint (ev_port e) \<le> uint uint32_max" using uint_lt2p [of "ev_port e"] by (simp add: uint32_max_def)
  then have rd: "unsigned_at (reception_values r) 56 uint32_max = Inr (ucast (ev_port e))"
    "boolean_at (reception_values r) 57 = Inr (ev_signature e)"
    using c by (simp_all only: readers_find, simp_all add: row_simps)
  have "\<not> null_at (reception_values r) 56" by (simp add: null_at_def c int_of_u32_def)
  moreover have "\<lparr>ev_port = ev_port e, ev_signature = ev_signature e\<rparr> = e" by simp
  ultimately show ?thesis by (simp only: saved_evidence_def rd bind_result_simps ucast_u32 Some simp_thms if_True)
qed

lemma kept_reception_valid: "validate_reception r = Inr () \<Longrightarrow> validate_reception (kept_reception r) = Inr ()"
proof -
  assume v: "validate_reception r = Inr ()"
  have k: "kept_fix (kept_fix p) = kept_fix p" for p by (simp add: kept_fix_def split: option.splits)
  have "reception_metadata_bad (kept_reception r) = reception_metadata_bad r"
    by (simp add: reception_metadata_bad_def kept_reception_def)
  moreover have "validate_evidence (kept_reception r) = Inr ()" if "validate_evidence r = Inr ()"
    using that by (auto simp: validate_evidence_def kept_reception_def canonical_classification_def Let_def split: option.splits)
  moreover have "canonical_classification ''likely Meshtastic'' = ''likely Meshtastic''"
    by (simp add: canonical_classification_def)
  ultimately show ?thesis
    using v unfolding validate_reception_def bind_result_Inr guard_err_Inr
    by (auto simp: kept_reception_def k)
qed

lemma reception_read_back:
  assumes "reception_row r = Inr s"
  shows "reception_from 3 s = Inr (kept_reception r)"
proof -
  have v: "validate_reception r = Inr ()" and s: "s = reception_values r"
    and bound: "\<forall>v\<in>set (reception_values r). bind_value v = Inr ()"
    using assms by (auto simp: reception_row_def bind_result_Inr insert_row_Inr)
  have parts: "\<not> reception_metadata_bad r" "dr_authentication (rc_decoded r) = ''not authenticated''"
    "validate_optional_fix (kept_fix (rc_position r)) = Inr ()"
    using v unfolding validate_reception_def bind_result_Inr guard_err_Inr by auto
  have t: "bind_value (SText (rc_label r)) = Inr ()"
    "bind_value (SText (canonical_classification (dr_classification (rc_decoded r)))) = Inr ()"
    "bind_value (SText ''not authenticated'') = Inr ()"
    using bound by (auto simp: reception_values_parts reception_front_def)
  have n: "rc_id r \<le> int64_max" "rc_freq r \<le> 6000000000" "unat (rc_sf r) \<le> 12" "unat (rc_cr r) \<le> 8"
    using parts(1) by (auto simp: reception_metadata_bad_def not_less word_le_nat_alt)
  have b: "uint (rc_sf r) \<le> 12" "uint (rc_cr r) \<le> 8"
    using n(3,4) uint_nat [of "rc_sf r"] uint_nat [of "rc_cr r"] by linarith+
  have w: "uint (rc_bw r) \<le> uint uint32_max"
    using uint_lt2p [of "rc_bw r"] by (simp add: uint32_max_def)
  have rd: "unsigned_at s 0 int64_max = Inr (rc_id r)" "real_at s 1 = Inr (rc_utc r)" "real_at s 2 = Inr (rc_elapsed r)"
    "unsigned_at s 3 6000000000 = Inr (rc_freq r)" "unsigned_at s 4 uint32_max = Inr (ucast (rc_bw r))"
    "unsigned_at s 5 12 = Inr (ucast (rc_sf r))" "unsigned_at s 6 8 = Inr (ucast (rc_cr r))"
    "real_at s 7 = Inr (rc_duration r)" "real_at s 8 = Inr (rc_snr r)" "real_at s 9 = Inr (rc_freq_error r)"
    "boolean_at s 10 = Inr (rc_header_valid r)" "boolean_at s 11 = Inr (rc_crc_valid r)" "text_at s 12 = Inr (rc_label r)"
    "integer_at s 13 = Inr (int (status_code (dr_status (rc_decoded r))))"
    "text_at s 14 = Inr (canonical_classification (dr_classification (rc_decoded r)))"
    "text_at s 15 = Inr ''not authenticated''"
    using n b w t by (simp_all only: readers_find s, simp_all add: reception_columns, simp_all add: reception_front_def row_simps)
  have sp: "saved_position s = Inr (kept_fix (rc_position r))" "saved_evidence s = Inr (dr_evidence (rc_decoded r))"
    using saved_position_written [OF bound parts(3)] saved_evidence_written [of r] by (simp_all add: s)
  have code: "\<not> (int (status_code (dr_status (rc_decoded r))) < 0 \<or>
      int (status_code (dr_status (rc_decoded r))) > int (status_code Crypto_error))"
    using status_code_nth(2) [of "dr_status (rc_decoded r)"] by simp
  have idem: "canonical_classification (canonical_classification x) = canonical_classification x" for x
    by (simp add: canonical_classification_def)
  have e: "\<lparr>rc_id = rc_id r, rc_utc = rc_utc r, rc_elapsed = rc_elapsed r, rc_freq = rc_freq r, rc_bw = rc_bw r,
      rc_sf = rc_sf r, rc_cr = rc_cr r, rc_duration = rc_duration r, rc_snr = rc_snr r, rc_freq_error = rc_freq_error r,
      rc_header_valid = rc_header_valid r, rc_crc_valid = rc_crc_valid r, rc_label = rc_label r,
      rc_decoded = \<lparr>dr_status = dr_status (rc_decoded r),
        dr_classification = canonical_classification (dr_classification (rc_decoded r)),
        dr_authentication = ''not authenticated'', dr_evidence = dr_evidence (rc_decoded r)\<rparr>,
      rc_position = kept_fix (rc_position r), rc_concentrator = None\<rparr> = kept_reception r"
    by (simp add: kept_reception_def parts(2) [symmetric])
  have "(3 :: nat) \<ge> 3" by simp
  then show ?thesis
    using code kept_reception_valid [OF v]
    by (simp only: reception_from_def rd sp bind_result_simps guard_err_def Let_def nat_int status_code_nth(1) idem
        ucast_u32 if_False if_True e)
qed

interpretation receptions: stored_record reception_row "reception_from 3" kept_reception
  by unfold_locales (rule reception_read_back)

text \<open>
  C2: A recording keeps metadata only. Every column of a reception between the classification
  and the receiver position, and every column after the envelope evidence, is null, and the
  reader of any version gives the same answer when those columns are selected as null: no
  payload, identity or route of a transmission is written or read back.
\<close>

theorem metadata_only:
  "(reception_row r = Inr s \<longrightarrow> (\<forall>k. (16 \<le> k \<and> k < 47) \<or> 58 \<le> k \<longrightarrow> column s k = SNull)) \<and>
   reception_from version (metadata_projection version old) = reception_from version old"
proof
  show "reception_row r = Inr s \<longrightarrow> (\<forall>k. (16 \<le> k \<and> k < 47) \<or> 58 \<le> k \<longrightarrow> column s k = SNull)"
    by (auto simp: reception_row_def bind_result_Inr insert_row_Inr reception_columns)
  let ?p = "metadata_projection version old"
  define A M E where "A = map (column old) [0..<16]" and "M = map (column old) [47..<56]" and
    "E = (if version \<ge> 3 then map (column old) [56..<58] @ replicate 4 SNull else [])"
  have p: "?p = A @ replicate 31 SNull @ M @ E"
    by (simp only: metadata_projection_def A_def M_def E_def)
  have len: "length A = 16" "length M = 9" by (simp_all add: A_def M_def)
  have front: "column ?p k = column old k" if "k < 16" for k
    using that len(1) nth_map [of k "[0..<16]" "column old"] by (simp add: p column_append) (simp add: column_def A_def)
  have middle: "column ?p k = column old k" if "47 \<le> k" "k < 56" for k
  proof -
    have "column ?p k = column M (k - 47)" using that len by (simp add: p column_append less_diff_conv2)
    also have "\<dots> = column old k"
      using that len(2) nth_map [of "k - 47" "[47..<56]" "column old"] by (simp add: column_def M_def less_diff_conv2 del: upt_rec_numeral)
    finally show ?thesis .
  qed
  have end_part: "column ?p k = column old k" if "56 \<le> k" "k < 58" "version \<ge> 3" for k
  proof -
    have "column ?p k = column E (k - 56)" using that len by (simp add: p column_append less_diff_conv2)
    also have "\<dots> = map (column old) [56..<58] ! (k - 56)"
      using that by (simp add: E_def column_def nth_append less_diff_conv2 del: upt_rec_numeral)
    also have "\<dots> = column old k"
      using that nth_map [of "k - 56" "[56..<58]" "column old"] by (simp add: less_diff_conv2 del: upt_rec_numeral)
    finally show ?thesis .
  qed
  have "saved_position ?p = saved_position old"
    by (simp add: saved_position_def readers_find middle list_all_iff)
  moreover have "saved_evidence ?p = saved_evidence old" if "version \<ge> 3"
    using that by (simp add: saved_evidence_def readers_find end_part)
  ultimately show "reception_from version ?p = reception_from version old"
    by (simp add: reception_from_def readers_find front)
qed

definition sample_reception :: reception where
  "sample_reception = \<lparr>rc_id = 1, rc_utc = 100, rc_elapsed = 1, rc_freq = 906875000, rc_bw = 250000, rc_sf = 11,
     rc_cr = 5, rc_duration = 1, rc_snr = 5, rc_freq_error = 0, rc_header_valid = True, rc_crc_valid = True,
     rc_label = ''LongFast'', rc_decoded = fresh_result, rc_position = None, rc_concentrator = None\<rparr>"

lemma metadata_only_witness:
  "\<exists>s. reception_row sample_reception = Inr s \<and> column s 20 = SNull"
proof -
  have v: "validate_reception sample_reception = Inr ()" by code_simp
  have "\<exists>s. reception_row sample_reception = Inr s"
  proof -
    have "list_all (\<lambda>v. bind_value v = Inr ()) (reception_values sample_reception)" by code_simp
    then show ?thesis using v by (simp add: reception_row_def insert_row_Inr list_all_iff)
  qed
  then obtain s where s: "reception_row sample_reception = Inr s" by blast
  then show ?thesis using metadata_only [of sample_reception s 3 "[]"] by auto
qed

end
