(* ===== verification/SessionStore.thy ===== *)
theory SessionStore
  imports ReceptionRows
begin

text \<open>
  The writing side of a recording (\<open>SessionStore\<close> in \<open>storage.hpp\<close> and \<open>storage.cpp\<close>): the
  open session with its tables, and one operation per kind of record. A table is the list of
  its rows in the order of insertion; SQLite is a store that keeps the rows bound to it,
  refuses a second row with the same primary key (its code 19) and undoes a savepoint.
  An operation returns its result, or the message of the exception it throws, and the state
  it leaves in either case. \<open>std::pow\<close> and \<open>std::log10\<close> are arguments.
\<close>

section \<open>State\<close>

record power_block =
  pb_id :: u64
  pb_first :: u64
  pb_end :: u64
  pb_frames :: u64
  pb_utc_start :: rat
  pb_utc_end :: rat
  pb_start :: rat
  pb_stop :: rat
  pb_center :: rat
  pb_width :: rat
  pb_sums :: "rat list"
  pb_peak :: "rat list"
  pb_dirty :: bool

definition new_power_block :: power_block where
  "new_power_block = \<lparr>pb_id = 0, pb_first = 0, pb_end = 0, pb_frames = 0, pb_utc_start = 0, pb_utc_end = 0,
     pb_start = 0, pb_stop = 0, pb_center = 0, pb_width = 0, pb_sums = [], pb_peak = [], pb_dirty = False\<rparr>"

record session_store =
  ss_open :: bool
  ss_version :: nat
  ss_readonly :: bool
  ss_pending :: bool
  ss_config :: receiver_config
  ss_segmented :: bool
  ss_acquisition :: u64
  ss_tile_end :: u64
  ss_tile_id :: u64
  ss_tile_elapsed :: rat
  ss_power :: power_block
  ss_recent :: "(position_fix \<times> int) list"
  tb_receptions :: "row list"
  tb_packets :: "row list"
  tb_positions :: "(int \<times> position_fix) list"
  tb_windows :: "row list"
  tb_window_bins :: "row list"
  tb_power :: "row list"
  tb_tiles :: "row list"
  tb_events :: "row list"
  tb_gaps :: "row list"
  tb_waveforms :: "row list"
  tb_discovery_gaps :: "row list"
  tb_scans :: "row list"
  tb_acquisitions :: "row list"
  tb_lanes :: "row list"
  tb_automatic :: "row list"

text \<open>The two functions of the mathematical library that the power blocks use.\<close>

record math_library =
  ma_power :: "rat \<Rightarrow> rat"
  ma_decibel :: "rat \<Rightarrow> rat"

type_synonym 'a op = "session_store \<Rightarrow> 'a result \<times> session_store"

definition then_op :: "'a op \<Rightarrow> ('a \<Rightarrow> 'b op) \<Rightarrow> 'b op" where
  "then_op m f = (\<lambda>s. case m s of (Inl e, s') \<Rightarrow> (Inl e, s') | (Inr x, s') \<Rightarrow> f x s')"

definition yield_op :: "'a result \<Rightarrow> 'a op" where
  "yield_op r = (\<lambda>s. (r, s))"

definition check_op :: "(session_store \<Rightarrow> bool) \<Rightarrow> string \<Rightarrow> unit op" where
  "check_op bad message = (\<lambda>s. (guard_err (bad s) message, s))"

definition change_op :: "(session_store \<Rightarrow> session_store) \<Rightarrow> unit op" where
  "change_op f = (\<lambda>s. (Inr (), f s))"

definition with_store :: "(session_store \<Rightarrow> 'a op) \<Rightarrow> 'a op" where
  "with_store f = (\<lambda>s. f s s)"

section \<open>Tables\<close>

definition constraint_failed :: string where
  "constraint_failed = ''Session database operation failed (code 19)''"

definition has_key :: "sql_value \<Rightarrow> row list \<Rightarrow> bool" where
  "has_key k rows = list_ex (\<lambda>r. column r 0 = k) rows"

text \<open>\<open>insert\<close> into a table whose first column is its primary key.\<close>

definition add_row :: "row \<Rightarrow> row list \<Rightarrow> row list result" where
  "add_row vs rows =
     bind_result (insert_row vs) (\<lambda>r.
     if has_key (column r 0) rows then Inl constraint_failed else Inr (rows @ [r]))"

text \<open>\<open>INSERT ... ON CONFLICT(id) DO UPDATE\<close>.\<close>

definition put_row :: "row \<Rightarrow> row list \<Rightarrow> row list result" where
  "put_row vs rows =
     bind_result (insert_row vs) (\<lambda>r.
     Inr (if has_key (column r 0) rows then map (\<lambda>old. if column old 0 = column r 0 then r else old) rows
          else rows @ [r]))"

definition begin_batch :: "unit op" where
  "begin_batch =
     then_op (check_op (\<lambda>s. \<not> ss_open s \<or> ss_readonly s \<or> ss_version s \<notin> {5, 6, 7}) ''Survey is read-only'') (\<lambda>_.
     change_op (\<lambda>s. s\<lparr>ss_pending := True\<rparr>))"

section \<open>Receptions\<close>

definition insert_reception :: "reception \<Rightarrow> unit op" where
  "insert_reception r =
     (\<lambda>s. case add_row (reception_values r) (tb_receptions s) of
        Inl e \<Rightarrow> (Inl e, s)
      | Inr receptions \<Rightarrow>
          (case rc_concentrator r of
             None \<Rightarrow> (Inr (), s\<lparr>tb_receptions := receptions\<rparr>)
           | Some m \<Rightarrow>
               (case add_row [int_of_u64 (rc_id r), int_of_u32 (md_board m), SReal (md_rssi m), int_of_u32 (md_us m)]
                   (tb_packets s) of
                  Inl e \<Rightarrow> (Inl e, s)
                | Inr packets \<Rightarrow> (Inr (), s\<lparr>tb_receptions := receptions, tb_packets := packets\<rparr>))))"

definition append_reception :: "reception \<Rightarrow> unit op" where
  "append_reception r =
     then_op (yield_op (validate_reception r)) (\<lambda>_.
     then_op (with_store (\<lambda>s. yield_op
       (if ss_version s = 7 then validate_concentrator_packet (ss_config s) r
        else guard_err (rc_concentrator r \<noteq> None) ''Concentrator metadata requires a concentrator recording''))) (\<lambda>_.
     then_op begin_batch (\<lambda>_. insert_reception r)))"

section \<open>Positions\<close>

text \<open>All columns are compared; whether a fix is valid is not one.\<close>

definition same_fix :: "position_fix \<Rightarrow> position_fix \<Rightarrow> bool" where
  "same_fix a f \<longleftrightarrow> a\<lparr>px_valid := True\<rparr> = f\<lparr>px_valid := True\<rparr>"

definition next_rowid :: "(int \<times> 'a) list \<Rightarrow> int" where
  "next_rowid rows = fold max (map fst rows) 0 + 1"

definition insert_position :: "position_fix \<Rightarrow> int op" where
  "insert_position f =
     then_op (yield_op (insert_row [SReal (px_utc f), SReal (px_lat f), SReal (px_lon f), number (px_alt f),
         int_of_bool (px_manual f), SText (px_source f), number (px_hdop f), SInt (int (px_satellites f)),
         SReal (px_mono f)])) (\<lambda>_ s.
     (Inr (next_rowid (tb_positions s)), s\<lparr>tb_positions := tb_positions s @ [(next_rowid (tb_positions s), f)]\<rparr>))"

definition remember_fix :: "position_fix \<Rightarrow> int \<Rightarrow> session_store \<Rightarrow> session_store" where
  "remember_fix f k s =
     (let recent = ss_recent s @ [(f, k)]
      in s\<lparr>ss_recent := (if length recent > 128 then tl recent else recent)\<rparr>)"

definition ensure_fix :: "position_fix \<Rightarrow> int op" where
  "ensure_fix f =
     then_op (yield_op (validate_fix f)) (\<lambda>_ s.
     case find (\<lambda>(a, k). same_fix a f) (ss_recent s) of
       Some (_, k) \<Rightarrow> (Inr k, s)
     | None \<Rightarrow>
         then_op (\<lambda>s. case find (\<lambda>(k, a). same_fix a f) (tb_positions s) of
             Some (k, _) \<Rightarrow> (Inr k, s)
           | None \<Rightarrow> insert_position f s) (\<lambda>k.
         then_op (change_op (remember_fix f k)) (\<lambda>_. yield_op (Inr k))) s)"

definition append_position :: "position_fix \<Rightarrow> unit op" where
  "append_position f =
     (if \<not> px_valid f then yield_op (Inr ())
      else
        then_op (yield_op (validate_fix f)) (\<lambda>_.
        then_op begin_batch (\<lambda>_.
        with_store (\<lambda>s.
          if ss_version s \<ge> 6 then then_op (ensure_fix f) (\<lambda>_. yield_op (Inr ()))
          else then_op (insert_position f) (\<lambda>_. yield_op (Inr ()))))))"

text \<open>The reference to a position, null for none.\<close>

definition fix_reference :: "position_fix option \<Rightarrow> sql_value op" where
  "fix_reference p =
     (case p of
        Some f \<Rightarrow> if px_valid f then then_op (ensure_fix f) (\<lambda>k. yield_op (Inr (SInt k))) else yield_op (Inr SNull)
      | None \<Rightarrow> yield_op (Inr SNull))"

section \<open>Windows\<close>

definition bin_values :: "u64 \<Rightarrow> frequency_summary \<Rightarrow> row" where
  "bin_values i b = [int_of_u64 i, int_of_u64 (fs_center b), int_of_u32 (fs_width b), SReal (fs_mean b),
     SReal (fs_peak b), SReal (fs_observed b), SReal (fs_active b)]"

definition append_window :: "survey_window \<Rightarrow> unit op" where
  "append_window w =
     then_op (check_op (\<lambda>s. ss_version s = 7) ''Concentrator scans cannot create FFT or waveform records'') (\<lambda>_.
     then_op (yield_op (validate_window w)) (\<lambda>_.
     with_store (\<lambda>s0.
       if ss_version s0 \<ge> 6 then check_op ss_readonly ''Survey is read-only''
       else
         then_op begin_batch (\<lambda>_ s.
         case add_row ([int_of_u64 (sw_id w), SReal (sw_utc_start w), SReal (sw_utc_end w), SReal (sw_start w),
             SReal (sw_stop w), SText ''window-end''] @ position_columns (sw_position w)) (tb_windows s) of
           Inl e \<Rightarrow> (Inl e, s)
         | Inr windows \<Rightarrow> (Inr (), s\<lparr>tb_windows := windows,
             tb_window_bins := tb_window_bins s @ map (bin_values (sw_id w)) (sw_bins w)\<rparr>)))))"

section \<open>Tiles\<close>

definition save_power_block :: "math_library \<Rightarrow> unit op" where
  "save_power_block ma =
     with_store (\<lambda>s0.
       let b = ss_power s0 in
       if pb_id b = 0 \<or> \<not> pb_dirty b then yield_op (Inr ())
       else
         let mean = map (\<lambda>sum. ma_decibel ma (sum / rat_of_word (pb_frames b))) (pb_sums b) in
         then_op (yield_op (quantize mean)) (\<lambda>mean_bytes.
         then_op (yield_op (quantize (pb_peak b))) (\<lambda>peak_bytes.
         then_op (\<lambda>s. case put_row [int_of_u64 (pb_id b), int_of_u64 (pb_first b), int_of_u64 (pb_end b),
               SReal (pb_utc_start b), SReal (pb_utc_end b), SReal (pb_start b), SReal (pb_stop b),
               SReal (pb_center b), SReal (pb_width b), SInt 4096, int_of_u64 (pb_frames b),
               SInt (int (length mean)), SBlob mean_bytes, SBlob peak_bytes] (tb_power s) of
             Inl e \<Rightarrow> (Inl e, s)
           | Inr rows \<Rightarrow> (Inr (), s\<lparr>tb_power := rows\<rparr>)) (\<lambda>_.
         change_op (\<lambda>s. s\<lparr>ss_power := (ss_power s)\<lparr>pb_dirty := False\<rparr>\<rparr>)))))"

definition fresh_block :: "u64 \<Rightarrow> power_block" where
  "fresh_block i = new_power_block\<lparr>pb_id := i\<rparr>"

definition block_continues :: "power_block \<Rightarrow> spectrum_tile \<Rightarrow> bool" where
  "block_continues b t \<longleftrightarrow>
     \<not> (pb_id b = 0 \<or> pb_frames b = 0 \<or> pb_end b \<noteq> tl_first t \<or> \<bar>pb_stop b - tl_start t\<bar> > 1 / 100000000 \<or>
        pb_center b \<noteq> tl_center t \<or> pb_width b \<noteq> tl_width t \<or> length (pb_peak b) \<noteq> length (tl_mean t) \<or>
        tl_stop t - pb_start b > 1 + 1 / 100000000)"

definition start_block :: "power_block \<Rightarrow> spectrum_tile \<Rightarrow> power_block" where
  "start_block b t = (fresh_block (pb_id b + 1))
     \<lparr>pb_first := tl_first t, pb_utc_start := tl_utc_start t, pb_start := tl_start t, pb_center := tl_center t,
      pb_width := tl_width t, pb_sums := replicate (length (tl_mean t)) 0,
      pb_peak := replicate (length (tl_mean t)) (- 300)\<rparr>"

definition extend_block :: "math_library \<Rightarrow> spectrum_tile \<Rightarrow> power_block \<Rightarrow> power_block" where
  "extend_block ma t b = b
     \<lparr>pb_end := tl_end t, pb_utc_end := tl_utc_end t, pb_stop := tl_stop t,
      pb_frames := pb_frames b + ucast (tl_frames t),
      pb_sums := map (\<lambda>(sum, m). sum + ma_power ma (m / 10) * rat_of_word (tl_frames t)) (zip (pb_sums b) (tl_mean t)),
      pb_peak := map (\<lambda>(p, q). max p q) (zip (pb_peak b) (tl_peak t)),
      pb_dirty := True\<rparr>"

definition tile_values :: "spectrum_tile \<Rightarrow> row" where
  "tile_values t =
     [int_of_u64 (tl_id t), int_of_u64 (tl_first t), int_of_u64 (tl_end t), SReal (tl_utc_start t),
      SReal (tl_utc_end t), SReal (tl_start t), SReal (tl_stop t), SReal (tl_center t), SReal (tl_width t),
      int_of_u32 (tl_fft t), int_of_u32 (tl_frames t), SInt (int (length (tl_mean t))),
      SReal (tl_background t), int_of_u64 (tl_clipped t), int_of_u32 (tl_quality t)]"

text \<open>The columns that follow: references in the compact layout, the measurements in the detailed one.\<close>

definition compact_columns :: "math_library \<Rightarrow> spectrum_tile \<Rightarrow> row op" where
  "compact_columns ma t =
     then_op (with_store (\<lambda>s.
       if block_continues (ss_power s) t then yield_op (Inr ())
       else then_op (save_power_block ma) (\<lambda>_. change_op (\<lambda>s. s\<lparr>ss_power := start_block (ss_power s) t\<rparr>)))) (\<lambda>_.
     then_op (change_op (\<lambda>s. s\<lparr>ss_power := extend_block ma t (ss_power s)\<rparr>)) (\<lambda>_.
     then_op (save_power_block ma) (\<lambda>_.
     then_op (with_store (\<lambda>s. yield_op (Inr (int_of_u64 (pb_id (ss_power s)))))) (\<lambda>block.
     then_op (fix_reference (tl_from t)) (\<lambda>from.
     then_op (fix_reference (tl_to t)) (\<lambda>to.
     yield_op (Inr [SBlob (the (encode_activity (tl_activity t))), block, from, to])))))))"

definition detailed_columns :: "spectrum_tile \<Rightarrow> row op" where
  "detailed_columns t = yield_op
     (bind_result (quantize (tl_mean t)) (\<lambda>mean.
      bind_result (quantize (tl_peak t)) (\<lambda>peak.
      bind_result (fix_values (tl_from t)) (\<lambda>from.
      bind_result (fix_values (tl_to t)) (\<lambda>to.
      Inr ([SBlob mean, SBlob peak, SBlob (the (encode_activity (tl_activity t)))] @ from @ to))))))"

definition append_tile :: "math_library \<Rightarrow> spectrum_tile \<Rightarrow> unit op" where
  "append_tile ma t =
     then_op (check_op (\<lambda>s. ss_version s = 7) ''Concentrator scans cannot create FFT or waveform records'') (\<lambda>_.
     then_op (with_store (\<lambda>s. yield_op (validate_tile (ss_config s) t))) (\<lambda>_.
     then_op (check_op (\<lambda>s. tl_quality t AND power_aggregated \<noteq> 0)
       ''Already aggregated power cannot be recorded as a fine input tile'') (\<lambda>_.
     then_op (check_op (\<lambda>s. (ss_version s \<ge> 6 \<and> tl_id t \<le> ss_tile_id s) \<or> tl_first t < ss_tile_end s \<or>
         tl_start t < ss_tile_elapsed s - 1 / 100000000)
       ''Overlapping or unordered spectrum tiles'') (\<lambda>_.
     then_op begin_batch (\<lambda>_.
     then_op (with_store (\<lambda>s. if ss_version s \<ge> 6 then compact_columns ma t else detailed_columns t)) (\<lambda>columns.
     (\<lambda>s. case add_row (tile_values t @ columns) (tb_tiles s) of
        Inl e \<Rightarrow> (Inl e, s)
      | Inr rows \<Rightarrow> (Inr (), s\<lparr>tb_tiles := rows, ss_tile_id := tl_id t, ss_tile_end := tl_end t,
          ss_tile_elapsed := tl_stop t\<rparr>))))))))"

section \<open>Events and gaps\<close>

definition append_event :: "spectrum_event \<Rightarrow> unit op" where
  "append_event e =
     then_op (check_op (\<lambda>s. ss_version s = 7) ''Concentrator scans cannot create FFT or waveform records'') (\<lambda>_.
     then_op (with_store (\<lambda>s. yield_op (validate_event (ss_config s) e))) (\<lambda>_.
     then_op (yield_op (fix_values (se_from e))) (\<lambda>from.
     then_op (yield_op (fix_values (se_to e))) (\<lambda>to.
     then_op begin_batch (\<lambda>_ s.
     case add_row ([int_of_u64 (se_id e), int_of_u64 (se_first e), int_of_u64 (se_end e), SReal (se_utc_start e),
         SReal (se_utc_end e), SReal (se_start e), SReal (se_stop e), SReal (se_lower e), SReal (se_upper e),
         SReal (se_active e), SReal (se_mean e), SReal (se_peak e), int_of_u32 (se_quality e)] @ from @ to)
         (tb_events s) of
       Inl e \<Rightarrow> (Inl e, s)
     | Inr rows \<Rightarrow> (Inr (), s\<lparr>tb_events := rows\<rparr>))))))"

text \<open>A gap ends the block of powers; the number of the block is kept.\<close>

definition append_gap :: "math_library \<Rightarrow> coverage_gap \<Rightarrow> unit op" where
  "append_gap ma g =
     then_op (check_op (\<lambda>s. ss_version s = 7) ''Concentrator scan gaps have no SDR sample count'') (\<lambda>_.
     then_op (yield_op (validate_gap g)) (\<lambda>_.
     then_op begin_batch (\<lambda>_.
     then_op (with_store (\<lambda>s.
       if ss_version s \<ge> 6 then
         then_op (save_power_block ma) (\<lambda>_. change_op (\<lambda>s. s\<lparr>ss_power := fresh_block (pb_id (ss_power s))\<rparr>))
       else yield_op (Inr ()))) (\<lambda>_ s.
     case add_row [int_of_u64 (cg_id g), int_of_u64 (cg_missing g), SReal (cg_utc_start g), SReal (cg_utc_end g),
         SReal (cg_start g), SReal (cg_stop g), SText (cg_reason g)] (tb_gaps s) of
       Inl e \<Rightarrow> (Inl e, s)
     | Inr rows \<Rightarrow> (Inr (), s\<lparr>tb_gaps := rows\<rparr>)))))"

section \<open>Discovery\<close>

definition waveform_values :: "waveform_observation \<Rightarrow> row" where
  "waveform_values w = [int_of_u64 (wf_id w), SReal (wf_center w), int_of_u32 (wf_bw w), int_of_u32 (wf_sf w),
     SReal (wf_first w), SReal (wf_delimiter w), SReal (wf_utc w), SReal (wf_up w), SReal (wf_down w),
     int_of_u32 (wf_bands w), int_of_bool (wf_complete w), int_of_bool (wf_ambiguous w)]"

definition profile_changed :: "waveform_observation \<Rightarrow> row \<Rightarrow> bool result" where
  "profile_changed w old =
     bind_result (unsigned_at old 2 uint32_max) (\<lambda>bw.
     if bw \<noteq> ucast (wf_bw w) then Inr True
     else bind_result (unsigned_at old 3 uint32_max) (\<lambda>sf. Inr (sf \<noteq> ucast (wf_sf w))))"

definition append_waveform :: "waveform_observation \<Rightarrow> unit op" where
  "append_waveform w =
     then_op (check_op (\<lambda>s. ss_version s = 7) ''Concentrator scans cannot create FFT or waveform records'') (\<lambda>_.
     then_op (with_store (\<lambda>s. yield_op (validate_waveform (ss_config s) w))) (\<lambda>_.
     then_op begin_batch (\<lambda>_.
     then_op (with_store (\<lambda>s. yield_op
       (case find (\<lambda>r. column r 0 = int_of_u64 (wf_id w)) (tb_waveforms s) of
          None \<Rightarrow> Inr ()
        | Some old \<Rightarrow> bind_result (profile_changed w old) (\<lambda>changed.
            guard_err changed ''Waveform update changed the inferred profile for an existing identity'')))) (\<lambda>_.
     then_op (yield_op (fix_values (wf_position w))) (\<lambda>position s.
     case put_row (waveform_values w @ position) (tb_waveforms s) of
       Inl e \<Rightarrow> (Inl e, s)
     | Inr rows \<Rightarrow> (Inr (), s\<lparr>tb_waveforms := rows\<rparr>))))))"

definition append_discovery_gap :: "discovery_gap \<Rightarrow> unit op" where
  "append_discovery_gap g =
     then_op (check_op (\<lambda>s. ss_version s = 7) ''Concentrator scan gaps have no SDR sample count'') (\<lambda>_.
     then_op (yield_op (validate_discovery_gap g)) (\<lambda>_.
     then_op (check_op (\<lambda>s. \<not> cf_discover (ss_config s)) ''Discovery is disabled for this recording'') (\<lambda>_.
     then_op begin_batch (\<lambda>_ s.
     case add_row [int_of_u64 (dg_id g), int_of_u64 (dg_first g), int_of_u64 (dg_end g), SInt (dg_band g), SText (dg_reason g)]
         (tb_discovery_gaps s) of
       Inl e \<Rightarrow> (Inl e, s)
     | Inr rows \<Rightarrow> (Inr (), s\<lparr>tb_discovery_gaps := rows\<rparr>)))))"

section \<open>Concentrator scans\<close>

definition scan_sample_total :: "timed_scan \<Rightarrow> u64" where
  "scan_sample_total scan = concentrator_sample_count (concentrator_scan.truncate scan)"

definition validate_concentrator_scan :: "receiver_config \<Rightarrow> timed_scan \<Rightarrow> unit result" where
  "validate_concentrator_scan c scan =
     (let low = hz (cf_center c) - hz (cf_span c) / 2 + 117150; high = hz (cf_center c) + hz (cf_span c) / 2 - 117150 in
     bind_result (interval (cs_id scan) (ts_utc_start scan) (ts_utc_end scan) (ts_start scan) (ts_end scan)) (\<lambda>_.
     bind_result (guard_err
       (\<not> cc_scan (cf_boards c) \<or> unat (cs_board scan) \<ge> length (cc_boards (cf_boards c)) \<or>
        hz (cs_freq scan) < low \<or> hz (cs_freq scan) > high \<or> cs_filter scan \<noteq> 234300 \<or>
        cs_offset_db scan \<noteq> Some (- 11) \<or> ts_end scan - ts_start scan > 5 \<or>
        scan_sample_total scan \<noteq> ucast (cc_samples (cf_boards c)))
       ''Invalid concentrator scan dimensions, sample count or method'') (\<lambda>_.
     case ts_position scan of
       None \<Rightarrow> Inr ()
     | Some f \<Rightarrow> bind_result (guard_err (\<not> px_valid f) ''Invalid concentrator receiver fix'') (\<lambda>_. validate_fix f))))"

text \<open>The counters, little-endian.\<close>

definition count_bytes :: "u32 \<Rightarrow> u8 list" where
  "count_bytes n = [ucast n, ucast (drop_bit 8 n), ucast (drop_bit 16 n), ucast (drop_bit 24 n)]"

definition scan_values :: "timed_scan \<Rightarrow> sql_value \<Rightarrow> row" where
  "scan_values scan fix_id =
     [int_of_u64 (cs_id scan), int_of_u32 (cs_board scan), int_of_u64 (cs_freq scan), int_of_u32 (cs_filter scan),
      number (cs_offset_db scan), SReal (ts_utc_start scan), SReal (ts_utc_end scan), SReal (ts_start scan),
      SReal (ts_end scan), int_of_u64 (scan_sample_total scan),
      SBlob (concat (map count_bytes (cs_counts scan))), fix_id]"

text \<open>\<open>ORDER BY id DESC LIMIT 1\<close>; the rows are in the order of their identities.\<close>

definition newest :: "(row \<Rightarrow> bool) \<Rightarrow> row list \<Rightarrow> row option" where
  "newest P rows = find P (rev rows)"

definition scan_follows :: "timed_scan \<Rightarrow> row list \<Rightarrow> unit result" where
  "scan_follows scan rows =
     bind_result (case newest (\<lambda>_. True) rows of
       None \<Rightarrow> Inr ()
     | Some r \<Rightarrow> bind_result (unsigned_at r 0 int64_max) (\<lambda>i.
         guard_err (cs_id scan \<le> i) ''Concentrator scan identities must increase'')) (\<lambda>_.
     case newest (\<lambda>r. column r 1 = int_of_u32 (cs_board scan)) rows of
       None \<Rightarrow> Inr ()
     | Some r \<Rightarrow> bind_result (unsigned_at r 0 int64_max) (\<lambda>i.
         bind_result (real_at r 8) (\<lambda>stop.
         guard_err (cs_id scan \<le> i \<or> ts_start scan < stop) ''Concentrator scans overlap or are out of order'')))"

definition append_scan :: "timed_scan \<Rightarrow> unit op" where
  "append_scan scan =
     then_op (check_op (\<lambda>s. ss_version s \<noteq> 7) ''RSSI scans require a concentrator recording'') (\<lambda>_.
     then_op (with_store (\<lambda>s. yield_op (validate_concentrator_scan (ss_config s) scan))) (\<lambda>_.
     then_op begin_batch (\<lambda>_.
     then_op (with_store (\<lambda>s. yield_op (scan_follows scan (tb_scans s)))) (\<lambda>_.
     then_op (case ts_position scan of
         None \<Rightarrow> yield_op (Inr SNull)
       | Some f \<Rightarrow> then_op (ensure_fix f) (\<lambda>k. yield_op (Inr (SInt k)))) (\<lambda>fix_id s.
     case add_row (scan_values scan fix_id) (tb_scans s) of
       Inl e \<Rightarrow> (Inl e, s)
     | Inr rows \<Rightarrow> (Inr (), s\<lparr>tb_scans := rows\<rparr>))))))"


section \<open>Any sequence of records\<close>

datatype record_op =
    Add_Reception reception
  | Add_Position position_fix
  | Add_Window survey_window
  | Add_Tile spectrum_tile
  | Add_Event spectrum_event
  | Add_Gap coverage_gap
  | Add_Waveform waveform_observation
  | Add_Discovery_Gap discovery_gap
  | Add_Scan timed_scan

fun perform :: "math_library \<Rightarrow> record_op \<Rightarrow> unit op" where
  "perform ma (Add_Reception r) = append_reception r"
| "perform ma (Add_Position f) = append_position f"
| "perform ma (Add_Window w) = append_window w"
| "perform ma (Add_Tile t) = append_tile ma t"
| "perform ma (Add_Event e) = append_event e"
| "perform ma (Add_Gap g) = append_gap ma g"
| "perform ma (Add_Waveform w) = append_waveform w"
| "perform ma (Add_Discovery_Gap g) = append_discovery_gap g"
| "perform ma (Add_Scan sc) = append_scan sc"

definition record_all :: "math_library \<Rightarrow> record_op list \<Rightarrow> session_store \<Rightarrow> session_store" where
  "record_all ma ops s = fold (\<lambda>op s. snd (perform ma op s)) ops s"

section \<open>What an operation leaves as it was\<close>

definition keeps :: "(session_store \<Rightarrow> bool) \<Rightarrow> 'a op \<Rightarrow> bool" where
  "keeps P m \<longleftrightarrow> (\<forall>s. P s \<longrightarrow> P (snd (m s)))"

named_theorems keep_rules "operations that keep a condition, composed"

lemma keeps_then [keep_rules]:
  assumes "keeps P m" "\<And>x. keeps P (f x)"
  shows "keeps P (then_op m f)"
  unfolding keeps_def
proof (intro allI impI)
  fix s assume "P s"
  obtain r s' where m: "m s = (r, s')" by fastforce
  then have s': "P s'" using assms(1) \<open>P s\<close> unfolding keeps_def by (metis snd_conv)
  show "P (snd (then_op m f s))"
  proof (cases r)
    case (Inl e)
    then show ?thesis using s' by (simp add: then_op_def m)
  next
    case (Inr x)
    then show ?thesis using s' assms(2) [of x] by (simp add: then_op_def m keeps_def)
  qed
qed

lemma keeps_plain [keep_rules]:
  "keeps P (yield_op r)" "keeps P (check_op bad msg)"
  by (simp_all add: keeps_def yield_op_def check_op_def)

lemma keeps_with [keep_rules]: "(\<And>s0. keeps P (f s0)) \<Longrightarrow> keeps P (with_store f)"
  by (simp add: keeps_def with_store_def)

lemma keeps_change: "(\<And>s. P s \<Longrightarrow> P (h s)) \<Longrightarrow> keeps P (change_op h)"
  by (simp add: keeps_def change_op_def)

lemma keeps_store [keep_rules]:
  "(\<And>s rows. P s \<Longrightarrow> X s = Inr rows \<Longrightarrow> P (h rows s)) \<Longrightarrow>
    keeps P (\<lambda>s. case X s of Inl e \<Rightarrow> (Inl e, s) | Inr rows \<Rightarrow> (Inr y, h rows s))"
  by (simp add: keeps_def split: sum.splits)

lemma keeps_if [keep_rules]: "keeps P m \<Longrightarrow> keeps P n \<Longrightarrow> keeps P (if c then m else n)"
  by simp

lemma keeps_option [keep_rules]:
  "keeps P m \<Longrightarrow> (\<And>x. keeps P (n x)) \<Longrightarrow> keeps P (case q of None \<Rightarrow> m | Some x \<Rightarrow> n x)"
  by (cases q) simp_all

lemma keeps_all: "(\<And>op. keeps P (perform ma op)) \<Longrightarrow> P s \<Longrightarrow> P (record_all ma ops s)"
  unfolding record_all_def
  by (induction ops arbitrary: s) (simp_all add: keeps_def)

text \<open>A condition on the tables alone is kept by what changes only the bookkeeping.\<close>

definition steady :: "(session_store \<Rightarrow> bool) \<Rightarrow> bool" where
  "steady P \<longleftrightarrow>
     (\<forall>s. P s \<longrightarrow> (\<forall>b. P (s\<lparr>ss_pending := b\<rparr>)) \<and> (\<forall>b. P (s\<lparr>ss_power := b\<rparr>)) \<and> (\<forall>b. P (s\<lparr>ss_recent := b\<rparr>)) \<and>
       (\<forall>t. P (s\<lparr>tb_power := t\<rparr>)))"

lemma steady_begin: "steady P \<Longrightarrow> keeps P begin_batch"
  unfolding begin_batch_def by (intro keep_rules keeps_change) (simp add: steady_def)

lemma steady_power: "steady P \<Longrightarrow> keeps P (save_power_block ma)"
  unfolding save_power_block_def Let_def by (intro keep_rules keeps_change) (simp_all add: steady_def)

lemma keeps_insert_position:
  assumes "\<And>s k. P s \<Longrightarrow> P (s\<lparr>tb_positions := tb_positions s @ [(k, f)]\<rparr>)"
  shows "keeps P (insert_position f)"
  unfolding insert_position_def by (intro keep_rules) (simp add: keeps_def assms)

lemma keeps_ensure_fix:
  assumes "steady P" "\<And>s k f. P s \<Longrightarrow> P (s\<lparr>tb_positions := tb_positions s @ [(k, f)]\<rparr>)"
  shows "keeps P (ensure_fix f)"
proof -
  have i: "keeps P (insert_position f)" using assms(2) by (rule keeps_insert_position)
  have l: "keeps P (\<lambda>s. case find (\<lambda>(k, a). same_fix a f) (tb_positions s) of
      Some (k, _) \<Rightarrow> (Inr k, s) | None \<Rightarrow> insert_position f s)"
    using i by (auto simp: keeps_def split: option.splits)
  have r: "keeps P (change_op (remember_fix f k))" for k
    using assms(1) by (intro keeps_change) (simp add: steady_def remember_fix_def Let_def)
  have t: "keeps P (then_op (\<lambda>s. case find (\<lambda>(k, a). same_fix a f) (tb_positions s) of
      Some (k, _) \<Rightarrow> (Inr k, s) | None \<Rightarrow> insert_position f s)
      (\<lambda>k. then_op (change_op (remember_fix f k)) (\<lambda>_. yield_op (Inr k))))"
    by (intro keep_rules l r)
  then show ?thesis
    unfolding ensure_fix_def
    by (intro keeps_then keeps_plain) (use t in \<open>auto simp: keeps_def split: option.splits\<close>)
qed

lemma keeps_reference:
  assumes "steady P" "\<And>s k f. P s \<Longrightarrow> P (s\<lparr>tb_positions := tb_positions s @ [(k, f)]\<rparr>)"
  shows "keeps P (fix_reference p)"
  unfolding fix_reference_def by (intro keep_rules keeps_ensure_fix [OF assms])

lemma keeps_columns:
  assumes "steady P" "\<And>s k f. P s \<Longrightarrow> P (s\<lparr>tb_positions := tb_positions s @ [(k, f)]\<rparr>)"
  shows "keeps P (compact_columns ma t)" "keeps P (detailed_columns t)"
proof -
  have p: "keeps P (change_op (\<lambda>s. s\<lparr>ss_power := h s\<rparr>))" for h
    using assms(1) by (intro keeps_change) (simp add: steady_def)
  show "keeps P (compact_columns ma t)"
    unfolding compact_columns_def
    by (intro keep_rules p steady_power [OF assms(1)] keeps_reference [OF assms])
  show "keeps P (detailed_columns t)" unfolding detailed_columns_def by (rule keep_rules)
qed

text \<open>Each operation keeps what its own table does not touch.\<close>

lemma keeps_appends:
  assumes P: "steady P" "\<And>s k f. P s \<Longrightarrow> P (s\<lparr>tb_positions := tb_positions s @ [(k, f)]\<rparr>)"
  shows "keeps P (append_position f)"
    "(\<And>s a b. P s \<Longrightarrow> P (s\<lparr>tb_windows := a, tb_window_bins := b\<rparr>)) \<Longrightarrow> keeps P (append_window w)"
    "(\<And>s a i b t. P s \<Longrightarrow> P (s\<lparr>tb_tiles := a, ss_tile_id := i, ss_tile_end := b, ss_tile_elapsed := t\<rparr>)) \<Longrightarrow>
      keeps P (append_tile ma tile)"
    "(\<And>s a. P s \<Longrightarrow> P (s\<lparr>tb_events := a\<rparr>)) \<Longrightarrow> keeps P (append_event e)"
    "(\<And>s a. P s \<Longrightarrow> P (s\<lparr>tb_gaps := a\<rparr>)) \<Longrightarrow> keeps P (append_gap ma g)"
    "(\<And>s a. P s \<Longrightarrow> P (s\<lparr>tb_waveforms := a\<rparr>)) \<Longrightarrow> keeps P (append_waveform v)"
    "(\<And>s a. P s \<Longrightarrow> P (s\<lparr>tb_discovery_gaps := a\<rparr>)) \<Longrightarrow> keeps P (append_discovery_gap d)"
    "(\<And>s a. P s \<Longrightarrow> P (s\<lparr>tb_scans := a\<rparr>)) \<Longrightarrow> keeps P (append_scan sc)"
proof -
  note ks = keep_rules steady_begin [OF P(1)] steady_power [OF P(1)] keeps_ensure_fix [OF P] keeps_columns [OF P]
    keeps_insert_position [of P, OF P(2)]
  have block: "keeps P (change_op (\<lambda>s. s\<lparr>ss_power := fresh_block (pb_id (ss_power s))\<rparr>))"
    using P(1) by (intro keeps_change) (simp add: steady_def)
  show "keeps P (append_position f)" unfolding append_position_def by (intro ks)
  show "keeps P (append_window w)" if "\<And>s a b. P s \<Longrightarrow> P (s\<lparr>tb_windows := a, tb_window_bins := b\<rparr>)"
    unfolding append_window_def by (intro ks that)
  show "keeps P (append_tile ma tile)"
    if "\<And>s a i b t. P s \<Longrightarrow> P (s\<lparr>tb_tiles := a, ss_tile_id := i, ss_tile_end := b, ss_tile_elapsed := t\<rparr>)"
    unfolding append_tile_def by (intro ks that)
  show "keeps P (append_event e)" if "\<And>s a. P s \<Longrightarrow> P (s\<lparr>tb_events := a\<rparr>)"
    unfolding append_event_def by (intro ks that)
  show "keeps P (append_gap ma g)" if "\<And>s a. P s \<Longrightarrow> P (s\<lparr>tb_gaps := a\<rparr>)"
    unfolding append_gap_def by (intro ks block that)
  show "keeps P (append_waveform v)" if "\<And>s a. P s \<Longrightarrow> P (s\<lparr>tb_waveforms := a\<rparr>)"
    unfolding append_waveform_def by (intro ks that)
  show "keeps P (append_discovery_gap d)" if "\<And>s a. P s \<Longrightarrow> P (s\<lparr>tb_discovery_gaps := a\<rparr>)"
    unfolding append_discovery_gap_def by (intro ks that)
  show "keeps P (append_scan sc)" if "\<And>s a. P s \<Longrightarrow> P (s\<lparr>tb_scans := a\<rparr>)"
    unfolding append_scan_def by (intro ks that)
qed

section \<open>Receptions\<close>

definition receptions_ok :: "session_store \<Rightarrow> bool" where
  "receptions_ok s \<longleftrightarrow> distinct (map (\<lambda>r. column r 0) (tb_receptions s)) \<and>
     (\<forall>r\<in>set (tb_receptions s). \<exists>x. reception_row x = Inr r)"

lemma receptions_frame:
  "steady receptions_ok" "receptions_ok s \<Longrightarrow> receptions_ok (s\<lparr>tb_positions := ps\<rparr>)"
  by (simp_all add: steady_def receptions_ok_def)

lemma add_row_keys:
  assumes "add_row vs rows = Inr rows'"
  shows "rows' = rows @ [vs]" "insert_row vs = Inr vs" "column vs 0 \<notin> (\<lambda>r. column r 0) ` set rows"
proof -
  obtain r where r: "insert_row vs = Inr r" "\<not> has_key (column r 0) rows" "rows' = rows @ [r]"
    using assms by (auto simp: add_row_def bind_result_Inr split: if_splits)
  then have "r = vs" by (simp add: insert_row_Inr)
  with r show "rows' = rows @ [vs]" "insert_row vs = Inr vs" "column vs 0 \<notin> (\<lambda>r. column r 0) ` set rows"
    by (auto simp: has_key_def list_ex_iff)
qed

lemma receptions_kept: "keeps receptions_ok (append_reception r)"
proof (cases "validate_reception r")
  case (Inl e)
  then show ?thesis by (simp add: append_reception_def then_op_def yield_op_def keeps_def)
next
  case (Inr u)
  have ins: "keeps receptions_ok (insert_reception r)"
    unfolding keeps_def
  proof (intro allI impI)
    fix s assume s: "receptions_ok s"
    show "receptions_ok (snd (insert_reception r s))"
    proof (cases "add_row (reception_values r) (tb_receptions s)")
      case (Inl e)
      then show ?thesis using s by (simp add: insert_reception_def)
    next
      case (Inr rows)
      note new = add_row_keys [OF Inr]
      have "reception_row r = Inr (reception_values r)"
        using new(2) \<open>validate_reception r = Inr u\<close> by (simp add: reception_row_def)
      then have ok: "receptions_ok (s\<lparr>tb_receptions := rows\<rparr>)"
        using s new(1,3) by (auto simp: receptions_ok_def)
      then have "receptions_ok (s\<lparr>tb_receptions := rows, tb_packets := ps\<rparr>)" for ps
        by (simp add: receptions_ok_def)
      with ok s show ?thesis
        by (auto simp: insert_reception_def Inr split: option.splits sum.splits)
    qed
  qed
  show ?thesis
    unfolding append_reception_def by (intro keep_rules steady_begin [OF receptions_frame(1)] ins)
qed

lemma receptions_ok_perform: "keeps receptions_ok (perform ma op)"
proof -
  have f: "receptions_ok s \<Longrightarrow> receptions_ok (s\<lparr>tb_positions := tb_positions s @ [(k, p)]\<rparr>)" for s k p
    by (rule receptions_frame(2))
  show ?thesis
    by (cases op; simp only: perform.simps)
      (rule receptions_kept keeps_appends [OF receptions_frame(1) f]; (assumption | simp add: receptions_ok_def)?)+
qed

end
