(* ===== verification/Acquisitions.thy ===== *)
theory Acquisitions
  imports SessionStore
begin

text \<open>
  Creating a recording and the history of its acquisitions (\<open>storage.cpp\<close>): the checks before
  the file is made, the extension that keeps the receiver settings of every uninterrupted
  acquisition, the start of an acquisition, and the reader that accepts only a history
  without overlap. The tables of acquisitions are kept as typed rows, like the others.
\<close>

section \<open>Creating a recording\<close>

definition check_recording :: "receiver_config \<Rightarrow> unit result" where
  "check_recording c =
     bind_result (if is_rak c then
       bind_result (validate_concentrator_config (cf_boards c) (cf_center c) (cf_span c) (cf_offset c) False) (\<lambda>_.
       guard_err (cf_discover c \<or> cf_rate c \<noteq> 0 \<or> cf_lanes c \<noteq> [])
         ''Concentrator configuration must not claim SDR sampling or software discovery'')
       else Inr ()) (\<lambda>_.
     bind_result (tuned_center_hz c) (\<lambda>_.
     bind_result (guard_err (cf_automatic c \<and> \<not> cf_discover c)
       ''Automatic decoding requires waveform discovery'') (\<lambda>_.
     bind_result (guard_err
       ((\<not> is_rak c \<and> (cf_rate c < 1000000 \<or> cf_rate c > 20000000 \<or> cf_span c = 0 \<or> cf_span c > cf_rate c)) \<or>
        length (cf_antenna c) > 512 \<or> length (cf_receiver c) > 512 \<or> length (cf_notes c) > 2048)
       ''Invalid survey configuration or notes'') (\<lambda>_.
     bind_result (guard_err (cf_hardware c \<noteq> HackRf \<and> cf_hardware c \<noteq> RtlSdr \<and> \<not> is_rak c)
       ''Unsupported survey receiver'') (\<lambda>_.
     guard_err
       (is_rtl c \<and> ((cf_rate c \<noteq> 1000000 \<and> cf_rate c \<noteq> 2000000) \<or> cf_amp c \<or> cf_span c < 500000 \<or>
         cf_span c > cf_rate c * 4 div 5 \<or>
         (cf_discover c \<and> (cf_rate c \<noteq> 2000000 \<or> cf_span c > 1500000)) \<or>
         cf_rtl_gain c < - 100 \<or> cf_rtl_gain c > 600))
       ''Invalid RTL-SDR recording configuration'')))))"

text \<open>
  The session after \<open>create\<close>: the path is one that \<open>ensure_local_path\<close> accepts and the file
  and its tables could be made, which the file system decides.
\<close>

definition new_session :: "receiver_config \<Rightarrow> session_store" where
  "new_session c =
     \<lparr>ss_open = True, ss_version = (if is_rak c then 7 else if cf_compact c then 6 else 5), ss_readonly = False,
      ss_pending = False, ss_config = c, ss_segmented = False, ss_acquisition = 0, ss_tile_end = 0, ss_tile_id = 0,
      ss_tile_elapsed = 0, ss_power = new_power_block, ss_recent = [], tb_receptions = [], tb_packets = [],
      tb_positions = [], tb_windows = [], tb_window_bins = [], tb_power = [], tb_tiles = [], tb_events = [],
      tb_gaps = [], tb_waveforms = [], tb_discovery_gaps = [], tb_scans = [], tb_acquisitions = [], tb_lanes = [],
      tb_automatic = []\<rparr>"

definition create_session :: "receiver_config \<Rightarrow> session_store result" where
  "create_session c =
     bind_result (check_recording c) (\<lambda>_.
     bind_result (automatic_row 0 (new_automatic_status\<lparr>au_available := True, au_enabled := cf_automatic c\<rparr>)) (\<lambda>decoder.
     Inr ((new_session c)\<lparr>tb_automatic := [decoder]\<rparr>)))"

section \<open>The extension\<close>

definition enable_acquisitions :: "unit op" where
  "enable_acquisitions =
     then_op (check_op (\<lambda>s. \<not> ss_open s \<or> ss_readonly s)
       ''Acquisition history requires a new writable recording'') (\<lambda>_.
     with_store (\<lambda>s0.
       if ss_segmented s0 then yield_op (Inr ())
       else
         then_op (check_op (\<lambda>s. tb_tiles s \<noteq> [])
           ''Cannot retrofit acquisition provenance onto existing measurements'') (\<lambda>_.
         then_op begin_batch (\<lambda>_.
         change_op (\<lambda>s. s\<lparr>ss_pending := False, ss_segmented := True\<rparr>)))))"

section \<open>Segments\<close>

definition lane_profile_bad :: "lane_config \<Rightarrow> bool" where
  "lane_profile_bad l \<longleftrightarrow>
     length (ln_label l) > 160 \<or> length (ln_channel l) > 160 \<or> \<not> valid_utf8 (ln_label l) \<or> \<not> valid_utf8 (ln_channel l) \<or>
     ln_freq l > 6000000000 \<or> (ln_protocol l \<noteq> ''Meshtastic'' \<and> ln_protocol l \<noteq> ''MeshCore'') \<or>
     \<not> supported_lora_bandwidth (unat (ln_bw l)) \<or> ln_sf l < 7 \<or> ln_sf l > 12 \<or> ln_cr l < 5 \<or> ln_cr l > 8"

definition settings_bad :: "receiver_config \<Rightarrow> bool" where
  "settings_bad c \<longleftrightarrow>
     cf_lna c > 40 \<or> cf_lna c mod 8 \<noteq> 0 \<or> cf_vga c > 62 \<or> cf_vga c mod 2 \<noteq> 0 \<or>
     (case cf_threshold c of None \<Rightarrow> True | Some t \<Rightarrow> t < - 140 \<or> t > 0) \<or>
     cf_rtl_gain c < - 100 \<or> cf_rtl_gain c > 600 \<or> length (cf_lanes c) > 4 \<or>
     length (cf_antenna c) > 512 \<or> length (cf_receiver c) > 512 \<or> length (cf_notes c) > 2048 \<or>
     \<not> valid_utf8 (cf_antenna c) \<or> \<not> valid_utf8 (cf_receiver c) \<or> \<not> valid_utf8 (cf_notes c)"

text \<open>Spans and rates are 32-bit unsigned, edges 64-bit.\<close>

definition validate_acquisition :: "acquisition_segment \<Rightarrow> receiver_config \<Rightarrow> unit result" where
  "validate_acquisition segment legacy =
     (let c = sg_config segment in
     bind_result (nonnegative (sg_start segment) ''acquisition start'') (\<lambda>_.
     bind_result (nonnegative (sg_end segment) ''acquisition end'') (\<lambda>_.
     bind_result (guard_err (sg_id segment = 0 \<or> sg_id segment > 2048 \<or> sg_end segment < sg_start segment \<or>
         sg_end segment > 10000000000)
       ''Invalid acquisition interval'') (\<lambda>_.
     bind_result (guard_err (cf_synthetic c \<noteq> cf_synthetic legacy \<or> cf_hardware c \<noteq> cf_hardware legacy \<or>
         cf_compact c \<noteq> cf_compact legacy)
       ''A survey cannot mix synthetic and physical receiver types or storage encodings'') (\<lambda>_.
     bind_result (tuned_center_hz c) (\<lambda>_.
     bind_result (guard_err (cf_automatic c \<and> \<not> cf_discover c)
       ''Automatic decoding requires waveform discovery'') (\<lambda>_.
     bind_result (guard_err
       (is_rak c \<and> (cf_rate c \<noteq> 0 \<or> cf_discover c \<or> cf_lanes c \<noteq> [] \<or> cf_center c \<noteq> cf_center legacy \<or>
         cf_span c \<noteq> cf_span legacy \<or> cf_offset c \<noteq> cf_offset legacy))
       ''Concentrator acquisition must retain its fixed scan configuration'') (\<lambda>_.
     bind_result (guard_err
       (\<not> is_rak c \<and> (cf_rate c < 1000000 \<or> cf_rate c > 20000000 \<or> cf_span c < 500000 \<or>
         cf_span c > cf_rate c * 4 div 5 \<or> cf_center c < ucast (cf_span c div 2) \<or>
         cf_center c + ucast (cf_span c div 2) > 6000000000))
       ''Invalid acquisition frequency or sample configuration'') (\<lambda>_.
     bind_result (guard_err (settings_bad c) ''Invalid acquisition receiver settings'') (\<lambda>_.
     bind_result (guard_err
       (is_rtl c \<and> ((cf_rate c \<noteq> 1000000 \<and> cf_rate c \<noteq> 2000000) \<or> cf_amp c \<or>
         (cf_discover c \<and> (cf_rate c \<noteq> 2000000 \<or> cf_span c > 1500000))))
       ''Invalid acquisition RTL-SDR settings'') (\<lambda>_.
     for_each (\<lambda>_ l. guard_err (lane_profile_bad l) ''Invalid acquisition decoder profile'') 0 (cf_lanes c))))))))))))"

definition hardware_code :: "hardware_receiver \<Rightarrow> int" where
  "hardware_code h = (case h of HackRf \<Rightarrow> 0 | RtlSdr \<Rightarrow> 1 | Rak5146 \<Rightarrow> 2)"

definition segment_values :: "acquisition_segment \<Rightarrow> row" where
  "segment_values a =
     (let c = sg_config a in
      [int_of_u64 (sg_id a), SReal (sg_start a), SReal (sg_end a), int_of_bool (sg_finalized a),
       int_of_bool (cf_synthetic c), SInt (hardware_code (cf_hardware c)), int_of_u64 (cf_center c),
       int_of_u32 (cf_rate c), int_of_u32 (cf_span c), int_of_u32 (cf_lna c), int_of_u32 (cf_vga c),
       int_of_bool (cf_amp c), number (cf_threshold c), SInt (cf_offset c), SInt (cf_rtl_gain c),
       int_of_bool (cf_rtl_auto c), int_of_bool (cf_discover c), SText (cf_antenna c), SText (cf_receiver c),
       SText (cf_notes c)])"

definition lane_values :: "u64 \<Rightarrow> nat \<Rightarrow> lane_config \<Rightarrow> row" where
  "lane_values i k l =
     [int_of_u64 i, SInt (int k), SText (ln_label l), SText (ln_channel l), SText (ln_protocol l),
      int_of_u64 (ln_freq l), int_of_u32 (ln_bw l), SInt (uint (ln_sf l)), SInt (uint (ln_cr l)),
      int_of_bool (ln_enabled l)]"

fun lane_rows :: "u64 \<Rightarrow> nat \<Rightarrow> lane_config list \<Rightarrow> row list result" where
  "lane_rows i k [] = Inr []"
| "lane_rows i k (l # ls) =
     bind_result (insert_row (lane_values i k l)) (\<lambda>r.
     bind_result (lane_rows i (Suc k) ls) (\<lambda>rs. Inr (r # rs)))"

text \<open>\<open>ORDER BY id DESC LIMIT 1\<close> on a table whose rows are in the order of their identities.\<close>

definition previous_segment :: "acquisition_segment \<Rightarrow> row list \<Rightarrow> unit result" where
  "previous_segment segment rows =
     (case rows of
        [] \<Rightarrow> Inr ()
      | _ \<Rightarrow>
          let r = last rows in
          bind_result (unsigned_at r 0 uint32_max) (\<lambda>i.
          bind_result (boolean_at r 3) (\<lambda>finalized.
          bind_result (real_at r 2) (\<lambda>stop.
          guard_err (sg_id segment \<noteq> i + 1 \<or> \<not> finalized \<or> sg_start segment < stop - 1 / 100000000)
            ''Previous acquisition must be finalized before resuming''))))"

definition replace_decoder :: "u64 \<Rightarrow> row \<Rightarrow> session_store \<Rightarrow> session_store" where
  "replace_decoder i d s = s\<lparr>tb_automatic := filter (\<lambda>r. column r 0 \<noteq> int_of_u64 i) (tb_automatic s) @ [d]\<rparr>"

definition save_automatic :: "u64 \<Rightarrow> automatic_status \<Rightarrow> unit op" where
  "save_automatic i st =
     (\<lambda>s. case automatic_row i st of
        Inl e \<Rightarrow> (Inl e, s)
      | Inr d \<Rightarrow> (Inr (), replace_decoder i d s))"

definition begin_acquisition :: "math_library \<Rightarrow> acquisition_segment \<Rightarrow> unit op" where
  "begin_acquisition ma segment =
     then_op (check_op (\<lambda>s. \<not> ss_segmented s \<or> ss_readonly s)
       ''This recording cannot be resumed without acquisition provenance'') (\<lambda>_.
     then_op (with_store (\<lambda>s. yield_op (validate_acquisition segment (ss_config s)))) (\<lambda>_.
     then_op (with_store (\<lambda>s. yield_op (previous_segment segment (tb_acquisitions s)))) (\<lambda>_.
     then_op (check_op (\<lambda>s. ss_acquisition s = 0 \<and> sg_id segment \<noteq> 1)
       ''New acquisition history must start at one'') (\<lambda>_.
     then_op begin_batch (\<lambda>_.
     then_op (save_power_block ma) (\<lambda>_.
     then_op (change_op (\<lambda>s. s\<lparr>ss_power := fresh_block (pb_id (ss_power s))\<rparr>)) (\<lambda>_.
     then_op (\<lambda>s. case add_row (segment_values segment) (tb_acquisitions s) of
         Inl e \<Rightarrow> (Inl e, s)
       | Inr rows \<Rightarrow> (Inr (), s\<lparr>tb_acquisitions := rows\<rparr>)) (\<lambda>_.
     then_op (\<lambda>s. case lane_rows (sg_id segment) 0 (cf_lanes (sg_config segment)) of
         Inl e \<Rightarrow> (Inl e, s)
       | Inr rows \<Rightarrow> (Inr (), s\<lparr>tb_lanes := tb_lanes s @ rows\<rparr>)) (\<lambda>_.
     then_op (change_op (\<lambda>s. s\<lparr>tb_automatic := filter (\<lambda>r. column r 0 \<noteq> int_of_u64 0) (tb_automatic s)\<rparr>)) (\<lambda>_.
     then_op (save_automatic (sg_id segment)
         (new_automatic_status\<lparr>au_available := True, au_enabled := cf_automatic (sg_config segment)\<rparr>)) (\<lambda>_.
     change_op (\<lambda>s. s\<lparr>ss_config := sg_config segment, ss_acquisition := sg_id segment, ss_pending := False\<rparr>))))))))))))"

text \<open>What \<open>update\<close> writes to the current acquisition.\<close>

definition finish_acquisition :: "rat \<Rightarrow> bool \<Rightarrow> session_store \<Rightarrow> session_store" where
  "finish_acquisition elapsed final s =
     (if ss_segmented s \<and> ss_acquisition s \<noteq> 0 then
        s\<lparr>tb_acquisitions := map (\<lambda>r. if column r 0 = int_of_u64 (ss_acquisition s)
            then r[2 := SReal elapsed, 3 := int_of_bool final] else r) (tb_acquisitions s)\<rparr>
      else s)"

section \<open>Reading the history\<close>

definition hardware_of :: "u64 \<Rightarrow> hardware_receiver" where
  "hardware_of v = (if v = 0 then HackRf else if v = 1 then RtlSdr else Rak5146)"

fun lanes_from :: "lane_config list \<Rightarrow> row list \<Rightarrow> lane_config list result" where
  "lanes_from sofar [] = Inr sofar"
| "lanes_from sofar (r # rs) =
     bind_result (unsigned_at r 1 4) (\<lambda>k.
     bind_result (guard_err (unat k \<noteq> length sofar) ''Invalid acquisition lane index'') (\<lambda>_.
     bind_result (text_at r 2) (\<lambda>label.
     bind_result (text_at r 3) (\<lambda>channel.
     bind_result (text_at r 4) (\<lambda>proto.
     bind_result (unsigned_at r 5 6000000000) (\<lambda>freq.
     bind_result (unsigned_at r 6 500000) (\<lambda>bw.
     bind_result (unsigned_at r 7 12) (\<lambda>sf.
     bind_result (unsigned_at r 8 8) (\<lambda>cr.
     bind_result (boolean_at r 9) (\<lambda>enabled.
     lanes_from (sofar @ [\<lparr>ln_label = label, ln_channel = channel, ln_protocol = proto, ln_freq = freq,
       ln_bw = ucast bw, ln_sf = ucast sf, ln_cr = ucast cr, ln_enabled = enabled\<rparr>]) rs))))))))))"

definition segment_from :: "session_store \<Rightarrow> receiver_config \<Rightarrow> row \<Rightarrow> acquisition_segment result" where
  "segment_from s legacy r =
     bind_result (unsigned_at r 0 2048) (\<lambda>i.
     bind_result (real_at r 1) (\<lambda>start.
     bind_result (real_at r 2) (\<lambda>stop.
     bind_result (boolean_at r 3) (\<lambda>finalized.
     bind_result (boolean_at r 4) (\<lambda>synthetic.
     bind_result (unsigned_at r 5 2) (\<lambda>hardware.
     bind_result (unsigned_at r 6 6000000000) (\<lambda>center.
     bind_result (unsigned_at r 7 20000000) (\<lambda>rate.
     bind_result (unsigned_at r 8 26000000) (\<lambda>wid.
     bind_result (unsigned_at r 9 40) (\<lambda>lna.
     bind_result (unsigned_at r 10 62) (\<lambda>vga.
     bind_result (boolean_at r 11) (\<lambda>amp.
     bind_result (real_at r 12) (\<lambda>threshold.
     bind_result (integer_at r 13) (\<lambda>offset.
     bind_result (integer_at r 14) (\<lambda>gain.
     bind_result (guard_err (gain < - 100 \<or> gain > 600) ''Invalid acquisition RTL gain'') (\<lambda>_.
     bind_result (boolean_at r 15) (\<lambda>auto.
     bind_result (boolean_at r 16) (\<lambda>discover.
     bind_result (text_at r 17) (\<lambda>antenna.
     bind_result (text_at r 18) (\<lambda>receiver.
     bind_result (text_at r 19) (\<lambda>notes.
     bind_result (lanes_from [] (take 5 (filter (\<lambda>l. column l 0 = int_of_u64 i) (tb_lanes s)))) (\<lambda>lanes.
     bind_result (case find (\<lambda>d. column d 0 = int_of_u64 i) (tb_automatic s) of
         None \<Rightarrow> Inl ''Missing acquisition decoder metadata''
       | Some d \<Rightarrow> automatic_from d) (\<lambda>decoder.
     let a = \<lparr>sg_id = i, sg_start = start, sg_end = stop, sg_finalized = finalized,
       sg_config = legacy\<lparr>cf_serial := [], cf_path := [], cf_synthetic := synthetic,
         cf_hardware := hardware_of hardware, cf_center := center, cf_rate := ucast rate, cf_span := ucast wid,
         cf_lna := ucast lna, cf_vga := ucast vga, cf_amp := amp, cf_threshold := Some threshold, cf_offset := offset,
         cf_rtl_gain := gain, cf_rtl_auto := auto, cf_discover := discover, cf_antenna := antenna,
         cf_receiver := receiver, cf_notes := notes, cf_lanes := lanes, cf_automatic := au_enabled decoder\<rparr>\<rparr>
     in bind_result (validate_acquisition a legacy) (\<lambda>_. Inr a))))))))))))))))))))))))"

fun history_from :: "session_store \<Rightarrow> receiver_config \<Rightarrow> acquisition_segment list \<Rightarrow> row list \<Rightarrow> acquisition_segment list result" where
  "history_from s legacy sofar [] = Inr sofar"
| "history_from s legacy sofar (r # rs) =
     bind_result (segment_from s legacy r) (\<lambda>a.
     bind_result (guard_err (unat (sg_id a) \<noteq> length sofar + 1 \<or>
         (sofar \<noteq> [] \<and> (\<not> sg_finalized (last sofar) \<or> sg_start a < sg_end (last sofar) - 1 / 100000000)))
       ''Overlapping or unordered acquisition history'') (\<lambda>_.
     history_from s legacy (sofar @ [a]) rs))"

definition orphan_decoder :: "session_store \<Rightarrow> bool" where
  "orphan_decoder s \<longleftrightarrow> list_ex (\<lambda>d. \<not> has_key (column d 0) (tb_acquisitions s)) (tb_automatic s)"

definition orphan_lane :: "session_store \<Rightarrow> bool" where
  "orphan_lane s \<longleftrightarrow> list_ex (\<lambda>l. \<not> has_key (column l 0) (tb_acquisitions s)) (tb_lanes s)"

definition acquisitions :: "session_store \<Rightarrow> receiver_config \<Rightarrow> acquisition_segment list result" where
  "acquisitions s legacy =
     (if \<not> ss_segmented s then Inr []
      else
        bind_result (history_from s legacy [] (take 2049 (tb_acquisitions s))) (\<lambda>sofar.
        bind_result (guard_err (orphan_decoder s \<and> sofar \<noteq> []) ''Orphan automatic decoder metadata'') (\<lambda>_.
        bind_result (guard_err (orphan_lane s) ''Orphan acquisition decoder profile'') (\<lambda>_.
        Inr sofar))))"

definition config_at :: "session_store \<Rightarrow> rat \<Rightarrow> receiver_config \<Rightarrow> receiver_config result" where
  "config_at s elapsed legacy =
     bind_result (acquisitions s legacy) (\<lambda>segments. acquisition_config_at segments legacy (Some elapsed))"

section \<open>Measurements within an acquisition\<close>

text \<open>
  The segment whose settings \<open>acquisition_config_at\<close> returns is sofar again by its address;
  here it is the last one that has started.
\<close>

definition record_config :: "acquisition_segment list \<Rightarrow> receiver_config \<Rightarrow> rat \<Rightarrow> rat \<Rightarrow> receiver_config result" where
  "record_config segments legacy from to =
     bind_result (acquisition_config_at segments legacy (Some from)) (\<lambda>c.
     bind_result (guard_err (segments \<noteq> [] \<and>
       (let a = last (takeWhile (\<lambda>s. \<not> from + time_slack < sg_start s) segments)
        in to < from \<or> (sg_finalized a \<and> to > sg_end a + 1 / 10000000)))
       ''Measurement crosses an acquisition boundary'') (\<lambda>_. Inr c))"

section \<open>Properties\<close>

text \<open>Validation looks at what an acquisition may not change of the recording.\<close>

definition same_recording :: "receiver_config \<Rightarrow> receiver_config \<Rightarrow> bool" where
  "same_recording l l' \<longleftrightarrow> cf_synthetic l = cf_synthetic l' \<and> cf_hardware l = cf_hardware l' \<and>
     cf_compact l = cf_compact l' \<and>
     (is_rak l \<longrightarrow> cf_center l = cf_center l' \<and> cf_span l = cf_span l' \<and> cf_offset l = cf_offset l')"

lemma validate_acquisition_same:
  "validate_acquisition a l = Inr () \<Longrightarrow> same_recording (sg_config a) l"
  unfolding validate_acquisition_def Let_def bind_result_Inr guard_err_Inr same_recording_def by blast

lemma validate_acquisition_legacy:
  assumes same: "same_recording l l'" and v: "validate_acquisition a l = Inr ()"
  shows "validate_acquisition a l' = Inr ()"
proof -
  have s: "same_recording (sg_config a) l'"
    using same validate_acquisition_same [OF v] unfolding same_recording_def by metis
  let ?c = "sg_config a"
  have "\<not> (cf_synthetic ?c \<noteq> cf_synthetic l' \<or> cf_hardware ?c \<noteq> cf_hardware l' \<or> cf_compact ?c \<noteq> cf_compact l')"
    using s unfolding same_recording_def by blast
  moreover have "\<not> (is_rak ?c \<and> (cf_rate ?c \<noteq> 0 \<or> cf_discover ?c \<or> cf_lanes ?c \<noteq> [] \<or> cf_center ?c \<noteq> cf_center l' \<or>
         cf_span ?c \<noteq> cf_span l' \<or> cf_offset ?c \<noteq> cf_offset l'))"
    using s v unfolding validate_acquisition_def Let_def bind_result_Inr guard_err_Inr same_recording_def by metis
  ultimately show ?thesis
    using v unfolding validate_acquisition_def Let_def bind_result_Inr guard_err_Inr by blast
qed

lemma lane_read_back:
  assumes rows: "lane_rows i k ls = Inr rs" and good: "\<forall>l\<in>set ls. \<not> lane_profile_bad l"
    and k: "length front = k" "k + length ls \<le> 5"
  shows "lanes_from front rs = Inr (front @ ls) \<and> length rs = length ls \<and> (\<forall>r\<in>set rs. column r 0 = int_of_u64 i)"
  using assms
proof (induction ls arbitrary: k rs front)
  case Nil
  then show ?case by simp
next
  case (Cons l ls)
  from Cons.prems(1) obtain r rest where r: "insert_row (lane_values i k l) = Inr r" "lane_rows i (Suc k) ls = Inr rest"
    "rs = r # rest"
    by (auto simp: bind_result_Inr)
  then have v: "r = lane_values i k l" and b: "\<forall>v\<in>set (lane_values i k l). bind_value v = Inr ()"
    by (simp_all add: insert_row_Inr)
  have t: "bind_value (SText (ln_label l)) = Inr ()" "bind_value (SText (ln_channel l)) = Inr ()"
    "bind_value (SText (ln_protocol l)) = Inr ()"
    using b by (simp_all add: lane_values_def)
  have g: "\<not> lane_profile_bad l" using Cons.prems(2) by simp
  then have f: "ln_freq l \<le> 6000000000" "ln_sf l \<le> 12" "ln_cr l \<le> 8" and w: "supported_lora_bandwidth (unat (ln_bw l))"
    by (simp_all add: lane_profile_bad_def not_less)
  have "unat (ln_bw l) \<le> 500000" using w by (auto simp: supported_lora_bandwidth_def)
  then have bw: "uint (ln_bw l) \<le> 500000" using uint_nat [of "ln_bw l"] by linarith
  have sf: "uint (ln_sf l) \<le> 12" "uint (ln_cr l) \<le> 8"
    using f(2,3) by (simp_all add: word_le_def)
  have k: "int k \<le> 4" "k \<le> 4" using Cons.prems(4) by simp_all
  have rd: "unsigned_at r 1 4 = Inr (word_of_int (int k))" "text_at r 2 = Inr (ln_label l)"
    "text_at r 3 = Inr (ln_channel l)" "text_at r 4 = Inr (ln_protocol l)" "unsigned_at r 5 6000000000 = Inr (ln_freq l)"
    "unsigned_at r 6 500000 = Inr (ucast (ln_bw l))" "unsigned_at r 7 12 = Inr (word_of_int (uint (ln_sf l)))"
    "unsigned_at r 8 8 = Inr (word_of_int (uint (ln_cr l)))" "boolean_at r 9 = Inr (ln_enabled l)"
    using f bw sf k t by (simp_all only: readers_find, simp_all add: v lane_values_def row_simps del: of_int_of_nat_eq)
  have n: "unat (word_of_int (int k) :: u64) = k" using k(2) by (simp add: unat_of_nat)
  have u: "ucast (word_of_int (uint x) :: u64) = (x :: u8)" for x
    by (rule bit_word_eqI) (simp add: bit_ucast_iff bit_word_of_int_iff bit_uint_iff bit_imp_le_length)
  have "lanes_from front rs = lanes_from (front @ [l]) rest"
    unfolding r(3)
    by (simp only: lanes_from.simps rd bind_result_simps n u ucast_u32 guard_err_def Cons.prems(3) not_True_eq_False
        refl if_False) (cases l; simp)
  moreover have "lanes_from (front @ [l]) rest = Inr ((front @ [l]) @ ls) \<and> length rest = length ls \<and>
      (\<forall>r\<in>set rest. column r 0 = int_of_u64 i)"
    by (rule Cons.IH [OF r(2)]) (use Cons.prems in simp_all)
  ultimately show ?case
    by (simp add: r(3)) (simp add: v lane_values_def column_def)
qed

lemma segment_bounds:
  assumes v: "validate_acquisition a legacy = Inr ()" and w: "unat (cf_span legacy) \<le> 26000000"
  defines "c \<equiv> sg_config a"
  shows "sg_id a \<noteq> 0" "sg_id a \<le> 2048" "cf_synthetic c = cf_synthetic legacy" "cf_hardware c = cf_hardware legacy"
    "cf_compact c = cf_compact legacy" "cf_center c \<le> 6000000000" "uint (cf_rate c) \<le> 20000000"
    "uint (cf_span c) \<le> 26000000" "uint (cf_lna c) \<le> 40" "uint (cf_vga c) \<le> 62" "cf_threshold c \<noteq> None"
    "- 100 \<le> cf_rtl_gain c" "cf_rtl_gain c \<le> 600" "length (cf_lanes c) \<le> 4" "\<forall>l\<in>set (cf_lanes c). \<not> lane_profile_bad l"
proof -
  note ex = v [unfolded validate_acquisition_def Let_def bind_result_Inr guard_err_Inr for_each_Inr, folded c_def]
  show "sg_id a \<noteq> 0" "sg_id a \<le> 2048" "cf_synthetic c = cf_synthetic legacy" "cf_hardware c = cf_hardware legacy"
    "cf_compact c = cf_compact legacy"
    using ex by auto
  from ex obtain t where "tuned_center_hz c = Inr t" by blast
  then have "unat (cf_center c) \<le> 6000000000"
    unfolding tuned_center_hz_def Let_def bind_result_Inr guard_err_Inr by (auto simp: not_less)
  then show "cf_center c \<le> 6000000000" by (simp add: word_le_nat_alt)
  from ex have sets: "\<not> settings_bad c" by blast
  then show "cf_threshold c \<noteq> None" "- 100 \<le> cf_rtl_gain c" "cf_rtl_gain c \<le> 600" "length (cf_lanes c) \<le> 4"
    "uint (cf_lna c) \<le> 40" "uint (cf_vga c) \<le> 62"
    by (auto simp: settings_bad_def not_less word_le_def split: option.splits)
  from ex show "\<forall>l\<in>set (cf_lanes c). \<not> lane_profile_bad l" by (auto simp: in_set_conv_nth)
  from ex have r: "is_rak c \<Longrightarrow> cf_rate c = 0 \<and> cf_span c = cf_span legacy"
    and n: "\<not> is_rak c \<Longrightarrow> cf_rate c \<le> 20000000 \<and> cf_span c \<le> cf_rate c * 4 div 5"
    by (auto simp: not_less)
  show "uint (cf_rate c) \<le> 20000000"
    using r n by (cases "is_rak c") (simp_all add: word_le_def)
  show "uint (cf_span c) \<le> 26000000"
  proof (cases "is_rak c")
    case True
    then have "unat (cf_span c) \<le> 26000000" using r w by simp
    then show ?thesis using uint_nat [of "cf_span c"] by linarith
  next
    case False
    then have rate: "unat (cf_rate c) \<le> 20000000" and span: "unat (cf_span c) \<le> unat (cf_rate c * 4 div 5)"
      using n by (simp_all add: word_le_nat_alt)
    have "unat (cf_rate c * 4) = unat (cf_rate c) * 4"
      using rate by (simp add: unat_word_ariths)
    then have "unat (cf_span c) \<le> unat (cf_rate c) * 4 div 5"
      using span by (simp add: unat_div)
    then have "unat (cf_span c) \<le> 26000000" using rate by linarith
    then show ?thesis using uint_nat [of "cf_span c"] by linarith
  qed
qed

definition recorded_segment :: "receiver_config \<Rightarrow> acquisition_segment \<Rightarrow> acquisition_segment" where
  "recorded_segment legacy a =
     a\<lparr>sg_config := (sg_config a)\<lparr>cf_serial := [], cf_path := [], cf_boards := cf_boards legacy, cf_title := cf_title legacy\<rparr>\<rparr>"

lemma recorded_valid [simp]: "validate_acquisition (recorded_segment legacy a) l = validate_acquisition a l"
  by (simp add: validate_acquisition_def recorded_segment_def tuned_center_hz_def settings_bad_def Let_def)

lemma hardware_of_code: "hardware_of (word_of_int (hardware_code h)) = h" "hardware_code h \<in> {0..2}"
  by (cases h; simp add: hardware_of_def hardware_code_def)+

lemma segment_read_back:
  assumes row: "insert_row (segment_values a) = Inr r" and v: "validate_acquisition a legacy = Inr ()"
    and w: "unat (cf_span legacy) \<le> 26000000"
    and lanes: "lane_rows (sg_id a) 0 (cf_lanes (sg_config a)) = Inr ls"
      "filter (\<lambda>l. column l 0 = int_of_u64 (sg_id a)) (tb_lanes s) = ls"
    and decoder: "find (\<lambda>d. column d 0 = int_of_u64 (sg_id a)) (tb_automatic s) = Some d"
      "automatic_row (sg_id a) st = Inr d" "au_enabled st = cf_automatic (sg_config a)"
  shows "segment_from s legacy r = Inr (recorded_segment legacy a)"
proof -
  let ?c = "sg_config a"
  note b = segment_bounds [OF v w]
  have r: "r = segment_values a" and bind: "\<forall>v\<in>set (segment_values a). bind_value v = Inr ()"
    using row by (simp_all add: insert_row_Inr)
  obtain t where t: "cf_threshold ?c = Some t" using b(11) by blast
  have tx: "bind_value (SText (cf_antenna ?c)) = Inr ()" "bind_value (SText (cf_receiver ?c)) = Inr ()"
    "bind_value (SText (cf_notes ?c)) = Inr ()"
    using bind by (simp_all add: segment_values_def Let_def)
  have h: "0 \<le> hardware_code (cf_hardware ?c)" "hardware_code (cf_hardware ?c) \<le> 2"
    using hardware_of_code(2) [of "cf_hardware ?c"] by simp_all
  have th: "number (cf_threshold ?c) = SReal t" by (simp add: t number_def)
  have rd: "unsigned_at r 0 2048 = Inr (sg_id a)" "real_at r 1 = Inr (sg_start a)" "real_at r 2 = Inr (sg_end a)"
    "boolean_at r 3 = Inr (sg_finalized a)" "boolean_at r 4 = Inr (cf_synthetic ?c)"
    "unsigned_at r 5 2 = Inr (word_of_int (hardware_code (cf_hardware ?c)))"
    "unsigned_at r 6 6000000000 = Inr (cf_center ?c)" "unsigned_at r 7 20000000 = Inr (ucast (cf_rate ?c))"
    "unsigned_at r 8 26000000 = Inr (ucast (cf_span ?c))" "unsigned_at r 9 40 = Inr (ucast (cf_lna ?c))"
    "unsigned_at r 10 62 = Inr (ucast (cf_vga ?c))" "boolean_at r 11 = Inr (cf_amp ?c)" "real_at r 12 = Inr t"
    "integer_at r 13 = Inr (cf_offset ?c)" "integer_at r 14 = Inr (cf_rtl_gain ?c)" "boolean_at r 15 = Inr (cf_rtl_auto ?c)"
    "boolean_at r 16 = Inr (cf_discover ?c)" "text_at r 17 = Inr (cf_antenna ?c)" "text_at r 18 = Inr (cf_receiver ?c)"
    "text_at r 19 = Inr (cf_notes ?c)"
    using b h tx by (simp_all only: readers_find, simp_all add: r segment_values_def Let_def th row_simps)
  have len: "lanes_from [] ls = Inr (cf_lanes ?c)" "length ls \<le> 5"
    using lane_read_back [OF lanes(1) b(15), of "[]"] b(14) by simp_all
  have au: "automatic_from d = Inr st"
    by (rule automatic_read_back [OF decoder(2) b(2)])
  have gain: "\<not> (cf_rtl_gain ?c < - 100 \<or> cf_rtl_gain ?c > 600)" using b(12,13) by simp
  let ?a = "\<lparr>sg_id = sg_id a, sg_start = sg_start a, sg_end = sg_end a, sg_finalized = sg_finalized a,
       sg_config = legacy\<lparr>cf_serial := [], cf_path := [], cf_synthetic := cf_synthetic ?c,
         cf_hardware := cf_hardware ?c, cf_center := cf_center ?c, cf_rate := cf_rate ?c, cf_span := cf_span ?c,
         cf_lna := cf_lna ?c, cf_vga := cf_vga ?c, cf_amp := cf_amp ?c, cf_threshold := Some t, cf_offset := cf_offset ?c,
         cf_rtl_gain := cf_rtl_gain ?c, cf_rtl_auto := cf_rtl_auto ?c, cf_discover := cf_discover ?c,
         cf_antenna := cf_antenna ?c, cf_receiver := cf_receiver ?c, cf_notes := cf_notes ?c,
         cf_lanes := cf_lanes ?c, cf_automatic := cf_automatic ?c\<rparr>\<rparr>"
  have eq: "?a = recorded_segment legacy a"
    using b(5) t by (simp add: recorded_segment_def)
  have ok: "validate_acquisition ?a legacy = Inr ()" unfolding eq by (simp add: v)
  have "segment_from s legacy r = Inr ?a"
    by (simp only: segment_from_def rd lanes(2) take_all [OF len(2)] len(1) decoder(1) option.simps au decoder(3)
        bind_result_simps guard_err_def gain if_False Let_def hardware_of_code(1) ucast_u32 ok)
  then show ?thesis unfolding eq .
qed

lemma segment_from_inv:
  assumes "segment_from s legacy r = Inr a"
  shows "unsigned_at r 0 2048 = Inr (sg_id a)" "real_at r 2 = Inr (sg_end a)" "boolean_at r 3 = Inr (sg_finalized a)"
    "validate_acquisition a legacy = Inr ()"
proof -
  have "unsigned_at r 0 2048 = Inr (sg_id a) \<and> real_at r 2 = Inr (sg_end a) \<and> boolean_at r 3 = Inr (sg_finalized a) \<and>
      validate_acquisition a legacy = Inr ()"
    using assms unfolding segment_from_def bind_result_Inr Let_def by (elim exE conjE) clarsimp
  then show "unsigned_at r 0 2048 = Inr (sg_id a)" "real_at r 2 = Inr (sg_end a)" "boolean_at r 3 = Inr (sg_finalized a)"
    "validate_acquisition a legacy = Inr ()"
    by blast+
qed

text \<open>A segment depends on the lanes and the decoder of its own identity.\<close>

lemma segment_from_frame:
  assumes "\<And>i. unsigned_at r 0 2048 = Inr i \<Longrightarrow>
      filter (\<lambda>l. column l 0 = int_of_u64 i) (tb_lanes s') = filter (\<lambda>l. column l 0 = int_of_u64 i) (tb_lanes s) \<and>
      find (\<lambda>d. column d 0 = int_of_u64 i) (tb_automatic s') = find (\<lambda>d. column d 0 = int_of_u64 i) (tb_automatic s)"
  shows "segment_from s' legacy r = segment_from s legacy r"
proof (cases "unsigned_at r 0 2048")
  case (Inl e)
  then show ?thesis by (simp add: segment_from_def)
next
  case (Inr i)
  then show ?thesis using assms [OF Inr] by (simp add: segment_from_def)
qed

text \<open>Segments as a history: numbered from one, each finished before the next starts.\<close>

definition follows :: "acquisition_segment list \<Rightarrow> acquisition_segment \<Rightarrow> bool" where
  "follows old a \<longleftrightarrow> unat (sg_id a) = length old + 1 \<and>
     (old \<noteq> [] \<longrightarrow> sg_finalized (last old) \<and> sg_end (last old) - 1 / 100000000 \<le> sg_start a)"

lemma history_from_iff:
  "history_from s legacy old rows = Inr segs \<longleftrightarrow>
    (\<exists>new. segs = old @ new \<and> list_all2 (\<lambda>r a. segment_from s legacy r = Inr a) rows new \<and>
      (\<forall>k<length new. follows (old @ take k new) (new ! k)))"
proof (induction rows arbitrary: old)
  case Nil
  then show ?case by auto
next
  case (Cons r rows)
  show ?case
  proof (cases "segment_from s legacy r")
    case (Inl e)
    then show ?thesis by (auto simp: list_all2_Cons1)
  next
    case (Inr a)
    have g: "guard_err (unat (sg_id a) \<noteq> length old + 1 \<or>
         (old \<noteq> [] \<and> (\<not> sg_finalized (last old) \<or> sg_start a < sg_end (last old) - 1 / 100000000)))
       ''Overlapping or unordered acquisition history'' = (if follows old a then Inr ()
         else Inl ''Overlapping or unordered acquisition history'')"
      by (auto simp: follows_def guard_err_def not_less)
    have split: "(\<forall>k<length (a # new). follows (old @ take k (a # new)) ((a # new) ! k)) \<longleftrightarrow>
        follows old a \<and> (\<forall>k<length new. follows ((old @ [a]) @ take k new) (new ! k))" for new
      by (auto simp: less_Suc_eq_0_disj)
    have "history_from s legacy old (r # rows) = Inr segs \<longleftrightarrow>
        follows old a \<and> history_from s legacy (old @ [a]) rows = Inr segs"
      unfolding history_from.simps Inr bind_result_simps g by simp
    also have "\<dots> \<longleftrightarrow> follows old a \<and> (\<exists>new. segs = old @ a # new \<and>
        list_all2 (\<lambda>r a. segment_from s legacy r = Inr a) rows new \<and>
        (\<forall>k<length new. follows ((old @ [a]) @ take k new) (new ! k)))"
      unfolding Cons.IH by simp
    also have "\<dots> \<longleftrightarrow> (\<exists>new. segs = old @ a # new \<and>
        list_all2 (\<lambda>r a. segment_from s legacy r = Inr a) (r # rows) (a # new) \<and>
        (\<forall>k<length (a # new). follows (old @ take k (a # new)) ((a # new) ! k)))"
      unfolding split by (auto simp: Inr)
    also have "\<dots> \<longleftrightarrow> (\<exists>new. segs = old @ new \<and> list_all2 (\<lambda>r a. segment_from s legacy r = Inr a) (r # rows) new \<and>
        (\<forall>k<length new. follows (old @ take k new) (new ! k)))"
      by (auto simp: list_all2_Cons1 Inr)
    finally show ?thesis .
  qed
qed

definition is_history :: "acquisition_segment list \<Rightarrow> bool" where
  "is_history segs \<longleftrightarrow> (\<forall>k<length segs. follows (take k segs) (segs ! k))"

lemma history_read:
  "history_from s legacy [] rows = Inr segs \<longleftrightarrow>
    list_all2 (\<lambda>r a. segment_from s legacy r = Inr a) rows segs \<and> is_history segs"
  unfolding history_from_iff is_history_def by simp

lemma is_history_snoc: "is_history (old @ [a]) \<longleftrightarrow> is_history old \<and> follows old a"
  by (auto simp: is_history_def nth_append less_Suc_eq)

lemma history_ids: "is_history segs \<Longrightarrow> k < length segs \<Longrightarrow> unat (sg_id (segs ! k)) = Suc k"
  by (simp add: is_history_def follows_def)

text \<open>What a recording shows as its history, with what its operations keep of the tables.\<close>

definition segment_keys :: "nat \<Rightarrow> sql_value list" where
  "segment_keys n = map (\<lambda>k. int_of_u64 (of_nat k)) [1..<Suc n]"

definition shows_history :: "receiver_config \<Rightarrow> session_store \<Rightarrow> acquisition_segment list \<Rightarrow> bool" where
  "shows_history legacy s segs \<longleftrightarrow>
     ss_segmented s \<and> acquisitions s legacy = Inr segs \<and> length segs \<le> 2048 \<and>
     map (\<lambda>r. column r 0) (tb_acquisitions s) = segment_keys (length segs) \<and>
     list_all (\<lambda>d. column d 0 = int_of_u64 0 \<or> has_key (column d 0) (tb_acquisitions s)) (tb_automatic s)"

lemma shows_history_iff:
  "shows_history legacy s segs \<longleftrightarrow>
     ss_segmented s \<and> length segs \<le> 2048 \<and>
     list_all2 (\<lambda>r a. segment_from s legacy r = Inr a) (tb_acquisitions s) segs \<and> is_history segs \<and>
     map (\<lambda>r. column r 0) (tb_acquisitions s) = segment_keys (length segs) \<and>
     \<not> (orphan_decoder s \<and> segs \<noteq> []) \<and> \<not> orphan_lane s \<and>
     list_all (\<lambda>d. column d 0 = int_of_u64 0 \<or> has_key (column d 0) (tb_acquisitions s)) (tb_automatic s)"
proof -
  have "acquisitions s legacy = Inr segs \<longleftrightarrow>
      list_all2 (\<lambda>r a. segment_from s legacy r = Inr a) (tb_acquisitions s) segs \<and> is_history segs \<and>
      \<not> (orphan_decoder s \<and> segs \<noteq> []) \<and> \<not> orphan_lane s"
    if "ss_segmented s" "length segs \<le> 2048" "map (\<lambda>r. column r 0) (tb_acquisitions s) = segment_keys (length segs)"
  proof -
    have "length (tb_acquisitions s) = length segs"
      using that(3) by (metis diff_Suc_1 length_map length_upt segment_keys_def)
    then have "take 2049 (tb_acquisitions s) = tb_acquisitions s" using that(2) by simp
    then show ?thesis
      using that(1) by (auto simp: acquisitions_def bind_result_Inr history_read)
  qed
  then show ?thesis unfolding shows_history_def by blast
qed

section \<open>Operations that succeed\<close>

lemma op_Inr [result_simps]:
  "then_op m f s = (Inr y, s') \<longleftrightarrow> (\<exists>x s1. m s = (Inr x, s1) \<and> f x s1 = (Inr y, s'))"
  "yield_op r s = (Inr x, s') \<longleftrightarrow> r = Inr x \<and> s' = s"
  "check_op bad e s = (Inr u, s') \<longleftrightarrow> \<not> bad s \<and> s' = s"
  "change_op h s = (Inr u, s') \<longleftrightarrow> s' = h s"
  "with_store g s = g s s"
  by (auto simp: then_op_def yield_op_def check_op_def change_op_def with_store_def split: prod.splits sum.splits)

lemma store_Inr [result_simps]:
  "(case X of Inl e \<Rightarrow> (Inl e, s) | Inr rows \<Rightarrow> (Inr y, h rows)) = (Inr z, s') \<longleftrightarrow>
    (\<exists>rows. X = Inr rows \<and> z = y \<and> s' = h rows)"
  by (auto split: sum.splits)

section \<open>An acquisition begins\<close>

abbreviation history_tables :: "session_store \<Rightarrow> bool \<times> row list \<times> row list \<times> row list" where
  "history_tables s \<equiv> (ss_segmented s, tb_acquisitions s, tb_lanes s, tb_automatic s)"

lemma history_tables_steady: "steady (\<lambda>s. history_tables s = x)"
  by (simp add: steady_def)

lemma begin_acquisition_Inr:
  assumes "begin_acquisition ma a s = (Inr (), s')"
  shows "ss_segmented s \<and> validate_acquisition a (ss_config s) = Inr () \<and>
    previous_segment a (tb_acquisitions s) = Inr () \<and> (ss_acquisition s = 0 \<longrightarrow> sg_id a = 1) \<and>
    (\<exists>rows ls d. add_row (segment_values a) (tb_acquisitions s) = Inr rows \<and>
      lane_rows (sg_id a) 0 (cf_lanes (sg_config a)) = Inr ls \<and>
      automatic_row (sg_id a) (new_automatic_status\<lparr>au_available := True, au_enabled := cf_automatic (sg_config a)\<rparr>) = Inr d \<and>
      history_tables s' = (True, rows, tb_lanes s @ ls,
        filter (\<lambda>r. column r 0 \<noteq> int_of_u64 0 \<and> column r 0 \<noteq> int_of_u64 (sg_id a)) (tb_automatic s) @ [d]) \<and>
      ss_config s' = sg_config a \<and> ss_acquisition s' = sg_id a)"
proof -
  have b: "history_tables s1 = history_tables s0" if "begin_batch s0 = (Inr (), s1)" for s0 s1
    using steady_begin [OF history_tables_steady [of "history_tables s0"]] that
    unfolding keeps_def by (metis snd_conv)
  have p: "history_tables s1 = history_tables s0" if "save_power_block ma s0 = (Inr (), s1)" for s0 s1
    using steady_power [OF history_tables_steady [of "history_tables s0"]] that
    unfolding keeps_def by (metis snd_conv)
  from assms obtain s1 s2 rows ls d where
    c: "ss_segmented s" "validate_acquisition a (ss_config s) = Inr ()" "previous_segment a (tb_acquisitions s) = Inr ()"
      "ss_acquisition s = 0 \<longrightarrow> sg_id a = 1"
    and st: "begin_batch s = (Inr (), s1)" "save_power_block ma s1 = (Inr (), s2)"
    and add: "add_row (segment_values a) (tb_acquisitions s2) = Inr rows"
      "lane_rows (sg_id a) 0 (cf_lanes (sg_config a)) = Inr ls"
      "automatic_row (sg_id a) (new_automatic_status\<lparr>au_available := True, au_enabled := cf_automatic (sg_config a)\<rparr>) = Inr d"
    and s': "history_tables s' = (ss_segmented s2, rows, tb_lanes s2 @ ls,
        filter (\<lambda>r. column r 0 \<noteq> int_of_u64 0 \<and> column r 0 \<noteq> int_of_u64 (sg_id a)) (tb_automatic s2) @ [d])"
      "ss_config s' = sg_config a" "ss_acquisition s' = sg_id a"
    unfolding begin_acquisition_def save_automatic_def replace_decoder_def result_simps by auto
  with b [OF st(1)] p [OF st(2)] show ?thesis by auto
qed

lemma segment_keys_snoc: "segment_keys (Suc n) = segment_keys n @ [int_of_u64 (of_nat (Suc n))]"
  by (simp add: segment_keys_def)

lemma int_of_u64_inj [simp]: "int_of_u64 v = int_of_u64 w \<longleftrightarrow> v = w"
  by (auto simp: int_of_u64_def intro: signed_word_eqI)

lemma segment_key_at: "k < n \<Longrightarrow> segment_keys n ! k = int_of_u64 (of_nat (Suc k))"
  by (simp add: segment_keys_def del: upt_Suc of_nat_Suc)

lemma of_nat_id: "unat (w :: u64) = n \<Longrightarrow> w = of_nat n"
  by hypsubst simp

lemma has_key_column: "has_key k rows \<longleftrightarrow> k \<in> set (map (\<lambda>r. column r 0) rows)"
  by (auto simp: has_key_def list_ex_iff)


text \<open>The checks of a new segment are those of the history.\<close>

lemma begin_follows:
  assumes hist: "shows_history legacy s old" and prev: "previous_segment a (tb_acquisitions s) = Inr ()"
    and one: "ss_acquisition s = 0 \<longrightarrow> sg_id a = 1" and start: "old = [] \<Longrightarrow> ss_acquisition s = 0"
  shows "follows old a"
proof (cases "old = []")
  case True
  then show ?thesis using one start by (simp add: follows_def)
next
  case False
  note old = hist [unfolded shows_history_iff]
  let ?l = "last (tb_acquisitions s)"
  have n: "length (tb_acquisitions s) = length old" using old by (auto dest: list_all2_lengthD)
  have ne: "tb_acquisitions s \<noteq> []" using False n by auto
  have "segment_from s legacy ?l = Inr (last old)"
    using old n False ne by (auto simp: list_all2_conv_all_nth last_conv_nth)
  note rd = segment_from_inv [OF this]
  have ids: "unat (sg_id (last old)) = length old"
    using history_ids [of old "length old - 1"] old False by (simp add: last_conv_nth)
  have "column ?l 0 = segment_keys (length old) ! (length old - 1)"
    using old n ne False by (metis (no_types, lifting) diff_less last_conv_nth length_greater_0_conv nth_map zero_less_one)
  then have "column ?l 0 = int_of_u64 (sg_id (last old))"
    using False of_nat_id [OF ids] by (simp add: segment_key_at)
  moreover have "sg_id (last old) \<le> uint32_max" "uint32_max \<le> int64_max"
    using ids old by (simp_all add: uint32_max_def int64_max_def word_le_nat_alt)
  ultimately have "unsigned_at ?l 0 uint32_max = Inr (sg_id (last old))" by (intro unsigned_at_u64)
  then have p: "sg_id a = sg_id (last old) + 1" "sg_finalized (last old)" "sg_end (last old) - 1 / 100000000 \<le> sg_start a"
    using prev ne rd by (auto simp: previous_segment_def Let_def not_less split: list.splits)
  have "unat (sg_id a) = length old + 1"
    unfolding p(1) using ids old by (simp add: unat_word_ariths)
  with p show ?thesis by (simp add: follows_def)
qed

lemma begin_shows:
  assumes hist: "shows_history legacy s old" and begins: "begin_acquisition ma a s = (Inr (), s')"
    and same: "same_recording (ss_config s) legacy" and w: "unat (cf_span legacy) \<le> 26000000"
    and start: "old = [] \<Longrightarrow> ss_acquisition s = 0"
  shows "shows_history legacy s' (old @ [recorded_segment legacy a])"
proof -
  let ?r = "recorded_segment legacy a" and ?v = "segment_values a"
  note old = hist [unfolded shows_history_iff]
  from begin_acquisition_Inr [OF begins] obtain rows ls d where
    c: "validate_acquisition a (ss_config s) = Inr ()" "previous_segment a (tb_acquisitions s) = Inr ()"
      "ss_acquisition s = 0 \<longrightarrow> sg_id a = 1"
    and add: "add_row ?v (tb_acquisitions s) = Inr rows" "lane_rows (sg_id a) 0 (cf_lanes (sg_config a)) = Inr ls"
      "automatic_row (sg_id a) (new_automatic_status\<lparr>au_available := True, au_enabled := cf_automatic (sg_config a)\<rparr>) = Inr d"
    and s': "history_tables s' = (True, rows, tb_lanes s @ ls,
        filter (\<lambda>r. column r 0 \<noteq> int_of_u64 0 \<and> column r 0 \<noteq> int_of_u64 (sg_id a)) (tb_automatic s) @ [d])"
    by auto
  have v: "validate_acquisition a legacy = Inr ()"
    by (rule validate_acquisition_legacy [OF same c(1)])
  note bounds = segment_bounds [OF v w]
  have key: "column ?v 0 = int_of_u64 (sg_id a)" by (simp add: segment_values_def column_def Let_def)
  note new = add_row_keys [OF add(1)]
  have n: "length (tb_acquisitions s) = length old" using old by (auto dest: list_all2_lengthD)
  have fol: "follows old a" by (rule begin_follows [OF hist c(2,3) start])
  then have id: "unat (sg_id a) = Suc (length old)" by (simp add: follows_def)
  have lanes_i: "filter (\<lambda>l. column l 0 = int_of_u64 (sg_id a)) (tb_lanes s) = []"
  proof -
    have "\<forall>l\<in>set (tb_lanes s). column l 0 \<in> (\<lambda>r. column r 0) ` set (tb_acquisitions s)"
      using old unfolding orphan_lane_def list_ex_iff has_key_column by simp
    then show ?thesis using new(3) unfolding key filter_empty_conv by metis
  qed
  have lane: "length ls = length (cf_lanes (sg_config a)) \<and> (\<forall>r\<in>set ls. column r 0 = int_of_u64 (sg_id a))"
    using lane_read_back [OF add(2) bounds(15), of "[]"] bounds(14) by simp
  have dkey: "column d 0 = int_of_u64 (sg_id a)"
    using add(3) by (auto simp: automatic_row_def bind_result_Inr insert_row_Inr column_def)
  have other: "segment_from s' legacy r = segment_from s legacy r" if r: "r \<in> set (tb_acquisitions s)" for r
  proof (rule segment_from_frame)
    fix i assume i: "unsigned_at r 0 2048 = Inr i"
    obtain k where k: "k < length old" "r = tb_acquisitions s ! k" using r n by (auto simp: in_set_conv_nth)
    have "column r 0 = int_of_u64 (of_nat (Suc k))"
      using old k n by (metis nth_map segment_key_at)
    moreover have "(of_nat (Suc k) :: u64) \<le> 2048" "(2048 :: u64) \<le> int64_max"
      using k old by (simp_all add: word_le_nat_alt unat_of_nat int64_max_def del: of_nat_Suc)
    ultimately have "i = of_nat (Suc k)" using unsigned_at_u64 [of r 0 "of_nat (Suc k)" 2048] i by simp
    then have u: "unat i = Suc k" using k old by (simp add: unat_of_nat del: of_nat_Suc)
    then have ne: "i \<noteq> sg_id a" "i \<noteq> 0" using id k by auto
    have "find (\<lambda>d. column d 0 = int_of_u64 i) (filter (\<lambda>r. column r 0 \<noteq> int_of_u64 0 \<and> column r 0 \<noteq> int_of_u64 (sg_id a)) ds @ [d])
        = find (\<lambda>d. column d 0 = int_of_u64 i) ds" for ds
      using ne dkey by (induction ds) auto
    with ne lane s' show "filter (\<lambda>l. column l 0 = int_of_u64 i) (tb_lanes s') = filter (\<lambda>l. column l 0 = int_of_u64 i) (tb_lanes s) \<and>
      find (\<lambda>d. column d 0 = int_of_u64 i) (tb_automatic s') = find (\<lambda>d. column d 0 = int_of_u64 i) (tb_automatic s)"
      by (auto simp: filter_empty_conv)
  qed
  have this_one: "segment_from s' legacy ?v = Inr ?r"
  proof (rule segment_read_back [OF new(2) v w add(2) _ _ add(3)])
    show "filter (\<lambda>l. column l 0 = int_of_u64 (sg_id a)) (tb_lanes s') = ls"
      using s' lanes_i lane by simp
    have "find (\<lambda>d. column d 0 = int_of_u64 (sg_id a))
        (filter (\<lambda>r. column r 0 \<noteq> int_of_u64 0 \<and> column r 0 \<noteq> int_of_u64 (sg_id a)) ds @ [d]) = Some d" for ds
      using dkey by (induction ds) auto
    then show "find (\<lambda>d. column d 0 = int_of_u64 (sg_id a)) (tb_automatic s') = Some d" using s' by simp
  qed simp
  have rows: "tb_acquisitions s' = tb_acquisitions s @ [?v]" using s' new(1) by simp
  have "list_all2 (\<lambda>r a. segment_from s' legacy r = Inr a) (tb_acquisitions s') (old @ [?r])"
    unfolding rows using old other this_one
    by (intro list_all2_appendI) (auto simp: list_all2_conv_all_nth)
  moreover have "is_history (old @ [?r])"
    using old fol by (simp add: is_history_snoc follows_def recorded_segment_def)
  moreover have "map (\<lambda>r. column r 0) (tb_acquisitions s') = segment_keys (length (old @ [?r]))"
    unfolding rows using old key of_nat_id [OF id] by (simp add: segment_keys_snoc del: of_nat_Suc)
  moreover have "\<not> orphan_lane s'"
    using old s' lane key unfolding orphan_lane_def list_ex_iff has_key_column rows by auto
  moreover have "\<not> orphan_decoder s'"
    using old s' dkey key unfolding orphan_decoder_def list_ex_iff list_all_iff has_key_column rows by auto
  moreover have "length (old @ [?r]) \<le> 2048" using id bounds(2) by (simp add: word_le_nat_alt)
  moreover have "list_all (\<lambda>d. column d 0 = int_of_u64 0 \<or> has_key (column d 0) (tb_acquisitions s')) (tb_automatic s')"
    using old s' dkey key unfolding list_all_iff has_key_column rows by auto
  ultimately show ?thesis unfolding shows_history_iff using s' by blast
qed

section \<open>An acquisition goes on and ends\<close>

lemma validate_interval:
  assumes "validate_acquisition a l = Inr ()" "sg_start a \<le> e" "e \<le> 10000000000"
  shows "validate_acquisition (a\<lparr>sg_end := e, sg_finalized := f\<rparr>) l = Inr ()"
proof -
  let ?a = "a\<lparr>sg_end := e, sg_finalized := f\<rparr>"
  have sel: "sg_config ?a = sg_config a" "sg_id ?a = sg_id a" "sg_start ?a = sg_start a" "sg_end ?a = e" by simp_all
  note v = assms(1) [unfolded validate_acquisition_def Let_def bind_result_Inr guard_err_Inr nonnegative_def]
  have b: "\<not> e < 0" "\<not> (sg_id a = 0 \<or> sg_id a > 2048 \<or> e < sg_start a \<or> e > 10000000000)"
    using v assms(2,3) by auto
  show ?thesis
    using v b unfolding validate_acquisition_def Let_def bind_result_Inr guard_err_Inr nonnegative_def sel by blast
qed

lemma segment_finish:
  assumes seg: "segment_from s legacy r = Inr a" and e: "sg_start a \<le> e" "e \<le> 10000000000"
  shows "segment_from s legacy (r[2 := SReal e, 3 := int_of_bool f]) = Inr (a\<lparr>sg_end := e, sg_finalized := f\<rparr>)"
proof -
  let ?r = "r[2 := SReal e, 3 := int_of_bool f]"
  have "column r 3 \<noteq> SNull"
    using segment_from_inv(3) [OF seg] by (auto simp: boolean_at_def unsigned_at_def integer_at_def bind_result_Inr)
  then have len: "3 < length r" by (auto simp: column_def split: if_splits)
  have same: "column ?r n = column r n" if "n \<noteq> 2" "n \<noteq> 3" for n
    using that by (simp add: column_def)
  have new: "real_at ?r 2 = Inr e" "boolean_at ?r 3 = Inr f"
    using len by (auto intro!: real_at_Real boolean_at_bool simp: column_def)
  have keep: "unsigned_at ?r n m = unsigned_at r n m" "real_at ?r n = real_at r n" "boolean_at ?r n = boolean_at r n"
    "integer_at ?r n = integer_at r n" "text_at ?r n = text_at r n" if "n \<noteq> 2" "n \<noteq> 3" for n m
    using same [OF that] by (simp_all only: readers_find)
  show ?thesis
    by (insert seg [unfolded segment_from_def bind_result_Inr Let_def guard_err_Inr] e, elim exE conjE,
        clarsimp simp: segment_from_def keep new guard_err_def, drule validate_interval [where e = e and f = f]) simp_all
qed

lemma finish_shows:
  assumes hist: "shows_history legacy s (old @ [a])" and at: "ss_acquisition s = sg_id a"
    and e: "sg_start a \<le> e" "e \<le> 10000000000"
  shows "shows_history legacy (finish_acquisition e f s) (old @ [a\<lparr>sg_end := e, sg_finalized := f\<rparr>])"
proof -
  let ?s = "finish_acquisition e f s" and ?a = "a\<lparr>sg_end := e, sg_finalized := f\<rparr>"
  let ?u = "\<lambda>r. if column r 0 = int_of_u64 (sg_id a) then r[2 := SReal e, 3 := int_of_bool f] else r"
  note h = hist [unfolded shows_history_iff]
  have id: "unat (sg_id a) = Suc (length old)" using history_ids [of "old @ [a]" "length old"] h by simp
  then have ne: "sg_id a \<noteq> 0" by auto
  obtain rows r where rows: "tb_acquisitions s = rows @ [r]" "list_all2 (\<lambda>r a. segment_from s legacy r = Inr a) rows old"
    "segment_from s legacy r = Inr a"
    using h by (auto simp: list_all2_append2 list_all2_Cons2)
  have keys: "map (\<lambda>r. column r 0) rows = segment_keys (length old)" "column r 0 = int_of_u64 (sg_id a)"
    using h of_nat_id [OF id] by (simp_all add: rows(1) segment_keys_snoc del: of_nat_Suc)
  have "?u x = x" if x: "x \<in> set rows" for x
  proof -
    have "column x 0 \<in> set (segment_keys (length old))" using x keys(1) by (metis (no_types) image_eqI list.set_map)
    then obtain k where k: "k \<in> {1..<Suc (length old)}" "column x 0 = int_of_u64 (of_nat k)"
      by (auto simp: segment_keys_def simp del: upt_Suc)
    moreover have "unat (of_nat k :: u64) = k" using k(1) h by (simp add: unat_of_nat)
    ultimately have "column x 0 \<noteq> int_of_u64 (sg_id a)" using id by auto
    then show ?thesis by simp
  qed
  then have "map ?u rows = rows" by (simp add: map_idI)
  then have s: "?s = s\<lparr>tb_acquisitions := rows @ [r[2 := SReal e, 3 := int_of_bool f]]\<rparr>"
    using h at ne keys(2) by (simp add: finish_acquisition_def rows(1) cong: if_cong)
  have seg: "segment_from ?s legacy x = segment_from s legacy x" for x
    by (rule segment_from_frame) (simp add: s)
  have k0: "column (x[2 := v, 3 := w]) 0 = column x 0" for x v w by (simp add: column_def)
  have tables: "map (\<lambda>r. column r 0) (tb_acquisitions ?s) = map (\<lambda>r. column r 0) (tb_acquisitions s)"
    "tb_lanes ?s = tb_lanes s" "tb_automatic ?s = tb_automatic s" "ss_segmented ?s"
    using h by (simp_all add: s rows(1) k0)
  have "list_all2 (\<lambda>r a. segment_from ?s legacy r = Inr a) (tb_acquisitions ?s) (old @ [?a])"
    unfolding seg using rows(2) segment_finish [OF rows(3) e] by (simp add: s list_all2_appendI)
  moreover have "is_history (old @ [?a])"
    using h by (simp add: is_history_snoc follows_def)
  moreover have "(\<lambda>r. column r 0) ` set (tb_acquisitions s) = set (segment_keys (length (old @ [a])))"
    using h by (metis list.set_map)
  ultimately show ?thesis
    using h unfolding shows_history_iff orphan_decoder_def orphan_lane_def has_key_column tables(1-3)
    by (simp add: tables(4))
qed

text \<open>The decoder's status is replaced at every checkpoint.\<close>

lemma find_replaced: "find (\<lambda>d. column d 0 = k) (filter (\<lambda>r. column r 0 \<noteq> j) ds @ [d]) =
    (if k = j then (if column d 0 = j then Some d else None)
     else case find (\<lambda>d. column d 0 = k) ds of None \<Rightarrow> if column d 0 = k then Some d else None | Some x \<Rightarrow> Some x)"
  by (induction ds) auto

lemma segment_decoder:
  assumes seg: "segment_from s legacy r = Inr a"
    and lanes: "filter (\<lambda>l. column l 0 = int_of_u64 (sg_id a)) (tb_lanes s') = filter (\<lambda>l. column l 0 = int_of_u64 (sg_id a)) (tb_lanes s)"
    and dec: "find (\<lambda>d. column d 0 = int_of_u64 (sg_id a)) (tb_automatic s') = Some d" "automatic_from d = Inr st"
      "au_enabled st = cf_automatic (sg_config a)"
  shows "segment_from s' legacy r = Inr a"
  using assms unfolding segment_from_def bind_result_Inr Let_def guard_err_Inr
  by (elim exE conjE) (clarsimp simp: guard_err_def)

lemma decoder_shows:
  assumes hist: "shows_history legacy s segs" and row: "automatic_row i st = Inr d"
    and first: "segs = [] \<Longrightarrow> i = 0"
    and later: "segs \<noteq> [] \<Longrightarrow> i = sg_id (last segs) \<and> au_enabled st = cf_automatic (sg_config (last segs))"
  shows "shows_history legacy (replace_decoder i d s) segs"
proof -
  let ?s = "replace_decoder i d s"
  note h = hist [unfolded shows_history_iff]
  have dkey: "column d 0 = int_of_u64 i"
    using row by (auto simp: automatic_row_def bind_result_Inr insert_row_Inr column_def)
  have tables: "tb_acquisitions ?s = tb_acquisitions s" "tb_lanes ?s = tb_lanes s" "ss_segmented ?s = ss_segmented s"
    by (simp_all add: replace_decoder_def)
  have n: "length (tb_acquisitions s) = length segs" using h by (auto dest: list_all2_lengthD)
  have ids: "unat (sg_id (segs ! k)) = Suc k" if "k < length segs" for k using history_ids h that by blast
  have "segment_from ?s legacy (tb_acquisitions s ! k) = Inr (segs ! k)" if k: "k < length segs" for k
  proof -
    have seg: "segment_from s legacy (tb_acquisitions s ! k) = Inr (segs ! k)"
      using h k by (auto simp: list_all2_conv_all_nth)
    have ne: "segs \<noteq> []" using k by auto
    then have l: "last segs = segs ! (length segs - 1)" "segs \<noteq> []" by (simp_all add: last_conv_nth)
    show ?thesis
    proof (cases "k = length segs - 1")
      case True
      with later l have st: "i = sg_id (segs ! k)" "au_enabled st = cf_automatic (sg_config (segs ! k))" by simp_all
      have "i \<le> 2048" using st(1) ids [OF k] k h by (simp add: word_le_nat_alt)
      then have dec: "automatic_from d = Inr st" by (rule automatic_read_back [OF row])
      have at: "find (\<lambda>x. column x 0 = int_of_u64 (sg_id (segs ! k))) (tb_automatic ?s) = Some d"
        unfolding st(1) [symmetric] by (simp add: replace_decoder_def find_replaced dkey)
      show ?thesis by (rule segment_decoder [OF seg _ at dec st(2)]) (simp only: tables)
    next
      case False
      have "length segs - 1 < length segs" using k by simp
      from ids [OF this] have "unat i = length segs" using later [OF l(2)] l(1) k by simp
      then have ne: "sg_id (segs ! k) \<noteq> i" using ids [OF k] False k by auto
      show ?thesis unfolding seg [symmetric]
      proof (rule segment_from_frame)
        fix j assume "unsigned_at (tb_acquisitions s ! k) 0 2048 = Inr j"
        then have "j = sg_id (segs ! k)" using segment_from_inv(1) [OF seg] by simp
        then show "filter (\<lambda>l. column l 0 = int_of_u64 j) (tb_lanes ?s) = filter (\<lambda>l. column l 0 = int_of_u64 j) (tb_lanes s) \<and>
          find (\<lambda>d. column d 0 = int_of_u64 j) (tb_automatic ?s) = find (\<lambda>d. column d 0 = int_of_u64 j) (tb_automatic s)"
          using ne by (simp add: tables replace_decoder_def find_replaced dkey split: option.splits)
      qed
    qed
  qed
  then have "list_all2 (\<lambda>r a. segment_from ?s legacy r = Inr a) (tb_acquisitions s) segs"
    using n by (simp add: list_all2_conv_all_nth)
  moreover have known: "has_key (int_of_u64 i) (tb_acquisitions s)" if "segs \<noteq> []"
  proof -
    have l: "length segs - 1 < length segs" "Suc (length segs - 1) = length segs" using that by (cases segs; simp)+
    have "int_of_u64 i = segment_keys (length segs) ! (length segs - 1)"
      using later [OF that] of_nat_id [OF ids [OF l(1)]] that l by (simp add: last_conv_nth segment_key_at del: of_nat_Suc)
    moreover have "length (segment_keys (length segs)) = length segs" by (simp add: segment_keys_def del: upt_Suc)
    ultimately have "int_of_u64 i \<in> set (segment_keys (length segs))" using l(1) by (metis nth_mem)
    then show ?thesis using h unfolding has_key_column by simp
  qed
  then have "\<not> (orphan_decoder ?s \<and> segs \<noteq> [])"
    using h dkey unfolding orphan_decoder_def tables by (auto simp: list_ex_iff replace_decoder_def)
  moreover have "list_all (\<lambda>d. column d 0 = int_of_u64 0 \<or> has_key (column d 0) (tb_acquisitions s)) (tb_automatic ?s)"
    using h dkey known first by (cases "segs = []") (auto simp: list_all_iff replace_decoder_def)
  ultimately show ?thesis
    using h unfolding shows_history_iff tables orphan_lane_def by blast
qed

text \<open>Nothing else that is recorded touches the history.\<close>

lemma history_frame:
  "history_tables s' = history_tables s \<Longrightarrow> shows_history legacy s' segs = shows_history legacy s segs"
  "history_tables s' = history_tables s \<Longrightarrow> acquisitions s' legacy = acquisitions s legacy"
proof -
  assume "history_tables s' = history_tables s"
  then have t: "tb_acquisitions s' = tb_acquisitions s" "tb_lanes s' = tb_lanes s" "tb_automatic s' = tb_automatic s"
    "ss_segmented s' = ss_segmented s"
    by simp_all
  have seg: "segment_from s' legacy r = segment_from s legacy r" for r
    by (rule segment_from_frame) (simp add: t)
  have hf: "history_from s' legacy old rows = history_from s legacy old rows" for old rows
    by (induction rows arbitrary: old) (simp_all add: seg)
  show a: "acquisitions s' legacy = acquisitions s legacy"
    by (simp add: acquisitions_def t hf orphan_decoder_def orphan_lane_def)
  show "shows_history legacy s' segs = shows_history legacy s segs"
    by (simp add: shows_history_def t a)
qed

lemma append_history: "history_tables (snd (perform ma op s)) = history_tables s"
proof -
  let ?P = "\<lambda>x. history_tables x = history_tables s"
  have P: "steady ?P" by (rule history_tables_steady)
  have f: "?P x \<Longrightarrow> ?P (x\<lparr>tb_positions := tb_positions x @ [(k, p)]\<rparr>)" for x k p by simp
  have r: "keeps ?P (append_reception r)" for r
    unfolding append_reception_def insert_reception_def
    by (intro keep_rules steady_begin [OF P]) (simp add: keeps_def split: sum.splits option.splits)
  have "keeps ?P (perform ma op)"
    by (cases op; simp only: perform.simps) (rule r keeps_appends [OF P f]; simp)+
  then show ?thesis by (simp add: keeps_def)
qed

end
