(* ===== verification/Recording.thy ===== *)
theory Recording
  imports Acquisitions
begin

text \<open>
  A recording as a whole (\<open>SessionStore\<close> in \<open>storage.cpp\<close>): the tables of records with the
  summary that \<open>update\<close> rewrites at every checkpoint, and the last committed revision of
  both, which is what another reader or a later session finds. \<open>update\<close> commits what it
  wrote, or rolls everything back to that revision and throws.
\<close>

section \<open>The summary\<close>

record lane_health =
  lh_label :: string
  lh_freq :: u64
  lh_processed :: rat
  lh_frames :: u64
  lh_classified :: u64
  lh_crc_failures :: u64
  lh_resets :: u64
  lh_state :: string

text \<open>The fields of a \<open>Snapshot\<close> that are saved.\<close>

record snapshot =
  sn_incomplete :: bool
  sn_state :: string
  sn_elapsed :: rat
  sn_input :: rat
  sn_measured :: rat
  sn_delivered :: u64
  sn_dropped :: u64
  sn_total :: u64
  sn_classified :: u64
  sn_frequencies :: "frequency_summary list"
  sn_lanes :: "lane_health list"
  sn_automatic :: automatic_status
  sn_tiles :: u64
  sn_events :: u64
  sn_discovery :: discovery_status
  sn_health :: "concentrator_health list"

record store_summary =
  sy_session :: row
  sy_frequencies :: "row list"
  sy_lanes :: "row list"
  sy_discovery :: "row list"
  sy_bands :: "row list"
  sy_coverage :: "row list"
  sy_health :: "row list"

text \<open>The tables of the session, of frequencies and of coverage; all start at zero or empty.\<close>

definition new_summary :: "receiver_config \<Rightarrow> store_summary" where
  "new_summary c =
     \<lparr>sy_session = [SInt 0, SReal 0, SReal 0, SReal 0, SInt 0, SInt 0, SInt 0, SInt 0], sy_frequencies = [], sy_lanes = [],
      sy_discovery = [discovery_status_values (new_discovery_status\<lparr>ds_enabled := cf_discover c\<rparr>)], sy_bands = [],
      sy_coverage = [], sy_health = []\<rparr>"

section \<open>Checkpoints\<close>

definition concentrator_claims_sdr :: "snapshot \<Rightarrow> bool" where
  "concentrator_claims_sdr n \<longleftrightarrow>
     sn_input n \<noteq> 0 \<or> sn_measured n \<noteq> 0 \<or> sn_delivered n \<noteq> 0 \<or> sn_dropped n \<noteq> 0 \<or> sn_frequencies n \<noteq> [] \<or>
     sn_lanes n \<noteq> [] \<or> sn_tiles n \<noteq> 0 \<or> sn_events n \<noteq> 0 \<or> ds_enabled (sn_discovery n)"

definition validate_update :: "session_store \<Rightarrow> snapshot \<Rightarrow> unit result" where
  "validate_update s n =
     bind_result (nonnegative (sn_elapsed n) ''session elapsed time'') (\<lambda>_.
     bind_result (nonnegative (sn_input n) ''session input time'') (\<lambda>_.
     bind_result (nonnegative (sn_measured n) ''session measurement time'') (\<lambda>_.
     bind_result (validate_discovery_status (sn_discovery n) (cf_discover (ss_config s))) (\<lambda>_.
     bind_result (guard_err (au_enabled (sn_automatic n) \<noteq> cf_automatic (ss_config s))
       ''Automatic decoding mode differs from acquisition'') (\<lambda>_.
     guard_err (ss_version s = 7 \<and> concentrator_claims_sdr n)
       ''Concentrator scans cannot be reported as continuous SDR measurements'')))))"

text \<open>Health is recorded in fixed words, never the diagnostics of a device.\<close>

definition health_row :: "nat \<Rightarrow> concentrator_health \<Rightarrow> row result" where
  "health_row i h =
     bind_result (nonnegative (ch_ready_elapsed h) ''concentrator ready time'') (\<lambda>_.
     bind_result (nonnegative (ch_last_update h) ''concentrator update time'') (\<lambda>_.
     bind_result (guard_err (ch_ready_elapsed h > 10000000000 \<or> ch_last_update h > 10000000000 \<or>
         ch_scans h > int64_max \<or> ch_samples h > int64_max \<or> ch_receptions h > int64_max \<or> ch_crc_failures h > int64_max)
       ''Invalid concentrator health counters'') (\<lambda>_.
     insert_row [SInt (int i), SText (if ch_ready h then ''Receiving'' else ''Not ready''), int_of_bool (ch_ready h),
       int_of_u64 (ch_scans h), int_of_u64 (ch_samples h), int_of_u64 (ch_receptions h), int_of_u64 (ch_crc_failures h),
       SReal (ch_ready_elapsed h), SReal (ch_last_update h)])))"

definition lane_health_row :: "lane_health \<Rightarrow> row result" where
  "lane_health_row l =
     bind_result (nonnegative (lh_processed l) ''decoder observed time'') (\<lambda>_.
     insert_row [SText (lh_label l), int_of_u64 (lh_freq l), SReal (lh_processed l), int_of_u64 (lh_frames l),
       int_of_u64 (lh_classified l), int_of_u64 (lh_crc_failures l), int_of_u64 (lh_resets l), SText (lh_state l)])"

definition band_values :: "band_coverage \<Rightarrow> row" where
  "band_values b =
     [int_of_u32 (bd_index b), SReal (bd_center b), int_of_u64 (bd_processed b), int_of_u64 (bd_abandoned b),
      int_of_u64 (bd_source_gap b), int_of_u64 (bd_candidate_hits b), int_of_u64 (bd_track_hits b)]"

fun rows_of :: "(nat \<Rightarrow> 'a \<Rightarrow> row result) \<Rightarrow> nat \<Rightarrow> 'a list \<Rightarrow> row list result" where
  "rows_of f i [] = Inr []"
| "rows_of f i (x # xs) = bind_result (f i x) (\<lambda>r. bind_result (rows_of f (Suc i) xs) (\<lambda>rs. Inr (r # rs)))"

text \<open>
  The upsert of a frequency: the key is the center, and its width as well when the recording
  keeps its acquisitions.
\<close>

definition same_bin :: "bool \<Rightarrow> row \<Rightarrow> row \<Rightarrow> bool" where
  "same_bin segmented a b \<longleftrightarrow> column a 0 = column b 0 \<and> (segmented \<longrightarrow> column a 1 = column b 1)"

fun put_bins :: "bool \<Rightarrow> frequency_summary list \<Rightarrow> row list \<Rightarrow> row list result" where
  "put_bins segmented [] rows = Inr rows"
| "put_bins segmented (b # bs) rows =
     bind_result (validate_bin b) (\<lambda>_.
     bind_result (insert_row [int_of_u64 (fs_center b), int_of_u32 (fs_width b), SReal (fs_mean b), SReal (fs_peak b),
         SReal (fs_observed b), SReal (fs_active b)]) (\<lambda>r.
     put_bins segmented bs (if list_ex (same_bin segmented r) rows
       then map (\<lambda>old. if same_bin segmented r old then r else old) rows else rows @ [r])))"

definition session_values :: "snapshot \<Rightarrow> bool \<Rightarrow> row" where
  "session_values n final =
     [int_of_bool (final \<and> \<not> sn_incomplete n), SReal (sn_elapsed n), SReal (sn_input n), SReal (sn_measured n),
      int_of_u64 (sn_delivered n), int_of_u64 (sn_dropped n), int_of_u64 (sn_total n), int_of_u64 (sn_classified n)]"

definition coverage_values :: "session_store \<Rightarrow> snapshot \<Rightarrow> bool \<Rightarrow> row" where
  "coverage_values s n final =
     [SReal 0, SReal (sn_elapsed n), SReal (sn_input n), SReal (sn_measured n), int_of_u64 (sn_dropped n),
      SText (if ss_version s = 7 then (if final then ''Concentrator stopped'' else ''Concentrator receiving'')
        else sn_state n)]"

definition update_tables ::
    "snapshot \<Rightarrow> bool \<Rightarrow> session_store \<times> store_summary \<Rightarrow> (session_store \<times> store_summary) result" where
  "update_tables n final = (\<lambda>(s, y).
     bind_result (if ss_version s = 7 then
         bind_result (guard_err (length (sn_health n) > length (cc_boards (cf_boards (ss_config s))))
           ''Too many concentrator health records'') (\<lambda>_. rows_of health_row 0 (sn_health n))
       else Inr (sy_health y)) (\<lambda>health.
     bind_result (insert_row (session_values n final)) (\<lambda>session.
     bind_result (put_bins (ss_segmented s) (sn_frequencies n) (sy_frequencies y)) (\<lambda>bins.
     bind_result (automatic_row (ss_acquisition s) (sn_automatic n)) (\<lambda>decoder.
     bind_result (rows_of (\<lambda>_. lane_health_row) 0 (sn_lanes n)) (\<lambda>lanes.
     bind_result (insert_row (discovery_status_values (sn_discovery n))) (\<lambda>discovery.
     bind_result (rows_of (\<lambda>_ b. insert_row (band_values b)) 0 (ds_bands (sn_discovery n))) (\<lambda>bands.
     bind_result (insert_row (coverage_values s n final)) (\<lambda>coverage.
     Inr (replace_decoder (ss_acquisition s) decoder (finish_acquisition (sn_elapsed n) final s),
       \<lparr>sy_session = session, sy_frequencies = bins, sy_lanes = lanes, sy_discovery = [discovery], sy_bands = bands,
        sy_coverage = sy_coverage y @ [coverage], sy_health = health\<rparr>))))))))))"

section \<open>Revisions\<close>

record recording =
  rg_live :: session_store
  rg_summary :: store_summary
  rg_saved :: "session_store \<times> store_summary"

definition commit :: "session_store \<Rightarrow> store_summary \<Rightarrow> recording" where
  "commit s y = (let s' = s\<lparr>ss_pending := False\<rparr> in \<lparr>rg_live = s', rg_summary = y, rg_saved = (s', y)\<rparr>)"

text \<open>\<open>ROLLBACK\<close> restores the tables; the members of the object keep their values.\<close>

definition roll_back :: "session_store \<Rightarrow> session_store \<Rightarrow> session_store" where
  "roll_back saved s = s
     \<lparr>ss_pending := False, tb_receptions := tb_receptions saved, tb_packets := tb_packets saved,
      tb_positions := tb_positions saved, tb_windows := tb_windows saved, tb_window_bins := tb_window_bins saved,
      tb_power := tb_power saved, tb_tiles := tb_tiles saved, tb_events := tb_events saved, tb_gaps := tb_gaps saved,
      tb_waveforms := tb_waveforms saved, tb_discovery_gaps := tb_discovery_gaps saved, tb_scans := tb_scans saved,
      tb_acquisitions := tb_acquisitions saved, tb_lanes := tb_lanes saved, tb_automatic := tb_automatic saved\<rparr>"

definition update :: "snapshot \<Rightarrow> bool \<Rightarrow> recording \<Rightarrow> unit result \<times> recording" where
  "update n final g =
     (case validate_update (rg_live g) n of
        Inl e \<Rightarrow> (Inl e, g)
      | Inr _ \<Rightarrow>
          (case begin_batch (rg_live g) of
             (Inl e, _) \<Rightarrow> (Inl e, g)
           | (Inr _, s) \<Rightarrow>
               (case update_tables n final (s, rg_summary g) of
                  Inl e \<Rightarrow> (Inl e, g\<lparr>rg_live := roll_back (fst (rg_saved g)) s, rg_summary := snd (rg_saved g)\<rparr>)
                | Inr (s', y) \<Rightarrow> (Inr (), commit s' y))))"

text \<open>\<open>begin_acquisition\<close> publishes the acquisition and its setup as one revision.\<close>

definition published :: "acquisition_segment \<Rightarrow> store_summary \<Rightarrow> store_summary" where
  "published a y = y
     \<lparr>sy_session := (sy_session y)[0 := SInt 0, 1 := (case column (sy_session y) 1 of
          SReal elapsed \<Rightarrow> SReal (max elapsed (sg_end a)) | v \<Rightarrow> v)],
      sy_discovery := [discovery_status_values (new_discovery_status\<lparr>ds_enabled := cf_discover (sg_config a)\<rparr>)],
      sy_bands := []\<rparr>"

definition start_segment :: "math_library \<Rightarrow> acquisition_segment \<Rightarrow> recording \<Rightarrow> unit result \<times> recording" where
  "start_segment ma a g =
     (case begin_acquisition ma a (rg_live g) of
        (Inl e, s) \<Rightarrow> (Inl e, g\<lparr>rg_live := s\<rparr>)
      | (Inr _, s) \<Rightarrow> (Inr (), commit s (published a (rg_summary g))))"

text \<open>A new recording that keeps its acquisitions, as the engine starts one.\<close>

definition new_recording :: "receiver_config \<Rightarrow> recording result" where
  "new_recording c =
     bind_result (create_session c) (\<lambda>s.
     case enable_acquisitions s of
       (Inl e, _) \<Rightarrow> Inl e
     | (Inr _, s') \<Rightarrow> Inr (commit s' (new_summary c)))"

text \<open>
  A checkpoint of the engine. The elapsed time that it saves is at least where the acquisition in
  progress started: \<open>process\<close> takes the maximum with that start; \<open>process_concentrators\<close> saves the time
  since the recording started, and the start of the acquisition is an earlier reading of that clock.
\<close>

definition checkpoint :: "rat \<Rightarrow> snapshot \<Rightarrow> bool \<Rightarrow> recording \<Rightarrow> unit result \<times> recording" where
  "checkpoint run_start n final g = update (n\<lparr>sn_elapsed := max run_start (sn_elapsed n)\<rparr>) final g"

text \<open>
  One call of the engine on the recording, whether it returns or throws, with the start of the
  acquisition in progress. The first acquisition has the decoder setting that the recording was
  created with, because \<open>Engine::start\<close> creates the recording for it. No time beyond \<open>10 ^ 10\<close> seconds is
  saved: \<open>update\<close> does not check that, and the reader would refuse the acquisition.
\<close>

inductive recording_step :: "math_library \<Rightarrow> receiver_config \<Rightarrow> recording \<times> rat \<Rightarrow> recording \<times> rat \<Rightarrow> bool"
  for ma c where
  record_step: "recording_step ma c (g, t) (g\<lparr>rg_live := snd (perform ma op (rg_live g))\<rparr>, t)"
| segment_step:
    "(sg_id a = 1 \<longrightarrow> cf_automatic (sg_config a) = cf_automatic c) \<Longrightarrow> start_segment ma a g = (r, g') \<Longrightarrow>
     recording_step ma c (g, t) (g', case r of Inl e \<Rightarrow> t | Inr _ \<Rightarrow> sg_start a)"
| checkpoint_step:
    "max t (sn_elapsed n) \<le> 10000000000 \<Longrightarrow> recording_step ma c (g, t) (snd (checkpoint t n final g), t)"

end
