(* ===== verification/SavedConfig.thy ===== *)
theory SavedConfig
  imports Acquisitions
begin

text \<open>
  The receiver configuration of a recording (\<open>create\<close> and \<open>read\<close> of \<open>storage.cpp\<close>): the rows that
  are written once, when the file is made, and the configuration that a later reader rebuilds
  from them and from the decoder of the first acquisition. Every acquisition is checked against
  that configuration, not against the one that the writer held.
  The last part shows that what was written is read back, and that a history accepted under the
  writer's configuration is accepted under the one that is read.
\<close>

section \<open>Writing\<close>

text \<open>
  The columns of the session row up to the threshold, then the tuning offset and the discovery
  flag; the counters in between are those of the summary. There is one such row, and the rows of
  the boards are in the order of their index, as written. The version is that of the schema.
\<close>

record session_setup =
  su_version :: nat
  su_session :: row
  su_receiver :: "row list"
  su_concentrator :: "row list"
  su_profiles :: "row list"
  su_lanes :: "row list"

definition source_code :: "receiver_config \<Rightarrow> int" where
  "source_code c = (if is_rak c then 3 else if is_rtl c then 2 else if cf_synthetic c then 1 else 0)"

definition concentrator_method :: string where
  "concentrator_method = ''SX1261 sampled RSSI histogram; 33 bins in HAL order; nominal 234300 Hz filter; vendor -11 dB offset; uncalibrated''"

definition concentrator_coverage :: string where
  "concentrator_coverage = ''Samples are not continuous occupancy or packet airtime; host transaction bounds are not RF dwell; unsampled frequencies and intervals are unassessed''"

definition session_columns :: "string \<Rightarrow> string \<Rightarrow> receiver_config \<Rightarrow> row" where
  "session_columns app ident c =
     [SText ident, SText (cf_title c), SText app, SInt (source_code c), int_of_u64 (cf_center c), int_of_u32 (cf_rate c),
      int_of_u32 (cf_span c), int_of_u32 (cf_lna c), int_of_u32 (cf_vga c), int_of_bool (cf_amp c), number (cf_threshold c),
      SInt (cf_offset c), int_of_bool (cf_discover c)]"

definition saved_lane_columns :: "lane_config \<Rightarrow> row" where
  "saved_lane_columns l =
     [SText (ln_label l), SText (ln_channel l), SText (ln_protocol l), int_of_u64 (ln_freq l), int_of_u32 (ln_bw l),
      SInt (uint (ln_sf l)), SInt (uint (ln_cr l)), int_of_bool (ln_enabled l)]"

definition concentrator_columns :: "receiver_config \<Rightarrow> row" where
  "concentrator_columns c =
     [SInt 1, SInt 1, int_of_bool (cc_scan (cf_boards c)), int_of_u32 (cc_step (cf_boards c)),
      int_of_u32 (cc_samples (cf_boards c)), SText concentrator_method, SText concentrator_coverage,
      SText (cf_antenna c), SText (cf_receiver c), SText (cf_notes c), int_of_bool (cc_decode (cf_boards c))]"

definition board_columns :: "nat \<Rightarrow> board_config \<Rightarrow> row" where
  "board_columns i b =
     [SInt (int i), int_of_bool (bc_packets b), int_of_u64 (bc_freq b), int_of_u32 (bc_bw b), int_of_u32 (bc_sf b),
      int_of_u32 (bc_sync b)]"

fun insert_rows :: "row list \<Rightarrow> row list result" where
  "insert_rows [] = Inr []"
| "insert_rows (v # vs) = bind_result (insert_row v) (\<lambda>r. bind_result (insert_rows vs) (\<lambda>rs. Inr (r # rs)))"

definition write_setup :: "string \<Rightarrow> string \<Rightarrow> receiver_config \<Rightarrow> session_setup result" where
  "write_setup app ident c =
     bind_result (insert_row (session_columns app ident c)) (\<lambda>session.
     bind_result (insert_rows (if is_rtl c
       then [[SInt 1, SText ''rtl_sdr'', SInt (cf_rtl_gain c), int_of_bool (cf_rtl_auto c)]] else [])) (\<lambda>rtl.
     bind_result (insert_rows (map saved_lane_columns (cf_lanes c))) (\<lambda>lanes.
     bind_result (insert_rows (if is_rak c then [concentrator_columns c] else [])) (\<lambda>conc.
     bind_result (insert_rows (if is_rak c
       then map (\<lambda>(i, b). board_columns i b) (enumerate 0 (cc_boards (cf_boards c))) else [])) (\<lambda>profiles.
     Inr \<lparr>su_version = (if is_rak c then 7 else if cf_compact c then 6 else 5), su_session = session, su_receiver = rtl,
       su_concentrator = conc, su_profiles = profiles, su_lanes = lanes\<rparr>)))))"

section \<open>Reading\<close>

definition read_receiver_setup :: "row list \<Rightarrow> receiver_config \<Rightarrow> receiver_config result" where
  "read_receiver_setup rows c =
     (case rows of
        [] \<Rightarrow> Inl ''Missing or invalid RTL-SDR receiver metadata''
      | r # rest \<Rightarrow>
          bind_result (integer_at r 0) (\<lambda>i.
          bind_result (guard_err (i \<noteq> 1) ''Missing or invalid RTL-SDR receiver metadata'') (\<lambda>_.
          bind_result (text_at r 1) (\<lambda>hardware.
          bind_result (guard_err (hardware \<noteq> ''rtl_sdr'') ''Missing or invalid RTL-SDR receiver metadata'') (\<lambda>_.
          bind_result (integer_at r 2) (\<lambda>gain.
          bind_result (guard_err (gain < - 100 \<or> gain > 600) ''Invalid saved RTL-SDR tuner gain'') (\<lambda>_.
          bind_result (boolean_at r 3) (\<lambda>auto.
          bind_result (guard_err (rest \<noteq> []) ''Multiple RTL-SDR receiver metadata records'') (\<lambda>_.
          Inr (c\<lparr>cf_rtl_gain := gain, cf_rtl_auto := auto\<rparr>))))))))))"

fun boards_from :: "board_config list \<Rightarrow> row list \<Rightarrow> board_config list result" where
  "boards_from sofar [] = Inr sofar"
| "boards_from sofar (r # rs) =
     bind_result (guard_err (length sofar \<ge> 2) ''Invalid concentrator board index'') (\<lambda>_.
     bind_result (unsigned_at r 0 1) (\<lambda>i.
     bind_result (guard_err (unat i \<noteq> length sofar) ''Invalid concentrator board index'') (\<lambda>_.
     bind_result (boolean_at r 1) (\<lambda>packets.
     bind_result (unsigned_at r 2 928000000) (\<lambda>freq.
     bind_result (unsigned_at r 3 500000) (\<lambda>bw.
     bind_result (unsigned_at r 4 12) (\<lambda>sf.
     bind_result (unsigned_at r 5 255) (\<lambda>sync.
     boards_from (sofar @ [\<lparr>bc_path = [], bc_id = [], bc_packets = packets, bc_freq = freq, bc_bw = ucast bw,
       bc_sf = ucast sf, bc_sync = ucast sync\<rparr>]) rs))))))))"

definition read_concentrator_setup :: "row list \<Rightarrow> row list \<Rightarrow> receiver_config \<Rightarrow> receiver_config result" where
  "read_concentrator_setup rows profiles c =
     (case rows of
        [] \<Rightarrow> Inl ''Unsupported concentrator measurement method''
      | r # rest \<Rightarrow>
          bind_result (integer_at r 0) (\<lambda>i.
          bind_result (integer_at r 1) (\<lambda>version.
          bind_result (text_at r 5) (\<lambda>how.
          bind_result (text_at r 6) (\<lambda>coverage.
          bind_result (guard_err (i \<noteq> 1 \<or> version \<noteq> 1 \<or> how \<noteq> concentrator_method \<or> coverage \<noteq> concentrator_coverage)
            ''Unsupported concentrator measurement method'') (\<lambda>_.
          bind_result (boolean_at r 2) (\<lambda>scan.
          bind_result (unsigned_at r 3 1000000) (\<lambda>step.
          bind_result (unsigned_at r 4 2000) (\<lambda>samples.
          bind_result (text_at r 7) (\<lambda>antenna.
          bind_result (text_at r 8) (\<lambda>receiver.
          bind_result (text_at r 9) (\<lambda>notes.
          bind_result (boolean_at r 10) (\<lambda>decode.
          bind_result (guard_err (length antenna > 512 \<or> length receiver > 512 \<or> length notes > 2048 \<or> rest \<noteq> [])
            ''Invalid concentrator provenance'') (\<lambda>_.
          bind_result (boards_from [] (take 3 profiles)) (\<lambda>boards.
          let cfg = \<lparr>cc_boards = boards, cc_scan = scan, cc_decode = decode, cc_step = ucast step, cc_samples = ucast samples\<rparr>
          in bind_result (validate_concentrator_config cfg (cf_center c) (cf_span c) (cf_offset c) False) (\<lambda>_.
          Inr (c\<lparr>cf_boards := cfg, cf_antenna := antenna, cf_receiver := receiver, cf_notes := notes\<rparr>)))))))))))))))))"

text \<open>The rows of the decoder, in the order of their acquisitions; the first one decides.\<close>

definition decoder_order :: "row \<Rightarrow> int" where
  "decoder_order r = (case column r 0 of SInt i \<Rightarrow> i | _ \<Rightarrow> 0)"

definition read_decoders :: "row list \<Rightarrow> bool result" where
  "read_decoders table =
     (let rows = take 2050 (sort_key decoder_order table) in
      bind_result (for_each (\<lambda>i r. bind_result (guard_err (i \<ge> 2049) ''Too many decoder metadata rows'') (\<lambda>_.
        bind_result (automatic_from r) (\<lambda>_. Inr ()))) 0 rows) (\<lambda>_.
      case rows of
        [] \<Rightarrow> Inl ''Missing automatic decoder metadata''
      | r # _ \<Rightarrow> bind_result (automatic_from r) (\<lambda>d. Inr (au_enabled d))))"

fun saved_lanes_from :: "lane_config list \<Rightarrow> row list \<Rightarrow> lane_config list result" where
  "saved_lanes_from sofar [] = Inr sofar"
| "saved_lanes_from sofar (r # rs) =
     bind_result (guard_err (length sofar \<ge> 8) ''Too many saved decode profiles'') (\<lambda>_.
     bind_result (text_at r 0) (\<lambda>label.
     bind_result (text_at r 1) (\<lambda>channel.
     bind_result (text_at r 2) (\<lambda>proto.
     bind_result (unsigned_at r 3 6000000000) (\<lambda>freq.
     bind_result (unsigned_at r 4 2000000) (\<lambda>bw.
     bind_result (unsigned_at r 5 12) (\<lambda>sf.
     bind_result (unsigned_at r 6 8) (\<lambda>cr.
     bind_result (boolean_at r 7) (\<lambda>enabled.
     bind_result (guard_err (length label > 160 \<or> length channel > 160 \<or> freq = 0 \<or> bw = 0 \<or> sf < 5 \<or> cr < 5 \<or>
         (proto \<noteq> ''Meshtastic'' \<and> proto \<noteq> ''MeshCore''))
       ''Invalid saved decoder profile'') (\<lambda>_.
     saved_lanes_from (sofar @ [\<lparr>ln_label = label, ln_channel = channel, ln_protocol = proto, ln_freq = freq,
       ln_bw = ucast bw, ln_sf = ucast sf, ln_cr = ucast cr, ln_enabled = enabled\<rparr>]) rs))))))))))"

definition saved_config_bad :: "string \<Rightarrow> u64 \<Rightarrow> receiver_config \<Rightarrow> bool" where
  "saved_config_bad ident source c \<longleftrightarrow>
     cf_center c = 0 \<or> (source \<noteq> 3 \<and> cf_rate c = 0) \<or> cf_span c = 0 \<or> (source \<noteq> 3 \<and> cf_span c > cf_rate c) \<or>
     cf_lna c mod 8 \<noteq> 0 \<or> cf_vga c mod 2 \<noteq> 0 \<or> ident = [] \<or> length ident > 160 \<or> length (cf_title c) > 160"

definition saved_rtl_bad :: "receiver_config \<Rightarrow> bool" where
  "saved_rtl_bad c \<longleftrightarrow> (cf_rate c \<noteq> 1000000 \<and> cf_rate c \<noteq> 2000000) \<or> cf_amp c \<or> cf_span c < 500000 \<or>
     cf_span c > cf_rate c * 4 div 5 \<or> (cf_discover c \<and> (cf_rate c \<noteq> 2000000 \<or> cf_span c > 1500000))"

definition read_config :: "session_setup \<Rightarrow> row list \<Rightarrow> receiver_config result" where
  "read_config u decoders =
     (let s = su_session u in
     bind_result (text_at s 0) (\<lambda>ident.
     bind_result (text_at s 1) (\<lambda>title.
     bind_result (unsigned_at s 3 (if su_version u \<ge> 7 then 3 else if su_version u \<ge> 5 then 2 else 1)) (\<lambda>source.
     let c = default_config\<lparr>cf_title := title, cf_synthetic := (source = 1),
       cf_hardware := (if source = 3 then Rak5146 else if source = 2 then RtlSdr else HackRf)\<rparr>
     in
     bind_result (if source = 2 then read_receiver_setup (su_receiver u) c else Inr c) (\<lambda>c.
     bind_result (unsigned_at s 4 6000000000) (\<lambda>center.
     bind_result (unsigned_at s 5 20000000) (\<lambda>rate.
     bind_result (unsigned_at s 6 (if source = 3 then 26000000 else 20000000)) (\<lambda>wid.
     bind_result (unsigned_at s 7 40) (\<lambda>lna.
     bind_result (unsigned_at s 8 62) (\<lambda>vga.
     bind_result (boolean_at s 9) (\<lambda>amp.
     bind_result (real_at s 10) (\<lambda>threshold.
     bind_result (if su_version u \<ge> 2 then integer_at s 11 else Inr 0) (\<lambda>offset.
     bind_result (if su_version u \<ge> 5 then boolean_at s 12 else Inr False) (\<lambda>discover.
     bind_result (read_decoders decoders) (\<lambda>automatic.
     let c = c\<lparr>cf_center := center, cf_rate := ucast rate, cf_span := ucast wid, cf_lna := ucast lna, cf_vga := ucast vga,
       cf_amp := amp, cf_threshold := Some threshold, cf_offset := offset, cf_discover := discover,
       cf_automatic := automatic, cf_compact := (su_version u \<ge> 6)\<rparr>
     in
     bind_result (if source = 3 then read_concentrator_setup (su_concentrator u) (su_profiles u) c else Inr c) (\<lambda>c.
     bind_result (tuned_center_hz c) (\<lambda>_.
     bind_result (guard_err (cf_automatic c \<and> \<not> cf_discover c) ''Automatic decoding requires waveform discovery'') (\<lambda>_.
     bind_result (guard_err (saved_config_bad ident source c) ''Invalid saved receiver configuration'') (\<lambda>_.
     bind_result (guard_err (source = 2 \<and> saved_rtl_bad c) ''Invalid saved RTL-SDR receiver configuration'') (\<lambda>_.
     bind_result (saved_lanes_from [] (take 9 (su_lanes u))) (\<lambda>lanes.
     Inr (c\<lparr>cf_lanes := lanes\<rparr>))))))))))))))))))))))"

section \<open>Reading what was written\<close>

lemma insert_rows_Inr:
  "insert_rows vs = Inr rs \<longleftrightarrow> rs = vs \<and> (\<forall>r\<in>set vs. \<forall>v\<in>set r. bind_value v = Inr ())"
  by (induction vs arbitrary: rs) (auto simp: bind_result_Inr insert_row_Inr)

lemma u64_of_u8: "ucast (word_of_int (uint (x :: u8)) :: u64) = x"
  by (rule bit_word_eqI) (simp add: bit_ucast_iff bit_word_of_int_iff bit_uint_iff bit_imp_le_length)

lemma rtl_read:
  assumes "- 100 \<le> cf_rtl_gain l" "cf_rtl_gain l \<le> 600"
  shows "read_receiver_setup [[SInt 1, SText ''rtl_sdr'', SInt (cf_rtl_gain l), int_of_bool (cf_rtl_auto l)]] c =
    Inr (c\<lparr>cf_rtl_gain := cf_rtl_gain l, cf_rtl_auto := cf_rtl_auto l\<rparr>)"
proof -
  have "valid_utf8 ''rtl_sdr''" by code_simp
  then have "bind_value (SText ''rtl_sdr'') = Inr ()" by (simp add: bind_value_def)
  then show ?thesis using assms by (simp add: read_receiver_setup_def row_simps guard_err_def)
qed

text \<open>The profiles that a reader accepts.\<close>

definition lane_savable :: "lane_config \<Rightarrow> bool" where
  "lane_savable l \<longleftrightarrow> length (ln_label l) \<le> 160 \<and> length (ln_channel l) \<le> 160 \<and>
     ln_protocol l \<in> {''Meshtastic'', ''MeshCore''} \<and> 0 < ln_freq l \<and> ln_freq l \<le> 6000000000 \<and>
     0 < ln_bw l \<and> ln_bw l \<le> 2000000 \<and> 5 \<le> ln_sf l \<and> ln_sf l \<le> 12 \<and> 5 \<le> ln_cr l \<and> ln_cr l \<le> 8"

lemma u8_range: "a \<le> (w :: u8) \<Longrightarrow> uint a \<le> uint w"
  by (simp add: word_le_def)

lemma saved_lane_read:
  assumes "lane_savable l" "\<forall>v\<in>set (saved_lane_columns l). bind_value v = Inr ()" "length front < 8"
  shows "saved_lanes_from front (saved_lane_columns l # rs) = saved_lanes_from (front @ [l]) rs"
proof -
  let ?r = "saved_lane_columns l"
  have t: "bind_value (SText (ln_label l)) = Inr ()" "bind_value (SText (ln_channel l)) = Inr ()"
    "bind_value (SText (ln_protocol l)) = Inr ()"
    using assms(2) by (simp_all add: saved_lane_columns_def)
  have b: "ln_freq l \<le> 6000000000" "uint (ln_bw l) \<le> 2000000" "5 \<le> uint (ln_sf l)" "uint (ln_sf l) \<le> 12"
    "5 \<le> uint (ln_cr l)" "uint (ln_cr l) \<le> 8"
    using assms(1) by (simp_all add: lane_savable_def word_le_def)
  have rd: "text_at ?r 0 = Inr (ln_label l)" "text_at ?r 1 = Inr (ln_channel l)" "text_at ?r 2 = Inr (ln_protocol l)"
    "unsigned_at ?r 3 6000000000 = Inr (ln_freq l)" "unsigned_at ?r 4 2000000 = Inr (ucast (ln_bw l))"
    "unsigned_at ?r 5 12 = Inr (word_of_int (uint (ln_sf l)))" "unsigned_at ?r 6 8 = Inr (word_of_int (uint (ln_cr l)))"
    "boolean_at ?r 7 = Inr (ln_enabled l)"
    using b t by (simp_all only: readers_find, simp_all add: saved_lane_columns_def row_simps)
  have w: "uint (word_of_int (uint x) :: u64) = uint x" for x :: u8
  proof -
    have "uint x < 2 ^ 8" using uint_lt2p [of x] by simp
    then show ?thesis by (simp add: unsigned_ucast_eq take_bit_int_eq_self)
  qed
  have n: "\<not> (word_of_int (uint (ln_sf l)) :: u64) < 5" "\<not> (word_of_int (uint (ln_cr l)) :: u64) < 5"
    using b by (simp_all only: word_less_def w) simp_all
  have "unat (ln_bw l) \<noteq> 0" using assms(1) by (auto simp: lane_savable_def word_less_nat_alt)
  then have z: "(ucast (ln_bw l) :: u64) \<noteq> 0" by (metis unat_ucast_32_64 unat_0)
  have ok: "\<not> (length (ln_label l) > 160 \<or> length (ln_channel l) > 160 \<or> ln_freq l = 0 \<or> (ucast (ln_bw l) :: u64) = 0 \<or>
      (word_of_int (uint (ln_sf l)) :: u64) < 5 \<or> (word_of_int (uint (ln_cr l)) :: u64) < 5 \<or>
      (ln_protocol l \<noteq> ''Meshtastic'' \<and> ln_protocol l \<noteq> ''MeshCore''))"
    using assms(1) n z unfolding lane_savable_def by auto
  have front: "\<not> length front \<ge> 8" using assms(3) by simp
  show ?thesis
    by (simp only: saved_lanes_from.simps rd bind_result_simps guard_err_def ok front if_False u64_of_u8 ucast_u32)
      (cases l; simp)
qed

lemma saved_lanes_read:
  assumes "list_all lane_savable ls" "\<forall>r\<in>set (map saved_lane_columns ls). \<forall>v\<in>set r. bind_value v = Inr ()"
    "length front + length ls \<le> 8"
  shows "saved_lanes_from front (map saved_lane_columns ls) = Inr (front @ ls)"
  using assms
proof (induction ls arbitrary: front)
  case (Cons l ls)
  then show ?case using saved_lane_read [of l front "map saved_lane_columns ls"] by simp
qed simp

definition unnamed_board :: "board_config \<Rightarrow> board_config" where
  "unnamed_board b = b\<lparr>bc_path := [], bc_id := []\<rparr>"

definition unnamed_boards :: "concentrator_config \<Rightarrow> concentrator_config" where
  "unnamed_boards c = c\<lparr>cc_boards := map unnamed_board (cc_boards c)\<rparr>"

definition board_savable :: "board_config \<Rightarrow> bool" where
  "board_savable b \<longleftrightarrow> bc_freq b \<le> 928000000 \<and> bc_bw b \<le> 500000 \<and> bc_sf b \<le> 12 \<and> bc_sync b \<le> 255"

lemma board_read:
  assumes "board_savable b" "length front < 2"
  shows "boards_from front (board_columns (length front) b # rs) = boards_from (front @ [unnamed_board b]) rs"
proof -
  let ?r = "board_columns (length front) b"
  have b: "bc_freq b \<le> 928000000" "uint (bc_bw b) \<le> 500000" "uint (bc_sf b) \<le> 12" "uint (bc_sync b) \<le> 255"
    using assms(1) by (simp_all add: board_savable_def word_le_def)
  have k: "int (length front) \<le> 1" using assms(2) by simp
  have rd: "unsigned_at ?r 0 1 = Inr (word_of_int (int (length front)))" "boolean_at ?r 1 = Inr (bc_packets b)"
    "unsigned_at ?r 2 928000000 = Inr (bc_freq b)" "unsigned_at ?r 3 500000 = Inr (ucast (bc_bw b))"
    "unsigned_at ?r 4 12 = Inr (ucast (bc_sf b))" "unsigned_at ?r 5 255 = Inr (ucast (bc_sync b))"
    using b k by (simp_all only: readers_find, simp_all add: board_columns_def row_simps del: of_int_of_nat_eq)
  have n: "unat (word_of_int (int (length front)) :: u64) = length front" using assms(2) by (simp add: unat_of_nat)
  have front: "\<not> length front \<ge> 2" using assms(2) by simp
  show ?thesis
    by (simp only: boards_from.simps rd bind_result_simps guard_err_def n front not_True_eq_False refl if_False ucast_u32)
      (cases b; simp add: unnamed_board_def)
qed

lemma boards_read:
  "list_all board_savable bs \<Longrightarrow> length front + length bs \<le> 2 \<Longrightarrow>
    boards_from front (map (\<lambda>(i, b). board_columns i b) (enumerate (length front) bs)) = Inr (front @ map unnamed_board bs)"
proof (induction bs arbitrary: front)
  case (Cons b bs)
  then show ?case
    using board_read [of b front] Cons.IH [of "front @ [unnamed_board b]"] by simp
qed simp

lemma for_each_map: "for_each f i (map g xs) = for_each (\<lambda>i x. f i (g x)) i xs"
  by (induction xs arbitrary: i) simp_all

lemma unnamed_board_valid:
  "validate_board (unnamed_boards c) center wid False i (unnamed_board b) = validate_board c center wid False i b"
  by (simp add: validate_board_def unnamed_boards_def unnamed_board_def)

lemma unnamed_valid:
  "validate_concentrator_config (unnamed_boards c) center wid offset False = validate_concentrator_config c center wid offset False"
proof -
  have "cc_boards (unnamed_boards c) = map unnamed_board (cc_boards c)" "cc_step (unnamed_boards c) = cc_step c"
    "cc_samples (unnamed_boards c) = cc_samples c"
    by (simp_all add: unnamed_boards_def)
  then show ?thesis
    by (simp only: validate_concentrator_config_def for_each_map unnamed_board_valid map_is_Nil_conv length_map)
qed

lemma valid_boards_savable:
  assumes "validate_concentrator_config c center wid offset False = Inr ()"
  shows "list_all board_savable (cc_boards c)" "length (cc_boards c) \<le> 2" "unat (cc_step c) \<le> 1000000" "cc_samples c = 2000"
proof -
  note v = assms [unfolded validate_concentrator_config_def bind_result_Inr guard_err_Inr for_each_Inr]
  show "length (cc_boards c) \<le> 2" "unat (cc_step c) \<le> 1000000" "cc_samples c = 2000" using v by (auto simp: not_less)
  show "list_all board_savable (cc_boards c)"
    unfolding list_all_length
  proof (intro allI impI)
    fix j assume "j < length (cc_boards c)"
    then have "validate_board c center wid False j (cc_boards c ! j) = Inr ()" using v by simp
    then show "board_savable (cc_boards c ! j)"
      by (auto simp: validate_board_def bind_result_Inr board_savable_def word_le_nat_alt not_less)
  qed
qed

lemma concentrator_read:
  assumes bind: "\<forall>v\<in>set (concentrator_columns l). bind_value v = Inr ()"
    and v: "validate_concentrator_config (cf_boards l) (cf_center c) (cf_span c) (cf_offset c) False = Inr ()"
    and len: "length (cf_antenna l) \<le> 512" "length (cf_receiver l) \<le> 512" "length (cf_notes l) \<le> 2048"
  shows "read_concentrator_setup [concentrator_columns l] (map (\<lambda>(i, b). board_columns i b) (enumerate 0 (cc_boards (cf_boards l)))) c =
    Inr (c\<lparr>cf_boards := unnamed_boards (cf_boards l), cf_antenna := cf_antenna l, cf_receiver := cf_receiver l, cf_notes := cf_notes l\<rparr>)"
proof -
  let ?r = "concentrator_columns l" and ?b = "cf_boards l"
  note s = valid_boards_savable [OF v]
  have t: "bind_value (SText concentrator_method) = Inr ()" "bind_value (SText concentrator_coverage) = Inr ()"
    "bind_value (SText (cf_antenna l)) = Inr ()" "bind_value (SText (cf_receiver l)) = Inr ()" "bind_value (SText (cf_notes l)) = Inr ()"
    using bind by (simp_all add: concentrator_columns_def)
  have "int (unat (cc_step ?b)) \<le> 1000000" using s(3) by linarith
  then have u: "uint (cc_step ?b) \<le> 1000000" "uint (cc_samples ?b) \<le> 2000" using s(4) by (simp_all only: uint_nat) simp
  have rd: "integer_at ?r 0 = Inr 1" "integer_at ?r 1 = Inr 1" "text_at ?r 5 = Inr concentrator_method"
    "text_at ?r 6 = Inr concentrator_coverage" "boolean_at ?r 2 = Inr (cc_scan ?b)" "unsigned_at ?r 3 1000000 = Inr (ucast (cc_step ?b))"
    "unsigned_at ?r 4 2000 = Inr (ucast (cc_samples ?b))" "text_at ?r 7 = Inr (cf_antenna l)" "text_at ?r 8 = Inr (cf_receiver l)"
    "text_at ?r 9 = Inr (cf_notes l)" "boolean_at ?r 10 = Inr (cc_decode ?b)"
    using t u by (simp_all only: readers_find, simp_all add: concentrator_columns_def row_simps)
  have n: "take 3 (map (\<lambda>(i, b). board_columns i b) (enumerate 0 (cc_boards ?b))) = map (\<lambda>(i, b). board_columns i b) (enumerate 0 (cc_boards ?b))"
    using s(2) by simp
  have b: "boards_from [] (map (\<lambda>(i, b). board_columns i b) (enumerate 0 (cc_boards ?b))) = Inr (map unnamed_board (cc_boards ?b))"
    using boards_read [OF s(1), of "[]"] s(2) by simp
  have cfg: "\<lparr>cc_boards = map unnamed_board (cc_boards ?b), cc_scan = cc_scan ?b, cc_decode = cc_decode ?b,
      cc_step = cc_step ?b, cc_samples = cc_samples ?b\<rparr> = unnamed_boards ?b"
    by (cases ?b) (simp add: unnamed_boards_def)
  have ok: "\<not> (length (cf_antenna l) > 512 \<or> length (cf_receiver l) > 512 \<or> length (cf_notes l) > 2048 \<or> ([] :: row list) \<noteq> [])"
    using len by simp
  have one: "\<not> ((1 :: int) \<noteq> 1 \<or> (1 :: int) \<noteq> 1 \<or> concentrator_method \<noteq> concentrator_method \<or> concentrator_coverage \<noteq> concentrator_coverage)"
    by simp
  show ?thesis
    by (simp only: read_concentrator_setup_def list.case rd bind_result_simps guard_err_def one ok if_False n b Let_def ucast_u32
        cfg unnamed_valid v)
qed

section \<open>The configuration of a recording\<close>

text \<open>What a later reader knows of the configuration that a recording was made with.\<close>

definition saved_config :: "receiver_config \<Rightarrow> receiver_config" where
  "saved_config c =
     (let d = default_config\<lparr>cf_title := cf_title c, cf_synthetic := cf_synthetic c,
        cf_hardware := (if is_rak c then Rak5146 else if is_rtl c then RtlSdr else HackRf)\<rparr>;
      d = (if is_rtl c then d\<lparr>cf_rtl_gain := cf_rtl_gain c, cf_rtl_auto := cf_rtl_auto c\<rparr> else d);
      d = d\<lparr>cf_center := cf_center c, cf_rate := cf_rate c, cf_span := cf_span c, cf_lna := cf_lna c, cf_vga := cf_vga c,
        cf_amp := cf_amp c, cf_threshold := cf_threshold c, cf_offset := cf_offset c, cf_discover := cf_discover c,
        cf_automatic := cf_automatic c, cf_compact := (is_rak c \<or> cf_compact c)\<rparr>;
      d = (if is_rak c then d\<lparr>cf_boards := unnamed_boards (cf_boards c), cf_antenna := cf_antenna c,
        cf_receiver := cf_receiver c, cf_notes := cf_notes c\<rparr> else d)
      in d\<lparr>cf_lanes := cf_lanes c\<rparr>)"

text \<open>
  What the reader demands beyond the checks of \<open>create\<close>: a name, gains in the steps of the
  receiver, a threshold, profiles within the range of the columns, and a synthetic recording in
  the name of the HackRF.
\<close>

definition savable :: "string \<Rightarrow> receiver_config \<Rightarrow> bool" where
  "savable ident c \<longleftrightarrow> ident \<noteq> [] \<and> length ident \<le> 160 \<and> length (cf_title c) \<le> 160 \<and>
     cf_lna c \<le> 40 \<and> cf_lna c mod 8 = 0 \<and> cf_vga c \<le> 62 \<and> cf_vga c mod 2 = 0 \<and> cf_threshold c \<noteq> None \<and>
     (cf_synthetic c \<longrightarrow> cf_hardware c = HackRf) \<and> length (cf_lanes c) \<le> 8 \<and> list_all lane_savable (cf_lanes c)"

lemma tuned_same:
  assumes "tuned_center_hz c = Inr t" "cf_center d = cf_center c" "cf_offset d = cf_offset c" "is_rtl d = is_rtl c"
  shows "tuned_center_hz d = Inr t"
  using assms(1) unfolding tuned_center_hz_def assms(2-) by blast

lemma recording_bounds:
  assumes "check_recording c = Inr ()"
  shows "cf_center c \<le> 6000000000" "cf_center c \<noteq> 0" "uint (cf_rate c) \<le> 20000000" "cf_span c \<noteq> 0"
    "uint (cf_span c) \<le> (if is_rak c then 26000000 else 20000000)" "\<not> is_rak c \<Longrightarrow> cf_rate c \<noteq> 0 \<and> \<not> cf_span c > cf_rate c"
    "\<not> (cf_automatic c \<and> \<not> cf_discover c)" "is_rtl c \<Longrightarrow> - 100 \<le> cf_rtl_gain c \<and> cf_rtl_gain c \<le> 600"
    "is_rtl c \<Longrightarrow> \<not> ((cf_rate c \<noteq> 1000000 \<and> cf_rate c \<noteq> 2000000) \<or> cf_amp c \<or> cf_span c < 500000 \<or>
         cf_span c > cf_rate c * 4 div 5 \<or> (cf_discover c \<and> (cf_rate c \<noteq> 2000000 \<or> cf_span c > 1500000)))"
    "is_rak c \<Longrightarrow> validate_concentrator_config (cf_boards c) (cf_center c) (cf_span c) (cf_offset c) False = Inr ()"
    "length (cf_antenna c) \<le> 512" "length (cf_receiver c) \<le> 512" "length (cf_notes c) \<le> 2048"
proof -
  note k = assms [unfolded check_recording_def bind_result_Inr guard_err_Inr]
  obtain t where "tuned_center_hz c = Inr t" using k by blast
  then have t: "unat (cf_center c) \<le> 6000000000" "\<not> unat (cf_center c) < 1000000"
    unfolding tuned_center_hz_def Let_def bind_result_Inr guard_err_Inr by auto
  then show "cf_center c \<le> 6000000000" "cf_center c \<noteq> 0" by (auto simp: word_le_nat_alt)
  show "\<not> (cf_automatic c \<and> \<not> cf_discover c)" "length (cf_antenna c) \<le> 512" "length (cf_receiver c) \<le> 512"
    "length (cf_notes c) \<le> 2048"
    using k by auto
  show "- 100 \<le> cf_rtl_gain c \<and> cf_rtl_gain c \<le> 600"
    "\<not> ((cf_rate c \<noteq> 1000000 \<and> cf_rate c \<noteq> 2000000) \<or> cf_amp c \<or> cf_span c < 500000 \<or>
         cf_span c > cf_rate c * 4 div 5 \<or> (cf_discover c \<and> (cf_rate c \<noteq> 2000000 \<or> cf_span c > 1500000)))" if "is_rtl c"
    using k that by auto
  show v: "validate_concentrator_config (cf_boards c) (cf_center c) (cf_span c) (cf_offset c) False = Inr ()" if "is_rak c"
    using k that by (auto simp: bind_result_Inr)
  have n: "\<not> cf_rate c < 1000000 \<and> \<not> cf_rate c > 20000000 \<and> cf_span c \<noteq> 0 \<and> \<not> cf_span c > cf_rate c" if "\<not> is_rak c"
    using k that by blast
  then show "cf_rate c \<noteq> 0 \<and> \<not> cf_span c > cf_rate c" if "\<not> is_rak c" using that by force
  have w: "500000 \<le> unat (cf_span c)" "unat (cf_span c) \<le> 26000000" if "is_rak c"
    using v [OF that] unfolding validate_concentrator_config_def bind_result_Inr guard_err_Inr by auto
  have rak: "cf_rate c = 0" if "is_rak c" using k that by (auto simp: bind_result_Inr)
  show "uint (cf_rate c) \<le> 20000000" using rak n by (cases "is_rak c") (auto simp: word_le_def not_less)
  show "cf_span c \<noteq> 0" using w n by (cases "is_rak c") force+
  show "uint (cf_span c) \<le> (if is_rak c then 26000000 else 20000000)"
  proof (cases "is_rak c")
    case True
    then have "int (unat (cf_span c)) \<le> 26000000" using w(2) by linarith
    then have "uint (cf_span c) \<le> 26000000" by (simp only: uint_nat)
    then show ?thesis using True by simp
  next
    case False
    then have "cf_span c \<le> cf_rate c" "cf_rate c \<le> 20000000" using n by (simp_all add: not_less)
    then have "cf_span c \<le> 20000000" by (rule order.trans)
    then show ?thesis using False by (simp add: word_le_def)
  qed
qed

lemma source_of_code:
  "source_code c \<in> {0..3}" "(word_of_int (source_code c) :: u64) = 3 \<longleftrightarrow> is_rak c"
  "(word_of_int (source_code c) :: u64) = 2 \<longleftrightarrow> is_rtl c"
  "(word_of_int (source_code c) :: u64) = 1 \<longleftrightarrow> cf_synthetic c"
  by (auto simp: source_code_def)

lemma numeral_conds: "(3 :: u64) \<noteq> 2" "(3 :: u64) \<noteq> 1" "(2 :: u64) \<noteq> 3" "(2 :: u64) \<noteq> 1" by simp_all

text \<open>The rows of a recording that could be made.\<close>

lemma setup_written:
  assumes "write_setup app ident c = Inr u"
  shows "su_session u = session_columns app ident c" "su_lanes u = map saved_lane_columns (cf_lanes c)"
    "su_version u = (if is_rak c then 7 else if cf_compact c then 6 else 5)"
    "is_rtl c \<Longrightarrow> su_receiver u = [[SInt 1, SText ''rtl_sdr'', SInt (cf_rtl_gain c), int_of_bool (cf_rtl_auto c)]]"
    "is_rak c \<Longrightarrow> su_concentrator u = [concentrator_columns c]"
    "is_rak c \<Longrightarrow> su_profiles u = map (\<lambda>(i, b). board_columns i b) (enumerate 0 (cc_boards (cf_boards c)))"
    "\<forall>v\<in>set (session_columns app ident c). bind_value v = Inr ()"
    "\<forall>r\<in>set (map saved_lane_columns (cf_lanes c)). \<forall>v\<in>set r. bind_value v = Inr ()"
    "is_rak c \<Longrightarrow> \<forall>v\<in>set (concentrator_columns c). bind_value v = Inr ()"
proof -
  from assms obtain session rtl lanes conc profiles where
    i: "insert_row (session_columns app ident c) = Inr session"
      "insert_rows (if is_rtl c then [[SInt 1, SText ''rtl_sdr'', SInt (cf_rtl_gain c), int_of_bool (cf_rtl_auto c)]] else []) = Inr rtl"
      "insert_rows (map saved_lane_columns (cf_lanes c)) = Inr lanes"
      "insert_rows (if is_rak c then [concentrator_columns c] else []) = Inr conc"
      "insert_rows (if is_rak c then map (\<lambda>(i, b). board_columns i b) (enumerate 0 (cc_boards (cf_boards c))) else []) = Inr profiles"
    and u: "\<lparr>su_version = (if is_rak c then 7 else if cf_compact c then 6 else 5), su_session = session, su_receiver = rtl,
       su_concentrator = conc, su_profiles = profiles, su_lanes = lanes\<rparr> = u"
    unfolding write_setup_def bind_result_Inr sum.inject by blast
  note e = i [unfolded insert_row_Inr insert_rows_Inr]
  show "su_version u = (if is_rak c then 7 else if cf_compact c then 6 else 5)" by (simp only: u [symmetric] session_setup.select_convs)
  show "su_session u = session_columns app ident c" "su_lanes u = map saved_lane_columns (cf_lanes c)"
    "\<forall>v\<in>set (session_columns app ident c). bind_value v = Inr ()"
    "\<forall>r\<in>set (map saved_lane_columns (cf_lanes c)). \<forall>v\<in>set r. bind_value v = Inr ()"
    using e(1,3) unfolding u [symmetric] session_setup.select_convs by blast+
  show "su_receiver u = [[SInt 1, SText ''rtl_sdr'', SInt (cf_rtl_gain c), int_of_bool (cf_rtl_auto c)]]" if "is_rtl c"
    using e(2) that unfolding u [symmetric] by simp
  show "su_concentrator u = [concentrator_columns c]" "\<forall>v\<in>set (concentrator_columns c). bind_value v = Inr ()"
    "su_profiles u = map (\<lambda>(i, b). board_columns i b) (enumerate 0 (cc_boards (cf_boards c)))" if "is_rak c"
    using e(4,5) that unfolding u [symmetric] by simp_all
qed

text \<open>The configuration that is written is read back.\<close>

lemma setup_read:
  assumes w: "write_setup app ident c = Inr u" and chk: "check_recording c = Inr ()" and sv: "savable ident c"
    and dec: "read_decoders ds = Inr (cf_automatic c)"
  shows "read_config u ds = Inr (saved_config c)"
proof -
  let ?s = "session_columns app ident c"
  note b = recording_bounds [OF chk]
  note u = setup_written [OF w]
  note bind = u(7-9)
  obtain t where t: "cf_threshold c = Some t" using sv by (auto simp: savable_def)
  have tx: "bind_value (SText ident) = Inr ()" "bind_value (SText (cf_title c)) = Inr ()"
    using bind(1) by (simp_all add: session_columns_def)
  have g: "uint (cf_lna c) \<le> 40" "uint (cf_vga c) \<le> 62" using sv by (simp_all add: savable_def word_le_def)
  have ver: "su_version u \<ge> 2" "su_version u \<ge> 5" "su_version u \<ge> 6 \<longleftrightarrow> is_rak c \<or> cf_compact c" "su_version u \<ge> 7 \<longleftrightarrow> is_rak c"
    by (auto simp: u(3))
  have rd: "text_at ?s 0 = Inr ident" "text_at ?s 1 = Inr (cf_title c)"
    "unsigned_at ?s 4 6000000000 = Inr (cf_center c)" "unsigned_at ?s 5 20000000 = Inr (ucast (cf_rate c))"
    "unsigned_at ?s 7 40 = Inr (ucast (cf_lna c))" "unsigned_at ?s 8 62 = Inr (ucast (cf_vga c))"
    "boolean_at ?s 9 = Inr (cf_amp c)" "real_at ?s 10 = Inr t" "integer_at ?s 11 = Inr (cf_offset c)" "boolean_at ?s 12 = Inr (cf_discover c)"
    using tx b(1,3) g by (simp_all only: readers_find, simp_all add: session_columns_def t number_def row_simps)
  have src: "unsigned_at ?s 3 (if su_version u \<ge> 7 then 3 else if su_version u \<ge> 5 then 2 else 1) = Inr (word_of_int (source_code c))"
    unfolding ver(4) using ver(2) by (simp only: readers_find) (simp add: session_columns_def source_code_def row_simps)
  have wid: "unsigned_at ?s 6 (if is_rak c then 26000000 else 20000000) = Inr (ucast (cf_span c))"
    using b(5) by (simp only: readers_find) (simp add: session_columns_def row_simps split: if_splits)
  have lanes: "saved_lanes_from [] (take 9 (su_lanes u)) = Inr (cf_lanes c)"
    using saved_lanes_read [of "cf_lanes c" "[]"] bind(2) sv by (simp add: u(2) savable_def)
  have hw: "cf_synthetic c \<or> cf_hardware c = HackRf \<or> cf_hardware c = RtlSdr \<or> cf_hardware c = Rak5146"
    by (cases "cf_hardware c") simp_all
  obtain f where f: "tuned_center_hz c = Inr f" using chk by (auto simp: check_recording_def bind_result_Inr)
  have sb: "cf_lna c mod 8 = 0" "cf_vga c mod 2 = 0" "ident \<noteq> []" "\<not> length ident > 160" "\<not> length (cf_title c) > 160"
    "cf_synthetic c \<longrightarrow> cf_hardware c = HackRf" using sv by (simp_all add: savable_def)
  show ?thesis
  proof (cases "is_rak c")
    case True
    have n: "\<not> is_rtl c" "\<not> cf_synthetic c" using True by simp_all
    let ?c0 = "default_config\<lparr>cf_title := cf_title c, cf_synthetic := False, cf_hardware := Rak5146,
        cf_center := cf_center c, cf_rate := cf_rate c, cf_span := cf_span c, cf_lna := cf_lna c, cf_vga := cf_vga c,
        cf_amp := cf_amp c, cf_threshold := Some t, cf_offset := cf_offset c, cf_discover := cf_discover c,
        cf_automatic := cf_automatic c, cf_compact := True\<rparr>"
    have cr: "read_concentrator_setup [concentrator_columns c]
        (map (\<lambda>(i, b). board_columns i b) (enumerate 0 (cc_boards (cf_boards c)))) ?c0 =
      Inr (?c0\<lparr>cf_boards := unnamed_boards (cf_boards c), cf_antenna := cf_antenna c, cf_receiver := cf_receiver c, cf_notes := cf_notes c\<rparr>)"
      by (rule concentrator_read [OF bind(3) [OF True] _ b(11-13)]) (use b(10) True in simp)
    let ?c1 = "?c0\<lparr>cf_boards := unnamed_boards (cf_boards c), cf_antenna := cf_antenna c, cf_receiver := cf_receiver c, cf_notes := cf_notes c\<rparr>"
    have tune: "tuned_center_hz ?c1 = Inr f" by (rule tuned_same [OF f]) (use True in simp_all)
    have ok: "\<not> saved_config_bad ident 3 ?c1" "\<not> (cf_automatic ?c1 \<and> \<not> cf_discover ?c1)"
      using b(2,4,7) sb by (simp_all add: saved_config_bad_def)
    have src3: "unsigned_at ?s 3 3 = Inr 3"
      using src True by (simp add: ver source_code_def)
    have wid3: "unsigned_at ?s 6 26000000 = Inr (ucast (cf_span c))" using wid True by simp
    note v = ver [unfolded True [THEN eqTrueI] simp_thms]
    have "read_config u ds = Inr (?c1\<lparr>cf_lanes := cf_lanes c\<rparr>)"
      by (simp only: read_config_def Let_def u(1) v simp_thms if_True if_False rd src3 wid3 bind_result_simps dec numeral_conds
          ucast_u32 u(5,6) [OF True] cr tune guard_err_def ok lanes)
    then show ?thesis using True t by (simp add: saved_config_def Let_def)
  next
    case False
    have wid2: "unsigned_at ?s 6 20000000 = Inr (ucast (cf_span c))" using wid False by simp
    have nf: "is_rak c = False" using False by simp
    note v = ver [unfolded nf simp_thms]
    show ?thesis
    proof (cases "is_rtl c")
      case True
      let ?c0 = "default_config\<lparr>cf_title := cf_title c, cf_synthetic := False, cf_hardware := RtlSdr\<rparr>"
      let ?c1 = "?c0\<lparr>cf_rtl_gain := cf_rtl_gain c, cf_rtl_auto := cf_rtl_auto c,
          cf_center := cf_center c, cf_rate := cf_rate c, cf_span := cf_span c, cf_lna := cf_lna c, cf_vga := cf_vga c,
          cf_amp := cf_amp c, cf_threshold := Some t, cf_offset := cf_offset c, cf_discover := cf_discover c,
          cf_automatic := cf_automatic c, cf_compact := cf_compact c\<rparr>"
      have rr: "read_receiver_setup [[SInt 1, SText ''rtl_sdr'', SInt (cf_rtl_gain c), int_of_bool (cf_rtl_auto c)]] ?c0 =
          Inr (?c0\<lparr>cf_rtl_gain := cf_rtl_gain c, cf_rtl_auto := cf_rtl_auto c\<rparr>)"
        by (rule rtl_read) (use b(8) True in simp_all)
      have tune: "tuned_center_hz ?c1 = Inr f" by (rule tuned_same [OF f]) (use True in simp_all)
      have ok: "\<not> saved_config_bad ident 2 ?c1" "\<not> (cf_automatic ?c1 \<and> \<not> cf_discover ?c1)" "\<not> saved_rtl_bad ?c1"
        using b(2,4,7) b(6) [OF False] b(9) [OF True] sb by (simp_all add: saved_config_bad_def saved_rtl_bad_def)
      have src2: "unsigned_at ?s 3 2 = Inr 2" using src True False by (simp add: ver source_code_def)
      have "read_config u ds = Inr (?c1\<lparr>cf_lanes := cf_lanes c\<rparr>)"
        by (simp only: read_config_def Let_def u(1) v simp_thms if_True if_False rd src2 wid2 bind_result_simps dec numeral_conds
            ucast_u32 u(4) [OF True] rr tune guard_err_def ok lanes)
      then show ?thesis using True t by (simp add: saved_config_def Let_def)
    next
      case rtl: False
      let ?c1 = "default_config\<lparr>cf_title := cf_title c, cf_synthetic := cf_synthetic c, cf_hardware := HackRf,
          cf_center := cf_center c, cf_rate := cf_rate c, cf_span := cf_span c, cf_lna := cf_lna c, cf_vga := cf_vga c,
          cf_amp := cf_amp c, cf_threshold := Some t, cf_offset := cf_offset c, cf_discover := cf_discover c,
          cf_automatic := cf_automatic c, cf_compact := cf_compact c\<rparr>"
      obtain k where sc: "unsigned_at ?s 3 2 = Inr k" and k: "k \<noteq> 3" "k \<noteq> 2" "(k = 1) = cf_synthetic c"
      proof
        show "unsigned_at ?s 3 2 = Inr (word_of_int (source_code c))" using src False by (simp add: ver)
      qed (use source_of_code [of c] False rtl in simp_all)
      have tune: "tuned_center_hz ?c1 = Inr f" by (rule tuned_same [OF f]) (use False rtl hw in auto)
      have ok: "guard_err (saved_config_bad ident k ?c1) e = Inr ()" "guard_err (cf_automatic ?c1 \<and> \<not> cf_discover ?c1) e = Inr ()"
        "guard_err False e = Inr ()" for e
        using b(2,4,7) b(6) [OF False] sb by (simp_all add: saved_config_bad_def guard_err_def)
      have "read_config u ds = Inr (?c1\<lparr>cf_lanes := cf_lanes c\<rparr>)"
        by (simp only: read_config_def Let_def u(1) v simp_thms if_True if_False rd sc k wid2 bind_result_simps dec
            ucast_u32 tune ok lanes)
      moreover have "is_rtl c = False" using rtl by simp
      ultimately show ?thesis by (simp only: saved_config_def Let_def nf t if_False simp_thms)
    qed
  qed
qed

section \<open>The history under the saved configuration\<close>

definition rebased :: "receiver_config \<Rightarrow> acquisition_segment \<Rightarrow> acquisition_segment" where
  "rebased l a = a\<lparr>sg_config := (sg_config a)\<lparr>cf_boards := cf_boards l, cf_title := cf_title l, cf_compact := cf_compact l\<rparr>\<rparr>"

definition same_source :: "receiver_config \<Rightarrow> receiver_config \<Rightarrow> bool" where
  "same_source c l \<longleftrightarrow> cf_synthetic l = cf_synthetic c \<and> cf_hardware l = cf_hardware c \<and>
     (is_rak c \<longrightarrow> cf_center l = cf_center c \<and> cf_span l = cf_span c \<and> cf_offset l = cf_offset c)"

lemma rebased_valid:
  assumes "same_source c l" "validate_acquisition a c = Inr ()"
  shows "validate_acquisition (rebased l a) l = Inr ()"
proof -
  let ?c = "sg_config a" and ?a = "rebased l a"
  have sel: "sg_id ?a = sg_id a" "sg_start ?a = sg_start a" "sg_end ?a = sg_end a"
    "cf_synthetic (sg_config ?a) = cf_synthetic ?c" "cf_hardware (sg_config ?a) = cf_hardware ?c" "cf_compact (sg_config ?a) = cf_compact l"
    "cf_automatic (sg_config ?a) = cf_automatic ?c" "cf_discover (sg_config ?a) = cf_discover ?c" "cf_rate (sg_config ?a) = cf_rate ?c"
    "cf_lanes (sg_config ?a) = cf_lanes ?c" "cf_center (sg_config ?a) = cf_center ?c" "cf_span (sg_config ?a) = cf_span ?c"
    "cf_offset (sg_config ?a) = cf_offset ?c" "cf_amp (sg_config ?a) = cf_amp ?c"
    "tuned_center_hz (sg_config ?a) = tuned_center_hz ?c" "settings_bad (sg_config ?a) = settings_bad ?c"
    by (simp_all add: rebased_def settings_bad_def tuned_center_hz_def)
  note v = assms(2) [unfolded validate_acquisition_def Let_def bind_result_Inr guard_err_Inr]
  have s: "cf_synthetic ?c = cf_synthetic c \<and> cf_hardware ?c = cf_hardware c" using v by blast
  have "\<not> (cf_synthetic ?c \<noteq> cf_synthetic l \<or> cf_hardware ?c \<noteq> cf_hardware l \<or> cf_compact l \<noteq> cf_compact l)"
    using s assms(1) unfolding same_source_def by simp
  moreover have "\<not> (is_rak ?c \<and> (cf_rate ?c \<noteq> 0 \<or> cf_discover ?c \<or> cf_lanes ?c \<noteq> [] \<or> cf_center ?c \<noteq> cf_center l \<or>
         cf_span ?c \<noteq> cf_span l \<or> cf_offset ?c \<noteq> cf_offset l))"
    using s v assms(1) unfolding same_source_def by metis
  ultimately show ?thesis
    using v unfolding validate_acquisition_def Let_def bind_result_Inr guard_err_Inr sel by blast
qed

lemma segment_rebased:
  assumes same: "same_source c l" and seg: "segment_from s c r = Inr a"
  shows "segment_from s l r = Inr (rebased l a)"
proof -
  have v: "validate_acquisition (rebased l a) l = Inr ()"
    by (rule rebased_valid [OF same segment_from_inv(4) [OF seg]])
  show ?thesis
    by (insert seg [unfolded segment_from_def bind_result_Inr Let_def guard_err_Inr] v, elim exE conjE)
      (cases c; cases l; clarsimp simp: segment_from_def guard_err_def rebased_def Let_def)
qed

lemma rebased_keeps [simp]:
  "sg_id (rebased l a) = sg_id a" "sg_start (rebased l a) = sg_start a" "sg_end (rebased l a) = sg_end a"
  "sg_finalized (rebased l a) = sg_finalized a"
  by (simp_all add: rebased_def)

lemma history_rebased:
  assumes "same_source c l"
  shows "history_from s c old rows = Inr segs \<Longrightarrow> history_from s l (map (rebased l) old) rows = Inr (map (rebased l) segs)"
proof (induction rows arbitrary: old)
  case (Cons r rows)
  then obtain a where a: "segment_from s c r = Inr a" "history_from s c (old @ [a]) rows = Inr segs"
    "\<not> (unat (sg_id a) \<noteq> length old + 1 \<or> (old \<noteq> [] \<and> (\<not> sg_finalized (last old) \<or> sg_start a < sg_end (last old) - 1 / 100000000)))"
    unfolding history_from.simps bind_result_Inr guard_err_Inr by blast
  from Cons.IH [OF a(2)] segment_rebased [OF assms a(1)] a(3) show ?case
    by (cases "old = []") (simp_all add: last_map guard_err_def)
qed simp

lemma acquisitions_rebased:
  assumes "same_source c l" "acquisitions s c = Inr segs"
  shows "acquisitions s l = Inr (map (rebased l) segs)"
proof (cases "ss_segmented s")
  case True
  then have "history_from s c [] (take 2049 (tb_acquisitions s)) = Inr segs" "\<not> (orphan_decoder s \<and> segs \<noteq> [])" "\<not> orphan_lane s"
    using assms(2) by (auto simp: acquisitions_def bind_result_Inr)
  then show ?thesis
    using True history_rebased [OF assms(1), of s "[]" "take 2049 (tb_acquisitions s)" segs] by (auto simp: acquisitions_def guard_err_def)
next
  case False
  then show ?thesis using assms(2) by (auto simp: acquisitions_def)
qed

lemma saved_same_source:
  assumes "check_recording c = Inr ()" "cf_synthetic c \<longrightarrow> cf_hardware c = HackRf"
  shows "same_source c (saved_config c)"
proof -
  have "cf_synthetic (saved_config c) = cf_synthetic c"
    "cf_hardware (saved_config c) = (if is_rak c then Rak5146 else if is_rtl c then RtlSdr else HackRf)"
    "cf_center (saved_config c) = cf_center c" "cf_span (saved_config c) = cf_span c" "cf_offset (saved_config c) = cf_offset c"
    by (simp_all add: saved_config_def Let_def if_distrib [of cf_synthetic] if_distrib [of cf_hardware]
      if_distrib [of cf_center] if_distrib [of cf_span] if_distrib [of cf_offset])
  then show ?thesis using assms(2) unfolding same_source_def by (cases "cf_synthetic c"; cases "cf_hardware c") simp_all
qed

section \<open>The decoder rows\<close>

lemma first_of_sorted:
  assumes "d \<in> set xs" "\<And>x. x \<in> set xs \<Longrightarrow> x = d \<or> (f d :: int) < f x"
  shows "\<exists>rest. sort_key f xs = d # rest"
proof -
  obtain x rest where s: "sort_key f xs = x # rest" using assms(1) by (metis list.set_cases set_sort)
  then have x: "x \<in> set xs" by (metis list.set_intros(1) set_sort)
  have "sorted (map f (x # rest))" using sorted_sort_key [of f xs] by (simp only: s)
  moreover have "d \<in> set (x # rest)" using assms(1) s by (metis set_sort)
  ultimately have "f x \<le> f d" by auto
  then show ?thesis using assms(2) [OF x] s by auto
qed

lemma card_of_image:
  assumes "A \<subseteq> f ` {0..n :: nat}"
  shows "card A \<le> Suc n"
proof -
  have "card A \<le> card (f ` {0..n})" by (rule card_mono [OF _ assms]) simp
  also have "\<dots> \<le> card {0..n}" by (rule card_image_le) simp
  finally show ?thesis by simp
qed

definition decoders_ok :: "bool \<Rightarrow> session_store \<Rightarrow> bool" where
  "decoders_ok automatic s \<longleftrightarrow>
     ss_acquisition s \<le> 2048 \<and> (ss_acquisition s \<le> 1 \<longrightarrow> cf_automatic (ss_config s) = automatic) \<and>
     distinct (map (\<lambda>r. column r 0) (tb_automatic s)) \<and>
     (\<forall>d\<in>set (tb_automatic s). \<exists>i st. automatic_row i st = Inr d \<and> i \<le> 2048 \<and> (if ss_acquisition s = 0 then i = 0 else i \<noteq> 0)) \<and>
     (\<exists>d st. d \<in> set (tb_automatic s) \<and> au_enabled st = automatic \<and>
       automatic_row (if ss_acquisition s = 0 then 0 else 1) st = Inr d)"

lemma decoder_key: "automatic_row i st = Inr d \<Longrightarrow> column d 0 = int_of_u64 i"
  by (auto simp: automatic_row_def bind_result_Inr insert_row_Inr column_def)

lemma decoder_order_row:
  assumes "automatic_row i st = Inr d" "i \<le> 2048"
  shows "decoder_order d = int (unat i)"
proof -
  have "uint i \<le> 2048" using assms(2) by (simp add: word_le_def)
  moreover have "- 9223372036854775808 \<le> uint i" by (rule order.trans [of _ 0]) simp_all
  ultimately have "signed_take_bit (LENGTH(64) - Suc 0) (uint i) = uint i" by (intro signed_take_bit_int_eq_self) simp_all
  then have "sint i = int (unat i)" by (simp only: sint_uint uint_nat)
  then show ?thesis using decoder_key [OF assms(1)] by (simp add: decoder_order_def int_of_u64_def)
qed

lemma decoders_read:
  assumes "decoders_ok automatic s"
  shows "read_decoders (tb_automatic s) = Inr automatic"
proof -
  let ?ds = "tb_automatic s" and ?first = "if ss_acquisition s = 0 then 0 else 1 :: u64"
  note d = assms [unfolded decoders_ok_def]
  obtain f st where f: "f \<in> set ?ds" "au_enabled st = automatic" "automatic_row ?first st = Inr f" using d by blast
  have f2: "?first \<le> 2048" by simp
  have ord: "x = f \<or> decoder_order f < decoder_order x" if x: "x \<in> set ?ds" for x
  proof -
    obtain i st' where i: "automatic_row i st' = Inr x" "i \<le> 2048" "if ss_acquisition s = 0 then i = 0 else i \<noteq> 0" using d x by blast
    have o: "decoder_order x = int (unat i)" "decoder_order f = int (unat ?first)"
      using decoder_order_row [OF i(1,2)] decoder_order_row [OF f(3) f2] by simp_all
    show ?thesis
    proof (cases "i = ?first")
      case True
      then have "column x 0 = column f 0" using decoder_key [OF i(1)] decoder_key [OF f(3)] by simp
      then show ?thesis using d x f(1) by (auto simp: distinct_map inj_on_def)
    next
      case False
      then have "ss_acquisition s \<noteq> 0" "i \<noteq> 0" "i \<noteq> 1" using i(3) by (auto split: if_splits)
      moreover from this have "unat i \<noteq> unat (0 :: u64)" "unat i \<noteq> unat (1 :: u64)" by (simp_all only: word_unat_eq_iff not_False_eq_True)
      ultimately have "unat ?first < unat i" by simp
      then show ?thesis by (simp only: o of_nat_less_iff simp_thms)
    qed
  qed
  obtain rest where rest: "sort_key decoder_order ?ds = f # rest" using first_of_sorted [OF f(1) ord] by blast
  have good: "\<exists>st. automatic_from x = Inr st" if "x \<in> set ?ds" for x using d that automatic_read_back by blast
  have "(\<lambda>r. column r 0) ` set ?ds \<subseteq> (\<lambda>k. int_of_u64 (of_nat k)) ` {0..2048}"
  proof
    fix k assume "k \<in> (\<lambda>r. column r 0) ` set ?ds"
    then obtain x i st where "x \<in> set ?ds" "k = column x 0" "automatic_row i st = Inr x" "i \<le> 2048" using d by blast
    then have "k = int_of_u64 i" "unat i \<le> 2048" using decoder_key by (auto simp: word_le_nat_alt)
    then show "k \<in> (\<lambda>k. int_of_u64 (of_nat k)) ` {0..2048}" by (intro image_eqI [of _ _ "unat i"]) simp_all
  qed
  from card_of_image [OF this] have "card ((\<lambda>r. column r 0) ` set ?ds) \<le> 2049" by simp
  moreover have "length ?ds = card ((\<lambda>r. column r 0) ` set ?ds)" using d by (metis distinct_card length_map list.set_map)
  ultimately have len: "length ?ds \<le> 2049" by simp
  define rows where "rows = take 2050 (sort_key decoder_order ?ds)"
  have sorted: "rows = sort_key decoder_order ?ds" unfolding rows_def by (rule take_all) (use len in simp)
  then have rows: "rows = f # rest" by (simp only: rest)
  have set: "set rows = set ?ds" "length rows \<le> 2049" using len by (simp_all only: sorted set_sort length_sort)
  have chk: "for_each (\<lambda>i r. bind_result (guard_err (i \<ge> 2049) ''Too many decoder metadata rows'') (\<lambda>_.
        bind_result (automatic_from r) (\<lambda>_. Inr ()))) 0 rows = Inr ()"
    unfolding for_each_Inr
  proof (intro allI impI)
    fix i assume i: "i < length rows"
    have "rows ! i \<in> set ?ds" using nth_mem [OF i] set(1) by blast
    from good [OF this] obtain st' where g: "automatic_from (rows ! i) = Inr st'" by blast
    have "\<not> 2049 \<le> 0 + i" using i set(2) by linarith
    then show "bind_result (guard_err (2049 \<le> 0 + i) ''Too many decoder metadata rows'')
        (\<lambda>_. bind_result (automatic_from (rows ! i)) (\<lambda>_. Inr ())) = Inr ()"
      by (simp only: guard_err_def if_False bind_result_simps g)
  qed
  have "automatic_from f = Inr st" by (rule automatic_read_back [OF f(3) f2])
  then show ?thesis
    unfolding read_decoders_def Let_def rows_def [symmetric] chk using f(2) by (simp add: rows)
qed

lemma decoders_begin:
  assumes ok: "decoders_ok b s"
    and table: "tb_automatic s' = filter (\<lambda>r. column r 0 \<noteq> int_of_u64 0 \<and> column r 0 \<noteq> int_of_u64 i) (tb_automatic s) @ [d]"
    and row: "automatic_row i st = Inr d" and i: "i \<noteq> 0" "i \<le> 2048" and at: "ss_acquisition s' = i"
    and enabled: "au_enabled st = cf_automatic (ss_config s')"
    and first: "i = 1 \<longrightarrow> cf_automatic (ss_config s') = b" "ss_acquisition s = 0 \<longrightarrow> i = 1"
  shows "decoders_ok b s'"
proof -
  note o = ok [unfolded decoders_ok_def]
  have key: "column d 0 = int_of_u64 i" by (rule decoder_key [OF row])
  have small: "i = 1" if "i \<le> 1"
  proof -
    have "unat i \<le> 1" using that by (simp add: word_le_nat_alt)
    moreover have "unat i \<noteq> 0" using i(1) by (simp add: unat_eq_zero)
    ultimately have "unat i = unat (1 :: u64)" by simp
    then show ?thesis by (simp only: word_unat_eq_iff)
  qed
  have unique: "distinct (map (\<lambda>r. column r 0) (tb_automatic s))" using o by blast
  have dist: "distinct (map (\<lambda>r. column r 0) (tb_automatic s'))"
    using unique key unfolding table by (auto simp: distinct_map_filter)
  have rows: "\<exists>j st. automatic_row j st = Inr x \<and> j \<le> 2048 \<and> j \<noteq> 0" if "x \<in> set (tb_automatic s')" for x
  proof (cases "x = d")
    case True
    then show ?thesis using row i by blast
  next
    case False
    then have "x \<in> set (tb_automatic s)" "column x 0 \<noteq> int_of_u64 0" using that by (auto simp: table)
    then obtain j st where "automatic_row j st = Inr x" "j \<le> 2048" using o by blast
    moreover from this have "j \<noteq> 0" using decoder_key \<open>column x 0 \<noteq> int_of_u64 0\<close> by blast
    ultimately show ?thesis by blast
  qed
  have "\<exists>x st. x \<in> set (tb_automatic s') \<and> au_enabled st = b \<and> automatic_row 1 st = Inr x"
  proof (cases "i = 1")
    case True
    then show ?thesis using row enabled first(1) by (auto simp: table)
  next
    case False
    then have "ss_acquisition s \<noteq> 0" using first(2) by blast
    then obtain x st where x: "x \<in> set (tb_automatic s)" "au_enabled st = b" "automatic_row 1 st = Inr x" using o by auto
    moreover have "column x 0 \<noteq> int_of_u64 0" "column x 0 \<noteq> int_of_u64 i" using decoder_key [OF x(3)] False by simp_all
    ultimately show ?thesis by (auto simp: table)
  qed
  then show ?thesis using dist rows i small first(1) unfolding decoders_ok_def at by auto
qed

lemma decoders_replace:
  assumes ok: "decoders_ok b s" and row: "automatic_row (ss_acquisition s) st = Inr d"
    and enabled: "au_enabled st = cf_automatic (ss_config s)"
    and table: "tb_automatic s' = filter (\<lambda>r. column r 0 \<noteq> int_of_u64 (ss_acquisition s)) (tb_automatic s) @ [d]"
    and same: "ss_acquisition s' = ss_acquisition s" "ss_config s' = ss_config s"
  shows "decoders_ok b s'"
proof -
  note o = ok [unfolded decoders_ok_def]
  let ?i = "ss_acquisition s" and ?first = "if ss_acquisition s = 0 then 0 else 1 :: u64"
  have key: "column d 0 = int_of_u64 ?i" by (rule decoder_key [OF row])
  have unique: "distinct (map (\<lambda>r. column r 0) (tb_automatic s))" using o by blast
  have dist: "distinct (map (\<lambda>r. column r 0) (tb_automatic s'))"
    using unique key unfolding table by (auto simp: distinct_map_filter)
  have rows: "\<exists>j st. automatic_row j st = Inr x \<and> j \<le> 2048 \<and> (if ?i = 0 then j = 0 else j \<noteq> 0)" if "x \<in> set (tb_automatic s')" for x
  proof (cases "x = d")
    case True
    then show ?thesis using row o by (intro exI [of _ ?i] exI [of _ st]) simp
  next
    case False
    then show ?thesis using that o by (auto simp: table)
  qed
  have "\<exists>x st. x \<in> set (tb_automatic s') \<and> au_enabled st = b \<and> automatic_row ?first st = Inr x"
  proof (cases "?i = ?first")
    case True
    then have "?i \<le> 1" by (simp split: if_splits)
    then have "au_enabled st = b" using o enabled by blast
    moreover have "d \<in> set (tb_automatic s')" by (simp add: table)
    moreover have "automatic_row ?first st = Inr d"
      by (rule subst [where P = "\<lambda>j. automatic_row j st = Inr d", OF True row])
    ultimately show ?thesis by blast
  next
    case False
    obtain x st where x: "x \<in> set (tb_automatic s)" "au_enabled st = b" "automatic_row ?first st = Inr x" using o by blast
    then have "column x 0 \<noteq> int_of_u64 ?i" using decoder_key [OF x(3)] False by simp
    then have "x \<in> set (tb_automatic s')" using x(1) by (simp add: table)
    then show ?thesis using x(2,3) by blast
  qed
  then show ?thesis using dist rows o unfolding decoders_ok_def same by blast
qed

text \<open>
  Two configurations that the engine accepts and the reader refuses; no front end makes them. A
  disabled profile may have the frequency zero, and a synthetic source may name other hardware than
  the HackRF that the reader takes it for.
\<close>

lemma profile_refused:
  "validate_receiver (default_config\<lparr>cf_lanes := [default_lane\<lparr>ln_enabled := False, ln_freq := 0\<rparr>]\<rparr>) = Inr () \<and>
   saved_lanes_from [] [saved_lane_columns (default_lane\<lparr>ln_enabled := False, ln_freq := 0\<rparr>)] = Inl ''Invalid saved decoder profile''"
proof
  show "validate_receiver (default_config\<lparr>cf_lanes := [default_lane\<lparr>ln_enabled := False, ln_freq := 0\<rparr>]\<rparr>) = Inr ()"
    by (simp add: validate_receiver_def default_config_def default_lane_def check_rate_def check_span_def
        check_lane_def check_provenance_def tuned_center_hz_def guard_err_def Let_def)
  have "valid_utf8 ''Meshtastic''" "valid_utf8 ''LongFast''" by code_simp+
  then have "bind_value (SText ''Meshtastic'') = Inr ()" "bind_value (SText ''LongFast'') = Inr ()"
    by (simp_all add: bind_value_def)
  then show "saved_lanes_from [] [saved_lane_columns (default_lane\<lparr>ln_enabled := False, ln_freq := 0\<rparr>)] = Inl ''Invalid saved decoder profile''"
    by (simp add: saved_lane_columns_def default_lane_def row_simps guard_err_def)
qed

lemma source_renamed:
  "validate_receiver (default_config\<lparr>cf_hardware := RtlSdr\<rparr>) = Inr () \<and>
   check_recording (default_config\<lparr>cf_hardware := RtlSdr\<rparr>) = Inr () \<and>
   cf_hardware (saved_config (default_config\<lparr>cf_hardware := RtlSdr\<rparr>)) = HackRf"
  by (simp add: validate_receiver_def check_recording_def saved_config_def default_config_def default_lane_def check_rate_def
      check_span_def check_lane_def check_provenance_def tuned_center_hz_def guard_err_def supported_lora_bandwidth_def Let_def)

end
