(* ===== verification/RecordingInvariant.thy ===== *)
theory RecordingInvariant
  imports Recording SavedConfig
begin

text \<open>
  What every operation on a recording keeps: the acquisition history that the reader accepts,
  the settings of the acquisition in progress, and readable receptions, in the store as it
  stands and in the revision last committed.
\<close>

section \<open>Writing a segment\<close>

lemma bind_values [simp]:
  "bind_value (SInt i) = Inr ()" "bind_value (SReal x) = Inr ()" "bind_value SNull = Inr ()"
  "bind_value (int_of_u64 v) = Inr ()" "bind_value (int_of_u32 w) = Inr ()" "bind_value (int_of_bool b) = Inr ()"
  "bind_value (number q) = Inr ()"
  by (simp_all add: bind_value_def int_of_u64_def int_of_u32_def int_of_bool_def number_def split: option.splits)

lemma bind_text [simp]: "bind_value (SText s) = Inr () \<longleftrightarrow> length s \<le> 8192 \<and> valid_utf8 s"
  by (simp add: bind_value_def not_less)

text \<open>An acquisition that passes its checks is written.\<close>

lemma segment_written:
  assumes "validate_acquisition a l = Inr ()"
  shows "insert_row (segment_values a) = Inr (segment_values a)"
proof -
  have "\<not> settings_bad (sg_config a)"
    using assms unfolding validate_acquisition_def Let_def bind_result_Inr guard_err_Inr by blast
  then show ?thesis
    by (simp add: insert_row_Inr segment_values_def Let_def settings_bad_def)
qed

lemma lanes_written: "\<forall>l\<in>set ls. \<not> lane_profile_bad l \<Longrightarrow> \<exists>rs. lane_rows i k ls = Inr rs"
proof (induction ls arbitrary: k)
  case Nil
  then show ?case by simp
next
  case (Cons l ls)
  then have g: "\<not> lane_profile_bad l" by simp
  have p: "ln_protocol l \<in> {''Meshtastic'', ''MeshCore''}" using g by (auto simp: lane_profile_bad_def)
  have u: "valid_utf8 ''Meshtastic''" "valid_utf8 ''MeshCore''" by code_simp+
  have "bind_value (SText (ln_protocol l)) = Inr ()"
    using p u by auto
  then have "insert_row (lane_values i k l) = Inr (lane_values i k l)"
    using g by (simp add: insert_row_Inr lane_values_def lane_profile_bad_def)
  moreover obtain rs where "lane_rows i (Suc k) ls = Inr rs" using Cons by fastforce
  ultimately show ?case by simp
qed

lemma decoder_written: "\<exists>d. automatic_row i (new_automatic_status\<lparr>au_available := True, au_enabled := b\<rparr>) = Inr d"
  by (simp add: automatic_row_def validate_automatic_def new_automatic_status_def automatic_counters_def insert_row_def
      bind_row.simps guard_err_def)

lemma op_Inl [result_simps]:
  "then_op m f s = (Inl e, s') \<longleftrightarrow> m s = (Inl e, s') \<or> (\<exists>x s1. m s = (Inr x, s1) \<and> f x s1 = (Inl e, s'))"
  "yield_op r s = (Inl e, s') \<longleftrightarrow> r = Inl e \<and> s' = s"
  "check_op bad msg s = (Inl e, s') \<longleftrightarrow> bad s \<and> e = msg \<and> s' = s"
  "change_op h s \<noteq> (Inl e, s')"
  by (auto simp: then_op_def yield_op_def check_op_def change_op_def guard_err_def split: prod.splits sum.splits)

lemma store_Inl [result_simps]:
  "(case X of Inl e \<Rightarrow> (Inl e, s) | Inr rows \<Rightarrow> (Inr y, h rows)) = (Inl e', s') \<longleftrightarrow> X = Inl e' \<and> s' = s"
  by (auto split: sum.splits)

abbreviation settings_and_tables ::
    "session_store \<Rightarrow> (bool \<times> row list \<times> row list \<times> row list) \<times> u64 \<times> receiver_config \<times> row list" where
  "settings_and_tables s \<equiv> (history_tables s, ss_acquisition s, ss_config s, tb_receptions s)"

lemma settings_steady: "steady (\<lambda>s. settings_and_tables s = x)"
  by (simp add: steady_def)

lemma settings_kept:
  "settings_and_tables (snd (begin_batch s)) = settings_and_tables s"
  "settings_and_tables (snd (save_power_block ma s)) = settings_and_tables s"
  using steady_begin [OF settings_steady [of "settings_and_tables s"]]
    steady_power [OF settings_steady [of "settings_and_tables s"]]
  unfolding keeps_def by blast+

lemma begin_fails:
  assumes hist: "shows_history c s old" and start: "old = [] \<Longrightarrow> ss_acquisition s = 0"
    and fails: "begin_acquisition ma a s = (Inl e, s')"
  shows "settings_and_tables s' = settings_and_tables s"
proof -
  have b: "settings_and_tables s1 = settings_and_tables s0" if "begin_batch s0 = (r, s1)" for s0 s1 r
    using settings_kept(1) [of s0] that by simp
  have p: "settings_and_tables s1 = settings_and_tables s0" if "save_power_block ma s0 = (r, s1)" for s0 s1 r
    using settings_kept(2) [of ma s0] that by simp
  have row: "add_row (segment_values a) (tb_acquisitions s) \<noteq> Inl e1"
      and lanes: "lane_rows (sg_id a) 0 (cf_lanes (sg_config a)) \<noteq> Inl e2"
    if v: "validate_acquisition a (ss_config s) = Inr ()" "previous_segment a (tb_acquisitions s) = Inr ()"
        "ss_acquisition s = 0 \<longrightarrow> sg_id a = 1" for e1 e2
  proof -
    have "follows old a" by (rule begin_follows [OF hist v(2,3) start])
    then have id: "unat (sg_id a) = Suc (length old)" by (simp add: follows_def)
    note h = hist [unfolded shows_history_iff]
    have "int_of_u64 (sg_id a) \<notin> set (segment_keys (length old))"
    proof
      assume "int_of_u64 (sg_id a) \<in> set (segment_keys (length old))"
      then obtain k where k: "k \<in> {1..<Suc (length old)}" "sg_id a = of_nat k"
        by (auto simp: segment_keys_def simp del: upt_Suc)
      then have "unat (sg_id a) = k" using h by (simp add: unat_of_nat)
      with id k show False by simp
    qed
    moreover have "column (segment_values a) 0 = int_of_u64 (sg_id a)"
      by (simp add: segment_values_def column_def Let_def)
    ultimately have "\<not> has_key (column (segment_values a) 0) (tb_acquisitions s)"
      using h unfolding has_key_column by simp
    then show "add_row (segment_values a) (tb_acquisitions s) \<noteq> Inl e1"
      by (simp add: add_row_def segment_written [OF v(1)])
    have "\<forall>l\<in>set (cf_lanes (sg_config a)). \<not> lane_profile_bad l"
      using v(1) unfolding validate_acquisition_def Let_def bind_result_Inr guard_err_Inr for_each_Inr
      by (auto simp: in_set_conv_nth)
    from lanes_written [OF this] obtain rs where "lane_rows (sg_id a) 0 (cf_lanes (sg_config a)) = Inr rs" by blast
    then show "lane_rows (sg_id a) 0 (cf_lanes (sg_config a)) \<noteq> Inl e2" by simp
  qed
  obtain d where d: "automatic_row (sg_id a) (new_automatic_status\<lparr>au_available := True,
      au_enabled := cf_automatic (sg_config a)\<rparr>) = Inr d"
    using decoder_written by blast
  show ?thesis
  proof (cases "ss_segmented s \<and> \<not> ss_readonly s \<and> validate_acquisition a (ss_config s) = Inr () \<and>
      previous_segment a (tb_acquisitions s) = Inr () \<and> (ss_acquisition s = 0 \<longrightarrow> sg_id a = 1)")
    case False
    have "s' = s"
      using fails False
      by (cases "validate_acquisition a (ss_config s)"; cases "previous_segment a (tb_acquisitions s)")
        (simp_all add: begin_acquisition_def then_op_def check_op_def yield_op_def with_store_def guard_err_def split: if_splits)
    then show ?thesis by simp
  next
    case True
    obtain r1 s1 where b1: "begin_batch s = (r1, s1)" by fastforce
    obtain r2 s2 where p2: "save_power_block ma s1 = (r2, s2)" by fastforce
    note t1 = b [OF b1] and t2 = p [OF p2]
    obtain rows ls where ins: "add_row (segment_values a) (tb_acquisitions s) = Inr rows"
      "lane_rows (sg_id a) 0 (cf_lanes (sg_config a)) = Inr ls"
      using row lanes True by (metis sum.exhaust)
    have one: "(ss_acquisition s = 0 \<and> sg_id a \<noteq> 1) = False" using True by blast
    have "begin_acquisition ma a s = (case r1 of Inl e \<Rightarrow> (Inl e, s1) | Inr _ \<Rightarrow>
        (case r2 of Inl e \<Rightarrow> (Inl e, s2) | Inr _ \<Rightarrow> (Inr (), snd (begin_acquisition ma a s))))"
      using True t1 t2 ins
      by (cases r1; cases r2) (simp_all add: begin_acquisition_def then_op_def check_op_def yield_op_def with_store_def
          guard_err_def change_op_def save_automatic_def b1 p2 d one)
    then have "s' = s1 \<or> s' = s2" unfolding fails by (cases r1; cases r2) simp_all
    then show ?thesis using t1 t2 by auto
  qed
qed

lemma append_settings:
  "settings_and_tables (snd (perform ma op s)) = (history_tables s, ss_acquisition s, ss_config s, tb_receptions (snd (perform ma op s)))"
proof -
  let ?P = "\<lambda>x. (ss_acquisition x, ss_config x) = (ss_acquisition s, ss_config s)"
  have P: "steady ?P" by (simp add: steady_def)
  have f: "?P x \<Longrightarrow> ?P (x\<lparr>tb_positions := tb_positions x @ [(k, p)]\<rparr>)" for x k p by simp
  have r: "keeps ?P (append_reception r)" for r
    unfolding append_reception_def insert_reception_def
    by (intro keep_rules steady_begin [OF P]) (simp add: keeps_def split: sum.splits option.splits)
  have "keeps ?P (perform ma op)"
    by (cases op; simp only: perform.simps) (rule r keeps_appends [OF P f]; simp)+
  then have "?P (snd (perform ma op s))" by (simp add: keeps_def)
  then show ?thesis using append_history [of ma op s] by simp
qed

section \<open>Both revisions are readable\<close>

definition current_segment :: "session_store \<Rightarrow> acquisition_segment list \<Rightarrow> bool" where
  "current_segment s segs \<longleftrightarrow>
     (if segs = [] then ss_acquisition s = 0
      else ss_acquisition s = sg_id (last segs) \<and> cf_automatic (ss_config s) = cf_automatic (sg_config (last segs)))"

definition started_at :: "rat \<Rightarrow> acquisition_segment list \<Rightarrow> bool" where
  "started_at t segs \<longleftrightarrow> segs = [] \<or> sg_start (last segs) = t"

definition recording_ok :: "receiver_config \<Rightarrow> recording \<Rightarrow> rat \<Rightarrow> bool" where
  "recording_ok c g t \<longleftrightarrow>
     (\<exists>segs. shows_history c (rg_live g) segs \<and> current_segment (rg_live g) segs \<and> started_at t segs) \<and>
     decoders_ok (cf_automatic c) (rg_live g) \<and>
     same_recording (ss_config (rg_live g)) c \<and> history_tables (fst (rg_saved g)) = history_tables (rg_live g) \<and>
     receptions_ok (rg_live g) \<and> receptions_ok (fst (rg_saved g))"

lemma current_frame:
  "ss_acquisition s' = ss_acquisition s \<Longrightarrow> ss_config s' = ss_config s \<Longrightarrow> current_segment s' segs = current_segment s segs"
  by (simp add: current_segment_def)

lemma settings_frame:
  assumes "settings_and_tables s' = settings_and_tables s"
  shows "shows_history c s' segs = shows_history c s segs" "current_segment s' segs = current_segment s segs"
    "receptions_ok s' = receptions_ok s" "same_recording (ss_config s') c = same_recording (ss_config s) c"
    "decoders_ok b s' = decoders_ok b s"
  using assms history_frame(1) [of s' s c segs] by (simp_all add: current_segment_def receptions_ok_def decoders_ok_def)

lemma commit_ok:
  assumes "shows_history c s segs" "current_segment s segs" "started_at t segs" "decoders_ok (cf_automatic c) s"
    "same_recording (ss_config s) c" "receptions_ok s"
  shows "recording_ok c (commit s y) t"
proof -
  let ?s = "s\<lparr>ss_pending := False\<rparr>"
  have "settings_and_tables ?s = settings_and_tables s" by simp
  note f = settings_frame [OF this]
  show ?thesis unfolding recording_ok_def commit_def Let_def using assms f by auto
qed

lemma record_ok:
  assumes "recording_ok c g t"
  shows "recording_ok c (g\<lparr>rg_live := snd (perform ma op (rg_live g))\<rparr>) t"
proof -
  let ?s = "snd (perform ma op (rg_live g))"
  note k = append_settings [of ma op "rg_live g"]
  have "history_tables ?s = history_tables (rg_live g)" using k by simp
  note f = history_frame(1) [OF this]
  have "receptions_ok ?s" using assms receptions_ok_perform [of ma op] by (simp add: recording_ok_def keeps_def)
  moreover have "current_segment ?s segs = current_segment (rg_live g) segs" for segs
    by (rule current_frame) (use k in simp_all)
  moreover have "decoders_ok b ?s = decoders_ok b (rg_live g)" for b using k by (simp add: decoders_ok_def)
  ultimately show ?thesis using assms k f by (simp add: recording_ok_def)
qed

lemma segment_ok:
  assumes ok: "recording_ok c g t" and w: "unat (cf_span c) \<le> 26000000"
    and one: "sg_id a = 1 \<longrightarrow> cf_automatic (sg_config a) = cf_automatic c" and start_seg: "start_segment ma a g = (r, g')"
  shows "recording_ok c g' (case r of Inl e \<Rightarrow> t | Inr _ \<Rightarrow> sg_start a)"
proof -
  let ?s = "rg_live g"
  from ok obtain segs where h: "shows_history c ?s segs" "current_segment ?s segs" unfolding recording_ok_def by blast
  have start: "segs = [] \<Longrightarrow> ss_acquisition ?s = 0" using h(2) by (simp add: current_segment_def)
  obtain q s' where b: "begin_acquisition ma a ?s = (q, s')" by fastforce
  show ?thesis
  proof (cases q)
    case (Inl e)
    have k: "settings_and_tables s' = settings_and_tables ?s" by (rule begin_fails [OF h(1) start b [unfolded Inl]])
    have "recording_ok c (g\<lparr>rg_live := s'\<rparr>) t" using ok settings_frame [OF k] k by (simp add: recording_ok_def)
    moreover have "r = Inl e" "g' = g\<lparr>rg_live := s'\<rparr>" using start_seg by (simp_all add: start_segment_def b Inl)
    ultimately show ?thesis by simp
  next
    case (Inr v)
    then have b': "begin_acquisition ma a ?s = (Inr (), s')" using b by simp
    have same: "same_recording (ss_config ?s) c" using ok by (simp add: recording_ok_def)
    have sh: "shows_history c s' (segs @ [recorded_segment c a])" by (rule begin_shows [OF h(1) b' same w start])
    from begin_acquisition_Inr [OF b'] obtain d where n: "ss_config s' = sg_config a" "ss_acquisition s' = sg_id a"
      "validate_acquisition a (ss_config ?s) = Inr ()" "ss_acquisition ?s = 0 \<longrightarrow> sg_id a = 1"
      and d: "automatic_row (sg_id a) (new_automatic_status\<lparr>au_available := True, au_enabled := cf_automatic (sg_config a)\<rparr>) = Inr d"
        "tb_automatic s' = filter (\<lambda>r. column r 0 \<noteq> int_of_u64 0 \<and> column r 0 \<noteq> int_of_u64 (sg_id a)) (tb_automatic ?s) @ [d]"
      by auto
    have "current_segment s' (segs @ [recorded_segment c a])"
      by (simp add: current_segment_def n recorded_segment_def)
    moreover have "started_at (sg_start a) (segs @ [recorded_segment c a])"
      by (simp add: started_at_def recorded_segment_def)
    moreover have "decoders_ok (cf_automatic c) s'"
    proof (rule decoders_begin [OF _ d(2,1)])
      show "decoders_ok (cf_automatic c) ?s" using ok by (simp add: recording_ok_def)
      show "sg_id a \<noteq> 0" "sg_id a \<le> 2048"
        using n(3) unfolding validate_acquisition_def Let_def bind_result_Inr guard_err_Inr by auto
    qed (use n one in simp_all)
    moreover have "same_recording (ss_config s') c"
      unfolding n(1) by (rule validate_acquisition_same [OF validate_acquisition_legacy [OF same n(3)]])
    moreover have "receptions_ok s'"
    proof -
      let ?P = "\<lambda>x. tb_receptions x = tb_receptions ?s"
      have P: "steady ?P" by (simp add: steady_def)
      have "keeps ?P (begin_acquisition ma a)"
        unfolding begin_acquisition_def save_automatic_def replace_decoder_def
        by (intro keep_rules steady_begin [OF P] steady_power [OF P] keeps_change) simp_all
      then have "tb_receptions s' = tb_receptions ?s" unfolding keeps_def using b by (metis snd_conv)
      then show ?thesis using ok by (simp add: receptions_ok_def recording_ok_def)
    qed
    moreover have "r = Inr ()" "g' = commit s' (published a (rg_summary g))"
      using start_seg by (simp_all add: start_segment_def b Inr)
    ultimately show ?thesis using commit_ok [OF sh] by simp
  qed
qed

lemma update_ok:
  assumes ok: "recording_ok c g t" and e: "t \<le> sn_elapsed n" "sn_elapsed n \<le> 10000000000"
  shows "recording_ok c (snd (update n final g)) t"
proof (cases "validate_update (rg_live g) n")
  case (Inl e)
  then show ?thesis using ok by (simp add: update_def)
next
  case (Inr u)
  obtain r s where b: "begin_batch (rg_live g) = (r, s)" by fastforce
  have k: "settings_and_tables s = settings_and_tables (rg_live g)" using settings_kept(1) [of "rg_live g"] b by simp
  note f = settings_frame [OF k]
  from ok obtain segs where h: "shows_history c s segs" "current_segment s segs" "started_at t segs"
    and same: "same_recording (ss_config s) c" and rx: "receptions_ok s" and dec: "decoders_ok (cf_automatic c) s"
    using f unfolding recording_ok_def by blast
  show ?thesis
  proof (cases r)
    case (Inl e)
    then show ?thesis using ok by (simp add: update_def Inr b)
  next
    case r: (Inr v)
    show ?thesis
    proof (cases "update_tables n final (s, rg_summary g)")
      case (Inl e)
      let ?s = "roll_back (fst (rg_saved g)) s"
      have ht: "history_tables ?s = history_tables (rg_live g)"
        using ok k by (simp add: recording_ok_def roll_back_def)
      note fr = history_frame(1) [OF this]
      have "receptions_ok ?s"
        using ok by (simp add: recording_ok_def roll_back_def receptions_ok_def)
      moreover have acq: "ss_acquisition ?s = ss_acquisition (rg_live g)" "ss_config ?s = ss_config (rg_live g)"
        using k by (simp_all add: roll_back_def)
      moreover have "current_segment ?s segs = current_segment (rg_live g) segs" for segs by (rule current_frame [OF acq])
      moreover have "decoders_ok b ?s = decoders_ok b (rg_live g)" for b using acq ht by (simp add: decoders_ok_def)
      ultimately show ?thesis
        using ok k fr ht
        by (simp add: update_def Inr b r Inl recording_ok_def)
    next
      case tables: (Inr p)
      obtain s' y where p: "p = (s', y)" by fastforce
      from tables obtain d where d: "automatic_row (ss_acquisition s) (sn_automatic n) = Inr d"
        and s': "s' = replace_decoder (ss_acquisition s) d (finish_acquisition (sn_elapsed n) final s)"
        unfolding p update_tables_def by (auto simp: bind_result_Inr)
      have au: "au_enabled (sn_automatic n) = cf_automatic (ss_config s)"
        using Inr k by (auto simp: validate_update_def bind_result_Inr)
      have "\<exists>segs'. shows_history c s' segs' \<and> current_segment s' segs' \<and> started_at t segs'"
      proof (cases "segs = []")
        case True
        then have z: "ss_acquisition s = 0" using h(2) by (simp add: current_segment_def)
        then have "s' = replace_decoder 0 d s" using s' by (simp add: finish_acquisition_def)
        then show ?thesis
          using decoder_shows [OF h(1) d] True z by (auto simp: current_segment_def replace_decoder_def started_at_def)
      next
        case False
        then obtain old a where segs: "segs = old @ [a]" by (metis append_butlast_last_id)
        let ?a = "a\<lparr>sg_end := sn_elapsed n, sg_finalized := final\<rparr>"
        have at: "ss_acquisition s = sg_id a" "cf_automatic (ss_config s) = cf_automatic (sg_config a)"
          using h(2) by (simp_all add: segs current_segment_def)
        have st: "sg_start a = t" using h(3) by (simp add: segs started_at_def)
        then have fin: "shows_history c (finish_acquisition (sn_elapsed n) final s) (old @ [?a])"
          using finish_shows h(1) at(1) e unfolding segs by blast
        have "shows_history c s' (old @ [?a])"
          unfolding s' by (rule decoder_shows [OF fin d]) (simp_all add: at au)
        moreover have "current_segment s' (old @ [?a])" "started_at t (old @ [?a])"
          using at st by (simp_all add: current_segment_def started_at_def s' replace_decoder_def finish_acquisition_def)
        ultimately show ?thesis by blast
      qed
      moreover have "same_recording (ss_config s') c" "receptions_ok s'"
        using same rx by (simp_all add: s' replace_decoder_def finish_acquisition_def receptions_ok_def)
      moreover have "decoders_ok (cf_automatic c) s'"
        by (rule decoders_replace [OF dec d au]) (simp_all add: s' replace_decoder_def finish_acquisition_def)
      ultimately show ?thesis
        using commit_ok by (auto simp: update_def Inr b r tables p)
    qed
  qed
qed

lemma created:
  assumes "new_recording c = Inr g"
  shows "recording_ok c g 0" "unat (cf_span c) \<le> 26000000"
proof -
  from assms obtain s0 where s0: "create_session c = Inr s0"
    and opened: "(case enable_acquisitions s0 of (Inl e, _) \<Rightarrow> Inl e | (Inr _, s') \<Rightarrow> Inr (commit s' (new_summary c))) = Inr g"
    unfolding new_recording_def bind_result_Inr by blast
  from s0 obtain decoder where chk: "check_recording c = Inr ()"
    and row: "automatic_row 0 (new_automatic_status\<lparr>au_available := True, au_enabled := cf_automatic c\<rparr>) = Inr decoder"
    and s0: "s0 = (new_session c)\<lparr>tb_automatic := [decoder]\<rparr>"
    by (auto simp: create_session_def bind_result_Inr)
  obtain r s' where en: "enable_acquisitions s0 = (r, s')" by fastforce
  from opened obtain u where r: "r = Inr u" and g: "g = commit s' (new_summary c)"
    by (cases r) (simp_all add: en)
  note en = en [unfolded r s0]
  let ?s = "(new_session c)\<lparr>tb_automatic := [decoder]\<rparr>"
  from en have s': "s' = ?s\<lparr>ss_pending := False, ss_segmented := True\<rparr>"
    by (simp add: enable_acquisitions_def begin_batch_def result_simps new_session_def)
  have key: "column decoder 0 = int_of_u64 0"
    using row by (auto simp: automatic_row_def bind_result_Inr insert_row_Inr column_def)
  have "shows_history c s' []"
    by (simp add: shows_history_iff s' new_session_def is_history_def segment_keys_def orphan_lane_def key)
  moreover have "current_segment s' []" by (simp add: current_segment_def s' new_session_def)
  moreover have "started_at 0 []" by (simp add: started_at_def)
  moreover have "decoders_ok (cf_automatic c) s'" 
  proof -
    have t: "tb_automatic s' = [decoder]" "ss_acquisition s' = 0" "ss_config s' = c" by (simp_all add: s' new_session_def)
    have "\<exists>st. au_enabled st = cf_automatic c \<and> automatic_row 0 st = Inr decoder"
      by (rule exI [of _ "new_automatic_status\<lparr>au_available := True, au_enabled := cf_automatic c\<rparr>"]) (simp add: row)
    then show ?thesis unfolding decoders_ok_def t by auto
  qed
  moreover have "same_recording (ss_config s') c" by (simp add: same_recording_def s' new_session_def)
  moreover have "receptions_ok s'" by (simp add: receptions_ok_def s' new_session_def)
  ultimately show "recording_ok c g 0" unfolding g by (rule commit_ok)
  note ck = chk [unfolded check_recording_def bind_result_Inr guard_err_Inr]
  show "unat (cf_span c) \<le> 26000000"
  proof (cases "is_rak c")
    case True
    then have "validate_concentrator_config (cf_boards c) (cf_center c) (cf_span c) (cf_offset c) False = Inr ()"
      using ck by (auto simp: bind_result_Inr)
    then show ?thesis
      unfolding validate_concentrator_config_def bind_result_Inr guard_err_Inr by (auto simp: not_less)
  next
    case False
    then have "cf_rate c \<le> 20000000" "cf_span c \<le> cf_rate c" using ck by (auto simp: not_less)
    then show ?thesis by (simp add: word_le_nat_alt)
  qed
qed

lemma recording_reachable:
  assumes "new_recording c = Inr g0" "(recording_step ma c)\<^sup>*\<^sup>* (g0, 0) (g, t)"
  shows "recording_ok c g t"
proof -
  have "recording_ok c (fst x) (snd x)" if "(recording_step ma c)\<^sup>*\<^sup>* (g0, 0) x" for x
    using that
  proof (induction rule: rtranclp_induct)
    case base
    show ?case using created(1) [OF assms(1)] by simp
  next
    case (step x x')
    from step.hyps(2) step.IH show ?case
    proof cases
      case (checkpoint_step t n g final)
      have "recording_ok c (snd (update (n\<lparr>sn_elapsed := max t (sn_elapsed n)\<rparr>) final g)) t"
        by (rule update_ok) (use step.IH checkpoint_step in simp_all)
      then show ?thesis using checkpoint_step by (simp add: checkpoint_def)
    next
      case (segment_step a g r g' t)
      then show ?thesis using step.IH segment_ok [OF _ created(2) [OF assms(1)]] by simp
    qed (auto intro: record_ok)
  qed
  from this [OF assms(2)] show ?thesis by simp
qed

text \<open>
  What a later reader finds: the configuration that it rebuilds from the rows of the session, the
  history of acquisitions that it accepts under that configuration, and the receptions.
\<close>

definition readable :: "session_setup \<Rightarrow> session_store \<Rightarrow> bool" where
  "readable u s \<longleftrightarrow>
     (\<exists>l segs. read_config u (tb_automatic s) = Inr l \<and> acquisitions s l = Inr segs \<and>
       (\<forall>k<length segs. unat (sg_id (segs ! k)) = Suc k) \<and>
       (\<forall>k. Suc k < length segs \<longrightarrow>
          sg_finalized (segs ! k) \<and> sg_end (segs ! k) - 1 / 100000000 \<le> sg_start (segs ! Suc k))) \<and>
     distinct (map (\<lambda>r. column r 0) (tb_receptions s)) \<and>
     (\<forall>r\<in>set (tb_receptions s). is_ok (reception_from 3 r))"

lemma readable_store:
  assumes "shows_history c s segs" "receptions_ok s" "read_config u (tb_automatic s) = Inr l" "same_source c l"
  shows "readable u s"
proof -
  have h: "acquisitions s c = Inr segs" using assms(1) by (simp add: shows_history_def)
  have h2: "is_history segs" using assms(1) by (simp add: shows_history_iff)
  let ?segs = "map (rebased l) segs"
  have next_one: "sg_finalized (?segs ! k) \<and> sg_end (?segs ! k) - 1 / 100000000 \<le> sg_start (?segs ! Suc k)" if "Suc k < length ?segs" for k
  proof -
    have "follows (take (Suc k) segs) (segs ! Suc k)" using h2 that by (simp add: is_history_def)
    moreover have "last (take (Suc k) segs) = segs ! k" "take (Suc k) segs \<noteq> []"
      using that by (simp_all add: take_Suc_conv_app_nth)
    ultimately show ?thesis using that unfolding follows_def by (metis Suc_lessD length_map nth_map rebased_keeps(2-4))
  qed
  have ids: "\<forall>k<length ?segs. unat (sg_id (?segs ! k)) = Suc k" using history_ids [OF h2] by simp
  have "is_ok (reception_from 3 r)" if "r \<in> set (tb_receptions s)" for r
    using assms(2) that receptions.readable unfolding receptions_ok_def by blast
  with acquisitions_rebased [OF assms(4) h] next_one ids assms(2,3) show ?thesis
    unfolding readable_def receptions_ok_def by blast
qed

text \<open>
  C1: A recording stays readable. For a configuration from which the recording could be created and
  its rows written, and which is \<open>savable\<close> (what the reader demands of them), consider any sequence of
  calls of the engine, returning or throwing: records, starts of acquisitions and checkpoints,
  as long as no elapsed time exceeds \<open>10 ^ 10\<close> seconds and the first acquisition keeps the decoder setting
  of the recording. Then in the store as it stands and in the revision last committed, the reader
  rebuilds exactly the saved part of that configuration, and under the configuration it rebuilt it
  accepts the history of acquisitions, numbered from one, each finished before the next began; and
  every reception can be read back under its own identity.
\<close>

theorem recording_stays_readable:
  assumes "new_recording c = Inr g0" "write_setup app ident c = Inr u" "savable ident c"
    and "(recording_step ma c)\<^sup>*\<^sup>* (g0, 0) (g, t)"
  shows "readable u (rg_live g) \<and> readable u (fst (rg_saved g)) \<and>
    read_config u (tb_automatic (rg_live g)) = Inr (saved_config c) \<and>
    read_config u (tb_automatic (fst (rg_saved g))) = Inr (saved_config c)"
proof -
  have ok: "recording_ok c g t" by (rule recording_reachable [OF assms(1,4)])
  then obtain segs where h: "shows_history c (rg_live g) segs" unfolding recording_ok_def by blast
  have k: "history_tables (fst (rg_saved g)) = history_tables (rg_live g)" using ok by (simp add: recording_ok_def)
  have h': "shows_history c (fst (rg_saved g)) segs" using h history_frame(1) [OF k] by simp
  have chk: "check_recording c = Inr ()"
    using assms(1) by (auto simp: new_recording_def create_session_def bind_result_Inr)
  have "read_decoders (tb_automatic (rg_live g)) = Inr (cf_automatic c)"
    by (rule decoders_read) (use ok in \<open>simp add: recording_ok_def\<close>)
  note rd = setup_read [OF assms(2) chk assms(3) this]
  then have rd': "read_config u (tb_automatic (fst (rg_saved g))) = Inr (saved_config c)" using k by simp
  have same: "same_source c (saved_config c)"
    by (rule saved_same_source [OF chk]) (use assms(3) in \<open>simp add: savable_def\<close>)
  have "receptions_ok (rg_live g)" "receptions_ok (fst (rg_saved g))" using ok by (simp_all add: recording_ok_def)
  from readable_store [OF h this(1) rd same] readable_store [OF h' this(2) rd' same] rd rd' show ?thesis by blast
qed

definition first_segment :: acquisition_segment where
  "first_segment = \<lparr>sg_id = 1, sg_start = 0, sg_end = 0, sg_finalized = False, sg_config = default_config\<rparr>"

definition sample_library :: math_library where
  "sample_library = \<lparr>ma_power = (\<lambda>x. x), ma_decibel = (\<lambda>x. x)\<rparr>"

lemma default_recording: "\<exists>g. new_recording default_config = Inr g"
proof -
  have t: "tuned_center_hz default_config = Inr 907500000"
    by (simp add: tuned_center_hz_def default_config_def guard_err_def)
  have "check_recording default_config = Inr ()"
    unfolding check_recording_def t by (simp add: default_config_def guard_err_def)
  moreover obtain d where "automatic_row 0 (new_automatic_status\<lparr>au_available := True, au_enabled := False\<rparr>) = Inr d"
    using decoder_written by blast
  moreover have "cf_automatic default_config = False" by (simp add: default_config_def)
  ultimately have c: "create_session default_config = Inr ((new_session default_config)\<lparr>tb_automatic := [d]\<rparr>)"
    by (simp add: create_session_def)
  show ?thesis
    by (simp add: new_recording_def c enable_acquisitions_def begin_batch_def then_op_def check_op_def with_store_def
        change_op_def guard_err_def new_session_def)
qed

lemma default_setup: "\<exists>u. write_setup ''1.0'' ''survey'' default_config = Inr u" "savable ''survey'' default_config"
proof -
  have "valid_utf8 ''Meshtastic''" "valid_utf8 ''1.0''" "valid_utf8 ''survey''" "valid_utf8 ''RF survey''" "valid_utf8 ''LongFast''"
    by code_simp+
  then have "bind_value (SText ''Meshtastic'') = Inr ()" "bind_value (SText ''1.0'') = Inr ()" "bind_value (SText ''survey'') = Inr ()"
    "bind_value (SText ''RF survey'') = Inr ()" "bind_value (SText ''LongFast'') = Inr ()"
    by simp_all
  note t = this
  show "\<exists>u. write_setup ''1.0'' ''survey'' default_config = Inr u"
    by (simp add: write_setup_def default_config_def insert_row_def bind_row.simps session_columns_def saved_lane_columns_def
        source_code_def default_lane_def t)
  show "savable ''survey'' default_config"
    by (simp add: savable_def default_config_def default_lane_def lane_savable_def)
qed

theorem recording_stays_readable_witness:
  "\<exists>g u. new_recording default_config = Inr g \<and> write_setup ''1.0'' ''survey'' default_config = Inr u \<and>
     readable u (rg_live (snd (start_segment sample_library first_segment g)))"
proof -
  obtain g where g: "new_recording default_config = Inr g" using default_recording by blast
  obtain u where u: "write_setup ''1.0'' ''survey'' default_config = Inr u" using default_setup(1) by blast
  obtain r g' where s: "start_segment sample_library first_segment g = (r, g')" by fastforce
  have "sg_id first_segment = 1 \<longrightarrow> cf_automatic (sg_config first_segment) = cf_automatic default_config"
    by (simp add: first_segment_def)
  from recording_stays_readable [OF g u default_setup(2) r_into_rtranclp, OF segment_step [OF this s]] g u s
  show ?thesis by auto
qed

end
