(* ===== verification/ScanReport.thy ===== *)
theory ScanReport
  imports Survey ReceiverConfig
begin

text \<open>
  The frequency summary of a concentrator survey (\<open>report.cpp\<close>): the selection of a report, the
  scans it includes, and what is accumulated for every board and frequency. The fraction of a
  scan above the threshold times its number of samples, which the code rounds, is a whole number.
\<close>

section \<open>Selection\<close>

record survey_query =
  qy_lower :: "rat option"
  qy_upper :: "rat option"
  qy_start :: "rat option"
  qy_end :: "rat option"
  qy_geographic :: bool
  qy_south :: "rat option"
  qy_north :: "rat option"
  qy_west :: "rat option"
  qy_east :: "rat option"

record report_context =
  rx_lower :: rat
  rx_upper :: rat
  rx_start :: rat
  rx_end :: rat
  rx_geographic :: bool
  rx_south :: rat
  rx_north :: rat
  rx_west :: rat
  rx_east :: rat

definition config_lower :: "receiver_config \<Rightarrow> rat" where
  "config_lower c = rat_of_word (cf_center c) - rat_of_word (cf_span c) / 2"

definition config_upper :: "receiver_config \<Rightarrow> rat" where
  "config_upper c = rat_of_word (cf_center c) + rat_of_word (cf_span c) / 2"

definition bound_bad :: "rat option \<Rightarrow> bool" where
  "bound_bad b = (case b of None \<Rightarrow> True | Some x \<Rightarrow> x < 0 \<or> x > 10000000000)"

definition rectangle_bad :: "survey_query \<Rightarrow> bool" where
  "rectangle_bad q =
     (case (qy_south q, qy_north q, qy_west q, qy_east q) of
        (Some s, Some n, Some w, Some e) \<Rightarrow> s < - 90 \<or> n > 90 \<or> w < - 180 \<or> e > 180 \<or> s > n \<or> w > e
      | _ \<Rightarrow> True)"

text \<open>A bound of zero stands for the whole recording, over all its acquisitions.\<close>

definition report_selection :: "survey_query \<Rightarrow> receiver_config \<Rightarrow> acquisition_segment list \<Rightarrow> report_context result" where
  "report_selection q c acquisitions =
     bind_result (guard_err (\<exists>b\<in>set [qy_lower q, qy_upper q, qy_start q, qy_end q]. bound_bad b)
       ''Invalid report selection bound'') (\<lambda>_.
     let l = the (qy_lower q); u = the (qy_upper q);
         lower = (if l > 0 then l else config_lower c);
         upper = (if u > 0 then u else config_upper c);
         lower = (if l = 0 then fold (\<lambda>g x. min x (config_lower (sg_config g))) acquisitions lower else lower);
         upper = (if u = 0 then fold (\<lambda>g x. max x (config_upper (sg_config g))) acquisitions upper else upper);
         stop = (if the (qy_end q) > 0 then the (qy_end q) else 10000000000)
     in bind_result (guard_err (lower \<ge> upper \<or> stop \<le> the (qy_start q)) ''Empty or reversed report selection'') (\<lambda>_.
        bind_result (guard_err (qy_geographic q \<and> rectangle_bad q)
          ''Invalid geographic rectangle; split a selection crossing the date line'') (\<lambda>_.
        Inr \<lparr>rx_lower = lower, rx_upper = upper, rx_start = the (qy_start q), rx_end = stop, rx_geographic = qy_geographic q,
          rx_south = the (qy_south q), rx_north = the (qy_north q), rx_west = the (qy_west q), rx_east = the (qy_east q)\<rparr>)))"

definition in_region :: "position_fix option \<Rightarrow> report_context \<Rightarrow> bool" where
  "in_region position c \<longleftrightarrow> \<not> rx_geographic c \<or>
     (case position of
        None \<Rightarrow> False
      | Some p \<Rightarrow> px_valid p \<and> rx_south c \<le> px_lat p \<and> px_lat p \<le> rx_north c \<and> rx_west c \<le> px_lon p \<and> px_lon p \<le> rx_east c)"

definition rak_selected :: "timed_scan \<Rightarrow> report_context \<Rightarrow> bool" where
  "rak_selected s c \<longleftrightarrow> rat_of_word (cs_freq s) + 117150 > rx_lower c \<and> rat_of_word (cs_freq s) - 117150 < rx_upper c \<and>
     ts_end s > rx_start c \<and> ts_start s < rx_end c \<and> in_region (ts_position s) c"

definition rak_boundary :: "timed_scan \<Rightarrow> report_context \<Rightarrow> bool" where
  "rak_boundary s c \<longleftrightarrow> rat_of_word (cs_freq s) - 117150 < rx_lower c \<or> rat_of_word (cs_freq s) + 117150 > rx_upper c \<or>
     ts_start s < rx_start c \<or> ts_end s > rx_end c"

section \<open>Accumulation\<close>

record rak_aggregate =
  ra_scans :: u64
  ra_samples :: u64
  ra_above :: u64
  ra_boundaries :: u64
  ra_missing_gps :: u64
  ra_first :: rat
  ra_last :: rat
  ra_utc_first :: rat
  ra_utc_last :: rat
  ra_counts :: "u64 list"
  ra_last_fix :: "position_fix option"

definition new_aggregate :: rak_aggregate where
  "new_aggregate = \<lparr>ra_scans = 0, ra_samples = 0, ra_above = 0, ra_boundaries = 0, ra_missing_gps = 0,
     ra_first = 10000000000, ra_last = 0, ra_utc_first = 1000000000000000, ra_utc_last = 0,
     ra_counts = replicate 33 0, ra_last_fix = None\<rparr>"

definition sample_limit :: u64 where "sample_limit = 9223372036854775807"

definition aggregate_add :: "timed_scan \<Rightarrow> bool \<Rightarrow> rak_aggregate \<Rightarrow> rak_aggregate result" where
  "aggregate_add s boundary a =
     (let n = concentrator_sample_count (concentrator_scan.truncate s) in
      if ra_samples a > sample_limit - n then Inl ''Concentrator report sample total exceeds supported bounds''
      else bind_result (concentrator_fraction_above (concentrator_scan.truncate s) (Some (- 87))) (\<lambda>fraction.
        Inr (a\<lparr>ra_scans := ra_scans a + 1, ra_samples := ra_samples a + n,
          ra_above := ra_above a + word_of_int (round (fraction * rat_of_word n)),
          ra_boundaries := ra_boundaries a + (if boundary then 1 else 0),
          ra_missing_gps := ra_missing_gps a + (if ts_position s = None then 1 else 0),
          ra_first := min (ra_first a) (ts_start s), ra_last := max (ra_last a) (ts_end s),
          ra_utc_first := min (ra_utc_first a) (ts_utc_start s), ra_utc_last := max (ra_utc_last a) (ts_utc_end s),
          ra_counts := map2 (\<lambda>total k. total + ucast k) (ra_counts a) (cs_counts s),
          ra_last_fix := (if ts_position s = None then ra_last_fix a else ts_position s)\<rparr>)))"

type_synonym group_key = "u32 \<times> u64"

definition key_less :: "group_key \<Rightarrow> group_key \<Rightarrow> bool" where
  "key_less k l \<longleftrightarrow> fst k < fst l \<or> (fst k = fst l \<and> snd k < snd l)"

text \<open>The groups in the order of their keys, as the map keeps them.\<close>

fun update_group :: "group_key \<Rightarrow> (rak_aggregate \<Rightarrow> rak_aggregate result) \<Rightarrow> (group_key \<times> rak_aggregate) list \<Rightarrow>
    (group_key \<times> rak_aggregate) list result" where
  "update_group key f [] = bind_result (f new_aggregate) (\<lambda>a. Inr [(key, a)])"
| "update_group key f ((k, a) # rest) =
     (if k = key then bind_result (f a) (\<lambda>a. Inr ((k, a) # rest))
      else if key_less key k then bind_result (f new_aggregate) (\<lambda>b. Inr ((key, b) # (k, a) # rest))
      else bind_result (update_group key f rest) (\<lambda>rest. Inr ((k, a) # rest)))"

definition aggregate_limit :: nat where "aggregate_limit = 200000"

definition scan_key :: "timed_scan \<Rightarrow> group_key" where "scan_key s = (cs_board s, cs_freq s)"

fun frequency_groups :: "report_context \<Rightarrow> timed_scan list \<Rightarrow> (group_key \<times> rak_aggregate) list \<Rightarrow>
    (group_key \<times> rak_aggregate) list result" where
  "frequency_groups c [] groups = Inr groups"
| "frequency_groups c (s # scans) groups =
     (if \<not> rak_selected s c then frequency_groups c scans groups
      else if map_of groups (scan_key s) = None \<and> length groups \<ge> aggregate_limit then
        Inl ''Too many concentrator frequency groups''
      else bind_result (update_group (scan_key s) (aggregate_add s (rak_boundary s c)) groups) (frequency_groups c scans))"

text \<open>The detailed report: every selected scan on its own.\<close>

fun scan_rows :: "report_context \<Rightarrow> timed_scan list \<Rightarrow> (group_key \<times> rak_aggregate) list result" where
  "scan_rows c [] = Inr []"
| "scan_rows c (s # scans) =
     (if \<not> rak_selected s c then scan_rows c scans
      else bind_result (aggregate_add s (rak_boundary s c) new_aggregate) (\<lambda>a.
        bind_result (scan_rows c scans) (\<lambda>rows. Inr ((scan_key s, a) # rows))))"

section \<open>One group\<close>

definition scan_samples :: "timed_scan \<Rightarrow> nat" where
  "scan_samples s = sum_list (map unat (cs_counts s))"

definition scan_above :: "timed_scan \<Rightarrow> nat" where
  "scan_above s = unat (concentrator_above (concentrator_scan.truncate s) (- 87))"

text \<open>An accumulated group is the sum over its scans.\<close>

definition sums_up :: "report_context \<Rightarrow> timed_scan list \<Rightarrow> rak_aggregate \<Rightarrow> bool" where
  "sums_up c ss a \<longleftrightarrow>
     unat (ra_samples a) = sum_list (map scan_samples ss) \<and> unat (ra_samples a) < 2 ^ 63 \<and>
     unat (ra_above a) = sum_list (map scan_above ss) \<and> ra_above a \<le> ra_samples a \<and>
     ra_scans a = of_nat (length ss) \<and> ra_boundaries a = of_nat (length (filter (\<lambda>s. rak_boundary s c) ss)) \<and>
     ra_missing_gps a = of_nat (length (filter (\<lambda>s. ts_position s = None) ss)) \<and>
     length (ra_counts a) = 33 \<and>
     (\<forall>i<33. unat (ra_counts a ! i) = sum_list (map (\<lambda>s. unat (cs_counts s ! i)) ss)) \<and>
     (\<forall>s\<in>set ss. ra_first a \<le> ts_start s \<and> ts_end s \<le> ra_last a)"

lemma sums_up_new: "sums_up c [] new_aggregate"
  unfolding sums_up_def new_aggregate_def by (simp del: replicate.simps)

lemma truncate_counts [simp]: "cs_counts (concentrator_scan.truncate s) = cs_counts s"
  "cs_offset_db (concentrator_scan.truncate s) = cs_offset_db s"
  by (simp_all add: concentrator_scan.truncate_def)

lemma count_le_samples: "length (cs_counts s) = 33 \<Longrightarrow> i < 33 \<Longrightarrow> unat (cs_counts s ! i) \<le> scan_samples s"
  unfolding scan_samples_def by (rule member_le_sum_list) simp_all

lemma sum_counts_le:
  "list_all (\<lambda>s. length (cs_counts s) = 33) ss \<Longrightarrow> i < 33 \<Longrightarrow>
    sum_list (map (\<lambda>s. unat (cs_counts s ! i)) ss) \<le> sum_list (map scan_samples ss)"
  unfolding list_all_iff by (rule sum_list_mono) (simp add: count_le_samples)

lemma aggregate_add_ok:
  assumes len: "length (cs_counts s) = 33" and others: "list_all (\<lambda>s. length (cs_counts s) = 33) ss"
    and sums: "sums_up c ss a" and add: "aggregate_add s (rak_boundary s c) a = Inr b"
  shows "sums_up c (ss @ [s]) b"
proof -
  let ?t = "concentrator_scan.truncate s"
  let ?n = "concentrator_sample_count ?t" and ?above = "concentrator_above ?t (- 87)"
  have wf: "scan_wf ?t" using len by (simp add: scan_wf_def)
  have n: "unat ?n = scan_samples s" using sample_count_sum [OF wf] by (simp add: scan_samples_def)
  have le: "?above \<le> ?n" using above_le_total [OF wf] by (simp add: word_le_nat_alt)
  have room: "\<not> ra_samples a > sample_limit - ?n"
    using add by (auto simp: aggregate_add_def Let_def split: if_splits)
  have nb: "unat ?n < 2 ^ 38"
    using sum_counts_bound [of "cs_counts s"] len by (simp add: n scan_samples_def)
  have lim: "unat sample_limit = 2 ^ 63 - 1" by (simp add: sample_limit_def)
  have "?n \<le> sample_limit" using nb lim by (simp add: word_le_nat_alt)
  then have bound: "unat (ra_samples a) + unat ?n < 2 ^ 63"
    using room lim by (simp add: not_less word_le_nat_alt unat_sub)
  obtain fraction where f: "concentrator_fraction_above ?t (Some (- 87)) = Inr fraction"
    and b: "b = a\<lparr>ra_scans := ra_scans a + 1, ra_samples := ra_samples a + ?n,
          ra_above := ra_above a + word_of_int (round (fraction * rat_of_word ?n)),
          ra_boundaries := ra_boundaries a + (if rak_boundary s c then 1 else 0),
          ra_missing_gps := ra_missing_gps a + (if ts_position s = None then 1 else 0),
          ra_first := min (ra_first a) (ts_start s), ra_last := max (ra_last a) (ts_end s),
          ra_utc_first := min (ra_utc_first a) (ts_utc_start s), ra_utc_last := max (ra_utc_last a) (ts_utc_end s),
          ra_counts := map2 (\<lambda>total k. total + ucast k) (ra_counts a) (cs_counts s),
          ra_last_fix := (if ts_position s = None then ra_last_fix a else ts_position s)\<rparr>"
    using add room by (auto simp: aggregate_add_def Let_def bind_result_Inr)
  have "fraction * rat_of_word ?n = rat_of_word ?above"
  proof (cases "?n = 0")
    case True
    then show ?thesis using le by simp
  next
    case False
    then have "fraction = rat_of_word ?above / rat_of_word ?n"
      using f by (auto simp: concentrator_fraction_above_def Let_def split: option.splits)
    then show ?thesis using False by simp
  qed
  moreover have "round (rat_of_word ?above) = int (unat ?above)" unfolding rat_of_word_def by (rule round_of_nat)
  ultimately have whole: "word_of_int (round (fraction * rat_of_word ?n)) = ?above" by (simp only:) simp
  have sums': "unat (ra_samples a) = sum_list (map scan_samples ss)" "unat (ra_above a) = sum_list (map scan_above ss)"
    "unat (ra_above a) \<le> unat (ra_samples a)" "length (ra_counts a) = 33"
    "\<And>i. i < 33 \<Longrightarrow> unat (ra_counts a ! i) = sum_list (map (\<lambda>s. unat (cs_counts s ! i)) ss)"
    using sums by (simp_all add: sums_up_def word_le_nat_alt)
  have samples: "unat (ra_samples b) = unat (ra_samples a) + unat ?n"
    using bound by (simp add: b unat_word_ariths)
  have above: "unat (ra_above b) = unat (ra_above a) + unat ?above"
    using bound sums'(3) le by (simp add: b whole unat_word_ariths word_le_nat_alt)
  have count: "unat (ra_counts b ! i) = unat (ra_counts a ! i) + unat (cs_counts s ! i)" if i: "i < 33" for i
  proof -
    have "unat (ra_counts a ! i) + unat (cs_counts s ! i) < 2 ^ 64"
      using sum_counts_le [OF others i] sums'(5) [OF i] count_le_samples [OF len i] bound sums'(1) n by simp
    then show ?thesis using i len sums'(4) by (simp add: b unat_word_ariths unat_ucast_32_64)
  qed
  have rest: "ra_scans b = of_nat (length (ss @ [s]))" "length (ra_counts b) = 33"
    "ra_boundaries b = of_nat (length (filter (\<lambda>s. rak_boundary s c) (ss @ [s])))"
    "ra_missing_gps b = of_nat (length (filter (\<lambda>s. ts_position s = None) (ss @ [s])))"
    using sums sums'(4) len by (simp_all add: sums_up_def b)
  have "\<forall>r\<in>set ss. ra_first a \<le> ts_start r \<and> ts_end r \<le> ra_last a" using sums by (simp add: sums_up_def)
  then have times: "\<forall>r\<in>set (ss @ [s]). ra_first b \<le> ts_start r \<and> ts_end r \<le> ra_last b"
    by (auto simp: b min_le_iff_disj le_max_iff_disj)
  have "\<forall>i<33. unat (ra_counts b ! i) = sum_list (map (\<lambda>s. unat (cs_counts s ! i)) (ss @ [s]))"
    using count sums'(5) by simp
  moreover have "unat (ra_samples b) = sum_list (map scan_samples (ss @ [s]))" using samples n sums'(1) by simp
  moreover have "unat (ra_samples b) < 2 ^ 63" using samples bound by simp
  moreover have "unat (ra_above b) = sum_list (map scan_above (ss @ [s]))" using above sums'(2) by (simp add: scan_above_def)
  moreover have "ra_above b \<le> ra_samples b"
    using samples above sums'(3) le unfolding word_le_nat_alt by linarith
  ultimately show ?thesis unfolding sums_up_def using rest times by blast
qed

section \<open>All groups\<close>

lemma key_less_irrefl [simp]: "\<not> key_less k k"
  by (simp add: key_less_def)

lemma key_less_trans: "key_less k l \<Longrightarrow> key_less l m \<Longrightarrow> key_less k m"
  by (auto simp: key_less_def)

lemma key_less_linear: "k \<noteq> l \<Longrightarrow> \<not> key_less k l \<Longrightarrow> key_less l k"
  by (cases k; cases l) (auto simp: key_less_def)

lemma update_group_ok:
  "sorted_wrt key_less (map fst groups) \<Longrightarrow> update_group key f groups = Inr out \<Longrightarrow>
    sorted_wrt key_less (map fst out) \<and> set (map fst out) = insert key (set (map fst groups)) \<and>
    (\<exists>b. f (case map_of groups key of None \<Rightarrow> new_aggregate | Some a \<Rightarrow> a) = Inr b \<and> map_of out = (map_of groups)(key \<mapsto> b))"
proof (induction groups arbitrary: out)
  case Nil
  then show ?case by (auto simp: bind_result_Inr fun_eq_iff)
next
  case (Cons p groups)
  obtain k a where p: "p = (k, a)" by (cases p)
  have after: "\<forall>l\<in>set (map fst groups). key_less k l" and sorted: "sorted_wrt key_less (map fst groups)"
    using Cons.prems(1) by (simp_all add: p)
  consider "k = key" | "k \<noteq> key" "key_less key k" | "k \<noteq> key" "\<not> key_less key k" by blast
  then show ?case
  proof cases
    case 1
    then show ?thesis using Cons.prems by (auto simp: p bind_result_Inr fun_eq_iff)
  next
    case 2
    have "key \<notin> set (map fst groups)" using after 2 key_less_trans [of key k] key_less_irrefl by blast
    then have none: "map_of groups key = None" by (simp add: map_of_eq_None_iff)
    obtain b where b: "f new_aggregate = Inr b" "out = (key, b) # (k, a) # groups"
      using Cons.prems(2) 2 by (auto simp: p bind_result_Inr)
    have "\<forall>l\<in>set (map fst groups). key_less key l" using after 2(2) key_less_trans by blast
    then show ?thesis using Cons.prems(1) 2 none b by (auto simp: p fun_eq_iff)
  next
    case 3
    obtain rest where r: "update_group key f groups = Inr rest" "out = (k, a) # rest"
      using Cons.prems(2) 3 by (auto simp: p bind_result_Inr)
    note ih = Cons.IH [OF sorted r(1)]
    obtain b where b: "f (case map_of groups key of None \<Rightarrow> new_aggregate | Some a \<Rightarrow> a) = Inr b"
      "map_of rest = (map_of groups)(key \<mapsto> b)" using ih by blast
    have "key_less k key" using key_less_linear [of key k] 3 by simp
    then have "\<forall>l\<in>set (map fst rest). key_less k l" using ih after by simp
    moreover have "sorted_wrt key_less (map fst rest)" using ih by blast
    ultimately have "sorted_wrt key_less (map fst out)" by (simp add: r(2))
    moreover have "set (map fst out) = insert key (set (map fst (p # groups)))" using ih by (simp add: r(2) p insert_commute)
    moreover have "map_of out = (map_of (p # groups))(key \<mapsto> b)" using 3 b(2) by (auto simp: r(2) p fun_eq_iff)
    moreover have "f (case map_of (p # groups) key of None \<Rightarrow> new_aggregate | Some a \<Rightarrow> a) = Inr b" using 3 b(1) by (simp add: p)
    ultimately show ?thesis by blast
  qed
qed

definition included :: "report_context \<Rightarrow> group_key \<Rightarrow> timed_scan list \<Rightarrow> timed_scan list" where
  "included c k scans = filter (\<lambda>s. rak_selected s c \<and> scan_key s = k) scans"

text \<open>Every key with an included scan has one group, which is the sum over the scans of that key.\<close>

definition groups_ok :: "report_context \<Rightarrow> timed_scan list \<Rightarrow> (group_key \<times> rak_aggregate) list \<Rightarrow> bool" where
  "groups_ok c scans groups \<longleftrightarrow> sorted_wrt key_less (map fst groups) \<and>
     (\<forall>k. case map_of groups k of
        None \<Rightarrow> included c k scans = []
      | Some a \<Rightarrow> included c k scans \<noteq> [] \<and> sums_up c (included c k scans) a)"

lemma frequency_groups_ok:
  "groups_ok c before groups \<Longrightarrow> list_all (\<lambda>s. length (cs_counts s) = 33) (before @ scans) \<Longrightarrow>
    frequency_groups c scans groups = Inr out \<Longrightarrow> groups_ok c (before @ scans) out"
proof (induction scans arbitrary: before groups)
  case Nil
  then show ?case by simp
next
  case (Cons s scans)
  show ?case
  proof (cases "rak_selected s c")
    case False
    then have "(\<lambda>k. included c k (before @ [s])) = (\<lambda>k. included c k before)" by (simp add: included_def fun_eq_iff)
    then have "groups_ok c (before @ [s]) groups" using Cons.prems(1) unfolding groups_ok_def by metis
    then show ?thesis using Cons.IH [of "before @ [s]" groups] Cons.prems(2,3) False by simp
  next
    case True
    obtain new where u: "update_group (scan_key s) (aggregate_add s (rak_boundary s c)) groups = Inr new"
      and go: "frequency_groups c scans new = Inr out"
      using Cons.prems(3) True by (auto simp: bind_result_Inr split: if_splits)
    let ?k = "scan_key s"
    have sorted: "sorted_wrt key_less (map fst groups)" using Cons.prems(1) by (simp add: groups_ok_def)
    obtain b where b: "aggregate_add s (rak_boundary s c) (case map_of groups ?k of None \<Rightarrow> new_aggregate | Some a \<Rightarrow> a) = Inr b"
      and m: "map_of new = (map_of groups)(?k \<mapsto> b)" and new_sorted: "sorted_wrt key_less (map fst new)"
      using update_group_ok [OF sorted u] by blast
    have inc: "included c k (before @ [s]) = included c k before @ (if k = ?k then [s] else [])" for k
      using True by (auto simp: included_def)
    have old: "sums_up c (included c ?k before) (case map_of groups ?k of None \<Rightarrow> new_aggregate | Some a \<Rightarrow> a)"
    proof -
      have "case map_of groups ?k of None \<Rightarrow> included c ?k before = []
        | Some a \<Rightarrow> included c ?k before \<noteq> [] \<and> sums_up c (included c ?k before) a"
        using Cons.prems(1) unfolding groups_ok_def by blast
      then show ?thesis using sums_up_new [of c] by (cases "map_of groups ?k") simp_all
    qed
    have lens: "length (cs_counts s) = 33" "list_all (\<lambda>s. length (cs_counts s) = 33) (included c ?k before)"
      using Cons.prems(2) by (auto simp: included_def list_all_iff)
    have "sums_up c (included c ?k before @ [s]) b" by (rule aggregate_add_ok [OF lens old b])
    note here = this
    have others: "case map_of groups k of None \<Rightarrow> included c k before = []
        | Some a \<Rightarrow> included c k before \<noteq> [] \<and> sums_up c (included c k before) a" for k
      using Cons.prems(1) unfolding groups_ok_def by blast
    have "case map_of new k of None \<Rightarrow> included c k (before @ [s]) = []
        | Some a \<Rightarrow> included c k (before @ [s]) \<noteq> [] \<and> sums_up c (included c k (before @ [s])) a" for k
      using here others [of k] by (cases "k = ?k"; cases "map_of groups k") (simp_all add: m inc)
    then have "groups_ok c (before @ [s]) new"
      using new_sorted unfolding groups_ok_def by blast
    then show ?thesis using Cons.IH [of "before @ [s]" new] Cons.prems(2) go by simp
  qed
qed

text \<open>
  C22: The frequency summary of a survey accounts for every selected scan exactly once: the groups
  are in the order of board and frequency, a board and frequency has a group just when a
  selected scan has them, and the group holds the exact sums over those scans, of their
  samples, of the samples at or above the threshold, and of all 33 counters, without
  wrapping around.
\<close>

theorem frequency_summary_exact:
  assumes "frequency_groups c scans [] = Inr groups" "list_all (\<lambda>s. length (cs_counts s) = 33) scans"
  shows "sorted_wrt key_less (map fst groups) \<and>
    (case map_of groups k of
       None \<Rightarrow> included c k scans = []
     | Some a \<Rightarrow> included c k scans \<noteq> [] \<and> sums_up c (included c k scans) a)"
proof -
  have "groups_ok c [] []" by (simp add: groups_ok_def included_def)
  then have "groups_ok c scans groups" using frequency_groups_ok [of c "[]" "[]" scans groups] assms by simp
  then show ?thesis unfolding groups_ok_def by blast
qed

definition whole_band :: report_context where
  "whole_band = \<lparr>rx_lower = 902000000, rx_upper = 928000000, rx_start = 0, rx_end = 10000000000, rx_geographic = False,
     rx_south = - 90, rx_north = 90, rx_west = - 180, rx_east = 180\<rparr>"

definition sample_scan :: "u64 \<Rightarrow> u32 \<Rightarrow> timed_scan" where
  "sample_scan frequency k = \<lparr>cs_id = 1, cs_board = 0, cs_freq = frequency, cs_filter = 234300, cs_offset_db = Some (- 11),
     cs_counts = k # replicate 32 0, ts_utc_start = 100, ts_utc_end = 101, ts_start = 1, ts_end = 2, ts_position = None\<rparr>"

lemma sample_scan_added:
  "unat (ra_samples a) + unat k < 2 ^ 32 \<Longrightarrow> \<exists>b. aggregate_add (sample_scan frequency k) boundary a = Inr b"
proof -
  assume small: "unat (ra_samples a) + unat k < 2 ^ 32"
  let ?t = "concentrator_scan.truncate (sample_scan frequency k)"
  have "scan_wf ?t" by (simp add: scan_wf_def sample_scan_def)
  then have n: "unat (concentrator_sample_count ?t) = unat k"
    by (simp add: sample_count_sum) (simp add: sample_scan_def)
  have lim: "unat sample_limit = 2 ^ 63 - 1" by (simp add: sample_limit_def)
  have "concentrator_sample_count ?t \<le> sample_limit" using small n lim by (simp add: word_le_nat_alt)
  then have "\<not> ra_samples a > sample_limit - concentrator_sample_count ?t"
    using small n lim by (simp add: not_less word_le_nat_alt unat_sub)
  moreover have "cs_offset_db ?t = Some (- 11)" by (simp add: sample_scan_def)
  ultimately show ?thesis by (simp add: aggregate_add_def concentrator_fraction_above_def Let_def)
qed

lemma frequency_summary_exact_witness:
  "\<exists>groups a. frequency_groups whole_band [sample_scan 906875000 5, sample_scan 950000000 7] [] = Inr groups \<and>
    map_of groups (0, 906875000) = Some a \<and> unat (ra_samples a) = 5 \<and> map_of groups (0, 950000000) = None"
proof -
  let ?s = "sample_scan 906875000 5" and ?t = "sample_scan 950000000 7"
  have sel: "rak_selected ?s whole_band" "\<not> rak_selected ?t whole_band" and keys: "scan_key ?s = (0, 906875000)" "scan_key ?t = (0, 950000000)"
    by (simp_all add: rak_selected_def in_region_def sample_scan_def whole_band_def scan_key_def)
  obtain b where "aggregate_add ?s (rak_boundary ?s whole_band) new_aggregate = Inr b"
    using sample_scan_added [of new_aggregate 5 906875000 "rak_boundary ?s whole_band"] by (auto simp: new_aggregate_def)
  then have run: "frequency_groups whole_band [?s, ?t] [] = Inr [((0, 906875000), b)]"
    using sel keys by (simp add: aggregate_limit_def)
  have len: "list_all (\<lambda>s. length (cs_counts s) = 33) [?s, ?t]" by (simp add: sample_scan_def)
  have "included whole_band (0, 906875000) [?s, ?t] = [?s]" using sel keys by (simp add: included_def)
  then have "sums_up whole_band [?s] b" using frequency_summary_exact [OF run len, of "(0, 906875000)"] by simp
  then have "unat (ra_samples b) = 5" by (simp add: sums_up_def scan_samples_def) (simp add: sample_scan_def)
  then show ?thesis using run by simp
qed

end
