(* ===== verification/SerialDevices.thy ===== *)
theory SerialDevices
  imports Numbers "HOL-Library.List_Lexorder" "HOL-Library.Char_ord"
begin

text \<open>
  The inventory of serial devices (\<open>gps_discovery.cpp\<close>): the normalisation of the metadata of
  the operating system into a device with a stable identity, the enumeration on Linux over
  \<open>/sys/class/tty\<close>, and the selection of a remembered or of the only recognised device.
\<close>

section \<open>Texts\<close>

definition starts_with :: "string \<Rightarrow> string \<Rightarrow> bool" where
  "starts_with p s \<longleftrightarrow> take (length p) s = p"

lemma starts_with_append [simp]: "starts_with p (p @ s)"
  by (simp add: starts_with_def)

lemma starts_with_iff: "starts_with p s \<longleftrightarrow> (\<exists>r. s = p @ r)"
  unfolding starts_with_def by (metis append_eq_conv_conj append_take_drop_id)

definition bounded_text :: "string \<Rightarrow> nat \<Rightarrow> bool" where
  "bounded_text s limit \<longleftrightarrow> length s \<le> limit \<and> CHR 0x00 \<notin> set s"

definition label_text :: "string \<Rightarrow> string" where
  "label_text s = map (\<lambda>c. if 32 \<le> code c \<and> code c < 127 then c else CHR ''?'') s"

definition hex_of_text :: "string \<Rightarrow> string" where
  "hex_of_text s = hex_encode (map byte_of s)"

definition hex_id :: "u16 \<Rightarrow> string" where
  "hex_id v = map (\<lambda>i. hex_char (unat v div 16 ^ (3 - i) mod 16)) [0..<4]"

definition local_serial_path :: "string \<Rightarrow> bool" where
  "local_serial_path path =
    (if \<not> bounded_text path 1024 \<or> path = [] then False
     else if starts_with ''COM'' path \<and> length path \<le> 8 \<and> length path > 3 \<and> path ! 3 \<noteq> CHR ''0'' then
       list_all is_digit (drop 3 path)
     else if \<not> starts_with ''/dev/'' path \<or> length path = 5 then False
     else list_all (\<lambda>c. char_between CHR ''a'' CHR ''z'' c \<or> char_between CHR ''A'' CHR ''Z'' c \<or>
         char_between CHR ''0'' CHR ''9'' c \<or> c \<in> {CHR ''.'', CHR ''_'', CHR ''-''}) (drop 5 path) \<and>
       drop 5 path \<noteq> ''.'' \<and> drop 5 path \<noteq> ''..'')"

section \<open>Devices\<close>

record serial_metadata =
  sm_path :: string
  sm_product :: string
  sm_manufacturer :: string
  sm_serial :: string
  sm_location :: string
  sm_vendor :: u16
  sm_product_id :: u16

record gps_device =
  gd_path :: string
  gd_label :: string
  gd_id :: string
  gd_automatic :: bool

record gps_discovery =
  gi_devices :: "gps_device list"
  gi_error :: string

definition stable_identity :: "serial_metadata \<Rightarrow> string" where
  "stable_identity m = ''usb:'' @ hex_id (sm_vendor m) @ '':'' @ hex_id (sm_product_id m) @
    (if sm_serial m \<noteq> [] then '':serial:'' @ hex_of_text (sm_serial m)
     else if sm_location m \<noteq> [] then '':location:'' @ hex_of_text (sm_location m)
     else '':port:'' @ hex_of_text (sm_path m))"

definition device_label :: "serial_metadata \<Rightarrow> string" where
  "device_label m =
    (let l = label_text (if sm_product m = [] then sm_manufacturer m else sm_product m)
     in (if l = [] then ''USB serial device'' else l) @
       '' ('' @ hex_id (sm_vendor m) @ '':'' @ hex_id (sm_product_id m) @ '')'' @
       (if sm_serial m = [] then '' [port-specific identity]'' else []))"

definition classify_gps_serial_device :: "serial_metadata \<Rightarrow> gps_device option" where
  "classify_gps_serial_device m =
    (if \<not> local_serial_path (sm_path m) \<or> \<not> bounded_text (sm_serial m) 256 \<or>
       \<not> bounded_text (sm_location m) 1024 \<or> \<not> bounded_text (sm_product m) 256 \<or>
       \<not> bounded_text (sm_manufacturer m) 256 \<or> sm_vendor m = 0 then None
     else Some \<lparr>gd_path = sm_path m, gd_label = device_label m, gd_id = stable_identity m,
       gd_automatic = sm_vendor m = 0x1546 \<and> 0x01a5 \<le> sm_product_id m \<and> sm_product_id m \<le> 0x01a8\<rparr>)"

section \<open>Enumeration on Linux\<close>

text \<open>
  The file system is an argument: \<open>file\<close> gives the content of a file that can be opened,
  \<open>canon\<close> the canonical path of an existing path, and the entries of \<open>/sys/class/tty\<close> are a
  list that may end with an iteration error.
\<close>

datatype tty_entry = Tty string | Tty_error

definition read_attribute :: "(string \<Rightarrow> string option) \<Rightarrow> string \<Rightarrow> string" where
  "read_attribute file path =
    (case file path of
       None \<Rightarrow> []
     | Some content \<Rightarrow>
         if length content > 257 then []
         else (let r = (if content \<noteq> [] \<and> last content = CHR 0x0A then butlast content else content)
               in if bounded_text r 256 then r else []))"

definition parse_id :: "string \<Rightarrow> u16 option" where
  "parse_id s =
    (if length s \<noteq> 4 then None
     else case hex_bytes s of Some [a, b] \<Rightarrow> Some (ucast a * 256 + ucast b) | _ \<Rightarrow> None)"

text \<open>\<open>parent_path()\<close> of a canonical absolute path.\<close>

definition parent_path :: "string \<Rightarrow> string" where
  "parent_path p =
    (let r = rev (tl (dropWhile (\<lambda>c. c \<noteq> CHR ''/'') (rev p))) in if r = [] then ''/'' else r)"

fun usb_ancestor :: "(string \<Rightarrow> string option) \<Rightarrow> nat \<Rightarrow> string \<Rightarrow> (string \<times> u16 \<times> u16) option" where
  "usb_ancestor file 0 current = None"
| "usb_ancestor file (Suc n) current =
     (if current = ''/sys/devices'' then None
      else case (parse_id (read_attribute file (current @ ''/idVendor'')),
                 parse_id (read_attribute file (current @ ''/idProduct''))) of
          (Some v, Some p) \<Rightarrow> Some (current, v, p)
        | _ \<Rightarrow> usb_ancestor file n (parent_path current))"

definition add_device :: "gps_discovery \<Rightarrow> serial_metadata \<Rightarrow> gps_discovery" where
  "add_device r m =
    (case classify_gps_serial_device m of None \<Rightarrow> r | Some d \<Rightarrow> r\<lparr>gi_devices := gi_devices r @ [d]\<rparr>)"

definition examine_tty :: "(string \<Rightarrow> string option) \<Rightarrow> (string \<Rightarrow> string option) \<Rightarrow> string \<Rightarrow> gps_discovery \<Rightarrow> gps_discovery" where
  "examine_tty file canon name r =
    (if \<not> starts_with ''ttyUSB'' name \<and> \<not> starts_with ''ttyACM'' name then r
     else case canon (''/sys/class/tty/'' @ name @ ''/device'') of
         None \<Rightarrow> r
       | Some current \<Rightarrow>
           if \<not> starts_with ''/sys/devices/'' current then r
           else case usb_ancestor file 32 current of
               None \<Rightarrow> r
             | Some (dir, v, p) \<Rightarrow>
                 if length (gi_devices r) \<ge> 256 then
                   r\<lparr>gi_error := ''Serial device list exceeded its limit; automatic selection is disabled.''\<rparr>
                 else add_device r
                   \<lparr>sm_path = ''/dev/'' @ name, sm_product = read_attribute file (dir @ ''/product''),
                    sm_manufacturer = read_attribute file (dir @ ''/manufacturer''),
                    sm_serial = read_attribute file (dir @ ''/serial''),
                    sm_location = ''linux-sysfs:'' @ dir, sm_vendor = v, sm_product_id = p\<rparr>)"

fun enumerate_entries ::
    "(string \<Rightarrow> string option) \<Rightarrow> (string \<Rightarrow> string option) \<Rightarrow> nat \<Rightarrow> tty_entry list \<Rightarrow> gps_discovery \<Rightarrow> gps_discovery" where
  "enumerate_entries file canon examined [] r = r"
| "enumerate_entries file canon examined (Tty_error # es) r =
     r\<lparr>gi_error := ''Serial device enumeration was incomplete.''\<rparr>"
| "enumerate_entries file canon examined (Tty name # es) r =
     (if examined + 1 > 4096 then r\<lparr>gi_error := ''Serial metadata enumeration exceeded its limit.''\<rparr>
      else (let r' = examine_tty file canon name r
            in if gi_error r' \<noteq> [] then r' else enumerate_entries file canon (examined + 1) es r'))"

definition enumerate_devices ::
    "(string \<Rightarrow> string option) \<Rightarrow> (string \<Rightarrow> string option) \<Rightarrow> tty_entry list option \<Rightarrow> gps_discovery" where
  "enumerate_devices file canon listing =
    (case listing of
       None \<Rightarrow> \<lparr>gi_devices = [], gi_error = ''Serial device metadata is unavailable in /sys/class/tty.''\<rparr>
     | Some es \<Rightarrow> enumerate_entries file canon 0 es \<lparr>gi_devices = [], gi_error = []\<rparr>)"

text \<open>
  The devices sorted by path; an incomplete inventory disables automatic selection. The
  order of two devices with one path, which \<open>std::sort\<close> leaves open, is that of a stable sort.
\<close>

definition discover_gps_devices ::
    "(string \<Rightarrow> string option) \<Rightarrow> (string \<Rightarrow> string option) \<Rightarrow> tty_entry list option \<Rightarrow> gps_discovery" where
  "discover_gps_devices file canon listing =
    (let r = enumerate_devices file canon listing; ds = sort_key gd_path (gi_devices r)
     in r\<lparr>gi_devices := if gi_error r \<noteq> [] then map (gd_automatic_update (\<lambda>_. False)) ds else ds\<rparr>)"

section \<open>Selection\<close>

definition wanted :: "string \<Rightarrow> gps_device \<Rightarrow> bool" where
  "wanted preferred d = (if preferred = [] then gd_automatic d else gd_id d = preferred)"

fun select_loop :: "string \<Rightarrow> nat \<Rightarrow> gps_device list \<Rightarrow> nat option \<Rightarrow> nat option option" where
  "select_loop preferred i [] selected = Some selected"
| "select_loop preferred i (d # ds) selected =
     (if \<not> wanted preferred d then select_loop preferred (i + 1) ds selected
      else if selected \<noteq> None \<or> gd_id d = [] \<or> \<not> local_serial_path (gd_path d) then None
      else select_loop preferred (i + 1) ds (Some i))"

definition select_gps_device :: "gps_device list \<Rightarrow> string \<Rightarrow> nat option" where
  "select_gps_device ds preferred =
    (case select_loop preferred 0 ds None of
       Some (Some k) \<Rightarrow>
         if list_ex (\<lambda>i. i \<noteq> k \<and> (gd_id (ds ! i) = gd_id (ds ! k) \<or> gd_path (ds ! i) = gd_path (ds ! k))) [0..<length ds]
         then None else Some k
     | _ \<Rightarrow> None)"

section \<open>Concentrators\<close>

record concentrator_device =
  cd_path :: string
  cd_label :: string
  cd_id :: string

record concentrator_discovery =
  ci_devices :: "concentrator_device list"
  ci_error :: string

definition bridge_id :: string where
  "bridge_id = ''usb:0483:5740:''"

definition classify_concentrator_serial_device :: "serial_metadata \<Rightarrow> concentrator_device option" where
  "classify_concentrator_serial_device m =
    (if sm_vendor m \<noteq> 0x0483 \<or> sm_product_id m \<noteq> 0x5740 then None
     else case classify_gps_serial_device m of
         None \<Rightarrow> None
       | Some d \<Rightarrow> Some \<lparr>cd_path = gd_path d, cd_label = gd_label d, cd_id = gd_id d\<rparr>)"

definition discover_concentrator_devices :: "gps_discovery \<Rightarrow> concentrator_discovery" where
  "discover_concentrator_devices serial =
    \<lparr>ci_devices = map (\<lambda>d. \<lparr>cd_path = gd_path d, cd_label = gd_label d, cd_id = gd_id d\<rparr>)
       (filter (\<lambda>d. starts_with bridge_id (gd_id d)) (gi_devices serial)),
     ci_error = gi_error serial\<rparr>"

definition select_concentrator_device :: "concentrator_device list \<Rightarrow> string \<Rightarrow> nat option" where
  "select_concentrator_device ds preferred =
    (if preferred = [] \<or> \<not> starts_with bridge_id preferred then None
     else select_gps_device (map (\<lambda>d. \<lparr>gd_path = cd_path d, gd_label = cd_label d, gd_id = cd_id d,
       gd_automatic = False\<rparr>) ds) preferred)"

section \<open>Correctness of the selection\<close>

lemma select_loop_some:
  "select_loop preferred i ds (Some s) = Some (Some k) \<longleftrightarrow> k = s \<and> (\<forall>m<length ds. \<not> wanted preferred (ds ! m))"
  by (induction ds arbitrary: i) (auto simp: less_Suc_eq_0_disj)

lemma select_loop_none:
  "select_loop preferred i ds None = Some (Some k) \<longleftrightarrow>
    (\<exists>j<length ds. k = i + j \<and> wanted preferred (ds ! j) \<and> gd_id (ds ! j) \<noteq> [] \<and>
      local_serial_path (gd_path (ds ! j)) \<and> (\<forall>m<length ds. wanted preferred (ds ! m) \<longrightarrow> m = j))"
proof (induction ds arbitrary: i)
  case Nil
  then show ?case by simp
next
  case (Cons d ds)
  show ?case
  proof (cases "wanted preferred d")
    case True
    then show ?thesis by (auto simp: select_loop_some less_Suc_eq_0_disj)
  next
    case False
    then show ?thesis by (simp add: Cons.IH Ex_less_Suc2 All_less_Suc2)
  qed
qed

text \<open>
  C30: a device is selected only when it is beyond doubt: it is the only device with the
  remembered identity (without a preference, the only recognised receiver), it has a
  local serial path, and no other device shares its identity or its path. In every such case
  it is selected.
\<close>

theorem selection_unambiguous:
  "select_gps_device ds preferred = Some k \<longleftrightarrow>
    k < length ds \<and> wanted preferred (ds ! k) \<and> gd_id (ds ! k) \<noteq> [] \<and> local_serial_path (gd_path (ds ! k)) \<and>
    {i. i < length ds \<and> (wanted preferred (ds ! i) \<or> gd_id (ds ! i) = gd_id (ds ! k) \<or>
      gd_path (ds ! i) = gd_path (ds ! k))} = {k}"
proof -
  have "select_gps_device ds preferred = Some k \<longleftrightarrow>
      select_loop preferred 0 ds None = Some (Some k) \<and>
      (\<forall>i<length ds. i \<noteq> k \<longrightarrow> gd_id (ds ! i) \<noteq> gd_id (ds ! k) \<and> gd_path (ds ! i) \<noteq> gd_path (ds ! k))"
    by (auto simp: select_gps_device_def list_ex_iff split: option.splits)
  then show ?thesis unfolding select_loop_none by auto
qed

section \<open>Correctness of the identity\<close>

lemma length_hex_id [simp]: "length (hex_id v) = 4"
  by (simp add: hex_id_def)

lemma hex_char_inject: "a < 16 \<Longrightarrow> b < 16 \<Longrightarrow> hex_char a = hex_char b \<longleftrightarrow> a = b"
  by (metis lower_hex_digit_char option.inject)

lemma hex_id_inject [simp]: "hex_id v = hex_id w \<longleftrightarrow> v = w"
proof
  assume h: "hex_id v = hex_id w"
  have u: "[0..<4] = [0, 1, 2, 3 :: nat]" by code_simp
  have eq: "unat v div 4096 mod 16 = unat w div 4096 mod 16" "unat v div 256 mod 16 = unat w div 256 mod 16"
    "unat v div 16 mod 16 = unat w div 16 mod 16" "unat v mod 16 = unat w mod 16"
    using h by (simp_all add: hex_id_def u hex_char_inject numeral_3_eq_3)
  have "unat x < 65536" for x :: u16 using unsigned_less [of x] by simp
  then have b: "unat v < 65536" "unat w < 65536" by blast+
  have split: "n = (n div 4096 mod 16) * 4096 + (n div 256 mod 16) * 256 + (n div 16 mod 16) * 16 + n mod 16"
    if "n < 65536" for n :: nat
  proof -
    have "n div 4096 < 16" using that by (simp add: div_less_iff_less_mult)
    moreover have "n div 16 div 16 = n div 256" "n div 256 div 16 = n div 4096"
      by (simp_all flip: div_mult2_eq)
    moreover have "n = c * 4096 + d2 * 256 + d1 * 16 + d0" if "x * 16 + d0 = n" "y * 16 + d1 = x" "c * 16 + d2 = y"
      for c d0 d1 d2 x y :: nat
      unfolding that [symmetric] by (simp add: distrib_right)
    note this [OF div_mult_mod_eq [of n 16] div_mult_mod_eq [of "n div 16" 16] div_mult_mod_eq [of "n div 16 div 16" 16]]
    ultimately show ?thesis by (simp only: mod_less)
  qed
  have "unat v = unat w" using split [OF b(1)] split [OF b(2)] eq by metis
  then show "v = w" by (simp only: word_unat_eq_iff)
qed simp

lemma hex_of_text_inject [simp]: "hex_of_text s = hex_of_text t \<longleftrightarrow> s = t"
proof
  assume "hex_of_text s = hex_of_text t"
  then have "map byte_of s = map byte_of t"
    unfolding hex_of_text_def by (rule lower_hex.enc_injective [rotated 2]) simp_all
  then show "s = t" by (metis (no_types, lifting) inj_map_eq_map byte_of_inject injI)
qed simp

text \<open>
  The stable identity identifies. Two accepted devices have the same identity only when
  they agree in vendor and product and in the most specific evidence there is: the serial
  number, without one the place on the bus, without both the port.
\<close>

theorem identity_separates:
  assumes "classify_gps_serial_device m = Some d" "classify_gps_serial_device m' = Some d'"
    and "gd_id d = gd_id d'"
  shows "sm_vendor m = sm_vendor m' \<and> sm_product_id m = sm_product_id m' \<and> sm_serial m = sm_serial m' \<and>
    (sm_serial m = [] \<longrightarrow> sm_location m = sm_location m' \<and> (sm_location m = [] \<longrightarrow> sm_path m = sm_path m'))"
proof -
  have "stable_identity m = stable_identity m'"
    using assms by (auto simp: classify_gps_serial_device_def split: if_splits)
  then have eq: "hex_id (sm_vendor m) @ CHR '':'' # hex_id (sm_product_id m) @
      (if sm_serial m \<noteq> [] then '':serial:'' @ hex_of_text (sm_serial m)
       else if sm_location m \<noteq> [] then '':location:'' @ hex_of_text (sm_location m)
       else '':port:'' @ hex_of_text (sm_path m)) =
     hex_id (sm_vendor m') @ CHR '':'' # hex_id (sm_product_id m') @
      (if sm_serial m' \<noteq> [] then '':serial:'' @ hex_of_text (sm_serial m')
       else if sm_location m' \<noteq> [] then '':location:'' @ hex_of_text (sm_location m')
       else '':port:'' @ hex_of_text (sm_path m'))"
    by (simp add: stable_identity_def)
  then have "hex_id (sm_vendor m) = hex_id (sm_vendor m')" by (subst (asm) append_eq_append_conv) simp_all
  moreover from eq this have "hex_id (sm_product_id m) = hex_id (sm_product_id m')"
    by (simp add: append_eq_append_conv)
  moreover have "(if sm_serial m \<noteq> [] then '':serial:'' @ hex_of_text (sm_serial m)
       else if sm_location m \<noteq> [] then '':location:'' @ hex_of_text (sm_location m)
       else '':port:'' @ hex_of_text (sm_path m)) =
      (if sm_serial m' \<noteq> [] then '':serial:'' @ hex_of_text (sm_serial m')
       else if sm_location m' \<noteq> [] then '':location:'' @ hex_of_text (sm_location m')
       else '':port:'' @ hex_of_text (sm_path m'))"
    using eq calculation by simp
  ultimately show ?thesis
    by (cases "sm_serial m = []"; cases "sm_serial m' = []"; cases "sm_location m = []"; cases "sm_location m' = []") simp_all
qed

definition example_receiver :: serial_metadata where
  "example_receiver = \<lparr>sm_path = ''/dev/ttyACM0'', sm_product = [], sm_manufacturer = ''u-blox'', sm_serial = [],
     sm_location = ''linux-sysfs:/sys/devices/usb1'', sm_vendor = 0x1546, sm_product_id = 0x01a8\<rparr>"

theorem identity_separates_witness:
  "\<exists>d d'. classify_gps_serial_device example_receiver = Some d \<and>
    classify_gps_serial_device (example_receiver\<lparr>sm_path := ''/dev/ttyACM1''\<rparr>) = Some d' \<and> gd_id d = gd_id d' \<and>
    sm_location example_receiver = sm_location (example_receiver\<lparr>sm_path := ''/dev/ttyACM1''\<rparr>)"
proof -
  let ?m = "example_receiver\<lparr>sm_path := ''/dev/ttyACM1''\<rparr>"
  obtain d d' where d: "classify_gps_serial_device example_receiver = Some d"
    "classify_gps_serial_device ?m = Some d'" "gd_id d = gd_id d'"
    by (simp add: classify_gps_serial_device_def example_receiver_def local_serial_path_def bounded_text_def
        starts_with_def char_between_def code_def stable_identity_def)
  with identity_separates [OF d] show ?thesis by (auto simp: example_receiver_def)
qed

end
