(* ===== verification/LocalPaths.thy ===== *)
theory LocalPaths
  imports Utf8 SerialDevices
begin

text \<open>
  Local file paths: the policy that every file of the program passes
  (\<open>ensure_local_path\<close>, \<open>validate_local_file_path\<close> in \<open>storage.cpp\<close>) and the directories of the
  settings (\<open>absolute_directory\<close>, \<open>directory_exists\<close>, \<open>create_directory_tree\<close> in
  \<open>preferences.cpp\<close>), on a POSIX system. The file system is a state of its own; a path is the
  list of its components below the root.
\<close>

section \<open>The file system\<close>

record file_attributes =
  at_owned :: bool
  at_mode :: nat
  at_links :: nat

datatype node = Dir file_attributes | File file_attributes string | Link | Special

text \<open>
  \<open>fs_errors\<close>: paths whose status cannot be read; \<open>fs_kind\<close>: the magic number of the mounted
  file system; \<open>fs_fails\<close>: the system calls that fail, by name.
\<close>

record file_system =
  fs_nodes :: "string list \<Rightarrow> node option"
  fs_errors :: "string list \<Rightarrow> bool"
  fs_kind :: "string list \<Rightarrow> nat option"
  fs_fails :: "string \<Rightarrow> bool"

datatype status = Missing | Status_error | Found node

definition symlink_status :: "file_system \<Rightarrow> string list \<Rightarrow> status" where
  "symlink_status fs p =
    (if fs_errors fs p then Status_error
     else case fs_nodes fs p of None \<Rightarrow> Missing | Some n \<Rightarrow> Found n)"

definition is_directory :: "status \<Rightarrow> bool" where
  "is_directory st = (case st of Found (Dir _) \<Rightarrow> True | _ \<Rightarrow> False)"

definition is_regular_file :: "status \<Rightarrow> bool" where
  "is_regular_file st = (case st of Found (File _ _) \<Rightarrow> True | _ \<Rightarrow> False)"

section \<open>Paths\<close>

fun split_path :: "string \<Rightarrow> string list" where
  "split_path [] = []"
| "split_path (c # s) =
     (if c = CHR ''/'' then split_path s
      else case split_path s of
          [] \<Rightarrow> if s = [] \<or> hd s = CHR ''/'' then [[c]] else [c # s]
        | w # ws \<Rightarrow> if s = [] \<or> hd s = CHR ''/'' then [c] # w # ws else (c # w) # ws)"

definition path_text :: "string list \<Rightarrow> string" where
  "path_text p = (if p = [] then ''/'' else concat (map ((#) CHR ''/'') p))"

definition is_absolute :: "string \<Rightarrow> bool" where
  "is_absolute s \<longleftrightarrow> s \<noteq> [] \<and> hd s = CHR ''/''"

section \<open>The policy for local files\<close>

definition remote_kinds :: "nat list" where
  "remote_kinds = [0x6969, 0x517b, 0xff534d42, 0x01021997, 0x5346414f, 0x65735546]"

definition check_prefix :: "file_system \<Rightarrow> string list \<Rightarrow> string list \<Rightarrow> unit result" where
  "check_prefix fs file p =
    bind_result (guard_err (p \<noteq> [] \<and> last p \<in> {''.'', ''..''}) ''File paths must not contain dot components'') (\<lambda>_.
    bind_result (guard_err (p \<in> {[''Volumes''], [''net''], [''Network'']}) ''Network/mounted volumes are not supported'') (\<lambda>_.
    bind_result (guard_err (symlink_status fs p = Found Link) ''Symlink paths are not supported for survey files'') (\<lambda>_.
    guard_err ((symlink_status fs p = Missing \<or> symlink_status fs p = Status_error) \<and> p \<noteq> file)
      ''Survey parent directory is unavailable'')))"

definition ensure_local_path :: "file_system \<Rightarrow> string \<Rightarrow> unit result" where
  "ensure_local_path fs path =
    bind_result (guard_err (path = [] \<or> CHR 0x00 \<in> set path \<or> starts_with ''//'' path \<or>
        starts_with [CHR 0x5C, CHR 0x5C] path \<or> starts_with ''file:'' path)
      ''Use an absolute local file path'') (\<lambda>_.
    bind_result (guard_err (\<not> is_absolute path \<or> last path = CHR ''/'') ''Use an absolute local file path'') (\<lambda>_.
    let file = split_path path in
    bind_result (for_each (\<lambda>i p. check_prefix fs file p) 0 (map (\<lambda>n. take n file) [0..<length file + 1])) (\<lambda>_.
    case fs_kind fs (butlast file) of
      None \<Rightarrow> Inl ''Survey parent directory is unavailable''
    | Some k \<Rightarrow> guard_err (k \<in> set remote_kinds) ''Network/FUSE survey paths are not supported'')))"

definition validate_local_file_path :: "file_system \<Rightarrow> string \<Rightarrow> unit result" where
  "validate_local_file_path fs path =
    bind_result (guard_err (\<not> valid_utf8 path) ''File path is not valid UTF-8'') (\<lambda>_. ensure_local_path fs path)"

section \<open>Directories of the settings\<close>

definition path_from :: "string \<Rightarrow> string result" where
  "path_from s = (if \<not> valid_text s 4096 then Inl ''Settings path is invalid or too long'' else Inr s)"

definition absolute_directory :: "string \<Rightarrow> string list result" where
  "absolute_directory s =
    bind_result (path_from s) (\<lambda>s.
    bind_result (guard_err (s = [] \<or> \<not> is_absolute s \<or> starts_with ''//'' s \<or> starts_with [CHR 0x5C, CHR 0x5C] s)
      ''Choose an absolute local settings directory'') (\<lambda>_.
    bind_result (guard_err (list_ex (\<lambda>c. c \<in> {''.'', ''..''}) (split_path s)) ''Settings paths cannot contain dot components'') (\<lambda>_.
    if split_path s = [] then Inl ''Choose an application settings folder'' else Inr (split_path s))))"

record preference_paths =
  pp_directory :: string
  pp_settings_file :: string
  pp_surveys :: string

definition check_paths :: "preference_paths \<Rightarrow> unit result" where
  "check_paths paths =
    bind_result (absolute_directory (pp_directory paths)) (\<lambda>directory.
    bind_result (path_from (pp_settings_file paths)) (\<lambda>f.
    bind_result (if is_absolute f \<and> last f \<noteq> CHR ''/'' \<and> split_path f = directory @ [''preferences.conf''] then path_from (pp_surveys paths)
      else Inl ''Invalid application preference paths'') (\<lambda>v.
    guard_err (\<not> (is_absolute v \<and> last v \<noteq> CHR ''/'' \<and> split_path v = directory @ [''Surveys'']))
      ''Invalid application preference paths'')))"

text \<open>Each existing component is checked before the next; \<open>False\<close> at the first missing one.\<close>

fun directory_walk :: "file_system \<Rightarrow> string list \<Rightarrow> string list \<Rightarrow> bool result" where
  "directory_walk fs prefix [] = Inr True"
| "directory_walk fs prefix (c # cs) =
     (let p = prefix @ [c] in
      bind_result (validate_local_file_path fs (path_text p)) (\<lambda>_.
      if symlink_status fs p = Missing then Inr False
      else bind_result (guard_err (\<not> is_directory (symlink_status fs p))
          ''Settings parent is unavailable or is not a directory'') (\<lambda>_.
        bind_result (validate_local_file_path fs (path_text (p @ [''.ovmesh-directory-check'']))) (\<lambda>_.
        directory_walk fs p cs))))"

definition directory_exists :: "file_system \<Rightarrow> string list \<Rightarrow> bool result" where
  "directory_exists fs d = directory_walk fs [] d"

definition verify_private :: "bool \<Rightarrow> node \<Rightarrow> unit result" where
  "verify_private directory n =
    guard_err (case n of
        Dir a \<Rightarrow> \<not> directory \<or> \<not> at_owned a \<or> at_mode a mod 64 \<noteq> 0
      | File a _ \<Rightarrow> directory \<or> \<not> at_owned a \<or> at_mode a mod 64 \<noteq> 0 \<or> at_links a \<noteq> 1
      | _ \<Rightarrow> True)
      ''Settings must be an owner-only directory (0700) or file (0600)''"

definition verify_private_directory :: "file_system \<Rightarrow> string list \<Rightarrow> unit result" where
  "verify_private_directory fs d =
    (case symlink_status fs d of
       Found n \<Rightarrow> verify_private True n
     | _ \<Rightarrow> Inl ''Cannot inspect settings directory'')"

text \<open>
  \<open>mkdir(0700)\<close> of the missing components. The file system of a new directory is that of its
  parent.
\<close>

definition private_directory :: file_attributes where
  "private_directory = \<lparr>at_owned = True, at_mode = 448, at_links = 2\<rparr>"

definition make_directory :: "file_system \<Rightarrow> string list \<Rightarrow> file_system" where
  "make_directory fs p = fs\<lparr>fs_nodes := (fs_nodes fs)(p \<mapsto> Dir private_directory), fs_kind := (fs_kind fs)(p := fs_kind fs (butlast p))\<rparr>"

fun create_walk :: "file_system \<Rightarrow> string list \<Rightarrow> string list \<Rightarrow> file_system \<times> unit result" where
  "create_walk fs prefix [] = (fs, verify_private_directory fs prefix)"
| "create_walk fs prefix (c # cs) =
     (let p = prefix @ [c] in
      case validate_local_file_path fs (path_text p) of
        Inl e \<Rightarrow> (fs, Inl e)
      | Inr _ \<Rightarrow>
          if symlink_status fs p = Missing then
            (if fs_fails fs ''mkdir'' then (fs, Inl ''Cannot create application settings directory'')
             else
               (let fs = make_directory fs p in
                case validate_local_file_path fs (path_text (p @ [''.ovmesh-directory-check''])) of
                  Inl e \<Rightarrow> (fs, Inl e)
                | Inr _ \<Rightarrow> create_walk fs p cs))
          else if \<not> is_directory (symlink_status fs p) then
            (fs, Inl ''Settings parent is unavailable or is not a directory'')
          else case validate_local_file_path fs (path_text (p @ [''.ovmesh-directory-check''])) of
              Inl e \<Rightarrow> (fs, Inl e)
            | Inr _ \<Rightarrow> create_walk fs p cs)"

definition create_directory_tree :: "file_system \<Rightarrow> string list \<Rightarrow> file_system \<times> unit result" where
  "create_directory_tree fs d = create_walk fs [] d"

section \<open>Where the settings are\<close>

definition map_result :: "('a \<Rightarrow> 'b) \<Rightarrow> 'a result \<Rightarrow> 'b result" where
  "map_result f r = (case r of Inl e \<Rightarrow> Inl e | Inr x \<Rightarrow> Inr (f x))"

text \<open>On Linux: an explicit directory, \<open>$XDG_STATE_HOME\<close>, or below \<open>$HOME\<close>.\<close>

definition locate_preferences :: "string \<Rightarrow> string option \<Rightarrow> string option \<Rightarrow> preference_paths result" where
  "locate_preferences explicit state home =
    bind_result
      (if explicit \<noteq> [] then absolute_directory explicit
       else bind_result
         (case state of
            Some (c # s) \<Rightarrow> map_result (\<lambda>p. p @ ''/ovmeshdrpp'') (path_from (c # s))
          | _ \<Rightarrow> (case home of
              Some (c # s) \<Rightarrow> map_result (\<lambda>p. p @ ''/.local/state/ovmeshdrpp'') (path_from (c # s))
            | _ \<Rightarrow> Inl ''Home directory is unavailable''))
         absolute_directory) (\<lambda>d.
    Inr \<lparr>pp_directory = path_text d, pp_settings_file = path_text (d @ [''preferences.conf'']),
      pp_surveys = path_text (d @ [''Surveys''])\<rparr>)"

end
