(* ===== verification/Preferences.thy ===== *)
theory Preferences
  imports LocalPaths Concentrator
begin

text \<open>
  The desktop settings (\<open>preferences.cpp\<close>): their validation, their text form, and the file
  that holds them.
\<close>

section \<open>The settings\<close>

datatype desktop_receiver = Pref_Synthetic | Pref_HackRf | Pref_RtlSdr | Pref_Rak5146

record preferences =
  pf_gps :: bool
  pf_recording :: bool
  pf_compact :: bool
  pf_discover :: bool
  pf_decode :: bool
  pf_public_key :: bool
  pf_spectrum_only :: bool
  pf_receiver :: desktop_receiver
  pf_center :: u64
  pf_rate :: u32
  pf_span :: u32
  pf_lna :: u32
  pf_vga :: u32
  pf_amp :: bool
  pf_rtl_gain :: int
  pf_rtl_auto :: bool
  pf_boards :: concentrator_config
  pf_mixed_fonts :: bool
  pf_mobile :: bool
  pf_directory :: string
  pf_gps_id :: string
  pf_baud :: u32
  pf_offset :: int

definition default_preferences :: preferences where
  "default_preferences = \<lparr>pf_gps = True, pf_recording = True, pf_compact = True, pf_discover = False,
    pf_decode = False, pf_public_key = False, pf_spectrum_only = True, pf_receiver = Pref_HackRf,
    pf_center = 907500000, pf_rate = 16000000, pf_span = 10000000, pf_lna = 16, pf_vga = 16, pf_amp = False,
    pf_rtl_gain = 280, pf_rtl_auto = False,
    pf_boards = default_concentrators\<lparr>cc_decode := False, cc_boards := [default_board\<lparr>bc_packets := False\<rparr>]\<rparr>,
    pf_mixed_fonts = True, pf_mobile = False, pf_directory = [], pf_gps_id = [], pf_baud = 9600, pf_offset = 0\<rparr>"

section \<open>Validation\<close>

definition check_preferred_rate :: "preferences \<Rightarrow> unit result" where
  "check_preferred_rate p =
    (let corrected = uint (pf_center p) + pf_offset p in
     if pf_receiver p = Pref_RtlSdr then
       bind_result (guard_err (pf_center p < 24000000 \<or> pf_center p > 1766000000 \<or> corrected < 24000000 \<or> corrected > 1766000000)
         ''Preferred RTL-SDR center and corrected frequency must be between 24 and 1766 MHz'') (\<lambda>_.
       bind_result (guard_err (pf_rate p \<noteq> 1000000 \<and> pf_rate p \<noteq> 2000000) ''RTL-SDR preferred sample rate must be 1 or 2 MS/s'') (\<lambda>_.
       guard_err (pf_amp p) ''RTL-SDR has no HackRF RF amplifier control''))
     else guard_err (pf_receiver p \<noteq> Pref_Rak5146 \<and> pf_rate p \<notin> {8000000, 10000000, 12000000, 16000000, 20000000})
       ''Unsupported preferred sample rate'')"

definition check_preferred_board :: "board_config \<Rightarrow> unit result" where
  "check_preferred_board b =
    bind_result (guard_err (\<not> valid_text (bc_path b) 1024 \<or> \<not> valid_text (bc_id b) 2048)
      ''Invalid concentrator device preference'') (\<lambda>_.
    bind_result (guard_err ((bc_path b = []) \<noteq> (bc_id b = []))
      ''Concentrator selection requires both a path and an identity'') (\<lambda>_.
    bind_result (guard_err (bc_id b \<noteq> [] \<and> \<not> starts_with bridge_id (bc_id b))
      ''Invalid concentrator USB identity'') (\<lambda>_.
    guard_err (bc_path b \<noteq> [] \<and> classify_concentrator_serial_device
        \<lparr>sm_path = bc_path b, sm_product = [], sm_manufacturer = [], sm_serial = [], sm_location = [],
         sm_vendor = 0x0483, sm_product_id = 0x5740\<rparr> = None)
      ''Invalid local concentrator serial path'')))"

definition validate_preferences :: "preferences \<Rightarrow> unit result" where
  "validate_preferences p =
    bind_result (absolute_directory (pf_directory p)) (\<lambda>_.
    bind_result (guard_err (\<not> valid_text (pf_gps_id p) 4096) ''Invalid GPS device preference'') (\<lambda>_.
    bind_result (guard_err (pf_baud p \<notin> {4800, 9600, 19200, 38400, 57600, 115200}) ''Unsupported GPS baud preference'') (\<lambda>_.
    bind_result (guard_err (pf_offset p < -100000 \<or> pf_offset p > 100000)
      ''Receiver tuning offset must be between -100000 and 100000 Hz'') (\<lambda>_.
    bind_result (guard_err (pf_center p < 1000000 \<or> pf_center p > 6000000000)
      ''Preferred center frequency must be between 1 MHz and 6 GHz'') (\<lambda>_.
    let corrected = uint (pf_center p) + pf_offset p in
    bind_result (guard_err (corrected < 1000000 \<or> corrected > 6000000000)
      ''Preferred offset moves the tuner outside its range'') (\<lambda>_.
    bind_result (check_preferred_rate p) (\<lambda>_.
    bind_result (guard_err (pf_receiver p \<noteq> Pref_Rak5146 \<and> (pf_span p < 500000 \<or> pf_span p > pf_rate p * 4 div 5))
      ''Preferred survey span must be 0.5 MHz through 80% of sample rate'') (\<lambda>_.
    bind_result (guard_err (pf_center p < ucast (pf_span p div 2) \<or> pf_center p + ucast (pf_span p div 2) > 6000000000)
      ''Preferred survey edges exceed receiver range'') (\<lambda>_.
    bind_result (guard_err (pf_lna p > 40 \<or> pf_lna p mod 8 \<noteq> 0 \<or> pf_vga p > 62 \<or> pf_vga p mod 2 \<noteq> 0)
      ''Preferred LNA must be 0-40 dB in 8 dB steps; VGA 0-62 dB in 2 dB steps'') (\<lambda>_.
    bind_result (guard_err (pf_rtl_gain p < -100 \<or> pf_rtl_gain p > 600)
      ''Preferred RTL-SDR tuner gain must be -10 through 60 dB'') (\<lambda>_.
    bind_result (for_each (\<lambda>i b. check_preferred_board b) 0 (cc_boards (pf_boards p))) (\<lambda>_.
    (let rak = pf_receiver p = Pref_Rak5146 in
     validate_concentrator_config (pf_boards p) (if rak then pf_center p else 915000000)
       (if rak then pf_span p else 26000000) (if rak then pf_offset p else 0) False)))))))))))))"

section \<open>The text form\<close>

definition newline :: char where "newline = CHR 0x0A"

definition field_text :: "(string \<times> string) list \<Rightarrow> string" where
  "field_text kvs = concat (map (\<lambda>(k, v). k @ CHR ''='' # v @ [newline]) kvs)"

definition flag :: "bool \<Rightarrow> string" where
  "flag b = (if b then ''1'' else ''0'')"

definition receiver_name :: "desktop_receiver \<Rightarrow> string" where
  "receiver_name r = (case r of Pref_HackRf \<Rightarrow> ''hackrf'' | Pref_RtlSdr \<Rightarrow> ''rtl_sdr''
    | Pref_Rak5146 \<Rightarrow> ''rak5146'' | Pref_Synthetic \<Rightarrow> ''synthetic'')"

definition board_key :: "nat \<Rightarrow> string \<Rightarrow> string" where
  "board_key i name = ''rak_'' @ show_nat i @ ''_'' @ name"

definition board_fields :: "nat \<Rightarrow> board_config \<Rightarrow> (string \<times> string) list" where
  "board_fields i b =
    [(board_key i ''path'', hex_of_text (bc_path b)),
     (board_key i ''id'', hex_of_text (bc_id b)),
     (board_key i ''packets'', flag (bc_packets b)),
     (board_key i ''frequency_hz'', show_word (bc_freq b)),
     (board_key i ''bandwidth_hz'', show_word (bc_bw b)),
     (board_key i ''sf'', show_word (bc_sf b)),
     (board_key i ''sync_word'', show_word (bc_sync b))]"

definition main_fields :: "preferences \<Rightarrow> (string \<times> string) list" where
  "main_fields p =
    [(''version'', ''8''),
     (''gps_enabled'', flag (pf_gps p)),
     (''recording_enabled'', flag (pf_recording p)),
     (''recording_directory'', hex_of_text (pf_directory p)),
     (''gps_device_id'', hex_of_text (pf_gps_id p)),
     (''gps_baud'', show_word (pf_baud p)),
     (''tuning_offset_hz'', show_int (pf_offset p)),
     (''discover_lora'', flag (pf_discover p)),
     (''compact_recording'', flag (pf_compact p)),
     (''decode_enabled'', flag (pf_decode p)),
     (''public_meshtastic_key_enabled'', flag (pf_public_key p)),
     (''spectrum_only'', flag (pf_spectrum_only p)),
     (''receiver_source'', receiver_name (pf_receiver p)),
     (''center_hz'', show_word (pf_center p)),
     (''sample_rate'', show_word (pf_rate p)),
     (''survey_span_hz'', show_word (pf_span p)),
     (''lna_gain'', show_word (pf_lna p)),
     (''vga_gain'', show_word (pf_vga p)),
     (''amplifier'', flag (pf_amp p)),
     (''mixed_fonts'', flag (pf_mixed_fonts p)),
     (''mobile_position_display'', flag (pf_mobile p)),
     (''rtl_gain_tenths_db'', show_int (pf_rtl_gain p)),
     (''rtl_auto_gain'', flag (pf_rtl_auto p)),
     (''rak_board_count'', show_nat (length (cc_boards (pf_boards p)))),
     (''rak_scan_enabled'', flag (cc_scan (pf_boards p))),
     (''rak_decode_enabled'', flag (cc_decode (pf_boards p))),
     (''rak_scan_step_hz'', show_word (cc_step (pf_boards p))),
     (''rak_scan_samples'', show_word (cc_samples (pf_boards p)))]"

definition all_fields :: "preferences \<Rightarrow> (string \<times> string) list" where
  "all_fields p = main_fields p @ concat (map (\<lambda>(i, b). board_fields i b) (enumerate 0 (cc_boards (pf_boards p))))"

definition serialize :: "preferences \<Rightarrow> string result" where
  "serialize p =
    bind_result (validate_preferences p) (\<lambda>_.
    let text = field_text (all_fields p) in
    if length text > 32768 then Inl ''Desktop settings exceed their size limit'' else Inr text)"

section \<open>Parsing\<close>

type_synonym fields = "(string \<times> string) list"

text \<open>One line up to its newline: a name, \<open>=\<close>, a value. The fields in order of their lines.\<close>

function parse_fields :: "string \<Rightarrow> fields \<Rightarrow> fields result" where
  "parse_fields s acc =
    (if s = [] then Inr acc
     else
       (let line = takeWhile (\<lambda>c. c \<noteq> newline) s; name = takeWhile (\<lambda>c. c \<noteq> CHR ''='') line in
        if line = s \<or> name = line \<or> name = [] \<or> length acc \<ge> 42 then Inl ''Malformed desktop settings''
        else if name \<in> fst ` set acc then Inl ''Duplicate desktop preference''
        else parse_fields (drop (length line + 1) s) (acc @ [(name, drop (length name + 1) line)])))"
  by pat_completeness auto
termination
  by (relation "measure (length \<circ> fst)") auto

declare parse_fields.simps [simp del]

definition field_at :: "fields \<Rightarrow> string \<Rightarrow> string result" where
  "field_at fs name = (case map_of fs name of None \<Rightarrow> Inl ''map::at'' | Some v \<Rightarrow> Inr v)"

definition has_field :: "fields \<Rightarrow> string \<Rightarrow> bool" where
  "has_field fs name \<longleftrightarrow> name \<in> fst ` set fs"

definition read_flag :: "fields \<Rightarrow> string \<Rightarrow> bool result" where
  "read_flag fs name =
    bind_result (field_at fs name) (\<lambda>v.
    if v \<noteq> ''0'' \<and> v \<noteq> ''1'' then Inl ''Invalid desktop preference switch'' else Inr (v = ''1''))"

definition read_field_word :: "fields \<Rightarrow> string \<Rightarrow> 'a::len word result" where
  "read_field_word fs name =
    bind_result (field_at fs name) (\<lambda>v.
    case read_word v of
      None \<Rightarrow> Inl ''Invalid numeric desktop preference''
    | Some (w :: 'a word) \<Rightarrow> if show_word w \<noteq> v then Inl ''Invalid numeric desktop preference'' else Inr w)"

definition read_field_int :: "nat \<Rightarrow> fields \<Rightarrow> string \<Rightarrow> int result" where
  "read_field_int limit fs name =
    bind_result (field_at fs name) (\<lambda>v.
    case read_signed limit v of
      None \<Rightarrow> Inl ''Invalid numeric desktop preference''
    | Some i \<Rightarrow> if show_int i \<noteq> v then Inl ''Invalid numeric desktop preference'' else Inr i)"

definition hex_decode :: "string \<Rightarrow> nat \<Rightarrow> string result" where
  "hex_decode v limit =
    (if length v > limit * 2 \<or> odd (length v) then Inl ''Invalid preference text field''
     else case lower_hex_bytes v of
         None \<Rightarrow> Inl ''Invalid preference text encoding''
       | Some bs \<Rightarrow>
           (let s = map char_of_byte bs in
            if \<not> valid_text s limit then Inl ''Invalid preference text field'' else Inr s))"

definition read_text :: "fields \<Rightarrow> string \<Rightarrow> nat \<Rightarrow> string result" where
  "read_text fs name limit = bind_result (field_at fs name) (\<lambda>v. hex_decode v limit)"

definition read_baud :: "string \<Rightarrow> u32 result" where
  "read_baud v =
    (if v = [] \<or> length v > 6 \<or> hd v = CHR ''0'' \<or> \<not> list_all is_digit v then Inl ''Invalid GPS baud preference''
     else Inr (word_of_nat (digits_value v)))"

definition check_names :: "fields \<Rightarrow> nat result" where
  "check_names fs =
    bind_result (guard_err (\<not> list_all (has_field fs) [''version'', ''gps_enabled'', ''recording_enabled'',
      ''recording_directory'', ''gps_device_id'', ''gps_baud'']) ''Missing desktop preference'') (\<lambda>_.
    bind_result (field_at fs ''version'') (\<lambda>version.
    if version \<notin> {''1'', ''2'', ''3'', ''4'', ''5'', ''6'', ''7'', ''8''} then Inl ''Unsupported desktop settings version''
    else
      (let v = digits_value version; n = length fs in
       bind_result (guard_err (v = 1 \<and> n \<noteq> 6 \<or>
           v = 2 \<and> (n \<noteq> 7 \<or> \<not> has_field fs ''tuning_offset_hz'') \<or>
           v = 3 \<and> (n \<noteq> 8 \<or> \<not> has_field fs ''tuning_offset_hz'' \<or> \<not> has_field fs ''discover_lora'') \<or>
           v = 4 \<and> (n \<noteq> 9 \<or> \<not> has_field fs ''tuning_offset_hz'' \<or> \<not> has_field fs ''discover_lora'' \<or>
             \<not> has_field fs ''compact_recording''))
         ''Missing or unknown desktop preference'') (\<lambda>_.
       bind_result (guard_err (v \<ge> 5 \<and> v < 7 \<and> n \<noteq> (if v = 6 then 22 else 20))
         ''Missing or unknown desktop preference'') (\<lambda>_.
       bind_result (guard_err (v \<ge> 5 \<and> \<not> list_all (has_field fs) [''tuning_offset_hz'', ''discover_lora'',
           ''compact_recording'', ''spectrum_only'', ''receiver_source'', ''center_hz'', ''sample_rate'', ''survey_span_hz'',
           ''lna_gain'', ''vga_gain'', ''amplifier'', ''mixed_fonts'', ''mobile_position_display'', ''decode_enabled''])
         ''Missing or unknown desktop preference'') (\<lambda>_.
       bind_result (guard_err (v \<ge> 6 \<and> (\<not> has_field fs ''rtl_gain_tenths_db'' \<or> \<not> has_field fs ''rtl_auto_gain''))
         ''Missing RTL-SDR desktop preference'') (\<lambda>_. Inr v)))))))"

definition read_receiver :: "fields \<Rightarrow> nat \<Rightarrow> desktop_receiver result" where
  "read_receiver fs v =
    bind_result (field_at fs ''receiver_source'') (\<lambda>source.
    if source \<noteq> ''synthetic'' \<and> source \<noteq> ''hackrf'' \<and> \<not> (v \<ge> 6 \<and> source = ''rtl_sdr'') \<and>
      \<not> (v \<ge> 7 \<and> source = ''rak5146'') then Inl ''Unsupported preferred receiver''
    else Inr (if source = ''hackrf'' then Pref_HackRf else if source = ''rtl_sdr'' then Pref_RtlSdr
      else if source = ''rak5146'' then Pref_Rak5146 else Pref_Synthetic))"

definition read_base :: "fields \<Rightarrow> nat \<Rightarrow> preferences result" where
  "read_base fs v =
    bind_result (read_flag fs ''gps_enabled'') (\<lambda>gps.
    bind_result (read_flag fs ''recording_enabled'') (\<lambda>recording.
    bind_result (if v \<ge> 3 then read_flag fs ''discover_lora'' else Inr (pf_discover default_preferences)) (\<lambda>discover.
    bind_result (if v \<ge> 4 then read_flag fs ''compact_recording'' else Inr (pf_compact default_preferences)) (\<lambda>compact.
    bind_result (read_text fs ''recording_directory'' 4096) (\<lambda>directory.
    bind_result (read_text fs ''gps_device_id'' 4096) (\<lambda>gps_id.
    bind_result (bind_result (field_at fs ''gps_baud'') read_baud) (\<lambda>baud.
    bind_result (if v \<noteq> 1 then read_field_int (2 ^ 63) fs ''tuning_offset_hz'' else Inr (pf_offset default_preferences)) (\<lambda>offset.
    Inr (default_preferences\<lparr>pf_gps := gps, pf_recording := recording, pf_discover := discover, pf_compact := compact,
      pf_directory := directory, pf_gps_id := gps_id, pf_baud := baud, pf_offset := offset\<rparr>)))))))))"

definition read_receiver_fields :: "fields \<Rightarrow> nat \<Rightarrow> preferences \<Rightarrow> preferences result" where
  "read_receiver_fields fs v p =
    bind_result (read_receiver fs v) (\<lambda>receiver.
    bind_result (read_field_word fs ''center_hz'') (\<lambda>center.
    bind_result (read_field_word fs ''sample_rate'') (\<lambda>rate.
    bind_result (read_field_word fs ''survey_span_hz'') (\<lambda>wid.
    bind_result (read_field_word fs ''lna_gain'') (\<lambda>lna.
    bind_result (read_field_word fs ''vga_gain'') (\<lambda>vga.
    bind_result (read_flag fs ''amplifier'') (\<lambda>amp.
    bind_result (read_flag fs ''decode_enabled'') (\<lambda>decode.
    bind_result (read_flag fs ''spectrum_only'') (\<lambda>spectrum.
    bind_result (read_flag fs ''mixed_fonts'') (\<lambda>fonts.
    bind_result (read_flag fs ''mobile_position_display'') (\<lambda>mobile.
    Inr (p\<lparr>pf_receiver := receiver, pf_center := center, pf_rate := rate, pf_span := wid, pf_lna := lna,
      pf_vga := vga, pf_amp := amp, pf_decode := decode, pf_spectrum_only := spectrum,
      pf_mixed_fonts := fonts, pf_mobile := mobile\<rparr>))))))))))))"

definition read_rtl_fields :: "fields \<Rightarrow> preferences \<Rightarrow> preferences result" where
  "read_rtl_fields fs p =
    bind_result (read_field_int (2 ^ 31) fs ''rtl_gain_tenths_db'') (\<lambda>gain.
    bind_result (read_flag fs ''rtl_auto_gain'') (\<lambda>auto.
    Inr (p\<lparr>pf_rtl_gain := gain, pf_rtl_auto := auto\<rparr>)))"

definition read_board :: "fields \<Rightarrow> nat \<Rightarrow> board_config result" where
  "read_board fs i =
    bind_result (read_text fs (board_key i ''path'') 1024) (\<lambda>path.
    bind_result (read_text fs (board_key i ''id'') 2048) (\<lambda>id.
    bind_result (read_flag fs (board_key i ''packets'')) (\<lambda>packets.
    bind_result (read_field_word fs (board_key i ''frequency_hz'')) (\<lambda>freq.
    bind_result (read_field_word fs (board_key i ''bandwidth_hz'')) (\<lambda>bw.
    bind_result (read_field_word fs (board_key i ''sf'')) (\<lambda>sf.
    bind_result (read_field_word fs (board_key i ''sync_word'')) (\<lambda>sync.
    Inr \<lparr>bc_path = path, bc_id = id, bc_packets = packets, bc_freq = freq, bc_bw = bw, bc_sf = sf, bc_sync = sync\<rparr>)))))))"

fun read_boards :: "fields \<Rightarrow> nat \<Rightarrow> nat \<Rightarrow> board_config list result" where
  "read_boards fs i 0 = Inr []"
| "read_boards fs i (Suc n) =
     bind_result (read_board fs i) (\<lambda>b. bind_result (read_boards fs (Suc i) n) (\<lambda>bs. Inr (b # bs)))"

definition read_rak_fields :: "fields \<Rightarrow> nat \<Rightarrow> preferences \<Rightarrow> preferences result" where
  "read_rak_fields fs v p =
    bind_result (read_field_word fs ''rak_board_count'') (\<lambda>count :: u32.
    bind_result (guard_err (count < 1 \<or> count > 2 \<or> length fs \<noteq> (if v = 8 then 28 else 27) + unat count * 7)
      ''Missing or unknown concentrator preference'') (\<lambda>_.
    bind_result (read_flag fs ''rak_scan_enabled'') (\<lambda>scan.
    bind_result (read_flag fs ''rak_decode_enabled'') (\<lambda>decode.
    bind_result (read_field_word fs ''rak_scan_step_hz'') (\<lambda>step.
    bind_result (read_field_word fs ''rak_scan_samples'') (\<lambda>samples.
    bind_result (read_boards fs 0 (unat count)) (\<lambda>bs.
    Inr (p\<lparr>pf_boards := \<lparr>cc_boards = bs, cc_scan = scan, cc_decode = decode, cc_step = step, cc_samples = samples\<rparr>\<rparr>))))))))"

definition parse :: "string \<Rightarrow> preferences result" where
  "parse text =
    bind_result (guard_err (text = [] \<or> length text > 32768 \<or> last text \<noteq> newline)
      ''Incomplete or oversized desktop settings'') (\<lambda>_.
    bind_result (parse_fields text []) (\<lambda>fs.
    bind_result (check_names fs) (\<lambda>v.
    bind_result (read_base fs v) (\<lambda>p.
    bind_result (if v \<ge> 5 then read_receiver_fields fs v p else Inr p) (\<lambda>p.
    bind_result (if v \<ge> 6 then read_rtl_fields fs p else Inr p) (\<lambda>p.
    bind_result (if v \<ge> 7 then read_rak_fields fs v p else Inr p) (\<lambda>p.
    bind_result (if v = 8 then map_result (\<lambda>b. p\<lparr>pf_public_key := b\<rparr>) (read_flag fs ''public_meshtastic_key_enabled'') else Inr p) (\<lambda>p.
    bind_result (validate_preferences p) (\<lambda>_. Inr p)))))))))"

end
