(* ===== verification/SettingsFile.thy ===== *)
theory SettingsFile
  imports Preferences "HOL-Library.Sublist"
begin

text \<open>
  The file of the settings (\<open>preferences.cpp\<close>): reading it with its checks, the atomic
  replacement through a temporary file, loading and saving, and the name of a new survey.
  What the operating system decides (random bytes, the date, which calls fail) is an argument.
\<close>

section \<open>Reading\<close>

definition settings_path :: "preference_paths \<Rightarrow> string list" where
  "settings_path paths = split_path (pp_settings_file paths)"

definition read_settings :: "file_system \<Rightarrow> preference_paths \<Rightarrow> string option result" where
  "read_settings fs paths =
    bind_result (path_from (pp_directory paths)) (\<lambda>d.
    bind_result (directory_exists fs (split_path d)) (\<lambda>present.
    if \<not> present then Inr None
    else
      bind_result (verify_private_directory fs (split_path d)) (\<lambda>_.
      bind_result (validate_local_file_path fs (pp_settings_file paths)) (\<lambda>_.
      bind_result (path_from (pp_settings_file paths)) (\<lambda>_.
      case symlink_status fs (settings_path paths) of
        Missing \<Rightarrow> Inr None
      | Found (File a content) \<Rightarrow>
          bind_result (guard_err (fs_fails fs ''open'') ''Cannot read desktop settings'') (\<lambda>_.
          bind_result (verify_private False (File a content)) (\<lambda>_.
          bind_result (guard_err (length content > 32768) ''Oversized desktop settings'') (\<lambda>_.
          bind_result (guard_err (fs_fails fs ''read'') ''Cannot read desktop settings'') (\<lambda>_.
          Inr (Some content)))))
      | _ \<Rightarrow> Inl ''Desktop settings are not a regular local file'')))))"

definition parse_existing :: "string option \<Rightarrow> unit result" where
  "parse_existing existing =
    (case existing of None \<Rightarrow> Inr () | Some s \<Rightarrow> bind_result (parse s) (\<lambda>_. Inr ()))"

section \<open>Writing\<close>

definition private_file :: file_attributes where
  "private_file = \<lparr>at_owned = True, at_mode = 384, at_links = 1\<rparr>"

definition put_node :: "string list \<Rightarrow> node option \<Rightarrow> file_system \<Rightarrow> file_system" where
  "put_node p n fs = fs\<lparr>fs_nodes := (fs_nodes fs)(p := n)\<rparr>"

text \<open>The destructor that removes the temporary file unless it has replaced the settings.\<close>

definition remove_temporary :: "string list \<Rightarrow> file_system \<Rightarrow> file_system" where
  "remove_temporary p fs = (if fs_fails fs ''remove'' then fs else put_node p None fs)"

text \<open>What is done between the creation of the temporary file and its renaming.\<close>

definition prepare_replacement :: "preference_paths \<Rightarrow> file_system \<Rightarrow> unit result" where
  "prepare_replacement paths fs =
    bind_result (guard_err (fs_fails fs ''write'') ''Cannot write desktop settings'') (\<lambda>_.
    bind_result (guard_err (fs_fails fs ''fsync'') ''Cannot flush desktop settings'') (\<lambda>_.
    bind_result (read_settings fs paths) (\<lambda>existing.
    bind_result (parse_existing existing) (\<lambda>_.
    bind_result (validate_local_file_path fs (pp_settings_file paths)) (\<lambda>_.
    guard_err (fs_fails fs ''rename'') ''Cannot replace desktop settings'')))))"

definition temporary_path :: "preference_paths \<Rightarrow> string \<Rightarrow> string list" where
  "temporary_path paths x = split_path (pp_directory paths) @ [''.preferences-'' @ x @ ''.tmp'']"

definition atomic_write :: "string option \<Rightarrow> preference_paths \<Rightarrow> string \<Rightarrow> file_system \<Rightarrow> file_system \<times> unit result" where
  "atomic_write rnd paths text fs =
    (case rnd of
       None \<Rightarrow> (fs, Inl ''Cannot generate a unique local filename'')
     | Some x \<Rightarrow>
         (let temporary = temporary_path paths x in
          case validate_local_file_path fs (path_text temporary) of
            Inl e \<Rightarrow> (fs, Inl e)
          | Inr _ \<Rightarrow>
              if fs_fails fs ''create'' \<or> fs_nodes fs temporary \<noteq> None then
                (fs, Inl ''Cannot create private settings file'')
              else
                (let fs = put_node temporary (Some (File private_file text)) fs in
                 case prepare_replacement paths fs of
                   Inl e \<Rightarrow> (remove_temporary temporary fs, Inl e)
                 | Inr _ \<Rightarrow>
                     (let fs = put_node temporary None
                        (put_node (settings_path paths) (Some (File private_file text)) fs)
                      in (fs, guard_err (fs_fails fs ''fsync-directory'')
                        ''Settings were saved, but their directory could not be flushed'')))))"

definition ensure_directories :: "preference_paths \<Rightarrow> file_system \<Rightarrow> file_system \<times> unit result" where
  "ensure_directories paths fs =
    (case check_paths paths of
       Inl e \<Rightarrow> (fs, Inl e)
     | Inr _ \<Rightarrow>
         (case create_directory_tree fs (split_path (pp_directory paths)) of
            (fs, Inl e) \<Rightarrow> (fs, Inl e)
          | (fs, Inr _) \<Rightarrow> create_directory_tree fs (split_path (pp_surveys paths))))"

section \<open>Loading and saving\<close>

definition load_preferences :: "file_system \<Rightarrow> preference_paths \<Rightarrow> preferences result" where
  "load_preferences fs paths =
    bind_result (check_paths paths) (\<lambda>_.
    bind_result (read_settings fs paths) (\<lambda>existing.
    case existing of
      None \<Rightarrow> Inr (default_preferences\<lparr>pf_directory := pp_surveys paths\<rparr>)
    | Some text \<Rightarrow> parse text))"

definition save_preferences :: "string option \<Rightarrow> preference_paths \<Rightarrow> preferences \<Rightarrow> file_system \<Rightarrow> file_system \<times> unit result" where
  "save_preferences rnd paths p fs =
    (case bind_result (check_paths paths) (\<lambda>_.
        bind_result (serialize p) (\<lambda>text.
        bind_result (read_settings fs paths) (\<lambda>existing.
        bind_result (parse_existing existing) (\<lambda>_. Inr text)))) of
       Inl e \<Rightarrow> (fs, Inl e)
     | Inr text \<Rightarrow>
         (case ensure_directories paths fs of
            (fs, Inl e) \<Rightarrow> (fs, Inl e)
          | (fs, Inr _) \<Rightarrow> atomic_write rnd paths text fs))"

text \<open>The name of a new survey: eight attempts, each with its own random rnd.\<close>

fun survey_attempts :: "file_system \<Rightarrow> string list \<Rightarrow> string \<Rightarrow> string option list \<Rightarrow> nat \<Rightarrow> string result" where
  "survey_attempts fs folder date rnds 0 = Inl ''Cannot choose a new survey filename''"
| "survey_attempts fs folder date [] (Suc n) = Inl ''Cannot generate a unique local filename''"
| "survey_attempts fs folder date (None # rnds) (Suc n) = Inl ''Cannot generate a unique local filename''"
| "survey_attempts fs folder date (Some x # rnds) (Suc n) =
     (let file = folder @ [''survey-'' @ date @ ''-'' @ x @ ''.sqlite''] in
      bind_result (validate_local_file_path fs (path_text file)) (\<lambda>_.
      case symlink_status fs file of
        Missing \<Rightarrow> Inr (path_text file)
      | Status_error \<Rightarrow> Inl ''Cannot inspect the new survey destination''
      | Found _ \<Rightarrow> survey_attempts fs folder date rnds n))"

definition new_survey_path :: "file_system \<Rightarrow> string \<Rightarrow> string option list \<Rightarrow> string \<Rightarrow> string result" where
  "new_survey_path fs date rnds directory =
    bind_result (absolute_directory directory) (\<lambda>folder.
    bind_result (validate_local_file_path fs (path_text (folder @ [''.ovmesh-survey-path-check'']))) (\<lambda>_.
    bind_result (directory_exists fs folder) (\<lambda>present.
    if \<not> present then Inl ''Recording directory is unavailable; choose another local folder''
    else survey_attempts fs folder date rnds 8)))"

section \<open>Parsing inverts serialising\<close>

lemma parse_fields_Nil [simp]: "parse_fields [] acc = Inr acc"
  by (subst parse_fields.simps) simp

definition plain_key :: "string \<Rightarrow> bool" where
  "plain_key k \<longleftrightarrow> k \<noteq> [] \<and> CHR ''='' \<notin> set k \<and> newline \<notin> set k"

lemma parse_field:
  assumes "plain_key k" "newline \<notin> set v" "length acc < 42" "k \<notin> fst ` set acc"
  shows "parse_fields (k @ CHR ''='' # v @ newline # s) acc = parse_fields s (acc @ [(k, v)])"
proof -
  have "list_all (\<lambda>c. c \<noteq> newline) (k @ CHR ''='' # v)"
    using assms(1,2) by (auto simp: list_all_iff plain_key_def newline_def)
  from takeWhile_stop [OF this, of newline s]
  have line: "takeWhile (\<lambda>c. c \<noteq> newline) (k @ CHR ''='' # v @ newline # s) = k @ CHR ''='' # v"
    by simp
  have name: "takeWhile (\<lambda>c. c \<noteq> CHR ''='') (k @ CHR ''='' # v) = k"
    by (rule takeWhile_stop) (use assms(1) in \<open>auto simp: list_all_iff plain_key_def\<close>)
  show ?thesis
    by (subst parse_fields.simps) (use assms in \<open>simp add: Let_def line name plain_key_def\<close>)
qed

lemma parse_fields_text:
  assumes "distinct (map fst (acc @ kvs))" "length (acc @ kvs) \<le> 42"
    and "list_all (\<lambda>(k, v). plain_key k \<and> newline \<notin> set v) kvs"
  shows "parse_fields (field_text kvs) acc = Inr (acc @ kvs)"
  using assms
proof (induction kvs arbitrary: acc)
  case (Cons kv kvs)
  obtain k v where kv: "kv = (k, v)" by fastforce
  have "field_text (kv # kvs) = k @ CHR ''='' # v @ newline # field_text kvs"
    by (simp add: field_text_def kv)
  then have "parse_fields (field_text (kv # kvs)) acc = parse_fields (field_text kvs) (acc @ [(k, v)])"
    using Cons.prems by (simp only:) (rule parse_field; simp add: kv image_iff; force)
  also have "\<dots> = Inr ((acc @ [(k, v)]) @ kvs)"
    by (rule Cons.IH) (use Cons.prems kv in simp_all)
  finally show ?case by (simp add: kv)
qed (simp add: field_text_def)

lemma digits_no_newline: "list_all is_digit s \<Longrightarrow> newline \<notin> set s"
  by (auto simp: list_all_iff newline_def is_digit_def code_def)

lemma hex_no_newline: "newline \<notin> set (hex_encode bs)"
proof -
  have "newline \<noteq> hex_char v" if "v < 16" for v
  proof
    assume "newline = hex_char v"
    moreover have "32 < code (hex_char v)" using lower_hex_digit_table that by (simp add: list_all_iff)
    ultimately have "32 < code newline" by simp
    then show False by (simp add: newline_def code_def)
  qed
  then have "newline \<noteq> hex_char (unat b div 16)" "newline \<noteq> hex_char (unat b mod 16)" for b :: u8
    using byte_nibbles(1,2) [of b] by blast+
  then show ?thesis by (auto simp: hex_encode_def)
qed

lemma no_newline [simp]:
  "newline \<notin> set (flag b)" "newline \<notin> set (show_nat n)" "newline \<notin> set (show_int i)"
  "newline \<notin> set (hex_of_text s)" "newline \<notin> set (receiver_name r)" "newline \<notin> set (show_word w)"
proof -
  show nat: "newline \<notin> set (show_nat n)" for n by (rule digits_no_newline [OF show_nat_digits])
  show "newline \<notin> set (show_int i)" using nat by (auto simp: show_int_def newline_def)
  show "newline \<notin> set (show_word w)" unfolding show_word_def by (rule nat)
  show "newline \<notin> set (hex_of_text s)" unfolding hex_of_text_def by (rule hex_no_newline)
qed (auto simp: flag_def newline_def receiver_name_def split: desktop_receiver.splits)

lemma show_nat_small: "show_nat 0 = ''0''" "show_nat (Suc 0) = ''1''" "show_nat 2 = ''2''"
  by code_simp+

text \<open>The names of the fields of a file with one and with two boards.\<close>

definition field_names :: "nat \<Rightarrow> string list" where
  "field_names n = map fst (all_fields (default_preferences\<lparr>pf_boards :=
     default_concentrators\<lparr>cc_boards := replicate n default_board\<rparr>\<rparr>))"

lemma names_main: "map fst (main_fields p) = map fst (main_fields q)"
  by (simp add: main_fields_def)

lemma names_board: "map fst (board_fields i b) = map fst (board_fields i b')"
  by (simp add: board_fields_def)

lemma names_all: "map fst (all_fields p) = field_names (length (cc_boards (pf_boards p)))"
proof -
  have "concat (map (\<lambda>(i, b). map fst (board_fields i b)) (enumerate m bs)) =
      concat (map (\<lambda>(i, b). map fst (board_fields i b)) (enumerate m (replicate (length bs) default_board)))" for m bs
  proof (induction bs arbitrary: m)
    case (Cons b bs)
    then show ?case using names_board [of m b default_board] by simp
  qed simp
  from this [of 0 "cc_boards (pf_boards p)"] show ?thesis
    by (simp add: field_names_def all_fields_def map_concat comp_def case_prod_beta' names_main [of p])
qed

lemma names_ok:
  "distinct (field_names 1) \<and> length (field_names 1) = 35 \<and> list_all plain_key (field_names 1)"
  "distinct (field_names 2) \<and> length (field_names 2) = 42 \<and> list_all plain_key (field_names 2)"
  by (simp_all add: field_names_def all_fields_def main_fields_def board_fields_def board_key_def show_nat_small
      numeral_2_eq_2 default_concentrators_def plain_key_def newline_def)


lemma field_at_mem: "distinct (map fst fs) \<Longrightarrow> (k, v) \<in> set fs \<Longrightarrow> field_at fs k = Inr v"
  by (simp add: field_at_def)

lemma read_flag_mem: "distinct (map fst fs) \<Longrightarrow> (k, flag b) \<in> set fs \<Longrightarrow> read_flag fs k = Inr b"
  by (auto simp: read_flag_def field_at_mem flag_def)

lemma read_field_word_mem:
  "distinct (map fst fs) \<Longrightarrow> (k, show_word w) \<in> set fs \<Longrightarrow> read_field_word fs k = Inr (w :: 'a::len word)"
  by (simp add: read_field_word_def field_at_mem)

lemma read_field_int_mem:
  "distinct (map fst fs) \<Longrightarrow> (k, show_int i) \<in> set fs \<Longrightarrow> - int limit \<le> i \<Longrightarrow> i < int limit \<Longrightarrow>
    read_field_int limit fs k = Inr i"
  by (simp add: read_field_int_def field_at_mem read_signed_show)

lemma hex_decode_of_text: "valid_text s limit \<Longrightarrow> hex_decode (hex_of_text s) limit = Inr s"
proof -
  assume v: "valid_text s limit"
  then have len: "length (hex_of_text s) \<le> limit * 2" "even (length (hex_of_text s))"
    by (simp_all add: hex_of_text_def valid_text_def)
  have "map char_of_byte (map byte_of s) = s" by (simp add: comp_def)
  with v len show ?thesis by (simp add: hex_decode_def hex_of_text_def lower_hex_encode)
qed

lemma read_text_mem:
  "distinct (map fst fs) \<Longrightarrow> (k, hex_of_text s) \<in> set fs \<Longrightarrow> valid_text s limit \<Longrightarrow> read_text fs k limit = Inr s"
  by (simp add: read_text_def field_at_mem hex_decode_of_text)

lemma read_baud_show:
  assumes "w \<in> {4800, 9600, 19200, 38400, 57600, 115200}"
  shows "read_baud (show_word w) = Inr w"
proof -
  have "unat w \<noteq> 0" "unat w < 10 ^ Suc 5" using assms by auto
  then have "hd (show_word w) \<noteq> CHR ''0''" "length (show_word w) \<le> 6"
    using hd_show_nat [of "unat w"] length_show_nat [of "unat w" 5] by (simp_all add: show_word_def)
  then show ?thesis by (simp add: read_baud_def show_word_def show_nat_digits)
qed

text \<open>What an accepted record of settings satisfies, as far as its text form depends on it.\<close>

definition writable :: "preferences \<Rightarrow> bool" where
  "writable p \<longleftrightarrow> valid_text (pf_directory p) 4096 \<and> valid_text (pf_gps_id p) 4096 \<and>
    pf_baud p \<in> {4800, 9600, 19200, 38400, 57600, 115200} \<and> \<bar>pf_offset p\<bar> \<le> 100000 \<and>
    -100 \<le> pf_rtl_gain p \<and> pf_rtl_gain p \<le> 600 \<and>
    list_all (\<lambda>b. valid_text (bc_path b) 1024 \<and> valid_text (bc_id b) 2048) (cc_boards (pf_boards p)) \<and>
    (length (cc_boards (pf_boards p)) = 1 \<or> length (cc_boards (pf_boards p)) = 2)"

lemma validate_concentrator_count:
  "validate_concentrator_config cc a b d e = Inr () \<Longrightarrow> length (cc_boards cc) = 1 \<or> length (cc_boards cc) = 2"
proof -
  assume "validate_concentrator_config cc a b d e = Inr ()"
  then have "cc_boards cc \<noteq> []" "\<not> 2 < length (cc_boards cc)"
    unfolding validate_concentrator_config_def bind_result_Inr guard_err_Inr by blast+
  then have "length (cc_boards cc) \<noteq> 0" "length (cc_boards cc) \<le> 2" by simp_all
  then show ?thesis by linarith
qed

lemma validate_writable:
  assumes "validate_preferences p = Inr ()"
  shows "writable p"
proof -
  have v: "(\<exists>d. absolute_directory (pf_directory p) = Inr d) \<and> valid_text (pf_gps_id p) 4096 \<and>
      pf_baud p \<in> {4800, 9600, 19200, 38400, 57600, 115200} \<and> \<not> (pf_offset p < -100000 \<or> pf_offset p > 100000) \<and>
      \<not> (pf_rtl_gain p < -100 \<or> pf_rtl_gain p > 600) \<and>
      for_each (\<lambda>i b. check_preferred_board b) 0 (cc_boards (pf_boards p)) = Inr () \<and>
      (\<exists>a b d. validate_concentrator_config (pf_boards p) a b d False = Inr ())"
    using assms unfolding validate_preferences_def bind_result_Inr guard_err_Inr Let_def
    by (elim exE conjE, intro conjI exI) (assumption | (simp; fail))+
  have "valid_text (pf_directory p) 4096"
    using v by (auto simp: absolute_directory_def path_from_def bind_result_Inr split: if_splits)
  moreover have "list_all (\<lambda>b. valid_text (bc_path b) 1024 \<and> valid_text (bc_id b) 2048) (cc_boards (pf_boards p))"
    using v unfolding for_each_Inr check_preferred_board_def bind_result_Inr guard_err_Inr
    by (auto simp: list_all_length)
  moreover have "length (cc_boards (pf_boards p)) = 1 \<or> length (cc_boards (pf_boards p)) = 2"
    using v validate_concentrator_count by blast
  ultimately show ?thesis using v by (auto simp: writable_def)
qed

lemma read_boards_all:
  assumes "distinct (map fst fs)" "list_all (\<lambda>b. valid_text (bc_path b) 1024 \<and> valid_text (bc_id b) 2048) bs"
    "\<forall>j<length bs. set (board_fields (i + j) (bs ! j)) \<subseteq> set fs"
  shows "read_boards fs i (length bs) = Inr bs"
  using assms(2,3)
proof (induction bs arbitrary: i)
  case (Cons b bs)
  have sub: "set (board_fields i b) \<subseteq> set fs" using Cons.prems(2) by force
  note get = read_text_mem [OF assms(1)] read_flag_mem [OF assms(1)] read_field_word_mem [OF assms(1)]
  have mem: "x \<in> set (board_fields i b) \<Longrightarrow> x \<in> set fs" for x using sub by blast
  have "read_text fs (board_key i ''path'') 1024 = Inr (bc_path b)" "read_text fs (board_key i ''id'') 2048 = Inr (bc_id b)"
    "read_flag fs (board_key i ''packets'') = Inr (bc_packets b)"
    "read_field_word fs (board_key i ''frequency_hz'') = Inr (bc_freq b)"
    "read_field_word fs (board_key i ''bandwidth_hz'') = Inr (bc_bw b)"
    "read_field_word fs (board_key i ''sf'') = Inr (bc_sf b)" "read_field_word fs (board_key i ''sync_word'') = Inr (bc_sync b)"
    by (rule get; (rule mem)?; use Cons.prems(1) in \<open>simp add: board_fields_def\<close>)+
  then have "read_board fs i = Inr b" by (simp add: read_board_def)
  moreover have "read_boards fs (Suc i) (length bs) = Inr bs"
    by (rule Cons.IH) (use Cons.prems in force)+
  ultimately show ?case by simp
qed simp

lemma enumerate_fields:
  "j < length bs \<Longrightarrow> set (board_fields (m + j) (bs ! j)) \<subseteq> set (concat (map (\<lambda>(i, b). board_fields i b) (enumerate m bs)))"
proof (induction bs arbitrary: m j)
  case (Cons b bs)
  show ?case
  proof (cases j)
    case (Suc k)
    with Cons.IH [of k "Suc m"] Cons.prems show ?thesis by auto
  qed simp
qed simp

lemma all_updates:
  "default_preferences\<lparr>pf_gps := pf_gps p, pf_recording := pf_recording p, pf_discover := pf_discover p,
     pf_compact := pf_compact p, pf_directory := pf_directory p, pf_gps_id := pf_gps_id p, pf_baud := pf_baud p,
     pf_offset := pf_offset p, pf_receiver := pf_receiver p, pf_center := pf_center p, pf_rate := pf_rate p,
     pf_span := pf_span p, pf_lna := pf_lna p, pf_vga := pf_vga p, pf_amp := pf_amp p, pf_decode := pf_decode p,
     pf_spectrum_only := pf_spectrum_only p, pf_mixed_fonts := pf_mixed_fonts p, pf_mobile := pf_mobile p,
     pf_rtl_gain := pf_rtl_gain p, pf_rtl_auto := pf_rtl_auto p, pf_boards := pf_boards p,
     pf_public_key := pf_public_key p\<rparr> = p"
  by (cases p) (simp add: default_preferences_def)

lemma parse_all_fields:
  assumes w: "writable p" and valid: "validate_preferences p = Inr ()"
    and len: "length (field_text (all_fields p)) \<le> 32768"
  shows "parse (field_text (all_fields p)) = Inr p"
proof -
  let ?fs = "all_fields p" and ?n = "length (cc_boards (pf_boards p))"
  have n: "?n = 1 \<or> ?n = 2" using w by (simp add: writable_def)
  have names: "distinct (map fst ?fs)" "length ?fs = 28 + ?n * 7" "list_all plain_key (map fst ?fs)"
    using n names_ok length_map [of fst ?fs] unfolding names_all by auto
  have plain: "list_all (\<lambda>(k, v). plain_key k \<and> newline \<notin> set v) ?fs"
  proof -
    have "list_all (\<lambda>(k, v). newline \<notin> set v) (main_fields p)"
      by (simp add: main_fields_def) (simp add: newline_def)
    moreover have "list_all (\<lambda>(k, v). newline \<notin> set v) (board_fields i b)" for i b
      by (simp add: board_fields_def)
    ultimately have vals: "newline \<notin> set v" if "(k, v) \<in> set ?fs" for k v
      using that unfolding all_fields_def list_all_iff by fastforce
    have keys: "plain_key k" if "(k, v) \<in> set ?fs" for k v
    proof -
      have "k \<in> set (map fst ?fs)" using that by force
      then show ?thesis using names(3) by (metis list_all_iff)
    qed
    show ?thesis unfolding list_all_iff using keys vals by blast
  qed
  have distinct: "distinct (map fst ?fs)" and flen: "length ?fs = 28 + ?n * 7" using names by blast+
  have fields: "parse_fields (field_text ?fs) [] = Inr ?fs"
    using parse_fields_text [of "[]" ?fs] names n plain by auto
  have last: "field_text ?fs \<noteq> []" "last (field_text ?fs) = newline"
  proof -
    obtain ks k v where "?fs = ks @ [(k, v)]" using names(2) by (metis length_0_conv add_is_0 rev_exhaust surj_pair zero_neq_numeral)
    then show "field_text ?fs \<noteq> []" "last (field_text ?fs) = newline" by (simp_all add: field_text_def)
  qed
  have main: "set (main_fields p) \<subseteq> set ?fs" by (simp add: all_fields_def)
  note get = read_flag_mem [OF names(1)] read_field_word_mem [OF names(1)] read_field_int_mem [OF names(1)]
    read_text_mem [OF names(1)] field_at_mem [OF names(1)]
  have mem: "x \<in> set (main_fields p) \<Longrightarrow> x \<in> set ?fs" for x using main by blast
  have version: "field_at ?fs ''version'' = Inr ''8''"
    by (intro get mem) (simp add: main_fields_def)
  have eight: "digit_val CHR ''8'' = 8" by code_simp
  have bounds: "- int (2 ^ 63) \<le> pf_offset p" "pf_offset p < int (2 ^ 63)" "- int (2 ^ 31) \<le> pf_rtl_gain p"
    "pf_rtl_gain p < int (2 ^ 31)" "valid_text (pf_directory p) 4096" "valid_text (pf_gps_id p) 4096"
    using w by (auto simp: writable_def abs_le_iff)
  have has: "has_field ?fs k" if "k \<in> set (map fst (main_fields p))" for k
    using that main by (force simp: has_field_def)
  have names: "check_names ?fs = Inr 8"
    using names(2) n unfolding check_names_def version
    by (simp add: eight has main_fields_def guard_err_def Let_def)
  have "read_base ?fs 8 = Inr (default_preferences\<lparr>pf_gps := pf_gps p, pf_recording := pf_recording p,
      pf_discover := pf_discover p, pf_compact := pf_compact p, pf_directory := pf_directory p, pf_gps_id := pf_gps_id p,
      pf_baud := pf_baud p, pf_offset := pf_offset p\<rparr>)" (is "_ = Inr ?p1")
  proof -
    have "read_flag ?fs ''gps_enabled'' = Inr (pf_gps p)" "read_flag ?fs ''recording_enabled'' = Inr (pf_recording p)"
      "read_flag ?fs ''discover_lora'' = Inr (pf_discover p)" "read_flag ?fs ''compact_recording'' = Inr (pf_compact p)"
      "read_text ?fs ''recording_directory'' 4096 = Inr (pf_directory p)" "read_text ?fs ''gps_device_id'' 4096 = Inr (pf_gps_id p)"
      "field_at ?fs ''gps_baud'' = Inr (show_word (pf_baud p))"
      "read_field_int (2 ^ 63) ?fs ''tuning_offset_hz'' = Inr (pf_offset p)"
      by (rule get; ((rule bounds) | (rule mem)?; simp add: main_fields_def))+
    moreover have "read_baud (show_word (pf_baud p)) = Inr (pf_baud p)"
      using w by (intro read_baud_show) (simp add: writable_def)
    ultimately show ?thesis by (simp add: read_base_def)
  qed
  moreover have "read_receiver_fields ?fs 8 ?p1 = Inr (?p1\<lparr>pf_receiver := pf_receiver p, pf_center := pf_center p,
      pf_rate := pf_rate p, pf_span := pf_span p, pf_lna := pf_lna p, pf_vga := pf_vga p, pf_amp := pf_amp p,
      pf_decode := pf_decode p, pf_spectrum_only := pf_spectrum_only p, pf_mixed_fonts := pf_mixed_fonts p,
      pf_mobile := pf_mobile p\<rparr>)" (is "_ = Inr ?p2")
  proof -
    have "field_at ?fs ''receiver_source'' = Inr (receiver_name (pf_receiver p))"
      "read_field_word ?fs ''center_hz'' = Inr (pf_center p)" "read_field_word ?fs ''sample_rate'' = Inr (pf_rate p)"
      "read_field_word ?fs ''survey_span_hz'' = Inr (pf_span p)" "read_field_word ?fs ''lna_gain'' = Inr (pf_lna p)"
      "read_field_word ?fs ''vga_gain'' = Inr (pf_vga p)" "read_flag ?fs ''amplifier'' = Inr (pf_amp p)"
      "read_flag ?fs ''decode_enabled'' = Inr (pf_decode p)" "read_flag ?fs ''spectrum_only'' = Inr (pf_spectrum_only p)"
      "read_flag ?fs ''mixed_fonts'' = Inr (pf_mixed_fonts p)" "read_flag ?fs ''mobile_position_display'' = Inr (pf_mobile p)"
      by (rule get; (rule mem)?; simp add: main_fields_def)+
    then show ?thesis
      by (cases "pf_receiver p") (simp_all add: read_receiver_fields_def read_receiver_def receiver_name_def)
  qed
  moreover have "read_rtl_fields ?fs ?p2 = Inr (?p2\<lparr>pf_rtl_gain := pf_rtl_gain p, pf_rtl_auto := pf_rtl_auto p\<rparr>)"
    (is "_ = Inr ?p3")
  proof -
    have "read_field_int (2 ^ 31) ?fs ''rtl_gain_tenths_db'' = Inr (pf_rtl_gain p)" "read_flag ?fs ''rtl_auto_gain'' = Inr (pf_rtl_auto p)"
      by (rule get; ((rule bounds) | (rule mem)?; simp add: main_fields_def))+
    then show ?thesis by (simp add: read_rtl_fields_def)
  qed
  moreover have "read_rak_fields ?fs 8 ?p3 = Inr (?p3\<lparr>pf_boards := pf_boards p\<rparr>)" (is "_ = Inr ?p4")
  proof -
    have count: "unat (word_of_nat ?n :: u32) = ?n" using n by auto
    then have show_count: "show_word (word_of_nat ?n :: u32) = show_nat ?n" by (simp add: show_word_def)
    have r: "read_field_word ?fs ''rak_board_count'' = Inr (word_of_nat ?n :: u32)"
      by (rule get; rule mem) (simp add: main_fields_def show_count)
    have f: "read_flag ?fs ''rak_scan_enabled'' = Inr (cc_scan (pf_boards p))"
      "read_flag ?fs ''rak_decode_enabled'' = Inr (cc_decode (pf_boards p))"
      "read_field_word ?fs ''rak_scan_step_hz'' = Inr (cc_step (pf_boards p))"
      "read_field_word ?fs ''rak_scan_samples'' = Inr (cc_samples (pf_boards p))"
      by (rule get; (rule mem)?; simp add: main_fields_def)+
    have "read_boards ?fs 0 ?n = Inr (cc_boards (pf_boards p))"
    proof (rule read_boards_all [OF distinct])
      show "list_all (\<lambda>b. valid_text (bc_path b) 1024 \<and> valid_text (bc_id b) 2048) (cc_boards (pf_boards p))"
        using w by (simp add: writable_def)
      show "\<forall>j<?n. set (board_fields (0 + j) (cc_boards (pf_boards p) ! j)) \<subseteq> set ?fs"
        using enumerate_fields [of _ "cc_boards (pf_boards p)" 0] unfolding all_fields_def by (metis sup.coboundedI2 set_append)
    qed
    then show ?thesis
      using n count r f flen unfolding read_rak_fields_def
      by (auto simp: guard_err_def)
  qed
  moreover have "read_flag ?fs ''public_meshtastic_key_enabled'' = Inr (pf_public_key p)"
    by (rule get; rule mem) (simp add: main_fields_def)
  ultimately show ?thesis
    using fields last len names valid unfolding parse_def by (simp add: guard_err_def map_result_def all_updates)
qed

lemma settings_round_trip_aux:
  assumes "serialize p = Inr text"
  shows "parse text = Inr p"
proof -
  have "validate_preferences p = Inr ()" "text = field_text (all_fields p)" "length text \<le> 32768"
    using assms by (auto simp: serialize_def bind_result_Inr Let_def split: if_splits)
  then show ?thesis using parse_all_fields [OF validate_writable] by blast
qed

text \<open>
  C14: settings survive. The text that \<open>serialize\<close> writes for accepted settings is read back by
  \<open>parse\<close> as exactly these settings, with every text, number and board.
\<close>

theorem settings_round_trip:
  assumes "serialize p = Inr text"
  shows "parse text = Inr p"
  using assms by (rule settings_round_trip_aux)

definition example_settings :: preferences where
  "example_settings = default_preferences\<lparr>pf_directory := ''/home/u/Surveys'', pf_offset := -1200, pf_gps_id := ''usb:1546:01a8''\<rparr>"

lemma length_field_text: "length (field_text kvs) = sum_list (map (\<lambda>(k, v). length k + length v + 2) kvs)"
  by (induction kvs) (auto simp: field_text_def)

lemma example_serialized: "is_ok (serialize example_settings)"
proof -
  have "absolute_directory ''/home/u/Surveys'' = Inr [''home'', ''u'', ''Surveys'']"
    "valid_text ''usb:1546:01a8'' 4096" "valid_text [] 1024" "valid_text [] 2048"
    by (simp_all add: absolute_directory_def path_from_def valid_text_def code_def is_absolute_def starts_with_def
        guard_err_def)
  then have "validate_preferences example_settings = Inr ()"
    by (simp add: validate_preferences_def example_settings_def default_preferences_def default_concentrators_def
        default_board_def check_preferred_rate_def check_preferred_board_def validate_concentrator_config_def
        validate_board_def guard_err_def survey_lower_def survey_upper_def Let_def)
  moreover have "length (field_text (all_fields example_settings)) \<le> 32768"
    unfolding length_field_text
    by (simp add: all_fields_def main_fields_def board_fields_def board_key_def example_settings_def default_preferences_def
        default_concentrators_def default_board_def flag_def receiver_name_def hex_of_text_def show_word_def show_int_def
        show_nat.simps)
  ultimately show ?thesis by (simp add: serialize_def Let_def)
qed

theorem settings_round_trip_witness:
  "\<exists>text. serialize example_settings = Inr text \<and> parse text = Inr example_settings"
  using example_serialized settings_round_trip [of example_settings] by (auto simp: is_ok_iff)

section \<open>The file is replaced atomically\<close>

lemma fs_put_node [simp]:
  "fs_fails (put_node p n fs) = fs_fails fs" "fs_nodes (put_node p n fs) q = (if q = p then n else fs_nodes fs q)"
  by (simp_all add: put_node_def)

lemma create_walk_elsewhere:
  "create_walk fs d cs = (fs', r) \<Longrightarrow> \<not> prefix q (d @ cs) \<Longrightarrow> fs_nodes fs' q = fs_nodes fs q"
proof (induction cs arbitrary: fs d)
  case (Cons c cs)
  have q: "q \<noteq> d @ [c]" "\<not> prefix q ((d @ [c]) @ cs)" using Cons.prems(2) by auto
  have made: "fs_nodes (make_directory fs (d @ [c])) q = fs_nodes fs q" using q(1) by (simp add: make_directory_def)
  show ?case
    using Cons.prems(1) Cons.IH [of _ "d @ [c]"] q(2) made
    by (auto simp: Let_def split: sum.splits if_splits)
qed simp

lemma check_paths_Inr:
  assumes "check_paths paths = Inr ()"
  shows "settings_path paths = split_path (pp_directory paths) @ [''preferences.conf'']"
    "split_path (pp_surveys paths) = split_path (pp_directory paths) @ [''Surveys'']"
  using assms
  by (auto simp: check_paths_def absolute_directory_def path_from_def bind_result_Inr settings_path_def split: if_splits)

lemma ensure_directories_elsewhere:
  assumes "ensure_directories paths fs = (fs', r)"
  shows "fs_nodes fs' (settings_path paths) = fs_nodes fs (settings_path paths)"
proof (cases "check_paths paths")
  case (Inl e)
  then show ?thesis using assms by (simp add: ensure_directories_def)
next
  case (Inr u)
  then have paths: "check_paths paths = Inr ()" by simp
  have away: "\<not> prefix (settings_path paths) ([] @ split_path (pp_directory paths))"
    "\<not> prefix (settings_path paths) ([] @ split_path (pp_surveys paths))"
    unfolding check_paths_Inr [OF paths] by (auto dest: prefix_length_le)
  obtain fs1 r1 where one: "create_directory_tree fs (split_path (pp_directory paths)) = (fs1, r1)" by fastforce
  have keep: "fs_nodes fs1 (settings_path paths) = fs_nodes fs (settings_path paths)"
    using create_walk_elsewhere [OF _ away(1)] one by (simp add: create_directory_tree_def)
  show ?thesis
  proof (cases r1)
    case (Inl e)
    then show ?thesis using assms keep one paths by (simp add: ensure_directories_def)
  next
    case (Inr v)
    then have "create_directory_tree fs1 (split_path (pp_surveys paths)) = (fs', r)"
      using assms one paths by (simp add: ensure_directories_def)
    then show ?thesis
      using create_walk_elsewhere [OF _ away(2)] keep by (simp add: create_directory_tree_def)
  qed
qed

lemma atomic_write_cases:
  assumes "check_paths paths = Inr ()" "atomic_write rnd paths text fs = (fs', r)"
  shows "(r = Inr () \<longrightarrow> fs_nodes fs' (settings_path paths) = Some (File private_file text)) \<and>
    (\<forall>e. r = Inl e \<longrightarrow> fs_nodes fs' (settings_path paths) = fs_nodes fs (settings_path paths) \<or>
      (e = ''Settings were saved, but their directory could not be flushed'' \<and>
        fs_nodes fs' (settings_path paths) = Some (File private_file text)))"
proof (cases rnd)
  case None
  then show ?thesis using assms(2) by (auto simp: atomic_write_def)
next
  case (Some x)
  define t where "t = temporary_path paths x"
  have ne: "settings_path paths \<noteq> t" by (simp add: t_def temporary_path_def check_paths_Inr [OF assms(1)])
  let ?fs1 = "put_node t (Some (File private_file text)) fs"
  consider (bad) e where "validate_local_file_path fs (path_text t) = Inl e"
    | (taken) "validate_local_file_path fs (path_text t) = Inr ()" "fs_fails fs ''create'' \<or> fs_nodes fs t \<noteq> None"
    | (made) "validate_local_file_path fs (path_text t) = Inr ()" "\<not> (fs_fails fs ''create'' \<or> fs_nodes fs t \<noteq> None)"
    by (cases "validate_local_file_path fs (path_text t)") (blast, metis old.unit.exhaust)
  then show ?thesis
  proof cases
    case made
    show ?thesis
    proof (cases "prepare_replacement paths ?fs1")
      case (Inl e)
      then show ?thesis using assms(2) made Some ne
        by (auto simp: atomic_write_def Let_def t_def [symmetric] remove_temporary_def split: if_splits)
    next
      case (Inr u)
      then show ?thesis using assms(2) made Some ne
        by (auto simp: atomic_write_def Let_def t_def [symmetric] guard_err_def split: if_splits)
    qed
  qed (use assms(2) Some in \<open>auto simp: atomic_write_def Let_def t_def [symmetric]\<close>)
qed

text \<open>
  C9: saving is all or nothing. Whatever fails and wherever, the settings file holds either
  exactly what it held before or exactly the new text, private to its owner; it holds the new
  text when the save succeeds, and then reading that text gives the saved settings; and the
  only failure after the replacement is that the directory could not be flushed. Readable
  settings that do not parse are never replaced: the save fails and changes nothing.
\<close>

theorem save_atomic:
  assumes "save_preferences rnd paths p fs = (fs', r)"
  defines "f \<equiv> settings_path paths"
  shows "(r = Inr () \<longrightarrow> (\<exists>text. serialize p = Inr text \<and> parse text = Inr p \<and>
        fs_nodes fs' f = Some (File private_file text))) \<and>
    (\<forall>e. r = Inl e \<longrightarrow> fs_nodes fs' f = fs_nodes fs f \<or>
        (e = ''Settings were saved, but their directory could not be flushed'' \<and>
          (\<exists>text. serialize p = Inr text \<and> fs_nodes fs' f = Some (File private_file text)))) \<and>
    (\<forall>old. read_settings fs paths = Inr (Some old) \<and> \<not> is_ok (parse old) \<longrightarrow> r \<noteq> Inr () \<and> fs' = fs)"
proof -
  let ?pre = "bind_result (check_paths paths) (\<lambda>_. bind_result (serialize p) (\<lambda>text.
    bind_result (read_settings fs paths) (\<lambda>existing. bind_result (parse_existing existing) (\<lambda>_. Inr text))))"
  have broken: "?pre \<noteq> Inr t" if "read_settings fs paths = Inr (Some old)" "\<not> is_ok (parse old)" for old t
    using that by (cases "parse old") (auto simp: bind_result_Inr parse_existing_def)
  show ?thesis
  proof (cases ?pre)
    case (Inl e)
    then have "fs' = fs" "r = Inl e" using assms(1) by (simp_all add: save_preferences_def)
    then show ?thesis by simp
  next
    case (Inr t)
    then have paths: "check_paths paths = Inr ()" and ser: "serialize p = Inr t"
      by (auto simp: bind_result_Inr)
    obtain fs1 r1 where dirs: "ensure_directories paths fs = (fs1, r1)" by fastforce
    note keep = ensure_directories_elsewhere [OF dirs]
    have nb: "\<forall>old. read_settings fs paths = Inr (Some old) \<and> \<not> is_ok (parse old) \<longrightarrow> r \<noteq> Inr () \<and> fs' = fs"
      using broken Inr by blast
    show ?thesis
    proof (cases r1)
      case (Inl e)
      then have "fs' = fs1" "r = Inl e" using assms(1) Inr dirs by (simp_all add: save_preferences_def)
      with nb keep show ?thesis by (simp add: f_def)
    next
      case (Inr v)
      then have "atomic_write rnd paths t fs1 = (fs', r)"
        using assms(1) \<open>?pre = Inr t\<close> dirs by (simp add: save_preferences_def)
      from atomic_write_cases [OF paths this] nb keep ser settings_round_trip_aux [OF ser] show ?thesis
        unfolding f_def by metis
    qed
  qed
qed

definition example_paths :: preference_paths where
  "example_paths = \<lparr>pp_directory = ''/s'', pp_settings_file = ''/s/preferences.conf'', pp_surveys = ''/s/Surveys''\<rparr>"

lemma example_paths_sel [simp]:
  "pp_directory example_paths = ''/s''" "pp_settings_file example_paths = ''/s/preferences.conf''"
  "pp_surveys example_paths = ''/s/Surveys''"
  by (simp_all add: example_paths_def)

definition example_fs :: file_system where
  "example_fs = \<lparr>fs_nodes = [[] \<mapsto> Dir private_directory, [''s''] \<mapsto> Dir private_directory], fs_errors = (\<lambda>_. False),
     fs_kind = (\<lambda>_. Some 61267), fs_fails = (\<lambda>_. False)\<rparr>"

lemma example_path_checks:
  "check_paths example_paths = Inr ()"
  "path_from ''/s'' = Inr ''/s''" "path_from ''/s/preferences.conf'' = Inr ''/s/preferences.conf''"
  by (simp_all add: example_paths_def check_paths_def absolute_directory_def path_from_def valid_text_def code_def
      is_absolute_def starts_with_def guard_err_def)

lemma plain_files:
  assumes "fs_errors fs = (\<lambda>_. False)" "fs_kind fs = (\<lambda>_. Some 61267)" "fs_nodes fs [] = Some (Dir a)"
    "fs_nodes fs [''s''] = Some (Dir b)"
  shows "validate_local_file_path fs ''/s'' = Inr ()"
    "fs_nodes fs [''s'', ''.ovmesh-directory-check''] = None \<Longrightarrow>
      validate_local_file_path fs ''/s/.ovmesh-directory-check'' = Inr ()"
    "fs_nodes fs [''s'', ''preferences.conf''] = None \<Longrightarrow>
      validate_local_file_path fs ''/s/preferences.conf'' = Inr ()"
    "fs_nodes fs [''s'', ''.preferences-00.tmp''] = None \<Longrightarrow>
      validate_local_file_path fs ''/s/.preferences-00.tmp'' = Inr ()"
    "fs_nodes fs [''s'', ''Surveys''] = None \<or> (\<exists>d. fs_nodes fs [''s'', ''Surveys''] = Some (Dir d)) \<Longrightarrow>
      validate_local_file_path fs ''/s/Surveys'' = Inr ()"
    "fs_nodes fs [''s'', ''Surveys''] = Some (Dir d) \<Longrightarrow> fs_nodes fs [''s'', ''Surveys'', ''.ovmesh-directory-check''] = None \<Longrightarrow>
      validate_local_file_path fs ''/s/Surveys/.ovmesh-directory-check'' = Inr ()"
  using assms
  by (auto simp: validate_local_file_path_def valid_utf8_def code_def ensure_local_path_def starts_with_def is_absolute_def
      check_prefix_def symlink_status_def remote_kinds_def guard_err_def)


theorem save_atomic_witness:
  "\<exists>fs' t. save_preferences (Some ''00'') example_paths example_settings example_fs = (fs', Inr ()) \<and>
    fs_nodes fs' [''s'', ''preferences.conf''] = Some (File private_file t) \<and> parse t = Inr example_settings"
proof -
  obtain t where t: "serialize example_settings = Inr t" using example_serialized by (auto simp: is_ok_iff)
  let ?ok = "\<lambda>fs. fs_errors fs = (\<lambda>_. False) \<and> fs_kind fs = (\<lambda>_. Some 61267) \<and> fs_fails fs = (\<lambda>_. False) \<and>
    fs_nodes fs [] = Some (Dir private_directory) \<and> fs_nodes fs [''s''] = Some (Dir private_directory) \<and>
    fs_nodes fs [''s'', ''.ovmesh-directory-check''] = None \<and> fs_nodes fs [''s'', ''preferences.conf''] = None"
  have pd: "private_directory = \<lparr>at_owned = True, at_mode = 448, at_links = 2\<rparr>" by (fact private_directory_def)
  have read: "read_settings fs example_paths = Inr None" if "?ok fs" for fs
    using that plain_files [of fs]
    by (simp add: read_settings_def example_path_checks directory_exists_def path_text_def
        symlink_status_def is_directory_def verify_private_directory_def verify_private_def pd settings_path_def
        guard_err_def Let_def)
  define fs1 where "fs1 = make_directory example_fs [''s'', ''Surveys'']"
  have ok: "?ok example_fs" "?ok fs1"
    "?ok (put_node [''s'', ''.preferences-00.tmp''] (Some (File private_file t)) fs1)"
    by (auto simp: example_fs_def fs1_def make_directory_def put_node_def fun_eq_iff)
  have more: "fs_nodes example_fs [''s'', ''Surveys''] = None" "fs_nodes fs1 [''s'', ''Surveys''] = Some (Dir private_directory)"
    "fs_nodes fs1 [''s'', ''Surveys'', ''.ovmesh-directory-check''] = None" "fs_nodes fs1 [''s'', ''.preferences-00.tmp''] = None"
    by (simp_all add: example_fs_def fs1_def make_directory_def)
  have dirs: "ensure_directories example_paths example_fs = (fs1, Inr ())"
    using ok(1,2) more plain_files [of example_fs] plain_files [of fs1]
    by (simp add: ensure_directories_def example_path_checks create_directory_tree_def path_text_def
        symlink_status_def is_directory_def verify_private_directory_def verify_private_def pd guard_err_def fs1_def [symmetric] Let_def)
  have "prepare_replacement example_paths (put_node [''s'', ''.preferences-00.tmp''] (Some (File private_file t)) fs1) = Inr ()"
    using ok(3) read [OF ok(3)] plain_files(3) [of "put_node [''s'', ''.preferences-00.tmp''] (Some (File private_file t)) fs1"]
    by (simp add: prepare_replacement_def parse_existing_def guard_err_def)
  then obtain fs' where "atomic_write (Some ''00'') example_paths t fs1 = (fs', Inr ())"
    using ok(2) more plain_files(4) [of fs1]
    by (simp add: atomic_write_def temporary_path_def path_text_def guard_err_def Let_def)
  then have run: "save_preferences (Some ''00'') example_paths example_settings example_fs = (fs', Inr ())"
    using t read [OF ok(1)] dirs by (simp add: save_preferences_def example_path_checks parse_existing_def)
  have "settings_path example_paths = [''s'', ''preferences.conf'']" by (simp add: settings_path_def)
  with save_atomic [OF run] run show ?thesis by auto
qed

end
