(* ===== verification/Spec2Isabelle.thy ===== *)
theory Spec2Isabelle
  imports DetectorScheduler DiscoveryIntake DiscoveryObservations Exports Gps LoraReceiver Presets RakSweep RecordingInvariant ScanReport SettingsFile
begin

text \<open>
  A verification library for OVMesh DR++, a receiver that surveys the radio spectrum, decodes
  LoRa frames, classifies Meshtastic traffic with the keys it is given and keeps everything in
  a recording. Samples come from a software-defined radio or from the workers of a multi-channel
  concentrator; positions come from a GPS receiver; settings come from a file. The theories
  follow the program from the radio to the store; paths are those under \<open>src/\<close>.

  \<^bold>\<open>Foundations.\<close> \<open>Prelude\<close> holds the machine integers, the result type of operations that
  throw (\<open>Inl\<close> of the message), the collections of simplification rules and the interface of an
  encoder with its decoder. \<open>Numbers\<close> reads and prints the numbers of the worker protocol,
  \<open>TextCodec\<close> the textual forms of keys (\<open>src/protocol.cpp\<close>), \<open>Utf8\<close> and \<open>LocalPaths\<close> the checks of text and of
  paths (\<open>src/preferences.cpp\<close>, \<open>src/storage.cpp\<close>).

  \<^bold>\<open>From the radio to a frame.\<close> \<open>LoraCodec\<close> is the block code (Hamming codewords, interleaver,
  whitening, checksums, \<open>third_party/sdrangel/lora_codec.hpp\<close>), \<open>PhyCodec\<close> the symbols of a whole
  frame (\<open>src/phy_codec.cpp\<close>), \<open>LoraReceiver\<close> the state machine of the streaming receiver
  (\<open>src/phy.cpp\<close>) over a sequence of symbol decisions; the transform that makes a decision from
  samples is an argument. Frames survive the encoder and decoder, also with one wrong symbol in
  every block; the decoder is total and says exactly which inputs it accepts; the receiver is
  bounded (samples, cursor, symbols, counters) and a checked header is followed by a delivered frame,
  after which the receiver searches again.

  \<^bold>\<open>Background discovery.\<close> \<open>CircularQueues\<close> shows that the fixed rings are lists and states the
  contract of a bounded queue. \<open>DiscoveryIntake\<close> is the submission of samples, the gaps and the
  counters of \<open>src/discovery_worker.cpp\<close>; \<open>DetectorScheduler\<close> its detector queues, with every
  critical section a step of an interleaving of the channelizer and three threads;
  \<open>DiscoveryObservations\<close> the association of findings of overlapping subbands. Every sample is
  accounted for; no subband is processed twice at a time, its jobs keep their order, and the
  queues make progress; the associations stay within the tolerances of a single pair.

  \<^bold>\<open>Classification.\<close> \<open>ProtobufGuard\<close> is the check of the wire format (\<open>src/protobuf_guard.hpp\<close>): what
  is accepted is described by a grammar of messages that does not mention the reader. \<open>Protocol\<close> is
  the classification of a frame with channel keys (\<open>src/protocol.cpp\<close>), the cipher an argument: the
  verdict does not depend on the order of the keys and evidence is never claimed without a key.
  \<open>Presets\<close> is the table of modem presets.

  \<^bold>\<open>Concentrators.\<close> \<open>Concentrator\<close> validates the boards and their histograms, \<open>RakRecords\<close> is the
  record protocol of a worker (\<open>src/rak_process.cpp\<close>, \<open>src/rak_worker.c\<close>), \<open>RakSurvey\<close> and \<open>RakSweep\<close> the
  division of a sweep over the boards and the accounting of their scans (\<open>src/engine_rak.inc\<close>). What
  configurations are accepted is stated exactly. The boards partition the sweep; a worker accepts its
  command line unless its device path has not the form it demands, which the configuration does not
  check, and visits only its share; and the records read back however the stream is cut. \<open>ScanReport\<close> is the frequency summary of the
  scans (\<open>src/report.cpp\<close>).

  \<^bold>\<open>Configuration and devices.\<close> \<open>ReceiverConfig\<close> validates a receiver; \<open>Preferences\<close> and \<open>SettingsFile\<close> are the
  settings document and its replacement on disk (\<open>src/preferences.cpp\<close>) as steps that may stop
  anywhere; \<open>SerialDevices\<close> chooses a serial device (\<open>src/gps_discovery.cpp\<close>); \<open>Gps\<close> parses NMEA sentences,
  completes epochs and associates positions with times (\<open>src/gps.cpp\<close>); epochs in whole milliseconds never
  go back, finer ones by less than twice the tolerance of the comparison.

  \<^bold>\<open>Recording.\<close> \<open>Survey\<close> has the records that components exchange; \<open>Rows\<close>, \<open>SpectrumCodec\<close>, \<open>SpectrumRows\<close>,
  \<open>DiscoveryRows\<close> and \<open>ReceptionRows\<close> their columns: what is validated and written is what the readers give back,
  and the metadata projection keeps no contents. \<open>SessionStore\<close> appends to the tables, \<open>Acquisitions\<close> keeps the
  history of receiver configurations, \<open>SavedConfig\<close> writes the configuration of a recording and rebuilds it from
  its rows, \<open>Recording\<close> commits and rolls back (\<open>src/storage.cpp\<close>) and has the calls of the engine as steps, and
  \<open>RecordingInvariant\<close> shows that after any of these steps, a failed one and a rollback included, a later
  reader rebuilds the configuration from the live store and from the last revision on disk, and accepts
  the history under it. The steps say what they rely on: no elapsed time beyond \<open>10 ^ 10\<close> seconds, a
  checkpoint not before the start of its acquisition (\<open>src/engine.cpp\<close> takes the maximum; \<open>update\<close> does not check
  it), and the first acquisition with the decoder setting of the recording. Not claimed are the other
  sections of \<open>read\<close> and its comparison of the history with the duration of the session. \<open>Exports\<close> is
  the text of exported files: fields of comma-separated values and text in hypertext (\<open>src/report.cpp\<close>, \<open>src/analysis_report.hpp\<close>).

  \<^bold>\<open>Conventions.\<close> A fixed-width integer is a word and wraps around. A \<open>double\<close> is a rational number,
  without rounding, and an option where the code tests for values that are not finite. A function
  that throws returns a result, its messages as in the code. Loops are structural or well-founded
  recursions; none needs fuel. The operating system, SQLite's storage of the rows bound to it, the
  cipher and the transforms are arguments or steps, and what is relied on is a hypothesis of the
  lemma that needs it.

  \<^bold>\<open>Interfaces.\<close> A locale states the contract between two components, and each is interpreted on the
  code's own definitions: an encoder with its decoder, a canonical encoding, a stored
  record with its reader, a bounded history, a bounded queue, and the plan of a sweep.

  \<^bold>\<open>Not modelled.\<close> The desktop interface; the threads of the engine and its device calls; signal processing
  over floating-point samples (spectrum, filter bank, detectors, discovery decoder), whose
  correctness is numerical; the grouping of bursts and the reports over spectrum powers, which
  depend on rounding; the command line. Within the modelled parts: the condition variables of the
  detector threads; the gap recorded when staged samples or an abandoned job are discarded; the
  failure of the store in the middle of a scan; the estimates of signal-to-noise ratio and frequency
  error of a frame; the device path in its macOS form. Whether a file system call fails depends on
  the call, not on how often it is made. The schema of the database is taken as the code creates it.
\<close>

end
